(* ===== verification/Prelude.thy ===== *)
theory Prelude
  imports Main "HOL-Library.Word"
begin

text \<open>
  Shared vocabulary of the development: the sentinel errors of
  \<^verbatim>\<open>backend/internal/shared/apperrors\<close>, the result type every fallible
  function returns, the transaction wrapper, and the generic lemmas on results, options and
  lists that the component theories use. Time is an \<open>int\<close> of nanoseconds, as
  \<open>time.Time.UnixNano\<close> reads it; a \<open>time.Duration\<close> is an \<open>int\<close> of nanoseconds too.
\<close>

section \<open>Fact collections\<close>

named_theorems model_defs \<open>definitions a component's proofs unfold\<close>
named_theorems result_elims \<open>inversion of a successful or failed result\<close>

section \<open>Errors and results\<close>

text \<open>
  The sentinels callers discriminate with \<open>errors.Is\<close>. \<open>ErrOther\<close> is any error with no
  sentinel of its own; its text says which check produced it and nothing branches on it.
\<close>

datatype app_error =
    ErrNotFound
  | ErrConflict
  | ErrScopeExceeded
  | ErrPermissionDenied
  | ErrRequiresApproval
  | ErrVersionSkew
  | ErrBudgetExceeded
  | ErrApprovalTokenInvalid
  | ErrConsentNotGranted
  | ErrSeatTierInsufficient
  | ErrSeatLimitReached
  | ErrOther string

type_synonym 'a result = "app_error + 'a"

type_synonym time = int
type_synonym duration = int

definition second :: duration where "second = 1000000000"
definition minute :: duration where "minute = 60 * second"
definition hour :: duration where "hour = 60 * minute"

lemmas duration_defs [model_defs] = second_def minute_def hour_def

text \<open>\<open>bindR m f\<close> is Go's \<open>if err != nil { return err }\<close>: an error ends the function.\<close>

fun bindR :: "'e + 'a \<Rightarrow> ('a \<Rightarrow> 'e + 'b) \<Rightarrow> 'e + 'b" where
  "bindR (Inl e) f = Inl e"
| "bindR (Inr x) f = f x"

definition guardR :: "bool \<Rightarrow> 'e \<Rightarrow> 'e + unit" where
  "guardR ok e = (if ok then Inr () else Inl e)"

lemma bindR_Inr_iff [simp]: "bindR m f = Inr y \<longleftrightarrow> (\<exists>x. m = Inr x \<and> f x = Inr y)"
  by (cases m) auto

lemma bindR_Inl_iff: "bindR m f = Inl e \<longleftrightarrow> m = Inl e \<or> (\<exists>x. m = Inr x \<and> f x = Inl e)"
  by (cases m) auto

lemma bindR_assoc: "bindR (bindR m f) g = bindR m (\<lambda>x. bindR (f x) g)"
  by (cases m) auto

lemma bindR_cong [fundef_cong]:
  "m = m' \<Longrightarrow> (\<And>x. m' = Inr x \<Longrightarrow> f x = f' x) \<Longrightarrow> bindR m f = bindR m' f'"
  by (cases m') auto

lemma guardR_simps [simp]:
  "guardR True e = Inr ()" "guardR False e = Inl e"
  "guardR b e = Inr u \<longleftrightarrow> b" "guardR b e = Inl e' \<longleftrightarrow> \<not> b \<and> e = e'"
  by (auto simp: guardR_def)

lemma bindR_guardR [simp]: "bindR (guardR b e) f = (if b then f () else Inl e)"
  by (simp add: guardR_def)

section \<open>Transactions\<close>

text \<open>
  \<open>db.Tx\<close> runs a function over the database state: an error rolls every write back, a
  success commits them all. A transactional function has the type
  \<open>'s \<Rightarrow> 'e + ('a \<times> 's)\<close>; \<open>run_tx\<close> returns what the caller sees and the state that
  stands afterwards.
\<close>

definition run_tx :: "('s \<Rightarrow> 'e + ('a \<times> 's)) \<Rightarrow> 's \<Rightarrow> ('e + 'a) \<times> 's" where
  "run_tx f s = (case f s of Inl e \<Rightarrow> (Inl e, s) | Inr (x, s') \<Rightarrow> (Inr x, s'))"

lemma run_tx_Inl: "f s = Inl e \<Longrightarrow> run_tx f s = (Inl e, s)"
  by (simp add: run_tx_def)

lemma run_tx_Inr: "f s = Inr (x, s') \<Longrightarrow> run_tx f s = (Inr x, s')"
  by (simp add: run_tx_def)

lemma run_tx_InrD: "run_tx f s = (Inr x, t) \<Longrightarrow> f s = Inr (x, t)"
  by (auto simp: run_tx_def split: sum.splits prod.splits)

lemma run_tx_InlD: "run_tx f s = (Inl e, t) \<Longrightarrow> f s = Inl e \<and> t = s"
  by (auto simp: run_tx_def split: sum.splits prod.splits)

lemma run_tx_cases [consumes 1, case_names rollback commit]:
  assumes "run_tx f s = (r, t)"
  obtains e where "f s = Inl e" "r = Inl e" "t = s"
    | x where "f s = Inr (x, t)" "r = Inr x"
  using assms by (auto simp: run_tx_def split: sum.splits prod.splits)

section \<open>Options and lists\<close>

lemma option_case_None_False [simp]:
  "(case x of None \<Rightarrow> False | Some y \<Rightarrow> P y) \<longleftrightarrow> (\<exists>y. x = Some y \<and> P y)"
  by (cases x) auto

lemma option_case_None_True [simp]:
  "(case x of None \<Rightarrow> True | Some y \<Rightarrow> P y) \<longleftrightarrow> (\<forall>y. x = Some y \<longrightarrow> P y)"
  by (cases x) auto

text \<open>\<open>update_where p f xs\<close> is SQL's \<open>UPDATE ... SET f WHERE p\<close> on a table kept as a list.\<close>

definition update_where :: "('r \<Rightarrow> bool) \<Rightarrow> ('r \<Rightarrow> 'r) \<Rightarrow> 'r list \<Rightarrow> 'r list" where
  "update_where p f xs = map (\<lambda>r. if p r then f r else r) xs"

lemma update_where_simps [simp]:
  "update_where p f [] = []"
  "update_where p f (x # xs) = (if p x then f x else x) # update_where p f xs"
  "length (update_where p f xs) = length xs"
  by (auto simp: update_where_def)

lemma set_update_where: "set (update_where p f xs) = (\<lambda>r. if p r then f r else r) ` set xs"
  by (simp add: update_where_def)

lemma update_where_id: "(\<And>r. r \<in> set xs \<Longrightarrow> \<not> p r) \<Longrightarrow> update_where p f xs = xs"
  by (induction xs) auto

lemma map_update_where:
  "(\<And>r. k (f r) = k r) \<Longrightarrow> map k (update_where p f xs) = map k xs"
  by (induction xs) auto

lemma filter_update_where_other:
  "(\<And>r. P (f r) = P r) \<Longrightarrow> (\<And>r. q r \<Longrightarrow> \<not> P r) \<Longrightarrow> filter P (update_where q f xs) = filter P xs"
  by (induction xs) auto

lemma filter_update_where:
  "(\<And>r. q r \<Longrightarrow> P (f r) = P r) \<Longrightarrow> filter P (update_where q f xs) = update_where q f (filter P xs)"
  by (induction xs) auto

lemma find_append: "find p (xs @ ys) = (case find p xs of None \<Rightarrow> find p ys | Some x \<Rightarrow> Some x)"
  by (induction xs) auto

lemma find_update_where:
  assumes "\<And>r. q (f r) = q r" and "\<And>r. q r \<Longrightarrow> p r"
  shows "find q (update_where p f xs) = map_option f (find q xs)"
  using assms by (induction xs) auto

lemma find_update_where_other:
  assumes "\<And>r. q (f r) = q r" and "\<And>r. q r \<Longrightarrow> \<not> p r"
  shows "find q (update_where p f xs) = find q xs"
  using assms by (induction xs) auto

lemma find_SomeD: "find p xs = Some x \<Longrightarrow> p x \<and> x \<in> set xs"
  by (induction xs) (auto split: if_splits)

lemma find_distinct_key:
  assumes "distinct (map k xs)" and "x \<in> set xs"
  shows "find (\<lambda>r. k r = k x) xs = Some x"
  using assms by (induction xs) (auto simp: rev_image_eqI)

section \<open>Text\<close>

text \<open>\<open>strings.Join\<close>.\<close>

fun join :: "string \<Rightarrow> string list \<Rightarrow> string" where
  "join sep [] = []"
| "join sep [x] = x"
| "join sep (x # y # zs) = x @ sep @ join sep (y # zs)"

text \<open>\<open>strings.CutPrefix\<close>: the rest after a prefix, when the prefix is there.\<close>

fun cut_prefix :: "string \<Rightarrow> string \<Rightarrow> string option" where
  "cut_prefix [] s = Some s"
| "cut_prefix (c # p) [] = None"
| "cut_prefix (c # p) (d # s) = (if c = d then cut_prefix p s else None)"

lemma cut_prefix_Some_iff: "cut_prefix p s = Some r \<longleftrightarrow> s = p @ r"
  by (induction p s rule: cut_prefix.induct) auto

lemma cut_prefix_append [simp]: "cut_prefix p (p @ r) = Some r"
  by (simp add: cut_prefix_Some_iff)

text \<open>Go integer division truncates toward zero.\<close>

definition go_div :: "int \<Rightarrow> int \<Rightarrow> int" where
  "go_div a b = sgn a * sgn b * (\<bar>a\<bar> div \<bar>b\<bar>)"

lemma go_div_nonneg: "0 \<le> a \<Longrightarrow> 0 < b \<Longrightarrow> go_div a b = a div b"
  by (cases "a = 0") (auto simp: go_div_def)

end
