(* ===== verification/Ids.thy ===== *)
theory Ids
  imports Prelude
begin

text \<open>
  Record identifiers: \<^verbatim>\<open>backend/internal/shared/kernel/ids/ids.go\<close>. A \<open>UUID\<close> is
  sixteen bytes, kept here as one 128-bit word (byte 0 the most significant); \<open>nil_uuid\<close>
  is the all-zero value. The theory holds the canonical text form (\<open>uuid_string\<close>,
  \<open>parse_uuid\<close>) and the UUIDv7 generator with its process-wide monotonic counter.
\<close>

unbundle bit_operations_syntax

type_synonym uuid = "128 word"

definition nil_uuid :: uuid where
  "nil_uuid = 0"

definition is_zero :: "uuid \<Rightarrow> bool" where
  "is_zero u \<longleftrightarrow> u = nil_uuid"

section \<open>Hexadecimal text\<close>

definition hex_digit :: "nat \<Rightarrow> char" where
  "hex_digit d = ''0123456789abcdef'' ! d"

text \<open>\<open>hex.Decode\<close> accepts both cases.\<close>

definition hex_value :: "char \<Rightarrow> nat option" where
  "hex_value c =
     (let n = of_char c :: nat in
      if 48 \<le> n \<and> n \<le> 57 then Some (n - 48)
      else if 97 \<le> n \<and> n \<le> 102 then Some (n - 87)
      else if 65 \<le> n \<and> n \<le> 70 then Some (n - 55)
      else None)"

definition nibbles :: "nat \<Rightarrow> nat \<Rightarrow> nat list" where
  "nibbles k n = map (\<lambda>i. (n div 16 ^ (k - 1 - i)) mod 16) [0..<k]"

fun of_nibbles :: "nat \<Rightarrow> nat list \<Rightarrow> nat" where
  "of_nibbles acc [] = acc"
| "of_nibbles acc (d # ds) = of_nibbles (acc * 16 + d) ds"

fun hex_values :: "string \<Rightarrow> nat list option" where
  "hex_values [] = Some []"
| "hex_values (c # cs) =
     (case hex_value c of None \<Rightarrow> None
      | Some d \<Rightarrow> (case hex_values cs of None \<Rightarrow> None | Some ds \<Rightarrow> Some (d # ds)))"

text \<open>\<open>UUID.String\<close>: 8-4-4-4-12 lower-case hexadecimal digits.\<close>

definition dashed :: "string \<Rightarrow> string" where
  "dashed h = take 8 h @ ''-'' @ take 4 (drop 8 h) @ ''-'' @ take 4 (drop 12 h) @ ''-''
     @ take 4 (drop 16 h) @ ''-'' @ drop 20 h"

definition uuid_string :: "uuid \<Rightarrow> string" where
  "uuid_string u = dashed (map hex_digit (nibbles 32 (unat u)))"

text \<open>\<open>Parse\<close>: a \<open>ParseError\<close> is \<open>None\<close>.\<close>

definition undashed :: "string \<Rightarrow> string" where
  "undashed s = take 8 s @ take 4 (drop 9 s) @ take 4 (drop 14 s) @ take 4 (drop 19 s) @ drop 24 s"

definition parse_uuid :: "string \<Rightarrow> uuid option" where
  "parse_uuid s =
     (if length s \<noteq> 36 \<or> s ! 8 \<noteq> CHR ''-'' \<or> s ! 13 \<noteq> CHR ''-'' \<or> s ! 18 \<noteq> CHR ''-''
         \<or> s ! 23 \<noteq> CHR ''-'' then None
      else case hex_values (undashed s) of None \<Rightarrow> None
           | Some ds \<Rightarrow> Some (of_nat (of_nibbles 0 ds)))"

lemma length_nibbles [simp]: "length (nibbles k n) = k"
  by (simp add: nibbles_def)

lemma nibbles_Suc: "nibbles (Suc k) n = nibbles k (n div 16) @ [n mod 16]"
proof -
  have "(n div 16 ^ (k - i)) mod 16 = (n div 16 div 16 ^ (k - 1 - i)) mod 16" if "i < k" for i
  proof -
    from that have "k - i = Suc (k - 1 - i)" by simp
    then show ?thesis by (simp only: power_Suc div_mult2_eq)
  qed
  then show ?thesis by (simp add: nibbles_def)
qed

lemma nibbles_less: "d \<in> set (nibbles k n) \<Longrightarrow> d < 16"
  by (auto simp: nibbles_def)

lemma of_nibbles_append: "of_nibbles a (xs @ ys) = of_nibbles (of_nibbles a xs) ys"
  by (induction xs arbitrary: a) auto

lemma of_nibbles_nibbles: "n < 16 ^ k \<Longrightarrow> of_nibbles 0 (nibbles k n) = n"
proof (induction k arbitrary: n)
  case 0
  then show ?case by (simp add: nibbles_def)
next
  case (Suc k)
  then have "n div 16 < 16 ^ k" by (simp add: less_mult_imp_div_less mult.commute)
  with Suc.IH show ?case by (simp add: nibbles_Suc of_nibbles_append)
qed

lemma hex_value_digits_all: "list_all (\<lambda>d. hex_value (hex_digit d) = Some d) [0..<16]"
  by code_simp

lemma hex_value_digit: "d < 16 \<Longrightarrow> hex_value (hex_digit d) = Some d"
  using hex_value_digits_all by (simp add: list_all_iff)

lemma hex_values_digits: "\<forall>d \<in> set ds. d < 16 \<Longrightarrow> hex_values (map hex_digit ds) = Some ds"
  by (induction ds) (auto simp: hex_value_digit)

lemma length_dashed: "length h = 32 \<Longrightarrow> length (dashed h) = 36"
  by (simp add: dashed_def)

lemma list_8_4_4_4_12:
  assumes "length (h :: 'a list) = 32"
  obtains a b c d e where "h = a @ b @ c @ d @ e"
    "length a = 8" "length b = 4" "length c = 4" "length d = 4" "length e = 12"
proof
  have step: "drop n h = take 4 (drop n h) @ drop (n + 4) h" for n
    by (metis append_take_drop_id drop_drop add.commute)
  have "h = take 8 h @ drop 8 h" by simp
  also have "drop 8 h = take 4 (drop 8 h) @ drop 12 h" using step [of 8] by simp
  also have "drop 12 h = take 4 (drop 12 h) @ drop 16 h" using step [of 12] by simp
  also have "drop 16 h = take 4 (drop 16 h) @ drop 20 h" using step [of 16] by simp
  finally show "h = take 8 h @ take 4 (drop 8 h) @ take 4 (drop 12 h) @ take 4 (drop 16 h) @ drop 20 h" .
qed (use assms in auto)

lemma undashed_dashed: "length h = 32 \<Longrightarrow> undashed (dashed h) = h"
  by (erule list_8_4_4_4_12) (simp add: undashed_def dashed_def)

lemma dashed_dashes:
  assumes "length h = 32"
  shows "dashed h ! 8 = CHR ''-''" "dashed h ! 13 = CHR ''-''"
    "dashed h ! 18 = CHR ''-''" "dashed h ! 23 = CHR ''-''"
  using assms by (auto simp: dashed_def nth_append)

section \<open>Version-7 generation\<close>

text \<open>
  The generator's state is the last millisecond used and the 12-bit counter; \<open>ms\<close> is the
  clock's reading and \<open>rand\<close> the eight bytes \<open>crypto/rand\<close> filled \<open>u[8:]\<close> with.
\<close>

record v7_state =
  v7_last_ms :: "64 word"
  v7_seq :: "16 word"

definition v7_advance :: "v7_state \<Rightarrow> 64 word \<Rightarrow> 8 word list \<Rightarrow> v7_state" where
  "v7_advance st ms rand =
     (if v7_last_ms st < ms then
        \<lparr>v7_last_ms = ms,
         v7_seq = (push_bit 8 (ucast (rand ! 0)) OR ucast (rand ! 1)) AND 0x07FF\<rparr>
      else if v7_seq st < 0x0FFF then st\<lparr>v7_seq := v7_seq st + 1\<rparr>
      else st\<lparr>v7_last_ms := v7_last_ms st + 1, v7_seq := 0\<rparr>)"

definition v7_bytes :: "v7_state \<Rightarrow> 8 word list \<Rightarrow> 8 word list" where
  "v7_bytes st rand =
     [ucast (drop_bit 40 (v7_last_ms st) AND 0xFF), ucast (drop_bit 32 (v7_last_ms st) AND 0xFF),
      ucast (drop_bit 24 (v7_last_ms st) AND 0xFF), ucast (drop_bit 16 (v7_last_ms st) AND 0xFF),
      ucast (drop_bit 8 (v7_last_ms st) AND 0xFF), ucast (v7_last_ms st AND 0xFF),
      0x70 OR (ucast (drop_bit 8 (v7_seq st)) AND 0x0F), ucast (v7_seq st AND 0xFF),
      (rand ! 0 AND 0x3F) OR 0x80] @ tl rand"

definition new_v7 :: "v7_state \<Rightarrow> 64 word \<Rightarrow> 8 word list \<Rightarrow> v7_state \<times> 8 word list" where
  "new_v7 st ms rand = (let st' = v7_advance st ms rand in (st', v7_bytes st' rand))"

text \<open>The order the counter promises: the millisecond first, then the counter.\<close>

definition v7_less :: "v7_state \<Rightarrow> v7_state \<Rightarrow> bool" where
  "v7_less a b \<longleftrightarrow> v7_last_ms a < v7_last_ms b \<or> (v7_last_ms a = v7_last_ms b \<and> v7_seq a < v7_seq b)"

definition v7_ok :: "v7_state \<Rightarrow> bool" where
  "v7_ok st \<longleftrightarrow> v7_seq st \<le> 0x0FFF"

lemma v7_ok_advance: "v7_ok st \<Longrightarrow> v7_ok (v7_advance st ms rand)"
proof -
  have "x AND 0x07FF \<le> (0x0FFF :: 16 word)" for x
    by (rule order_trans [OF word_and_le1]) simp
  then show "v7_ok st \<Longrightarrow> v7_ok (v7_advance st ms rand)"
    by (auto simp: v7_ok_def v7_advance_def inc_le)
qed

lemma v7_advance_less:
  assumes "v7_ok st" and "v7_last_ms st < 0xFFFFFFFFFFFFFFFF"
  shows "v7_less st (v7_advance st ms rand)"
proof -
  have inc: "w + 1 \<le> w \<Longrightarrow> w = - 1" for w :: "'b::len word"
    by (rule inc_less_eq_triv_imp)
  have "v7_seq st < 0x0FFF \<Longrightarrow> v7_seq st < v7_seq st + 1"
    using inc [of "v7_seq st"] by (auto simp: not_le [symmetric])
  moreover have "v7_last_ms st < v7_last_ms st + 1"
    using inc [of "v7_last_ms st"] assms(2) by (auto simp: not_le [symmetric])
  ultimately show ?thesis by (auto simp: v7_advance_def v7_less_def)
qed

text \<open>The first eight bytes, read as a number, are the 48-bit millisecond, the version nibble
  and the counter.\<close>

definition v7_prefix :: "8 word list \<Rightarrow> nat" where
  "v7_prefix bs = foldl (\<lambda>a b. a * 256 + unat b) 0 (take 8 bs)"

lemma unat_byte_of:
  "unat (ucast (drop_bit k (w :: 64 word) AND 0xFF) :: 8 word) = (unat w div 2 ^ k) mod 256"
proof -
  have "drop_bit k w AND 0xFF = take_bit 8 (drop_bit k w)"
    by (simp add: take_bit_eq_mask mask_eq_exp_minus_1)
  then show ?thesis
    by (simp add: unsigned_ucast_eq unat_drop_bit_eq unsigned_take_bit_eq)
      (simp add: drop_bit_eq_div take_bit_eq_mod)
qed

lemma unat_low_byte: "unat (ucast ((w :: 16 word) AND 0xFF) :: 8 word) = unat w mod 256"
proof -
  have "w AND 0xFF = take_bit 8 w" by (simp add: take_bit_eq_mask mask_eq_exp_minus_1)
  then show ?thesis
    by (simp add: unsigned_ucast_eq unsigned_take_bit_eq) (simp add: take_bit_eq_mod)
qed

lemma unat_version_byte:
  assumes "s \<le> (0x0FFF :: 16 word)"
  shows "unat (0x70 OR (ucast (drop_bit 8 s) AND 0x0F) :: 8 word) = 112 + unat s div 256"
proof -
  have bound: "unat s \<le> 4095" using assms by (simp add: word_le_nat_alt)
  have all: "list_all (\<lambda>d. unat (0x70 OR (of_nat d AND 0x0F) :: 8 word) = 112 + d) [0..<16]"
    by code_simp
  have cast: "ucast (drop_bit 8 s) = (of_nat (unat s div 256) :: 8 word)"
    by (rule word_unat_eq_iff [THEN iffD2])
      (simp add: unsigned_ucast_eq unat_drop_bit_eq unat_of_nat, simp add: drop_bit_eq_div take_bit_eq_mod)
  from bound have "unat s div 256 < 16" by simp
  with all show ?thesis by (simp add: cast list_all_iff)
qed

lemma v7_prefix_arith:
  "m = e \<Longrightarrow> (s::nat) = q * 256 + r \<Longrightarrow>
     (e * 256 + (112 + q)) * 256 + r = m * 65536 + (112 * 256 + s)"
  by simp

lemma v7_prefix_value:
  assumes ok: "v7_ok st" and ms: "v7_last_ms st < 0x1000000000000" and len: "length rand = 8"
  shows "v7_prefix (v7_bytes st rand) = unat (v7_last_ms st) * 65536 + (112 * 256 + unat (v7_seq st))"
proof -
  let ?m = "unat (v7_last_ms st)" and ?s = "unat (v7_seq st)"
  have m: "?m < 281474976710656" using ms by (simp add: word_less_nat_alt)
  have s: "?s \<le> 4095" using ok by (simp add: v7_ok_def word_le_nat_alt)
  have bytes: "v7_prefix (v7_bytes st rand) =
      (((((((?m div 2 ^ 40 mod 256) * 256 + ?m div 2 ^ 32 mod 256) * 256 + ?m div 2 ^ 24 mod 256)
        * 256 + ?m div 2 ^ 16 mod 256) * 256 + ?m div 2 ^ 8 mod 256) * 256 + ?m mod 256) * 256
        + (112 + ?s div 256)) * 256 + ?s mod 256"
    using unat_byte_of [of 0 "v7_last_ms st"] unat_version_byte [of "v7_seq st"] ok
    by (simp add: v7_prefix_def v7_bytes_def unat_byte_of unat_low_byte v7_ok_def del: drop_bit_of_nat)
  have split: "n div 2 ^ j = n div 2 ^ (j + 8) * 256 + n div 2 ^ j mod 256" for n j :: nat
    by (simp add: power_add div_mult2_eq)
  have top: "?m div 2 ^ 40 mod 256 = ?m div 2 ^ 40" using m by simp
  have "?m = ((((?m div 2 ^ 40 * 256 + ?m div 2 ^ 32 mod 256) * 256 + ?m div 2 ^ 24 mod 256)
        * 256 + ?m div 2 ^ 16 mod 256) * 256 + ?m div 2 ^ 8 mod 256) * 256 + ?m mod 256"
    using split [of ?m 32] split [of ?m 24] split [of ?m 16] split [of ?m 8] split [of ?m 0]
    by (simp only: power_0 div_by_1 add_0 numeral_plus_numeral add_num_simps)
  moreover have "?s = ?s div 256 * 256 + ?s mod 256" by simp
  ultimately show ?thesis unfolding bytes top by (rule v7_prefix_arith)
qed

lemma parse_of_string: "parse_uuid (uuid_string u) = Some u"
proof -
  define ds where "ds = nibbles 32 (unat u)"
  define h where "h = map hex_digit ds"
  have h: "length h = 32" by (simp add: h_def ds_def)
  have "unat u < 2 ^ 128" using unsigned_less [of u] by simp
  also have "(2::nat) ^ 128 = 16 ^ 32" by (simp flip: power_mult [of 2 4 32, simplified])
  finally have val: "of_nat (of_nibbles 0 ds) = u" by (simp add: of_nibbles_nibbles ds_def)
  have hexes: "hex_values h = Some ds"
    unfolding h_def by (rule hex_values_digits) (auto simp: ds_def dest: nibbles_less)
  have "uuid_string u = dashed h" by (simp add: uuid_string_def h_def ds_def)
  then show ?thesis
    by (simp add: parse_uuid_def length_dashed [OF h] dashed_dashes [OF h] undashed_dashed [OF h]
        hexes val)
qed

lemma length_uuid_string: "length (uuid_string u) = 36"
  by (simp add: uuid_string_def length_dashed)

lemma uuid_string_inj: "uuid_string u = uuid_string v \<Longrightarrow> u = v"
  by (metis parse_of_string option.inject)

text \<open>A sequence of calls: each takes the clock's reading and its own random bytes.\<close>

fun v7_run :: "v7_state \<Rightarrow> (64 word \<times> 8 word list) list \<Rightarrow> 8 word list list" where
  "v7_run st [] = []"
| "v7_run st ((ms, rand) # cs) = (case new_v7 st ms rand of (st', bs) \<Rightarrow> bs # v7_run st' cs)"

definition v7_room :: "v7_state \<Rightarrow> (64 word \<times> 8 word list) list \<Rightarrow> bool" where
  "v7_room st cs \<longleftrightarrow> unat (v7_last_ms st) + length cs < 2 ^ 48
     \<and> list_all (\<lambda>(ms, rand). unat ms + length cs < 2 ^ 48 \<and> length rand = 8) cs"

lemma v7_room_step:
  assumes "v7_room st ((ms, rand) # cs)"
  shows "v7_room (v7_advance st ms rand) cs" "v7_last_ms (v7_advance st ms rand) < 0x1000000000000"
    "length rand = 8" "v7_last_ms st < 0xFFFFFFFFFFFFFFFF"
proof -
  have r: "unat (v7_last_ms st) + Suc (length cs) < 281474976710656"
    "unat ms + Suc (length cs) < 281474976710656" "length rand = 8"
    "list_all (\<lambda>(ms, rand). unat ms + Suc (length cs) < 281474976710656 \<and> length rand = 8) cs"
    using assms by (auto simp: v7_room_def)
  have inc: "unat (v7_last_ms st + 1) = unat (v7_last_ms st) + 1"
    using r(1) by (subst unat_word_ariths) simp
  have adv: "unat (v7_last_ms (v7_advance st ms rand)) + length cs < 281474976710656"
    using r inc by (auto simp: v7_advance_def)
  then show "v7_room (v7_advance st ms rand) cs"
    using r(4) by (auto simp: v7_room_def list_all_iff)
  show "v7_last_ms (v7_advance st ms rand) < 0x1000000000000" using adv by (simp add: word_less_nat_alt)
  show "length rand = 8" by (rule r(3))
  show "v7_last_ms st < 0xFFFFFFFFFFFFFFFF" using r(1) by (simp add: word_less_nat_alt)
qed

lemma v7_prefix_less:
  assumes "v7_less a b" "v7_seq b \<le> 0x0FFF" "v7_seq a \<le> 0x0FFF"
  shows "unat (v7_last_ms a) * 65536 + (112 * 256 + unat (v7_seq a))
       < unat (v7_last_ms b) * 65536 + (112 * 256 + unat (v7_seq b))"
  using assms by (auto simp: v7_less_def word_less_nat_alt word_le_nat_alt)

lemma v7_run_above:
  assumes "v7_ok st" "v7_room st cs" "v7_last_ms st < 0x1000000000000"
  shows "\<forall>bs \<in> set (v7_run st cs).
           unat (v7_last_ms st) * 65536 + (112 * 256 + unat (v7_seq st)) < v7_prefix bs"
    and "sorted_wrt (<) (map v7_prefix (v7_run st cs))"
proof -
  have "(\<forall>bs \<in> set (v7_run st cs).
           unat (v7_last_ms st) * 65536 + (112 * 256 + unat (v7_seq st)) < v7_prefix bs)
        \<and> sorted_wrt (<) (map v7_prefix (v7_run st cs))"
    using assms
  proof (induction cs arbitrary: st)
    case Nil
    then show ?case by simp
  next
    case (Cons c cs)
    obtain ms rand where c: "c = (ms, rand)" by (cases c)
    let ?st = "v7_advance st ms rand"
    note room = v7_room_step [OF Cons.prems(2) [unfolded c]]
    have ok: "v7_ok ?st" by (rule v7_ok_advance [OF Cons.prems(1)])
    have less: "v7_less st ?st" by (rule v7_advance_less [OF Cons.prems(1) room(4)])
    have "unat (v7_last_ms st) * 65536 + (112 * 256 + unat (v7_seq st))
        < unat (v7_last_ms ?st) * 65536 + (112 * 256 + unat (v7_seq ?st))"
      using v7_prefix_less [OF less] ok Cons.prems(1) by (simp add: v7_ok_def)
    moreover have "v7_prefix (v7_bytes ?st rand)
        = unat (v7_last_ms ?st) * 65536 + (112 * 256 + unat (v7_seq ?st))"
      by (rule v7_prefix_value [OF ok room(2) room(3)])
    ultimately show ?case
      using Cons.IH [OF ok room(1) room(2)] by (auto simp: c new_v7_def Let_def)
  qed
  then show "\<forall>bs \<in> set (v7_run st cs).
           unat (v7_last_ms st) * 65536 + (112 * 256 + unat (v7_seq st)) < v7_prefix bs"
    and "sorted_wrt (<) (map v7_prefix (v7_run st cs))" by auto
qed

lemma v7_bytes_layout:
  assumes "length rand = 8"
  shows "length (v7_bytes st rand) = 16" "v7_bytes st rand ! 6 AND 0xF0 = 0x70"
    "v7_bytes st rand ! 8 AND 0xC0 = 0x80"
proof -
  show "length (v7_bytes st rand) = 16" using assms by (simp add: v7_bytes_def)
  have "(0x70 OR (w AND 0x0F)) AND 0xF0 = (0x70 :: 8 word)" for w
    by (simp add: bit.conj_disj_distrib2 and.assoc)
  then show "v7_bytes st rand ! 6 AND 0xF0 = 0x70" by (simp add: v7_bytes_def)
  have "((w AND 0x3F) OR 0x80) AND 0xC0 = (0x80 :: 8 word)" for w
    by (simp add: bit.conj_disj_distrib2 and.assoc)
  then show "v7_bytes st rand ! 8 AND 0xC0 = 0x80" by (simp add: v7_bytes_def)
qed

lemma v7_run_layout:
  assumes "v7_room st cs" "bs \<in> set (v7_run st cs)"
  shows "length bs = 16 \<and> bs ! 6 AND 0xF0 = 0x70 \<and> bs ! 8 AND 0xC0 = 0x80"
  using assms
proof (induction cs arbitrary: st)
  case (Cons c cs)
  obtain ms rand where c: "c = (ms, rand)" by (cases c)
  note room = v7_room_step [OF Cons.prems(1) [unfolded c]]
  show ?case
    using Cons.IH [OF room(1)] Cons.prems(2) v7_bytes_layout [OF room(3)]
    by (auto simp: c new_v7_def Let_def)
qed simp

definition v7_start :: v7_state where
  "v7_start = \<lparr>v7_last_ms = 0, v7_seq = 0\<rparr>"

section \<open>Properties\<close>

lemma ids_sort_by_creation_facts:
  assumes "v7_room v7_start cs"
  shows "sorted_wrt (<) (map v7_prefix (v7_run v7_start cs))"
    and "distinct (v7_run v7_start cs)"
    and "bs \<in> set (v7_run v7_start cs) \<Longrightarrow>
      length bs = 16 \<and> bs ! 6 AND 0xF0 = 0x70 \<and> bs ! 8 AND 0xC0 = 0x80"
proof -
  have "v7_ok v7_start" "v7_last_ms v7_start < 0x1000000000000"
    by (simp_all add: v7_ok_def v7_start_def)
  then show sorted: "sorted_wrt (<) (map v7_prefix (v7_run v7_start cs))"
    using v7_run_above(2) [OF _ assms] by blast
  then have "distinct (map v7_prefix (v7_run v7_start cs))" by (simp add: strict_sorted_iff)
  then show "distinct (v7_run v7_start cs)" by (simp add: distinct_map)
  show "bs \<in> set (v7_run v7_start cs) \<Longrightarrow>
      length bs = 16 \<and> bs ! 6 AND 0xF0 = 0x70 \<and> bs ! 8 AND 0xC0 = 0x80"
    by (rule v7_run_layout [OF assms])
qed

text \<open>
  Identifiers one process mints sort by creation order. Whatever the clock does between calls
  (stand still, run backwards, jump ahead) and whatever the random bytes are, the bytes of each id
  compare above those of every id minted before it, so they are distinct, and each is a well-formed
  version 7, variant 10 UUID. The room condition keeps the millisecond within its 48 bits.
\<close>

theorem ids_sort_by_creation:
  assumes "v7_room v7_start cs"
  shows "(sorted_wrt (<) (map v7_prefix (v7_run v7_start cs)))
     \<and> (distinct (v7_run v7_start cs))
     \<and> (bs \<in> set (v7_run v7_start cs) \<longrightarrow>
         (length bs = 16 \<and> bs ! 6 AND 0xF0 = 0x70 \<and> bs ! 8 AND 0xC0 = 0x80))"
  by (assumption | rule ids_sort_by_creation_facts [OF assms] conjI impI)+

theorem ids_sort_by_creation_witness:
  "distinct (v7_run v7_start [(5, [1,2,3,4,5,6,7,8]), (4, [1,2,3,4,5,6,7,8]), (4, [9,2,3,4,5,6,7,8])])"
  using ids_sort_by_creation [THEN conjunct2, THEN conjunct1, of "[(5, [1,2,3,4,5,6,7,8]), (4, [1,2,3,4,5,6,7,8]), (4, [9,2,3,4,5,6,7,8])]"]
  by (simp add: v7_room_def v7_start_def)

lemma uuid_text_roundtrip_facts:
  "parse_uuid (uuid_string u) = Some u" "length (uuid_string u) = 36"
  "uuid_string u = uuid_string v \<longleftrightarrow> u = v"
  using parse_of_string length_uuid_string uuid_string_inj by auto

text \<open>
  The text form of an identifier loses nothing: parsing what \<open>String\<close> prints gives the id
  back, the text is always 36 characters, and two ids print alike only when they are equal.
\<close>

theorem uuid_text_roundtrip:
  "(parse_uuid (uuid_string u) = Some u)
     \<and> (length (uuid_string u) = 36)
     \<and> (uuid_string u = uuid_string v \<longleftrightarrow> u = v)"
  by (assumption | rule uuid_text_roundtrip_facts conjI impI)+

end
