(* ===== verification/Principal.thy ===== *)
theory Principal
  imports Ids
begin

text \<open>
  The per-request identity: \<^verbatim>\<open>backend/internal/shared/kernel/principal/principal.go\<close>.
  A Go string type with declared constants becomes a datatype with those constants and one
  constructor for any other string, because the code's \<open>default\<close> arms and negative
  comparisons do meet such values (an unset field is the empty string).
\<close>

section \<open>Actor kinds, scopes and seats\<close>

datatype principal_type =
    PrincipalHuman
  | PrincipalAgent
  | PrincipalConnector
  | PrincipalSystem
  | PrincipalBuyer
  | PrincipalOther string

fun principal_type_string :: "principal_type \<Rightarrow> string" where
  "principal_type_string PrincipalHuman = ''human''"
| "principal_type_string PrincipalAgent = ''agent''"
| "principal_type_string PrincipalConnector = ''connector''"
| "principal_type_string PrincipalSystem = ''system''"
| "principal_type_string PrincipalBuyer = ''buyer''"
| "principal_type_string (PrincipalOther s) = s"

datatype scope = ScopeRead | ScopeDraft | ScopeWrite | ScopeSend | ScopeEnrich | ScopeOther string

definition scope_egresses :: "scope \<Rightarrow> bool" where
  "scope_egresses s \<longleftrightarrow> s = ScopeSend \<or> s = ScopeEnrich"

datatype seat_type = SeatFull | SeatRead | SeatOther string

definition can_mutate :: "seat_type \<Rightarrow> bool" where
  "can_mutate s \<longleftrightarrow> s = SeatFull"

type_synonym scope_set = "scope set"

definition new_scope_set :: "scope list \<Rightarrow> scope_set" where
  "new_scope_set scopes = fold insert scopes {}"

definition has_scope :: "scope_set \<Rightarrow> scope \<Rightarrow> bool" where
  "has_scope s sc \<longleftrightarrow> sc \<in> s"

section \<open>Permission policies\<close>

datatype action = ActionCreate | ActionRead | ActionUpdate | ActionDelete | ActionOther string

fun action_string :: "action \<Rightarrow> string" where
  "action_string ActionCreate = ''create''"
| "action_string ActionRead = ''read''"
| "action_string ActionUpdate = ''update''"
| "action_string ActionDelete = ''delete''"
| "action_string (ActionOther s) = s"

datatype row_scope = RowScopeOwn | RowScopeTeam | RowScopeAll | RowScopeOther string

fun row_scope_string :: "row_scope \<Rightarrow> string" where
  "row_scope_string RowScopeOwn = ''own''"
| "row_scope_string RowScopeTeam = ''team''"
| "row_scope_string RowScopeAll = ''all''"
| "row_scope_string (RowScopeOther s) = s"

text \<open>\<open>rowScopeRank\<close> is a map: a scope it does not name ranks as Go's zero.\<close>

fun row_scope_rank :: "row_scope \<Rightarrow> nat" where
  "row_scope_rank RowScopeOwn = 1"
| "row_scope_rank RowScopeTeam = 2"
| "row_scope_rank RowScopeAll = 3"
| "row_scope_rank (RowScopeOther _) = 0"

definition wider :: "row_scope \<Rightarrow> row_scope \<Rightarrow> bool" where
  "wider s than \<longleftrightarrow> row_scope_rank s > row_scope_rank than"

record object_grant =
  g_create :: bool
  g_read :: bool
  g_update :: bool
  g_delete :: bool

definition no_grant :: object_grant where
  "no_grant = \<lparr>g_create = False, g_read = False, g_update = False, g_delete = False\<rparr>"

fun grant_allows :: "object_grant \<Rightarrow> action \<Rightarrow> bool" where
  "grant_allows g ActionCreate = g_create g"
| "grant_allows g ActionRead = g_read g"
| "grant_allows g ActionUpdate = g_update g"
| "grant_allows g ActionDelete = g_delete g"
| "grant_allows g (ActionOther _) = False"

datatype mask_condition = MaskAlways | MaskOutsideWriteAuthority | MaskOther string

record field_mask =
  fm_object :: string
  fm_field :: string
  fm_condition :: mask_condition

record permissions =
  pm_role_keys :: "string list"
  pm_objects :: "string \<rightharpoonup> object_grant"
  pm_row_scope :: row_scope
  pm_field_masks :: "field_mask list"

text \<open>The zero value of \<open>Permissions\<close>, which grants nothing.\<close>

definition no_permissions :: permissions where
  "no_permissions = \<lparr>pm_role_keys = [], pm_objects = Map.empty, pm_row_scope = RowScopeOther [],
     pm_field_masks = []\<rparr>"

text \<open>Reading a Go map at a missing key yields the zero value.\<close>

definition allows :: "permissions \<Rightarrow> string \<Rightarrow> action \<Rightarrow> bool" where
  "allows p object a =
     grant_allows (case pm_objects p object of None \<Rightarrow> no_grant | Some g \<Rightarrow> g) a"

definition rule :: "permissions \<Rightarrow> string \<Rightarrow> action \<Rightarrow> string" where
  "rule p object a = ''role['' @ join '','' (pm_role_keys p) @ ''] '' @ object @ ''.''
     @ action_string a @ '' row_scope='' @ row_scope_string (pm_row_scope p)"

section \<open>The principal and the call's context\<close>

record principal =
  p_type :: principal_type
  p_id :: string
  p_user_id :: uuid
  p_team_ids :: "uuid list"
  p_passport_id :: uuid
  p_on_behalf_of :: uuid
  p_scopes :: scope_set
  p_seat_type :: seat_type
  p_permissions :: permissions

text \<open>
  \<open>context.Context\<close> as the values this code binds to it: the typed accessors of
  \<^verbatim>\<open>principal.go\<close>, and the auto-execute pin of
  \<^verbatim>\<open>platform/auth/admit.go\<close>.
\<close>

record ctx =
  ctx_workspace :: "uuid option"
  ctx_actor :: "principal option"
  ctx_correlation :: "uuid option"
  ctx_causation :: "uuid option"
  ctx_agent_run :: "uuid option"
  ctx_pin :: "int option"

definition background :: ctx where
  "background = \<lparr>ctx_workspace = None, ctx_actor = None, ctx_correlation = None,
     ctx_causation = None, ctx_agent_run = None, ctx_pin = None\<rparr>"

definition with_workspace_id :: "ctx \<Rightarrow> uuid \<Rightarrow> ctx" where
  "with_workspace_id c i = c\<lparr>ctx_workspace := Some i\<rparr>"

definition with_actor :: "ctx \<Rightarrow> principal \<Rightarrow> ctx" where
  "with_actor c p = c\<lparr>ctx_actor := Some p\<rparr>"

definition with_correlation_id :: "ctx \<Rightarrow> uuid \<Rightarrow> ctx" where
  "with_correlation_id c i = c\<lparr>ctx_correlation := Some i\<rparr>"

definition with_causation_event :: "ctx \<Rightarrow> uuid \<Rightarrow> ctx" where
  "with_causation_event c i = c\<lparr>ctx_causation := Some i\<rparr>"

definition with_agent_run_id :: "ctx \<Rightarrow> uuid \<Rightarrow> ctx" where
  "with_agent_run_id c i = c\<lparr>ctx_agent_run := Some i\<rparr>"

definition human_id_prefix :: string where
  "human_id_prefix = ''human:''"

definition human_user_id :: "string \<Rightarrow> uuid option" where
  "human_user_id s =
     (case cut_prefix human_id_prefix s of None \<Rightarrow> None | Some raw \<Rightarrow> parse_uuid raw)"

section \<open>Lemmas\<close>

lemma set_new_scope_set [simp]: "new_scope_set scopes = set scopes"
  by (simp add: new_scope_set_def union_set_fold [symmetric])

lemma has_new_scope_set [simp]: "has_scope (new_scope_set scopes) sc \<longleftrightarrow> sc \<in> set scopes"
  by (simp add: has_scope_def)

lemma no_grant_allows [simp]: "\<not> grant_allows no_grant a"
  by (cases a) (auto simp: no_grant_def)

lemma allows_no_permissions [simp]: "\<not> allows no_permissions object a"
  by (simp add: allows_def no_permissions_def)

lemma allows_unknown_object: "pm_objects p object = None \<Longrightarrow> \<not> allows p object a"
  by (simp add: allows_def)

lemma human_user_id_of_string: "human_user_id (human_id_prefix @ uuid_string u) = Some u"
  by (simp add: human_user_id_def parse_of_string)

lemma human_user_id_prefix: "human_user_id s = Some u \<Longrightarrow> \<exists>raw. s = human_id_prefix @ raw"
  by (auto simp: human_user_id_def cut_prefix_Some_iff split: option.splits)

end
