(* ===== verification/Text.thy ===== *)
theory Text
  imports Prelude
begin

text \<open>
  What the components use of Go's \<open>strconv\<close> and \<open>encoding/json\<close>: decimal
  printing and parsing of 64-bit integers, the arithmetic of Go's 64-bit \<open>int\<close>, and decoded
  JSON values with the field lookup \<open>json.Unmarshal\<close> performs on a struct.
\<close>

section \<open>64-bit integers\<close>

text \<open>Go's \<open>int\<close> and \<open>int64\<close> arithmetic wraps around at 64 bits.\<close>

definition wrap64 :: "int \<Rightarrow> int" where
  "wrap64 x = (x + 2 ^ 63) mod 2 ^ 64 - 2 ^ 63"

definition in_int64 :: "int \<Rightarrow> bool" where
  "in_int64 x \<longleftrightarrow> - (2 ^ 63) \<le> x \<and> x < 2 ^ 63"

lemma wrap64_id: "in_int64 x \<Longrightarrow> wrap64 x = x"
  by (simp add: wrap64_def in_int64_def)

lemma in_int64_wrap64: "in_int64 (wrap64 x)"
proof -
  have "0 \<le> (x + 2 ^ 63) mod 2 ^ 64" and "(x + 2 ^ 63) mod 2 ^ 64 < 2 ^ 64" by simp_all
  then show ?thesis by (simp add: in_int64_def wrap64_def)
qed

section \<open>Decimal text\<close>

definition digit_char :: "nat \<Rightarrow> char" where
  "digit_char d = ''0123456789'' ! d"

definition digit_value :: "char \<Rightarrow> nat option" where
  "digit_value c = (let n = of_char c :: nat in if 48 \<le> n \<and> n \<le> 57 then Some (n - 48) else None)"

fun nat_string :: "nat \<Rightarrow> string" where
  "nat_string n = (if n < 10 then [digit_char n] else nat_string (n div 10) @ [digit_char (n mod 10)])"

declare nat_string.simps [simp del]

definition int_string :: "int \<Rightarrow> string" where
  "int_string i = (if i < 0 then ''-'' @ nat_string (nat (- i)) else nat_string (nat i))"

fun parse_digits :: "nat \<Rightarrow> string \<Rightarrow> nat option" where
  "parse_digits acc [] = Some acc"
| "parse_digits acc (c # cs) =
     (case digit_value c of None \<Rightarrow> None | Some d \<Rightarrow> parse_digits (acc * 10 + d) cs)"

definition parse_nat :: "string \<Rightarrow> nat option" where
  "parse_nat s = (if s = [] then None else parse_digits 0 s)"

text \<open>
  \<open>strconv.Atoi\<close> and \<open>strconv.ParseInt(s, 10, 64)\<close>: an optional sign, at least one digit,
  nothing else, and a value that fits 64 bits.
\<close>

definition parse_int :: "string \<Rightarrow> int option" where
  "parse_int s =
     (let r = (case s of
          [] \<Rightarrow> None
        | c # cs \<Rightarrow>
            if c = CHR ''-'' then map_option (\<lambda>n. - int n) (parse_nat cs)
            else if c = CHR ''+'' then map_option int (parse_nat cs)
            else map_option int (parse_nat s))
      in case r of None \<Rightarrow> None | Some v \<Rightarrow> if in_int64 v then Some v else None)"

lemma digit_values_all: "list_all (\<lambda>d. digit_value (digit_char d) = Some d) [0..<10]"
  by code_simp

lemma digit_value_char: "d < 10 \<Longrightarrow> digit_value (digit_char d) = Some d"
  using digit_values_all by (simp add: list_all_iff)

lemma digit_char_not_sign:
  assumes "d < 10"
  shows "digit_char d \<noteq> CHR ''-''" "digit_char d \<noteq> CHR ''+''" "digit_char d \<noteq> CHR '':''"
proof -
  have "list_all (\<lambda>d. digit_char d \<noteq> CHR ''-'' \<and> digit_char d \<noteq> CHR ''+''
          \<and> digit_char d \<noteq> CHR '':'') [0..<10]" by code_simp
  with assms show "digit_char d \<noteq> CHR ''-''" "digit_char d \<noteq> CHR ''+''" "digit_char d \<noteq> CHR '':''"
    by (simp_all add: list_all_iff)
qed

lemma parse_digits_append:
  "parse_digits a (xs @ ys) = (case parse_digits a xs of None \<Rightarrow> None | Some b \<Rightarrow> parse_digits b ys)"
  by (induction a xs rule: parse_digits.induct) (auto split: option.splits)

lemma nat_string_nonempty: "nat_string n \<noteq> []"
  by (subst nat_string.simps) simp

lemma parse_digits_nat_string: "parse_digits 0 (nat_string n) = Some n"
proof (induction n rule: nat_string.induct)
  case (1 n)
  show ?case
  proof (cases "n < 10")
    case True
    then show ?thesis by (subst nat_string.simps) (simp add: digit_value_char)
  next
    case False
    with 1 show ?thesis
      by (subst nat_string.simps) (simp add: parse_digits_append digit_value_char)
  qed
qed

lemma nat_string_chars: "c \<in> set (nat_string n) \<Longrightarrow> \<exists>d < 10. c = digit_char d"
proof (induction n rule: nat_string.induct)
  case (1 n)
  have "\<exists>d < 10. digit_char (n mod 10) = digit_char d" by (rule exI [of _ "n mod 10"]) simp
  with 1 show ?case by (subst (asm) (2) nat_string.simps) (auto split: if_splits)
qed

lemma parse_nat_string: "parse_nat (nat_string n) = Some n"
  by (simp add: parse_nat_def nat_string_nonempty parse_digits_nat_string)

lemma parse_int_string:
  assumes "in_int64 i"
  shows "parse_int (int_string i) = Some i"
proof (cases "i < 0")
  case True
  then show ?thesis using assms by (simp add: parse_int_def int_string_def parse_nat_string)
next
  case False
  obtain c cs where s: "nat_string (nat i) = c # cs"
    using nat_string_nonempty by (cases "nat_string (nat i)") auto
  then have "c \<noteq> CHR ''-''" "c \<noteq> CHR ''+''"
    using nat_string_chars [of c "nat i"] digit_char_not_sign by auto
  then show ?thesis
    using False assms parse_nat_string [of "nat i"]
    by (simp add: parse_int_def int_string_def s)
qed

lemma nat_string_inj: "nat_string a = nat_string b \<Longrightarrow> a = b"
  by (metis parse_nat_string option.inject)

lemma nat_string_hd_not_minus: "nat_string n \<noteq> CHR ''-'' # cs"
  using nat_string_chars [of "CHR ''-''" n] digit_char_not_sign(1) by (metis list.set_intros(1))

lemma int_string_inj: "int_string a = int_string b \<Longrightarrow> a = b"
  by (auto simp: int_string_def nat_string_hd_not_minus nat_string_hd_not_minus [symmetric]
      dest!: nat_string_inj split: if_splits)

lemma int_string_no_colon: "CHR '':'' \<notin> set (int_string i)"
proof
  assume "CHR '':'' \<in> set (int_string i)"
  then have "CHR '':'' \<in> set (nat_string (nat (- i))) \<or> CHR '':'' \<in> set (nat_string (nat i))"
    by (auto simp: int_string_def split: if_splits)
  then show False using nat_string_chars digit_char_not_sign(3) by metis
qed

section \<open>Text the surfaces normalise\<close>

text \<open>
  \<open>strings.ToLower\<close>, \<open>strings.ToUpper\<close> and \<open>strings.TrimSpace\<close> on the ASCII text keys, addresses and
  currency codes are made of, and \<open>strings.Cut\<close> at a one-byte separator.
\<close>

definition lower_char :: "char \<Rightarrow> char" where
  "lower_char c = (if 65 \<le> (of_char c :: nat) \<and> (of_char c :: nat) \<le> 90
     then char_of ((of_char c :: nat) + 32) else c)"

definition to_lower :: "string \<Rightarrow> string" where
  "to_lower s = map lower_char s"

definition upper_char :: "char \<Rightarrow> char" where
  "upper_char c = (if 97 \<le> (of_char c :: nat) \<and> (of_char c :: nat) \<le> 122
     then char_of ((of_char c :: nat) - 32) else c)"

definition to_upper :: "string \<Rightarrow> string" where
  "to_upper s = map upper_char s"

definition is_space :: "char \<Rightarrow> bool" where
  "is_space c \<longleftrightarrow> (of_char c :: nat) \<in> {9, 10, 11, 12, 13, 32}"

definition trim_space :: "string \<Rightarrow> string" where
  "trim_space s = rev (dropWhile is_space (rev (dropWhile is_space s)))"

definition blank :: "string \<Rightarrow> bool" where
  "blank s \<longleftrightarrow> trim_space s = []"

fun cut_at :: "char \<Rightarrow> string \<Rightarrow> string \<times> string \<times> bool" where
  "cut_at sep [] = ([], [], False)"
| "cut_at sep (c # cs) =
     (if c = sep then ([], cs, True) else case cut_at sep cs of (a, b, found) \<Rightarrow> (c # a, b, found))"

lemma dropWhile_stays: "s \<noteq> [] \<Longrightarrow> \<not> P (hd s) \<Longrightarrow> dropWhile P s = s"
  by (cases s) auto

lemma trim_space_id: "s \<noteq> [] \<Longrightarrow> \<not> is_space (hd s) \<Longrightarrow> \<not> is_space (last s) \<Longrightarrow> trim_space s = s"
  by (simp add: trim_space_def dropWhile_stays hd_rev)

lemma cut_at_found: "sep \<notin> set xs \<Longrightarrow> cut_at sep (xs @ sep # ys) = (xs, ys, True)"
  by (induction xs) auto

lemma cut_at_absent: "sep \<notin> set xs \<Longrightarrow> cut_at sep xs = (xs, [], False)"
  by (induction xs) auto

lemma cut_at_parts:
  "cut_at sep s = (a, b, found) \<Longrightarrow>
     sep \<notin> set a \<and> s = (if found then a @ sep # b else a) \<and> (found \<or> b = [])"
  by (induction s arbitrary: a) (auto split: prod.splits if_splits)

section \<open>JSON values\<close>

text \<open>A decoded JSON value; a number keeps its literal text, an object its members in order.\<close>

datatype json =
    JNull
  | JBool bool
  | JNum string
  | JStr string
  | JArr "json list"
  | JObj "(string \<times> json) list"

text \<open>A member of an object decoded into a Go map: the last occurrence of a key wins.\<close>

definition obj_get :: "(string \<times> json) list \<Rightarrow> string \<Rightarrow> json option" where
  "obj_get kvs k = map_of (rev kvs) k"

definition fold_char :: "char \<Rightarrow> char" where
  "fold_char c = (let n = of_char c :: nat in if 65 \<le> n \<and> n \<le> 90 then char_of (n + 32) else c)"

text \<open>
  A member decoded into a struct field: \<open>encoding/json\<close> matches the field's name without
  regard to (ASCII) case, assigns in order, and leaves the field as it was on \<open>null\<close>.
\<close>

definition field_members :: "(string \<times> json) list \<Rightarrow> string \<Rightarrow> json list" where
  "field_members kvs name =
     map snd (filter (\<lambda>(k, v). map fold_char k = map fold_char name \<and> v \<noteq> JNull) kvs)"

text \<open>A string field and an integer field: absent is Go's zero value, another type an error.\<close>

fun json_string :: "json \<Rightarrow> string option" where
  "json_string (JStr s) = Some s"
| "json_string _ = None"

fun json_int :: "json \<Rightarrow> int option" where
  "json_int (JNum t) = parse_int t"
| "json_int _ = None"

definition decode_field :: "'a \<Rightarrow> (json \<Rightarrow> 'a option) \<Rightarrow> (string \<times> json) list \<Rightarrow> string \<Rightarrow> 'a option" where
  "decode_field zero conv kvs name =
     fold (\<lambda>v acc. case (acc, conv v) of (Some _, Some x) \<Rightarrow> Some x | _ \<Rightarrow> None)
       (field_members kvs name) (Some zero)"

definition string_field :: "(string \<times> json) list \<Rightarrow> string \<Rightarrow> string option" where
  "string_field = decode_field [] json_string"

definition int_field :: "(string \<times> json) list \<Rightarrow> string \<Rightarrow> int option" where
  "int_field = decode_field 0 json_int"

end
