(* ===== verification/Agent_Quota.thy ===== *)
theory Agent_Quota
  imports Principal Text
begin

text \<open>
  The per-passport volume meter: \<^verbatim>\<open>backend/internal/platform/agentquota\<close>
  (\<^verbatim>\<open>counter.go\<close>, \<^verbatim>\<open>meter.go\<close>, \<^verbatim>\<open>proposal.go\<close>,
  \<^verbatim>\<open>release.go\<close>). Redis is not part of the repository, so its three commands are
  the record \<open>redis\<close>, an argument of every operation; \<open>redis_laws\<close> states what their
  documentation promises. A key's expiry is not modelled, the laws say only that \<open>EXPIRE\<close> leaves values as
  they are: every key carries its window's number, so a key that outlived its window would not be read again.
\<close>

section \<open>Counters and limits\<close>

datatype counter = Reads | Writes | Egress | Calls | Cost | CounterOther string

fun counter_string :: "counter \<Rightarrow> string" where
  "counter_string Reads = ''reads''"
| "counter_string Writes = ''writes''"
| "counter_string Egress = ''egress''"
| "counter_string Calls = ''calls''"
| "counter_string Cost = ''cost''"
| "counter_string (CounterOther s) = s"

text \<open>The counter a stored string names; Go's conversion of a string is the identity.\<close>

definition counter_of_string :: "string \<Rightarrow> counter" where
  "counter_of_string s =
     (if s = ''reads'' then Reads else if s = ''writes'' then Writes
      else if s = ''egress'' then Egress else if s = ''calls'' then Calls
      else if s = ''cost'' then Cost else CounterOther s)"

definition releasable :: "counter \<Rightarrow> bool" where
  "releasable c \<longleftrightarrow> c = Reads \<or> c = Writes"

definition counter_governed :: "counter \<Rightarrow> bool" where
  "counter_governed c \<longleftrightarrow> c \<noteq> Cost"

text \<open>The autonomy tiers and the part of a tool's registration the admission code reads
  (\<^verbatim>\<open>shared/ports/mcp/mcp.go\<close>).\<close>

datatype risk_tier = TierAutoExecute | TierConfirmationRequired | TierDynamic

record tier_input =
  ti_args :: json
  ti_source_stage :: string
  ti_target_stage :: string
  ti_pipeline_id :: string
  ti_observed_version :: "int option"

record tool_spec =
  ts_name :: string
  ts_required_scope :: scope
  ts_tier :: risk_tier
  ts_tier_resolver :: "(tier_input \<Rightarrow> risk_tier) option"
  ts_egress :: bool

definition read_only :: "tool_spec \<Rightarrow> bool" where
  "read_only s \<longleftrightarrow> ts_required_scope s = ScopeRead"

definition counter_for :: "tool_spec \<Rightarrow> counter" where
  "counter_for s = (if ts_egress s then Egress else if read_only s then Reads else Writes)"

record limits =
  lim_reads :: int
  lim_writes :: int
  lim_egress :: int
  lim_calls :: int

definition default_reads :: int where "default_reads = 2000"
definition default_writes :: int where "default_writes = 200"
definition default_egress :: int where "default_egress = 20"
definition default_calls :: int where "default_calls = 1000"
definition default_window :: duration where "default_window = 24 * hour"

lemmas limit_defaults [model_defs] =
  default_reads_def default_writes_def default_egress_def default_calls_def

definition with_defaults :: "limits \<Rightarrow> limits" where
  "with_defaults l =
     \<lparr>lim_reads = (if lim_reads l \<le> 0 then default_reads else lim_reads l),
      lim_writes = (if lim_writes l \<le> 0 then default_writes else lim_writes l),
      lim_egress = (if lim_egress l \<le> 0 then default_egress else lim_egress l),
      lim_calls = (if lim_calls l \<le> 0 then default_calls else lim_calls l)\<rparr>"

fun limit_of :: "limits \<Rightarrow> counter \<Rightarrow> int" where
  "limit_of l Reads = lim_reads l"
| "limit_of l Writes = lim_writes l"
| "limit_of l Egress = lim_egress l"
| "limit_of l Calls = lim_calls l"
| "limit_of l Cost = 0"
| "limit_of l (CounterOther _) = 0"

section \<open>The counter store\<close>

datatype redis_value = RNil | RString string | ROther

datatype redis_error = RedisNil | RedisDown

text \<open>Each command answers over a store state \<open>'s\<close>.\<close>

record 's redis =
  rd_incrby :: "'s \<Rightarrow> string \<Rightarrow> int \<Rightarrow> (redis_error + int) \<times> 's"
  rd_expire :: "'s \<Rightarrow> string \<Rightarrow> int \<Rightarrow> 's"
  rd_mget :: "'s \<Rightarrow> string list \<Rightarrow> redis_error option \<times> redis_value list"

text \<open>
  The documented behaviour, over \<open>view\<close> (the integer a key holds, if any): \<open>INCRBY\<close> adds to
  the key, a missing key counting as zero, and answers the sum when it fits 64 bits; \<open>EXPIRE\<close>
  leaves values as they are; \<open>MGET\<close> answers one slot per key, nil for a missing one.
\<close>

definition counted :: "('s \<Rightarrow> string \<Rightarrow> int option) \<Rightarrow> 's \<Rightarrow> string \<Rightarrow> int" where
  "counted view s k = (case view s k of None \<Rightarrow> 0 | Some v \<Rightarrow> v)"

definition redis_laws :: "'s redis \<Rightarrow> ('s \<Rightarrow> string \<Rightarrow> int option) \<Rightarrow> bool" where
  "redis_laws rdb view \<longleftrightarrow>
     (\<forall>s k n. in_int64 (counted view s k + n) \<longrightarrow>
        (\<exists>s'. rd_incrby rdb s k n = (Inr (counted view s k + n), s')
          \<and> view s' = (view s)(k \<mapsto> counted view s k + n)))
     \<and> (\<forall>s k t. view (rd_expire rdb s k t) = view s)
     \<and> (\<forall>s ks. rd_mget rdb s ks =
          (None, map (\<lambda>k. case view s k of None \<Rightarrow> RNil | Some v \<Rightarrow> RString (int_string v)) ks))"

text \<open>Only this meter writes the keys, so they hold counts.\<close>

definition store_ok :: "('s \<Rightarrow> string \<Rightarrow> int option) \<Rightarrow> 's \<Rightarrow> bool" where
  "store_ok view s \<longleftrightarrow> (\<forall>k v. view s k = Some v \<longrightarrow> 0 \<le> v \<and> in_int64 v)"

section \<open>The meter\<close>

record 's meter =
  m_rdb :: "'s redis option"
  m_limits :: limits
  m_window :: duration
  m_now :: time
  m_cost :: "(ctx \<Rightarrow> int) option"
  m_unbounded :: bool

definition new_with_clock :: "'s redis option \<Rightarrow> limits \<Rightarrow> duration \<Rightarrow> time \<Rightarrow> 's meter" where
  "new_with_clock rdb l window now =
     \<lparr>m_rdb = rdb, m_limits = with_defaults l,
      m_window = (if window \<le> 0 then default_window else window), m_now = now,
      m_cost = None, m_unbounded = False\<rparr>"

definition unmetered :: "time \<Rightarrow> 's meter" where
  "unmetered now =
     \<lparr>m_rdb = None, m_limits = with_defaults \<lparr>lim_reads = 0, lim_writes = 0, lim_egress = 0, lim_calls = 0\<rparr>,
      m_window = default_window, m_now = now, m_cost = None, m_unbounded = True\<rparr>"

definition with_cost_ceiling :: "'s meter \<Rightarrow> (ctx \<Rightarrow> int) option \<Rightarrow> 's meter" where
  "with_cost_ceiling m c = m\<lparr>m_cost := c\<rparr>"

definition rebind_from :: "'s meter \<Rightarrow> 's meter \<Rightarrow> 's meter" where
  "rebind_from m src =
     m\<lparr>m_rdb := m_rdb src, m_limits := m_limits src, m_window := m_window src,
       m_now := m_now src, m_unbounded := m_unbounded src, m_cost := m_cost src\<rparr>"

definition meter_limit :: "'s meter \<Rightarrow> counter \<Rightarrow> int" where
  "meter_limit m c = limit_of (m_limits m) c"

record reading =
  r_counter :: counter
  r_observed :: int
  r_limit :: int
  r_allowance :: int
  r_exceeded :: bool
  r_bucket :: int

definition count_key :: "uuid \<Rightarrow> string \<Rightarrow> counter \<Rightarrow> int \<Rightarrow> string" where
  "count_key ws agent c bucket =
     ''msr:'' @ uuid_string ws @ '':'' @ agent @ '':'' @ counter_string c @ '':'' @ int_string bucket"

definition release_key :: "uuid \<Rightarrow> string \<Rightarrow> counter \<Rightarrow> int \<Rightarrow> string" where
  "release_key ws agent c bucket = count_key ws agent c bucket @ '':released''"

text \<open>\<open>addScript\<close>: add, and set the expiry on the key's first write only.\<close>

definition add_script :: "'s redis \<Rightarrow> 's \<Rightarrow> string \<Rightarrow> int \<Rightarrow> int \<Rightarrow> (redis_error + int) \<times> 's" where
  "add_script rdb s key n ttl =
     (case rd_incrby rdb s key n of
        (Inl e, s') \<Rightarrow> (Inl e, s')
      | (Inr tot, s') \<Rightarrow> (Inr tot, if tot = n then rd_expire rdb s' key ttl else s'))"

definition governed :: "ctx \<Rightarrow> bool" where
  "governed c \<longleftrightarrow> (case ctx_actor c of None \<Rightarrow> False | Some p \<Rightarrow> p_type p = PrincipalAgent)"

text \<open>The third component is \<open>named\<close>: whether a counter can be built for the caller.\<close>

definition caller_key :: "ctx \<Rightarrow> uuid \<times> string \<times> bool" where
  "caller_key c =
     (case ctx_actor c of
        None \<Rightarrow> (nil_uuid, [], False)
      | Some actor \<Rightarrow>
          (let agent = (if p_passport_id actor \<noteq> nil_uuid then uuid_string (p_passport_id actor)
                        else p_id actor)
           in case ctx_workspace c of
                None \<Rightarrow> (nil_uuid, agent, False)
              | Some ws \<Rightarrow> (ws, agent, agent \<noteq> [])))"

definition bucket :: "'s meter \<Rightarrow> int" where
  "bucket m = go_div (m_now m) (m_window m)"

definition ttl_seconds :: "'s meter \<Rightarrow> int" where
  "ttl_seconds m = max 1 (go_div (m_window m + hour) second)"

text \<open>\<open>usable\<close> and \<open>Consume\<close>: what a served call records; \<open>None\<close> is success.\<close>

definition usable :: "'s meter \<Rightarrow> ctx \<Rightarrow> (uuid \<times> string \<times> 's redis) option" where
  "usable m c =
     (case m_rdb m of
        None \<Rightarrow> None
      | Some rdb \<Rightarrow>
          if \<not> governed c then None
          else case caller_key c of (ws, agent, named) \<Rightarrow>
                 if named then Some (ws, agent, rdb) else None)"

definition consume :: "'s meter \<Rightarrow> 's \<Rightarrow> ctx \<Rightarrow> counter \<Rightarrow> int \<Rightarrow> app_error option \<times> 's" where
  "consume m s c ct n =
     (if n \<le> 0 then (None, s)
      else case usable m c of
        None \<Rightarrow> (None, s)
      | Some (ws, agent, rdb) \<Rightarrow>
          (case add_script rdb s (count_key ws agent ct (bucket m)) n (ttl_seconds m) of
             (Inl e, s') \<Rightarrow> (Some (ErrOther ''agentquota: recording''), s')
           | (Inr _, s') \<Rightarrow> (None, s')))"

definition as_count :: "redis_value \<Rightarrow> app_error + int" where
  "as_count v =
     (case v of
        RNil \<Rightarrow> Inr 0
      | ROther \<Rightarrow> Inl (ErrOther ''agentquota: counter value is not a string'')
      | RString s \<Rightarrow>
          (case parse_int s of
             None \<Rightarrow> Inl (ErrOther ''agentquota: counter value is not a number'')
           | Some n \<Rightarrow> if n < 0 then Inl (ErrOther ''agentquota: counter value is negative'') else Inr n))"

definition observe ::
  "'s redis \<Rightarrow> 's \<Rightarrow> uuid \<Rightarrow> string \<Rightarrow> counter \<Rightarrow> int \<Rightarrow> app_error + (int \<times> int)" where
  "observe rdb s ws agent c b =
     (case rd_mget rdb s [count_key ws agent c b, release_key ws agent c b] of
        (Some RedisDown, _) \<Rightarrow> Inl (ErrOther ''redis'')
      | (_, values) \<Rightarrow>
          (case values of
             [v0, v1] \<Rightarrow>
               bindR (as_count v0) (\<lambda>observed. bindR (as_count v1) (\<lambda>released. Inr (observed, released)))
           | _ \<Rightarrow> Inl (ErrOther ''agentquota: reading returned the wrong number of values'')))"

definition effective_limit :: "'s meter \<Rightarrow> counter \<Rightarrow> int \<Rightarrow> int" where
  "effective_limit m c released =
     (let base = limit_of (m_limits m) c in
      if released \<le> 0 then base else wrap64 (base * wrap64 (released + 1)))"

definition read_cost :: "'s meter \<Rightarrow> 's \<Rightarrow> ctx \<Rightarrow> int \<Rightarrow> reading" where
  "read_cost m s c b =
     (case m_cost m of
        None \<Rightarrow> \<lparr>r_counter = Cost, r_observed = 0, r_limit = 0, r_allowance = 0,
                   r_exceeded = False, r_bucket = b\<rparr>
      | Some ceiling \<Rightarrow>
          (let limit = ceiling c;
               silent = \<lparr>r_counter = Cost, r_observed = 0, r_limit = limit, r_allowance = 0,
                          r_exceeded = False, r_bucket = b\<rparr>
           in case caller_key c of (ws, agent, named) \<Rightarrow>
              (case m_rdb m of
                 None \<Rightarrow> silent
               | Some rdb \<Rightarrow>
                   if limit \<le> 0 \<or> \<not> named then silent
                   else case observe rdb s ws agent Cost b of
                          Inl _ \<Rightarrow> silent
                        | Inr (observed, _) \<Rightarrow>
                            \<lparr>r_counter = Cost, r_observed = observed, r_limit = limit,
                             r_allowance = 0, r_exceeded = limit \<le> observed, r_bucket = b\<rparr>)))"

definition meter_read :: "'s meter \<Rightarrow> 's \<Rightarrow> ctx \<Rightarrow> counter \<Rightarrow> reading" where
  "meter_read m s c ct =
     (let b = bucket m;
          base = limit_of (m_limits m) ct;
          closed = \<lparr>r_counter = ct, r_observed = 0, r_limit = base, r_allowance = base,
                     r_exceeded = True, r_bucket = b\<rparr>
      in if m_unbounded m \<or> \<not> governed c then closed\<lparr>r_exceeded := False\<rparr>
         else if ct = Cost then read_cost m s c b
         else case caller_key c of (ws, agent, named) \<Rightarrow>
           (case m_rdb m of
              None \<Rightarrow> closed
            | Some rdb \<Rightarrow>
                if \<not> named then closed
                else case observe rdb s ws agent ct b of
                       Inl _ \<Rightarrow> closed
                     | Inr (observed, released) \<Rightarrow>
                         (let limit = effective_limit m ct released in
                          \<lparr>r_counter = ct, r_observed = observed, r_limit = limit,
                           r_allowance = base, r_exceeded = limit \<le> observed, r_bucket = b\<rparr>)))"

text \<open>\<open>Release\<close>: one more allowance for one passport in the window the human was shown.\<close>

definition release :: "'s meter \<Rightarrow> 's \<Rightarrow> uuid \<Rightarrow> uuid \<Rightarrow> counter \<Rightarrow> int \<Rightarrow> bool result \<times> 's" where
  "release m s ws passport c b =
     (if \<not> releasable c then (Inl (ErrOther ''agentquota: not a releasable quota''), s)
      else if ws = nil_uuid \<or> passport = nil_uuid then
        (Inl (ErrOther ''agentquota: releasing needs both a workspace and a passport''), s)
      else if bucket m < b then
        (Inl (ErrOther ''agentquota: cannot release a window that has not started''), s)
      else if b < bucket m then (Inr False, s)
      else if m_unbounded m then (Inr False, s)
      else case m_rdb m of
        None \<Rightarrow> (Inr False, s)
      | Some rdb \<Rightarrow>
          (case add_script rdb s (release_key ws (uuid_string passport) c b) 1 (ttl_seconds m) of
             (Inl e, s') \<Rightarrow> (Inl (ErrOther ''agentquota: recording a release''), s')
           | (Inr _, s') \<Rightarrow> (Inr True, s')))"

section \<open>The staged question\<close>

record release_proposal =
  rp_counter :: counter
  rp_observed :: int
  rp_limit :: int
  rp_allowance :: int
  rp_bucket :: string
  rp_passport :: string
  rp_tool :: string

definition new_release_proposal :: "reading \<Rightarrow> uuid \<Rightarrow> string \<Rightarrow> release_proposal" where
  "new_release_proposal r passport tool =
     \<lparr>rp_counter = r_counter r, rp_observed = r_observed r, rp_limit = r_limit r,
      rp_allowance = r_allowance r, rp_bucket = int_string (r_bucket r),
      rp_passport = uuid_string passport, rp_tool = tool\<rparr>"

text \<open>\<open>json.Marshal\<close> of a proposal: the members its struct tags name, in field order.\<close>

definition encode_release_proposal :: "release_proposal \<Rightarrow> json" where
  "encode_release_proposal p = JObj
     [(''counter'', JStr (counter_string (rp_counter p))),
      (''observed'', JNum (int_string (rp_observed p))),
      (''limit'', JNum (int_string (rp_limit p))),
      (''allowance'', JNum (int_string (rp_allowance p))),
      (''bucket'', JStr (rp_bucket p)),
      (''passport'', JStr (rp_passport p)),
      (''tool'', JStr (rp_tool p))]"

text \<open>
  \<open>DecodeReleaseProposal\<close>: \<open>json.Unmarshal\<close> into the struct (JSON \<open>null\<close> leaves it zero,
  a non-object is an error), then the check on the counter.
\<close>

definition unmarshal_release_proposal :: "json \<Rightarrow> release_proposal option" where
  "unmarshal_release_proposal raw =
     (let members = (case raw of JObj kvs \<Rightarrow> Some kvs | JNull \<Rightarrow> Some [] | _ \<Rightarrow> None) in
      case members of
        None \<Rightarrow> None
      | Some kvs \<Rightarrow>
          (case (string_field kvs ''counter'', int_field kvs ''observed'', int_field kvs ''limit'',
                 int_field kvs ''allowance'', string_field kvs ''bucket'',
                 string_field kvs ''passport'', string_field kvs ''tool'') of
             (Some c, Some ob, Some li, Some al, Some bu, Some pa, Some to) \<Rightarrow>
               Some \<lparr>rp_counter = counter_of_string c, rp_observed = ob, rp_limit = li,
                     rp_allowance = al, rp_bucket = bu, rp_passport = pa, rp_tool = to\<rparr>
           | _ \<Rightarrow> None))"

definition decode_release_proposal :: "json \<Rightarrow> release_proposal result" where
  "decode_release_proposal raw =
     (case unmarshal_release_proposal raw of
        None \<Rightarrow> Inl (ErrOther ''agentquota: reading a staged release proposal'')
      | Some p \<Rightarrow>
          if \<not> releasable (rp_counter p)
          then Inl (ErrOther ''agentquota: not a quota a human can release'')
          else Inr p)"

definition proposal_window :: "release_proposal \<Rightarrow> int result" where
  "proposal_window p =
     (case parse_int (rp_bucket p) of
        None \<Rightarrow> Inl (ErrOther ''agentquota: a staged release names no window'')
      | Some b \<Rightarrow> Inr b)"

definition proposal_identity :: "release_proposal \<Rightarrow> json" where
  "proposal_identity p = JObj
     [(''counter'', JStr (counter_string (rp_counter p))), (''bucket'', JStr (rp_bucket p)),
      (''passport'', JStr (rp_passport p))]"

section \<open>Lemmas\<close>

lemma counter_of_counter_string:
  assumes "c \<in> {Reads, Writes, Egress, Calls, Cost}"
  shows "counter_of_string (counter_string c) = c"
  using assms by (auto simp: counter_of_string_def)

lemma limits_positive:
  "0 < lim_reads (with_defaults l)" "0 < lim_writes (with_defaults l)"
  "0 < lim_egress (with_defaults l)" "0 < lim_calls (with_defaults l)"
  by (auto simp: with_defaults_def model_defs)

lemma limit_of_positive:
  "c \<in> {Reads, Writes, Egress, Calls} \<Longrightarrow> 0 < limit_of (with_defaults l) c"
  using limits_positive [of l] by auto

lemma counter_for_cases: "counter_for s \<in> {Egress, Reads, Writes}"
  by (simp add: counter_for_def)

lemma counter_for_not_cost [simp]: "counter_for s \<noteq> Cost"
  using counter_for_cases [of s] by auto

text \<open>Splitting a key at its last separator, where the tail holds none.\<close>

lemma append_last_sep_inj:
  assumes "x \<notin> set b" "x \<notin> set b'" "a @ x # b = a' @ x # b'"
  shows "a = a' \<and> b = b'"
proof -
  have w: "takeWhile (\<lambda>y. y \<noteq> x) (rev (c @ x # d)) = rev d"
       "dropWhile (\<lambda>y. y \<noteq> x) (rev (c @ x # d)) = x # rev c" if "x \<notin> set d" for c d
    using that by (auto simp: takeWhile_append dropWhile_append takeWhile_tail)
  from assms(3) have "rev (a @ x # b) = rev (a' @ x # b')" by simp
  then show ?thesis using w [OF assms(1), of a] w [OF assms(2), of a'] by auto
qed

lemma counter_string_no_colon:
  "c \<in> {Reads, Writes, Egress, Calls, Cost} \<Longrightarrow> CHR '':'' \<notin> set (counter_string c)"
  by auto

lemma count_key_inj:
  assumes "count_key ws a c b = count_key ws' a' c' b'"
    and "c \<in> {Reads, Writes, Egress, Calls, Cost}" "c' \<in> {Reads, Writes, Egress, Calls, Cost}"
  shows "ws = ws' \<and> a = a' \<and> c = c' \<and> b = b'"
proof -
  let ?u = "uuid_string ws" and ?u' = "uuid_string ws'"
  have e: "(?u @ '':'' @ a @ '':'' @ counter_string c) @ CHR '':'' # int_string b
        = (?u' @ '':'' @ a' @ '':'' @ counter_string c') @ CHR '':'' # int_string b'"
    using assms(1) by (simp add: count_key_def)
  note s1 = append_last_sep_inj [OF int_string_no_colon int_string_no_colon e]
  then have "(?u @ '':'' @ a) @ CHR '':'' # counter_string c
        = (?u' @ '':'' @ a') @ CHR '':'' # counter_string c'" by simp
  note s2 = append_last_sep_inj [OF counter_string_no_colon [OF assms(2)]
      counter_string_no_colon [OF assms(3)] this]
  then have "?u @ '':'' @ a = ?u' @ '':'' @ a'" by simp
  then have "?u = ?u'" "a = a'" by (auto simp: append_eq_append_conv length_uuid_string)
  with s1 s2 assms(2,3) show ?thesis
    by (metis counter_of_counter_string int_string_inj uuid_string_inj)
qed

lemma release_key_not_count_key: "release_key ws a c b \<noteq> count_key ws' a' c' b'"
proof
  assume "release_key ws a c b = count_key ws' a' c' b'"
  then have e: "count_key ws a c b @ CHR '':'' # ''released''
      = (''msr:'' @ uuid_string ws' @ '':'' @ a' @ '':'' @ counter_string c') @ CHR '':'' # int_string b'"
    by (simp add: release_key_def count_key_def)
  have "''released'' = int_string b'"
    using append_last_sep_inj [OF _ int_string_no_colon e] by simp
  then have "CHR ''r'' \<in> set (int_string b')" by (metis list.set_intros(1))
  moreover have "list_all (\<lambda>d. digit_char d \<noteq> CHR ''r'') [0..<10]" by code_simp
  ultimately show False
    using nat_string_chars [of "CHR ''r''"]
    by (fastforce simp: int_string_def list_all_iff split: if_splits)
qed

lemma release_key_inj:
  assumes "release_key ws a c b = release_key ws' a' c' b'"
    and "c \<in> {Reads, Writes, Egress, Calls, Cost}" "c' \<in> {Reads, Writes, Egress, Calls, Cost}"
  shows "ws = ws' \<and> a = a' \<and> c = c' \<and> b = b'"
  using assms by (intro count_key_inj) (auto simp: release_key_def)

lemma add_script_view:
  assumes "redis_laws rdb view" and "in_int64 (counted view s k + n)"
  shows "\<exists>s'. add_script rdb s k n ttl = (Inr (counted view s k + n), s')
    \<and> view s' = (view s)(k \<mapsto> counted view s k + n)"
proof -
  obtain s' where "rd_incrby rdb s k n = (Inr (counted view s k + n), s')"
    "view s' = (view s)(k \<mapsto> counted view s k + n)"
    using assms unfolding redis_laws_def by blast
  moreover have "view (rd_expire rdb s' k ttl) = view s'" using assms(1) by (simp add: redis_laws_def)
  ultimately show ?thesis by (simp add: add_script_def)
qed

lemma as_count_of_view:
  assumes "store_ok view s"
  shows "as_count (case view s k of None \<Rightarrow> RNil | Some v \<Rightarrow> RString (int_string v))
    = Inr (counted view s k)"
proof (cases "view s k")
  case (Some v)
  with assms have "0 \<le> v" "in_int64 v" by (auto simp: store_ok_def)
  with Some show ?thesis by (simp add: as_count_def counted_def parse_int_string)
qed (simp add: as_count_def counted_def)

lemma observe_view:
  assumes "redis_laws rdb view" "store_ok view s"
  shows "observe rdb s ws a c b
    = Inr (counted view s (count_key ws a c b), counted view s (release_key ws a c b))"
  using assms(1) as_count_of_view [OF assms(2)] by (simp add: observe_def redis_laws_def)

lemma counted_nonneg: "store_ok view s \<Longrightarrow> 0 \<le> counted view s k"
  by (auto simp: counted_def store_ok_def split: option.splits)

lemma counted_upd: "view s' = (view s)(k \<mapsto> v) \<Longrightarrow> counted view s' j = (if j = k then v else counted view s j)"
  by (auto simp: counted_def)

lemma store_ok_upd:
  "store_ok view s \<Longrightarrow> view s' = (view s)(k \<mapsto> v) \<Longrightarrow> 0 \<le> v \<Longrightarrow> in_int64 v \<Longrightarrow> store_ok view s'"
  by (auto simp: store_ok_def)

text \<open>A call the meter can count: an agent's, in a workspace, over a reachable store.\<close>

lemma meter_read_counted:
  assumes "redis_laws rdb view" "store_ok view s" "m_rdb m = Some rdb" "\<not> m_unbounded m"
    "governed c" "caller_key c = (ws, a, True)" "ct \<noteq> Cost"
  shows "meter_read m s c ct =
    \<lparr>r_counter = ct, r_observed = counted view s (count_key ws a ct (bucket m)),
     r_limit = effective_limit m ct (counted view s (release_key ws a ct (bucket m))),
     r_allowance = limit_of (m_limits m) ct,
     r_exceeded = effective_limit m ct (counted view s (release_key ws a ct (bucket m)))
       \<le> counted view s (count_key ws a ct (bucket m)),
     r_bucket = bucket m\<rparr>"
  using assms by (simp add: meter_read_def Let_def observe_view)

lemma consume_view:
  assumes "redis_laws rdb view" "m_rdb m = Some rdb" "governed c" "caller_key c = (ws, a, True)"
    "0 < n" "in_int64 (counted view s (count_key ws a ct (bucket m)) + n)"
  shows "\<exists>s'. consume m s c ct n = (None, s') \<and>
    view s' = (view s)(count_key ws a ct (bucket m) \<mapsto>
                 counted view s (count_key ws a ct (bucket m)) + n)"
proof -
  let ?k = "count_key ws a ct (bucket m)"
  obtain s' where "add_script rdb s ?k n (ttl_seconds m) = (Inr (counted view s ?k + n), s')"
    "view s' = (view s)(?k \<mapsto> counted view s ?k + n)"
    using add_script_view [OF assms(1,6)] by blast
  with assms show ?thesis by (simp add: consume_def usable_def)
qed

lemma meter_read_ungoverned: "\<not> governed c \<Longrightarrow> \<not> r_exceeded (meter_read m s c ct)"
  by (simp add: meter_read_def Let_def)

lemma meter_read_counter [simp]: "r_counter (meter_read m s c ct) = ct"
  by (auto simp: meter_read_def read_cost_def Let_def split: prod.splits option.splits sum.splits)

lemma release_view:
  assumes "redis_laws rdb view" "m_rdb m = Some rdb" "\<not> m_unbounded m" "releasable ct"
    "ws \<noteq> nil_uuid" "pp \<noteq> nil_uuid"
    "in_int64 (counted view s (release_key ws (uuid_string pp) ct (bucket m)) + 1)"
  shows "\<exists>s'. release m s ws pp ct (bucket m) = (Inr True, s') \<and>
    view s' = (view s)(release_key ws (uuid_string pp) ct (bucket m) \<mapsto>
                 counted view s (release_key ws (uuid_string pp) ct (bucket m)) + 1)"
proof -
  let ?k = "release_key ws (uuid_string pp) ct (bucket m)"
  obtain s' where "add_script rdb s ?k 1 (ttl_seconds m) = (Inr (counted view s ?k + 1), s')"
    "view s' = (view s)(?k \<mapsto> counted view s ?k + 1)"
    using add_script_view [OF assms(1,7)] by blast
  with assms show ?thesis by (simp add: release_def)
qed

lemma effective_limit_exact:
  assumes "0 \<le> released" "in_int64 (limit_of (m_limits m) ct * (released + 1))" "in_int64 (released + 1)"
  shows "effective_limit m ct released = limit_of (m_limits m) ct * (released + 1)"
  using assms by (simp add: effective_limit_def Let_def wrap64_id)

lemma meter_read_observed:
  assumes "redis_laws rdb view" "store_ok view s" "m_rdb m = Some rdb" "\<not> m_unbounded m"
    "governed c" "caller_key c = (ws, a, True)" "ct \<noteq> Cost"
  shows "r_observed (meter_read m s c ct) = counted view s (count_key ws a ct (bucket m))"
  using meter_read_counted [OF assms] by simp

text \<open>A reference store for closed instances: a finite map, every command answering.\<close>

definition map_redis :: "(string \<Rightarrow> int option) redis" where
  "map_redis =
     \<lparr>rd_incrby = (\<lambda>s k n. (Inr (counted (\<lambda>s. s) s k + n), s(k \<mapsto> counted (\<lambda>s. s) s k + n))),
      rd_expire = (\<lambda>s k t. s),
      rd_mget = (\<lambda>s ks. (None, map (\<lambda>k. case s k of None \<Rightarrow> RNil | Some v \<Rightarrow> RString (int_string v)) ks))\<rparr>"

lemma map_redis_laws: "redis_laws map_redis (\<lambda>s. s)"
  by (simp add: redis_laws_def map_redis_def)

lemma store_ok_empty: "store_ok (\<lambda>s. s) Map.empty"
  by (simp add: store_ok_def)

definition agent_principal :: "uuid \<Rightarrow> principal" where
  "agent_principal pp =
     \<lparr>p_type = PrincipalAgent, p_id = ''agent:a'', p_user_id = 7, p_team_ids = [], p_passport_id = pp,
      p_on_behalf_of = 7, p_scopes = {ScopeRead, ScopeWrite}, p_seat_type = SeatFull,
      p_permissions = no_permissions\<rparr>"

definition agent_ctx :: "uuid \<Rightarrow> uuid \<Rightarrow> ctx" where
  "agent_ctx ws pp = background\<lparr>ctx_workspace := Some ws, ctx_actor := Some (agent_principal pp)\<rparr>"

lemma agent_principal_simps [simp]:
  "p_type (agent_principal pp) = PrincipalAgent" "p_passport_id (agent_principal pp) = pp"
  "p_on_behalf_of (agent_principal pp) = 7" "p_scopes (agent_principal pp) = {ScopeRead, ScopeWrite}"
  "p_user_id (agent_principal pp) = 7" "p_id (agent_principal pp) = ''agent:a''"
  by (simp_all add: agent_principal_def)

lemma agent_ctx_simps [simp]:
  "ctx_actor (agent_ctx ws pp) = Some (agent_principal pp)" "ctx_workspace (agent_ctx ws pp) = Some ws"
  by (simp_all add: agent_ctx_def)

lemma agent_ctx_governed: "governed (agent_ctx ws pp)"
  by (simp add: governed_def)

lemma agent_ctx_caller: "pp \<noteq> nil_uuid \<Longrightarrow> caller_key (agent_ctx ws pp) = (ws, uuid_string pp, True)"
  by (simp add: caller_key_def) (metis length_uuid_string list.size(3) zero_neq_numeral)

definition day_meter :: "(string \<Rightarrow> int option) meter" where
  "day_meter = new_with_clock (Some map_redis)
     \<lparr>lim_reads = 0, lim_writes = 0, lim_egress = 0, lim_calls = 0\<rparr> 0 (20000 * 24 * hour)"

lemma day_meter_simps:
  "m_rdb day_meter = Some map_redis" "\<not> m_unbounded day_meter" "bucket day_meter = 20000"
  "lim_reads (m_limits day_meter) = 2000" "lim_writes (m_limits day_meter) = 200"
  by (simp_all add: day_meter_def new_with_clock_def bucket_def go_div_def default_window_def
      with_defaults_def model_defs)

section \<open>Properties\<close>

text \<open>
  The bound fails closed: an agent whose counter cannot be built or read (no store composed, no
  workspace bound, or the store does not answer) is refused on every counter that refuses anything.
\<close>

theorem quota_fails_closed:
  assumes "governed c" and "\<not> m_unbounded m" and "counter_governed ct"
    and "m_rdb m = None \<or> snd (snd (caller_key c)) = False
       \<or> (\<exists>rdb. m_rdb m = Some rdb \<and> (\<forall>ks. fst (rd_mget rdb s ks) = Some RedisDown))"
  shows "r_exceeded (meter_read m s c ct)"
proof -
  obtain ws a n where k: "caller_key c = (ws, a, n)" by (cases "caller_key c")
  have "observe rdb s ws a ct b = Inl (ErrOther ''redis'')"
    if "\<forall>ks. fst (rd_mget rdb s ks) = Some RedisDown" for rdb b
    using that
    by (cases "rd_mget rdb s [count_key ws a ct b, release_key ws a ct b]")
      (auto simp: observe_def dest!: spec [where x = "[count_key ws a ct b, release_key ws a ct b]"])
  with assms k show ?thesis
    by (cases "m_rdb m") (auto simp: meter_read_def Let_def counter_governed_def)
qed

theorem quota_fails_closed_witness:
  "r_exceeded (meter_read (day_meter\<lparr>m_rdb := None\<rparr>) Map.empty (agent_ctx 1 2) Reads)"
  by (rule quota_fails_closed)
    (simp_all add: agent_ctx_governed counter_governed_def day_meter_simps)

text \<open>
  A charge is exact and touches one counter only: after \<open>Consume\<close> of \<open>n\<close>, the caller's next
  reading of that counter is \<open>n\<close> higher, and every other reading (another workspace, another
  passport, another counter) is what it was, limits included.
\<close>

theorem consume_charges_exactly:
  assumes "redis_laws rdb view" "store_ok view s" "m_rdb m = Some rdb" "\<not> m_unbounded m"
    and "governed c" "caller_key c = (ws, a, True)" "ct \<in> {Reads, Writes, Egress, Calls}" "0 < n"
    and "in_int64 (r_observed (meter_read m s c ct) + n)"
  shows "\<exists>s'. consume m s c ct n = (None, s') \<and> store_ok view s'
    \<and> r_observed (meter_read m s' c ct) = r_observed (meter_read m s c ct) + n
    \<and> r_limit (meter_read m s' c ct) = r_limit (meter_read m s c ct)
    \<and> (\<forall>c' ws' a' ct'. governed c' \<and> caller_key c' = (ws', a', True)
         \<and> ct' \<in> {Reads, Writes, Egress, Calls} \<and> (ws', a', ct') \<noteq> (ws, a, ct)
         \<longrightarrow> meter_read m s' c' ct' = meter_read m s c' ct')"
proof -
  let ?k = "count_key ws a ct (bucket m)"
  have ct: "ct \<noteq> Cost" using assms(7) by auto
  have obs: "r_observed (meter_read m s c ct) = counted view s ?k"
    by (rule meter_read_observed [OF assms(1-6) ct])
  have range: "in_int64 (counted view s ?k + n)" using assms(9) by (simp add: obs)
  obtain s' where s': "consume m s c ct n = (None, s')" "view s' = (view s)(?k \<mapsto> counted view s ?k + n)"
    using consume_view [OF assms(1,3,5,6,8) range] by blast
  note upd = counted_upd [OF s'(2)]
  have ok: "store_ok view s'"
    using store_ok_upd [OF assms(2) s'(2)] counted_nonneg [OF assms(2), of ?k] assms(8) range by simp
  have "meter_read m s' c' ct' = meter_read m s c' ct'"
    if "governed c'" "caller_key c' = (ws', a', True)" "ct' \<in> {Reads, Writes, Egress, Calls}"
      "(ws', a', ct') \<noteq> (ws, a, ct)" for c' ws' a' ct'
  proof -
    have "count_key ws' a' ct' (bucket m) \<noteq> ?k"
      using that(3,4) assms(7) count_key_inj [of ws' a' ct' "bucket m" ws a ct "bucket m"] by auto
    moreover have "ct' \<noteq> Cost" using that(3) by auto
    ultimately show ?thesis
      using that(1,2) assms(1-4) ok by (simp add: meter_read_counted upd release_key_not_count_key)
  qed
  then show ?thesis
    using s'(1) ok assms(1-6) ct
    by (auto simp: meter_read_counted upd release_key_not_count_key)
qed

theorem consume_charges_exactly_witness:
  "\<exists>s'. consume day_meter Map.empty (agent_ctx 1 2) Writes 3 = (None, s')
    \<and> r_observed (meter_read day_meter s' (agent_ctx 1 2) Writes) = 3"
proof -
  have key: "caller_key (agent_ctx 1 2) = (1, uuid_string 2, True)"
    by (rule agent_ctx_caller) (simp add: nil_uuid_def)
  have zero: "r_observed (meter_read day_meter Map.empty (agent_ctx 1 2) Writes) = 0"
    using meter_read_observed [OF map_redis_laws store_ok_empty day_meter_simps(1,2)
        agent_ctx_governed key, of Writes] by (simp add: counted_def)
  show ?thesis
    using consume_charges_exactly [OF map_redis_laws store_ok_empty day_meter_simps(1,2)
        agent_ctx_governed key, of Writes 3] zero by (auto simp: in_int64_def)
qed

lemma release_widens_one_allowance_facts:
  assumes "redis_laws rdb view" "store_ok view s" "m_rdb m = Some rdb" "\<not> m_unbounded m"
    and "governed c" "caller_key c = (ws, uuid_string pp, True)" "releasable ct"
    and "ws \<noteq> nil_uuid" "pp \<noteq> nil_uuid"
    and "released = counted view s (release_key ws (uuid_string pp) ct (bucket m))"
    and "in_int64 (limit_of (m_limits m) ct * (released + 1))" "in_int64 (released + 2)"
    and "in_int64 (limit_of (m_limits m) ct * (released + 2))"
  shows "\<exists>s'. release m s ws pp ct (bucket m) = (Inr True, s') \<and> store_ok view s'
    \<and> r_limit (meter_read m s' c ct) = r_limit (meter_read m s c ct) + r_allowance (meter_read m s c ct)
    \<and> r_observed (meter_read m s' c ct) = r_observed (meter_read m s c ct)"
    and "b < bucket m \<Longrightarrow> release m s ws pp ct b = (Inr False, s)"
proof -
  let ?k = "release_key ws (uuid_string pp) ct (bucket m)"
  have ct: "ct \<noteq> Cost" using assms(7) by (auto simp: releasable_def)
  have nn: "0 \<le> released" using counted_nonneg [OF assms(2)] assms(10) by simp
  have r1: "in_int64 (released + 1)" using nn assms(12) by (simp add: in_int64_def)
  then have range: "in_int64 (counted view s ?k + 1)" by (simp add: assms(10))
  obtain s' where s': "release m s ws pp ct (bucket m) = (Inr True, s')"
    "view s' = (view s)(?k \<mapsto> counted view s ?k + 1)"
    using release_view [OF assms(1,3,4,7,8,9) range] by blast
  have ok: "store_ok view s'"
    using store_ok_upd [OF assms(2) s'(2)] nn r1 by (simp add: assms(10))
  have "effective_limit m ct (counted view s' ?k) = effective_limit m ct released + limit_of (m_limits m) ct"
    using effective_limit_exact [OF nn assms(11) r1]
      effective_limit_exact [of "released + 1" m ct] nn assms(12,13)
    by (simp add: counted_upd [OF s'(2)] assms(10) add.assoc algebra_simps)
  then show "\<exists>s'. release m s ws pp ct (bucket m) = (Inr True, s') \<and> store_ok view s'
    \<and> r_limit (meter_read m s' c ct) = r_limit (meter_read m s c ct) + r_allowance (meter_read m s c ct)
    \<and> r_observed (meter_read m s' c ct) = r_observed (meter_read m s c ct)"
    using s'(1) ok assms(1-6) ct release_key_not_count_key
    by (auto simp: meter_read_counted counted_upd [OF s'(2)] assms(10) dest: sym)
  show "b < bucket m \<Longrightarrow> release m s ws pp ct b = (Inr False, s)"
    using assms(7-9) by (simp add: release_def)
qed

text \<open>
  A release widens exactly what the human was shown: one more allowance of the same size on that
  passport's counter in the current window, with the observed volume left standing; a release
  naming a window that has rolled is reported as not applied and changes nothing.
\<close>

theorem release_widens_one_allowance:
  assumes "redis_laws rdb view" "store_ok view s" "m_rdb m = Some rdb" "\<not> m_unbounded m"
    and "governed c" "caller_key c = (ws, uuid_string pp, True)" "releasable ct"
    and "ws \<noteq> nil_uuid" "pp \<noteq> nil_uuid"
    and "released = counted view s (release_key ws (uuid_string pp) ct (bucket m))"
    and "in_int64 (limit_of (m_limits m) ct * (released + 1))" "in_int64 (released + 2)"
    and "in_int64 (limit_of (m_limits m) ct * (released + 2))"
  shows "(\<exists>s'. release m s ws pp ct (bucket m) = (Inr True, s') \<and> store_ok view s'
    \<and> r_limit (meter_read m s' c ct) = r_limit (meter_read m s c ct) + r_allowance (meter_read m s c ct)
    \<and> r_observed (meter_read m s' c ct) = r_observed (meter_read m s c ct))
     \<and> (b < bucket m \<longrightarrow> release m s ws pp ct b = (Inr False, s))"
  by (assumption | rule release_widens_one_allowance_facts [OF assms] conjI impI)+

theorem release_widens_one_allowance_witness:
  "\<exists>s'. release day_meter Map.empty 1 2 Writes 20000 = (Inr True, s')
    \<and> r_limit (meter_read day_meter s' (agent_ctx 1 2) Writes)
      = r_limit (meter_read day_meter Map.empty (agent_ctx 1 2) Writes)
        + r_allowance (meter_read day_meter Map.empty (agent_ctx 1 2) Writes)"
proof -
  have key: "caller_key (agent_ctx 1 2) = (1, uuid_string 2, True)"
    by (rule agent_ctx_caller) (simp add: nil_uuid_def)
  show ?thesis
    using release_widens_one_allowance [THEN conjunct1, OF map_redis_laws store_ok_empty day_meter_simps(1,2)
        agent_ctx_governed key, of Writes 0]
    by (auto simp: releasable_def nil_uuid_def counted_def day_meter_simps in_int64_def)
qed

lemma release_proposal_roundtrip_facts:
  assumes "r_counter r \<in> {Reads, Writes, Egress, Calls, Cost}"
    and "in_int64 (r_observed r)" "in_int64 (r_limit r)" "in_int64 (r_allowance r)" "in_int64 (r_bucket r)"
  shows "decode_release_proposal (encode_release_proposal (new_release_proposal r pp tool)) =
      (if releasable (r_counter r) then Inr (new_release_proposal r pp tool)
       else Inl (ErrOther ''agentquota: not a quota a human can release''))"
    and "proposal_window (new_release_proposal r pp tool) = Inr (r_bucket r)"
proof -
  have "unmarshal_release_proposal (encode_release_proposal (new_release_proposal r pp tool))
      = Some (new_release_proposal r pp tool)"
    using assms
    by (simp add: unmarshal_release_proposal_def encode_release_proposal_def new_release_proposal_def
        string_field_def int_field_def decode_field_def field_members_def fold_char_def Let_def
        parse_int_string counter_of_counter_string)
  then show "decode_release_proposal (encode_release_proposal (new_release_proposal r pp tool)) =
      (if releasable (r_counter r) then Inr (new_release_proposal r pp tool)
       else Inl (ErrOther ''agentquota: not a quota a human can release''))"
    by (simp add: decode_release_proposal_def new_release_proposal_def)
  show "proposal_window (new_release_proposal r pp tool) = Inr (r_bucket r)"
    using assms(5) by (simp add: proposal_window_def new_release_proposal_def parse_int_string)
qed

text \<open>
  The question a human answers is the one the agent's refusal staged: encoding a reading as a
  release proposal and decoding the stored payload gives back the counter, the figures, the passport
  and the window, and decoding refuses every counter no human may release.
\<close>

theorem release_proposal_roundtrip:
  assumes "r_counter r \<in> {Reads, Writes, Egress, Calls, Cost}"
    and "in_int64 (r_observed r)" "in_int64 (r_limit r)" "in_int64 (r_allowance r)" "in_int64 (r_bucket r)"
  shows "(decode_release_proposal (encode_release_proposal (new_release_proposal r pp tool)) =
      (if releasable (r_counter r) then Inr (new_release_proposal r pp tool)
       else Inl (ErrOther ''agentquota: not a quota a human can release'')))
     \<and> (proposal_window (new_release_proposal r pp tool) = Inr (r_bucket r))"
  by (assumption | rule release_proposal_roundtrip_facts [OF assms] conjI impI)+

theorem release_proposal_roundtrip_witness:
  "decode_release_proposal (encode_release_proposal (new_release_proposal
      \<lparr>r_counter = Reads, r_observed = 2431, r_limit = 2000, r_allowance = 2000, r_exceeded = True,
       r_bucket = 20000\<rparr> 5 ''search''))
   = Inr (new_release_proposal
      \<lparr>r_counter = Reads, r_observed = 2431, r_limit = 2000, r_allowance = 2000, r_exceeded = True,
       r_bucket = 20000\<rparr> 5 ''search'')"
  by (subst release_proposal_roundtrip [THEN conjunct1]) (simp_all add: in_int64_def releasable_def)

end
