(* ===== verification/Gate.thy ===== *)
theory Gate
  imports Agent_Quota
begin

text \<open>
  The one admission point for governed agent actions:
  \<^verbatim>\<open>backend/internal/platform/auth/admit.go\<close> and \<^verbatim>\<open>quota.go\<close>.
  Its two seams are arguments: the authority resolver
  (\<^verbatim>\<open>shared/ports/authz\<close>, implemented by the identity module) and the quota
  interface, whose contract is the locale \<open>quota_meter\<close>, interpreted on the meter of
  theory \<open>Agent_Quota\<close>.
\<close>

section \<open>The seams\<close>

record rbac =
  rb_permissions :: permissions
  rb_team_ids :: "uuid list"

record resolver =
  rv_seat :: "uuid \<Rightarrow> uuid \<Rightarrow> seat_type result"
  rv_rbac :: "uuid \<Rightarrow> uuid \<Rightarrow> rbac result"

type_synonym quota = "ctx \<Rightarrow> counter \<Rightarrow> reading"

record gate =
  gt_authority :: "resolver option"
  gt_quota :: "quota option"

definition new_gate :: "resolver option \<Rightarrow> quota option \<Rightarrow> gate" where
  "new_gate authority q = \<lparr>gt_authority = authority, gt_quota = q\<rparr>"

datatype gate_error = GateErr app_error | QuotaExceeded string reading

definition gate_sentinel :: "gate_error \<Rightarrow> app_error" where
  "gate_sentinel e = (case e of GateErr a \<Rightarrow> a | QuotaExceeded _ _ \<Rightarrow> ErrBudgetExceeded)"

definition quota_error_releasable :: "gate_error \<Rightarrow> bool" where
  "quota_error_releasable e =
     (case e of GateErr _ \<Rightarrow> False | QuotaExceeded _ r \<Rightarrow> releasable (r_counter r))"

definition quota_error_text :: "string \<Rightarrow> reading \<Rightarrow> string" where
  "quota_error_text tool r =
     (let what = (if tool \<noteq> [] then tool else ''this agent'') in
      what @ '': this agent has spent '' @ int_string (r_observed r) @ '' of its ''
        @ int_string (r_limit r) @ '' '' @ counter_string (r_counter r) @ '' for this window''
        @ (if releasable (r_counter r)
           then ''; it may continue once the person who connected it releases the window, or when the window rolls''
           else '', and that limit holds until the window rolls; no approval lifts it''))"

section \<open>Quota, tier and admission\<close>

definition refuse_on_quota :: "gate \<Rightarrow> ctx \<Rightarrow> tool_spec \<Rightarrow> gate_error option" where
  "refuse_on_quota g c spec =
     (case gt_quota g of
        None \<Rightarrow> None
      | Some q \<Rightarrow>
          (case find (\<lambda>r. r_exceeded r) [q c Calls, q c (counter_for spec)] of
             None \<Rightarrow> None
           | Some r \<Rightarrow> Some (QuotaExceeded (ts_name spec) r)))"

definition admit_replay :: "gate option \<Rightarrow> ctx \<Rightarrow> tool_spec \<Rightarrow> gate_error option" where
  "admit_replay g c spec = (case g of None \<Rightarrow> None | Some g \<Rightarrow> refuse_on_quota g c spec)"

definition admit_read :: "gate option \<Rightarrow> ctx \<Rightarrow> gate_error option" where
  "admit_read g c =
     (case g of
        None \<Rightarrow> None
      | Some g \<Rightarrow>
          (case gt_quota g of
             None \<Rightarrow> None
           | Some q \<Rightarrow>
               (case ctx_actor c of
                  None \<Rightarrow> None
                | Some p \<Rightarrow>
                    if p_type p \<noteq> PrincipalAgent then None
                    else let r = q c Reads in
                         if r_exceeded r then Some (QuotaExceeded [] r) else None)))"

text \<open>The tier of a call, and the record version a dynamic tier was decided from.\<close>

definition resolve_tier :: "tool_spec \<Rightarrow> tier_input result \<Rightarrow> (risk_tier \<times> int option) result" where
  "resolve_tier spec resolve =
     (if ts_tier spec \<noteq> TierDynamic then Inr (ts_tier spec, None)
      else case ts_tier_resolver spec of
        None \<Rightarrow> Inl (ErrOther ''gate: TierDynamic without a resolver'')
      | Some f \<Rightarrow> bindR resolve (\<lambda>i. Inr (f i, ti_observed_version i)))"

definition denied_if_gone :: "app_error \<Rightarrow> app_error" where
  "denied_if_gone e = (if e = ErrNotFound then ErrPermissionDenied else e)"

definition with_auto_execute_pin :: "ctx \<Rightarrow> int \<Rightarrow> ctx" where
  "with_auto_execute_pin c v = c\<lparr>ctx_pin := Some v\<rparr>"

definition auto_execute_pin :: "ctx \<Rightarrow> int option" where
  "auto_execute_pin c = ctx_pin c"

text \<open>
  \<open>Admit\<close> in three stages, each the code's own sequence of early returns: who is calling and
  whether its passport carries the scope; the granting human's live authority; then seat, quota and
  tier, on the refreshed context.
\<close>

definition admit_tier :: "tool_spec \<Rightarrow> tier_input result \<Rightarrow> ctx \<Rightarrow> ctx \<times> gate_error option" where
  "admit_tier spec resolve c =
     (case resolve_tier spec resolve of
        Inl e \<Rightarrow> (c, Some (GateErr e))
      | Inr (tier, observed) \<Rightarrow>
          if tier = TierAutoExecute \<and> ts_tier spec = TierDynamic \<and> observed = None
          then (c, Some (GateErr ErrRequiresApproval))
          else if tier \<noteq> TierAutoExecute then (c, Some (GateErr ErrRequiresApproval))
          else case observed of
            None \<Rightarrow> (c, None)
          | Some v \<Rightarrow> (with_auto_execute_pin c v, None))"

definition refresh_authority :: "resolver \<Rightarrow> uuid \<Rightarrow> principal \<Rightarrow> principal result" where
  "refresh_authority r ws p =
     (case rv_seat r ws (p_on_behalf_of p) of
        Inl e \<Rightarrow> Inl (denied_if_gone e)
      | Inr st \<Rightarrow>
          (case rv_rbac r ws (p_on_behalf_of p) of
             Inl e \<Rightarrow> Inl (denied_if_gone e)
           | Inr rb \<Rightarrow>
               Inr (p\<lparr>p_seat_type := st, p_permissions := rb_permissions rb,
                      p_team_ids := rb_team_ids rb\<rparr>)))"

definition admit_agent ::
  "gate option \<Rightarrow> ctx \<Rightarrow> principal \<Rightarrow> tool_spec \<Rightarrow> tier_input result \<Rightarrow> ctx \<times> gate_error option" where
  "admit_agent g c p spec resolve =
     (if \<not> has_scope (p_scopes p) (ts_required_scope spec) then (c, Some (GateErr ErrScopeExceeded))
      else case Option.bind g gt_authority of
        None \<Rightarrow> (c, Some (GateErr ErrPermissionDenied))
      | Some r \<Rightarrow>
          (case ctx_workspace c of
             None \<Rightarrow> (c, Some (GateErr ErrPermissionDenied))
           | Some ws \<Rightarrow>
               if is_zero (p_on_behalf_of p) then (c, Some (GateErr ErrPermissionDenied))
               else case refresh_authority r ws p of
                 Inl e \<Rightarrow> (c, Some (GateErr e))
               | Inr p' \<Rightarrow>
                   (let c' = with_actor c p' in
                    if ts_required_scope spec \<noteq> ScopeRead \<and> \<not> can_mutate (p_seat_type p')
                    then (c', Some (GateErr ErrSeatTierInsufficient))
                    else case refuse_on_quota (the g) c' spec of
                      Some e \<Rightarrow> (c', Some e)
                    | None \<Rightarrow> admit_tier spec resolve c')))"

definition admit ::
  "gate option \<Rightarrow> ctx \<Rightarrow> tool_spec \<Rightarrow> tier_input result \<Rightarrow> ctx \<times> gate_error option" where
  "admit g c spec resolve =
     (case ctx_actor c of
        None \<Rightarrow> (c, Some (GateErr (ErrOther ''gate: no principal bound to context'')))
      | Some p \<Rightarrow>
          if p_type p = PrincipalBuyer then (c, Some (GateErr ErrPermissionDenied))
          else if p_type p \<noteq> PrincipalAgent then (c, None)
          else admit_agent g c p spec resolve)"

section \<open>The quota contract\<close>

text \<open>
  What the gate relies on: a reading is of the counter asked about, callers outside the control are
  never refused, and a reading depends on the context only through the actor and workspace it names.
\<close>

locale quota_meter =
  fixes read :: quota
  assumes read_counter: "r_counter (read c ct) = ct"
    and read_ungoverned: "\<not> governed c \<Longrightarrow> \<not> r_exceeded (read c ct)"
begin

lemma refusal_names_a_binding_counter:
  assumes "refuse_on_quota \<lparr>gt_authority = a, gt_quota = Some read\<rparr> c spec = Some e"
  shows "\<exists>r. e = QuotaExceeded (ts_name spec) r \<and> r_exceeded r
    \<and> (r_counter r = Calls \<or> r_counter r = counter_for spec) \<and> governed c"
  using assms read_counter [of c] read_ungoverned [of c]
  by (fastforce simp: refuse_on_quota_def split: if_splits)

lemma no_refusal_iff:
  "refuse_on_quota \<lparr>gt_authority = a, gt_quota = Some read\<rparr> c spec = None \<longleftrightarrow>
     \<not> r_exceeded (read c Calls) \<and> \<not> r_exceeded (read c (counter_for spec))"
  by (auto simp: refuse_on_quota_def)

lemma non_agent_never_refused:
  "\<not> governed c \<Longrightarrow> refuse_on_quota \<lparr>gt_authority = a, gt_quota = Some read\<rparr> c spec = None"
  using read_ungoverned by (simp add: no_refusal_iff)

lemma admit_read_refusal:
  assumes "admit_read (Some \<lparr>gt_authority = a, gt_quota = Some read\<rparr>) c = Some e"
  shows "governed c \<and> e = QuotaExceeded [] (read c Reads) \<and> quota_error_releasable e"
  using assms read_counter [of c Reads]
  by (auto simp: admit_read_def Let_def governed_def quota_error_releasable_def releasable_def
      split: option.splits if_splits)

end

interpretation mq: quota_meter "meter_read m s" for m s
  by unfold_locales (auto simp: meter_read_ungoverned)

section \<open>Lemmas\<close>

lemma admit_tier_Some_iff:
  "snd (admit_tier spec resolve c) = None \<longleftrightarrow>
     (ts_tier spec = TierAutoExecute
      \<or> (ts_tier spec = TierDynamic \<and> (\<exists>f i v. ts_tier_resolver spec = Some f \<and> resolve = Inr i
           \<and> f i = TierAutoExecute \<and> ti_observed_version i = Some v)))"
  by (cases "ts_tier spec"; cases "ts_tier_resolver spec"; cases resolve)
    (auto simp: admit_tier_def resolve_tier_def split: option.splits)

lemma admit_tier_ctx:
  "snd (admit_tier spec resolve c) = None \<Longrightarrow> ts_tier spec = TierDynamic \<Longrightarrow> resolve = Inr i \<Longrightarrow>
     fst (admit_tier spec resolve c) = c\<lparr>ctx_pin := ti_observed_version i\<rparr>"
  by (cases "ts_tier_resolver spec")
    (auto simp: admit_tier_def resolve_tier_def with_auto_execute_pin_def split: option.splits if_splits)

lemma admit_tier_static_ctx:
  "ts_tier spec \<noteq> TierDynamic \<Longrightarrow> fst (admit_tier spec resolve c) = c"
  by (auto simp: admit_tier_def resolve_tier_def)

lemma refresh_authority_Inr:
  "refresh_authority r ws p = Inr p' \<longleftrightarrow>
     (\<exists>st rb. rv_seat r ws (p_on_behalf_of p) = Inr st \<and> rv_rbac r ws (p_on_behalf_of p) = Inr rb
        \<and> p' = p\<lparr>p_seat_type := st, p_permissions := rb_permissions rb, p_team_ids := rb_team_ids rb\<rparr>)"
  by (auto simp: refresh_authority_def split: sum.splits)

text \<open>Every step an admitted agent call passed.\<close>

lemma admit_agent_None:
  assumes "snd (admit_agent g c p spec resolve) = None"
  obtains gt r ws p' where "g = Some gt" "gt_authority gt = Some r" "ctx_workspace c = Some ws"
    "p_on_behalf_of p \<noteq> nil_uuid" "has_scope (p_scopes p) (ts_required_scope spec)"
    "refresh_authority r ws p = Inr p'"
    "ts_required_scope spec = ScopeRead \<or> can_mutate (p_seat_type p')"
    "refuse_on_quota gt (with_actor c p') spec = None"
    "snd (admit_tier spec resolve (with_actor c p')) = None"
    "admit_agent g c p spec resolve = admit_tier spec resolve (with_actor c p')"
proof -
  from assms have scope: "has_scope (p_scopes p) (ts_required_scope spec)"
    by (auto simp: admit_agent_def split: if_splits)
  with assms obtain gt r where g: "g = Some gt" "gt_authority gt = Some r"
    by (cases g) (auto simp: admit_agent_def split: option.splits)
  with assms scope obtain ws where ws: "ctx_workspace c = Some ws"
    by (cases "ctx_workspace c") (auto simp: admit_agent_def)
  from assms scope g ws have ob: "p_on_behalf_of p \<noteq> nil_uuid"
    by (auto simp: admit_agent_def is_zero_def)
  with assms scope g ws obtain p' where p': "refresh_authority r ws p = Inr p'"
    by (cases "refresh_authority r ws p") (auto simp: admit_agent_def is_zero_def)
  show thesis
    by (rule that [OF g ws ob scope p'])
      (use assms scope g ws ob p' in \<open>auto simp: admit_agent_def is_zero_def Let_def split: if_splits option.splits\<close>)
qed

lemma admit_agent_iff:
  assumes "ctx_actor c = Some p" "p_type p = PrincipalAgent"
  shows "admit g c spec resolve = admit_agent g c p spec resolve"
  using assms by (simp add: admit_def)

lemma admitted_ctx:
  assumes "snd (admit_tier spec resolve c) = None"
  shows "ctx_actor (fst (admit_tier spec resolve c)) = ctx_actor c"
    and "ctx_workspace (fst (admit_tier spec resolve c)) = ctx_workspace c"
proof -
  have "fst (admit_tier spec resolve c) = c \<or> (\<exists>v. fst (admit_tier spec resolve c) = c\<lparr>ctx_pin := v\<rparr>)"
    by (auto simp: admit_tier_def with_auto_execute_pin_def split: sum.splits option.splits)
  then show "ctx_actor (fst (admit_tier spec resolve c)) = ctx_actor c"
    and "ctx_workspace (fst (admit_tier spec resolve c)) = ctx_workspace c" by auto
qed

text \<open>A closed instance: a full-seat human's agent, every authority read answering.\<close>

definition full_rbac :: rbac where
  "full_rbac = \<lparr>rb_permissions = \<lparr>pm_role_keys = [''rep''], pm_objects = [''deal'' \<mapsto>
       \<lparr>g_create = True, g_read = True, g_update = True, g_delete = False\<rparr>],
     pm_row_scope = RowScopeTeam, pm_field_masks = []\<rparr>, rb_team_ids = [9]\<rparr>"

definition live_resolver :: resolver where
  "live_resolver = \<lparr>rv_seat = (\<lambda>_ _. Inr SeatFull), rv_rbac = (\<lambda>_ _. Inr full_rbac)\<rparr>"

definition advance_deal_spec :: tool_spec where
  "advance_deal_spec = \<lparr>ts_name = ''advance_deal'', ts_required_scope = ScopeWrite,
     ts_tier = TierDynamic,
     ts_tier_resolver = Some (\<lambda>i. if ti_target_stage i = ''open'' then TierAutoExecute
                                  else TierConfirmationRequired),
     ts_egress = False\<rparr>"

definition open_move :: tier_input where
  "open_move = \<lparr>ti_args = JNull, ti_source_stage = ''open'', ti_target_stage = ''open'',
     ti_pipeline_id = ''p'', ti_observed_version = Some 4\<rparr>"

section \<open>Properties\<close>

lemma admit_tier_exact:
  "admit_tier spec resolve c1 = (c', None) \<longleftrightarrow>
     (ts_tier spec = TierAutoExecute \<and> c' = c1)
     \<or> (ts_tier spec = TierDynamic \<and> (\<exists>f i v. ts_tier_resolver spec = Some f \<and> resolve = Inr i
          \<and> f i = TierAutoExecute \<and> ti_observed_version i = Some v \<and> c' = with_auto_execute_pin c1 v))"
  by (auto simp: admit_tier_def resolve_tier_def split: sum.splits option.splits if_splits)

text \<open>
  C8. What an admitted agent call is: its passport carries the tool's scope; it acts for a named
  human whose seat and policy were read for this very call; a tool that does more than read needs that
  human's full seat; neither the call quota nor the tool's own counter is exhausted on that refreshed
  principal; and the tier resolved to auto-execute. Each condition is needed and together they suffice.
  The context the call goes on with is exactly the caller's with the seat, permissions and teams just
  read in place of whatever the principal arrived stamped with, pinned, for a dynamic tool, to the
  version its tier was decided from.
\<close>

theorem admit_agent_exactly_when:
  assumes "ctx_actor c = Some p" "p_type p = PrincipalAgent"
  shows "admit (Some gt) c spec resolve = (c', None) \<longleftrightarrow>
    has_scope (p_scopes p) (ts_required_scope spec) \<and> p_on_behalf_of p \<noteq> nil_uuid
    \<and> (\<exists>r ws st rb c1. gt_authority gt = Some r \<and> ctx_workspace c = Some ws
        \<and> rv_seat r ws (p_on_behalf_of p) = Inr st \<and> rv_rbac r ws (p_on_behalf_of p) = Inr rb
        \<and> (ts_required_scope spec = ScopeRead \<or> st = SeatFull)
        \<and> c1 = c\<lparr>ctx_actor := Some (p\<lparr>p_seat_type := st, p_permissions := rb_permissions rb,
            p_team_ids := rb_team_ids rb\<rparr>)\<rparr>
        \<and> refuse_on_quota gt c1 spec = None
        \<and> ((ts_tier spec = TierAutoExecute \<and> c' = c1)
          \<or> (ts_tier spec = TierDynamic \<and> (\<exists>f i v. ts_tier_resolver spec = Some f \<and> resolve = Inr i
               \<and> f i = TierAutoExecute \<and> ti_observed_version i = Some v \<and> c' = c1\<lparr>ctx_pin := Some v\<rparr>))))"
proof -
  have agent: "admit (Some gt) c spec resolve = admit_agent (Some gt) c p spec resolve"
    using assms by (simp add: admit_def)
  show ?thesis
  proof (cases "has_scope (p_scopes p) (ts_required_scope spec) \<and> p_on_behalf_of p \<noteq> nil_uuid")
    case False
    then show ?thesis
      by (auto simp: agent admit_agent_def is_zero_def split: option.splits)
  next
    case True
    note exact = admit_tier_exact [unfolded with_auto_execute_pin_def]
    show ?thesis
    proof (cases "gt_authority gt")
      case (Some r)
      show ?thesis
      proof (cases "ctx_workspace c")
        case (Some ws)
        show ?thesis
        proof (cases "rv_seat r ws (p_on_behalf_of p)"; cases "rv_rbac r ws (p_on_behalf_of p)")
          fix st rb assume seat: "rv_seat r ws (p_on_behalf_of p) = Inr st" "rv_rbac r ws (p_on_behalf_of p) = Inr rb"
          then show ?thesis
            using True \<open>gt_authority gt = Some r\<close> \<open>ctx_workspace c = Some ws\<close>
            by (auto simp: agent admit_agent_def is_zero_def refresh_authority_def can_mutate_def with_actor_def Let_def exact
                split: option.splits if_splits)
        qed (use True \<open>gt_authority gt = Some r\<close> \<open>ctx_workspace c = Some ws\<close> in
            \<open>simp_all add: agent admit_agent_def is_zero_def refresh_authority_def\<close>)
      qed (simp add: agent admit_agent_def is_zero_def True \<open>gt_authority gt = Some r\<close>)
    qed (simp add: agent admit_agent_def True)
  qed
qed

theorem admit_agent_exactly_when_witness:
  "admit (Some (new_gate (Some live_resolver) None)) (agent_ctx 1 2) advance_deal_spec (Inr open_move)
     = ((agent_ctx 1 2)\<lparr>ctx_actor := Some ((agent_principal 2)\<lparr>p_seat_type := SeatFull,
          p_permissions := rb_permissions full_rbac, p_team_ids := [9]\<rparr>), ctx_pin := Some 4\<rparr>, None)"
  by (subst admit_agent_exactly_when [of _ "agent_principal 2"])
    (simp_all add: has_scope_def advance_deal_spec_def new_gate_def full_rbac_def
      live_resolver_def nil_uuid_def open_move_def refuse_on_quota_def)

lemma admit_runs_on_live_authority_facts:
  assumes "ctx_actor c = Some p" "p_type p = PrincipalAgent"
    and "admit (Some gt) c spec resolve = (c', None)"
  shows "\<exists>r ws st rb. gt_authority gt = Some r \<and> ctx_workspace c = Some ws
      \<and> rv_seat r ws (p_on_behalf_of p) = Inr st \<and> rv_rbac r ws (p_on_behalf_of p) = Inr rb
      \<and> ctx_actor c' = Some (p\<lparr>p_seat_type := st, p_permissions := rb_permissions rb,
            p_team_ids := rb_team_ids rb\<rparr>) \<and> ctx_workspace c' = Some ws"
    and "ts_tier spec = TierDynamic \<Longrightarrow>
      \<exists>i v. resolve = Inr i \<and> ti_observed_version i = Some v \<and> auto_execute_pin c' = Some v"
    and "ts_tier spec \<noteq> TierDynamic \<Longrightarrow> auto_execute_pin c' = auto_execute_pin c"
proof -
  have "snd (admit_agent (Some gt) c p spec resolve) = None"
    using assms admit_agent_iff by simp
  then obtain r ws p' where s: "gt_authority gt = Some r" "ctx_workspace c = Some ws"
      "refresh_authority r ws p = Inr p'" "snd (admit_tier spec resolve (with_actor c p')) = None"
      "admit_agent (Some gt) c p spec resolve = admit_tier spec resolve (with_actor c p')"
    by (rule admit_agent_None) (metis option.inject)
  have c': "c' = fst (admit_tier spec resolve (with_actor c p'))"
    using assms s(5) admit_agent_iff by simp
  show "\<exists>r ws st rb. gt_authority gt = Some r \<and> ctx_workspace c = Some ws
      \<and> rv_seat r ws (p_on_behalf_of p) = Inr st \<and> rv_rbac r ws (p_on_behalf_of p) = Inr rb
      \<and> ctx_actor c' = Some (p\<lparr>p_seat_type := st, p_permissions := rb_permissions rb,
            p_team_ids := rb_team_ids rb\<rparr>) \<and> ctx_workspace c' = Some ws"
    using s(1-3) admitted_ctx [OF s(4)] c' by (auto simp: refresh_authority_Inr with_actor_def)
  show "ts_tier spec = TierDynamic \<Longrightarrow>
      \<exists>i v. resolve = Inr i \<and> ti_observed_version i = Some v \<and> auto_execute_pin c' = Some v"
    using s(4) admit_tier_Some_iff [of spec resolve "with_actor c p'"]
      admit_tier_ctx [OF s(4)] c' by (auto simp: auto_execute_pin_def)
  show "ts_tier spec \<noteq> TierDynamic \<Longrightarrow> auto_execute_pin c' = auto_execute_pin c"
    using c' admit_tier_static_ctx by (simp add: auto_execute_pin_def with_actor_def)
qed

text \<open>
  No stale authority: an admitted agent's context carries exactly the seat, policy and teams the
  resolver answered for this call, whatever the principal arrived stamped with, and a dynamic tool's
  call is pinned to the version its tier was decided from.
\<close>

theorem admit_runs_on_live_authority:
  assumes "ctx_actor c = Some p" "p_type p = PrincipalAgent"
    and "admit (Some gt) c spec resolve = (c', None)"
  shows "(\<exists>r ws st rb. gt_authority gt = Some r \<and> ctx_workspace c = Some ws
      \<and> rv_seat r ws (p_on_behalf_of p) = Inr st \<and> rv_rbac r ws (p_on_behalf_of p) = Inr rb
      \<and> ctx_actor c' = Some (p\<lparr>p_seat_type := st, p_permissions := rb_permissions rb,
            p_team_ids := rb_team_ids rb\<rparr>) \<and> ctx_workspace c' = Some ws)
     \<and> (ts_tier spec = TierDynamic \<longrightarrow>
         (\<exists>i v. resolve = Inr i \<and> ti_observed_version i = Some v \<and> auto_execute_pin c' = Some v))
     \<and> (ts_tier spec \<noteq> TierDynamic \<longrightarrow> auto_execute_pin c' = auto_execute_pin c)"
  by (assumption | rule admit_runs_on_live_authority_facts [OF assms] conjI impI)+

theorem admit_runs_on_live_authority_witness:
  "auto_execute_pin (fst (admit (Some (new_gate (Some live_resolver) None)) (agent_ctx 1 2)
      advance_deal_spec (Inr open_move))) = Some 4"
proof -
  let ?a = "admit (Some (new_gate (Some live_resolver) None)) (agent_ctx 1 2) advance_deal_spec (Inr open_move)"
  have admitted: "?a = (fst ?a, None)"
    by (simp add: admit_def admit_agent_def admit_tier_def resolve_tier_def refresh_authority_def
        has_scope_def advance_deal_spec_def new_gate_def is_zero_def
        live_resolver_def nil_uuid_def open_move_def refuse_on_quota_def can_mutate_def Let_def)
  show ?thesis
    using admit_runs_on_live_authority [THEN conjunct2, THEN conjunct1, THEN mp, OF agent_ctx_simps(1) agent_principal_simps(1) admitted]
    by (auto simp: advance_deal_spec_def open_move_def)
qed

text \<open>
  A passport whose call quota is spent is suspended: over the real meter the refusal is the
  quota's, it names the exhausted counter, it does not depend on the tool's tier, and nothing is
  read to resolve that tier (any tier input gives the same answer).
\<close>

theorem suspended_passport_refused_before_tier:
  assumes "ctx_actor c = Some p" "p_type p = PrincipalAgent"
    and "has_scope (p_scopes p) (ts_required_scope spec)" "p_on_behalf_of p \<noteq> nil_uuid"
    and "ctx_workspace c = Some ws" "refresh_authority r ws p = Inr p'"
    and "ts_required_scope spec = ScopeRead \<or> can_mutate (p_seat_type p')"
    and "r_exceeded (meter_read m s (with_actor c p') Calls)"
  shows "\<exists>rd. snd (admit (Some (new_gate (Some r) (Some (meter_read m s)))) c spec resolve)
        = Some (QuotaExceeded (ts_name spec) rd) \<and> r_counter rd = Calls
      \<and> \<not> quota_error_releasable (QuotaExceeded (ts_name spec) rd)
      \<and> gate_sentinel (QuotaExceeded (ts_name spec) rd) = ErrBudgetExceeded"
proof -
  let ?g = "new_gate (Some r) (Some (meter_read m s))"
  have "refuse_on_quota ?g (with_actor c p') spec
      = Some (QuotaExceeded (ts_name spec) (meter_read m s (with_actor c p') Calls))"
    using assms(8) by (simp add: refuse_on_quota_def new_gate_def)
  then show ?thesis
    using assms by (auto simp: admit_def admit_agent_def Let_def is_zero_def new_gate_def
        quota_error_releasable_def releasable_def gate_sentinel_def)
qed

theorem suspended_passport_refused_before_tier_witness:
  "\<exists>rd. snd (admit (Some (new_gate (Some live_resolver)
        (Some (meter_read (day_meter\<lparr>m_rdb := None\<rparr>) Map.empty)))) (agent_ctx 1 2) advance_deal_spec (Inl ErrConflict))
      = Some (QuotaExceeded ''advance_deal'' rd)"
proof -
  let ?p = "(agent_principal 2)\<lparr>p_seat_type := SeatFull, p_permissions := rb_permissions full_rbac,
              p_team_ids := rb_team_ids full_rbac\<rparr>"
  have r: "refresh_authority live_resolver 1 (agent_principal 2) = Inr ?p"
    by (simp add: refresh_authority_def live_resolver_def)
  have gov: "governed (with_actor (agent_ctx 1 2) ?p)"
    by (simp add: governed_def with_actor_def)
  have x: "r_exceeded (meter_read (day_meter\<lparr>m_rdb := None\<rparr>) Map.empty (with_actor (agent_ctx 1 2) ?p) Calls)"
    using gov day_meter_simps(2) by (auto simp: meter_read_def Let_def split: prod.splits)
  show ?thesis
    using suspended_passport_refused_before_tier [OF agent_ctx_simps(1) agent_principal_simps(1) _ _ _ r _ x,
        of advance_deal_spec "Inl ErrConflict"]
    by (auto simp: advance_deal_spec_def has_scope_def nil_uuid_def can_mutate_def)
qed

text \<open>
  Absence of authority is denial: an agent whose granting human the resolver no longer knows is
  refused with the permission error whatever its passport and stamped policy say, so is one naming no
  human or no workspace or reaching a gate with no resolver, and a Deal Room participant is refused
  by kind.
\<close>

theorem admit_fails_closed:
  assumes "ctx_actor c = Some p"
    and "p_type p = PrincipalBuyer
      \<or> (p_type p = PrincipalAgent \<and> has_scope (p_scopes p) (ts_required_scope spec)
         \<and> (Option.bind g gt_authority = None \<or> ctx_workspace c = None \<or> p_on_behalf_of p = nil_uuid
            \<or> (\<forall>r ws. Option.bind g gt_authority = Some r \<longrightarrow> ctx_workspace c = Some ws \<longrightarrow>
                 rv_seat r ws (p_on_behalf_of p) = Inl ErrNotFound)))"
  shows "admit g c spec resolve = (c, Some (GateErr ErrPermissionDenied))"
  using assms
  by (cases "Option.bind g gt_authority"; cases "ctx_workspace c")
    (auto simp: admit_def admit_agent_def is_zero_def refresh_authority_def denied_if_gone_def)

theorem admit_fails_closed_witness:
  "admit (Some (new_gate None None)) (agent_ctx 1 2) advance_deal_spec (Inr open_move)
   = (agent_ctx 1 2, Some (GateErr ErrPermissionDenied))"
  by (rule admit_fails_closed [of _ "agent_principal 2"])
    (simp_all add: has_scope_def advance_deal_spec_def new_gate_def)

end
