(* ===== verification/Rbac.thy ===== *)
theory Rbac
  imports Principal
begin

text \<open>
  Object-level authorization: \<^verbatim>\<open>backend/internal/platform/auth/rbac.go\<close>. Each
  gate answers from the acting principal's merged policy; a missing actor is the programming error
  the code reports, a refusal is \<open>ErrPermissionDenied\<close>.
\<close>

section \<open>The gates\<close>

definition rbac_actor :: "ctx \<Rightarrow> principal result" where
  "rbac_actor c =
     (case ctx_actor c of None \<Rightarrow> Inl (ErrOther ''auth: no actor bound to context'') | Some p \<Rightarrow> Inr p)"

definition refuse_buyer :: "principal \<Rightarrow> unit result" where
  "refuse_buyer p = guardR (p_type p \<noteq> PrincipalBuyer) ErrPermissionDenied"

definition require :: "ctx \<Rightarrow> string \<Rightarrow> action \<Rightarrow> unit result" where
  "require c object a =
     bindR (rbac_actor c) (\<lambda>p.
     bindR (refuse_buyer p) (\<lambda>_.
       if p_type p = PrincipalSystem then Inr ()
       else guardR (allows (p_permissions p) object a) ErrPermissionDenied))"

definition require_any :: "ctx \<Rightarrow> string \<Rightarrow> action list \<Rightarrow> unit result" where
  "require_any c object acts =
     bindR (rbac_actor c) (\<lambda>p.
     bindR (refuse_buyer p) (\<lambda>_.
       if p_type p = PrincipalSystem then Inr ()
       else guardR (list_ex (allows (p_permissions p) object) acts) ErrPermissionDenied))"

definition upsert_action :: "bool \<Rightarrow> action" where
  "upsert_action replacing = (if replacing then ActionUpdate else ActionCreate)"

definition require_human :: "ctx \<Rightarrow> unit result" where
  "require_human c =
     bindR (rbac_actor c) (\<lambda>p.
     bindR (refuse_buyer p) (\<lambda>_. guardR (p_type p \<noteq> PrincipalAgent) ErrPermissionDenied))"

definition role_admin :: string where
  "role_admin = ''admin''"

definition require_admin :: "ctx \<Rightarrow> unit result" where
  "require_admin c =
     (case ctx_actor c of
        None \<Rightarrow> Inl ErrPermissionDenied
      | Some p \<Rightarrow>
          bindR (refuse_buyer p) (\<lambda>_.
            if p_type p = PrincipalSystem then Inr ()
            else guardR (role_admin \<in> set (pm_role_keys (p_permissions p))) ErrPermissionDenied))"

section \<open>Audit attribution\<close>

definition audit_action_grant_table :: "(string \<times> action) list" where
  "audit_action_grant_table =
     [(''create'', ActionCreate), (''update'', ActionUpdate), (''assign'', ActionUpdate),
      (''advance_stage'', ActionUpdate), (''advance_phase'', ActionUpdate), (''restore'', ActionUpdate),
      (''archive'', ActionDelete), (''merge'', ActionUpdate), (''promote'', ActionUpdate),
      (''consent_grant'', ActionUpdate), (''consent_withdraw'', ActionUpdate),
      (''activity_relink'', ActionUpdate), (''resolve'', ActionUpdate), (''erase'', ActionUpdate),
      (''export'', ActionDelete), (''record_share'', ActionUpdate), (''invite'', ActionUpdate),
      (''revoke'', ActionUpdate), (''publish'', ActionUpdate), (''pause'', ActionUpdate),
      (''resume'', ActionUpdate), (''close'', ActionUpdate), (''accrue'', ActionCreate),
      (''pay'', ActionUpdate), (''record_unshare'', ActionUpdate), (''connect'', ActionCreate),
      (''disconnect'', ActionDelete), (''schedule'', ActionCreate), (''reschedule'', ActionUpdate),
      (''cancel'', ActionUpdate), (''release'', ActionCreate), (''hold'', ActionUpdate)]"

definition audit_action_grant :: "string \<Rightarrow> action option" where
  "audit_action_grant verb = map_of audit_action_grant_table verb"

definition rule_deal_room_session :: string where
  "rule_deal_room_session = ''deal_room_session''"

definition authz_rule :: "principal \<Rightarrow> string \<Rightarrow> string \<Rightarrow> string" where
  "authz_rule p entity verb =
     (if p_type p = PrincipalSystem \<or> (p_type p = PrincipalConnector \<and> p_on_behalf_of p = nil_uuid)
      then ''system''
      else if p_type p = PrincipalBuyer then rule_deal_room_session
      else case audit_action_grant verb of
             None \<Rightarrow> []
           | Some a \<Rightarrow> rule (p_permissions p) entity a)"

section \<open>Lemmas\<close>

lemma require_Inr_iff:
  "require c object a = Inr u \<longleftrightarrow>
     (\<exists>p. ctx_actor c = Some p \<and> p_type p \<noteq> PrincipalBuyer
        \<and> (p_type p = PrincipalSystem \<or> allows (p_permissions p) object a))"
  by (auto simp: require_def rbac_actor_def refuse_buyer_def split: option.splits)

lemma require_any_Inr_iff:
  "require_any c object acts = Inr u \<longleftrightarrow>
     (\<exists>p. ctx_actor c = Some p \<and> p_type p \<noteq> PrincipalBuyer
        \<and> (p_type p = PrincipalSystem \<or> (\<exists>a \<in> set acts. allows (p_permissions p) object a)))"
  by (auto simp: require_any_def rbac_actor_def refuse_buyer_def list_ex_iff split: option.splits)

lemma require_any_actor:
  "ctx_actor c = Some p \<Longrightarrow>
     require_any c object acts = (if require_any c object acts = Inr () then Inr () else Inl ErrPermissionDenied)"
  by (auto simp: require_any_def rbac_actor_def refuse_buyer_def)

lemma require_human_Inr_iff:
  "require_human c = Inr u \<longleftrightarrow>
     (\<exists>p. ctx_actor c = Some p \<and> p_type p \<notin> {PrincipalBuyer, PrincipalAgent})"
  by (auto simp: require_human_def rbac_actor_def refuse_buyer_def split: option.splits)

lemma require_admin_Inr_iff:
  "require_admin c = Inr u \<longleftrightarrow>
     (\<exists>p. ctx_actor c = Some p \<and> p_type p \<noteq> PrincipalBuyer
        \<and> (p_type p = PrincipalSystem \<or> role_admin \<in> set (pm_role_keys (p_permissions p))))"
  by (auto simp: require_admin_def refuse_buyer_def split: option.splits)

lemma audit_verbs_distinct: "distinct (map fst audit_action_grant_table)"
  by code_simp

lemma rule_nonempty: "rule pm object a \<noteq> []"
  by (simp add: rule_def)

section \<open>Properties\<close>

lemma rbac_gates_facts:
  assumes "ctx_actor c = Some p"
  shows "p_type p = PrincipalBuyer \<Longrightarrow>
      require c object a = Inl ErrPermissionDenied \<and> require_any c object acts = Inl ErrPermissionDenied
      \<and> require_human c = Inl ErrPermissionDenied \<and> require_admin c = Inl ErrPermissionDenied"
    and "p_type p \<noteq> PrincipalBuyer \<Longrightarrow> acts \<noteq> [] \<Longrightarrow>
      require_any c object acts =
        (if \<exists>a \<in> set acts. require c object a = Inr () then Inr () else Inl ErrPermissionDenied)"
proof -
  show "p_type p = PrincipalBuyer \<Longrightarrow>
      require c object a = Inl ErrPermissionDenied \<and> require_any c object acts = Inl ErrPermissionDenied
      \<and> require_human c = Inl ErrPermissionDenied \<and> require_admin c = Inl ErrPermissionDenied"
    using assms
    by (simp add: require_def require_any_def require_human_def require_admin_def rbac_actor_def
        refuse_buyer_def)
  assume "p_type p \<noteq> PrincipalBuyer" "acts \<noteq> []"
  then have "require_any c object acts = Inr () \<longleftrightarrow> (\<exists>a \<in> set acts. require c object a = Inr ())"
    using assms by (auto simp: require_any_Inr_iff require_Inr_iff neq_Nil_conv)
  then show "require_any c object acts =
        (if \<exists>a \<in> set acts. require c object a = Inr () then Inr () else Inl ErrPermissionDenied)"
    using require_any_actor [OF assms, of object acts] by presburger
qed

text \<open>
  No policy admits a Deal Room participant: every object, human-only and admin gate answers the
  permission error for a buyer, whatever grants, roles and row scope the principal carries; and for
  an actor of any other kind \<open>RequireAny\<close> admits exactly when \<open>Require\<close> admits one of its
  actions.
\<close>

theorem rbac_gates:
  assumes "ctx_actor c = Some p"
  shows "(p_type p = PrincipalBuyer \<longrightarrow>
         (require c object a = Inl ErrPermissionDenied \<and> require_any c object acts = Inl ErrPermissionDenied
      \<and> require_human c = Inl ErrPermissionDenied \<and> require_admin c = Inl ErrPermissionDenied))
     \<and> (p_type p \<noteq> PrincipalBuyer \<longrightarrow> acts \<noteq> [] \<longrightarrow> (require_any c object acts =
        (if \<exists>a \<in> set acts. require c object a = Inr () then Inr () else Inl ErrPermissionDenied)))"
  by (assumption | rule rbac_gates_facts [OF assms] conjI impI)+

definition buyer_ctx :: ctx where
  "buyer_ctx = background\<lparr>ctx_workspace := Some 1, ctx_actor := Some
     \<lparr>p_type = PrincipalBuyer, p_id = ''buyer:b'', p_user_id = 8, p_team_ids = [], p_passport_id = nil_uuid,
      p_on_behalf_of = nil_uuid, p_scopes = {}, p_seat_type = SeatFull,
      p_permissions = \<lparr>pm_role_keys = [''admin''], pm_objects = [''deal'' \<mapsto>
         \<lparr>g_create = True, g_read = True, g_update = True, g_delete = True\<rparr>],
         pm_row_scope = RowScopeAll, pm_field_masks = []\<rparr>\<rparr>\<rparr>"

theorem rbac_gates_witness:
  "require buyer_ctx ''deal'' ActionRead = Inl ErrPermissionDenied
   \<and> require_admin buyer_ctx = Inl ErrPermissionDenied"
  using rbac_gates [THEN conjunct1, THEN mp, of buyer_ctx "the (ctx_actor buyer_ctx)" "''deal''" ActionRead "[]"]
  by (simp add: buyer_ctx_def)

lemma authz_rule_attributes_facts:
  assumes "verb \<in> set (map fst audit_action_grant_table)"
  shows "authz_rule p entity verb \<noteq> []"
    and "p_type p = PrincipalBuyer \<Longrightarrow> authz_rule p entity verb = rule_deal_room_session"
    and "p_type p = PrincipalConnector \<Longrightarrow> p_on_behalf_of p = nil_uuid \<Longrightarrow> authz_rule p entity verb = ''system''"
    and "p_type p \<in> {PrincipalHuman, PrincipalAgent} \<Longrightarrow>
      \<exists>a. (verb, a) \<in> set audit_action_grant_table \<and> authz_rule p entity verb = rule (p_permissions p) entity a"
proof -
  obtain a where a: "audit_action_grant verb = Some a"
    using assms by (cases "audit_action_grant verb") (auto simp: audit_action_grant_def map_of_eq_None_iff)
  then show "authz_rule p entity verb \<noteq> []"
    by (simp add: authz_rule_def rule_nonempty rule_deal_room_session_def)
  show "p_type p = PrincipalBuyer \<Longrightarrow> authz_rule p entity verb = rule_deal_room_session"
    by (simp add: authz_rule_def)
  show "p_type p = PrincipalConnector \<Longrightarrow> p_on_behalf_of p = nil_uuid \<Longrightarrow> authz_rule p entity verb = ''system''"
    by (simp add: authz_rule_def)
  show "p_type p \<in> {PrincipalHuman, PrincipalAgent} \<Longrightarrow>
      \<exists>a. (verb, a) \<in> set audit_action_grant_table \<and> authz_rule p entity verb = rule (p_permissions p) entity a"
    using a by (auto simp: authz_rule_def audit_action_grant_def dest: map_of_SomeD)
qed

text \<open>
  Every write leaves an attribution: for each audit verb the table names, the recorded
  authorization rule is never blank, and it claims a role policy only for an actor that has one (a
  system or unattended connector write says \<open>system\<close>, a participant's says its room session).
\<close>

theorem authz_rule_attributes:
  assumes "verb \<in> set (map fst audit_action_grant_table)"
  shows "(authz_rule p entity verb \<noteq> [])
     \<and> (p_type p = PrincipalBuyer \<longrightarrow> authz_rule p entity verb = rule_deal_room_session)
     \<and> (p_type p = PrincipalConnector \<longrightarrow> p_on_behalf_of p = nil_uuid \<longrightarrow>
         authz_rule p entity verb = ''system'')
     \<and> (p_type p \<in> {PrincipalHuman, PrincipalAgent} \<longrightarrow>
         (\<exists>a. (verb, a) \<in> set audit_action_grant_table \<and> authz_rule p entity verb = rule (p_permissions p) entity a))"
  by (assumption | rule authz_rule_attributes_facts [OF assms] conjI impI)+

theorem authz_rule_attributes_witness:
  "authz_rule (the (ctx_actor buyer_ctx)) ''deal'' ''close'' = ''deal_room_session''"
  by (subst authz_rule_attributes [THEN conjunct2, THEN conjunct1, THEN mp])
    (simp_all add: audit_action_grant_table_def buyer_ctx_def rule_deal_room_session_def)

end
