(* ===== verification/Row_Scope.thy ===== *)
theory Row_Scope
  imports Rbac
begin

text \<open>
  Row-level authorization: \<^verbatim>\<open>rowscope.go\<close>, \<^verbatim>\<open>writescope.go\<close>,
  \<^verbatim>\<open>tableclass.go\<close> and \<^verbatim>\<open>fieldmask.go\<close> of
  \<^verbatim>\<open>backend/internal/platform/auth\<close>. The code renders SQL predicates; a rendered
  predicate is modelled by what it selects: a function of the database state and the row. \<open>None\<close>
  stands for the literal text \<open>TRUE\<close> (callers test for it) and a probe is the query
  \<open>SELECT EXISTS (...)\<close>. A comparison with a NULL column selects nothing, as in SQL.
\<close>

section \<open>The tables a predicate reads\<close>

record rec_row =
  rr_id :: uuid
  rr_owner :: "uuid option"
  rr_visibility :: string
  rr_archived_at :: "time option"

record record_grant =
  rg_record_type :: string
  rg_record_id :: uuid
  rg_access :: string
  rg_expires_at :: "time option"
  rg_subject_type :: string
  rg_subject_id :: uuid

record scope_db =
  db_rows :: "string \<Rightarrow> rec_row list"
  db_grants :: "record_grant list"
  db_memberships :: "(uuid \<times> uuid) list"
  db_now :: time

definition exists_row :: "scope_db \<Rightarrow> string \<Rightarrow> uuid \<Rightarrow> (rec_row \<Rightarrow> bool) \<Rightarrow> bool" where
  "exists_row db table i P = list_ex (\<lambda>r. rr_id r = i \<and> P r) (db_rows db table)"

section \<open>Table classes\<close>

definition identity_tables :: "string list" where
  "identity_tables = [''person'', ''organization'', ''lead'', ''deal'', ''project'']"

definition shareable_tables :: "string list" where
  "shareable_tables = [''person'', ''organization'', ''deal'', ''lead'', ''project'']"

definition owner_private_tables :: "string list" where
  "owner_private_tables = [''person'', ''organization'']"

definition owner_scoped_tables :: "string list" where
  "owner_scoped_tables = [''person'', ''organization'', ''deal'', ''lead'', ''project'',
     ''list'', ''saved_view'', ''automation'', ''voice_profile'']"

definition unbounded :: "principal \<Rightarrow> bool" where
  "unbounded p \<longleftrightarrow> p_type p \<noteq> PrincipalBuyer
     \<and> (p_type p = PrincipalSystem \<or> pm_row_scope (p_permissions p) = RowScopeAll)"

definition reads_every_row :: "principal \<Rightarrow> string \<Rightarrow> bool" where
  "reads_every_row p table \<longleftrightarrow>
     p_type p \<noteq> PrincipalBuyer \<and> (unbounded p \<or> table \<in> set identity_tables)"

definition unbounded_for :: "principal \<Rightarrow> string list \<Rightarrow> bool" where
  "unbounded_for p tables \<longleftrightarrow> p_type p = PrincipalSystem
     \<or> list_all (\<lambda>t. \<not> (t \<in> set owner_private_tables \<or> \<not> reads_every_row p t)) tables"

section \<open>Predicates\<close>

type_synonym pred = "(rec_row \<Rightarrow> bool) option"

definition holds :: "pred \<Rightarrow> rec_row \<Rightarrow> bool" where
  "holds P r = (case P of None \<Rightarrow> True | Some f \<Rightarrow> f r)"

text \<open>The own/team test; \<open>unowned\<close> is whether an ownerless row passes.\<close>

definition owner_pred :: "principal \<Rightarrow> scope_db \<Rightarrow> bool \<Rightarrow> pred" where
  "owner_pred p db unowned =
     (if unbounded p then None
      else Some (\<lambda>r. (unowned \<and> rr_owner r = None) \<or> rr_owner r = Some (p_user_id p)
        \<or> (pm_row_scope (p_permissions p) = RowScopeTeam
           \<and> list_ex (\<lambda>(team, user). team \<in> set (p_team_ids p) \<and> rr_owner r = Some user)
               (db_memberships db))))"

definition owner_predicate :: "principal \<Rightarrow> scope_db \<Rightarrow> pred" where
  "owner_predicate p db = owner_pred p db True"

text \<open>A live \<open>record_grant\<close> to the caller or one of their teams.\<close>

definition grant_live :: "scope_db \<Rightarrow> record_grant \<Rightarrow> bool" where
  "grant_live db g = (case rg_expires_at g of None \<Rightarrow> True | Some t \<Rightarrow> db_now db < t)"

definition grant_to :: "principal \<Rightarrow> record_grant \<Rightarrow> bool" where
  "grant_to p g \<longleftrightarrow> (rg_subject_type g = ''user'' \<and> rg_subject_id g = p_user_id p)
     \<or> (rg_subject_type g = ''team'' \<and> rg_subject_id g \<in> set (p_team_ids p))"

definition granted :: "principal \<Rightarrow> scope_db \<Rightarrow> string \<Rightarrow> uuid \<Rightarrow> bool" where
  "granted p db table i = list_ex (\<lambda>g. rg_record_type g = table \<and> rg_record_id g = i
     \<and> grant_live db g \<and> grant_to p g) (db_grants db)"

definition write_granted :: "principal \<Rightarrow> scope_db \<Rightarrow> string \<Rightarrow> uuid \<Rightarrow> bool" where
  "write_granted p db table i = list_ex (\<lambda>g. rg_record_type g = table \<and> rg_record_id g = i
     \<and> rg_access g = ''write'' \<and> grant_live db g \<and> grant_to p g) (db_grants db)"

text \<open>\<open>predicateFor\<close>: capture privacy around the owner scope, then the grant arm.\<close>

definition predicate_for :: "principal \<Rightarrow> string \<Rightarrow> scope_db \<Rightarrow> bool \<Rightarrow> pred" where
  "predicate_for p table db capture =
     (let scope = (if table \<in> set identity_tables then None else owner_predicate p db);
          private = (capture \<and> table \<in> set owner_private_tables \<and> p_type p \<noteq> PrincipalSystem);
          shareable = (table \<in> set shareable_tables \<and> (\<not> reads_every_row p table \<or> private))
      in if \<not> private \<and> \<not> shareable then scope
         else let visible = (if private
                    then (\<lambda>r. (rr_visibility r \<noteq> ''owner'' \<and> holds scope r) \<or> rr_owner r = Some (p_user_id p))
                    else holds scope)
              in if \<not> shareable then Some visible
                 else Some (\<lambda>r. visible r \<or> granted p db table (rr_id r)))"

definition visible_predicate :: "principal \<Rightarrow> string \<Rightarrow> scope_db \<Rightarrow> pred" where
  "visible_predicate p table db = predicate_for p table db True"

text \<open>\<open>ScopeClause\<close>/\<open>ScopeClauseFor\<close>: the empty clause is \<open>None\<close>.\<close>

definition scope_clause :: "ctx \<Rightarrow> scope_db \<Rightarrow> pred result" where
  "scope_clause c db =
     bindR (rbac_actor c) (\<lambda>p. Inr (if unbounded p then None else owner_predicate p db))"

definition not_row_scoped :: app_error where
  "not_row_scoped = ErrOther ''auth: not a row-scoped table''"

definition scope_clause_for :: "ctx \<Rightarrow> string \<Rightarrow> scope_db \<Rightarrow> pred option result" where
  "scope_clause_for c table db =
     (if table \<notin> set owner_scoped_tables then Inl not_row_scoped
      else bindR (rbac_actor c) (\<lambda>p.
        Inr (if unbounded_for p [table] then None else Some (visible_predicate p table db))))"

definition clause_holds :: "pred option \<Rightarrow> rec_row \<Rightarrow> bool" where
  "clause_holds cl r = (case cl of None \<Rightarrow> True | Some P \<Rightarrow> holds P r)"

section \<open>Read probes\<close>

definition ensure_visible_live :: "ctx \<Rightarrow> scope_db \<Rightarrow> string \<Rightarrow> uuid \<Rightarrow> unit result" where
  "ensure_visible_live c db table i =
     bindR (scope_clause_for c table db) (\<lambda>cl.
       guardR (exists_row db table i (\<lambda>r. rr_archived_at r = None \<and> clause_holds cl r)) ErrNotFound)"

definition ensure_link_target :: "ctx \<Rightarrow> scope_db \<Rightarrow> string \<Rightarrow> uuid \<Rightarrow> unit result" where
  "ensure_link_target = ensure_visible_live"

definition ensure_visible :: "ctx \<Rightarrow> scope_db \<Rightarrow> string \<Rightarrow> uuid \<Rightarrow> unit result" where
  "ensure_visible c db table i =
     bindR (scope_clause_for c table db) (\<lambda>cl.
       case cl of None \<Rightarrow> Inr () | Some P \<Rightarrow> guardR (exists_row db table i (holds P)) ErrNotFound)"

definition ensure_visible_for_subject_rights :: "ctx \<Rightarrow> scope_db \<Rightarrow> string \<Rightarrow> uuid \<Rightarrow> unit result" where
  "ensure_visible_for_subject_rights c db table i =
     (if table \<notin> set owner_scoped_tables then Inl not_row_scoped
      else bindR (rbac_actor c) (\<lambda>p.
        if unbounded p then Inr ()
        else guardR (exists_row db table i (holds (predicate_for p table db False))) ErrNotFound))"

definition visible_to :: "ctx \<Rightarrow> scope_db \<Rightarrow> string \<Rightarrow> uuid \<Rightarrow> bool result" where
  "visible_to c db table i =
     (case ensure_visible c db table i of
        Inr _ \<Rightarrow> Inr True
      | Inl e \<Rightarrow> if e = ErrNotFound then Inr False else Inl e)"

definition visible_subset :: "ctx \<Rightarrow> scope_db \<Rightarrow> string \<Rightarrow> uuid list \<Rightarrow> uuid set result" where
  "visible_subset c db table row_ids =
     (if table \<notin> set owner_scoped_tables then Inl not_row_scoped
      else bindR (rbac_actor c) (\<lambda>p.
        case require c table ActionRead of
          Inl e \<Rightarrow> if e = ErrPermissionDenied then Inr {} else Inl e
        | Inr _ \<Rightarrow>
            if unbounded_for p [table] then Inr (set row_ids)
            else if row_ids = [] then Inr {}
            else Inr (rr_id ` set (filter (\<lambda>r. rr_id r \<in> set row_ids
                        \<and> holds (visible_predicate p table db) r) (db_rows db table)))))"

section \<open>Write probes\<close>

definition write_authority :: "principal \<Rightarrow> string \<Rightarrow> scope_db \<Rightarrow> rec_row \<Rightarrow> bool" where
  "write_authority p table db r \<longleftrightarrow>
     holds (owner_pred p db False) r \<or> write_granted p db table (rr_id r)"

definition ensure_write_authority :: "ctx \<Rightarrow> scope_db \<Rightarrow> string \<Rightarrow> uuid \<Rightarrow> unit result" where
  "ensure_write_authority c db table i =
     (if table \<notin> set owner_scoped_tables then Inl not_row_scoped
      else bindR (rbac_actor c) (\<lambda>p.
        if unbounded p \<or> table \<notin> set shareable_tables then Inr ()
        else guardR (exists_row db table i (write_authority p table db)) ErrPermissionDenied))"

definition ensure_writable :: "ctx \<Rightarrow> scope_db \<Rightarrow> string \<Rightarrow> uuid \<Rightarrow> unit result" where
  "ensure_writable c db table i =
     bindR (ensure_visible c db table i) (\<lambda>_. ensure_write_authority c db table i)"

definition ensure_writable_live :: "ctx \<Rightarrow> scope_db \<Rightarrow> string \<Rightarrow> uuid \<Rightarrow> unit result" where
  "ensure_writable_live c db table i =
     bindR (ensure_visible_live c db table i) (\<lambda>_. ensure_write_authority c db table i)"

definition ensure_writable_for_subject_rights :: "ctx \<Rightarrow> scope_db \<Rightarrow> string \<Rightarrow> uuid \<Rightarrow> unit result" where
  "ensure_writable_for_subject_rights c db table i =
     bindR (ensure_visible_for_subject_rights c db table i) (\<lambda>_. ensure_write_authority c db table i)"

definition writable_by :: "ctx \<Rightarrow> scope_db \<Rightarrow> string \<Rightarrow> uuid \<Rightarrow> bool result" where
  "writable_by c db table i =
     (case ensure_writable c db table i of
        Inr _ \<Rightarrow> Inr True
      | Inl e \<Rightarrow> if e = ErrNotFound \<or> e = ErrPermissionDenied then Inr False else Inl e)"

definition ensure_can_grant :: "ctx \<Rightarrow> scope_db \<Rightarrow> string \<Rightarrow> uuid \<Rightarrow> unit result" where
  "ensure_can_grant c db table i =
     (if table \<notin> set shareable_tables then Inl (ErrOther ''auth: not a shareable table'')
      else ensure_write_authority c db table i)"

definition ensure_claimable :: "ctx \<Rightarrow> scope_db \<Rightarrow> string \<Rightarrow> uuid \<Rightarrow> unit result" where
  "ensure_claimable c db table i =
     bindR (ensure_visible_live c db table i) (\<lambda>_.
     bindR (rbac_actor c) (\<lambda>p.
       if unbounded p then Inr ()
       else guardR (exists_row db table i (\<lambda>r. rr_owner r = None \<or> write_authority p table db r))
              ErrPermissionDenied))"

definition writable_subset :: "ctx \<Rightarrow> scope_db \<Rightarrow> string \<Rightarrow> uuid list \<Rightarrow> uuid set result" where
  "writable_subset c db table row_ids =
     (if table \<notin> set shareable_tables then Inl (ErrOther ''auth: not a shareable table'')
      else bindR (rbac_actor c) (\<lambda>p.
        if unbounded_for p [table] \<and> unbounded p then Inr (set row_ids)
        else if \<not> allows (p_permissions p) table ActionUpdate then Inr {}
        else if row_ids = [] then Inr {}
        else Inr (rr_id ` set (filter (\<lambda>r. rr_id r \<in> set row_ids
               \<and> holds (visible_predicate p table db) r \<and> write_authority p table db r)
             (db_rows db table)))))"

section \<open>Field masks\<close>

definition masked_fields :: "principal \<Rightarrow> string \<Rightarrow> bool \<Rightarrow> string list" where
  "masked_fields p object writable =
     (if unbounded p then []
      else map fm_field (filter (\<lambda>m. fm_object m = object
             \<and> \<not> (fm_condition m = MaskOutsideWriteAuthority \<and> writable)) (pm_field_masks (p_permissions p))))"

definition masks_any_row_of :: "ctx \<Rightarrow> string \<Rightarrow> string \<Rightarrow> bool result" where
  "masks_any_row_of c object field =
     bindR (rbac_actor c) (\<lambda>p. Inr (\<not> unbounded p
       \<and> list_ex (\<lambda>m. fm_object m = object \<and> fm_field m = field) (pm_field_masks (p_permissions p))))"

text \<open>\<open>MaskExcludedClause\<close>: the rows on which the caller may read the field, and whether any mask
  names it. \<open>Some (\<lambda>_. False)\<close> is the clause \<open>FALSE\<close>.\<close>

fun mask_clause :: "principal \<Rightarrow> scope_db \<Rightarrow> string \<Rightarrow> string \<Rightarrow> pred \<Rightarrow> bool \<Rightarrow> field_mask list \<Rightarrow> pred \<times> bool" where
  "mask_clause p db object field cl masked [] = (cl, masked)"
| "mask_clause p db object field cl masked (m # ms) =
     (if fm_object m \<noteq> object \<or> fm_field m \<noteq> field then mask_clause p db object field cl masked ms
      else if fm_condition m \<noteq> MaskOutsideWriteAuthority then (Some (\<lambda>_. False), True)
      else if \<not> allows (p_permissions p) object ActionUpdate then (Some (\<lambda>_. False), True)
      else mask_clause p db object field
             (if cl = None then Some (write_authority p object db) else cl) True ms)"

definition mask_excluded_clause :: "ctx \<Rightarrow> scope_db \<Rightarrow> string \<Rightarrow> string \<Rightarrow> (pred \<times> bool) result" where
  "mask_excluded_clause c db object field =
     bindR (rbac_actor c) (\<lambda>p. Inr (if unbounded p then (None, False)
        else mask_clause p db object field None False (pm_field_masks (p_permissions p))))"

lemmas table_classes [model_defs] = identity_tables_def shareable_tables_def owner_private_tables_def
  owner_scoped_tables_def

section \<open>Lemmas\<close>

lemma exists_row_iff [simp]:
  "exists_row db table i P \<longleftrightarrow> (\<exists>r \<in> set (db_rows db table). rr_id r = i \<and> P r)"
  by (auto simp: exists_row_def list_ex_iff)

lemma holds_simps [simp]: "holds None r" "holds (Some f) r = f r"
  by (auto simp: holds_def)

lemma table_class_simps:
  "t \<in> set shareable_tables \<longleftrightarrow> t \<in> set identity_tables"
  "t \<in> set identity_tables \<Longrightarrow> t \<in> set owner_scoped_tables"
  "t \<in> set owner_private_tables \<Longrightarrow> t \<in> set identity_tables"
  by (auto simp: model_defs)

text \<open>Customer identity that carries no capture privacy: a seated actor's read has no predicate.\<close>

lemma visible_predicate_shared:
  assumes "t \<in> set identity_tables" "t \<notin> set owner_private_tables" "p_type p \<noteq> PrincipalBuyer"
  shows "visible_predicate p t db = None" "unbounded_for p [t]"
  using assms by (auto simp: visible_predicate_def predicate_for_def reads_every_row_def
      unbounded_for_def Let_def)

lemma visible_predicate_private:
  assumes "t \<in> set owner_private_tables" "p_type p \<noteq> PrincipalSystem"
  shows "holds (visible_predicate p t db) r \<longleftrightarrow>
      rr_visibility r \<noteq> ''owner'' \<or> rr_owner r = Some (p_user_id p) \<or> granted p db t (rr_id r)"
    and "\<not> unbounded_for p [t]"
  using assms table_class_simps(3) [OF assms(1)]
  by (auto simp: visible_predicate_def predicate_for_def table_class_simps unbounded_for_def Let_def)

lemma ensure_visible_private:
  assumes "ctx_actor c = Some p" "t \<in> set owner_private_tables" "p_type p \<noteq> PrincipalSystem"
  shows "ensure_visible c db t i = guardR (\<exists>r \<in> set (db_rows db t). rr_id r = i \<and>
      (rr_visibility r \<noteq> ''owner'' \<or> rr_owner r = Some (p_user_id p) \<or> granted p db t (rr_id r))) ErrNotFound"
  using assms table_class_simps(2,3) visible_predicate_private [OF assms(2,3)]
  by (auto simp: ensure_visible_def scope_clause_for_def rbac_actor_def)

lemma ensure_visible_shared:
  assumes "ctx_actor c = Some p" "t \<in> set identity_tables" "t \<notin> set owner_private_tables"
    "p_type p \<noteq> PrincipalBuyer"
  shows "ensure_visible c db t i = Inr ()"
  using assms table_class_simps(2) visible_predicate_shared [OF assms(2-4)]
  by (auto simp: ensure_visible_def scope_clause_for_def rbac_actor_def)

lemma ensure_visible_unbounded_for:
  assumes "ctx_actor c = Some p" "t \<in> set owner_scoped_tables"
  shows "ensure_visible c db t i = (if unbounded_for p [t] then Inr ()
     else guardR (\<exists>r \<in> set (db_rows db t). rr_id r = i \<and> holds (visible_predicate p t db) r) ErrNotFound)"
  using assms by (simp add: ensure_visible_def scope_clause_for_def rbac_actor_def)

lemma visible_predicate_unbounded_for:
  assumes "t \<in> set shareable_tables" "unbounded_for p [t]"
  shows "visible_predicate p t db = None"
  using assms table_class_simps(1) [of t]
  by (auto simp: visible_predicate_def predicate_for_def unbounded_for_def reads_every_row_def
      unbounded_def Let_def)

lemma write_authority_unbounded: "unbounded p \<Longrightarrow> write_authority p t db r"
  by (simp add: write_authority_def owner_pred_def)

lemma ensure_write_authority_eq:
  assumes "ctx_actor c = Some p" "t \<in> set shareable_tables"
  shows "ensure_write_authority c db t i = (if unbounded p then Inr ()
     else guardR (\<exists>r \<in> set (db_rows db t). rr_id r = i \<and> write_authority p t db r) ErrPermissionDenied)"
  using assms table_class_simps by (simp add: ensure_write_authority_def rbac_actor_def)

lemma bounded_write_authority:
  assumes "\<not> unbounded p"
  shows "write_authority p t db r \<longleftrightarrow> rr_owner r = Some (p_user_id p)
     \<or> (pm_row_scope (p_permissions p) = RowScopeTeam
        \<and> (\<exists>(team, user) \<in> set (db_memberships db). team \<in> set (p_team_ids p) \<and> rr_owner r = Some user))
     \<or> write_granted p db t (rr_id r)"
  using assms by (auto simp: write_authority_def owner_pred_def list_ex_iff)

lemma write_granted_granted: "write_granted p db t i \<Longrightarrow> granted p db t i"
  by (auto simp: write_granted_def granted_def list_ex_iff)

lemma unique_row:
  assumes "distinct (map rr_id (db_rows db t))" "r \<in> set (db_rows db t)" "r' \<in> set (db_rows db t)"
    "rr_id r' = rr_id r"
  shows "r' = r"
  using assms by (metis find_distinct_key option.inject)

lemma unique_row_ex:
  assumes "distinct (map rr_id (db_rows db t))" "r \<in> set (db_rows db t)" "rr_id r = i"
  shows "(\<exists>r' \<in> set (db_rows db t). rr_id r' = i \<and> P r') \<longleftrightarrow> P r"
  using assms unique_row by metis

lemma ensure_visible_result:
  "ctx_actor c = Some p \<Longrightarrow> t \<in> set owner_scoped_tables \<Longrightarrow>
     ensure_visible c db t i \<in> {Inr (), Inl ErrNotFound}"
  by (simp add: ensure_visible_unbounded_for guardR_def)

lemma ensure_writable_result:
  "ctx_actor c = Some p \<Longrightarrow> t \<in> set owner_scoped_tables \<Longrightarrow>
     ensure_writable c db t i \<in> {Inr (), Inl ErrNotFound, Inl ErrPermissionDenied}"
  using ensure_visible_result [of c p t db i]
  by (auto simp: ensure_writable_def ensure_write_authority_def rbac_actor_def guardR_def)

text \<open>A closed instance: one deal of user 7's, one captured private person of user 5's.\<close>

definition sample_db :: scope_db where
  "sample_db =
     \<lparr>db_rows = (\<lambda>t. if t = ''deal'' then
                [\<lparr>rr_id = 100, rr_owner = Some 7, rr_visibility = ''workspace'', rr_archived_at = None\<rparr>,
                 \<lparr>rr_id = 101, rr_owner = None, rr_visibility = ''workspace'', rr_archived_at = None\<rparr>]
              else if t = ''person'' then
                [\<lparr>rr_id = 200, rr_owner = Some 5, rr_visibility = ''owner'', rr_archived_at = None\<rparr>]
              else []),
      db_grants = [\<lparr>rg_record_type = ''deal'', rg_record_id = 101, rg_access = ''read'', rg_expires_at = None,
                    rg_subject_type = ''user'', rg_subject_id = 7\<rparr>],
      db_memberships = [], db_now = 0\<rparr>"

definition rep :: "row_scope \<Rightarrow> principal" where
  "rep sc = \<lparr>p_type = PrincipalHuman, p_id = ''human:7'', p_user_id = 7, p_team_ids = [], p_passport_id = nil_uuid,
     p_on_behalf_of = nil_uuid, p_scopes = {}, p_seat_type = SeatFull,
     p_permissions = \<lparr>pm_role_keys = [''rep''], pm_objects = [''deal'' \<mapsto>
         \<lparr>g_create = True, g_read = True, g_update = True, g_delete = False\<rparr>],
       pm_row_scope = sc, pm_field_masks = []\<rparr>\<rparr>"

definition rep_ctx :: "row_scope \<Rightarrow> ctx" where
  "rep_ctx sc = background\<lparr>ctx_workspace := Some 1, ctx_actor := Some (rep sc)\<rparr>"

lemma rep_simps [simp]:
  "ctx_actor (rep_ctx sc) = Some (rep sc)" "p_type (rep sc) = PrincipalHuman" "p_user_id (rep sc) = 7"
  "pm_row_scope (p_permissions (rep sc)) = sc" "p_team_ids (rep sc) = []"
  "unbounded (rep sc) \<longleftrightarrow> sc = RowScopeAll"
  by (auto simp: rep_ctx_def rep_def unbounded_def)

section \<open>Properties\<close>

lemma capture_privacy_holds_at_every_scope_facts:
  assumes "ctx_actor c = Some p" "p_type p \<noteq> PrincipalSystem" "t \<in> set owner_private_tables"
    and "distinct (map rr_id (db_rows db t))" "r \<in> set (db_rows db t)"
    and "rr_visibility r = ''owner''" "rr_owner r \<noteq> Some (p_user_id p)" "\<not> granted p db t (rr_id r)"
  shows "ensure_visible c db t (rr_id r) = Inl ErrNotFound"
    and "ensure_writable c db t (rr_id r) = Inl ErrNotFound"
    and "visible_to c db t (rr_id r) = Inr False"
proof -
  have "\<not> (\<exists>r' \<in> set (db_rows db t). rr_id r' = rr_id r \<and>
      (rr_visibility r' \<noteq> ''owner'' \<or> rr_owner r' = Some (p_user_id p) \<or> granted p db t (rr_id r')))"
    using assms(4-8) unique_row [OF assms(4,5)] by metis
  then show v: "ensure_visible c db t (rr_id r) = Inl ErrNotFound"
    using ensure_visible_private [OF assms(1,3,2)] by (simp add: guardR_def)
  then show "ensure_writable c db t (rr_id r) = Inl ErrNotFound"
    and "visible_to c db t (rr_id r) = Inr False"
    by (simp_all add: ensure_writable_def visible_to_def)
qed

text \<open>
  Capture privacy does not yield to row scope: a contact a connector minted for another user
  (owner-private, not shared with the caller) is absent for every principal but the system, at every
  row scope, and a write to it is refused as absent too, never as forbidden.
\<close>

theorem capture_privacy_holds_at_every_scope:
  assumes "ctx_actor c = Some p" "p_type p \<noteq> PrincipalSystem" "t \<in> set owner_private_tables"
    and "distinct (map rr_id (db_rows db t))" "r \<in> set (db_rows db t)"
    and "rr_visibility r = ''owner''" "rr_owner r \<noteq> Some (p_user_id p)" "\<not> granted p db t (rr_id r)"
  shows "(ensure_visible c db t (rr_id r) = Inl ErrNotFound)
     \<and> (ensure_writable c db t (rr_id r) = Inl ErrNotFound)
     \<and> (visible_to c db t (rr_id r) = Inr False)"
  by (assumption | rule capture_privacy_holds_at_every_scope_facts [OF assms] conjI impI)+

theorem capture_privacy_holds_at_every_scope_witness:
  "ensure_visible (rep_ctx RowScopeAll) sample_db ''person'' 200 = Inl ErrNotFound"
  using capture_privacy_holds_at_every_scope [THEN conjunct1, of "rep_ctx RowScopeAll" "rep RowScopeAll" "''person''"
      sample_db "hd (db_rows sample_db ''person'')"]
  by (simp add: model_defs sample_db_def granted_def)

lemma write_authority_exact_facts:
  assumes "ctx_actor c = Some p" "\<not> unbounded p" "p_type p \<noteq> PrincipalBuyer"
    and "t \<in> {''lead'', ''deal'', ''project''}"
    and "distinct (map rr_id (db_rows db t))" "r \<in> set (db_rows db t)"
  shows "ensure_writable c db t (rr_id r) =
      (if rr_owner r = Some (p_user_id p)
          \<or> (pm_row_scope (p_permissions p) = RowScopeTeam \<and> (\<exists>(team, user) \<in> set (db_memberships db).
               team \<in> set (p_team_ids p) \<and> rr_owner r = Some user))
          \<or> write_granted p db t (rr_id r)
       then Inr () else Inl ErrPermissionDenied)"
    and "rr_owner r = None \<Longrightarrow> rr_archived_at r = None \<Longrightarrow> ensure_claimable c db t (rr_id r) = Inr ()"
proof -
  have t: "t \<in> set identity_tables" "t \<notin> set owner_private_tables" "t \<in> set shareable_tables"
    "t \<in> set owner_scoped_tables"
    using assms(4) by (auto simp: model_defs)
  have "ensure_visible c db t (rr_id r) = Inr ()"
    by (rule ensure_visible_shared [OF assms(1) t(1,2) assms(3)])
  then show "ensure_writable c db t (rr_id r) =
      (if rr_owner r = Some (p_user_id p)
          \<or> (pm_row_scope (p_permissions p) = RowScopeTeam \<and> (\<exists>(team, user) \<in> set (db_memberships db).
               team \<in> set (p_team_ids p) \<and> rr_owner r = Some user))
          \<or> write_granted p db t (rr_id r)
       then Inr () else Inl ErrPermissionDenied)"
    using unique_row_ex [OF assms(5,6) refl, of "write_authority p t db"]
    by (simp add: ensure_writable_def ensure_write_authority_eq [OF assms(1) t(3)] assms(2)
        bounded_write_authority [OF assms(2)] guardR_def)
  show "rr_owner r = None \<Longrightarrow> rr_archived_at r = None \<Longrightarrow> ensure_claimable c db t (rr_id r) = Inr ()"
    using assms(1,2,6) t(4) visible_predicate_shared [OF t(1,2) assms(3)]
    by (auto simp: ensure_claimable_def ensure_visible_live_def scope_clause_for_def rbac_actor_def
        clause_holds_def)
qed

text \<open>
  Who may change a shared record: for an actor without all-rows scope, a write to an existing
  lead, deal or project passes exactly when the actor owns it, holds team scope with its owner on
  one of their teams, or holds an unexpired write grant; otherwise it is refused as forbidden. A read
  grant never writes, and an ownerless record is nobody's to change but anyone's to claim.
\<close>

theorem write_authority_exact:
  assumes "ctx_actor c = Some p" "\<not> unbounded p" "p_type p \<noteq> PrincipalBuyer"
    and "t \<in> {''lead'', ''deal'', ''project''}"
    and "distinct (map rr_id (db_rows db t))" "r \<in> set (db_rows db t)"
  shows "(ensure_writable c db t (rr_id r) =
      (if rr_owner r = Some (p_user_id p)
          \<or> (pm_row_scope (p_permissions p) = RowScopeTeam \<and> (\<exists>(team, user) \<in> set (db_memberships db).
               team \<in> set (p_team_ids p) \<and> rr_owner r = Some user))
          \<or> write_granted p db t (rr_id r)
       then Inr () else Inl ErrPermissionDenied))
     \<and> (rr_owner r = None \<longrightarrow> rr_archived_at r = None \<longrightarrow> ensure_claimable c db t (rr_id r) = Inr ())"
  by (assumption | rule write_authority_exact_facts [OF assms] conjI impI)+

theorem write_authority_exact_witness:
  "ensure_writable (rep_ctx RowScopeOwn) sample_db ''deal'' 100 = Inr ()
   \<and> ensure_writable (rep_ctx RowScopeOwn) sample_db ''deal'' 101 = Inl ErrPermissionDenied
   \<and> ensure_claimable (rep_ctx RowScopeOwn) sample_db ''deal'' 101 = Inr ()"
  using write_authority_exact [THEN conjunct1, of "rep_ctx RowScopeOwn" "rep RowScopeOwn" "''deal''" sample_db
      "db_rows sample_db ''deal'' ! 0"]
    write_authority_exact [of "rep_ctx RowScopeOwn" "rep RowScopeOwn" "''deal''" sample_db
      "db_rows sample_db ''deal'' ! 1"]
  by (simp add: sample_db_def write_granted_def)

lemma bulk_probes_agree_facts:
  assumes "ctx_actor c = Some p" "t \<in> set shareable_tables" "distinct (map rr_id (db_rows db t))"
  shows "writable_subset c db t ids =
      Inr {i \<in> set ids. (allows (p_permissions p) t ActionUpdate \<or> (unbounded p \<and> unbounded_for p [t]))
             \<and> ensure_writable c db t i = Inr ()}"
    and "visible_subset c db t ids = Inr {i \<in> set ids. require c t ActionRead = Inr ()
             \<and> ensure_visible c db t i = Inr ()}"
proof -
  have t: "t \<in> set owner_scoped_tables" using assms(2) table_class_simps by blast
  have vis: "ensure_visible c db t i = Inr () \<longleftrightarrow> unbounded_for p [t]
      \<or> (\<exists>r \<in> set (db_rows db t). rr_id r = i \<and> holds (visible_predicate p t db) r)" for i
    by (simp add: ensure_visible_unbounded_for [OF assms(1) t])
  show "visible_subset c db t ids = Inr {i \<in> set ids. require c t ActionRead = Inr ()
             \<and> ensure_visible c db t i = Inr ()}"
    using assms(1) t
    by (auto simp: visible_subset_def rbac_actor_def vis require_def refuse_buyer_def guardR_def)
  have wr: "ensure_writable c db t i = Inr () \<longleftrightarrow> ensure_visible c db t i = Inr ()
      \<and> (unbounded p \<or> (\<exists>r \<in> set (db_rows db t). rr_id r = i \<and> write_authority p t db r))" for i
    by (simp add: ensure_writable_def ensure_write_authority_eq [OF assms(1,2)])
  have one: "(\<exists>r \<in> set (db_rows db t). rr_id r = i \<and> P r) \<and> (\<exists>r \<in> set (db_rows db t). rr_id r = i \<and> Q r)
      \<longleftrightarrow> (\<exists>r \<in> set (db_rows db t). rr_id r = i \<and> P r \<and> Q r)" for i P Q
    using unique_row [OF assms(3)] by metis
  have both: "ensure_writable c db t i = Inr () \<longleftrightarrow> (unbounded p \<and> unbounded_for p [t])
      \<or> (\<exists>r \<in> set (db_rows db t). rr_id r = i \<and> holds (visible_predicate p t db) r \<and> write_authority p t db r)" for i
    using one [of i "holds (visible_predicate p t db)" "write_authority p t db"]
      visible_predicate_unbounded_for [OF assms(2)] write_authority_unbounded [of p t db]
    by (cases "unbounded_for p [t]"; cases "unbounded p") (auto simp: wr vis)
  show "writable_subset c db t ids =
      Inr {i \<in> set ids. (allows (p_permissions p) t ActionUpdate \<or> (unbounded p \<and> unbounded_for p [t]))
             \<and> ensure_writable c db t i = Inr ()}"
    using assms(1,2) by (auto simp: writable_subset_def rbac_actor_def both)
qed

text \<open>
  One row or many, the same answer: the bulk probe keeps an identifier exactly when the caller
  may update that kind of record at all and the single-record probe admits that identifier, and the
  bulk read keeps it exactly when the single read would.
\<close>

theorem bulk_probes_agree:
  assumes "ctx_actor c = Some p" "t \<in> set shareable_tables" "distinct (map rr_id (db_rows db t))"
  shows "(writable_subset c db t ids =
      Inr {i \<in> set ids. (allows (p_permissions p) t ActionUpdate \<or> (unbounded p \<and> unbounded_for p [t]))
             \<and> ensure_writable c db t i = Inr ()})
     \<and> (visible_subset c db t ids = Inr {i \<in> set ids. require c t ActionRead = Inr ()
             \<and> ensure_visible c db t i = Inr ()})"
  by (assumption | rule bulk_probes_agree_facts [OF assms] conjI impI)+

theorem bulk_probes_agree_witness:
  "writable_subset (rep_ctx RowScopeOwn) sample_db ''deal'' [100, 101, 102] = Inr {100}"
proof -
  have w: "ensure_writable (rep_ctx RowScopeOwn) sample_db ''deal'' i = Inr () \<longleftrightarrow> i = 100"
    if "i \<in> {100, 101, 102}" for i
  proof -
    have "ensure_visible (rep_ctx RowScopeOwn) sample_db ''deal'' i = Inr ()"
      by (rule ensure_visible_shared [where p = "rep RowScopeOwn"]) (simp_all add: model_defs)
    with that show ?thesis
      by (auto simp: ensure_writable_def ensure_write_authority_def rbac_actor_def model_defs
          bounded_write_authority sample_db_def write_granted_def guardR_def)
  qed
  show ?thesis
    using bulk_probes_agree [THEN conjunct1, of "rep_ctx RowScopeOwn" "rep RowScopeOwn" "''deal''" sample_db "[100, 101, 102]"] w
    by (auto simp: model_defs sample_db_def allows_def rep_def)
qed

lemma refusals_hide_existence_facts:
  assumes "ctx_actor c = Some p" "t \<in> set owner_scoped_tables"
  shows "ensure_writable c db t i \<in> {Inr (), Inl ErrNotFound, Inl ErrPermissionDenied}"
    and "ensure_writable c db t i = Inl ErrNotFound \<longleftrightarrow> ensure_visible c db t i = Inl ErrNotFound"
    and "ensure_writable c db t i = Inl ErrPermissionDenied \<Longrightarrow> visible_to c db t i = Inr True"
    and "writable_by c db t i = Inr (ensure_writable c db t i = Inr ())"
proof -
  note res = ensure_visible_result [OF assms, of db i]
  have auth: "ensure_write_authority c db t i \<in> {Inr (), Inl ErrPermissionDenied}"
    using assms by (auto simp: ensure_write_authority_def rbac_actor_def guardR_def)
  show "ensure_writable c db t i \<in> {Inr (), Inl ErrNotFound, Inl ErrPermissionDenied}"
    using ensure_writable_result [OF assms] .
  show "ensure_writable c db t i = Inl ErrNotFound \<longleftrightarrow> ensure_visible c db t i = Inl ErrNotFound"
    using res auth by (auto simp: ensure_writable_def)
  show "ensure_writable c db t i = Inl ErrPermissionDenied \<Longrightarrow> visible_to c db t i = Inr True"
    using res by (auto simp: ensure_writable_def visible_to_def)
  show "writable_by c db t i = Inr (ensure_writable c db t i = Inr ())"
    using ensure_writable_result [OF assms, of db i] by (auto simp: writable_by_def)
qed

text \<open>
  Refusals hide existence: over the row-scoped tables a write probe answers success, absent or
  forbidden and nothing else; it answers absent exactly when the read probe does, so forbidden is
  said only of a record the caller can already see.
\<close>

theorem refusals_hide_existence:
  assumes "ctx_actor c = Some p" "t \<in> set owner_scoped_tables"
  shows "(ensure_writable c db t i \<in> {Inr (), Inl ErrNotFound, Inl ErrPermissionDenied})
     \<and> (ensure_writable c db t i = Inl ErrNotFound \<longleftrightarrow> ensure_visible c db t i = Inl ErrNotFound)
     \<and> (ensure_writable c db t i = Inl ErrPermissionDenied \<longrightarrow> visible_to c db t i = Inr True)
     \<and> (writable_by c db t i = Inr (ensure_writable c db t i = Inr ()))"
  by (assumption | rule refusals_hide_existence_facts [OF assms] conjI impI)+

theorem refusals_hide_existence_witness:
  "ensure_writable (rep_ctx RowScopeTeam) sample_db ''person'' 200 \<noteq> Inl ErrPermissionDenied"
proof -
  have "ensure_visible (rep_ctx RowScopeTeam) sample_db ''person'' 200 = Inl ErrNotFound"
    by (simp add: ensure_visible_private [where p = "rep RowScopeTeam"] model_defs sample_db_def
        granted_def guardR_def)
  then show ?thesis
    using refusals_hide_existence [THEN conjunct2, THEN conjunct1, of "rep_ctx RowScopeTeam" "rep RowScopeTeam" "''person''" sample_db 200]
    by (simp add: model_defs)
qed

text \<open>
  Where the row predicates are wider than the comments beside them. The table-class arm is answered
  before the principal's kind: the rendered predicate selects every row of a lead, deal or project for
  a Deal Room participant (only the object gates refuse that kind), and the subject-rights probe, whose
  comment says it keeps the caller's own/team scope, selects every row of a person.
\<close>

theorem buyer_predicate_selects_every_row:
  assumes "ctx_actor c = Some p" "p_type p = PrincipalBuyer" "t \<in> {''lead'', ''deal'', ''project''}"
    and "r \<in> set (db_rows db t)"
  shows "ensure_visible c db t (rr_id r) = Inr ()"
proof -
  have t: "t \<in> set identity_tables" "t \<notin> set owner_private_tables" "t \<in> set owner_scoped_tables"
    "t \<in> set shareable_tables"
    using assms(3) by (auto simp: model_defs)
  have "\<not> unbounded_for p [t]" using assms(2) by (simp add: unbounded_for_def reads_every_row_def)
  moreover have "holds (visible_predicate p t db) r'" for r'
    using t assms(2) by (simp add: visible_predicate_def predicate_for_def reads_every_row_def Let_def)
  ultimately show ?thesis
    using assms(1,4) t(3) by (auto simp: ensure_visible_unbounded_for)
qed

theorem subject_rights_probe_ignores_owner_scope:
  assumes "ctx_actor c = Some p" "p_type p \<noteq> PrincipalBuyer" "r \<in> set (db_rows db ''person'')"
  shows "ensure_visible_for_subject_rights c db ''person'' (rr_id r) = Inr ()"
  using assms
  by (auto simp: ensure_visible_for_subject_rights_def rbac_actor_def predicate_for_def
      reads_every_row_def model_defs Let_def guardR_def)

end
