(* ===== verification/Inherited_Scope.thy ===== *)
theory Inherited_Scope
  imports Row_Scope
begin

text \<open>
  Visibility that a record inherits from the records it is linked to:
  \<^verbatim>\<open>inheritedscope.go\<close> and \<^verbatim>\<open>linkscope.go\<close> of
  \<^verbatim>\<open>backend/internal/platform/auth\<close>, and the activity write probe of
  \<^verbatim>\<open>writescope.go\<close>. An activity is discoverable through its links, readable through
  its audience, and never while it is restricted; a signal follows its subject, a relationship its
  endpoints.
\<close>

section \<open>Tables\<close>

record activity_row =
  ac_id :: uuid
  ac_restricted_at :: "time option"
  ac_audience :: string
  ac_captured_by :: string
  ac_assignee_id :: "uuid option"
  ac_host_user_id :: "uuid option"
  ac_archived_at :: "time option"

record link_row =
  al_activity_id :: uuid
  al_person_id :: "uuid option"
  al_organization_id :: "uuid option"
  al_deal_id :: "uuid option"
  al_lead_id :: "uuid option"
  al_project_id :: "uuid option"

record audience_member =
  am_activity_id :: uuid
  am_subject_type :: string
  am_subject_id :: uuid

record signal_row =
  sg_id :: uuid
  sg_visibility :: string
  sg_owner_id :: "uuid option"
  sg_entity_type :: "string option"
  sg_entity_id :: "uuid option"
  sg_archived_at :: "time option"

record relationship_row =
  rl_id :: uuid
  rl_person_id :: "uuid option"
  rl_organization_id :: "uuid option"
  rl_counterparty_org_id :: "uuid option"
  rl_deal_id :: "uuid option"
  rl_project_id :: "uuid option"

record act_db = scope_db +
  db_activities :: "activity_row list"
  db_links :: "link_row list"
  db_participants :: "(uuid \<times> uuid) list"
  db_audience :: "audience_member list"
  db_signals :: "signal_row list"
  db_relationships :: "relationship_row list"

definition sdb :: "act_db \<Rightarrow> scope_db" where
  "sdb db = \<lparr>db_rows = db_rows db, db_grants = db_grants db, db_memberships = db_memberships db,
     db_now = db_now db\<rparr>"

section \<open>Link targets\<close>

definition link_target_tables :: "string list" where
  "link_target_tables = [''person'', ''organization'', ''deal'', ''lead'', ''project'']"

definition link_columns :: "((link_row \<Rightarrow> uuid option) \<times> string) list" where
  "link_columns = [(al_person_id, ''person''), (al_organization_id, ''organization''),
     (al_deal_id, ''deal''), (al_lead_id, ''lead''), (al_project_id, ''project'')]"

text \<open>An arm over the literal predicate \<open>TRUE\<close> is the column test alone.\<close>

definition link_target_arm :: "act_db \<Rightarrow> string \<Rightarrow> uuid option \<Rightarrow> pred \<Rightarrow> bool" where
  "link_target_arm db table col P =
     (case col of None \<Rightarrow> False
      | Some i \<Rightarrow> (case P of None \<Rightarrow> True | Some f \<Rightarrow> exists_row (sdb db) table i f))"

definition link_target_visible :: "principal \<Rightarrow> act_db \<Rightarrow> link_row \<Rightarrow> bool" where
  "link_target_visible p db l =
     list_ex (\<lambda>(col, t). link_target_arm db t (col l) (visible_predicate p t (sdb db))) link_columns"

definition link_target_visible_clause :: "ctx \<Rightarrow> act_db \<Rightarrow> (link_row \<Rightarrow> bool) option result" where
  "link_target_visible_clause c db =
     bindR (rbac_actor c) (\<lambda>p. Inr (if unbounded_for p link_target_tables then None
        else Some (link_target_visible p db)))"

definition link_target_writable :: "principal \<Rightarrow> act_db \<Rightarrow> link_row \<Rightarrow> bool" where
  "link_target_writable p db l =
     list_ex (\<lambda>(col, t). case col l of None \<Rightarrow> False
                | Some i \<Rightarrow> exists_row (sdb db) t i (write_authority p t (sdb db))) link_columns"

section \<open>Activities\<close>

definition links_of :: "act_db \<Rightarrow> uuid \<Rightarrow> link_row list" where
  "links_of db i = filter (\<lambda>l. al_activity_id l = i) (db_links db)"

definition activity_available :: "activity_row \<Rightarrow> bool" where
  "activity_available a \<longleftrightarrow> ac_restricted_at a = None"

text \<open>\<open>coalesce((SELECT bool_or(...)), true)\<close>: no link at all is the workspace's to see.\<close>

definition activity_discover :: "principal \<Rightarrow> act_db \<Rightarrow> activity_row \<Rightarrow> bool" where
  "activity_discover p db a \<longleftrightarrow> activity_available a
     \<and> (unbounded_for p link_target_tables
        \<or> links_of db (ac_id a) = [] \<or> list_ex (link_target_visible p db) (links_of db (ac_id a)))"

text \<open>\<open>LIKE '%:<uuid>'\<close>: the author suffix of \<open>captured_by\<close>.\<close>

definition captured_by_user :: "activity_row \<Rightarrow> uuid \<Rightarrow> bool" where
  "captured_by_user a u \<longleftrightarrow>
     (let suffix = '':'' @ uuid_string u; n = length (ac_captured_by a) in
      length suffix \<le> n \<and> drop (n - length suffix) (ac_captured_by a) = suffix)"

definition activity_audience_arm :: "principal \<Rightarrow> act_db \<Rightarrow> activity_row \<Rightarrow> bool" where
  "activity_audience_arm p db a \<longleftrightarrow>
     ac_audience a = ''workspace''
     \<or> captured_by_user a (p_user_id p)
     \<or> (ac_id a, p_user_id p) \<in> set (db_participants db)
     \<or> (ac_audience a = ''selected'' \<and> list_ex (\<lambda>m. am_activity_id m = ac_id a
          \<and> ((am_subject_type m = ''user'' \<and> am_subject_id m = p_user_id p)
             \<or> (am_subject_type m = ''team'' \<and> am_subject_id m \<in> set (p_team_ids p)))) (db_audience db))"

definition activity_discover_clause :: "ctx \<Rightarrow> act_db \<Rightarrow> (activity_row \<Rightarrow> bool) result" where
  "activity_discover_clause c db = bindR (rbac_actor c) (\<lambda>p. Inr (activity_discover p db))"

definition activity_content_clause :: "ctx \<Rightarrow> act_db \<Rightarrow> (activity_row \<Rightarrow> bool) result" where
  "activity_content_clause c db =
     bindR (rbac_actor c) (\<lambda>p.
       if p_type p = PrincipalSystem then Inr (activity_discover p db)
       else Inr (\<lambda>a. activity_discover p db a \<and> activity_audience_arm p db a))"

definition activity_audience_clause :: "ctx \<Rightarrow> act_db \<Rightarrow> (activity_row \<Rightarrow> bool) result" where
  "activity_audience_clause c db =
     bindR (rbac_actor c) (\<lambda>p.
       if p_type p = PrincipalSystem then Inr (\<lambda>_. True) else Inr (activity_audience_arm p db))"

definition ensure_activity ::
  "ctx \<Rightarrow> act_db \<Rightarrow> uuid \<Rightarrow> (ctx \<Rightarrow> act_db \<Rightarrow> (activity_row \<Rightarrow> bool) result) \<Rightarrow> bool \<Rightarrow> unit result" where
  "ensure_activity c db i clause_for live =
     bindR (clause_for c db) (\<lambda>cl.
       guardR (list_ex (\<lambda>a. ac_id a = i \<and> (live \<longrightarrow> ac_archived_at a = None) \<and> cl a) (db_activities db))
         ErrNotFound)"

definition ensure_activity_visible :: "ctx \<Rightarrow> act_db \<Rightarrow> uuid \<Rightarrow> unit result" where
  "ensure_activity_visible c db i = ensure_activity c db i activity_discover_clause False"

definition ensure_activity_visible_live :: "ctx \<Rightarrow> act_db \<Rightarrow> uuid \<Rightarrow> unit result" where
  "ensure_activity_visible_live c db i = ensure_activity c db i activity_discover_clause True"

definition ensure_activity_content_visible :: "ctx \<Rightarrow> act_db \<Rightarrow> uuid \<Rightarrow> unit result" where
  "ensure_activity_content_visible c db i = ensure_activity c db i activity_content_clause False"

definition ensure_activity_content_visible_live :: "ctx \<Rightarrow> act_db \<Rightarrow> uuid \<Rightarrow> unit result" where
  "ensure_activity_content_visible_live c db i = ensure_activity c db i activity_content_clause True"

definition ensure_activity_writable :: "ctx \<Rightarrow> act_db \<Rightarrow> uuid \<Rightarrow> unit result" where
  "ensure_activity_writable c db i =
     bindR (ensure_activity_content_visible_live c db i) (\<lambda>_.
     bindR (rbac_actor c) (\<lambda>p.
       if unbounded p then Inr ()
       else guardR (list_ex (\<lambda>a. ac_id a = i \<and>
              (captured_by_user a (p_user_id p) \<or> ac_assignee_id a = Some (p_user_id p)
               \<or> ac_host_user_id a = Some (p_user_id p) \<or> links_of db i = []
               \<or> list_ex (link_target_writable p db) (links_of db i))) (db_activities db))
            ErrPermissionDenied))"

section \<open>Signals\<close>

definition signal_private :: "principal \<Rightarrow> signal_row \<Rightarrow> bool" where
  "signal_private p s \<longleftrightarrow> sg_visibility s \<noteq> ''owner'' \<or> sg_owner_id s = Some (p_user_id p)"

definition subject_exists :: "principal \<Rightarrow> act_db \<Rightarrow> string \<Rightarrow> uuid option \<Rightarrow> bool" where
  "subject_exists p db t i = (case i of None \<Rightarrow> False
     | Some i \<Rightarrow> exists_row (sdb db) t i (holds (visible_predicate p t (sdb db))))"

definition signal_scope :: "principal \<Rightarrow> act_db \<Rightarrow> signal_row \<Rightarrow> bool" where
  "signal_scope p db s \<longleftrightarrow> signal_private p s \<and>
     (case sg_entity_type s of
        None \<Rightarrow> True
      | Some t \<Rightarrow>
          (t = ''person'' \<and> subject_exists p db ''person'' (sg_entity_id s))
          \<or> (t = ''organization'' \<and> subject_exists p db ''organization'' (sg_entity_id s))
          \<or> (t = ''deal'' \<and> subject_exists p db ''deal'' (sg_entity_id s))
          \<or> (t = ''project'' \<and> allows (p_permissions p) ''project'' ActionRead
             \<and> subject_exists p db ''project'' (sg_entity_id s)))"

definition signal_scope_clause :: "ctx \<Rightarrow> act_db \<Rightarrow> (signal_row \<Rightarrow> bool) option result" where
  "signal_scope_clause c db =
     bindR (rbac_actor c) (\<lambda>p.
       if p_type p = PrincipalSystem then Inr None
       else if unbounded_for p [''person'', ''organization'', ''deal'', ''project'']
       then Inr (Some (signal_private p))
       else Inr (Some (signal_scope p db)))"

definition ensure_signal_visible :: "ctx \<Rightarrow> act_db \<Rightarrow> uuid \<Rightarrow> unit result" where
  "ensure_signal_visible c db i =
     bindR (signal_scope_clause c db) (\<lambda>cl.
       case cl of None \<Rightarrow> Inr ()
       | Some P \<Rightarrow> guardR (list_ex (\<lambda>s. sg_id s = i \<and> P s) (db_signals db)) ErrNotFound)"

definition ensure_signal_visible_live :: "ctx \<Rightarrow> act_db \<Rightarrow> uuid \<Rightarrow> unit result" where
  "ensure_signal_visible_live c db i =
     bindR (signal_scope_clause c db) (\<lambda>cl.
       guardR (list_ex (\<lambda>s. sg_id s = i \<and> sg_archived_at s = None
         \<and> (case cl of None \<Rightarrow> True | Some P \<Rightarrow> P s)) (db_signals db)) ErrNotFound)"

section \<open>Relationships\<close>

definition endpoint_columns :: "((relationship_row \<Rightarrow> uuid option) \<times> string) list" where
  "endpoint_columns = [(rl_person_id, ''person''), (rl_organization_id, ''organization''),
     (rl_counterparty_org_id, ''organization''), (rl_deal_id, ''deal''), (rl_project_id, ''project'')]"

definition relationship_endpoints :: "string list" where
  "relationship_endpoints =
     rev (fold (\<lambda>(_, t) acc. if t \<in> set acc then acc else t # acc) endpoint_columns [])"

definition relationship_scope :: "principal \<Rightarrow> act_db \<Rightarrow> relationship_row \<Rightarrow> bool" where
  "relationship_scope p db r =
     list_all (\<lambda>(col, t). case col r of None \<Rightarrow> True
        | Some i \<Rightarrow> exists_row (sdb db) t i (\<lambda>x. rr_archived_at x = None
            \<and> holds (visible_predicate p t (sdb db)) x)) endpoint_columns"

definition relationship_endpoint_scope :: "ctx \<Rightarrow> act_db \<Rightarrow> (relationship_row \<Rightarrow> bool) option result" where
  "relationship_endpoint_scope c db =
     bindR (rbac_actor c) (\<lambda>p. Inr (if unbounded_for p relationship_endpoints then None
        else Some (relationship_scope p db)))"

definition ensure_relationship_visible :: "ctx \<Rightarrow> act_db \<Rightarrow> uuid \<Rightarrow> unit result" where
  "ensure_relationship_visible c db i =
     bindR (relationship_endpoint_scope c db) (\<lambda>cl.
       guardR (list_ex (\<lambda>r. rl_id r = i \<and> (case cl of None \<Rightarrow> True | Some P \<Rightarrow> P r)) (db_relationships db))
         ErrNotFound)"

lemmas probe_defs = ensure_activity_visible_def ensure_activity_visible_live_def
  ensure_activity_content_visible_def ensure_activity_content_visible_live_def ensure_activity_def
  activity_discover_clause_def activity_content_clause_def rbac_actor_def

section \<open>Lemmas\<close>

lemma sdb_rows [simp]: "db_rows (sdb db) = db_rows db"
  by (simp add: sdb_def)

lemma unique_activity_ex:
  assumes "distinct (map ac_id (db_activities db))" "a \<in> set (db_activities db)"
  shows "list_ex (\<lambda>x. ac_id x = ac_id a \<and> P x) (db_activities db) \<longleftrightarrow> P a"
  using assms find_distinct_key [OF assms] by (auto simp: list_ex_iff) (metis find_distinct_key option.inject)

text \<open>A caller whose bound is not lifted: every principal but the system, over the link targets.\<close>

lemma link_targets_bounded:
  "p_type p \<noteq> PrincipalSystem \<Longrightarrow> \<not> unbounded_for p link_target_tables"
  by (auto simp: unbounded_for_def link_target_tables_def owner_private_tables_def)

lemma system_unbounded_for_targets:
  "p_type p = PrincipalSystem \<Longrightarrow> unbounded_for p link_target_tables"
  by (simp add: unbounded_for_def unbounded_def)

lemma endpoints_bounded:
  "p_type p \<noteq> PrincipalSystem \<Longrightarrow> \<not> unbounded_for p relationship_endpoints"
  by (auto simp: unbounded_for_def relationship_endpoints_def endpoint_columns_def owner_private_tables_def)

lemma discover_available: "activity_discover p db a \<Longrightarrow> activity_available a"
  by (simp add: activity_discover_def)

text \<open>What the content probes ask of the one row an id names.\<close>

definition content_readable :: "principal \<Rightarrow> act_db \<Rightarrow> activity_row \<Rightarrow> bool" where
  "content_readable p db a \<longleftrightarrow> activity_discover p db a
     \<and> (p_type p = PrincipalSystem \<or> activity_audience_arm p db a)"

definition activity_claim :: "principal \<Rightarrow> act_db \<Rightarrow> activity_row \<Rightarrow> bool" where
  "activity_claim p db a \<longleftrightarrow> captured_by_user a (p_user_id p)
     \<or> ac_assignee_id a = Some (p_user_id p) \<or> ac_host_user_id a = Some (p_user_id p)
     \<or> links_of db (ac_id a) = []
     \<or> list_ex (link_target_writable p db) (links_of db (ac_id a))"

lemma probe_row:
  assumes "ctx_actor c = Some p" "distinct (map ac_id (db_activities db))" "a \<in> set (db_activities db)"
  shows "ensure_activity_visible c db (ac_id a) = guardR (activity_discover p db a) ErrNotFound"
    and "ensure_activity_visible_live c db (ac_id a)
           = guardR (ac_archived_at a = None \<and> activity_discover p db a) ErrNotFound"
    and "ensure_activity_content_visible c db (ac_id a) = guardR (content_readable p db a) ErrNotFound"
    and "ensure_activity_content_visible_live c db (ac_id a)
           = guardR (ac_archived_at a = None \<and> content_readable p db a) ErrNotFound"
  using assms(1) unique_activity_ex [OF assms(2,3)]
  by (auto simp: probe_defs content_readable_def)

lemma writable_row:
  assumes "ctx_actor c = Some p" "distinct (map ac_id (db_activities db))" "a \<in> set (db_activities db)"
  shows "ensure_activity_writable c db (ac_id a) =
     bindR (guardR (ac_archived_at a = None \<and> content_readable p db a) ErrNotFound) (\<lambda>_.
       guardR (unbounded p \<or> activity_claim p db a) ErrPermissionDenied)"
  using assms(1) unique_activity_ex [OF assms(2,3)]
  by (auto simp: ensure_activity_writable_def probe_row [OF assms] rbac_actor_def activity_claim_def guardR_def
      list_ex_iff)

section \<open>Properties\<close>

text \<open>A closed instance: two linked activities, one of them restricted, and an owner-private signal.\<close>

definition sample_act_db :: act_db where
  "sample_act_db =
     \<lparr>db_rows = db_rows sample_db, db_grants = db_grants sample_db, db_memberships = [], db_now = 0,
      db_activities =
        [\<lparr>ac_id = 300, ac_restricted_at = None, ac_audience = ''participants'', ac_captured_by = ''human:x'',
          ac_assignee_id = None, ac_host_user_id = None, ac_archived_at = None\<rparr>,
         \<lparr>ac_id = 301, ac_restricted_at = Some 9, ac_audience = ''workspace'', ac_captured_by = ''human:x'',
          ac_assignee_id = Some 7, ac_host_user_id = None, ac_archived_at = None\<rparr>],
      db_links =
        [\<lparr>al_activity_id = 300, al_person_id = None, al_organization_id = None, al_deal_id = Some 101,
          al_lead_id = None, al_project_id = None\<rparr>],
      db_participants = [(300, 7)], db_audience = [],
      db_signals =
        [\<lparr>sg_id = 400, sg_visibility = ''owner'', sg_owner_id = Some 5, sg_entity_type = None,
          sg_entity_id = None, sg_archived_at = None\<rparr>],
      db_relationships =
        [\<lparr>rl_id = 500, rl_person_id = Some 200, rl_organization_id = None, rl_counterparty_org_id = None,
          rl_deal_id = Some 100, rl_project_id = None\<rparr>]\<rparr>"

lemma restricted_activity_is_out_of_reach_facts:
  assumes "ctx_actor c = Some p" "distinct (map ac_id (db_activities db))" "a \<in> set (db_activities db)"
    and "ac_restricted_at a \<noteq> None"
  shows "ensure_activity_visible c db (ac_id a) = Inl ErrNotFound"
    "ensure_activity_visible_live c db (ac_id a) = Inl ErrNotFound"
    "ensure_activity_content_visible c db (ac_id a) = Inl ErrNotFound"
    "ensure_activity_content_visible_live c db (ac_id a) = Inl ErrNotFound"
    "ensure_activity_writable c db (ac_id a) = Inl ErrNotFound"
proof -
  have "\<not> activity_discover p db a" using assms(4) discover_available activity_available_def by metis
  then show "ensure_activity_visible c db (ac_id a) = Inl ErrNotFound"
    "ensure_activity_visible_live c db (ac_id a) = Inl ErrNotFound"
    "ensure_activity_content_visible c db (ac_id a) = Inl ErrNotFound"
    "ensure_activity_content_visible_live c db (ac_id a) = Inl ErrNotFound"
    "ensure_activity_writable c db (ac_id a) = Inl ErrNotFound"
    by (simp_all add: probe_row [OF assms(1-3)] writable_row [OF assms(1-3)] content_readable_def)
qed

text \<open>
  A restricted activity (GDPR Art. 18) is out of reach for everybody: whatever the principal, the
  system included, whatever their row scope, links, audience or authorship, each of the five probes
  over it answers not-found, exactly as for an id that does not exist.
\<close>

theorem restricted_activity_is_out_of_reach:
  assumes "ctx_actor c = Some p" "distinct (map ac_id (db_activities db))" "a \<in> set (db_activities db)"
    and "ac_restricted_at a \<noteq> None"
  shows "(ensure_activity_visible c db (ac_id a) = Inl ErrNotFound)
     \<and> (ensure_activity_visible_live c db (ac_id a) = Inl ErrNotFound)
     \<and> (ensure_activity_content_visible c db (ac_id a) = Inl ErrNotFound)
     \<and> (ensure_activity_content_visible_live c db (ac_id a) = Inl ErrNotFound)
     \<and> (ensure_activity_writable c db (ac_id a) = Inl ErrNotFound)"
  by (assumption | rule restricted_activity_is_out_of_reach_facts [OF assms] conjI impI)+

theorem restricted_activity_is_out_of_reach_witness:
  "ensure_activity_writable (rep_ctx RowScopeAll) sample_act_db 301 = Inl ErrNotFound"
  using restricted_activity_is_out_of_reach [THEN conjunct2, THEN conjunct2, THEN conjunct2, THEN conjunct2, of "rep_ctx RowScopeAll" "rep RowScopeAll" sample_act_db
      "db_activities sample_act_db ! 1"]
  by (simp add: sample_act_db_def)

lemma activity_authority_exact_facts:
  assumes "ctx_actor c = Some p" "distinct (map ac_id (db_activities db))" "a \<in> set (db_activities db)"
  shows "ensure_activity_writable c db (ac_id a) = Inr () \<longleftrightarrow>
      ensure_activity_content_visible_live c db (ac_id a) = Inr () \<and> (unbounded p \<or> activity_claim p db a)"
    and "ensure_activity_writable c db (ac_id a) = Inl ErrPermissionDenied \<longleftrightarrow>
      ensure_activity_content_visible_live c db (ac_id a) = Inr () \<and> \<not> unbounded p \<and> \<not> activity_claim p db a"
    and "ensure_activity_writable c db (ac_id a) \<in> {Inr (), Inl ErrNotFound, Inl ErrPermissionDenied}"
    and "ensure_activity_content_visible c db (ac_id a) = Inr () \<Longrightarrow>
      ensure_activity_visible c db (ac_id a) = Inr ()
        \<and> (p_type p = PrincipalSystem \<or> activity_audience_arm p db a)"
  by (auto simp: probe_row [OF assms] writable_row [OF assms] guardR_def content_readable_def split: if_splits)

text \<open>
  Authority over one activity is exact and nested: a write needs a live row whose CONTENT the caller
  may read and a claim on it (authorship, assignment, hosting, no link at all, or write authority over
  one of its link targets; a system principal or an all-scope seat needs no claim); the caller is told
  \<open>forbidden\<close> only about a row whose content they may already read, and not-found otherwise. Reading
  the content in turn implies the row is discoverable, and for a caller who is not the system it needs
  the audience.
\<close>

theorem activity_authority_exact:
  assumes "ctx_actor c = Some p" "distinct (map ac_id (db_activities db))" "a \<in> set (db_activities db)"
  shows "(ensure_activity_writable c db (ac_id a) = Inr () \<longleftrightarrow>
      ensure_activity_content_visible_live c db (ac_id a) = Inr () \<and> (unbounded p \<or> activity_claim p db a))
     \<and> (ensure_activity_writable c db (ac_id a) = Inl ErrPermissionDenied \<longleftrightarrow>
      ensure_activity_content_visible_live c db (ac_id a) = Inr () \<and> \<not> unbounded p \<and> \<not> activity_claim p db a)
     \<and> (ensure_activity_writable c db (ac_id a) \<in> {Inr (), Inl ErrNotFound, Inl ErrPermissionDenied})
     \<and> (ensure_activity_content_visible c db (ac_id a) = Inr () \<longrightarrow>
         (ensure_activity_visible c db (ac_id a) = Inr ()
        \<and> (p_type p = PrincipalSystem \<or> activity_audience_arm p db a)))"
  by (assumption | rule activity_authority_exact_facts [OF assms] conjI impI)+

theorem activity_authority_exact_witness:
  "ensure_activity_content_visible_live (rep_ctx RowScopeOwn) sample_act_db 300 = Inr ()
   \<and> ensure_activity_writable (rep_ctx RowScopeOwn) sample_act_db 300 = Inl ErrPermissionDenied"
proof -
  let ?a = "db_activities sample_act_db ! 0"
  have a: "?a \<in> set (db_activities sample_act_db)" "ac_id ?a = 300"
    "distinct (map ac_id (db_activities sample_act_db))" by (simp_all add: sample_act_db_def)
  have disc: "activity_discover (rep RowScopeOwn) sample_act_db ?a"
    by (simp add: activity_discover_def activity_available_def links_of_def sample_act_db_def sample_db_def
        link_target_visible_def link_columns_def link_target_arm_def sdb_def visible_predicate_def
        predicate_for_def Let_def identity_tables_def reads_every_row_def)
  have aud: "activity_audience_arm (rep RowScopeOwn) sample_act_db ?a"
    by (simp add: activity_audience_arm_def sample_act_db_def)
  have vis: "ensure_activity_content_visible_live (rep_ctx RowScopeOwn) sample_act_db 300 = Inr ()"
    using probe_row(4) [of "rep_ctx RowScopeOwn" "rep RowScopeOwn" sample_act_db ?a] a disc aud
    by (simp add: content_readable_def) (simp add: sample_act_db_def)
  have "\<not> activity_claim (rep RowScopeOwn) sample_act_db ?a"
    by (simp add: activity_claim_def captured_by_user_def length_uuid_string links_of_def sample_act_db_def
        link_target_writable_def link_columns_def sdb_def sample_db_def write_authority_def owner_pred_def
        write_granted_def)
  then show ?thesis
    using activity_authority_exact [THEN conjunct2, THEN conjunct1, of "rep_ctx RowScopeOwn" "rep RowScopeOwn" sample_act_db ?a] a vis
    by simp
qed

lemma signal_follows_owner_and_subject_facts:
  assumes "ctx_actor c = Some p" "p_type p \<noteq> PrincipalSystem"
    and "distinct (map sg_id (db_signals db))" "s \<in> set (db_signals db)"
    and "ensure_signal_visible c db (sg_id s) = Inr ()"
  shows "sg_visibility s = ''owner'' \<longrightarrow> sg_owner_id s = Some (p_user_id p)"
    and "sg_entity_type s = Some t \<Longrightarrow>
      t \<in> {''person'', ''organization'', ''deal'', ''project''} \<and> subject_exists p db t (sg_entity_id s)
      \<and> (t = ''project'' \<longrightarrow> allows (p_permissions p) ''project'' ActionRead)"
proof -
  have bounded: "\<not> unbounded_for p [''person'', ''organization'', ''deal'', ''project'']"
    using assms(2) by (auto simp: unbounded_for_def owner_private_tables_def)
  have scope: "signal_scope p db s"
    using assms bounded find_distinct_key [OF assms(3,4)]
    by (auto simp: ensure_signal_visible_def signal_scope_clause_def rbac_actor_def list_ex_iff)
      (metis find_distinct_key option.inject)
  then show "sg_visibility s = ''owner'' \<longrightarrow> sg_owner_id s = Some (p_user_id p)"
    by (simp add: signal_scope_def signal_private_def)
  show "sg_entity_type s = Some t \<Longrightarrow>
      t \<in> {''person'', ''organization'', ''deal'', ''project''} \<and> subject_exists p db t (sg_entity_id s)
      \<and> (t = ''project'' \<longrightarrow> allows (p_permissions p) ''project'' ActionRead)"
    using scope by (auto simp: signal_scope_def)
qed

text \<open>
  An owner-private signal is its owner's alone: for every principal but the system, at every row
  scope, the probe succeeds on it only for the owner; and a signal about a record is seen only by a
  caller who may see that record (a project additionally needs the project read grant).
\<close>

theorem signal_follows_owner_and_subject:
  assumes "ctx_actor c = Some p" "p_type p \<noteq> PrincipalSystem"
    and "distinct (map sg_id (db_signals db))" "s \<in> set (db_signals db)"
    and "ensure_signal_visible c db (sg_id s) = Inr ()"
  shows "(sg_visibility s = ''owner'' \<longrightarrow> sg_owner_id s = Some (p_user_id p))
     \<and> (sg_entity_type s = Some t \<longrightarrow>
         (t \<in> {''person'', ''organization'', ''deal'', ''project''} \<and> subject_exists p db t (sg_entity_id s)
      \<and> (t = ''project'' \<longrightarrow> allows (p_permissions p) ''project'' ActionRead)))"
  by (assumption | rule signal_follows_owner_and_subject_facts [OF assms] conjI impI)+

definition signal_owner_ctx :: ctx where
  "signal_owner_ctx = background\<lparr>ctx_workspace := Some 1, ctx_actor := Some ((rep RowScopeOwn)\<lparr>p_user_id := 5\<rparr>)\<rparr>"

theorem signal_follows_owner_and_subject_witness:
  "ensure_signal_visible signal_owner_ctx sample_act_db 400 = Inr ()
   \<and> (''owner'' = ''owner'' \<longrightarrow> sg_owner_id (hd (db_signals sample_act_db)) = Some 5)"
proof -
  let ?s = "hd (db_signals sample_act_db)" and ?p = "(rep RowScopeOwn)\<lparr>p_user_id := 5\<rparr>"
  have ok: "ensure_signal_visible signal_owner_ctx sample_act_db 400 = Inr ()" by code_simp
  have facts: "ctx_actor signal_owner_ctx = Some ?p" "p_type ?p \<noteq> PrincipalSystem"
    "distinct (map sg_id (db_signals sample_act_db))" "?s \<in> set (db_signals sample_act_db)"
    "sg_id ?s = 400" "sg_visibility ?s = ''owner''"
    by (simp_all add: signal_owner_ctx_def rep_def sample_act_db_def)
  show ?thesis
    using signal_follows_owner_and_subject [THEN conjunct1, OF facts(1-4)] ok facts(5,6) by simp
qed

text \<open>
  An edge is visible only where every record it names is: for a principal other than the system each
  endpoint the edge carries must be a live record in the caller's row scope, whichever of the five
  columns names it; the first one that is archived or out of scope hides the edge.
\<close>

theorem relationship_needs_every_endpoint:
  assumes "ctx_actor c = Some p" "p_type p \<noteq> PrincipalSystem"
    and "distinct (map rl_id (db_relationships db))" "r \<in> set (db_relationships db)"
  shows "ensure_relationship_visible c db (rl_id r) = Inr () \<longleftrightarrow>
     (\<forall>(col, t) \<in> set endpoint_columns. \<forall>i. col r = Some i \<longrightarrow>
        (\<exists>x \<in> set (db_rows db t). rr_id x = i \<and> rr_archived_at x = None
           \<and> holds (visible_predicate p t (sdb db)) x))"
proof -
  have "list_ex (\<lambda>x. rl_id x = rl_id r \<and> relationship_scope p db x) (db_relationships db)
      \<longleftrightarrow> relationship_scope p db r"
    using assms(4) by (auto simp: list_ex_iff) (metis assms(3,4) find_distinct_key option.inject)
  then show ?thesis
    using assms(1) endpoints_bounded [OF assms(2)]
    by (auto simp: ensure_relationship_visible_def relationship_endpoint_scope_def rbac_actor_def
        relationship_scope_def list_all_iff guardR_def split: option.splits prod.splits)
qed

theorem relationship_needs_every_endpoint_witness:
  "ensure_relationship_visible (rep_ctx RowScopeAll) sample_act_db 500 = Inl ErrNotFound"
proof -
  let ?r = "hd (db_relationships sample_act_db)"
  have facts: "ctx_actor (rep_ctx RowScopeAll) = Some (rep RowScopeAll)" "p_type (rep RowScopeAll) \<noteq> PrincipalSystem"
    "distinct (map rl_id (db_relationships sample_act_db))" "?r \<in> set (db_relationships sample_act_db)"
    "rl_id ?r = 500" "rl_person_id ?r = Some 200"
    by (simp_all add: sample_act_db_def)
  have "\<not> (\<exists>x \<in> set (db_rows sample_act_db ''person''). rr_id x = 200 \<and> rr_archived_at x = None
      \<and> holds (visible_predicate (rep RowScopeAll) ''person'' (sdb sample_act_db)) x)"
    by code_simp
  moreover have "(rl_person_id, ''person'') \<in> set endpoint_columns" by (simp add: endpoint_columns_def)
  ultimately have "ensure_relationship_visible (rep_ctx RowScopeAll) sample_act_db 500 \<noteq> Inr ()"
    using relationship_needs_every_endpoint [OF facts(1-4)] facts(5,6) by fastforce
  then show ?thesis
    by (auto simp: ensure_relationship_visible_def guardR_def bindR_Inl_iff relationship_endpoint_scope_def
        rbac_actor_def split: if_splits)
qed

end
