(* ===== verification/Edit_Scope.thy ===== *)
theory Edit_Scope
  imports Ids Text "HOL-Library.List_Lexorder" "HOL-Library.Char_ord" "HOL-Library.Multiset"
begin

text \<open>
  The canonical form a \<open>diff_hash\<close> is computed over
  (\<^verbatim>\<open>backend/internal/shared/kernel/diffhash/diffhash.go\<close>) and what a
  modify-then-approve edit may change
  (\<^verbatim>\<open>backend/internal/modules/approvals/editscope.go\<close>).

  Go's number parsing and printing (a float64 round trip) is the parameter \<open>num\<close>; SHA-256 over
  the canonical bytes is a parameter of the theories that compare hashes. PostgreSQL's text form of
  a jsonb member and Go's are the parameters \<open>pg\<close> and \<open>go\<close> of the call-identity check, which
  compares bytes.
\<close>

section \<open>Canonical form\<close>

text \<open>\<open>json.Marshal\<close> of a decoded object: distinct keys in byte order, the last occurrence's value.\<close>

definition sort_members :: "(string \<times> json) list \<Rightarrow> (string \<times> json) list" where
  "sort_members kvs = map (\<lambda>k. (k, the (obj_get kvs k))) (sort (remdups (map fst kvs)))"

fun canon :: "(string \<Rightarrow> string option) \<Rightarrow> json \<Rightarrow> json option" where
  "canon num (JNum t) = map_option JNum (num t)"
| "canon num (JArr xs) = map_option JArr (those (map (canon num) xs))"
| "canon num (JObj kvs) =
     map_option (\<lambda>vs. JObj (sort_members (zip (map fst kvs) vs))) (those (map (\<lambda>(k, v). canon num v) kvs))"
| "canon num j = Some j"

text \<open>\<open>diffhash.Canonical\<close>: an object, or \<open>null\<close> (which decodes into a nil map); all else is refused.\<close>

definition diffhash_canonical :: "(string \<Rightarrow> string option) \<Rightarrow> (json \<Rightarrow> string) \<Rightarrow> json \<Rightarrow> (json \<times> string) option" where
  "diffhash_canonical num sha raw =
     (case raw of
        JObj kvs \<Rightarrow> map_option (\<lambda>c. (c, sha c)) (canon num raw)
      | JNull \<Rightarrow> Some (JNull, sha JNull)
      | _ \<Rightarrow> None)"

section \<open>Entity references\<close>

fun ref_escape_char :: "char \<Rightarrow> string" where
  "ref_escape_char c =
     (if c = CHR ''~'' then ''~0'' else if c = CHR ''/'' then ''~1''
      else if c = CHR ''['' then ''~2'' else [c])"

definition ref_escape :: "string \<Rightarrow> string" where
  "ref_escape k = concat (map ref_escape_char k)"

fun entity_refs :: "json \<Rightarrow> string \<Rightarrow> (string \<times> string) list"
  and member_refs :: "(string \<times> json) list \<Rightarrow> string \<Rightarrow> (string \<times> string) list"
  and item_refs :: "nat \<Rightarrow> json list \<Rightarrow> string \<Rightarrow> (string \<times> string) list" where
  "entity_refs (JObj kvs) path = member_refs kvs path"
| "entity_refs (JArr xs) path = item_refs 0 xs path"
| "entity_refs (JStr s) path = (if parse_uuid s = None then [] else [(path, s)])"
| "entity_refs _ path = []"
| "member_refs [] path = []"
| "member_refs ((k, v) # rest) path =
     (if k \<in> set (map fst rest) then [] else entity_refs v (path @ ''/'' @ ref_escape k))
     @ member_refs rest path"
| "item_refs i [] path = []"
| "item_refs i (x # xs) path =
     entity_refs x (path @ ''/['' @ nat_string i @ '']'') @ item_refs (Suc i) xs path"

definition refs_of :: "json \<Rightarrow> (string \<times> string) list" where
  "refs_of raw = entity_refs raw []"

datatype edit_error = RetargetedEdit "string list" | UndecodableChange

definition changed_refs :: "(string \<times> string) list \<Rightarrow> (string \<times> string) list \<Rightarrow> string list" where
  "changed_refs before after =
     filter (\<lambda>p. map_of after p \<noteq> map_of before p) (map fst before)
     @ filter (\<lambda>p. map_of before p = None) (map fst after)"

definition assert_same_entity_refs :: "json \<Rightarrow> json \<Rightarrow> edit_error + unit" where
  "assert_same_entity_refs original edited =
     (let changed = changed_refs (refs_of original) (refs_of edited) in
      if changed = [] then Inr () else Inl (RetargetedEdit (sort changed)))"

section \<open>Call identity\<close>

definition call_identity_body :: string where
  "call_identity_body = ''body''"

text \<open>A raw object decoded into a map of raw members; \<open>null\<close> is the nil map.\<close>

fun raw_members :: "json \<Rightarrow> (string \<times> json) list option" where
  "raw_members (JObj kvs) = Some kvs"
| "raw_members JNull = Some []"
| "raw_members _ = None"

definition is_rest_staging :: "(string \<times> json) list \<Rightarrow> bool" where
  "is_rest_staging payload \<longleftrightarrow> obj_get payload ''operation'' \<noteq> None \<or> obj_get payload ''path'' \<noteq> None"

definition assert_same_call_identity ::
  "(json \<Rightarrow> string) \<Rightarrow> (json \<Rightarrow> string) \<Rightarrow> json \<Rightarrow> json \<Rightarrow> edit_error + unit" where
  "assert_same_call_identity pg go original edited =
     (case (raw_members original, raw_members edited) of
        (Some before, Some after) \<Rightarrow>
          if \<not> is_rest_staging before \<and> \<not> is_rest_staging after then Inr ()
          else
            let members = filter (\<lambda>m. m \<noteq> call_identity_body) (remdups (map fst before @ map fst after));
                changed = filter (\<lambda>m. map_option pg (obj_get before m) \<noteq> map_option go (obj_get after m)) members
            in if changed = [] then Inr () else Inl (RetargetedEdit (sort (map (\<lambda>m. ''/'' @ m) changed)))
      | _ \<Rightarrow> Inl UndecodableChange)"

section \<open>Where a reference sits\<close>

text \<open>A location in a decoded value, independently of how the check spells it.\<close>

datatype loc_step = Key string | Index nat

fun json_at :: "json \<Rightarrow> loc_step list \<Rightarrow> json option" where
  "json_at j [] = Some j"
| "json_at (JObj kvs) (Key k # l) = (case obj_get kvs k of None \<Rightarrow> None | Some v \<Rightarrow> json_at v l)"
| "json_at (JArr xs) (Index i # l) = (if i < length xs then json_at (xs ! i) l else None)"
| "json_at _ _ = None"

definition uuid_at :: "json \<Rightarrow> loc_step list \<Rightarrow> string option" where
  "uuid_at j l = (case json_at j l of Some (JStr s) \<Rightarrow> if parse_uuid s = None then None else Some s | _ \<Rightarrow> None)"

fun step_path :: "loc_step \<Rightarrow> string" where
  "step_path (Key k) = ref_escape k"
| "step_path (Index i) = ''['' @ nat_string i @ '']''"

fun loc_path :: "loc_step list \<Rightarrow> string" where
  "loc_path [] = []"
| "loc_path (s # l) = ''/'' @ step_path s @ loc_path l"

section \<open>Lemmas\<close>

lemma ref_escape_no_slash: "CHR ''/'' \<notin> set (ref_escape k)" "CHR ''['' \<notin> set (ref_escape k)"
  by (induction k) (auto simp: ref_escape_def)

lemma ref_escape_inj: "ref_escape a = ref_escape b \<Longrightarrow> a = b"
proof (induction a arbitrary: b)
  case Nil
  then show ?case by (cases b) (auto simp: ref_escape_def split: if_splits)
next
  case (Cons c a)
  obtain d b' where b: "b = d # b'"
    using Cons.prems by (cases b) (auto simp: ref_escape_def split: if_splits)
  have "c = d \<and> ref_escape a = ref_escape b'"
    using Cons.prems by (auto simp: b ref_escape_def split: if_splits)
  then show ?case using Cons.IH b by simp
qed

lemma nat_string_no: "CHR ''/'' \<notin> set (nat_string n)" "CHR '']'' \<notin> set (nat_string n)"
proof -
  have "list_all (\<lambda>d. digit_char d \<noteq> CHR ''/'' \<and> digit_char d \<noteq> CHR '']'') [0..<10]" by code_simp
  then have "d < 10 \<Longrightarrow> digit_char d \<noteq> CHR ''/'' \<and> digit_char d \<noteq> CHR '']''" for d
    by (simp add: list_all_iff)
  then show "CHR ''/'' \<notin> set (nat_string n)" "CHR '']'' \<notin> set (nat_string n)"
    using nat_string_chars by metis+
qed

lemma step_path_no_slash: "CHR ''/'' \<notin> set (step_path s)"
  by (cases s) (auto simp: ref_escape_no_slash nat_string_no)

lemma step_path_inj: "step_path s = step_path t \<Longrightarrow> s = t"
proof (cases s; cases t)
  fix k i assume "step_path s = step_path t" "s = Key k" "t = Index i"
  then have "CHR ''['' \<in> set (ref_escape k)" by simp
  then show ?thesis using ref_escape_no_slash by blast
next
  fix k i assume "step_path s = step_path t" "t = Key k" "s = Index i"
  then have "CHR ''['' \<in> set (ref_escape k)" by (metis append_Cons list.set_intros(1) step_path.simps)
  then show ?thesis using ref_escape_no_slash by blast
qed (auto dest: ref_escape_inj simp: nat_string_inj)

lemma split_at_slash:
  assumes "CHR ''/'' \<notin> set a" "CHR ''/'' \<notin> set b"
    and "a @ x = b @ y" "x = [] \<or> hd x = CHR ''/''" "y = [] \<or> hd y = CHR ''/''"
  shows "a = b \<and> x = y"
  using assms
proof (induction a arbitrary: b)
  case Nil
  then show ?case by (cases b) auto
next
  case (Cons c a)
  then show ?case by (cases b) auto
qed

lemma loc_path_hd: "loc_path l = [] \<or> hd (loc_path l) = CHR ''/''"
  by (cases l) auto

lemma loc_path_inj: "loc_path l = loc_path m \<Longrightarrow> l = m"
proof (induction l arbitrary: m)
  case Nil
  then show ?case by (cases m) auto
next
  case (Cons s l)
  obtain t m' where m: "m = t # m'" using Cons.prems by (cases m) auto
  have "step_path s @ loc_path l = step_path t @ loc_path m'" using Cons.prems m by simp
  then have "step_path s = step_path t \<and> loc_path l = loc_path m'"
    using split_at_slash step_path_no_slash loc_path_hd by blast
  then show ?case using Cons.IH m step_path_inj by blast
qed

text \<open>What the walk collects is exactly the identifiers in the value, each under its location's path.\<close>

lemma uuid_at_simps:
  "uuid_at (JObj kvs) [] = None" "uuid_at (JArr xs) [] = None"
  "uuid_at (JObj kvs) (Key k # l) = (case obj_get kvs k of None \<Rightarrow> None | Some v \<Rightarrow> uuid_at v l)"
  "uuid_at (JArr xs) (Index i # l) = (if i < length xs then uuid_at (xs ! i) l else None)"
  "uuid_at (JObj kvs) (Index i # l) = None" "uuid_at (JArr xs) (Key k # l) = None"
  "uuid_at (JStr s) l = (if l = [] \<and> parse_uuid s \<noteq> None then Some s else None)"
  "uuid_at JNull l = None" "uuid_at (JBool b) l = None" "uuid_at (JNum t) l = None"
  by (auto simp: uuid_at_def neq_Nil_conv split: option.splits) (cases l; simp)+

lemma obj_get_Cons: "obj_get ((k, v) # rest) x =
    (case obj_get rest x of Some y \<Rightarrow> Some y | None \<Rightarrow> if x = k then Some v else None)"
  by (auto simp: obj_get_def map_add_def split: option.splits)

lemma obj_get_Nil [simp]: "obj_get [] k = None"
  by (simp add: obj_get_def)

lemma obj_get_None: "obj_get kvs k = None \<longleftrightarrow> k \<notin> set (map fst kvs)"
  by (auto simp: obj_get_def map_of_eq_None_iff)

lemma refs_sets:
  "(q, s) \<in> set (entity_refs j p) \<longleftrightarrow> (\<exists>l. q = p @ loc_path l \<and> uuid_at j l = Some s)"
  "(q, s) \<in> set (member_refs kvs p) \<longleftrightarrow>
     (\<exists>k l v. q = p @ loc_path (Key k # l) \<and> obj_get kvs k = Some v \<and> uuid_at v l = Some s)"
  "(q, s) \<in> set (item_refs i xs p) \<longleftrightarrow>
     (\<exists>n l. q = p @ loc_path (Index (i + n) # l) \<and> n < length xs \<and> uuid_at (xs ! n) l = Some s)"
proof (induction j p and kvs p and i xs p arbitrary: q and q and q
    rule: entity_refs_member_refs_item_refs.induct)
  case (1 kvs path)
  show ?case
  proof
    assume "\<exists>l. q = path @ loc_path l \<and> uuid_at (JObj kvs) l = Some s"
    then obtain l where l: "q = path @ loc_path l" "uuid_at (JObj kvs) l = Some s" by blast
    then obtain k l' v where "l = Key k # l'" "obj_get kvs k = Some v" "uuid_at v l' = Some s"
      by (cases l; cases "hd l") (auto simp: uuid_at_simps split: option.splits)
    then show "(q, s) \<in> set (entity_refs (JObj kvs) path)" using 1 l by auto
  next
    assume "(q, s) \<in> set (entity_refs (JObj kvs) path)"
    then obtain k l v where "q = path @ loc_path (Key k # l)" "obj_get kvs k = Some v" "uuid_at v l = Some s"
      using 1 by auto
    then show "\<exists>l. q = path @ loc_path l \<and> uuid_at (JObj kvs) l = Some s"
      by (intro exI [of _ "Key k # l"]) (simp add: uuid_at_simps)
  qed
next
  case (2 xs path)
  show ?case
  proof
    assume "\<exists>l. q = path @ loc_path l \<and> uuid_at (JArr xs) l = Some s"
    then obtain l where l: "q = path @ loc_path l" "uuid_at (JArr xs) l = Some s" by blast
    then obtain n l' where "l = Index n # l'" "n < length xs" "uuid_at (xs ! n) l' = Some s"
      by (cases l; cases "hd l") (auto simp: uuid_at_simps split: if_splits)
    then show "(q, s) \<in> set (entity_refs (JArr xs) path)" using 2 l by auto
  next
    assume "(q, s) \<in> set (entity_refs (JArr xs) path)"
    then obtain n l where "q = path @ loc_path (Index n # l)" "n < length xs" "uuid_at (xs ! n) l = Some s"
      using 2 by auto
    then show "\<exists>l. q = path @ loc_path l \<and> uuid_at (JArr xs) l = Some s"
      by (intro exI [of _ "Index n # l"]) (simp add: uuid_at_simps)
  qed
next
  case (3 s' path)
  show ?case by (auto simp: uuid_at_simps)
next
  case (6 k v rest path)
  have head: "k \<notin> set (map fst rest) \<Longrightarrow> obj_get ((k, v) # rest) k = Some v"
    using obj_get_None [of rest k] by (simp add: obj_get_Cons)
  have other: "x \<noteq> k \<or> k \<in> set (map fst rest) \<Longrightarrow> obj_get ((k, v) # rest) x = obj_get rest x" for x
    using obj_get_None [of rest k] by (auto simp: obj_get_Cons rev_image_eqI split: option.splits)
  show ?case
  proof (cases "k \<in> set (map fst rest)")
    case True
    then have same: "obj_get ((k, v) # rest) x = obj_get rest x" for x using other by blast
    show ?thesis using 6(2) True by (simp only: member_refs.simps same if_True append_Nil)
  next
    case False
    have "(\<exists>x l w. q = path @ loc_path (Key x # l) \<and> obj_get ((k, v) # rest) x = Some w \<and> uuid_at w l = Some s)
      \<longleftrightarrow> (\<exists>l. q = path @ loc_path (Key k # l) \<and> uuid_at v l = Some s)
        \<or> (\<exists>x l w. q = path @ loc_path (Key x # l) \<and> obj_get rest x = Some w \<and> uuid_at w l = Some s)"
      using head [OF False] other obj_get_None [of rest k] False by (metis option.inject option.simps(3))
    then show ?thesis using 6 False by auto
  qed
next
  case (8 i x xs path)
  have "(\<exists>n l. q = path @ loc_path (Index (i + n) # l) \<and> n < length (x # xs) \<and> uuid_at ((x # xs) ! n) l = Some s)
      \<longleftrightarrow> (\<exists>l. q = path @ loc_path (Index i # l) \<and> uuid_at x l = Some s)
        \<or> (\<exists>n l. q = path @ loc_path (Index (Suc i + n) # l) \<and> n < length xs \<and> uuid_at (xs ! n) l = Some s)"
    (is "?A \<longleftrightarrow> ?B")
  proof
    assume ?A
    then obtain n l where n: "q = path @ loc_path (Index (i + n) # l)" "n < length (x # xs)"
      "uuid_at ((x # xs) ! n) l = Some s" by blast
    then show ?B by (cases n) auto
  next
    assume ?B
    then show ?A
    proof
      assume "\<exists>l. q = path @ loc_path (Index i # l) \<and> uuid_at x l = Some s"
      then show ?A by (intro exI [of _ 0]) auto
    next
      assume "\<exists>n l. q = path @ loc_path (Index (Suc i + n) # l) \<and> n < length xs \<and> uuid_at (xs ! n) l = Some s"
      then obtain n l where "q = path @ loc_path (Index (Suc i + n) # l)" "n < length xs"
        "uuid_at (xs ! n) l = Some s" by blast
      then show ?A by (intro exI [of _ "Suc n"] exI [of _ l]) auto
    qed
  qed
  then show ?case using 8 by auto
qed (auto simp: uuid_at_simps)

lemma map_of_functional:
  assumes "\<And>k v w. (k, v) \<in> set xs \<Longrightarrow> (k, w) \<in> set xs \<Longrightarrow> v = w"
  shows "map_of xs k = Some v \<longleftrightarrow> (k, v) \<in> set xs"
proof
  show "map_of xs k = Some v \<Longrightarrow> (k, v) \<in> set xs" by (rule map_of_SomeD)
  assume in_xs: "(k, v) \<in> set xs"
  then obtain w where w: "map_of xs k = Some w" by (metis not_Some_eq map_of_eq_None_iff image_eqI fst_conv)
  then show "map_of xs k = Some v" using assms map_of_SomeD in_xs by metis
qed

lemma refs_of_at: "map_of (refs_of j) (loc_path l) = uuid_at j l"
proof -
  have mem: "(q, s) \<in> set (refs_of j) \<longleftrightarrow> (\<exists>l. q = loc_path l \<and> uuid_at j l = Some s)" for q s
    by (simp add: refs_of_def refs_sets)
  have "map_of (refs_of j) (loc_path l) = Some s \<longleftrightarrow> uuid_at j l = Some s" for s
    by (subst map_of_functional) (auto simp: mem dest: loc_path_inj)
  then show ?thesis by (cases "uuid_at j l"; cases "map_of (refs_of j) (loc_path l)") auto
qed

lemma refs_of_path: "p \<in> set (map fst (refs_of j)) \<Longrightarrow> \<exists>l. p = loc_path l"
  by (auto simp: refs_of_def refs_sets)

lemma changed_refs_empty:
  "changed_refs before after = [] \<longleftrightarrow> map_of before = map_of after"
proof
  assume nil: "changed_refs before after = []"
  show "map_of before = map_of after"
  proof
    fix p
    show "map_of before p = map_of after p"
    proof (cases "p \<in> set (map fst before)")
      case True
      then show ?thesis using nil by (auto simp: changed_refs_def filter_empty_conv)
    next
      case False
      then have "map_of before p = None" by (simp add: map_of_eq_None_iff)
      moreover from this have "p \<notin> set (map fst after)"
        using nil by (auto simp: changed_refs_def filter_empty_conv)
      ultimately have "map_of before p = None" "map_of after p = None"
        by (simp_all add: map_of_eq_None_iff)
      then show ?thesis by simp
    qed
  qed
next
  assume same: "map_of before = map_of after"
  have "p \<in> set (map fst after) \<Longrightarrow> map_of after p \<noteq> None" for p
    by (simp add: map_of_eq_None_iff)
  then show "changed_refs before after = []"
    using same by (auto simp: changed_refs_def filter_empty_conv)
qed

lemma assert_same_entity_refs_iff:
  "assert_same_entity_refs original edited = Inr () \<longleftrightarrow> (\<forall>l. uuid_at original l = uuid_at edited l)"
proof -
  have "map_of (refs_of original) = map_of (refs_of edited) \<longleftrightarrow> (\<forall>l. uuid_at original l = uuid_at edited l)"
  proof
    assume "map_of (refs_of original) = map_of (refs_of edited)"
    then show "\<forall>l. uuid_at original l = uuid_at edited l" by (metis refs_of_at)
  next
    assume same: "\<forall>l. uuid_at original l = uuid_at edited l"
    show "map_of (refs_of original) = map_of (refs_of edited)"
    proof
      fix p
      show "map_of (refs_of original) p = map_of (refs_of edited) p"
      proof (cases "\<exists>l. p = loc_path l")
        case True
        then show ?thesis using same refs_of_at by metis
      next
        case False
        then have "p \<notin> set (map fst (refs_of original))" "p \<notin> set (map fst (refs_of edited))"
          using refs_of_path by blast+
        then show ?thesis by (metis map_of_eq_None_iff set_map)
      qed
    qed
  qed
  then show ?thesis by (simp add: assert_same_entity_refs_def Let_def changed_refs_empty)
qed

text \<open>The canonical form: what a member reads does not depend on the order it was written in.\<close>

lemma obj_get_distinct:
  assumes "distinct (map fst kvs)"
  shows "obj_get kvs k = Some v \<longleftrightarrow> (k, v) \<in> set kvs"
  using assms map_of_eq_Some_iff [of "rev kvs" k v] by (simp add: obj_get_def rev_map [symmetric])

lemma obj_get_sort_members: "obj_get (sort_members kvs) k = obj_get kvs k"
proof (cases "obj_get kvs k")
  case None
  then have "k \<notin> set (map fst (sort_members kvs))" by (auto simp: sort_members_def obj_get_None)
  then show ?thesis using None obj_get_None by metis
next
  case (Some v)
  then have "k \<in> set (map fst kvs)" by (metis obj_get_None option.simps(3))
  then have "(k, v) \<in> set (sort_members kvs)" using Some by (auto simp: sort_members_def image_iff)
  moreover have "distinct (map fst (sort_members kvs))"
    by (simp add: sort_members_def comp_def)
  ultimately show ?thesis using Some obj_get_distinct by metis
qed

lemma sort_members_cong:
  assumes "\<And>k. obj_get kvs k = obj_get kvs' k"
  shows "sort_members kvs = sort_members kvs'"
proof -
  have "set (map fst kvs) = set (map fst kvs')" using assms obj_get_None by (metis subset_antisym subsetI)
  then have "sort (remdups (map fst kvs)) = sort (remdups (map fst kvs'))"
    by (intro sorted_distinct_set_unique) auto
  then show ?thesis using assms by (simp add: sort_members_def)
qed

lemma those_Some: "those xs = Some ys \<longleftrightarrow> xs = map Some ys"
  by (induction xs arbitrary: ys) (auto split: option.splits simp: Cons_eq_map_conv)

lemma those_map_Some: "those (map f xs) = Some ys \<longleftrightarrow> map f xs = map Some ys"
  by (rule those_Some)

definition canon_members :: "(string \<Rightarrow> string option) \<Rightarrow> (string \<times> json) list \<Rightarrow> (string \<times> json) list option" where
  "canon_members num kvs = map_option (zip (map fst kvs)) (those (map (\<lambda>(k, v). canon num v) kvs))"

lemma canon_members_Nil [simp]: "canon_members num [] = Some []"
  by (simp add: canon_members_def)

lemma canon_members_Cons [simp]:
  "canon_members num ((k, v) # kvs) = (case canon num v of None \<Rightarrow> None
     | Some c \<Rightarrow> map_option (\<lambda>cs. (k, c) # cs) (canon_members num kvs))"
  by (cases "those (map (\<lambda>(k, v). canon num v) kvs)") (auto simp: canon_members_def split: option.splits)

lemma canon_object: "canon num (JObj kvs) = map_option (\<lambda>cs. JObj (sort_members cs)) (canon_members num kvs)"
  by (simp add: canon_members_def option.map_comp comp_def)

lemma canon_members_keys: "canon_members num kvs = Some cs \<Longrightarrow> map fst cs = map fst kvs"
  by (induction kvs arbitrary: cs) (auto split: option.splits)

lemma canon_members_mem:
  "canon_members num kvs = Some cs \<Longrightarrow> (k, c) \<in> set cs \<longleftrightarrow> (\<exists>v. (k, v) \<in> set kvs \<and> canon num v = Some c)"
proof (induction kvs arbitrary: cs)
  case (Cons a kvs)
  then show ?case by (cases a) (auto split: option.splits)
qed simp

lemma canon_members_None: "canon_members num kvs = None \<longleftrightarrow> (\<exists>(k, v) \<in> set kvs. canon num v = None)"
  by (induction kvs) (auto split: option.splits)

lemma canon_perm:
  assumes "mset kvs = mset kvs'" "distinct (map fst kvs)"
  shows "canon num (JObj kvs) = canon num (JObj kvs')"
proof -
  have same: "set kvs = set kvs'" using assms(1) by (rule mset_eq_setD)
  have d': "distinct (map fst kvs')"
    using assms by (metis mset_eq_imp_distinct_iff mset_map)
  show ?thesis
  proof (cases "canon_members num kvs")
    case None
    then have "canon_members num kvs' = None" by (simp add: canon_members_None same)
    then show ?thesis using None by (simp only: canon_object)
  next
    case (Some cs)
    then have "canon_members num kvs' \<noteq> None" using canon_members_None same by (metis option.simps(3))
    then obtain cs' where cs': "canon_members num kvs' = Some cs'" by blast
    have "distinct (map fst cs)" "distinct (map fst cs')"
      using canon_members_keys [OF Some] canon_members_keys [OF cs'] assms(2) d' by simp_all
    moreover have "(k, c) \<in> set cs \<longleftrightarrow> (k, c) \<in> set cs'" for k c
      using canon_members_mem [OF Some] canon_members_mem [OF cs'] same by simp
    ultimately have "obj_get cs k = obj_get cs' k" for k
      by (metis obj_get_distinct not_Some_eq)
    then have "sort_members cs = sort_members cs'" by (rule sort_members_cong)
    then show ?thesis using Some cs' by (simp only: canon_object option.map)
  qed
qed

lemma canon_idem:
  assumes "\<And>s t. num s = Some t \<Longrightarrow> num t = Some t"
  shows "canon num j = Some c \<Longrightarrow> canon num c = Some c"
proof (induction j arbitrary: c)
  case (JNum t)
  then show ?case using assms by auto
next
  case (JArr xs)
  then obtain ys where ys: "map (canon num) xs = map Some ys" "c = JArr ys" by (auto simp: those_Some)
  have "\<forall>i < length ys. canon num (ys ! i) = Some (ys ! i)"
    using ys JArr.IH by (metis length_map nth_map nth_mem)
  then have "map (canon num) ys = map Some ys" by (simp add: list_eq_iff_nth_eq)
  then show ?case by (simp add: ys(2) those_Some)
next
  case (JObj kvs)
  then obtain cs where cs: "canon_members num kvs = Some cs" "c = JObj (sort_members cs)"
    by (auto simp only: canon_object map_option_eq_Some)
  have "\<forall>(k, c) \<in> set cs. canon num c = Some c"
    using canon_members_mem [OF cs(1)] JObj.IH by (fastforce simp: snds.simps)
  moreover have "set (sort_members cs) \<subseteq> set cs"
  proof
    fix x assume "x \<in> set (sort_members cs)"
    then obtain k where k: "k \<in> set (map fst cs)" "x = (k, the (obj_get cs k))"
      by (auto simp: sort_members_def)
    then obtain v where "obj_get cs k = Some v" by (metis obj_get_None not_Some_eq)
    then show "x \<in> set cs" using k(2) by (auto simp: obj_get_def dest: map_of_SomeD)
  qed
  ultimately have fixed: "\<forall>(k, c) \<in> set (sort_members cs). canon num c = Some c" by blast
  have "canon_members num xs = Some xs" if "\<forall>(k, c) \<in> set xs. canon num c = Some c" for xs
    using that by (induction xs) auto
  then have "canon_members num (sort_members cs) = Some (sort_members cs)" using fixed by blast
  moreover have "sort_members (sort_members cs) = sort_members cs"
    by (rule sort_members_cong) (rule obj_get_sort_members)
  ultimately show ?case by (simp only: canon_object cs(2) option.map)
qed auto

lemma changed_refs_locations:
  "p \<in> set (changed_refs (refs_of a) (refs_of b)) \<longleftrightarrow> (\<exists>l. p = loc_path l \<and> uuid_at a l \<noteq> uuid_at b l)"
proof -
  have loc: "loc_path l \<in> set (map fst (refs_of j)) \<longleftrightarrow> uuid_at j l \<noteq> None" for l j
    using refs_of_at [of j l] by (metis map_of_eq_None_iff set_map)
  have "p \<in> set (changed_refs (refs_of a) (refs_of b)) \<longleftrightarrow>
      (p \<in> set (map fst (refs_of a)) \<or> p \<in> set (map fst (refs_of b)))
      \<and> map_of (refs_of a) p \<noteq> map_of (refs_of b) p"
    by (auto simp: changed_refs_def map_of_eq_None_iff)
      (metis fst_conv image_eqI map_of_eq_None_iff not_None_eq)+
  also have "\<dots> \<longleftrightarrow> (\<exists>l. p = loc_path l \<and> uuid_at a l \<noteq> uuid_at b l)"
    using refs_of_path refs_of_at loc by metis
  finally show ?thesis .
qed

lemma call_identity_iff:
  assumes "raw_members original = Some before" "raw_members edited = Some after"
    and "is_rest_staging before \<or> is_rest_staging after"
  shows "assert_same_call_identity pg go original edited = Inr () \<longleftrightarrow>
     (\<forall>m. m \<noteq> call_identity_body \<longrightarrow> map_option pg (obj_get before m) = map_option go (obj_get after m))"
proof -
  let ?same = "\<lambda>m. map_option pg (obj_get before m) = map_option go (obj_get after m)"
  have absent: "m \<notin> set (map fst before @ map fst after) \<Longrightarrow> ?same m" for m
    using obj_get_None [of before m] obj_get_None [of after m] by simp
  have "assert_same_call_identity pg go original edited = Inr () \<longleftrightarrow>
      (\<forall>m \<in> set (map fst before @ map fst after). m \<noteq> call_identity_body \<longrightarrow> ?same m)"
    using assms by (auto simp: assert_same_call_identity_def Let_def filter_empty_conv)
  then show ?thesis using absent by blast
qed

section \<open>Properties\<close>

lemma edit_cannot_reaim_facts:
  "assert_same_entity_refs original edited = Inr () \<longleftrightarrow> (\<forall>l. uuid_at original l = uuid_at edited l)"
  "assert_same_entity_refs original edited = Inl e \<Longrightarrow>
     \<exists>ps. e = RetargetedEdit ps \<and> sorted ps
       \<and> set ps = {loc_path l | l. uuid_at original l \<noteq> uuid_at edited l}"
  "loc_path l = loc_path m \<Longrightarrow> l = m"
proof -
  show "assert_same_entity_refs original edited = Inr () \<longleftrightarrow> (\<forall>l. uuid_at original l = uuid_at edited l)"
    by (rule assert_same_entity_refs_iff)
  show "assert_same_entity_refs original edited = Inl e \<Longrightarrow>
     \<exists>ps. e = RetargetedEdit ps \<and> sorted ps
       \<and> set ps = {loc_path l | l. uuid_at original l \<noteq> uuid_at edited l}"
    by (simp add: assert_same_entity_refs_def Let_def changed_refs_locations set_eq_iff split: if_splits)
      (rule exI, rule conjI, rule sym, assumption, simp add: changed_refs_locations)
  show "loc_path l = loc_path m \<Longrightarrow> l = m" by (rule loc_path_inj)
qed

text \<open>
  A modify-then-approve edit cannot re-aim the action. It passes exactly when every location of
  the payload, at any depth, holds the same identifier before and after (none added, none dropped,
  none repointed), whatever the keys are spelled like: the path a location is compared under is
  injective, so no choice of key names makes one location pass for another. A refusal names exactly
  the locations that differ, in byte order.
\<close>

theorem edit_cannot_reaim:
  "(assert_same_entity_refs original edited = Inr () \<longleftrightarrow> (\<forall>l. uuid_at original l = uuid_at edited l))
     \<and> (assert_same_entity_refs original edited = Inl e \<longrightarrow> (\<exists>ps. e = RetargetedEdit ps \<and> sorted ps
       \<and> set ps = {loc_path l | l. uuid_at original l \<noteq> uuid_at edited l}))
     \<and> (loc_path l = loc_path m \<longrightarrow> l = m)"
  by (assumption | rule edit_cannot_reaim_facts conjI impI)+

theorem edit_cannot_reaim_witness:
  "assert_same_entity_refs (JObj [(''deal_id'', JStr (uuid_string 100))]) (JObj [(''deal_id'', JStr (uuid_string 101))])
     \<noteq> Inr ()"
proof
  assume pass: "assert_same_entity_refs (JObj [(''deal_id'', JStr (uuid_string 100))])
      (JObj [(''deal_id'', JStr (uuid_string 101))]) = Inr ()"
  have "uuid_at (JObj [(''deal_id'', JStr (uuid_string 100))]) [Key ''deal_id'']
      = uuid_at (JObj [(''deal_id'', JStr (uuid_string 101))]) [Key ''deal_id'']"
    using edit_cannot_reaim [THEN conjunct1] pass by blast
  then have "uuid_string 100 = uuid_string 101"
    by (simp add: uuid_at_simps obj_get_def parse_of_string)
  then show False using uuid_string_inj [of 100 101] by simp
qed

lemma diff_hash_is_content_facts:
  assumes "\<And>s t. num s = Some t \<Longrightarrow> num t = Some t"
  shows "mset kvs = mset kvs' \<Longrightarrow> distinct (map fst kvs) \<Longrightarrow>
      diffhash_canonical num sha (JObj kvs) = diffhash_canonical num sha (JObj kvs')"
    and "diffhash_canonical num sha raw = Some (c, h) \<Longrightarrow> diffhash_canonical num sha c = Some (c, h)"
proof -
  show "mset kvs = mset kvs' \<Longrightarrow> distinct (map fst kvs) \<Longrightarrow>
      diffhash_canonical num sha (JObj kvs) = diffhash_canonical num sha (JObj kvs')"
    using canon_perm [of kvs kvs' num] by (simp add: diffhash_canonical_def)
  assume raw: "diffhash_canonical num sha raw = Some (c, h)"
  show "diffhash_canonical num sha c = Some (c, h)"
  proof (cases raw)
    case (JObj kvs)
    then have c: "canon num raw = Some c" "h = sha c" using raw by (auto simp: diffhash_canonical_def)
    moreover obtain cs where "c = JObj cs" using c(1) JObj by auto
    ultimately show ?thesis using canon_idem [OF assms c(1)] by (simp add: diffhash_canonical_def)
  qed (use raw in \<open>auto simp: diffhash_canonical_def\<close>)
qed

text \<open>
  The canonical form a diff hash is taken of is a property of content: two objects with the same
  members in a different order canonicalize, and so hash, alike, and canonicalizing what was stored
  changes nothing, so a stored change re-hashes to the hash stored beside it. The hypothesis on
  \<open>num\<close> is that printing a parsed number and parsing it again gives the same text.
\<close>

theorem diff_hash_is_content:
  assumes "\<And>s t. num s = Some t \<Longrightarrow> num t = Some t"
  shows "(mset kvs = mset kvs' \<longrightarrow> distinct (map fst kvs) \<longrightarrow>
         diffhash_canonical num sha (JObj kvs) = diffhash_canonical num sha (JObj kvs'))
     \<and> (diffhash_canonical num sha raw = Some (c, h) \<longrightarrow> diffhash_canonical num sha c = Some (c, h))"
  by (assumption | rule diff_hash_is_content_facts [OF assms] conjI impI)+

theorem diff_hash_is_content_witness:
  "diffhash_canonical Some (\<lambda>_. ''h'') (JObj [(''b'', JNum ''2''), (''a'', JNum ''1'')])
   = diffhash_canonical Some (\<lambda>_. ''h'') (JObj [(''a'', JNum ''1''), (''b'', JNum ''2'')])"
  using diff_hash_is_content [THEN conjunct1, THEN mp, THEN mp, of Some "[(''b'', JNum ''2''), (''a'', JNum ''1'')]"
      "[(''a'', JNum ''1''), (''b'', JNum ''2'')]" "\<lambda>_. ''h''"] by simp

lemma edit_keeps_the_call_facts:
  assumes "\<And>a w. pg (JStr a) = go w \<Longrightarrow> w = JStr a"
    and "is_rest_staging before \<or> is_rest_staging after" and "m \<noteq> ''body''"
  shows "assert_same_call_identity pg go (JObj before) (JObj after) = Inr () \<Longrightarrow>
      obj_get before m = Some (JStr a) \<Longrightarrow> obj_get after m = Some (JStr a)"
    and "assert_same_call_identity pg go (JObj before) (JObj after) = Inr () \<Longrightarrow>
      obj_get before m = None \<longleftrightarrow> obj_get after m = None"
    and "(\<And>x. x \<noteq> ''body'' \<Longrightarrow> map_option pg (obj_get before x) = map_option go (obj_get after x)) \<Longrightarrow>
      assert_same_call_identity pg go (JObj before) (JObj after) = Inr ()"
proof -
  note iff = call_identity_iff [of "JObj before" before "JObj after" after pg go, OF _ _ assms(2)]
  show "assert_same_call_identity pg go (JObj before) (JObj after) = Inr () \<Longrightarrow>
      obj_get before m = Some (JStr a) \<Longrightarrow> obj_get after m = Some (JStr a)"
  proof -
    assume pass: "assert_same_call_identity pg go (JObj before) (JObj after) = Inr ()"
      and was: "obj_get before m = Some (JStr a)"
    then have "map_option pg (Some (JStr a)) = map_option go (obj_get after m)"
      using iff assms(3) by (metis call_identity_body_def raw_members.simps(1))
    then obtain w where "obj_get after m = Some w" "pg (JStr a) = go w"
      by (cases "obj_get after m") auto
    then show ?thesis using assms(1) by simp
  qed
  show "assert_same_call_identity pg go (JObj before) (JObj after) = Inr () \<Longrightarrow>
      obj_get before m = None \<longleftrightarrow> obj_get after m = None"
    using iff assms(3) by (metis call_identity_body_def map_option_is_None raw_members.simps(1))
  show "(\<And>x. x \<noteq> ''body'' \<Longrightarrow> map_option pg (obj_get before x) = map_option go (obj_get after x)) \<Longrightarrow>
      assert_same_call_identity pg go (JObj before) (JObj after) = Inr ()"
    using iff by (simp add: call_identity_body_def)
qed

text \<open>
  An edit to a staged REST call may change its body and nothing else: where the texts compared for
  a string determine the string, an edit that passes leaves every other top-level string member (the
  operation, the path, any precondition the transport writes) as it was staged, and adds and drops
  none; and an edit whose members outside the body render alike always passes.
\<close>

theorem edit_keeps_the_call:
  assumes "\<And>a w. pg (JStr a) = go w \<Longrightarrow> w = JStr a"
    and "is_rest_staging before \<or> is_rest_staging after" and "m \<noteq> ''body''"
  shows "(assert_same_call_identity pg go (JObj before) (JObj after) = Inr () \<longrightarrow>
         obj_get before m = Some (JStr a) \<longrightarrow> obj_get after m = Some (JStr a))
     \<and> (assert_same_call_identity pg go (JObj before) (JObj after) = Inr () \<longrightarrow>
         (obj_get before m = None \<longleftrightarrow> obj_get after m = None))
     \<and> (((\<forall>x. x \<noteq> ''body'' \<longrightarrow> map_option pg (obj_get before x) = map_option go (obj_get after x))) \<longrightarrow>
         assert_same_call_identity pg go (JObj before) (JObj after) = Inr ())"
  by (assumption | rule edit_keeps_the_call_facts [OF assms] conjI impI | blast)+

text \<open>Two renderings of a value: PostgreSQL writes a space after a colon and a comma, Go does not.\<close>

fun render :: "string \<Rightarrow> string \<Rightarrow> json \<Rightarrow> string"
  and render_items :: "string \<Rightarrow> string \<Rightarrow> json list \<Rightarrow> string list"
  and render_members :: "string \<Rightarrow> string \<Rightarrow> (string \<times> json) list \<Rightarrow> string list" where
  "render colon comma JNull = ''null''"
| "render colon comma (JBool b) = (if b then ''true'' else ''false'')"
| "render colon comma (JNum t) = t"
| "render colon comma (JStr s) = [CHR 0x22] @ s @ [CHR 0x22]"
| "render colon comma (JArr xs) = ''['' @ join comma (render_items colon comma xs) @ '']''"
| "render colon comma (JObj kvs) = ''{'' @ join comma (render_members colon comma kvs) @ ''}''"
| "render_items colon comma [] = []"
| "render_items colon comma (x # xs) = render colon comma x # render_items colon comma xs"
| "render_members colon comma [] = []"
| "render_members colon comma ((k, v) # kvs) =
     ([CHR 0x22] @ k @ [CHR 0x22] @ colon @ render colon comma v) # render_members colon comma kvs"

definition string_render :: "json \<Rightarrow> string" where
  "string_render j = (case j of JStr s \<Rightarrow> ''s'' @ s | _ \<Rightarrow> ''x'')"

definition staged_call :: "json \<Rightarrow> (string \<times> json) list" where
  "staged_call body = [(''body'', body), (''operation'', JStr ''updatePerson''), (''path'', JStr ''/v1/people/7'')]"

theorem edit_keeps_the_call_witness:
  "obj_get (staged_call (JStr ''new'')) ''path'' = Some (JStr ''/v1/people/7'')"
proof -
  have pass: "assert_same_call_identity string_render string_render
      (JObj (staged_call (JStr ''old''))) (JObj (staged_call (JStr ''new''))) = Inr ()"
    and was: "obj_get (staged_call (JStr ''old'')) ''path'' = Some (JStr ''/v1/people/7'')"
    and rest: "is_rest_staging (staged_call (JStr ''old''))"
    by code_simp+
  have "string_render (JStr a) = string_render w \<Longrightarrow> w = JStr a" for a w
    by (cases w) (simp_all add: string_render_def)
  then show ?thesis
    using edit_keeps_the_call [THEN conjunct1, THEN mp, THEN mp, of string_render string_render, OF _ _ _ pass was] rest by blast
qed

text \<open>
  The bytes compared come from two renderings: the staged member is PostgreSQL's text of the stored
  jsonb, the edited one Go's compact form. A member that is an object, such as the \<open>headers\<close> a call
  carrying an idempotency key stages, differs by its spaces alone, so an edit that changes only the
  body of such a staging is refused as re-aimed.
\<close>

theorem headered_staging_refuses_every_edit:
  "assert_same_call_identity (render '': '' '', '') (render '':'' '','')
     (JObj (staged_call b @ [(''headers'', JObj [(''Idempotency-Key'', JStr ''k1'')])]))
     (JObj (staged_call b' @ [(''headers'', JObj [(''Idempotency-Key'', JStr ''k1'')])]))
   = Inl (RetargetedEdit [''/headers''])"
  by code_simp

end
