(* ===== verification/Approval_Rows.thy ===== *)
theory Approval_Rows
  imports Rbac Text
begin

text \<open>
  The staged row, its window and the policy tables the approvals engine decides by
  (\<^verbatim>\<open>backend/internal/modules/approvals\<close>: \<^verbatim>\<open>inbox.go\<close>,
  \<^verbatim>\<open>expiry.go\<close>, \<^verbatim>\<open>authority.go\<close>,
  \<^verbatim>\<open>decidingactor.go\<close>, \<^verbatim>\<open>redeem.go\<close>).
  The \<open>status\<close> column's CHECK admits four values, so it is a datatype here. A \<open>proposed_change\<close>
  is the decoded jsonb value.
\<close>

section \<open>Rows\<close>

datatype status = Pending | Approved | Rejected | Expired

fun status_string :: "status \<Rightarrow> string" where
  "status_string Pending = ''pending''"
| "status_string Approved = ''approved''"
| "status_string Rejected = ''rejected''"
| "status_string Expired = ''expired''"

record approval =
  ap_id :: uuid
  ap_kind :: string
  ap_status :: status
  ap_proposed_by :: string
  ap_on_behalf_of :: "uuid option"
  ap_passport_id :: "uuid option"
  ap_target_type :: "string option"
  ap_target_id :: "uuid option"
  ap_target_version :: "int option"
  ap_summary :: "string option"
  ap_proposed_change :: json
  ap_diff_hash :: string
  ap_expires_at :: time
  ap_decided_by :: "uuid option"
  ap_decided_at :: "time option"
  ap_decision_reason :: "string option"
  ap_consumed_at :: "time option"
  ap_created_at :: time
  ap_bundle_id :: "uuid option"
  ap_evidence :: "json option"

section \<open>Expiry\<close>

definition kind_scheduled_send_held :: string where "kind_scheduled_send_held = ''scheduled_send_held''"
definition kind_quota_release :: string where "kind_quota_release = ''quota_release''"
definition kind_linkedin_match :: string where "kind_linkedin_match = ''linkedin_match''"
definition kind_held_draft :: string where "kind_held_draft = ''held_draft''"
definition kind_project_attribution :: string where "kind_project_attribution = ''project_attribution''"
definition kind_import_commit :: string where "kind_import_commit = ''commit_import''"

lemmas kind_defs = kind_scheduled_send_held_def kind_quota_release_def kind_linkedin_match_def
  kind_held_draft_def kind_project_attribution_def kind_import_commit_def

definition staging_ttl :: duration where "staging_ttl = 72 * hour"
definition redemption_ttl :: duration where "redemption_ttl = 15 * minute"
definition unused_expiry_placeholder :: duration where "unused_expiry_placeholder = 100 * 365 * 24 * hour"

definition no_expiry_kinds :: "string list" where
  "no_expiry_kinds = [kind_scheduled_send_held]"

definition expires_never :: "string \<Rightarrow> bool" where
  "expires_never kind \<longleftrightarrow> kind \<in> set no_expiry_kinds"

definition ttl_for :: "string \<Rightarrow> duration option \<Rightarrow> duration" where
  "ttl_for kind override =
     (if expires_never kind then unused_expiry_placeholder
      else case override of
        Some d \<Rightarrow> if 0 < d then d else staging_ttl
      | None \<Rightarrow> staging_ttl)"

definition effective_status :: "approval \<Rightarrow> time \<Rightarrow> status" where
  "effective_status a now =
     (if ap_status a = Pending \<and> \<not> expires_never (ap_kind a) \<and> ap_expires_at a < now then Expired
      else ap_status a)"

section \<open>Decision grants\<close>

type_synonym grant_requirement = "string \<times> action"

definition decision_grant_table :: "(string \<times> grant_requirement list) list" where
  "decision_grant_table = [
     (''scheduled_send_held'', [(''activity'', ActionUpdate)]),
     (''commit_import'', [(''import_run'', ActionCreate)]),
     (''quota_release'', []),
     (''advance_deal'', [(''deal'', ActionUpdate)]),
     (''progress_deal'', [(''deal'', ActionUpdate)]),
     (''promote_lead'', [(''lead'', ActionUpdate), (''person'', ActionCreate)]),
     (''disqualify_lead'', [(''lead'', ActionDelete)]),
     (''advance_project_phase'', [(''project'', ActionUpdate)]),
     (''send_email'', [(''activity'', ActionCreate)]),
     (''send_account_email'', [(''activity'', ActionCreate)]),
     (''send_message'', [(''activity'', ActionCreate)]),
     (''book_meeting'', [(''activity'', ActionCreate)]),
     (''relink_activity'', [(''activity'', ActionUpdate)]),
     (''relink_thread'', [(''activity'', ActionUpdate)]),
     (''relink_activities'', [(''activity'', ActionUpdate)]),
     (''project_attribution'', [(''activity'', ActionUpdate)]),
     (''coldstart'', [(''organization'', ActionUpdate)]),
     (''enrich'', [(''organization'', ActionUpdate)]),
     (''fx_rate_proposal'', [(''fx_rate'', ActionCreate), (''fx_rate'', ActionUpdate)]),
     (''ai_model_rate_proposal'', [(''ai_model_rate'', ActionCreate), (''ai_model_rate'', ActionUpdate)]),
     (''deepread'', [(''organization'', ActionUpdate)]),
     (''site_lead'', [(''lead'', ActionCreate)]),
     (''linkedin_match'', [(''person'', ActionUpdate)]),
     (''capture_counterparty'', [(''person'', ActionCreate), (''organization'', ActionCreate)]),
     (''org_name_promotion'', [(''organization'', ActionUpdate)]),
     (''lifecycle_change'', [(''organization'', ActionUpdate), (''signal'', ActionUpdate)]),
     (''close_date_correction'', [(''deal'', ActionUpdate)]),
     (''deal_follow_up'', [(''activity'', ActionCreate)]),
     (''transcript_proposal'', [(''activity'', ActionCreate)]),
     (''emit_flow_event'', [(''activity'', ActionCreate)]),
     (''held_draft'', [(''activity'', ActionCreate)])]"

definition decision_grants :: "string \<rightharpoonup> grant_requirement list" where
  "decision_grants = map_of decision_grant_table"

definition target_resolved_grants :: "string \<rightharpoonup> action" where
  "target_resolved_grants = map_of [
     (''assign_owner'', ActionUpdate), (''archive_record'', ActionDelete),
     (''merge_records'', ActionUpdate), (''update_record'', ActionUpdate),
     (''create_record'', ActionCreate)]"

definition decision_grants_for :: "string \<Rightarrow> string option \<Rightarrow> grant_requirement list result" where
  "decision_grants_for kind target_type =
     (case (decision_grants kind, target_resolved_grants kind) of
        (None, None) \<Rightarrow> Inl (ErrOther ''crmapprovals: kind has no decision-grant mapping'')
      | (Some fixed, None) \<Rightarrow> Inr fixed
      | (fixed, Some act) \<Rightarrow>
          (case target_type of
             None \<Rightarrow> Inl (ErrOther ''crmapprovals: staged without a target type'')
           | Some t \<Rightarrow> Inr (case_option [] id fixed @ [(t, act)])))"

definition require_decision_grants :: "principal \<Rightarrow> approval \<Rightarrow> unit result" where
  "require_decision_grants p a =
     bindR (decision_grants_for (ap_kind a) (ap_target_type a)) (\<lambda>grants.
       guardR (list_all (\<lambda>(obj, act). allows (p_permissions p) obj act) grants) ErrPermissionDenied)"

definition decision_grant_objects :: "string \<Rightarrow> string \<Rightarrow> string list result" where
  "decision_grant_objects kind target_type =
     bindR (decision_grants_for kind (Some target_type)) (\<lambda>grants. Inr (map fst grants))"

definition kind_has_decision_grants :: "string \<Rightarrow> bool" where
  "kind_has_decision_grants kind \<longleftrightarrow> decision_grants kind \<noteq> None \<or> target_resolved_grants kind \<noteq> None"

definition self_only_kinds :: "string list" where
  "self_only_kinds = [kind_linkedin_match, kind_quota_release, kind_scheduled_send_held]"

section \<open>Who decides\<close>

definition acting_for_a_human :: "ctx \<Rightarrow> unit result" where
  "acting_for_a_human c =
     (case ctx_actor c of
        None \<Rightarrow> Inl (ErrOther ''crmapprovals: no actor bound to context'')
      | Some p \<Rightarrow>
          (case p_type p of
             PrincipalHuman \<Rightarrow> Inr ()
           | PrincipalAgent \<Rightarrow> guardR (\<not> is_zero (p_on_behalf_of p)) ErrPermissionDenied
           | _ \<Rightarrow> Inl ErrPermissionDenied))"

definition sending_kinds :: "string list" where
  "sending_kinds = [kind_held_draft, kind_scheduled_send_held]"

definition release_sends :: "string \<Rightarrow> bool" where
  "release_sends kind \<longleftrightarrow> kind \<in> set sending_kinds"

definition agent_may_decide :: "principal \<Rightarrow> approval \<Rightarrow> bool \<Rightarrow> unit result" where
  "agent_may_decide p a approve =
     (if p_type p \<noteq> PrincipalAgent then Inr ()
      else if approve \<and> ap_passport_id a \<noteq> None \<and> p_passport_id p \<noteq> nil_uuid
              \<and> ap_passport_id a = Some (p_passport_id p) then Inl ErrPermissionDenied
      else if ap_kind a = kind_quota_release then Inl ErrPermissionDenied
      else if \<not> has_scope (p_scopes p) ScopeWrite then Inl ErrPermissionDenied
      else if approve \<and> ap_kind a \<in> set sending_kinds \<and> \<not> has_scope (p_scopes p) ScopeSend
      then Inl ErrPermissionDenied
      else Inr ())"

definition server_proposed :: "approval \<Rightarrow> bool" where
  "server_proposed a \<longleftrightarrow> ap_passport_id a = None"

section \<open>Version pins\<close>

definition version_tables :: "string list" where
  "version_tables = [''person'', ''organization'', ''deal'', ''lead'', ''activity'', ''offer'', ''product'',
     ''list'', ''tag'', ''relationship'', ''project'', ''saved_view'', ''offer_template'', ''webhook_subscription'']"

definition context_target_kinds :: "string list" where
  "context_target_kinds = [''site_lead'', ''deal_follow_up'', ''capture_counterparty'',
     ''transcript_proposal'', kind_held_draft]"

definition unpinned_kinds :: "string list" where
  "unpinned_kinds = [kind_project_attribution, kind_linkedin_match]"

definition target_is_context_only :: "string \<Rightarrow> bool" where
  "target_is_context_only kind \<longleftrightarrow> kind \<in> set context_target_kinds"

definition target_version_unpinned :: "string \<Rightarrow> bool" where
  "target_version_unpinned kind \<longleftrightarrow> kind \<in> set unpinned_kinds"

definition target_version_checkable :: "string \<Rightarrow> bool" where
  "target_version_checkable entity_type \<longleftrightarrow> entity_type \<in> set version_tables"

section \<open>Redemption\<close>

definition validate_redemption ::
  "approval \<Rightarrow> principal \<Rightarrow> string \<Rightarrow> string \<Rightarrow> time \<Rightarrow> unit result" where
  "validate_redemption a p tool diff_hash now =
     (if ap_kind a \<noteq> tool then Inl ErrApprovalTokenInvalid
      else if ap_diff_hash a \<noteq> diff_hash then Inl ErrApprovalTokenInvalid
      else if \<not> is_zero (p_passport_id p) \<and> ap_passport_id a = None then Inl ErrApprovalTokenInvalid
      else if \<not> is_zero (p_passport_id p) \<and> ap_passport_id a \<noteq> Some (p_passport_id p)
      then Inl ErrApprovalTokenInvalid
      else if effective_status a now = Pending then Inl ErrRequiresApproval
      else if ap_status a \<noteq> Approved then Inl ErrApprovalTokenInvalid
      else if ap_consumed_at a \<noteq> None then Inl ErrApprovalTokenInvalid
      else case ap_decided_at a of
        Some t \<Rightarrow> if redemption_ttl < now - t then Inl ErrApprovalTokenInvalid else Inr ()
      | None \<Rightarrow> Inr ())"

text \<open>\<open>actionableUntil\<close>: the last moment a proposal can still be acted on (\<^verbatim>\<open>taskstate.go\<close>).\<close>

definition actionable_until :: "approval \<Rightarrow> status \<Rightarrow> time" where
  "actionable_until a st =
     (case ap_decided_at a of
        Some t \<Rightarrow> t + redemption_ttl
      | None \<Rightarrow> if st = Expired then ap_expires_at a else ap_expires_at a + redemption_ttl)"

section \<open>Lemmas\<close>

lemmas duration_values = staging_ttl_def redemption_ttl_def unused_expiry_placeholder_def duration_defs

lemma ttl_for_positive: "0 < ttl_for kind override"
  by (auto simp: ttl_for_def duration_values split: option.splits)

lemma effective_status_cases:
  "effective_status a now = Pending \<longleftrightarrow> ap_status a = Pending \<and> (expires_never (ap_kind a) \<or> now \<le> ap_expires_at a)"
  "effective_status a now = Approved \<longleftrightarrow> ap_status a = Approved"
  "effective_status a now = Rejected \<longleftrightarrow> ap_status a = Rejected"
  by (auto simp: effective_status_def)

text \<open>The checks of a redemption that do not depend on the decision.\<close>

definition fits_staged_call :: "approval \<Rightarrow> principal \<Rightarrow> string \<Rightarrow> string \<Rightarrow> bool" where
  "fits_staged_call a p tool diff_hash \<longleftrightarrow> ap_kind a = tool \<and> ap_diff_hash a = diff_hash
     \<and> (is_zero (p_passport_id p) \<or> ap_passport_id a = Some (p_passport_id p))"

lemma validate_redemption_iff:
  "validate_redemption a p tool h now = Inr () \<longleftrightarrow> fits_staged_call a p tool h \<and> ap_status a = Approved
     \<and> ap_consumed_at a = None \<and> (\<forall>t. ap_decided_at a = Some t \<longrightarrow> now \<le> t + redemption_ttl)"
  by (auto simp: validate_redemption_def fits_staged_call_def effective_status_def split: option.splits)

lemma validate_redemption_errors:
  "validate_redemption a p tool h now = Inl e \<Longrightarrow> e = ErrApprovalTokenInvalid \<or> e = ErrRequiresApproval"
  by (auto simp: validate_redemption_def split: if_splits option.splits)

lemma decision_grants_for_defined:
  "decision_grants_for kind t = Inr grants \<Longrightarrow> kind_has_decision_grants kind"
  by (auto simp: decision_grants_for_def kind_has_decision_grants_def split: option.splits)

lemma decision_grant_table_facts:
  "list_all (\<lambda>(k, g). target_resolved_grants k = None \<and> (g = [] \<longleftrightarrow> k = kind_quota_release))
     decision_grant_table"
  by code_simp

lemma decision_grants_facts:
  "decision_grants kind = Some g \<Longrightarrow> target_resolved_grants kind = None \<and> (g = [] \<longleftrightarrow> kind = kind_quota_release)"
  using decision_grant_table_facts by (auto simp: decision_grants_def list_all_iff dest!: map_of_SomeD)

lemma kind_tables_disjoint: "decision_grants kind = None \<or> target_resolved_grants kind = None"
  using decision_grants_facts by (cases "decision_grants kind") auto

lemma quota_release_grants: "decision_grants kind_quota_release = Some []"
  by code_simp

lemma empty_grants: "decision_grants kind = Some [] \<longleftrightarrow> kind = kind_quota_release"
  using decision_grants_facts quota_release_grants by auto

lemma decision_grants_for_empty:
  "decision_grants_for kind t = Inr [] \<longleftrightarrow> kind = kind_quota_release"
proof
  assume "decision_grants_for kind t = Inr []"
  then have "decision_grants kind = Some []"
    by (auto simp: decision_grants_for_def split: option.splits)
  then show "kind = kind_quota_release" by (simp add: empty_grants)
next
  assume k: "kind = kind_quota_release"
  then have "decision_grants kind = Some []" by (simp add: empty_grants)
  moreover from this have "target_resolved_grants kind = None" using kind_tables_disjoint by (metis option.simps(3))
  ultimately show "decision_grants_for kind t = Inr []" by (simp add: decision_grants_for_def)
qed

section \<open>Properties\<close>

text \<open>A closed row: an agent's staged deal move, approved at instant 100.\<close>

definition sample_approval :: approval where
  "sample_approval =
     \<lparr>ap_id = 1, ap_kind = ''advance_deal'', ap_status = Approved, ap_proposed_by = ''agent:2'',
      ap_on_behalf_of = Some 7, ap_passport_id = Some 2, ap_target_type = Some ''deal'',
      ap_target_id = Some 100, ap_target_version = Some 3, ap_summary = None,
      ap_proposed_change = JObj [], ap_diff_hash = ''h'', ap_expires_at = 50, ap_decided_by = Some 7,
      ap_decided_at = Some 100, ap_decision_reason = None, ap_consumed_at = None, ap_created_at = 0,
      ap_bundle_id = None, ap_evidence = None\<rparr>"

lemma expiry_halves_agree_facts:
  assumes "ap_expires_at a = staged_at + ttl_for (ap_kind a) override" "ap_status a = Pending"
  shows "effective_status a now = Expired \<longleftrightarrow> \<not> expires_never (ap_kind a)
      \<and> staged_at + (case override of Some d \<Rightarrow> if 0 < d then d else staging_ttl | None \<Rightarrow> staging_ttl) < now"
    and "expires_never (ap_kind a) \<Longrightarrow> effective_status a now = Pending"
    and "now \<le> staged_at \<Longrightarrow> effective_status a now = Pending"
  using assms ttl_for_positive [of "ap_kind a" override]
  by (auto simp: effective_status_def ttl_for_def split: option.splits if_splits)

text \<open>
  The two halves of the expiry policy agree: a staging whose deadline was stamped by \<open>ttlFor\<close> reads
  as expired exactly when its kind can expire and the window the kind (or the staging's own positive
  override) grants has passed; an exempt kind never reads as expired, whatever override it was staged
  with; and no override, zero or negative ones included, can make a window that is already closed.
\<close>

theorem expiry_halves_agree:
  assumes "ap_expires_at a = staged_at + ttl_for (ap_kind a) override" "ap_status a = Pending"
  shows "(effective_status a now = Expired \<longleftrightarrow> \<not> expires_never (ap_kind a)
      \<and> staged_at + (case override of Some d \<Rightarrow> if 0 < d then d else staging_ttl | None \<Rightarrow> staging_ttl) < now)
     \<and> (expires_never (ap_kind a) \<longrightarrow> effective_status a now = Pending)
     \<and> (now \<le> staged_at \<longrightarrow> effective_status a now = Pending)"
  by (assumption | rule expiry_halves_agree_facts [OF assms] conjI impI)+

theorem expiry_halves_agree_witness:
  "effective_status (sample_approval\<lparr>ap_status := Pending, ap_expires_at := 5 + ttl_for ''advance_deal'' (Some 0)\<rparr>)
     (6 + staging_ttl) = Expired"
  using expiry_halves_agree [THEN conjunct1, of "sample_approval\<lparr>ap_status := Pending,
      ap_expires_at := 5 + ttl_for ''advance_deal'' (Some 0)\<rparr>" 5 "Some 0" "6 + staging_ttl"]
  by (simp add: sample_approval_def expires_never_def no_expiry_kinds_def kind_defs)

lemma redemption_accepts_exactly_facts:
  "validate_redemption a p tool h now = Inr () \<longleftrightarrow>
     ap_kind a = tool \<and> ap_diff_hash a = h
     \<and> (is_zero (p_passport_id p) \<or> ap_passport_id a = Some (p_passport_id p))
     \<and> ap_status a = Approved \<and> ap_consumed_at a = None
     \<and> (\<forall>t. ap_decided_at a = Some t \<longrightarrow> now \<le> t + redemption_ttl)"
  "validate_redemption a p tool h now = Inl ErrRequiresApproval \<longleftrightarrow>
     fits_staged_call a p tool h \<and> effective_status a now = Pending"
  "validate_redemption a p tool h now \<in> {Inr (), Inl ErrRequiresApproval, Inl ErrApprovalTokenInvalid}"
proof -
  show "validate_redemption a p tool h now = Inr () \<longleftrightarrow>
     ap_kind a = tool \<and> ap_diff_hash a = h
     \<and> (is_zero (p_passport_id p) \<or> ap_passport_id a = Some (p_passport_id p))
     \<and> ap_status a = Approved \<and> ap_consumed_at a = None
     \<and> (\<forall>t. ap_decided_at a = Some t \<longrightarrow> now \<le> t + redemption_ttl)"
    unfolding validate_redemption_iff by (auto simp: fits_staged_call_def)
  show "validate_redemption a p tool h now = Inl ErrRequiresApproval \<longleftrightarrow>
     fits_staged_call a p tool h \<and> effective_status a now = Pending"
    by (auto simp: validate_redemption_def fits_staged_call_def split: option.splits)
  show "validate_redemption a p tool h now \<in> {Inr (), Inl ErrRequiresApproval, Inl ErrApprovalTokenInvalid}"
    using validate_redemption_errors [of a p tool h now]
    by (cases "validate_redemption a p tool h now") auto
qed

text \<open>
  What a redemption accepts is exact: the identical call (same tool, same diff hash), on the passport
  that staged it when the caller holds one, of an approved, unconsumed row, within the redemption window
  of its decision. A caller is told to wait (\<open>requires approval\<close>) only about an undecided, unexpired row
  whose call and credential already fit, so waiting can succeed; everything else is an invalid token.
\<close>

theorem redemption_accepts_exactly:
  "(validate_redemption a p tool h now = Inr () \<longleftrightarrow>
     ap_kind a = tool \<and> ap_diff_hash a = h
     \<and> (is_zero (p_passport_id p) \<or> ap_passport_id a = Some (p_passport_id p))
     \<and> ap_status a = Approved \<and> ap_consumed_at a = None
     \<and> (\<forall>t. ap_decided_at a = Some t \<longrightarrow> now \<le> t + redemption_ttl))
     \<and> (validate_redemption a p tool h now = Inl ErrRequiresApproval \<longleftrightarrow>
     fits_staged_call a p tool h \<and> effective_status a now = Pending)
     \<and> (validate_redemption a p tool h now \<in> {Inr (), Inl ErrRequiresApproval, Inl ErrApprovalTokenInvalid})"
  by (assumption | rule redemption_accepts_exactly_facts conjI impI)+

theorem redemption_accepts_exactly_witness:
  "\<forall>p. validate_redemption sample_approval p ''advance_deal'' ''h'' 100 = Inr ()
     \<longleftrightarrow> is_zero (p_passport_id p) \<or> p_passport_id p = 2"
proof
  fix p
  show "validate_redemption sample_approval p ''advance_deal'' ''h'' 100 = Inr ()
     \<longleftrightarrow> is_zero (p_passport_id p) \<or> p_passport_id p = 2"
    using redemption_accepts_exactly [THEN conjunct1, of sample_approval p "''advance_deal''" "''h''" 100]
    by (auto simp: sample_approval_def duration_values)
qed

lemma handle_outlives_authority_facts:
  "ap_decided_at a \<noteq> None \<Longrightarrow> validate_redemption a p tool h now = Inr () \<Longrightarrow>
     now \<le> actionable_until a (effective_status a now)"
  "ap_decided_at a = None \<Longrightarrow> effective_status a t = Pending \<Longrightarrow> \<not> expires_never (ap_kind a) \<Longrightarrow>
     t \<le> decided \<Longrightarrow> decided \<le> ap_expires_at a \<Longrightarrow> now \<le> decided + redemption_ttl \<Longrightarrow>
     now \<le> actionable_until a (effective_status a t)"
  by (auto simp: validate_redemption_iff actionable_until_def)

text \<open>
  A task handle never expires before the authority it waits for: whenever a redemption would be
  accepted, the deadline \<open>TaskState\<close> answers for the row has not passed; and for a row still pending
  the deadline covers a decision taken at any moment it can still be taken, plus the whole redemption
  window after it.
\<close>

theorem handle_outlives_authority:
  "(ap_decided_at a \<noteq> None \<longrightarrow> validate_redemption a p tool h now = Inr () \<longrightarrow>
         now \<le> actionable_until a (effective_status a now))
     \<and> (ap_decided_at a = None \<longrightarrow> effective_status a t = Pending \<longrightarrow> \<not> expires_never (ap_kind a) \<longrightarrow>
         t \<le> decided \<longrightarrow> decided \<le> ap_expires_at a \<longrightarrow> now \<le> decided + redemption_ttl \<longrightarrow>
         now \<le> actionable_until a (effective_status a t))"
  by (assumption | rule handle_outlives_authority_facts conjI impI)+

theorem handle_outlives_authority_witness:
  "101 \<le> actionable_until sample_approval (effective_status sample_approval 101)"
proof -
  have "validate_redemption sample_approval (p\<lparr>p_passport_id := 2\<rparr>) ''advance_deal'' ''h'' 101 = Inr ()" for p
    by (simp add: validate_redemption_iff fits_staged_call_def sample_approval_def duration_values)
  moreover have "ap_decided_at sample_approval \<noteq> None" by (simp add: sample_approval_def)
  ultimately show ?thesis using handle_outlives_authority [THEN conjunct1, THEN mp, THEN mp] by blast
qed

lemma agent_may_decide_exactly_facts:
  "agent_may_decide p a approve = Inr () \<longleftrightarrow>
     (p_type p = PrincipalAgent \<longrightarrow>
        ap_kind a \<noteq> kind_quota_release \<and> has_scope (p_scopes p) ScopeWrite
        \<and> (approve \<longrightarrow> (p_passport_id p = nil_uuid \<or> ap_passport_id a \<noteq> Some (p_passport_id p))
             \<and> (release_sends (ap_kind a) \<longrightarrow> has_scope (p_scopes p) ScopeSend)))"
  "agent_may_decide p a approve \<in> {Inr (), Inl ErrPermissionDenied}"
  by (auto simp: agent_may_decide_def release_sends_def)

text \<open>
  What a lent credential may do to a staged proposal is exact. An agent never releases what it
  proposed itself, never answers a volume step-up in either direction, needs the write cap for any
  decision, and the send cap to approve a kind whose approval is the send; rejecting such a kind, or
  the proposal it made itself, needs no more than the write cap. A human answers on their seat alone.
\<close>

theorem agent_may_decide_exactly:
  "(agent_may_decide p a approve = Inr () \<longleftrightarrow>
     (p_type p = PrincipalAgent \<longrightarrow>
        ap_kind a \<noteq> kind_quota_release \<and> has_scope (p_scopes p) ScopeWrite
        \<and> (approve \<longrightarrow> (p_passport_id p = nil_uuid \<or> ap_passport_id a \<noteq> Some (p_passport_id p))
             \<and> (release_sends (ap_kind a) \<longrightarrow> has_scope (p_scopes p) ScopeSend))))
     \<and> (agent_may_decide p a approve \<in> {Inr (), Inl ErrPermissionDenied})"
  by (assumption | rule agent_may_decide_exactly_facts conjI impI)+

lemma decision_needs_named_grants_facts:
  "require_decision_grants p a = Inr () \<longleftrightarrow>
     (\<exists>grants. decision_grants_for (ap_kind a) (ap_target_type a) = Inr grants
        \<and> (\<forall>(obj, act) \<in> set grants. allows (p_permissions p) obj act))"
  "\<not> kind_has_decision_grants (ap_kind a) \<Longrightarrow> require_decision_grants p a \<noteq> Inr ()"
  "decision_grants_for kind t = Inr [] \<longleftrightarrow> kind = kind_quota_release"
  "kind_quota_release \<in> set self_only_kinds"
  "target_resolved_grants (ap_kind a) \<noteq> None \<Longrightarrow> ap_target_type a = None \<Longrightarrow>
     require_decision_grants p a \<noteq> Inr ()"
proof -
  show "require_decision_grants p a = Inr () \<longleftrightarrow>
     (\<exists>grants. decision_grants_for (ap_kind a) (ap_target_type a) = Inr grants
        \<and> (\<forall>(obj, act) \<in> set grants. allows (p_permissions p) obj act))"
    by (simp add: require_decision_grants_def list_all_iff)
  show "\<not> kind_has_decision_grants (ap_kind a) \<Longrightarrow> require_decision_grants p a \<noteq> Inr ()"
    using decision_grants_for_defined by (auto simp: require_decision_grants_def)
  show "decision_grants_for kind t = Inr [] \<longleftrightarrow> kind = kind_quota_release"
    by (rule decision_grants_for_empty)
  show "kind_quota_release \<in> set self_only_kinds" by (simp add: self_only_kinds_def)
  show "target_resolved_grants (ap_kind a) \<noteq> None \<Longrightarrow> ap_target_type a = None \<Longrightarrow>
     require_decision_grants p a \<noteq> Inr ()"
    by (auto simp: require_decision_grants_def decision_grants_for_def split: option.splits)
qed

text \<open>
  No staged kind is decided on no authority: approving needs every grant its kind (and, for a kind
  resolved from its target, its target's type) names; a kind in neither table, and a target-resolved
  kind staged without a type, is decidable by nobody; and the one kind that names no grant at all, the
  volume step-up, is among those only the member they were staged for may see or decide.
\<close>

theorem decision_needs_named_grants:
  "(require_decision_grants p a = Inr () \<longleftrightarrow>
     (\<exists>grants. decision_grants_for (ap_kind a) (ap_target_type a) = Inr grants
        \<and> (\<forall>(obj, act) \<in> set grants. allows (p_permissions p) obj act)))
     \<and> (\<not> kind_has_decision_grants (ap_kind a) \<longrightarrow> require_decision_grants p a \<noteq> Inr ())
     \<and> (decision_grants_for kind t = Inr [] \<longleftrightarrow> kind = kind_quota_release)
     \<and> (kind_quota_release \<in> set self_only_kinds)
     \<and> (target_resolved_grants (ap_kind a) \<noteq> None \<longrightarrow> ap_target_type a = None \<longrightarrow>
         require_decision_grants p a \<noteq> Inr ())"
  by (assumption | rule decision_needs_named_grants_facts conjI impI)+

theorem decision_needs_named_grants_witness:
  "\<forall>p. require_decision_grants p (sample_approval\<lparr>ap_kind := ''unmapped''\<rparr>) \<noteq> Inr ()"
proof -
  have "\<not> kind_has_decision_grants ''unmapped''" by code_simp
  then show ?thesis
    using decision_needs_named_grants [THEN conjunct2, THEN conjunct1, THEN mp, of "sample_approval\<lparr>ap_kind := ''unmapped''\<rparr>"] by simp
qed

end
