(* ===== verification/Event_Catalog.thy ===== *)
theory Event_Catalog
  imports Principal Text "HOL-Library.List_Lexorder" "HOL-Library.Char_ord"
begin

text \<open>
  The wire contract of the event bus: \<^verbatim>\<open>backend/internal/shared/kernel/events\<close>
  (\<^verbatim>\<open>catalog.go\<close>, \<^verbatim>\<open>envelope.go\<close>, \<^verbatim>\<open>groups.go\<close>).
  The catalog maps an event type to its stream's entity and its payload version; an envelope's payload
  stays opaque. Go's zero time is \<open>None\<close>.
\<close>

section \<open>Streams\<close>

definition stream_prefix :: string where "stream_prefix = ''gw:events:crm:''"

definition extension_stream_entity :: string where "extension_stream_entity = ''extension''"
definition ai_task_stream_entity :: string where "ai_task_stream_entity = ''aitask''"
definition extension_event_version :: int where "extension_event_version = 1"

definition stream_entities :: "string list" where
  "stream_entities =
    [''person'', ''organization'', ''deal'', ''lead'', ''activity'', ''approval'', ''capture'', ''coldstart'', ''audit'', ''identity'', ''voice'', ''overlay'']"

definition streams :: "string list" where
  "streams = sort (map (\<lambda>e. stream_prefix @ e) stream_entities
     @ [stream_prefix @ extension_stream_entity, stream_prefix @ ai_task_stream_entity])"

definition core_streams :: "string list" where
  "core_streams = sort (map (\<lambda>e. stream_prefix @ e) stream_entities)"

definition extension_stream :: string where
  "extension_stream = stream_prefix @ extension_stream_entity"

section \<open>Types\<close>

text \<open>
  \<open>extensionTypeGrammar\<close>: \<open>ext_\<close>, the namespace's segments of digits and lower-case letters
  joined by single underscores, a dot, and a verb. \<open>namespace_ok start s\<close> reads one namespace;
  \<open>start\<close> says a segment has to begin here.
\<close>

definition lower_digit :: "char \<Rightarrow> bool" where
  "lower_digit c \<longleftrightarrow> c \<in> set ''abcdefghijklmnopqrstuvwxyz0123456789''"

definition lower_letter :: "char \<Rightarrow> bool" where
  "lower_letter c \<longleftrightarrow> c \<in> set ''abcdefghijklmnopqrstuvwxyz''"

fun verb_ok :: "string \<Rightarrow> bool" where
  "verb_ok [] \<longleftrightarrow> False"
| "verb_ok (c # cs) \<longleftrightarrow> lower_letter c \<and> list_all (\<lambda>d. lower_digit d \<or> d = CHR ''_'') cs"

fun namespace_ok :: "bool \<Rightarrow> string \<Rightarrow> bool" where
  "namespace_ok start [] \<longleftrightarrow> False"
| "namespace_ok start (c # cs) \<longleftrightarrow>
     (if lower_digit c then namespace_ok False cs
      else if start then False
      else if c = CHR ''_'' then namespace_ok True cs
      else c = CHR ''.'' \<and> verb_ok cs)"

definition is_extension_type :: "string \<Rightarrow> bool" where
  "is_extension_type t \<longleftrightarrow> (case cut_prefix ''ext_'' t of None \<Rightarrow> False | Some rest \<Rightarrow> namespace_ok True rest)"

definition catalog :: "(string \<times> string \<times> int) list" where
  "catalog =
    [(''person.created'', ''person'', 1), (''person.updated'', ''person'', 1),
     (''person.archived'', ''person'', 1), (''person.merged'', ''person'', 1),
     (''person.restored'', ''person'', 1), (''consent.changed'', ''person'', 1),
     (''conversation_claim.captured'', ''person'', 1), (''conversation_claim.changed'', ''person'', 1),
     (''email_signature.changed'', ''person'', 1), (''linkedin_account.changed'', ''person'', 1),
     (''linkedin_network.imported'', ''person'', 1), (''linkedin_match.decided'', ''person'', 1),
     (''retention.applied'', ''person'', 1), (''retention.restricted'', ''person'', 1),
     (''organization.created'', ''organization'', 1), (''organization.updated'', ''organization'', 1),
     (''organization.archived'', ''organization'', 1), (''organization.merged'', ''organization'', 1),
     (''deal.created'', ''deal'', 1), (''pipeline.created'', ''deal'', 1), (''pipeline.updated'', ''deal'', 1),
     (''pipeline.archived'', ''deal'', 1), (''stage.created'', ''deal'', 1), (''stage.updated'', ''deal'', 1),
     (''stage.archived'', ''deal'', 1), (''deal.updated'', ''deal'', 1), (''deal.stage_changed'', ''deal'', 1),
     (''deal.owner_changed'', ''deal'', 1), (''deal.archived'', ''deal'', 1), (''deal.restored'', ''deal'', 1),
     (''project.created'', ''deal'', 1), (''project.updated'', ''deal'', 1),
     (''project.phase_changed'', ''deal'', 1), (''project.archived'', ''deal'', 1),
     (''commission.accrued'', ''deal'', 1), (''commission.decided'', ''deal'', 1),
     (''contract.created'', ''deal'', 1), (''contract.updated'', ''deal'', 1),
     (''contract.status_changed'', ''deal'', 1), (''contract.archived'', ''deal'', 1),
     (''offer.created'', ''deal'', 1), (''offer.sent'', ''deal'', 1), (''offer.accepted'', ''deal'', 1),
     (''offer.rejected'', ''deal'', 1), (''offer.superseded'', ''deal'', 1), (''deal_room.opened'', ''deal'', 1),
     (''deal_room.updated'', ''deal'', 1), (''deal_room.published'', ''deal'', 1),
     (''deal_room.paused'', ''deal'', 1), (''deal_room.resumed'', ''deal'', 1),
     (''deal_room.closed'', ''deal'', 1), (''deal_room.archived'', ''deal'', 1),
     (''deal_room.participant_invited'', ''deal'', 1), (''deal_room.participant_revoked'', ''deal'', 1),
     (''deal_room.participant_credential_reissued'', ''deal'', 1), (''deal_room.comment_posted'', ''deal'', 1),
     (''deal_room.thread_resolved'', ''deal'', 1), (''deal_room.decision_recorded'', ''deal'', 1),
     (''lead.created'', ''lead'', 1), (''lead.updated'', ''lead'', 1), (''lead.promoted'', ''lead'', 1),
     (''lead.demoted'', ''lead'', 1), (''lead.merged'', ''lead'', 1), (''lead.sla_breached'', ''lead'', 1),
     (''lead.disqualified'', ''lead'', 1), (''activity.captured'', ''activity'', 1),
     (''activity.updated'', ''activity'', 1), (''activity.archived'', ''activity'', 1),
     (''engagement.reply'', ''activity'', 1), (''approval.requested'', ''approval'', 1),
     (''approval.decided'', ''approval'', 1), (''capture.received'', ''capture'', 1),
     (''capture.normalized'', ''capture'', 1), (''capture.failed'', ''capture'', 1),
     (''capture.skipped'', ''capture'', 1), (''signal.detected'', ''capture'', 1),
     (''signal.resolved'', ''capture'', 1), (''coldstart.read_back_proposed'', ''coldstart'', 1),
     (''coldstart.accepted'', ''coldstart'', 1), (''coldstart.rejected'', ''coldstart'', 1),
     (''audit.appended'', ''audit'', 1), (''user.invited'', ''identity'', 1),
     (''user.password_link_issued'', ''identity'', 1), (''user.deactivated'', ''identity'', 1),
     (''user.reactivated'', ''identity'', 1), (''role.changed'', ''identity'', 1),
     (''team.changed'', ''identity'', 1), (''passport.revoked'', ''identity'', 1),
     (''onboarding.state_changed'', ''identity'', 1), (''voice.profile_created'', ''voice'', 1),
     (''voice.profile_updated'', ''voice'', 1), (''voice.profile_archived'', ''voice'', 1),
     (''voice.corpus_changed'', ''voice'', 1), (''voice.build_changed'', ''voice'', 1),
     (''voice.version_changed'', ''voice'', 1), (''voice.draft_outcome_recorded'', ''voice'', 1),
     (''mirror.conflict'', ''overlay'', 1), (''mirror.budget_degraded'', ''overlay'', 1),
     (''mirror.write_rejected'', ''overlay'', 1), (''mirror.deleted'', ''overlay'', 1),
     (''incumbent.connected'', ''overlay'', 1), (''incumbent.disconnected'', ''overlay'', 1),
     (''ai_task.state_changed'', ''aitask'', 1)]"

definition pipeline_event_types :: "string list" where
  "pipeline_event_types =
    [''capture.received'', ''capture.normalized'', ''capture.failed'', ''capture.skipped'', ''ai_task.state_changed'']"

definition is_pipeline_event :: "string \<Rightarrow> bool" where
  "is_pipeline_event t \<longleftrightarrow> t \<in> set pipeline_event_types"

definition event_types :: "string list" where
  "event_types = sort (map fst catalog)"

definition stream_for :: "string \<Rightarrow> string result" where
  "stream_for t =
     (case map_of catalog t of
        Some (stream, _) \<Rightarrow> Inr (stream_prefix @ stream)
      | None \<Rightarrow>
          if is_extension_type t then Inr extension_stream
          else Inl (ErrOther ''events: neither a catalog type nor an extension type''))"

definition version_of :: "string \<Rightarrow> int" where
  "version_of t =
     (case map_of catalog t of
        Some (_, version) \<Rightarrow> version
      | None \<Rightarrow> if is_extension_type t then extension_event_version else 0)"

text \<open>\<open>strings.Cut\<close> at the first dot.\<close>

definition split_type :: "string \<Rightarrow> (string \<times> string) result" where
  "split_type t =
     (let entity = takeWhile (\<lambda>c. c \<noteq> CHR ''.'') t; rest = dropWhile (\<lambda>c. c \<noteq> CHR ''.'') t in
      if rest = [] \<or> entity = [] \<or> tl rest = [] then Inl (ErrOther ''events: not <entity>.<verb>'')
      else Inr (entity, tl rest))"

section \<open>Envelopes\<close>

record 'p envelope =
  ev_event_id :: uuid
  ev_type :: string
  ev_version :: int
  ev_occurred_at :: "time option"
  ev_actor_type :: string
  ev_actor_id :: string
  ev_passport_id :: "uuid option"
  ev_on_behalf_of :: "uuid option"
  ev_entity_type :: string
  ev_entity_id :: uuid
  ev_payload :: 'p
  ev_correlation_id :: uuid
  ev_causation_id :: "uuid option"
  ev_audit_log_id :: uuid

definition actor_types :: "string list" where
  "actor_types = [''human'', ''agent'', ''connector'', ''system'', ''buyer'']"

definition validate_envelope :: "'p envelope \<Rightarrow> unit result" where
  "validate_envelope e =
     (if is_zero (ev_event_id e) then Inl (ErrOther ''events: envelope has no event_id'')
      else bindR (stream_for (ev_type e)) (\<lambda>_.
        if ev_version e \<noteq> version_of (ev_type e) then Inl (ErrOther ''events: envelope at another version'')
        else if ev_occurred_at e = None then Inl (ErrOther ''events: envelope has no occurred_at'')
        else if ev_actor_type e \<notin> set actor_types then Inl (ErrOther ''events: envelope has unknown actor type'')
        else if ev_actor_id e = [] then Inl (ErrOther ''events: envelope has no actor'')
        else bindR
          (if ev_entity_type e \<noteq> [] \<or> \<not> is_zero (ev_entity_id e)
           then if ev_entity_type e = [] \<or> is_zero (ev_entity_id e)
                then Inl (ErrOther ''events: envelope has a partially populated entity ref'') else Inr ()
           else if \<not> is_pipeline_event (ev_type e) then Inl (ErrOther ''events: envelope has no entity ref'')
           else Inr ()) (\<lambda>_.
          if is_zero (ev_correlation_id e) \<or> is_zero (ev_audit_log_id e)
          then Inl (ErrOther ''events: envelope has an incomplete trace'')
          else Inr ())))"

section \<open>Consumer groups\<close>

record group =
  g_name :: string
  g_streams :: "string list"

definition for_entities :: "string list \<Rightarrow> string list" where
  "for_entities entities = sort (map (\<lambda>e. stream_prefix @ e) entities)"

definition groups :: "group list" where
  "groups =
    [\<lparr>g_name = ''cg:context-graph'', g_streams = for_entities [''person'', ''organization'', ''deal'', ''activity'', ''lead'']\<rparr>,
     \<lparr>g_name = ''cg:graph-edge'', g_streams = for_entities [''activity'', ''person'']\<rparr>,
     \<lparr>g_name = ''cg:audience-rescope'', g_streams = for_entities [''activity'']\<rparr>,
     \<lparr>g_name = ''cg:linkedin-match'', g_streams = for_entities [''person'', ''organization'']\<rparr>,
     \<lparr>g_name = ''cg:commissions'', g_streams = for_entities [''deal'']\<rparr>,
     \<lparr>g_name = ''cg:ai-activity'', g_streams = for_entities [''aitask'']\<rparr>,
     \<lparr>g_name = ''cg:person-auto-enrich'', g_streams = for_entities [''person'']\<rparr>,
     \<lparr>g_name = ''cg:person-data'', g_streams = for_entities [''person'']\<rparr>,
     \<lparr>g_name = ''cg:overnight-agent'', g_streams = for_entities [''activity'', ''deal'', ''lead'', ''approval'']\<rparr>,
     \<lparr>g_name = ''cg:workflows'', g_streams = core_streams\<rparr>,
     \<lparr>g_name = ''cg:capture'', g_streams = for_entities [''capture'']\<rparr>,
     \<lparr>g_name = ''cg:flow-bridge'', g_streams = for_entities [''person'', ''deal'', ''activity'']\<rparr>,
     \<lparr>g_name = ''cg:read-model'', g_streams = core_streams\<rparr>,
     \<lparr>g_name = ''cg:audit-stream'', g_streams = core_streams\<rparr>,
     \<lparr>g_name = ''cg:webhooks'', g_streams = core_streams\<rparr>]"

section \<open>Lemmas\<close>

lemma catalog_streams: "list_all (\<lambda>(t, stream, version). version = 1
     \<and> stream \<in> set (ai_task_stream_entity # stream_entities)) catalog"
  by (simp add: catalog_def ai_task_stream_entity_def stream_entities_def)

lemma catalog_core: "list_all (\<lambda>(t, _). \<not> is_extension_type t) catalog"
  by (simp add: catalog_def is_extension_type_def)

lemma catalog_split: "list_all (\<lambda>(t, _). \<not> isl (split_type t)) catalog"
  by (simp add: catalog_def split_type_def)

lemma for_entities_set [simp]: "set (for_entities es) = (\<lambda>e. stream_prefix @ e) ` set es"
  by (simp add: for_entities_def)

lemma streams_set:
  "set core_streams = (\<lambda>e. stream_prefix @ e) ` set stream_entities"
  "set streams = insert extension_stream (insert (stream_prefix @ ai_task_stream_entity) (set core_streams))"
  by (auto simp: core_streams_def streams_def extension_stream_def)

text \<open>Every core stream and the projection feed have a reader; the extension stream has none.\<close>

definition read_set :: "string set" where
  "read_set = insert (stream_prefix @ ai_task_stream_entity) (set core_streams)"

lemma streams_read: "set streams = insert extension_stream read_set"
  by (simp add: streams_set read_set_def)

lemma for_entities_core:
  "set es \<subseteq> set stream_entities \<Longrightarrow> set (for_entities es) \<subseteq> read_set"
  by (auto simp: read_set_def streams_set)

lemma groups_read: "list_all (\<lambda>g. set (g_streams g) \<subseteq> read_set) groups"
proof -
  have core: "set core_streams \<subseteq> read_set" and feed: "set (for_entities [''aitask'']) \<subseteq> read_set"
    by (auto simp: read_set_def ai_task_stream_entity_def)
  show ?thesis
    by (simp only: groups_def list.pred_inject group.simps core feed simp_thms)
      (intro conjI; rule for_entities_core; simp add: stream_entities_def)
qed

lemma read_streams: "(\<exists>g \<in> set groups. s \<in> set (g_streams g)) \<longleftrightarrow> s \<in> read_set"
proof
  show "\<exists>g \<in> set groups. s \<in> set (g_streams g) \<Longrightarrow> s \<in> read_set"
    using groups_read by (auto simp: list_all_iff)
  have "\<lparr>g_name = ''cg:workflows'', g_streams = core_streams\<rparr> \<in> set groups"
    "\<lparr>g_name = ''cg:ai-activity'', g_streams = for_entities [''aitask'']\<rparr> \<in> set groups"
    by (simp_all add: groups_def)
  then show "\<exists>g \<in> set groups. s \<in> set (g_streams g)" if "s \<in> read_set"
    using that by (force simp: read_set_def ai_task_stream_entity_def)
qed

lemma extension_stream_unread: "extension_stream \<notin> read_set"
  by (simp add: read_set_def extension_stream_def extension_stream_entity_def ai_task_stream_entity_def streams_set
      stream_entities_def)

text \<open>The grammar as it is written: segments, and what the reader accepts.\<close>

definition segment :: "string \<Rightarrow> bool" where
  "segment s \<longleftrightarrow> s \<noteq> [] \<and> list_all lower_digit s"

lemma lower_digit_simps [simp]: "\<not> lower_digit (CHR ''.'')" "\<not> lower_digit (CHR ''_'')"
  by (simp_all add: lower_digit_def)

lemma join_Cons: "xs \<noteq> [] \<Longrightarrow> join sep (x # xs) = x @ sep @ join sep xs"
  by (cases xs) simp_all

lemma namespace_ok_start: "namespace_ok True (c # cs) \<longleftrightarrow> lower_digit c \<and> namespace_ok False cs"
  by simp

lemma namespace_ok_eat: "list_all lower_digit pre \<Longrightarrow> namespace_ok False (pre @ s) = namespace_ok False s"
  by (induction pre) auto

lemma namespace_ok_complete:
  "list_all lower_digit pre \<Longrightarrow> list_all segment segs \<Longrightarrow> verb_ok verb \<Longrightarrow>
     namespace_ok False (join ''_'' (pre # segs) @ ''.'' @ verb)"
proof (induction segs arbitrary: pre)
  case (Cons g segs)
  obtain d ds where g: "g = d # ds" "lower_digit d" "list_all lower_digit ds"
    using Cons.prems(2) by (cases g) (auto simp: segment_def)
  have rest: "namespace_ok False (join ''_'' (ds # segs) @ ''.'' @ verb)"
    by (rule Cons.IH) (use g(3) Cons.prems in simp_all)
  have "join ''_'' (g # segs) = d # join ''_'' (ds # segs)" using g(1) by (cases segs) simp_all
  then show ?case using rest g(2) Cons.prems(1) by (simp add: namespace_ok_eat)
qed (simp add: namespace_ok_eat)

text \<open>Inside a segment whose start was read: the rest of it, more segments, the verb.\<close>

lemma namespace_ok_parts:
  "namespace_ok False s \<Longrightarrow>
     \<exists>pre segs verb. list_all lower_digit pre \<and> list_all segment segs \<and> verb_ok verb
       \<and> s = join ''_'' (pre # segs) @ ''.'' @ verb"
proof (induction s rule: length_induct)
  case (1 s)
  note ih = 1(1) [rule_format]
  obtain c cs where s: "s = c # cs" using 1(2) by (cases s) auto
  show ?case
  proof (cases "lower_digit c")
    case True
    then have "namespace_ok False cs" using 1(2) s by simp
    then obtain pre segs verb where p: "list_all lower_digit pre" "list_all segment segs" "verb_ok verb"
      "cs = join ''_'' (pre # segs) @ ''.'' @ verb" using ih [of cs] s by auto
    have "s = join ''_'' ((c # pre) # segs) @ ''.'' @ verb" using p(4) s by (cases segs) simp_all
    then show ?thesis using p True by (intro exI [of _ "c # pre"] exI [of _ segs] exI [of _ verb]) simp
  next
    case False
    show ?thesis
    proof (cases "c = CHR ''_''")
      case True
      then have "namespace_ok True cs" using 1(2) s by simp
      then obtain d ds where d: "cs = d # ds" "lower_digit d" "namespace_ok False ds"
        by (cases cs) (auto split: if_splits)
      then obtain pre segs verb where p: "list_all lower_digit pre" "list_all segment segs" "verb_ok verb"
        "ds = join ''_'' (pre # segs) @ ''.'' @ verb" using ih [of ds] s d(1) by auto
      have "s = join ''_'' ([] # (d # pre) # segs) @ ''.'' @ verb"
        using p(4) d(1) s True by (cases segs) simp_all
      moreover have "list_all segment ((d # pre) # segs)" using p d(2) by (simp add: segment_def)
      ultimately show ?thesis
        using p(3) by (intro exI [of _ "[]"] exI [of _ "(d # pre) # segs"] exI [of _ verb]) simp
    next
      case other: False
      then have "s = join ''_'' [[]] @ ''.'' @ cs" "verb_ok cs" using 1(2) s False by simp_all
      then show ?thesis by (intro exI [of _ "[]"] exI [of _ "[]"] exI [of _ cs]) simp
    qed
  qed
qed

lemma extension_type_iff:
  "is_extension_type t \<longleftrightarrow>
     (\<exists>segs verb. segs \<noteq> [] \<and> list_all segment segs \<and> verb_ok verb \<and> t = ''ext_'' @ join ''_'' segs @ ''.'' @ verb)"
proof
  assume "is_extension_type t"
  then obtain rest where r: "t = ''ext_'' @ rest" "namespace_ok True rest"
    by (auto simp: is_extension_type_def cut_prefix_Some_iff)
  then obtain c cs where c: "rest = c # cs" "lower_digit c" "namespace_ok False cs"
    by (cases rest) (auto split: if_splits)
  then obtain pre segs verb where p: "list_all lower_digit pre" "list_all segment segs" "verb_ok verb"
    "cs = join ''_'' (pre # segs) @ ''.'' @ verb" using namespace_ok_parts by blast
  then have "rest = join ''_'' ((c # pre) # segs) @ ''.'' @ verb" using c(1) by (cases segs) simp_all
  moreover have "list_all segment ((c # pre) # segs)" using p c(2) by (simp add: segment_def)
  ultimately show "\<exists>segs verb. segs \<noteq> [] \<and> list_all segment segs \<and> verb_ok verb
      \<and> t = ''ext_'' @ join ''_'' segs @ ''.'' @ verb" using p(3) r(1) by blast
next
  assume "\<exists>segs verb. segs \<noteq> [] \<and> list_all segment segs \<and> verb_ok verb
      \<and> t = ''ext_'' @ join ''_'' segs @ ''.'' @ verb"
  then obtain all verb where a: "all \<noteq> []" "list_all segment all" "verb_ok verb"
    "t = ''ext_'' @ join ''_'' all @ ''.'' @ verb" by blast
  then obtain g segs where all: "all = g # segs" by (cases all) auto
  obtain c cs where g: "g = c # cs" "lower_digit c" "list_all lower_digit cs"
    using a(2) all by (cases g) (auto simp: segment_def)
  have "join ''_'' all = c # join ''_'' (cs # segs)" using g(1) all by (cases segs) simp_all
  moreover have "namespace_ok False (join ''_'' (cs # segs) @ ''.'' @ verb)"
    by (rule namespace_ok_complete) (use g(3) a all in simp_all)
  ultimately show "is_extension_type t"
    using a(4) g(2) by (simp add: is_extension_type_def)
qed

section \<open>Properties\<close>

lemma stream_for_core:
  "map_of catalog t = Some (e, v) \<Longrightarrow>
     \<not> is_extension_type t \<and> v = 1 \<and> stream_prefix @ e \<in> read_set"
  using catalog_streams catalog_core
  by (auto simp: list_all_iff read_set_def streams_set dest!: map_of_SomeD)

lemma every_event_has_one_home_facts:
  "(\<exists>s. stream_for t = Inr s) = (t \<in> fst ` set catalog \<or> is_extension_type t)
   \<and> \<not> (t \<in> fst ` set catalog \<and> is_extension_type t)
   \<and> (stream_for t = Inr s \<longrightarrow> s \<in> set streams \<and> version_of t = 1
        \<and> ((\<exists>g \<in> set groups. s \<in> set (g_streams g)) = (t \<in> fst ` set catalog))
        \<and> ((s = extension_stream) = is_extension_type t))"
proof (cases "map_of catalog t")
  case None
  then have "t \<notin> fst ` set catalog" by (simp add: map_of_eq_None_iff)
  then show ?thesis
    using extension_stream_unread unfolding stream_for_def version_of_def None
    by (simp add: read_streams streams_read extension_event_version_def)
next
  case (Some ev)
  obtain e v where ev: "ev = (e, v)" by force
  note core = stream_for_core [OF Some [unfolded ev]]
  have "t \<in> fst ` set catalog" using Some by (metis map_of_eq_None_iff option.distinct(1))
  moreover have "stream_prefix @ e \<noteq> extension_stream" using core extension_stream_unread by metis
  ultimately show ?thesis
    using core unfolding stream_for_def version_of_def Some ev by (auto simp: read_streams streams_read)
qed

text \<open>
  Every event an envelope may name has one home. A type is routed exactly when it is in the catalog or
  follows the extension grammar, never both; its stream is one the operators' enumeration lists and it
  has a version of at least one; a catalog type's stream is read by some consumer group, while no core
  group reads the extension stream; and a type the bus routes is always an entity, a dot and a verb.
\<close>

theorem every_event_has_one_home:
  "(\<exists>s. stream_for t = Inr s) = (t \<in> fst ` set catalog \<or> is_extension_type t)
   \<and> \<not> (t \<in> fst ` set catalog \<and> is_extension_type t)
   \<and> (stream_for t = Inr s \<longrightarrow> s \<in> set streams \<and> version_of t = 1
        \<and> ((\<exists>g \<in> set groups. s \<in> set (g_streams g)) = (t \<in> fst ` set catalog))
        \<and> ((s = extension_stream) = is_extension_type t))"
  by (rule every_event_has_one_home_facts)

theorem every_event_has_one_home_witness:
  "stream_for ''approval.decided'' = Inr ''gw:events:crm:approval'' \<and> version_of ''approval.decided'' = 1"
proof -
  have st: "stream_for ''approval.decided'' = Inr ''gw:events:crm:approval''"
    by (simp add: stream_for_def catalog_def stream_prefix_def)
  then show ?thesis
    using every_event_has_one_home [THEN conjunct2, THEN conjunct2, THEN mp, OF st] by blast
qed

text \<open>
  The gate both ends of the bus share accepts exactly the complete envelopes: an id, a routable type
  at its current version, a time, one of the five actor kinds and a named actor, both halves of the trace,
  and a subject named in full, which only an event of the capture pipeline or of the task feed may omit.
  What it accepts can be routed.
\<close>

theorem envelope_accepted_exactly:
  "(validate_envelope e = Inr ()) =
     (\<not> is_zero (ev_event_id e) \<and> (ev_type e \<in> fst ` set catalog \<or> is_extension_type (ev_type e))
      \<and> ev_version e = 1 \<and> ev_occurred_at e \<noteq> None
      \<and> ev_actor_type e \<in> {''human'', ''agent'', ''connector'', ''system'', ''buyer''} \<and> ev_actor_id e \<noteq> []
      \<and> ((ev_entity_type e = []) = is_zero (ev_entity_id e))
      \<and> (if ev_entity_type e = [] then ev_type e \<in> {''capture.received'', ''capture.normalized'', ''capture.failed'',
           ''capture.skipped'', ''ai_task.state_changed''} else True)
      \<and> \<not> is_zero (ev_correlation_id e) \<and> \<not> is_zero (ev_audit_log_id e))"
proof -
  have v: "version_of (ev_type e) = 1" if "stream_for (ev_type e) = Inr s" for s
    using every_event_has_one_home_facts [of "ev_type e" s] that by blast
  have routed: "(\<exists>s. stream_for (ev_type e) = Inr s) = (ev_type e \<in> fst ` set catalog \<or> is_extension_type (ev_type e))"
    using every_event_has_one_home_facts by blast
  show ?thesis
  proof (cases "stream_for (ev_type e)")
    case (Inl err)
    then have "\<not> (ev_type e \<in> fst ` set catalog \<or> is_extension_type (ev_type e))" using routed by auto
    then show ?thesis using Inl by (auto simp: validate_envelope_def)
  next
    case (Inr s)
    then have "ev_type e \<in> fst ` set catalog \<or> is_extension_type (ev_type e)" using routed by auto
    then show ?thesis using Inr v [OF Inr]
      by (simp add: validate_envelope_def actor_types_def is_pipeline_event_def pipeline_event_types_def)
  qed
qed

end
