(* ===== verification/Approval_Authority.thy ===== *)
theory Approval_Authority
  imports Inherited_Scope Approval_Rows Event_Catalog
begin

text \<open>
  Who may see and decide a staged approval: \<open>decidable\<close> of
  \<^verbatim>\<open>backend/internal/modules/approvals/authority.go\<close>, its target half
  (\<^verbatim>\<open>targetvisibility.go\<close>) and its second-record half
  (\<^verbatim>\<open>payloadreference.go\<close>), over the state the engine reads and writes.
\<close>

section \<open>State\<close>

record offer_row =
  of_id :: uuid
  of_deal_id :: uuid
  of_archived_at :: "time option"

record saved_view_row =
  sv_id :: uuid
  sv_owner_id :: "uuid option"
  sv_archived_at :: "time option"

record config_row =
  cf_id :: uuid
  cf_archived_at :: "time option"

text \<open>
  One audit row and one outbox envelope. An envelope names its audit row by that row's position in
  the append-only log. \<open>'q\<close> is the state of the volume meter's store.
\<close>

record audit_row =
  au_actor_type :: principal_type
  au_actor_id :: string
  au_passport_id :: "uuid option"
  au_on_behalf_of :: "uuid option"
  au_action :: string
  au_entity_id :: uuid
  au_evidence :: "(string \<times> json) list"

datatype payload =
    ApprovalRequested string string string "uuid option" time
  | ApprovalDecided string status "uuid option" "(string \<times> json) option"
  | ColdstartDecided uuid uuid bool
  | Announced string

text \<open>\<open>EventType\<close>, as the generated payload types answer it.\<close>

fun event_type_of :: "payload \<Rightarrow> string" where
  "event_type_of (ApprovalRequested kind summary target_type target_id expires) = ''approval.requested''"
| "event_type_of (ApprovalDecided kind st user edit) = ''approval.decided''"
| "event_type_of (ColdstartDecided approval user accepted) =
     (if accepted then ''coldstart.accepted'' else ''coldstart.rejected'')"
| "event_type_of (Announced event) = event"

record outbox_row =
  ob_audit :: nat
  ob_stream :: string
  ob_envelope :: "payload envelope"

abbreviation ob_entity_id :: "outbox_row \<Rightarrow> uuid" where "ob_entity_id r \<equiv> ev_entity_id (ob_envelope r)"
abbreviation ob_payload :: "outbox_row \<Rightarrow> payload" where "ob_payload r \<equiv> ev_payload (ob_envelope r)"

record 'q world =
  w_db :: act_db
  w_offers :: "offer_row list"
  w_views :: "saved_view_row list"
  w_config :: "string \<Rightarrow> config_row list"
  w_versions :: "string \<Rightarrow> uuid \<Rightarrow> int option"
  w_approvals :: "approval list"
  w_audit :: "audit_row list"
  w_outbox :: "outbox_row list"
  w_quota :: 'q

definition w_now :: "'q world \<Rightarrow> time" where
  "w_now w = db_now (w_db w)"

section \<open>Target classification\<close>

datatype target_probe =
  ProbeNoRule | ProbeOwnScope | ProbeInheritedScope | ProbeExistence | ProbeOwnerOnly | ProbeActingWorkspace

text \<open>The existence-probed types, and whether the query requires a live row.\<close>

definition existence_probes :: "(string \<times> bool) list" where
  "existence_probes = [(''product'', True), (''tag'', True), (''offer_template'', True),
     (''webhook_subscription'', True), (''custom_field'', False), (''import_run'', False)]"

definition target_probes :: "(string \<times> target_probe) list" where
  "target_probes = map (\<lambda>(t, _). (t, ProbeExistence)) existence_probes @
     [(''person'', ProbeOwnScope), (''organization'', ProbeOwnScope), (''deal'', ProbeOwnScope),
      (''lead'', ProbeOwnScope), (''project'', ProbeOwnScope), (''list'', ProbeOwnScope),
      (''offer'', ProbeInheritedScope), (''signal'', ProbeInheritedScope),
      (''activity'', ProbeInheritedScope), (''relationship'', ProbeInheritedScope),
      (''saved_view'', ProbeOwnerOnly), (''fx_rate'', ProbeActingWorkspace),
      (''ai_model_rate'', ProbeActingWorkspace)]"

definition probe_for :: "string \<Rightarrow> target_probe" where
  "probe_for t = (case map_of target_probes t of None \<Rightarrow> ProbeNoRule | Some p \<Rightarrow> p)"

definition classified_target_types :: "string set" where
  "classified_target_types = set (map fst target_probes)"

definition settled_by_shape :: "bool \<Rightarrow> bool \<Rightarrow> bool \<times> bool" where
  "settled_by_shape has_type has_id =
     (if \<not> has_id then (True, True) else if \<not> has_type then (True, False) else (False, False))"

definition staged_for_stager_only :: "string option \<Rightarrow> bool \<Rightarrow> bool" where
  "staged_for_stager_only target_type has_id \<longleftrightarrow>
     (case target_type of None \<Rightarrow> False | Some t \<Rightarrow> \<not> has_id \<and> probe_for t = ProbeOwnerOnly)"

definition target_shape_decidable :: "string \<Rightarrow> bool \<Rightarrow> bool" where
  "target_shape_decidable t has_id =
     (case settled_by_shape True has_id of (settled, visible) \<Rightarrow>
        if settled then visible else probe_for t \<noteq> ProbeNoRule)"

section \<open>Row probes\<close>

datatype target_authority = ForReading | ForDeciding

definition object_readable :: "ctx \<Rightarrow> string \<Rightarrow> bool result" where
  "object_readable c obj =
     (case require c obj ActionRead of
        Inr _ \<Rightarrow> Inr True
      | Inl e \<Rightarrow> if e = ErrPermissionDenied then Inr False else Inl e)"

definition probe_answer :: "unit result \<Rightarrow> bool result" where
  "probe_answer r =
     (case r of
        Inr _ \<Rightarrow> Inr True
      | Inl e \<Rightarrow> if e = ErrNotFound \<or> e = ErrPermissionDenied then Inr False else Inl e)"

definition ensure_scoped :: "ctx \<Rightarrow> 'q world \<Rightarrow> string \<Rightarrow> uuid \<Rightarrow> target_authority \<Rightarrow> bool result" where
  "ensure_scoped c w t i want =
     probe_answer (case want of
        ForDeciding \<Rightarrow> ensure_writable_live c (sdb (w_db w)) t i
      | ForReading \<Rightarrow> ensure_visible_live c (sdb (w_db w)) t i)"

definition target_visible_through_parent ::
  "ctx \<Rightarrow> 'q world \<Rightarrow> string \<Rightarrow> uuid \<Rightarrow> target_authority \<Rightarrow> bool result" where
  "target_visible_through_parent c w t i want =
     (if t = ''offer'' then
        (case find (\<lambda>r. of_id r = i \<and> of_archived_at r = None) (w_offers w) of
           None \<Rightarrow> Inr False
         | Some r \<Rightarrow> ensure_scoped c w ''deal'' (of_deal_id r) want)
      else if t = ''signal'' then probe_answer (ensure_signal_visible_live c (w_db w) i)
      else if t = ''activity'' then probe_answer (ensure_activity_content_visible_live c (w_db w) i)
      else if t = ''relationship'' then probe_answer (ensure_relationship_visible c (w_db w) i)
      else Inl (ErrOther ''crmapprovals: inherited-scope with no parent probe''))"

definition target_exists :: "'q world \<Rightarrow> string \<Rightarrow> uuid \<Rightarrow> bool result" where
  "target_exists w t i =
     (case map_of existence_probes t of
        None \<Rightarrow> Inl (ErrOther ''crmapprovals: existence-probed with no existence query'')
      | Some live \<Rightarrow> Inr (list_ex (\<lambda>r. cf_id r = i \<and> (live \<longrightarrow> cf_archived_at r = None)) (w_config w t)))"

definition target_owned_by_actor :: "ctx \<Rightarrow> 'q world \<Rightarrow> string \<Rightarrow> uuid \<Rightarrow> bool result" where
  "target_owned_by_actor c w t i =
     (if t \<noteq> ''saved_view'' then Inl (ErrOther ''crmapprovals: owner-only with no ownership query'')
      else case ctx_actor c of
        None \<Rightarrow> Inl (ErrOther ''crmapprovals: no actor bound to context'')
      | Some p \<Rightarrow>
          if p_user_id p = nil_uuid then Inr False
          else Inr (list_ex (\<lambda>r. sv_id r = i \<and> sv_owner_id r = Some (p_user_id p)
                     \<and> sv_archived_at r = None) (w_views w)))"

definition target_permitted ::
  "ctx \<Rightarrow> 'q world \<Rightarrow> string option \<Rightarrow> uuid option \<Rightarrow> target_authority \<Rightarrow> bool result" where
  "target_permitted c w target_type target_id want =
     (case settled_by_shape (target_type \<noteq> None) (target_id \<noteq> None) of (settled, visible) \<Rightarrow>
        (case target_type of
           None \<Rightarrow> Inr visible
         | Some t \<Rightarrow>
             bindR (object_readable c t) (\<lambda>readable.
               if \<not> readable then Inr False
               else case target_id of
                 None \<Rightarrow> Inr visible
               | Some i \<Rightarrow>
                   (case probe_for t of
                      ProbeOwnScope \<Rightarrow> ensure_scoped c w t i want
                    | ProbeInheritedScope \<Rightarrow> target_visible_through_parent c w t i want
                    | ProbeExistence \<Rightarrow> target_exists w t i
                    | ProbeOwnerOnly \<Rightarrow> target_owned_by_actor c w t i
                    | ProbeActingWorkspace \<Rightarrow> Inr (ctx_workspace c = Some i)
                    | ProbeNoRule \<Rightarrow> Inr False))))"

definition target_visible :: "ctx \<Rightarrow> 'q world \<Rightarrow> string option \<Rightarrow> uuid option \<Rightarrow> bool result" where
  "target_visible c w target_type target_id = target_permitted c w target_type target_id ForReading"

definition target_decidable :: "ctx \<Rightarrow> 'q world \<Rightarrow> string option \<Rightarrow> uuid option \<Rightarrow> bool result" where
  "target_decidable c w target_type target_id = target_permitted c w target_type target_id ForDeciding"

section \<open>The second record a payload names\<close>

definition payload_references :: "(string \<times> (string \<times> string)) list" where
  "payload_references = [(kind_project_attribution, (''project_id'', ''project''))]"

text \<open>An identifier member of a payload: not an object, absent, malformed or zero names no record.\<close>

definition referenced_id :: "json \<Rightarrow> string \<Rightarrow> uuid option" where
  "referenced_id payload field =
     (case payload of
        JObj kvs \<Rightarrow>
          (case obj_get kvs field of
             Some (JStr s) \<Rightarrow>
               (case parse_uuid s of Some i \<Rightarrow> if is_zero i then None else Some i | None \<Rightarrow> None)
           | _ \<Rightarrow> None)
      | _ \<Rightarrow> None)"

definition payload_reference_visible :: "ctx \<Rightarrow> 'q world \<Rightarrow> approval \<Rightarrow> bool result" where
  "payload_reference_visible c w a =
     (case map_of payload_references (ap_kind a) of
        None \<Rightarrow> Inr True
      | Some (field, entity_type) \<Rightarrow>
          (case referenced_id (ap_proposed_change a) field of
             None \<Rightarrow> Inr False
           | Some i \<Rightarrow> target_visible c w (Some entity_type) (Some i)))"

section \<open>The predicate\<close>

definition stager_only :: "approval \<Rightarrow> bool" where
  "stager_only a \<longleftrightarrow> ap_kind a \<in> set self_only_kinds
     \<or> staged_for_stager_only (ap_target_type a) (ap_target_id a \<noteq> None)"

definition decidable :: "ctx \<Rightarrow> 'q world \<Rightarrow> principal \<Rightarrow> approval \<Rightarrow> bool result" where
  "decidable c w p a =
     (if require_decision_grants p a \<noteq> Inr () then Inr False
      else if stager_only a \<and> (ap_on_behalf_of a = None \<or> p_user_id p = nil_uuid
              \<or> ap_on_behalf_of a \<noteq> Some (p_user_id p)) then Inr False
      else
        bindR (target_decidable c w (ap_target_type a) (ap_target_id a)) (\<lambda>ok.
          if \<not> ok then Inr False else payload_reference_visible c w a))"

section \<open>Lemmas\<close>

lemma ensure_writable_live_visible:
  "ensure_writable_live c db t i = Inr () \<Longrightarrow> ensure_visible_live c db t i = Inr ()"
  by (simp add: ensure_writable_live_def)

lemma probe_answer_simps [simp]:
  "probe_answer (Inr u) = Inr True" "probe_answer (Inl ErrNotFound) = Inr False"
  "probe_answer (Inl ErrPermissionDenied) = Inr False"
  "probe_answer r = Inr True \<longleftrightarrow> r = Inr ()"
  by (auto simp: probe_answer_def split: sum.splits)

lemma ensure_scoped_True:
  "ensure_scoped c w t i ForReading = Inr True \<longleftrightarrow> ensure_visible_live c (sdb (w_db w)) t i = Inr ()"
  "ensure_scoped c w t i ForDeciding = Inr True \<longleftrightarrow> ensure_writable_live c (sdb (w_db w)) t i = Inr ()"
  by (simp_all add: ensure_scoped_def)

lemma object_readable_True: "object_readable c t = Inr True \<longleftrightarrow> require c t ActionRead = Inr ()"
  by (auto simp: object_readable_def split: sum.splits)

text \<open>The classification covers what the dispatch can answer: the loud branches are unreachable.\<close>

lemma target_probes_facts:
  "list_all (\<lambda>(t, p).
     (p = ProbeInheritedScope \<longrightarrow> t \<in> {''offer'', ''signal'', ''activity'', ''relationship''})
     \<and> (p = ProbeExistence \<longrightarrow> t \<in> set (map fst existence_probes))
     \<and> (p = ProbeOwnerOnly \<longrightarrow> t = ''saved_view'')
     \<and> (p = ProbeOwnScope \<longrightarrow> t \<in> {''person'', ''organization'', ''deal'', ''lead'', ''project'', ''list''})
     \<and> p \<noteq> ProbeNoRule) target_probes"
  by code_simp

lemma probe_for_values:
  "list_all (\<lambda>t. probe_for t = ProbeInheritedScope) [''offer'', ''signal'', ''activity'', ''relationship'']"
  "list_all (\<lambda>(t, _). probe_for t = ProbeExistence) existence_probes"
  "list_all (\<lambda>t. probe_for t = ProbeOwnScope)
     [''person'', ''organization'', ''deal'', ''lead'', ''project'', ''list'']"
  "probe_for ''saved_view'' = ProbeOwnerOnly"
  by code_simp+

lemma probe_for_row: "probe_for t \<noteq> ProbeNoRule \<Longrightarrow> (t, probe_for t) \<in> set target_probes"
  by (auto simp: probe_for_def dest: map_of_SomeD split: option.splits)

lemma probe_for_cases:
  "probe_for t = ProbeInheritedScope \<longleftrightarrow> t \<in> {''offer'', ''signal'', ''activity'', ''relationship''}"
  "probe_for t = ProbeExistence \<longleftrightarrow> map_of existence_probes t \<noteq> None"
  "probe_for t = ProbeOwnerOnly \<longleftrightarrow> t = ''saved_view''"
  "probe_for t = ProbeOwnScope \<longleftrightarrow> t \<in> {''person'', ''organization'', ''deal'', ''lead'', ''project'', ''list''}"
proof -
  have row: "probe_for t = q \<Longrightarrow> q \<noteq> ProbeNoRule \<Longrightarrow>
     (q = ProbeInheritedScope \<longrightarrow> t \<in> {''offer'', ''signal'', ''activity'', ''relationship''})
     \<and> (q = ProbeExistence \<longrightarrow> t \<in> set (map fst existence_probes))
     \<and> (q = ProbeOwnerOnly \<longrightarrow> t = ''saved_view'')
     \<and> (q = ProbeOwnScope \<longrightarrow> t \<in> {''person'', ''organization'', ''deal'', ''lead'', ''project'', ''list''})" for q
    using probe_for_row [of t] target_probes_facts unfolding list_all_iff by fast
  have vals: "t \<in> set [''offer'', ''signal'', ''activity'', ''relationship''] \<Longrightarrow> probe_for t = ProbeInheritedScope"
    "t \<in> set (map fst existence_probes) \<Longrightarrow> probe_for t = ProbeExistence"
    "t \<in> set [''person'', ''organization'', ''deal'', ''lead'', ''project'', ''list''] \<Longrightarrow>
       probe_for t = ProbeOwnScope"
    "t = ''saved_view'' \<Longrightarrow> probe_for t = ProbeOwnerOnly"
    using probe_for_values unfolding list_all_iff by (blast, auto)
  show "probe_for t = ProbeInheritedScope \<longleftrightarrow> t \<in> {''offer'', ''signal'', ''activity'', ''relationship''}"
    using row [of ProbeInheritedScope] vals(1) by (metis list.set target_probe.distinct)
  show "probe_for t = ProbeExistence \<longleftrightarrow> map_of existence_probes t \<noteq> None"
    using row [of ProbeExistence] vals(2) unfolding map_of_eq_None_iff set_map by blast
  show "probe_for t = ProbeOwnerOnly \<longleftrightarrow> t = ''saved_view''"
    using row [of ProbeOwnerOnly] vals(4) by blast
  show "probe_for t = ProbeOwnScope \<longleftrightarrow> t \<in> {''person'', ''organization'', ''deal'', ''lead'', ''project'', ''list''}"
    using row [of ProbeOwnScope] vals(3) by (metis list.set target_probe.distinct)
qed

lemma probe_own_scope_tables: "probe_for t = ProbeOwnScope \<Longrightarrow> t \<in> set owner_scoped_tables"
  by (auto simp: probe_for_cases model_defs)

lemma ensure_scoped_answers:
  assumes "ctx_actor c = Some p" "t \<in> set owner_scoped_tables"
  shows "ensure_scoped c w t i want \<in> {Inr True, Inr False}"
proof -
  have v: "ensure_visible_live c db t i \<in> {Inr (), Inl ErrNotFound}" for db
    using assms by (simp add: ensure_visible_live_def scope_clause_for_def rbac_actor_def guardR_def)
  have wa: "ensure_write_authority c db t i \<in> {Inr (), Inl ErrPermissionDenied}" for db
    using assms by (simp add: ensure_write_authority_def rbac_actor_def guardR_def)
  have "ensure_writable_live c db t i \<in> {Inr (), Inl ErrNotFound, Inl ErrPermissionDenied}" for db
    using v [of db] wa [of db] by (auto simp: ensure_writable_live_def)
  from this [of "sdb (w_db w)"] v [of "sdb (w_db w)"] show ?thesis by (cases want) (auto simp: ensure_scoped_def)
qed

lemma target_permitted_id:
  "target_permitted c w (Some t) (Some i) want = Inr True \<longleftrightarrow> require c t ActionRead = Inr () \<and>
     (case probe_for t of
        ProbeOwnScope \<Rightarrow> ensure_scoped c w t i want = Inr True
      | ProbeInheritedScope \<Rightarrow> target_visible_through_parent c w t i want = Inr True
      | ProbeExistence \<Rightarrow> target_exists w t i = Inr True
      | ProbeOwnerOnly \<Rightarrow> target_owned_by_actor c w t i = Inr True
      | ProbeActingWorkspace \<Rightarrow> ctx_workspace c = Some i
      | ProbeNoRule \<Rightarrow> False)"
  using object_readable_True [of c t]
  by (auto simp: target_permitted_def settled_by_shape_def split: target_probe.splits)

lemma target_permitted_no_id:
  "target_permitted c w (Some t) None want = Inr True \<longleftrightarrow> require c t ActionRead = Inr ()"
  "target_permitted c w None None want = Inr True"
  "target_permitted c w None (Some i) want = Inr False"
  using object_readable_True [of c t]
  by (auto simp: target_permitted_def settled_by_shape_def)

lemma decidable_target_visible:
  assumes "target_decidable c w t i = Inr True"
  shows "target_visible c w t i = Inr True"
proof (cases t; cases i)
  fix t' i' assume ti: "t = Some t'" "i = Some i'"
  have parent: "target_visible_through_parent c w t' i' ForDeciding = Inr True \<Longrightarrow>
      target_visible_through_parent c w t' i' ForReading = Inr True"
    by (auto simp: target_visible_through_parent_def ensure_scoped_True ensure_writable_live_visible
        split: option.splits if_splits)
  show ?thesis
    using assms parent unfolding target_decidable_def target_visible_def ti target_permitted_id
    by (auto simp: ensure_scoped_True ensure_writable_live_visible split: target_probe.splits)
qed (use assms in \<open>auto simp: target_decidable_def target_visible_def target_permitted_no_id\<close>)

lemma decidable_iff:
  "decidable c w p a = Inr True \<longleftrightarrow> require_decision_grants p a = Inr ()
     \<and> (stager_only a \<longrightarrow> p_user_id p \<noteq> nil_uuid \<and> ap_on_behalf_of a = Some (p_user_id p))
     \<and> target_decidable c w (ap_target_type a) (ap_target_id a) = Inr True
     \<and> payload_reference_visible c w a = Inr True"
  by (auto simp: decidable_def split: if_splits)

text \<open>The predicate reads the row's kind, target, stager and payload, never its status or its window.\<close>

lemma decidable_cong:
  assumes "ap_kind b = ap_kind a" "ap_target_type b = ap_target_type a" "ap_target_id b = ap_target_id a"
    "ap_on_behalf_of b = ap_on_behalf_of a" "ap_proposed_change b = ap_proposed_change a"
  shows "decidable c w p b = decidable c w p a"
proof -
  have "require_decision_grants p b = require_decision_grants p a" "stager_only b = stager_only a"
    using assms by (simp_all add: require_decision_grants_def stager_only_def)
  moreover have "payload_reference_visible c w b = payload_reference_visible c w a"
    unfolding payload_reference_visible_def assms(1,5) ..
  ultimately show ?thesis using assms by (simp only: decidable_def)
qed

lemma decidable_world_cong:
  assumes "w_db w' = w_db w" "w_offers w' = w_offers w" "w_views w' = w_views w" "w_config w' = w_config w"
  shows "decidable c w' p a = decidable c w p a"
proof -
  have scoped: "ensure_scoped c w' t i want = ensure_scoped c w t i want" for t i want
    unfolding ensure_scoped_def assms ..
  have "target_visible_through_parent c w' t i want = target_visible_through_parent c w t i want" for t i want
    unfolding target_visible_through_parent_def scoped assms ..
  moreover have "target_exists w' t i = target_exists w t i"
    "target_owned_by_actor c w' t i = target_owned_by_actor c w t i" for t i
    unfolding target_exists_def target_owned_by_actor_def assms by rule+
  ultimately have perm: "target_permitted c w' t i want = target_permitted c w t i want" for t i want
    unfolding target_permitted_def by (simp only: scoped)
  show ?thesis
    unfolding decidable_def target_decidable_def payload_reference_visible_def target_visible_def perm ..
qed

section \<open>Properties\<close>

text \<open>A closed state: the sample records, with nothing staged yet.\<close>

definition sample_world :: "unit world" where
  "sample_world =
     \<lparr>w_db = sample_act_db, w_offers = [], w_views = [], w_config = (\<lambda>_. []),
      w_versions = (\<lambda>t i. if t = ''deal'' \<and> i = 100 then Some 3 else None),
      w_approvals = [], w_audit = [], w_outbox = [], w_quota = ()\<rparr>"

lemma sample_decidable: "decidable (rep_ctx RowScopeOwn) sample_world (rep RowScopeOwn) sample_approval = Inr True"
  by code_simp

lemma decidable_implies_readable_facts:
  assumes "decidable c w p a = Inr True"
  shows "target_visible c w (ap_target_type a) (ap_target_id a) = Inr True"
    and "ap_target_type a = Some t \<Longrightarrow> require c t ActionRead = Inr ()"
    and "map_of payload_references (ap_kind a) = Some (field, t) \<Longrightarrow>
      \<exists>i. referenced_id (ap_proposed_change a) field = Some i \<and> target_visible c w (Some t) (Some i) = Inr True"
proof -
  note d = assms [unfolded decidable_iff]
  show vis: "target_visible c w (ap_target_type a) (ap_target_id a) = Inr True"
    using d decidable_target_visible by blast
  show "ap_target_type a = Some t \<Longrightarrow> require c t ActionRead = Inr ()"
    using vis by (cases "ap_target_id a")
      (auto simp: target_visible_def target_permitted_no_id target_permitted_id)
  show "map_of payload_references (ap_kind a) = Some (field, t) \<Longrightarrow>
      \<exists>i. referenced_id (ap_proposed_change a) field = Some i \<and> target_visible c w (Some t) (Some i) = Inr True"
    using d by (auto simp: payload_reference_visible_def split: option.splits)
qed

text \<open>
  What one may decide one may also read: the authority a decision needs over the staged target is
  never wider than the authority to see it, so a row \<open>decidable\<close> admits has a target the inbox may
  show to the same caller, of a type whose read grant they hold; the second record a payload names is
  readable too.
\<close>

theorem decidable_implies_readable:
  assumes "decidable c w p a = Inr True"
  shows "(target_visible c w (ap_target_type a) (ap_target_id a) = Inr True)
     \<and> (ap_target_type a = Some t \<longrightarrow> require c t ActionRead = Inr ())
     \<and> (map_of payload_references (ap_kind a) = Some (field, t) \<longrightarrow>
         (\<exists>i. referenced_id (ap_proposed_change a) field = Some i \<and> target_visible c w (Some t) (Some i) = Inr True))"
  by (assumption | rule decidable_implies_readable_facts [OF assms] conjI impI)+

theorem decidable_implies_readable_witness:
  "target_visible (rep_ctx RowScopeOwn) sample_world (Some ''deal'') (Some 100) = Inr True"
  using decidable_implies_readable [THEN conjunct1, OF sample_decidable] by (simp add: sample_approval_def)

lemma self_only_is_the_stagers_facts:
  assumes "decidable c w p a = Inr True"
    and "ap_kind a \<in> {kind_linkedin_match, kind_quota_release, kind_scheduled_send_held}
       \<or> (ap_target_type a = Some ''saved_view'' \<and> ap_target_id a = None)"
  shows "ap_on_behalf_of a = Some (p_user_id p)" "p_user_id p \<noteq> nil_uuid"
proof -
  have "stager_only a"
    using assms(2) probe_for_cases(3) [of "''saved_view''"]
    by (auto simp: stager_only_def self_only_kinds_def staged_for_stager_only_def)
  then show "ap_on_behalf_of a = Some (p_user_id p)" "p_user_id p \<noteq> nil_uuid"
    using assms(1) [unfolded decidable_iff] by auto
qed

text \<open>
  A proposal that is one member's own business is decided by that member alone: a self-only kind,
  and a staged create against a table whose rows belong to one person each, is decidable only by the
  user it was staged on behalf of, whatever grants, row scope or record shares anyone else holds; a
  row with no recorded stager is decidable by nobody.
\<close>

theorem self_only_is_the_stagers:
  assumes "decidable c w p a = Inr True"
    and "ap_kind a \<in> {kind_linkedin_match, kind_quota_release, kind_scheduled_send_held}
       \<or> (ap_target_type a = Some ''saved_view'' \<and> ap_target_id a = None)"
  shows "(ap_on_behalf_of a = Some (p_user_id p))
     \<and> (p_user_id p \<noteq> nil_uuid)"
  by (assumption | rule self_only_is_the_stagers_facts [OF assms] conjI impI)+

theorem self_only_is_the_stagers_witness:
  "ap_on_behalf_of (sample_approval\<lparr>ap_kind := kind_quota_release, ap_target_type := None, ap_target_id := None\<rparr>)
     = Some (p_user_id (rep RowScopeOwn))"
proof -
  have "decidable (rep_ctx RowScopeOwn) sample_world (rep RowScopeOwn)
      (sample_approval\<lparr>ap_kind := kind_quota_release, ap_target_type := None, ap_target_id := None\<rparr>) = Inr True"
    by code_simp
  then show ?thesis using self_only_is_the_stagers [THEN conjunct1] by force
qed

lemma target_permitted_total:
  assumes "ctx_actor c = Some p"
  shows "target_permitted c w t i want \<in> {Inr True, Inr False}"
    and "probe_for t' = ProbeNoRule \<Longrightarrow> target_permitted c w (Some t') (Some j) want = Inr False"
proof -
  have readable: "object_readable c x \<in> {Inr True, Inr False}" for x
    using assms by (auto simp: object_readable_def require_def rbac_actor_def refuse_buyer_def guardR_def)
  have guard: "probe_answer (guardR b ErrNotFound) \<in> {Inr True, Inr False}" for b
    by (cases b) auto
  have parent: "target_visible_through_parent c w x j want \<in> {Inr True, Inr False}"
    if "probe_for x = ProbeInheritedScope" for x j
  proof -
    have "ensure_scoped c w ''deal'' d want \<in> {Inr True, Inr False}" for d
      by (rule ensure_scoped_answers [OF assms]) (simp add: model_defs)
    moreover have "probe_answer (ensure_signal_visible_live c (w_db w) j) \<in> {Inr True, Inr False}"
      "probe_answer (ensure_activity_content_visible_live c (w_db w) j) \<in> {Inr True, Inr False}"
      "probe_answer (ensure_relationship_visible c (w_db w) j) \<in> {Inr True, Inr False}"
      using assms guard
      by (auto simp: ensure_signal_visible_live_def signal_scope_clause_def probe_defs
          ensure_relationship_visible_def relationship_endpoint_scope_def)
    ultimately show ?thesis
      using that unfolding probe_for_cases target_visible_through_parent_def
      by (auto split: option.splits)
  qed
  have exists: "target_exists w x j \<in> {Inr True, Inr False}" if "probe_for x = ProbeExistence" for x j
    using that unfolding probe_for_cases by (auto simp: target_exists_def)
  have owned: "target_owned_by_actor c w x j \<in> {Inr True, Inr False}" if "probe_for x = ProbeOwnerOnly" for x j
    using that assms unfolding probe_for_cases by (auto simp: target_owned_by_actor_def)
  have scoped: "ensure_scoped c w x j want \<in> {Inr True, Inr False}" if "probe_for x = ProbeOwnScope" for x j
    using ensure_scoped_answers [OF assms probe_own_scope_tables [OF that]] .
  show "target_permitted c w t i want \<in> {Inr True, Inr False}"
  proof (cases t)
    case (Some x)
    show ?thesis
    proof (cases i)
      case None
      then show ?thesis using readable [of x] Some by (auto simp: target_permitted_def settled_by_shape_def)
    next
      case id: (Some j)
      show ?thesis
        using readable [of x] parent [of x j] exists [of x j] owned [of x j] scoped [of x j]
        by (cases "probe_for x") (auto simp: target_permitted_def settled_by_shape_def Some id)
    qed
  qed (auto simp: target_permitted_def settled_by_shape_def)
  show "probe_for t' = ProbeNoRule \<Longrightarrow> target_permitted c w (Some t') (Some j) want = Inr False"
    using readable [of t'] by (auto simp: target_permitted_def settled_by_shape_def)
qed

lemma decidable_total:
  assumes "ctx_actor c = Some p"
  shows "decidable c w q a \<in> {Inr True, Inr False}"
proof -
  note total = target_permitted_total(1) [OF assms, of w]
  have reference: "payload_reference_visible c w a \<in> {Inr True, Inr False}"
    unfolding payload_reference_visible_def target_visible_def using total
    by (cases "map_of payload_references (ap_kind a)") (simp_all split: prod.split option.split)
  show ?thesis
    unfolding decidable_def target_decidable_def
    using total [of "ap_target_type a" "ap_target_id a" ForDeciding] reference by auto
qed

lemma target_probe_is_total_facts:
  assumes "ctx_actor c = Some p"
  shows "target_permitted c w t i want \<in> {Inr True, Inr False}"
    and "probe_for t' = ProbeNoRule \<Longrightarrow> target_permitted c w (Some t') (Some j) want = Inr False"
  by (rule target_permitted_total [OF assms])+

text \<open>
  The target probe always answers: for a bound actor, every target type (classified or not), every
  shape of the target pair and both authorities give yes or no, never the internal errors of a type
  classified for a probe that has no query for it; and an unclassified type with an id is refused.
\<close>

theorem target_probe_is_total:
  assumes "ctx_actor c = Some p"
  shows "(target_permitted c w t i want \<in> {Inr True, Inr False})
     \<and> (probe_for t' = ProbeNoRule \<longrightarrow> target_permitted c w (Some t') (Some j) want = Inr False)"
  by (assumption | rule target_probe_is_total_facts [OF assms] conjI impI)+

theorem target_probe_is_total_witness:
  "\<forall>t i want. target_permitted (rep_ctx RowScopeOwn) sample_world t i want \<in> {Inr True, Inr False}"
  by (intro allI target_probe_is_total [THEN conjunct1, of "rep_ctx RowScopeOwn" "rep RowScopeOwn"]) simp

end
