(* ===== verification/Approval_Staging.thy ===== *)
theory Approval_Staging
  imports Approval_Authority Edit_Scope Agent_Quota "HOL-Library.Product_Lexorder"
begin

text \<open>
  The engine's service and its write path: \<^verbatim>\<open>service.go\<close> (audit, emit),
  \<^verbatim>\<open>evidence.go\<close>, \<^verbatim>\<open>stageinput.go\<close>,
  \<^verbatim>\<open>staging.go\<close> and \<^verbatim>\<open>stagingidentity.go\<close> of
  \<^verbatim>\<open>backend/internal/modules/approvals\<close>. A transactional function takes the state and
  returns an error (nothing is written) or its answer and the new state. Two clocks appear, as in the
  code: PostgreSQL's transaction time is \<open>w_now\<close>, the process's is the service's \<open>svc_now\<close>.
  A freshly minted id is an argument.
\<close>

section \<open>Errors and transactions\<close>

datatype appr_error =
    App app_error
  | AlreadyDecided status
  | InvalidEdit
  | Retargeted edit_error
  | BundleTooLarge nat
  | EffectFailed appr_error

type_synonym ('q, 'a) tx = "'q world \<Rightarrow> appr_error + ('a \<times> 'q world)"

definition other :: "string \<Rightarrow> appr_error" where
  "other s = App (ErrOther s)"

definition lift_app :: "app_error + 'a \<Rightarrow> appr_error + 'a" where
  "lift_app r = (case r of Inl e \<Rightarrow> Inl (App e) | Inr x \<Rightarrow> Inr x)"

lemma lift_app_simps [simp]:
  "lift_app (Inl e) = Inl (App e)" "lift_app (Inr x) = Inr x" "lift_app r = Inr x \<longleftrightarrow> r = Inr x"
  by (auto simp: lift_app_def split: sum.splits)

section \<open>The service\<close>

text \<open>
  The functions compose injects (effects, prechecks, declines, expiries, the quota meter) and the
  library functions the module calls (number and SHA-256 of the canonical form, the two JSON
  renderings, the summary sanitizer) are its fields, and so are the ids \<open>ids.NewV7\<close> mints, by the
  position of the row they go to.
\<close>

record 'q service =
  svc_now :: time
  svc_effects :: "string \<Rightarrow> (uuid \<Rightarrow> json \<Rightarrow> string \<Rightarrow> 'q world \<Rightarrow> unit result \<times> 'q world) option"
  svc_prechecks :: "string \<Rightarrow> (json \<Rightarrow> json option \<Rightarrow> 'q world \<Rightarrow> unit result \<times> 'q world) option"
  svc_declines :: "string \<Rightarrow> (uuid \<Rightarrow> json \<Rightarrow> 'q world \<Rightarrow> app_error + 'q world) option"
  svc_expiries :: "string \<Rightarrow> (uuid \<Rightarrow> json \<Rightarrow> 'q world \<Rightarrow> app_error + 'q world) option"
  svc_quota :: "(uuid \<Rightarrow> uuid \<Rightarrow> counter \<Rightarrow> int \<Rightarrow> 'q \<Rightarrow> bool result \<times> 'q) option"
  svc_num :: "string \<Rightarrow> string option"
  svc_sha :: "json \<Rightarrow> string"
  svc_pg :: "json \<Rightarrow> string"
  svc_go :: "json \<Rightarrow> string"
  svc_sanitize :: "string \<Rightarrow> string"
  svc_event_id :: "nat \<Rightarrow> uuid"
  svc_audit_id :: "nat \<Rightarrow> uuid"

definition null_uuid :: "uuid \<Rightarrow> uuid option" where
  "null_uuid i = (if is_zero i then None else Some i)"

definition null_str :: "string \<Rightarrow> string option" where
  "null_str s = (if s = [] then None else Some s)"

definition audit :: "principal \<Rightarrow> string \<Rightarrow> uuid \<Rightarrow> (string \<times> json) list \<Rightarrow> 'q world \<Rightarrow> nat \<times> 'q world" where
  "audit p act entity evidence w =
     (length (w_audit w),
      w\<lparr>w_audit := w_audit w @ [\<lparr>au_actor_type = p_type p, au_actor_id = p_id p,
          au_passport_id = null_uuid (p_passport_id p), au_on_behalf_of = null_uuid (p_on_behalf_of p),
          au_action = act, au_entity_id = entity, au_evidence = evidence\<rparr>]\<rparr>)"

definition emit ::
  "'q service \<Rightarrow> ctx \<Rightarrow> principal \<Rightarrow> nat \<Rightarrow> uuid \<Rightarrow> payload \<Rightarrow> 'q world \<Rightarrow> appr_error + 'q world" where
  "emit s c p audit_id entity pl w =
     (case ctx_correlation c of
        None \<Rightarrow> Inl (other ''crmapprovals: no correlation id bound to context'')
      | Some corr \<Rightarrow>
          let env = \<lparr>ev_event_id = svc_event_id s (length (w_outbox w)), ev_type = event_type_of pl,
            ev_version = version_of (event_type_of pl), ev_occurred_at = Some (svc_now s),
            ev_actor_type = principal_type_string (p_type p), ev_actor_id = p_id p,
            ev_passport_id = null_uuid (p_passport_id p), ev_on_behalf_of = null_uuid (p_on_behalf_of p),
            ev_entity_type = ''approval'', ev_entity_id = entity, ev_payload = pl, ev_correlation_id = corr,
            ev_causation_id = None, ev_audit_log_id = svc_audit_id s audit_id\<rparr>
          in bindR (lift_app (stream_for (event_type_of pl))) (\<lambda>stream.
             bindR (lift_app (validate_envelope env)) (\<lambda>_.
               Inr (w\<lparr>w_outbox := w_outbox w @ [\<lparr>ob_audit = audit_id, ob_stream = stream, ob_envelope = env\<rparr>]\<rparr>))))"

text \<open>An outbox row the relay can ship and a subscriber will accept.\<close>

definition deliverable :: "outbox_row \<Rightarrow> bool" where
  "deliverable r \<longleftrightarrow> validate_envelope (ob_envelope r) = Inr ()
     \<and> stream_for (ev_type (ob_envelope r)) = Inr (ob_stream r)"

section \<open>Reading rows\<close>

definition get_row :: "uuid \<Rightarrow> 'q world \<Rightarrow> appr_error + approval" where
  "get_row i w =
     (case find (\<lambda>a. ap_id a = i) (w_approvals w) of None \<Rightarrow> Inl (App ErrNotFound) | Some a \<Rightarrow> Inr a)"

definition update_rows :: "(approval \<Rightarrow> bool) \<Rightarrow> (approval \<Rightarrow> approval) \<Rightarrow> 'q world \<Rightarrow> 'q world" where
  "update_rows P f w = w\<lparr>w_approvals := update_where P f (w_approvals w)\<rparr>"

text \<open>\<open>lockOrder\<close>: oldest first, ids breaking the ties one staging pass creates.\<close>

definition lock_order :: "approval list \<Rightarrow> approval list" where
  "lock_order rows = sort_key (\<lambda>a. (ap_created_at a, ap_id a)) rows"

text \<open>A row the database still counts as an open question.\<close>

definition live_pending :: "'q world \<Rightarrow> approval \<Rightarrow> bool" where
  "live_pending w a \<longleftrightarrow> ap_status a = Pending \<and> w_now w < ap_expires_at a"

section \<open>Evidence\<close>

record evidence =
  ev_snippet :: string
  ev_source_type :: string
  ev_source_id :: uuid
  ev_source_lines :: "int list"

definition evidence_source_types :: "string list" where
  "evidence_source_types = [''activity'', ''deal'', ''signal'', ''relationship'', ''page'']"

definition max_evidence_snippet :: nat where
  "max_evidence_snippet = 500"

definition evidence_ok :: "evidence \<Rightarrow> bool" where
  "evidence_ok e \<longleftrightarrow> ev_snippet e \<noteq> [] \<and> length (ev_snippet e) \<le> max_evidence_snippet
     \<and> (ev_source_type e \<noteq> [] \<longrightarrow> ev_source_type e \<in> set evidence_source_types)
     \<and> (ev_source_type e = [] \<longleftrightarrow> is_zero (ev_source_id e))
     \<and> list_all (\<lambda>l. 1 \<le> l) (ev_source_lines e)"

definition evidence_json :: "evidence \<Rightarrow> json" where
  "evidence_json e = JObj
     ([(''evidence_snippet'', JStr (ev_snippet e)),
       (''source_type'', if ev_source_type e = [] then JNull else JStr (ev_source_type e)),
       (''source_id'', if ev_source_type e = [] then JNull else JStr (uuid_string (ev_source_id e)))]
      @ (if ev_source_lines e = [] then []
         else [(''source_lines'', JArr (map (\<lambda>l. JNum (int_string l)) (ev_source_lines e)))]))"

definition marshal_evidence :: "evidence list \<Rightarrow> appr_error + json option" where
  "marshal_evidence es =
     (if es = [] then Inr None
      else if list_all evidence_ok es then Inr (Some (JArr (map evidence_json es)))
      else Inl (other ''crmapprovals: evidence''))"

section \<open>Staging input\<close>

record stage_input =
  in_kind :: string
  in_proposed_change :: json
  in_diff_hash :: string
  in_target_type :: string
  in_target_id :: uuid
  in_target_version :: "int option"
  in_summary :: string
  in_join_pending :: bool
  in_ttl :: "duration option"
  in_identity :: "json option"
  in_announce :: "(string \<times> string) option list"
  in_evidence :: "evidence list"
  in_bundle_id :: uuid

text \<open>\<open>canonicalIdentity\<close>: a non-empty object of strings, each carried by the payload.\<close>

definition canonical_identity :: "json \<Rightarrow> json \<Rightarrow> appr_error + json" where
  "canonical_identity identity change =
     (case (identity, change) of
        (JObj members, JObj payload) \<Rightarrow>
          if members = [] then Inl (other ''crmapprovals: Identity must be a non-empty JSON object'')
          else if list_all (\<lambda>k. case obj_get members k of
                 Some (JStr v) \<Rightarrow> obj_get payload k = Some (JStr v) | _ \<Rightarrow> False) (map fst members)
          then Inr (JObj (sort_members members))
          else Inl (other ''crmapprovals: Identity field'')
      | _ \<Rightarrow> Inl (other ''crmapprovals: Identity must be an object carried by the payload''))"

definition with_canonical_identity :: "stage_input \<Rightarrow> appr_error + stage_input" where
  "with_canonical_identity inp =
     (case in_identity inp of
        None \<Rightarrow> Inr inp
      | Some identity \<Rightarrow>
          if \<not> in_join_pending inp then Inl (other ''crmapprovals: Identity staging requires JoinPending'')
          else bindR (canonical_identity identity (in_proposed_change inp)) (\<lambda>canonical.
            Inr (inp\<lparr>in_identity := Some canonical\<rparr>)))"

text \<open>jsonb \<open>@>\<close> for an identity, a flat object of strings.\<close>

definition contains_identity :: "json \<Rightarrow> json \<Rightarrow> bool" where
  "contains_identity change identity =
     (case (change, identity) of
        (JObj payload, JObj members) \<Rightarrow> list_all (\<lambda>(k, v). obj_get payload k = Some v) members
      | _ \<Rightarrow> False)"

section \<open>Inserting a proposal\<close>

definition target_version :: "'q world \<Rightarrow> string \<Rightarrow> uuid \<Rightarrow> appr_error + int" where
  "target_version w table i =
     (if \<not> target_version_checkable table then Inl (other ''crmapprovals: not a versioned target'')
      else case w_versions w table i of None \<Rightarrow> Inl (App ErrNotFound) | Some v \<Rightarrow> Inr v)"

definition resolve_target_version :: "'q world \<Rightarrow> stage_input \<Rightarrow> appr_error + int option" where
  "resolve_target_version w inp =
     (if is_zero (in_target_id inp) \<or> \<not> target_version_checkable (in_target_type inp) then Inr None
      else if target_is_context_only (in_kind inp) \<or> target_version_unpinned (in_kind inp) then Inr None
      else bindR (target_version w (in_target_type inp) (in_target_id inp)) (\<lambda>v. Inr (Some v)))"

fun announce_all ::
  "'q service \<Rightarrow> ctx \<Rightarrow> principal \<Rightarrow> nat \<Rightarrow> uuid \<Rightarrow> (string \<times> string) option list \<Rightarrow> 'q world
     \<Rightarrow> appr_error + 'q world" where
  "announce_all s c p aud i [] w = Inr w"
| "announce_all s c p aud i (an # ans) w =
     (case an of
        None \<Rightarrow> Inl (other ''crmapprovals: announced event has no payload'')
      | Some (event, entity_type) \<Rightarrow>
          if entity_type \<noteq> ''approval'' then Inl (other ''crmapprovals: announced event payload has another entity type'')
          else bindR (emit s c p aud i (Announced event) w) (\<lambda>w'. announce_all s c p aud i ans w'))"

definition new_row :: "'q service \<Rightarrow> principal \<Rightarrow> stage_input \<Rightarrow> int option \<Rightarrow> json option \<Rightarrow> uuid \<Rightarrow> time \<Rightarrow> approval" where
  "new_row s p inp pin evidence i now =
     \<lparr>ap_id = i, ap_kind = in_kind inp, ap_status = Pending, ap_proposed_by = p_id p,
      ap_on_behalf_of = null_uuid (p_on_behalf_of p), ap_passport_id = null_uuid (p_passport_id p),
      ap_target_type = null_str (in_target_type inp), ap_target_id = null_uuid (in_target_id inp),
      ap_target_version = pin, ap_summary = null_str (svc_sanitize s (in_summary inp)),
      ap_proposed_change = in_proposed_change inp, ap_diff_hash = in_diff_hash inp,
      ap_expires_at = now + ttl_for (in_kind inp) (in_ttl inp), ap_decided_by = None,
      ap_decided_at = None, ap_decision_reason = None, ap_consumed_at = None, ap_created_at = now,
      ap_bundle_id = null_uuid (in_bundle_id inp), ap_evidence = evidence\<rparr>"

definition insert_proposal :: "'q service \<Rightarrow> ctx \<Rightarrow> stage_input \<Rightarrow> uuid \<Rightarrow> ('q, uuid) tx" where
  "insert_proposal s c inp new_id w =
     (case ctx_actor c of
        None \<Rightarrow> Inl (other ''crmapprovals: no actor bound to context'')
      | Some p \<Rightarrow>
          bindR (resolve_target_version w inp) (\<lambda>pin.
          bindR (marshal_evidence (in_evidence inp)) (\<lambda>evidence.
            let r = new_row s p inp pin evidence new_id (w_now w);
                (aud, w1) = audit p ''create'' new_id
                  [(''kind'', JStr (in_kind inp)), (''summary'', JStr (svc_sanitize s (in_summary inp))),
                   (''diff_hash'', JStr (in_diff_hash inp))] (w\<lparr>w_approvals := w_approvals w @ [r]\<rparr>)
            in bindR (emit s c p aud new_id
                   (ApprovalRequested (in_kind inp) (svc_sanitize s (in_summary inp)) (in_target_type inp)
                     (null_uuid (in_target_id inp)) (ap_expires_at r)) w1) (\<lambda>w2.
               bindR (announce_all s c p aud new_id (in_announce inp) w2) (\<lambda>w3. Inr (new_id, w3))))))"

section \<open>Joining and superseding\<close>

definition same_target :: "stage_input \<Rightarrow> approval \<Rightarrow> bool" where
  "same_target inp a \<longleftrightarrow> ap_kind a = in_kind inp \<and> ap_target_id a = null_uuid (in_target_id inp)"

text \<open>\<open>ORDER BY created_at DESC LIMIT 1\<close>.\<close>

fun newest :: "approval list \<Rightarrow> approval option" where
  "newest [] = None"
| "newest (a # as) = (case newest as of
     None \<Rightarrow> Some a
   | Some b \<Rightarrow> if ap_created_at b \<le> ap_created_at a then Some a else Some b)"

definition joinable :: "'q world \<Rightarrow> stage_input \<Rightarrow> approval option" where
  "joinable w inp =
     newest (filter (\<lambda>a. same_target inp a \<and> ap_diff_hash a = in_diff_hash inp \<and> live_pending w a) (w_approvals w))"

definition rebundle_joined :: "ctx \<Rightarrow> stage_input \<Rightarrow> uuid \<Rightarrow> ('q, unit) tx" where
  "rebundle_joined c inp joined w =
     (if is_zero (in_bundle_id inp) then Inr ((), w)
      else case ctx_actor c of
        None \<Rightarrow> Inl (other ''crmapprovals: no actor bound to context'')
      | Some p \<Rightarrow>
          let moved = (\<lambda>a. ap_id a = joined \<and> ap_bundle_id a \<noteq> Some (in_bundle_id inp)) in
          if \<not> list_ex moved (w_approvals w) then Inr ((), w)
          else Inr ((), snd (audit p ''update'' joined
                 [(''kind'', JStr (in_kind inp)), (''rebundled'', JBool True),
                  (''bundle_id'', JStr (uuid_string (in_bundle_id inp)))]
                 (update_rows moved (\<lambda>a. a\<lparr>ap_bundle_id := Some (in_bundle_id inp)\<rparr>) w))))"

definition superseded_by :: "'q world \<Rightarrow> stage_input \<Rightarrow> uuid \<Rightarrow> approval \<Rightarrow> bool" where
  "superseded_by w inp survivor a \<longleftrightarrow> same_target inp a \<and> live_pending w a \<and> ap_id a \<noteq> survivor
     \<and> (case in_identity inp of None \<Rightarrow> False | Some i \<Rightarrow> contains_identity (ap_proposed_change a) i)"

definition day :: duration where "day = 24 * hour"

definition retire :: "time \<Rightarrow> approval \<Rightarrow> approval" where
  "retire now a = a\<lparr>ap_expires_at := now - day, ap_status := Expired\<rparr>"

definition audit_superseded :: "principal \<Rightarrow> stage_input \<Rightarrow> uuid \<Rightarrow> approval \<Rightarrow> 'q world \<Rightarrow> 'q world" where
  "audit_superseded p inp survivor old w = snd (audit p ''update'' (ap_id old)
     [(''kind'', JStr (in_kind inp)), (''superseded'', JBool True),
      (''superseded_by'', JStr (uuid_string survivor))] w)"

definition supersede_pending :: "ctx \<Rightarrow> stage_input \<Rightarrow> uuid \<Rightarrow> ('q, unit) tx" where
  "supersede_pending c inp survivor w =
     (case ctx_actor c of
        None \<Rightarrow> Inl (other ''crmapprovals: no actor bound to context'')
      | Some p \<Rightarrow>
          let old = lock_order (filter (superseded_by w inp survivor) (w_approvals w)) in
          if old = [] then Inr ((), w)
          else Inr ((), fold (audit_superseded p inp survivor) old
                 (update_rows (superseded_by w inp survivor) (retire (w_now w)) w)))"

definition stage_or_join_pending :: "'q service \<Rightarrow> ctx \<Rightarrow> stage_input \<Rightarrow> uuid \<Rightarrow> ('q, uuid) tx" where
  "stage_or_join_pending s c inp new_id w =
     (if ctx_workspace c = None then Inl (other ''crmapprovals: no workspace bound to context'')
      else bindR
        (case joinable w inp of
           Some a \<Rightarrow> bindR (rebundle_joined c inp (ap_id a) w) (\<lambda>(_, w'). Inr (ap_id a, w'))
         | None \<Rightarrow> insert_proposal s c inp new_id w) (\<lambda>(i, w1).
        if in_identity inp = None then Inr (i, w1)
        else bindR (supersede_pending c inp i w1) (\<lambda>(_, w2). Inr (i, w2))))"

definition stage_body :: "'q service \<Rightarrow> ctx \<Rightarrow> stage_input \<Rightarrow> uuid \<Rightarrow> ('q, uuid) tx" where
  "stage_body s c inp new_id =
     (if in_join_pending inp then stage_or_join_pending s c inp new_id else insert_proposal s c inp new_id)"

definition stage :: "'q service \<Rightarrow> ctx \<Rightarrow> stage_input \<Rightarrow> uuid \<Rightarrow> 'q world \<Rightarrow> (appr_error + uuid) \<times> 'q world" where
  "stage s c inp new_id w =
     (case with_canonical_identity inp of
        Inl e \<Rightarrow> (Inl e, w)
      | Inr inp' \<Rightarrow> run_tx (stage_body s c inp' new_id) w)"

definition stage_in_tx :: "'q service \<Rightarrow> ctx \<Rightarrow> stage_input \<Rightarrow> uuid \<Rightarrow> ('q, uuid) tx" where
  "stage_in_tx s c inp new_id w =
     (if in_identity inp \<noteq> None \<or> in_join_pending inp
      then Inl (other ''crmapprovals: StageInTx always creates a row'')
      else insert_proposal s c inp new_id w)"

definition stage_or_join_pending_in_tx :: "'q service \<Rightarrow> ctx \<Rightarrow> stage_input \<Rightarrow> uuid \<Rightarrow> ('q, uuid) tx" where
  "stage_or_join_pending_in_tx s c inp new_id w =
     bindR (with_canonical_identity inp) (\<lambda>inp'. stage_or_join_pending s c inp' new_id w)"

section \<open>Memory of a refusal\<close>

definition prior_offer :: "stage_input \<Rightarrow> approval \<Rightarrow> bool" where
  "prior_offer inp a \<longleftrightarrow> same_target inp a \<and>
     (case in_identity inp of
        Some i \<Rightarrow> contains_identity (ap_proposed_change a) i
      | None \<Rightarrow> ap_diff_hash a = in_diff_hash inp)"

definition stage_unless_declined ::
  "'q service \<Rightarrow> ctx \<Rightarrow> stage_input \<Rightarrow> uuid \<Rightarrow> 'q world \<Rightarrow> (appr_error + uuid option) \<times> 'q world" where
  "stage_unless_declined s c inp new_id w =
     (case with_canonical_identity inp of
        Inl e \<Rightarrow> (Inl e, w)
      | Inr inp' \<Rightarrow> run_tx (\<lambda>w.
          if ctx_workspace c = None then Inl (other ''crmapprovals: no workspace bound to context'')
          else if list_ex (\<lambda>a. prior_offer inp' a \<and> ap_status a = Rejected) (w_approvals w) then Inr (None, w)
          else bindR (stage_body s c inp' new_id w) (\<lambda>(i, w'). Inr (Some i, w'))) w)"

definition rejected_changes_for :: "string \<Rightarrow> uuid \<Rightarrow> 'q world \<Rightarrow> json list" where
  "rejected_changes_for kind target w =
     map ap_proposed_change (filter (\<lambda>a. ap_status a = Rejected)
       (lock_order (filter (\<lambda>a. ap_kind a = kind \<and> ap_target_id a = Some target) (w_approvals w))))"

definition has_pending_for :: "string \<Rightarrow> uuid \<Rightarrow> string \<Rightarrow> 'q world \<Rightarrow> bool" where
  "has_pending_for kind target diff_hash w = list_ex (\<lambda>a. ap_kind a = kind \<and> ap_target_id a = Some target
     \<and> ap_diff_hash a = diff_hash \<and> live_pending w a) (w_approvals w)"

definition has_pending_kind :: "string \<Rightarrow> uuid \<Rightarrow> 'q world \<Rightarrow> bool" where
  "has_pending_kind kind target w = list_ex (\<lambda>a. ap_kind a = kind \<and> ap_target_id a = Some target
     \<and> live_pending w a) (w_approvals w)"

section \<open>Withdrawal\<close>

definition withdraw_in_tx :: "ctx \<Rightarrow> uuid \<Rightarrow> string \<Rightarrow> ('q, bool) tx" where
  "withdraw_in_tx c i reason w =
     (case ctx_actor c of
        None \<Rightarrow> Inl (other ''crmapprovals: no actor bound to context'')
      | Some p \<Rightarrow>
          let open_row = (\<lambda>a. ap_id a = i \<and> ap_status a = Pending) in
          if \<not> list_ex open_row (w_approvals w) then Inr (False, w)
          else Inr (True, snd (audit p ''update'' i [(''withdrawn'', JBool True), (''reason'', JStr reason)]
                 (update_rows open_row (retire (w_now w)) w))))"

section \<open>Frames\<close>

text \<open>What no operation of the engine's write path touches: the records, their versions, the meter.\<close>

definition same_env :: "'q world \<Rightarrow> 'q world \<Rightarrow> bool" where
  "same_env w w' \<longleftrightarrow> w_db w' = w_db w \<and> w_offers w' = w_offers w \<and> w_views w' = w_views w
     \<and> w_config w' = w_config w \<and> w_versions w' = w_versions w \<and> w_quota w' = w_quota w"

lemma same_env_refl [simp]: "same_env w w"
  by (simp add: same_env_def)

lemma same_env_trans [trans]: "same_env w w' \<Longrightarrow> same_env w' w'' \<Longrightarrow> same_env w w''"
  by (simp add: same_env_def)

lemma same_env_upd [simp]:
  "same_env w' (w\<lparr>w_approvals := x\<rparr>) = same_env w' w" "same_env w' (w\<lparr>w_audit := y\<rparr>) = same_env w' w"
  "same_env w' (w\<lparr>w_outbox := z\<rparr>) = same_env w' w"
  by (simp_all add: same_env_def)

lemma same_env_now: "same_env w w' \<Longrightarrow> w_now w' = w_now w"
  by (simp add: same_env_def w_now_def)

lemma same_env_live: "same_env w w' \<Longrightarrow> live_pending w' = live_pending w"
  by (simp add: live_pending_def same_env_now fun_eq_iff)

lemma audit_simps [simp]:
  "fst (audit p act e ev w) = length (w_audit w)"
  "w_approvals (snd (audit p act e ev w)) = w_approvals w"
  "w_outbox (snd (audit p act e ev w)) = w_outbox w"
  "same_env w' (snd (audit p act e ev w)) = same_env w' w"
  "\<exists>r. w_audit (snd (audit p act e ev w)) = w_audit w @ [r] \<and> au_action r = act \<and> au_entity_id r = e"
  by (auto simp: audit_def same_env_def)

lemma update_rows_simps [simp]:
  "w_approvals (update_rows P f w) = update_where P f (w_approvals w)"
  "w_audit (update_rows P f w) = w_audit w" "w_outbox (update_rows P f w) = w_outbox w"
  "same_env w' (update_rows P f w) = same_env w' w"
  by (auto simp: update_rows_def same_env_def)

lemma emit_frame:
  assumes "emit s c p aud e pl w = Inr w'"
  shows "w_approvals w' = w_approvals w" "w_audit w' = w_audit w" "same_env w w'"
    "\<exists>r. w_outbox w' = w_outbox w @ [r] \<and> ob_audit r = aud \<and> ob_entity_id r = e \<and> ob_payload r = pl
      \<and> deliverable r"
  using assms by (auto simp: emit_def same_env_def Let_def deliverable_def split: option.splits)

text \<open>When an event of the engine's own goes out: a complete actor and trace, and ids that are minted.\<close>

definition ids_minted :: "'q service \<Rightarrow> bool" where
  "ids_minted s \<longleftrightarrow> (\<forall>n. \<not> is_zero (svc_event_id s n) \<and> \<not> is_zero (svc_audit_id s n))"

definition can_emit :: "'q service \<Rightarrow> ctx \<Rightarrow> principal \<Rightarrow> uuid \<Rightarrow> bool" where
  "can_emit s c p entity \<longleftrightarrow> (\<exists>corr. ctx_correlation c = Some corr \<and> \<not> is_zero corr) \<and> ids_minted s
     \<and> principal_type_string (p_type p) \<in> set actor_types \<and> p_id p \<noteq> [] \<and> \<not> is_zero entity"

lemma can_emit_now [simp]: "can_emit (s\<lparr>svc_now := t\<rparr>) c p i = can_emit s c p i"
  by (simp add: can_emit_def ids_minted_def)

lemma own_events_routed:
  "stream_for ''approval.requested'' = Inr ''gw:events:crm:approval''"
  "stream_for ''approval.decided'' = Inr ''gw:events:crm:approval''"
  "stream_for ''coldstart.accepted'' = Inr ''gw:events:crm:coldstart''"
  "stream_for ''coldstart.rejected'' = Inr ''gw:events:crm:coldstart''"
  by (simp_all add: stream_for_def catalog_def stream_prefix_def)

lemma emit_ok:
  assumes "can_emit s c p entity" "stream_for (event_type_of pl) = Inr stream"
  shows "\<exists>w'. emit s c p aud entity pl w = Inr w'"
proof -
  obtain corr where corr: "ctx_correlation c = Some corr" "\<not> is_zero corr" using assms(1) by (auto simp: can_emit_def)
  then show ?thesis
    using assms by (simp add: emit_def Let_def validate_envelope_def can_emit_def ids_minted_def)
qed

lemma announce_frame:
  assumes "announce_all s c p aud e ans w = Inr w'"
  shows "w_approvals w' = w_approvals w \<and> w_audit w' = w_audit w \<and> same_env w w'
    \<and> (\<exists>xs. w_outbox w' = w_outbox w @ xs \<and> length xs = length ans)"
  using assms
proof (induction ans arbitrary: w)
  case (Cons an ans)
  then obtain event w1 where em: "emit s c p aud e (Announced event) w = Inr w1"
    and rest: "announce_all s c p aud e ans w1 = Inr w'"
    by (auto split: option.splits prod.splits if_splits)
  note fr = emit_frame [OF em]
  obtain xs where xs: "w_outbox w' = w_outbox w1 @ xs" "length xs = length ans"
    using Cons.IH [OF rest] by blast
  obtain r where r: "w_outbox w1 = w_outbox w @ [r]" using fr(4) by blast
  have "w_outbox w' = w_outbox w @ (r # xs)" using xs(1) r by simp
  moreover have "w_approvals w' = w_approvals w \<and> w_audit w' = w_audit w \<and> same_env w w'"
    using Cons.IH [OF rest] fr same_env_trans by fastforce
  ultimately show ?case using xs(2) by (metis length_Cons)
qed simp

text \<open>What a successful insert did.\<close>

lemma insert_proposal_effect:
  assumes "insert_proposal s c inp i w = Inr (j, w')"
  obtains p pin ev aud ob xs where "j = i" "ctx_actor c = Some p" "resolve_target_version w inp = Inr pin"
    "marshal_evidence (in_evidence inp) = Inr ev"
    "w_approvals w' = w_approvals w @ [new_row s p inp pin ev i (w_now w)]"
    "w_audit w' = w_audit w @ [aud]" "au_action aud = ''create''" "au_entity_id aud = i"
    "w_outbox w' = w_outbox w @ ob # xs" "ob_audit ob = length (w_audit w)" "ob_entity_id ob = i"
    "ob_payload ob = ApprovalRequested (in_kind inp) (svc_sanitize s (in_summary inp)) (in_target_type inp)
       (null_uuid (in_target_id inp)) (w_now w + ttl_for (in_kind inp) (in_ttl inp))"
    "length xs = length (in_announce inp)" "same_env w w'"
proof -
  obtain p where p: "ctx_actor c = Some p"
    using assms by (auto simp: insert_proposal_def split: option.splits)
  obtain pin ev where pin: "resolve_target_version w inp = Inr pin"
    and ev: "marshal_evidence (in_evidence inp) = Inr ev"
    using assms p by (auto simp: insert_proposal_def)
  define r where "r = new_row s p inp pin ev i (w_now w)"
  define w1 where "w1 = snd (audit p ''create'' i
    [(''kind'', JStr (in_kind inp)), (''summary'', JStr (svc_sanitize s (in_summary inp))),
     (''diff_hash'', JStr (in_diff_hash inp))] (w\<lparr>w_approvals := w_approvals w @ [r]\<rparr>))"
  obtain w2 where em: "emit s c p (length (w_audit w)) i (ApprovalRequested (in_kind inp)
      (svc_sanitize s (in_summary inp)) (in_target_type inp) (null_uuid (in_target_id inp))
      (ap_expires_at r)) w1 = Inr w2"
    and an: "announce_all s c p (length (w_audit w)) i (in_announce inp) w2 = Inr w'" and j: "j = i"
    using assms p pin ev
    by (auto simp: insert_proposal_def Let_def r_def w1_def audit_def split: prod.splits)
  note e = emit_frame [OF em] and a = announce_frame [OF an]
  obtain aud where aud: "w_audit w1 = w_audit w @ [aud]" "au_action aud = ''create''" "au_entity_id aud = i"
    using audit_simps(5) [of p "''create''" i _ "w\<lparr>w_approvals := w_approvals w @ [r]\<rparr>"]
    unfolding w1_def by fastforce
  obtain ob where ob: "w_outbox w2 = w_outbox w1 @ [ob]" "ob_audit ob = length (w_audit w)" "ob_entity_id ob = i"
    "ob_payload ob = ApprovalRequested (in_kind inp) (svc_sanitize s (in_summary inp)) (in_target_type inp)
       (null_uuid (in_target_id inp)) (ap_expires_at r)"
    using e(4) by blast
  obtain xs where xs: "w_outbox w' = w_outbox w2 @ xs" "length xs = length (in_announce inp)" using a by blast
  have w1: "w_approvals w1 = w_approvals w @ [r]" "w_outbox w1 = w_outbox w" "same_env w w1"
    by (simp_all add: w1_def)
  show thesis
  proof (rule that [of p pin ev aud ob xs])
    show "w_outbox w' = w_outbox w @ ob # xs" using xs(1) ob(1) w1(2) by simp
    show "w_approvals w' = w_approvals w @ [new_row s p inp pin ev i (w_now w)]"
      using a e(1) w1(1) by (simp add: r_def)
    show "w_audit w' = w_audit w @ [aud]" using a e(2) aud(1) by simp
    show "same_env w w'" using a e(3) w1(3) same_env_trans by blast
    show "ob_payload ob = ApprovalRequested (in_kind inp) (svc_sanitize s (in_summary inp)) (in_target_type inp)
       (null_uuid (in_target_id inp)) (w_now w + ttl_for (in_kind inp) (in_ttl inp))"
      using ob(4) by (simp add: r_def new_row_def)
  qed (use j p pin ev aud ob xs in simp_all)
qed

lemma new_row_simps [simp]:
  "ap_id (new_row s p inp pin ev i now) = i" "ap_kind (new_row s p inp pin ev i now) = in_kind inp"
  "ap_status (new_row s p inp pin ev i now) = Pending"
  "ap_target_version (new_row s p inp pin ev i now) = pin"
  "ap_target_id (new_row s p inp pin ev i now) = null_uuid (in_target_id inp)"
  "ap_expires_at (new_row s p inp pin ev i now) = now + ttl_for (in_kind inp) (in_ttl inp)"
  "ap_diff_hash (new_row s p inp pin ev i now) = in_diff_hash inp"
  "ap_proposed_change (new_row s p inp pin ev i now) = in_proposed_change inp"
  "ap_consumed_at (new_row s p inp pin ev i now) = None"
  "ap_decided_at (new_row s p inp pin ev i now) = None"
  "ap_decided_by (new_row s p inp pin ev i now) = None"
  "ap_passport_id (new_row s p inp pin ev i now) = null_uuid (p_passport_id p)"
  "same_target inp (new_row s p inp pin ev i now)"
  by (simp_all add: new_row_def same_target_def)

lemma new_row_live: "live_pending w (new_row s p inp pin ev i (w_now w))"
  using ttl_for_positive [of "in_kind inp" "in_ttl inp"] by (simp add: live_pending_def)

lemma retire_simps [simp]:
  "ap_id (retire now a) = ap_id a" "ap_status (retire now a) = Expired" "ap_kind (retire now a) = ap_kind a"
  "ap_target_id (retire now a) = ap_target_id a" "ap_proposed_change (retire now a) = ap_proposed_change a"
  "ap_decided_at (retire now a) = ap_decided_at a" "ap_consumed_at (retire now a) = ap_consumed_at a"
  "ap_expires_at (retire now a) = now - day" "ap_decided_by (retire now a) = ap_decided_by a"
  "ap_passport_id (retire now a) = ap_passport_id a" "ap_diff_hash (retire now a) = ap_diff_hash a"
  "\<not> live_pending w (retire now a)"
  by (simp_all add: retire_def live_pending_def)

lemma newest_None [simp]: "newest xs = None \<longleftrightarrow> xs = []"
  by (cases xs) (auto split: option.splits)

lemma newest_mem: "newest xs = Some a \<Longrightarrow> a \<in> set xs"
  by (induction xs arbitrary: a) (auto split: option.splits if_splits)

lemma newest_max: "newest xs = Some a \<Longrightarrow> b \<in> set xs \<Longrightarrow> ap_created_at b \<le> ap_created_at a"
  by (induction xs arbitrary: a b) (fastforce split: option.splits if_splits)+

lemma joinable_facts:
  assumes "joinable w inp = Some a"
  shows "a \<in> set (w_approvals w)" "same_target inp a" "ap_diff_hash a = in_diff_hash inp" "live_pending w a"
  using newest_mem [OF assms [unfolded joinable_def]] by auto

lemma rebundle_effect:
  assumes "rebundle_joined c inp j w = Inr (u, w')"
  obtains q where "w_approvals w' = update_where q (\<lambda>a. a\<lparr>ap_bundle_id := Some (in_bundle_id inp)\<rparr>) (w_approvals w)"
    "\<And>a. q a \<Longrightarrow> ap_id a = j" "w_outbox w' = w_outbox w" "same_env w w'"
    "length (w_audit w) \<le> length (w_audit w')"
proof -
  let ?moved = "\<lambda>a. ap_id a = j \<and> ap_bundle_id a \<noteq> Some (in_bundle_id inp)"
  show thesis
  proof (cases "is_zero (in_bundle_id inp) \<or> \<not> list_ex ?moved (w_approvals w)")
    case True
    then have "w' = w" using assms by (auto simp: rebundle_joined_def Let_def split: option.splits if_splits)
    then show ?thesis using that [of "\<lambda>_. False"] by (simp add: update_where_id)
  next
    case False
    then obtain p ev where "w' = snd (audit p ''update'' j ev
        (update_rows ?moved (\<lambda>a. a\<lparr>ap_bundle_id := Some (in_bundle_id inp)\<rparr>) w))"
      using assms by (auto simp: rebundle_joined_def Let_def split: option.splits)
    then show ?thesis using that [of ?moved] by (simp add: audit_def update_rows_def same_env_def)
  qed
qed

lemma audit_superseded_fold:
  "w_approvals (fold (audit_superseded p inp j) olds w) = w_approvals w"
  "w_outbox (fold (audit_superseded p inp j) olds w) = w_outbox w"
  "same_env w0 (fold (audit_superseded p inp j) olds w) = same_env w0 w"
  "length (w_audit (fold (audit_superseded p inp j) olds w)) = length (w_audit w) + length olds"
  by (induction olds arbitrary: w) (auto simp: audit_superseded_def audit_def same_env_def)

lemma supersede_effect:
  assumes "supersede_pending c inp j w = Inr (u, w')"
  shows "w_approvals w' = update_where (superseded_by w inp j) (retire (w_now w)) (w_approvals w)"
    "w_outbox w' = w_outbox w" "same_env w w'"
    "length (w_audit w') = length (w_audit w) + length (filter (superseded_by w inp j) (w_approvals w))"
proof -
  have len: "length (lock_order xs) = length xs" for xs by (simp add: lock_order_def)
  have nil: "lock_order xs = [] \<longleftrightarrow> xs = []" for xs by (metis len length_0_conv)
  have "filter (superseded_by w inp j) (w_approvals w) = [] \<Longrightarrow>
      update_where (superseded_by w inp j) (retire (w_now w)) (w_approvals w) = w_approvals w"
    by (auto simp: filter_empty_conv intro: update_where_id)
  then show "w_approvals w' = update_where (superseded_by w inp j) (retire (w_now w)) (w_approvals w)"
    "w_outbox w' = w_outbox w" "same_env w w'"
    "length (w_audit w') = length (w_audit w) + length (filter (superseded_by w inp j) (w_approvals w))"
    using assms
    by (auto simp: supersede_pending_def Let_def nil len audit_superseded_fold split: option.splits if_splits)
qed

text \<open>A joined or inserted row, before any superseding: rows but the bundle as before, or one more.\<close>

lemma join_step:
  assumes "(case joinable w inp of
       Some a \<Rightarrow> bindR (rebundle_joined c inp (ap_id a) w) (\<lambda>(_, w'). Inr (ap_id a, w'))
     | None \<Rightarrow> insert_proposal s c inp i w) = Inr (j, w')"
  obtains (joined) a q where "joinable w inp = Some a" "j = ap_id a" "w_outbox w' = w_outbox w" "same_env w w'"
      "w_approvals w' = update_where q (\<lambda>a. a\<lparr>ap_bundle_id := Some (in_bundle_id inp)\<rparr>) (w_approvals w)"
    | (inserted) r where "joinable w inp = None" "j = i" "ap_id r = i" "same_target inp r" "live_pending w r"
      "ap_diff_hash r = in_diff_hash inp" "ap_proposed_change r = in_proposed_change inp"
      "w_approvals w' = w_approvals w @ [r]" "same_env w w'" "w_outbox w' \<noteq> w_outbox w"
proof (cases "joinable w inp")
  case None
  then have "insert_proposal s c inp i w = Inr (j, w')" using assms by simp
  then show ?thesis
  proof (cases rule: insert_proposal_effect)
    case (1 p pin ev aud ob xs)
    show ?thesis
      by (rule inserted [of "new_row s p inp pin ev i (w_now w)"]) (use 1 None new_row_live in simp_all)
  qed
next
  case (Some a)
  then have "bindR (rebundle_joined c inp (ap_id a) w) (\<lambda>(_, w'). Inr (ap_id a, w')) = Inr (j, w')"
    using assms by (simp only: option.case)
  then obtain u where u: "rebundle_joined c inp (ap_id a) w = Inr (u, w')" "j = ap_id a"
    by (cases "rebundle_joined c inp (ap_id a) w") (auto split: prod.splits)
  show ?thesis
  proof (rule rebundle_effect [OF u(1)])
    fix q assume "w_approvals w' = update_where q (\<lambda>a. a\<lparr>ap_bundle_id := Some (in_bundle_id inp)\<rparr>) (w_approvals w)"
      "w_outbox w' = w_outbox w" "same_env w w'"
    then show thesis using joined [OF Some u(2)] by blast
  qed
qed

lemma contains_sorted:
  "contains_identity change (JObj (sort_members f)) \<longleftrightarrow>
     (\<exists>payload. change = JObj payload \<and> (\<forall>k v. obj_get f k = Some v \<longrightarrow> obj_get payload k = Some v))"
proof -
  have "list_all (\<lambda>(k, v). obj_get payload k = Some v) (sort_members f) \<longleftrightarrow>
      (\<forall>k v. obj_get f k = Some v \<longrightarrow> obj_get payload k = Some v)" for payload
  proof
    assume l: "list_all (\<lambda>(k, v). obj_get payload k = Some v) (sort_members f)"
    show "\<forall>k v. obj_get f k = Some v \<longrightarrow> obj_get payload k = Some v"
    proof (intro allI impI)
      fix k v assume "obj_get f k = Some v"
      then have "obj_get (sort_members f) k = Some v" by (simp add: obj_get_sort_members)
      then have "(k, v) \<in> set (sort_members f)" by (auto simp: obj_get_def dest: map_of_SomeD)
      then show "obj_get payload k = Some v" using l by (auto simp: list_all_iff)
    qed
  next
    assume r: "\<forall>k v. obj_get f k = Some v \<longrightarrow> obj_get payload k = Some v"
    show "list_all (\<lambda>(k, v). obj_get payload k = Some v) (sort_members f)"
      unfolding list_all_iff sort_members_def
    proof clarsimp
      fix k v assume "(k, v) \<in> set f"
      then obtain u where "obj_get f k = Some u" using obj_get_None [of f k] by force
      then show "obj_get payload k = Some (the (obj_get f k))" using r by simp
    qed
  qed
  then show ?thesis by (cases change) (auto simp: contains_identity_def)
qed

lemma canonical_identity_Some:
  assumes "with_canonical_identity inp = Inr inp'" "in_identity inp = Some (JObj f)"
  shows "in_identity inp' = Some (JObj (sort_members f))" "in_join_pending inp'"
    "same_target inp' = same_target inp" "in_diff_hash inp' = in_diff_hash inp"
  using assms
  by (auto simp: with_canonical_identity_def canonical_identity_def same_target_def fun_eq_iff
      split: json.splits if_splits)

lemma canonical_identity_None:
  "in_identity inp = None \<Longrightarrow> with_canonical_identity inp = Inr inp"
  by (simp add: with_canonical_identity_def)

lemma stage_commits:
  assumes "stage s c inp i w = (Inr j, w')"
  obtains inp' where "with_canonical_identity inp = Inr inp'" "stage_body s c inp' i w = Inr (j, w')"
  using assms by (auto simp: stage_def run_tx_def split: sum.splits prod.splits)

lemma stage_or_join_steps:
  assumes "stage_or_join_pending s c inp i w = Inr (j, w')"
  obtains w1 where "(case joinable w inp of
       Some a \<Rightarrow> bindR (rebundle_joined c inp (ap_id a) w) (\<lambda>(_, w'). Inr (ap_id a, w'))
     | None \<Rightarrow> insert_proposal s c inp i w) = Inr (j, w1)"
    "in_identity inp = None \<Longrightarrow> w' = w1"
    "in_identity inp \<noteq> None \<Longrightarrow> \<exists>u. supersede_pending c inp j w1 = Inr (u, w')"
  using assms by (auto simp: stage_or_join_pending_def split: if_splits)

section \<open>Properties\<close>

lemma staging_pins_the_current_version_facts:
  "insert_proposal s c (inp\<lparr>in_target_version := v\<rparr>) i w = insert_proposal s c inp i w"
  "insert_proposal s c inp i w = Inr (j, w') \<Longrightarrow>
     \<exists>r a e es. w_approvals w' = w_approvals w @ [r] \<and> ap_id r = i \<and> j = i \<and> ap_status r = Pending
       \<and> ap_expires_at r = w_now w + ttl_for (in_kind inp) (in_ttl inp)
       \<and> (if \<not> is_zero (in_target_id inp) \<and> target_version_checkable (in_target_type inp)
             \<and> \<not> target_is_context_only (in_kind inp) \<and> \<not> target_version_unpinned (in_kind inp)
          then ap_target_version r = w_versions w (in_target_type inp) (in_target_id inp)
             \<and> ap_target_version r \<noteq> None
          else ap_target_version r = None)
       \<and> w_audit w' = w_audit w @ [a] \<and> au_action a = ''create'' \<and> au_entity_id a = i
       \<and> w_outbox w' = w_outbox w @ e # es \<and> ob_audit e = length (w_audit w) \<and> ob_entity_id e = i"
  "\<not> is_zero (in_target_id inp) \<Longrightarrow> target_version_checkable (in_target_type inp) \<Longrightarrow>
     \<not> target_is_context_only (in_kind inp) \<Longrightarrow> \<not> target_version_unpinned (in_kind inp) \<Longrightarrow>
     w_versions w (in_target_type inp) (in_target_id inp) = None \<Longrightarrow> ctx_actor c = Some p \<Longrightarrow>
     insert_proposal s c inp i w = Inl (App ErrNotFound)"
proof -
  show "insert_proposal s c (inp\<lparr>in_target_version := v\<rparr>) i w = insert_proposal s c inp i w"
    by (simp add: insert_proposal_def resolve_target_version_def new_row_def cong: option.case_cong)
  show "insert_proposal s c inp i w = Inr (j, w') \<Longrightarrow>
     \<exists>r a e es. w_approvals w' = w_approvals w @ [r] \<and> ap_id r = i \<and> j = i \<and> ap_status r = Pending
       \<and> ap_expires_at r = w_now w + ttl_for (in_kind inp) (in_ttl inp)
       \<and> (if \<not> is_zero (in_target_id inp) \<and> target_version_checkable (in_target_type inp)
             \<and> \<not> target_is_context_only (in_kind inp) \<and> \<not> target_version_unpinned (in_kind inp)
          then ap_target_version r = w_versions w (in_target_type inp) (in_target_id inp)
             \<and> ap_target_version r \<noteq> None
          else ap_target_version r = None)
       \<and> w_audit w' = w_audit w @ [a] \<and> au_action a = ''create'' \<and> au_entity_id a = i
       \<and> w_outbox w' = w_outbox w @ e # es \<and> ob_audit e = length (w_audit w) \<and> ob_entity_id e = i"
  proof (erule insert_proposal_effect)
    fix p pin ev aud ob xs
    assume facts: "j = i" "w_approvals w' = w_approvals w @ [new_row s p inp pin ev i (w_now w)]"
      "w_audit w' = w_audit w @ [aud]" "au_action aud = ''create''" "au_entity_id aud = i"
      "w_outbox w' = w_outbox w @ ob # xs" "ob_audit ob = length (w_audit w)" "ob_entity_id ob = i"
      and pin: "resolve_target_version w inp = Inr pin"
    have "if \<not> is_zero (in_target_id inp) \<and> target_version_checkable (in_target_type inp)
             \<and> \<not> target_is_context_only (in_kind inp) \<and> \<not> target_version_unpinned (in_kind inp)
          then pin = w_versions w (in_target_type inp) (in_target_id inp) \<and> pin \<noteq> None else pin = None"
      using pin
      by (cases "w_versions w (in_target_type inp) (in_target_id inp)")
        (auto simp: resolve_target_version_def target_version_def split: if_splits dest: sym)
    then have "if \<not> is_zero (in_target_id inp) \<and> target_version_checkable (in_target_type inp)
             \<and> \<not> target_is_context_only (in_kind inp) \<and> \<not> target_version_unpinned (in_kind inp)
          then ap_target_version (new_row s p inp pin ev i (w_now w))
              = w_versions w (in_target_type inp) (in_target_id inp)
             \<and> ap_target_version (new_row s p inp pin ev i (w_now w)) \<noteq> None
          else ap_target_version (new_row s p inp pin ev i (w_now w)) = None"
      by (simp only: new_row_simps)
    then show ?thesis
      using facts new_row_simps(1,3,6) [of s p inp pin ev i "w_now w"] by blast
  qed
  show "\<not> is_zero (in_target_id inp) \<Longrightarrow> target_version_checkable (in_target_type inp) \<Longrightarrow>
     \<not> target_is_context_only (in_kind inp) \<Longrightarrow> \<not> target_version_unpinned (in_kind inp) \<Longrightarrow>
     w_versions w (in_target_type inp) (in_target_id inp) = None \<Longrightarrow> ctx_actor c = Some p \<Longrightarrow>
     insert_proposal s c inp i w = Inl (App ErrNotFound)"
    by (simp add: insert_proposal_def resolve_target_version_def target_version_def)
qed

text \<open>
  What a human approves is bound to the row as it stood when they were asked. Every insert reads
  the pin itself, inside the staging transaction: what the caller supplied for it has no effect; a
  target with a version is pinned at its current version unless the kind waives the pin, and staging
  against a versioned target that is gone is refused. The row starts pending with the window its kind
  grants, and goes in with its own audit row and the request event naming it.
\<close>

theorem staging_pins_the_current_version:
  "(insert_proposal s c (inp\<lparr>in_target_version := v\<rparr>) i w = insert_proposal s c inp i w)
     \<and> (insert_proposal s c inp i w = Inr (j, w') \<longrightarrow>
         (\<exists>r a e es. w_approvals w' = w_approvals w @ [r] \<and> ap_id r = i \<and> j = i \<and> ap_status r = Pending
       \<and> ap_expires_at r = w_now w + ttl_for (in_kind inp) (in_ttl inp)
       \<and> (if \<not> is_zero (in_target_id inp) \<and> target_version_checkable (in_target_type inp)
             \<and> \<not> target_is_context_only (in_kind inp) \<and> \<not> target_version_unpinned (in_kind inp)
          then ap_target_version r = w_versions w (in_target_type inp) (in_target_id inp)
             \<and> ap_target_version r \<noteq> None
          else ap_target_version r = None)
       \<and> w_audit w' = w_audit w @ [a] \<and> au_action a = ''create'' \<and> au_entity_id a = i
       \<and> w_outbox w' = w_outbox w @ e # es \<and> ob_audit e = length (w_audit w) \<and> ob_entity_id e = i))
     \<and> (\<not> is_zero (in_target_id inp) \<longrightarrow> target_version_checkable (in_target_type inp) \<longrightarrow>
         \<not> target_is_context_only (in_kind inp) \<longrightarrow> \<not> target_version_unpinned (in_kind inp) \<longrightarrow>
         w_versions w (in_target_type inp) (in_target_id inp) = None \<longrightarrow> ctx_actor c = Some p \<longrightarrow>
         insert_proposal s c inp i w = Inl (App ErrNotFound))"
  by (assumption | rule staging_pins_the_current_version_facts conjI impI)+

text \<open>A closed service, context and input.\<close>

definition sample_service :: "time \<Rightarrow> unit service" where
  "sample_service now =
     \<lparr>svc_now = now, svc_effects = (\<lambda>_. None), svc_prechecks = (\<lambda>_. None), svc_declines = (\<lambda>_. None),
      svc_expiries = (\<lambda>_. None), svc_quota = None, svc_num = Some, svc_sha = (\<lambda>_. ''h''),
      svc_pg = string_render, svc_go = string_render, svc_sanitize = id, svc_event_id = (\<lambda>_. 1),
      svc_audit_id = (\<lambda>_. 1)\<rparr>"

lemma sample_service_minted [simp]: "ids_minted (sample_service now)"
  by (simp add: ids_minted_def sample_service_def is_zero_def nil_uuid_def)

definition agent_passport :: principal where
  "agent_passport = (rep RowScopeOwn)\<lparr>p_type := PrincipalAgent, p_id := ''agent:2'', p_passport_id := 2,
     p_on_behalf_of := 7, p_scopes := {ScopeRead, ScopeWrite}\<rparr>"

definition agent_call :: ctx where
  "agent_call = background\<lparr>ctx_workspace := Some 1, ctx_actor := Some agent_passport, ctx_correlation := Some 9\<rparr>"

definition deal_move :: stage_input where
  "deal_move = \<lparr>in_kind = ''advance_deal'', in_proposed_change = JObj [(''stage'', JStr ''won'')],
     in_diff_hash = ''h'', in_target_type = ''deal'', in_target_id = 100, in_target_version = Some 1,
     in_summary = ''s'', in_join_pending = True, in_ttl = None, in_identity = None, in_announce = [],
     in_evidence = [], in_bundle_id = nil_uuid\<rparr>"

definition ids_and_pins :: "'q world \<Rightarrow> (uuid \<times> status \<times> int option) list" where
  "ids_and_pins w = map (\<lambda>a. (ap_id a, ap_status a, ap_target_version a)) (w_approvals w)"

theorem staging_pins_the_current_version_witness:
  "insert_proposal (sample_service 0) agent_call (deal_move\<lparr>in_target_id := 5\<rparr>) 70 sample_world
   = Inl (App ErrNotFound)"
  using staging_pins_the_current_version [THEN conjunct2, THEN conjunct2, THEN mp, THEN mp, THEN mp, THEN mp, THEN mp, THEN mp, of "deal_move\<lparr>in_target_id := 5\<rparr>" sample_world agent_call agent_passport]
  by (simp add: deal_move_def is_zero_def nil_uuid_def target_version_checkable_def version_tables_def
      target_is_context_only_def context_target_kinds_def target_version_unpinned_def unpinned_kinds_def kind_defs
      sample_world_def agent_call_def)

lemma joining_never_duplicates_facts:
  assumes "stage s c inp i w = (Inr j, w')" "in_join_pending inp" "in_identity inp = None"
  defines "key \<equiv> \<lambda>v a. same_target inp a \<and> ap_diff_hash a = in_diff_hash inp \<and> live_pending v a"
  shows "length (filter (key w') (w_approvals w')) = max 1 (length (filter (key w) (w_approvals w)))"
    and "\<exists>a \<in> set (w_approvals w'). ap_id a = j \<and> key w' a"
    and "filter (key w) (w_approvals w) \<noteq> [] \<Longrightarrow>
      length (w_approvals w') = length (w_approvals w) \<and> w_outbox w' = w_outbox w"
proof -
  obtain w1 where step: "(case joinable w inp of
       Some a \<Rightarrow> bindR (rebundle_joined c inp (ap_id a) w) (\<lambda>(_, w'). Inr (ap_id a, w'))
     | None \<Rightarrow> insert_proposal s c inp i w) = Inr (j, w1)" and w': "w' = w1"
    using assms(1) canonical_identity_None [OF assms(3)] assms(2,3)
    by (auto elim!: stage_commits stage_or_join_steps simp: stage_body_def)
  have none: "joinable w inp = None \<longleftrightarrow> filter (key w) (w_approvals w) = []"
    by (simp add: joinable_def key_def)
  from step have "length (filter (key w') (w_approvals w')) = max 1 (length (filter (key w) (w_approvals w)))
    \<and> (\<exists>a \<in> set (w_approvals w'). ap_id a = j \<and> key w' a)
    \<and> (filter (key w) (w_approvals w) \<noteq> [] \<longrightarrow>
        length (w_approvals w') = length (w_approvals w) \<and> w_outbox w' = w_outbox w)"
  proof (cases rule: join_step)
    case (joined a q)
    let ?f = "\<lambda>a. a\<lparr>ap_bundle_id := Some (in_bundle_id inp)\<rparr>"
    have key': "key w' = key w" using same_env_live [OF joined(4)] by (simp add: key_def w')
    have stable: "key w (?f x) = key w x" for x by (simp add: key_def same_target_def live_pending_def)
    have a: "a \<in> set (w_approvals w)" "key w a" using joinable_facts [OF joined(1)] by (auto simp: key_def)
    then have "filter (key w) (w_approvals w) \<noteq> []" by (auto simp: filter_empty_conv)
    then have "1 \<le> length (filter (key w) (w_approvals w))" by (cases "filter (key w) (w_approvals w)") auto
    moreover have "(if q a then ?f a else a) \<in> set (w_approvals w')"
      using a(1) by (auto simp: w' joined(5) set_update_where)
    then have "\<exists>b \<in> set (w_approvals w'). ap_id b = j \<and> key w' b"
      using a(2) stable joined(2) key' by (intro bexI [of _ "if q a then ?f a else a"]) auto
    moreover have "length (filter (key w') (w_approvals w')) = length (filter (key w) (w_approvals w))"
      unfolding key' unfolding w' joined(5) using stable by (simp add: filter_update_where)
    moreover have "length (w_approvals w') = length (w_approvals w)" by (simp add: w' joined(5))
    ultimately show ?thesis using joined(3) by (simp add: w' max_absorb2)
  next
    case (inserted r)
    have key': "key w' = key w" using same_env_live [OF inserted(9)] by (simp add: key_def w')
    have "key w r" using inserted(4,5,6) by (simp add: key_def)
    then show ?thesis unfolding key' using none inserted(1,2,3,8) by (auto simp: w')
  qed
  then show "length (filter (key w') (w_approvals w')) = max 1 (length (filter (key w) (w_approvals w)))"
    and "\<exists>a \<in> set (w_approvals w'). ap_id a = j \<and> key w' a"
    and "filter (key w) (w_approvals w) \<noteq> [] \<Longrightarrow>
      length (w_approvals w') = length (w_approvals w) \<and> w_outbox w' = w_outbox w" by blast+
qed

text \<open>
  Re-proposing joins instead of multiplying. A staging that joins pending work ends with one live
  pending row for its kind, target and diff hash where there was none, and with as many as before where
  there were some; the id it answers is one of them; and when it joined, no row was added and nothing
  was announced a second time.
\<close>

theorem joining_never_duplicates:
  assumes "stage s c inp i w = (Inr j, w')" "in_join_pending inp" "in_identity inp = None"
  defines "key \<equiv> \<lambda>v a. same_target inp a \<and> ap_diff_hash a = in_diff_hash inp \<and> live_pending v a"
  shows "(length (filter (key w') (w_approvals w')) = max 1 (length (filter (key w) (w_approvals w))))
     \<and> (\<exists>a \<in> set (w_approvals w'). ap_id a = j \<and> key w' a)
     \<and> (filter (key w) (w_approvals w) \<noteq> [] \<longrightarrow>
         (length (w_approvals w') = length (w_approvals w) \<and> w_outbox w' = w_outbox w))"
  unfolding key_def by (assumption | rule joining_never_duplicates_facts [OF assms(1-3)] conjI impI)+

lemma one_live_question_per_identity_facts:
  assumes "stage s c inp i w = (Inr j, w')" "in_identity inp = Some (JObj f)"
  shows "a \<in> set (w_approvals w') \<Longrightarrow> same_target inp a \<Longrightarrow> live_pending w' a \<Longrightarrow>
      ap_proposed_change a = JObj payload \<Longrightarrow>
      (\<And>k v. obj_get f k = Some v \<Longrightarrow> obj_get payload k = Some v) \<Longrightarrow> ap_id a = j"
    and "\<exists>a \<in> set (w_approvals w'). ap_id a = j \<and> same_target inp a \<and> live_pending w' a
      \<and> ap_diff_hash a = in_diff_hash inp"
proof -
  obtain inp' where inp': "with_canonical_identity inp = Inr inp'" "stage_body s c inp' i w = Inr (j, w')"
    using assms(1) by (rule stage_commits)
  note can = canonical_identity_Some [OF inp'(1) assms(2)]
  have "stage_or_join_pending s c inp' i w = Inr (j, w')" using inp'(2) can(2) by (simp add: stage_body_def)
  then obtain w1 u where step: "(case joinable w inp' of
       Some a \<Rightarrow> bindR (rebundle_joined c inp' (ap_id a) w) (\<lambda>(_, w'). Inr (ap_id a, w'))
     | None \<Rightarrow> insert_proposal s c inp' i w) = Inr (j, w1)"
    and sup: "supersede_pending c inp' j w1 = Inr (u, w')"
    by (rule stage_or_join_steps) (use can(1) in auto)
  note eff = supersede_effect [OF sup]
  have live: "live_pending w' = live_pending w1" by (rule same_env_live [OF eff(3)])
  show "ap_id a = j" if a: "a \<in> set (w_approvals w')" "same_target inp a" "live_pending w' a"
    "ap_proposed_change a = JObj payload"
    "\<And>k v. obj_get f k = Some v \<Longrightarrow> obj_get payload k = Some v"
  proof (rule ccontr)
    assume "ap_id a \<noteq> j"
    moreover have "contains_identity (ap_proposed_change a) (JObj (sort_members f))"
      using a(4,5) by (simp add: contains_sorted)
    ultimately have sb: "superseded_by w1 inp' j a"
      using a(2,3) can(1,3) live by (simp add: superseded_by_def)
    obtain b where b: "b \<in> set (w_approvals w1)"
      "a = (if superseded_by w1 inp' j b then retire (w_now w1) b else b)"
      using a(1) by (auto simp: eff(1) set_update_where)
    show False
    proof (cases "superseded_by w1 inp' j b")
      case True
      then show ?thesis using b(2) a(3) by simp
    next
      case False
      then show ?thesis using b(2) sb by simp
    qed
  qed
  from step have "\<exists>b \<in> set (w_approvals w1). ap_id b = j \<and> same_target inp b \<and> live_pending w1 b
      \<and> ap_diff_hash b = in_diff_hash inp"
  proof (cases rule: join_step)
    case (joined a q)
    let ?b = "if q a then a\<lparr>ap_bundle_id := Some (in_bundle_id inp')\<rparr> else a"
    note jf = joinable_facts [OF joined(1)]
    have "?b \<in> set (w_approvals w1)" using jf(1) by (auto simp: joined(5) set_update_where)
    moreover have "ap_id ?b = j \<and> same_target inp ?b \<and> live_pending w1 ?b \<and> ap_diff_hash ?b = in_diff_hash inp"
      using jf(2-4) can(3,4) joined(2) same_env_live [OF joined(4)]
      by (simp add: same_target_def live_pending_def fun_eq_iff)
    ultimately show ?thesis by blast
  next
    case (inserted r)
    then show ?thesis using can(3,4) same_env_live [OF inserted(9)] by auto
  qed
  then obtain b where b: "b \<in> set (w_approvals w1)" "ap_id b = j" "same_target inp b" "live_pending w1 b"
    "ap_diff_hash b = in_diff_hash inp" by blast
  then have "\<not> superseded_by w1 inp' j b" by (simp add: superseded_by_def)
  then have "b \<in> set (w_approvals w')" using b(1) by (force simp: eff(1) set_update_where)
  then show "\<exists>a \<in> set (w_approvals w'). ap_id a = j \<and> same_target inp a \<and> live_pending w' a
      \<and> ap_diff_hash a = in_diff_hash inp"
    using b live by auto
qed

text \<open>
  A fresher proposal under one logical identity replaces the stale ones: after it is staged, no
  other live pending row of the same kind and target carries that identity, whatever its diff hash, so
  an outdated value cannot be approved after the fresh one. The survivor is live, it is the row the
  caller is handed, and every row replaced reads as expired and is out of the expiry sweep's reach.
\<close>

theorem one_live_question_per_identity:
  assumes "stage s c inp i w = (Inr j, w')" "in_identity inp = Some (JObj f)"
  shows "(a \<in> set (w_approvals w') \<longrightarrow> same_target inp a \<longrightarrow> live_pending w' a \<longrightarrow>
         ap_proposed_change a = JObj payload \<longrightarrow>
         ((\<forall>k v. obj_get f k = Some v \<longrightarrow> obj_get payload k = Some v)) \<longrightarrow> ap_id a = j)
     \<and> (\<exists>a \<in> set (w_approvals w'). ap_id a = j \<and> same_target inp a \<and> live_pending w' a
      \<and> ap_diff_hash a = in_diff_hash inp)"
  by (assumption | rule one_live_question_per_identity_facts [OF assms] conjI impI | blast)+

lemma refusal_is_remembered_facts:
  "with_canonical_identity inp = Inr inp' \<Longrightarrow> ctx_workspace c \<noteq> None \<Longrightarrow>
     a \<in> set (w_approvals w) \<Longrightarrow> prior_offer inp' a \<Longrightarrow> ap_status a = Rejected \<Longrightarrow>
     stage_unless_declined s c inp i w = (Inr None, w)"
  "with_canonical_identity inp = Inr inp' \<Longrightarrow> stage_unless_declined s c inp i w = (Inr (Some j), w') \<Longrightarrow>
     (\<forall>a \<in> set (w_approvals w). prior_offer inp' a \<longrightarrow> ap_status a \<noteq> Rejected) \<and> stage s c inp i w = (Inr j, w')"
  by (auto simp: stage_unless_declined_def stage_def run_tx_def list_ex_iff split: sum.splits prod.splits if_splits)

text \<open>
  A human's no is remembered. A pass that re-derives a refused proposal stages nothing and changes
  nothing, whatever its diff hash, as long as the refused row carries the same logical identity (or,
  with no identity declared, the same hash) for the same kind and target; and whenever it does stage,
  no such refusal stood.
\<close>

theorem refusal_is_remembered:
  "(with_canonical_identity inp = Inr inp' \<longrightarrow> ctx_workspace c \<noteq> None \<longrightarrow> a \<in> set (w_approvals w) \<longrightarrow>
         prior_offer inp' a \<longrightarrow> ap_status a = Rejected \<longrightarrow>
         stage_unless_declined s c inp i w = (Inr None, w))
     \<and> (with_canonical_identity inp = Inr inp' \<longrightarrow>
         stage_unless_declined s c inp i w = (Inr (Some j), w') \<longrightarrow>
         ((\<forall>a \<in> set (w_approvals w). prior_offer inp' a \<longrightarrow> ap_status a \<noteq> Rejected) \<and> stage s c inp i w = (Inr j, w')))"
  by (assumption | rule refusal_is_remembered_facts conjI impI)+

definition refused_row :: approval where
  "refused_row = sample_approval\<lparr>ap_status := Rejected, ap_diff_hash := ''old'',
     ap_proposed_change := JObj [(''stage'', JStr ''won''), (''note'', JStr ''x'')]\<rparr>"

theorem refusal_is_remembered_witness:
  "stage_unless_declined (sample_service 0) agent_call (deal_move\<lparr>in_identity := Some (JObj [(''stage'', JStr ''won'')])\<rparr>)
     70 (sample_world\<lparr>w_approvals := [refused_row]\<rparr>) = (Inr None, sample_world\<lparr>w_approvals := [refused_row]\<rparr>)"
proof -
  let ?inp = "deal_move\<lparr>in_identity := Some (JObj [(''stage'', JStr ''won'')])\<rparr>"
  have can: "with_canonical_identity ?inp = Inr ?inp" by code_simp
  have prior: "prior_offer ?inp refused_row" by code_simp
  show ?thesis
    by (rule refusal_is_remembered [THEN conjunct1, THEN mp, THEN mp, THEN mp, THEN mp, THEN mp, OF can _ _ prior]) (simp_all add: agent_call_def refused_row_def)
qed

theorem joining_never_duplicates_witness:
  "length (filter (\<lambda>a. same_target deal_move a \<and> ap_diff_hash a = ''h''
       \<and> live_pending (snd (stage (sample_service 0) agent_call deal_move 70 sample_world)) a)
     (w_approvals (snd (stage (sample_service 0) agent_call deal_move 70 sample_world)))) = 1"
proof -
  let ?r = "stage (sample_service 0) agent_call deal_move 70 sample_world"
  have "fst ?r = Inr 70" by code_simp
  then have run: "?r = (Inr 70, snd ?r)" by (metis prod.collapse)
  have "w_approvals sample_world = []" by (simp add: sample_world_def)
  then show ?thesis
    using joining_never_duplicates [THEN conjunct1, OF run] by (simp add: deal_move_def)
qed

theorem one_live_question_per_identity_witness:
  "\<exists>a \<in> set (w_approvals (snd (stage (sample_service 0) agent_call
        (deal_move\<lparr>in_identity := Some (JObj [(''stage'', JStr ''won'')])\<rparr>) 70 sample_world))). ap_id a = 70"
proof -
  let ?inp = "deal_move\<lparr>in_identity := Some (JObj [(''stage'', JStr ''won'')])\<rparr>"
  let ?r = "stage (sample_service 0) agent_call ?inp 70 sample_world"
  have "fst ?r = Inr 70" by code_simp
  then have run: "?r = (Inr 70, snd ?r)" by (metis prod.collapse)
  show ?thesis
    using one_live_question_per_identity [THEN conjunct2, OF run, of "[(''stage'', JStr ''won'')]"] by auto
qed

lemma withdrawal_exact_facts:
  assumes "withdraw_in_tx c i reason w = Inr (b, w')"
  shows "b \<longleftrightarrow> (\<exists>a \<in> set (w_approvals w). ap_id a = i \<and> ap_status a = Pending)"
    and "w_outbox w' = w_outbox w" "length (w_audit w') = length (w_audit w) + (if b then 1 else 0)"
    and "a' \<in> set (w_approvals w') \<Longrightarrow> ap_id a' = i \<Longrightarrow> effective_status a' now \<noteq> Pending"
    and "a \<in> set (w_approvals w) \<Longrightarrow> ap_id a \<noteq> i \<or> ap_status a \<noteq> Pending \<Longrightarrow> a \<in> set (w_approvals w')"
proof -
  obtain p where p: "ctx_actor c = Some p"
    using assms by (auto simp: withdraw_in_tx_def split: option.splits)
  let ?open = "\<lambda>a. ap_id a = i \<and> ap_status a = Pending"
  have res: "b = list_ex ?open (w_approvals w) \<and> w_outbox w' = w_outbox w
    \<and> length (w_audit w') = length (w_audit w) + (if b then 1 else 0)
    \<and> w_approvals w' = update_where ?open (retire (w_now w)) (w_approvals w)"
  proof (cases "list_ex ?open (w_approvals w)")
    case True
    then have "b = True" "w' = snd (audit p ''update'' i [(''withdrawn'', JBool True), (''reason'', JStr reason)]
        (update_rows ?open (retire (w_now w)) w))"
      using assms p by (simp_all add: withdraw_in_tx_def Let_def)
    then show ?thesis using True by (simp add: audit_def)
  next
    case False
    then have "b = False" "w' = w" using assms p by (simp_all add: withdraw_in_tx_def Let_def)
    moreover have "update_where ?open (retire (w_now w)) (w_approvals w) = w_approvals w"
      by (rule update_where_id) (use False in \<open>auto simp: list_ex_iff\<close>)
    ultimately show ?thesis using False by simp
  qed
  show "b \<longleftrightarrow> (\<exists>a \<in> set (w_approvals w). ap_id a = i \<and> ap_status a = Pending)" using res by (simp add: list_ex_iff)
  show "w_outbox w' = w_outbox w" by (rule res [THEN conjunct2, THEN conjunct1])
  show "length (w_audit w') = length (w_audit w) + (if b then 1 else 0)"
    by (rule res [THEN conjunct2, THEN conjunct2, THEN conjunct1])
  have rows: "set (w_approvals w') = (\<lambda>r. if ?open r then retire (w_now w) r else r) ` set (w_approvals w)"
    using res [THEN conjunct2, THEN conjunct2, THEN conjunct2] by (simp only: set_update_where)
  show "effective_status a' now \<noteq> Pending" if a': "a' \<in> set (w_approvals w')" "ap_id a' = i"
  proof -
    obtain r where r: "a' = (if ?open r then retire (w_now w) r else r)" using a'(1) rows by blast
    show ?thesis
    proof (cases "?open r")
      case True
      then show ?thesis using r effective_status_cases(1) [of a' now] by simp
    next
      case False
      then have "a' = r" using r by (simp only: if_False)
      then have "ap_status a' \<noteq> Pending" using False a'(2) by simp
      then show ?thesis using effective_status_cases(1) [of a' now] by blast
    qed
  qed
  show "a \<in> set (w_approvals w')" if a: "a \<in> set (w_approvals w)" "ap_id a \<noteq> i \<or> ap_status a \<noteq> Pending"
  proof -
    have "a = (if ?open a then retire (w_now w) a else a)" using a(2) by auto
    then show ?thesis using a(1) rows by blast
  qed
qed

text \<open>
  A withdrawal takes back an open question and nothing else. It reports true exactly when a pending
  row carried the id; that row becomes expired under any reader's clock, a kind that
  never expires by itself included; a row somebody answered is left as it was; one audit row is
  written and no event.
\<close>

theorem withdrawal_exact:
  assumes "withdraw_in_tx c i reason w = Inr (b, w')"
  shows "(b \<longleftrightarrow> (\<exists>a \<in> set (w_approvals w). ap_id a = i \<and> ap_status a = Pending))
     \<and> (w_outbox w' = w_outbox w)
     \<and> (length (w_audit w') = length (w_audit w) + (if b then 1 else 0))
     \<and> (a' \<in> set (w_approvals w') \<longrightarrow> ap_id a' = i \<longrightarrow> effective_status a' now \<noteq> Pending)
     \<and> (a \<in> set (w_approvals w) \<longrightarrow> (ap_id a \<noteq> i \<or> ap_status a \<noteq> Pending) \<longrightarrow>
         a \<in> set (w_approvals w'))"
  by (assumption | rule withdrawal_exact_facts [OF assms] conjI impI)+

theorem withdrawal_exact_witness:
  "\<exists>w' :: unit world. withdraw_in_tx agent_call 1 ''r''
       (sample_world\<lparr>w_approvals := [sample_approval\<lparr>ap_kind := kind_scheduled_send_held, ap_status := Pending\<rparr>]\<rparr>)
     = Inr (True, w') \<and> length (w_audit w') = 1"
proof -
  let ?w = "sample_world\<lparr>w_approvals := [sample_approval\<lparr>ap_kind := kind_scheduled_send_held, ap_status := Pending\<rparr>]\<rparr>"
  obtain w' where run: "withdraw_in_tx agent_call 1 ''r'' ?w = Inr (True, w')"
    by (auto simp: withdraw_in_tx_def agent_call_def sample_approval_def)
  moreover have "w_audit ?w = []" by (simp add: sample_world_def)
  ultimately show ?thesis using withdrawal_exact [THEN conjunct2, THEN conjunct2, THEN conjunct1, OF run] by auto
qed

end
