(* ===== verification/Approval_Redeem.thy ===== *)
theory Approval_Redeem
  imports Approval_Staging
begin

text \<open>
  Spending a decision: \<^verbatim>\<open>redeem.go\<close>, the agent's view of its own proposal
  (\<^verbatim>\<open>taskstate.go\<close>) and the staging of a refused agent call
  (\<^verbatim>\<open>stageagentcall.go\<close>) of \<^verbatim>\<open>backend/internal/modules/approvals\<close>.
\<close>

section \<open>Redemption\<close>

definition validate_redemption_target :: "'q world \<Rightarrow> approval \<Rightarrow> appr_error + unit" where
  "validate_redemption_target w a =
     (case (ap_target_version a, ap_target_id a, ap_target_type a) of
        (Some v, Some i, Some t) \<Rightarrow>
          bindR (target_version w t i) (\<lambda>current. guardR (current = v) (App ErrVersionSkew))
      | _ \<Rightarrow> Inr ())"

definition consumable :: "uuid \<Rightarrow> approval \<Rightarrow> bool" where
  "consumable i a \<longleftrightarrow> ap_id a = i \<and> ap_consumed_at a = None"

definition redeem_in_tx :: "'q service \<Rightarrow> ctx \<Rightarrow> uuid \<Rightarrow> string \<Rightarrow> string \<Rightarrow> ('q, int option) tx" where
  "redeem_in_tx s c i tool diff_hash w =
     (case ctx_actor c of
        None \<Rightarrow> Inl (other ''crmapprovals: no actor bound to context'')
      | Some p \<Rightarrow>
          (case get_row i w of
             Inl _ \<Rightarrow> Inl (App ErrApprovalTokenInvalid)
           | Inr a \<Rightarrow>
               bindR (lift_app (validate_redemption a p tool diff_hash (svc_now s))) (\<lambda>_.
               bindR (validate_redemption_target w a) (\<lambda>_.
                 if length (filter (consumable i) (w_approvals w)) \<noteq> 1 then Inl (App ErrApprovalTokenInvalid)
                 else Inr (ap_target_version a,
                   snd (audit p ''update'' i [(''kind'', JStr (ap_kind a)), (''redeemed'', JBool True)]
                     (update_rows (consumable i) (\<lambda>a. a\<lparr>ap_consumed_at := Some (w_now w)\<rparr>) w)))))))"

definition redeem ::
  "'q service \<Rightarrow> ctx \<Rightarrow> uuid \<Rightarrow> string \<Rightarrow> string \<Rightarrow> 'q world \<Rightarrow> (appr_error + int option) \<times> 'q world" where
  "redeem s c i tool diff_hash = run_tx (redeem_in_tx s c i tool diff_hash)"

definition redeem_and_apply ::
  "'q service \<Rightarrow> ctx \<Rightarrow> uuid \<Rightarrow> string \<Rightarrow> string \<Rightarrow> ('q, unit) tx \<Rightarrow> 'q world
     \<Rightarrow> (appr_error + unit) \<times> 'q world" where
  "redeem_and_apply s c i tool diff_hash apply_tx =
     run_tx (\<lambda>w. bindR (redeem_in_tx s c i tool diff_hash w) (\<lambda>(_, w'). apply_tx w'))"

section \<open>Staging a refused call\<close>

definition redeemable_now ::
  "'q service \<Rightarrow> 'q world \<Rightarrow> approval \<Rightarrow> principal \<Rightarrow> string \<Rightarrow> string \<Rightarrow> appr_error + bool" where
  "redeemable_now s w a p tool diff_hash =
     (case validate_redemption a p tool diff_hash (svc_now s) of
        Inl e \<Rightarrow> if e = ErrApprovalTokenInvalid \<or> e = ErrRequiresApproval then Inr False else Inl (App e)
      | Inr _ \<Rightarrow>
          (case validate_redemption_target w a of
             Inl e \<Rightarrow> if e = App ErrVersionSkew \<or> e = App ErrNotFound then Inr False else Inl e
           | Inr _ \<Rightarrow> Inr True))"

definition spendable_approval ::
  "'q service \<Rightarrow> 'q world \<Rightarrow> uuid \<Rightarrow> principal \<Rightarrow> stage_input \<Rightarrow> appr_error + bool" where
  "spendable_approval s w i p inp =
     bindR (get_row i w) (\<lambda>a. redeemable_now s w a p (in_kind inp) (in_diff_hash inp))"

definition live_candidate :: "'q world \<Rightarrow> stage_input \<Rightarrow> principal \<Rightarrow> approval \<Rightarrow> bool" where
  "live_candidate w inp p a \<longleftrightarrow> ap_kind a = in_kind inp \<and> ap_diff_hash a = in_diff_hash inp
     \<and> ap_target_id a = null_uuid (in_target_id inp) \<and> ap_target_type a = null_str (in_target_type inp)
     \<and> ap_passport_id a = null_uuid (p_passport_id p)
     \<and> (live_pending w a \<or> (ap_status a = Approved \<and> ap_consumed_at a = None))"

fun pick_live ::
  "'q service \<Rightarrow> 'q world \<Rightarrow> stage_input \<Rightarrow> principal \<Rightarrow> uuid option \<Rightarrow> approval list
     \<Rightarrow> appr_error + (uuid \<times> bool) option" where
  "pick_live s w inp p undecided [] = Inr (map_option (\<lambda>i. (i, False)) undecided)"
| "pick_live s w inp p undecided (a # as) =
     (if ap_status a = Pending then
        pick_live s w inp p (case undecided of None \<Rightarrow> Some (ap_id a) | Some i \<Rightarrow> Some i) as
      else bindR (spendable_approval s w (ap_id a) p inp) (\<lambda>ok.
        if ok then Inr (Some (ap_id a, True)) else pick_live s w inp p undecided as))"

definition live_approval_for_call ::
  "'q service \<Rightarrow> 'q world \<Rightarrow> stage_input \<Rightarrow> principal \<Rightarrow> appr_error + (uuid \<times> bool) option" where
  "live_approval_for_call s w inp p =
     pick_live s w inp p None (lock_order (filter (live_candidate w inp p) (w_approvals w)))"

definition stage_agent_call ::
  "'q service \<Rightarrow> ctx \<Rightarrow> stage_input \<Rightarrow> uuid \<Rightarrow> 'q world \<Rightarrow> (appr_error + (uuid \<times> bool)) \<times> 'q world" where
  "stage_agent_call s c inp new_id w =
     (if in_identity inp \<noteq> None
      then (Inl (other ''crmapprovals: StageAgentCall takes no Identity''), w)
      else case ctx_actor c of
        None \<Rightarrow> (Inl (other ''crmapprovals: no actor bound to context''), w)
      | Some p \<Rightarrow>
          run_tx (\<lambda>w.
            if ctx_workspace c = None then Inl (other ''crmapprovals: no workspace bound to context'')
            else bindR (live_approval_for_call s w inp p) (\<lambda>found.
              case found of
                Some live \<Rightarrow> Inr (live, w)
              | None \<Rightarrow> bindR (insert_proposal s c inp new_id w) (\<lambda>(i, w'). Inr ((i, False), w')))) w)"

section \<open>Polling\<close>

record task_state =
  ts_status :: status
  ts_expires_at :: time
  ts_consumed :: bool

definition staging_passport :: "ctx \<Rightarrow> appr_error + uuid" where
  "staging_passport c =
     (case ctx_actor c of
        None \<Rightarrow> Inl (other ''crmapprovals: only an agent passport may poll its own staged proposal'')
      | Some p \<Rightarrow>
          if is_zero (p_passport_id p)
          then Inl (other ''crmapprovals: only an agent passport may poll its own staged proposal'')
          else Inr (p_passport_id p))"

definition own_proposal :: "uuid \<Rightarrow> uuid \<Rightarrow> 'q world \<Rightarrow> appr_error + approval" where
  "own_proposal i passport w =
     bindR (get_row i w) (\<lambda>a.
       if ap_passport_id a = None \<or> ap_passport_id a \<noteq> Some passport then Inl (App ErrNotFound) else Inr a)"

definition read_own_proposal :: "ctx \<Rightarrow> uuid \<Rightarrow> 'q world \<Rightarrow> appr_error + approval" where
  "read_own_proposal c i w = bindR (staging_passport c) (\<lambda>pp. own_proposal i pp w)"

definition task_state :: "'q service \<Rightarrow> ctx \<Rightarrow> uuid \<Rightarrow> 'q world \<Rightarrow> appr_error + task_state" where
  "task_state s c i w =
     bindR (read_own_proposal c i w) (\<lambda>a.
       let st = effective_status a (svc_now s) in
       Inr \<lparr>ts_status = st, ts_expires_at = actionable_until a st, ts_consumed = (ap_consumed_at a \<noteq> None)\<rparr>)"

definition proposed_change :: "ctx \<Rightarrow> uuid \<Rightarrow> 'q world \<Rightarrow> appr_error + json" where
  "proposed_change c i w = bindR (read_own_proposal c i w) (\<lambda>a. Inr (ap_proposed_change a))"

definition withdraw :: "ctx \<Rightarrow> uuid \<Rightarrow> string \<Rightarrow> 'q world \<Rightarrow> (appr_error + bool) \<times> 'q world" where
  "withdraw c i reason w =
     (case staging_passport c of
        Inl e \<Rightarrow> (Inl e, w)
      | Inr pp \<Rightarrow> run_tx (\<lambda>w. bindR (own_proposal i pp w) (\<lambda>_. withdraw_in_tx c i reason w)) w)"

section \<open>Lemmas\<close>

lemma get_row_Inr: "get_row i w = Inr a \<Longrightarrow> ap_id a = i \<and> a \<in> set (w_approvals w)"
  by (auto simp: get_row_def dest: find_SomeD split: option.splits)

lemma get_row_update:
  assumes "\<And>r. ap_id (f r) = ap_id r"
  shows "get_row i (update_rows P f w) =
    (case get_row i w of Inl e \<Rightarrow> Inl e | Inr a \<Rightarrow> Inr (if P a then f a else a))"
proof -
  have "find (\<lambda>a. ap_id a = i) (update_where P f xs) =
      map_option (\<lambda>a. if P a then f a else a) (find (\<lambda>a. ap_id a = i) xs)" for xs
    using assms by (induction xs) auto
  then show ?thesis by (auto simp: get_row_def split: option.splits)
qed

lemma get_row_audit [simp]: "get_row i (snd (audit p act e ev w)) = get_row i w"
  by (simp add: get_row_def)

lemma get_row_cong: "w_approvals w' = w_approvals w \<Longrightarrow> get_row i w' = get_row i w"
  by (simp add: get_row_def)

lemma validate_redemption_target_iff:
  "validate_redemption_target w a = Inr () \<longleftrightarrow>
     (\<forall>v i t. ap_target_version a = Some v \<longrightarrow> ap_target_id a = Some i \<longrightarrow> ap_target_type a = Some t \<longrightarrow>
        target_version w t i = Inr v)"
  by (auto simp: validate_redemption_target_def split: option.splits)

text \<open>Exactly what a redemption needs, and what it writes.\<close>

lemma redeem_in_tx_iff:
  "redeem_in_tx s c i tool h w = Inr (v, w') \<longleftrightarrow>
     (\<exists>p a. ctx_actor c = Some p \<and> get_row i w = Inr a
        \<and> validate_redemption a p tool h (svc_now s) = Inr () \<and> validate_redemption_target w a = Inr ()
        \<and> length (filter (consumable i) (w_approvals w)) = 1 \<and> v = ap_target_version a
        \<and> w' = snd (audit p ''update'' i [(''kind'', JStr (ap_kind a)), (''redeemed'', JBool True)]
            (update_rows (consumable i) (\<lambda>a. a\<lparr>ap_consumed_at := Some (w_now w)\<rparr>) w)))"
  by (auto simp: redeem_in_tx_def split: option.splits sum.splits if_splits)

lemma redeem_consumes:
  assumes "redeem_in_tx s c i tool h w = Inr (v, w')"
  obtains a where "get_row i w = Inr a" "get_row i w' = Inr (a\<lparr>ap_consumed_at := Some (w_now w)\<rparr>)"
    "ap_consumed_at a = None" "same_env w w'" "w_outbox w' = w_outbox w"
    "length (w_audit w') = Suc (length (w_audit w))"
    "w_approvals w' = update_where (consumable i) (\<lambda>a. a\<lparr>ap_consumed_at := Some (w_now w)\<rparr>) (w_approvals w)"
proof -
  obtain p a where a: "get_row i w = Inr a" "validate_redemption a p tool h (svc_now s) = Inr ()"
    "w' = snd (audit p ''update'' i [(''kind'', JStr (ap_kind a)), (''redeemed'', JBool True)]
            (update_rows (consumable i) (\<lambda>a. a\<lparr>ap_consumed_at := Some (w_now w)\<rparr>) w))"
    using assms unfolding redeem_in_tx_iff by blast
  have free: "ap_consumed_at a = None" using a(2) by (simp add: validate_redemption_iff)
  have "get_row i w' = Inr (a\<lparr>ap_consumed_at := Some (w_now w)\<rparr>)"
    using a(1) free get_row_Inr [OF a(1)] by (simp add: a(3) get_row_update consumable_def)
  then show ?thesis using that a(1) free by (simp add: a(3) audit_def same_env_def update_rows_def)
qed

lemma unique_consumable:
  assumes "distinct (map ap_id xs)" "a \<in> set xs" "ap_consumed_at a = None"
  shows "length (filter (consumable (ap_id a)) xs) = 1"
  using assms
proof (induction xs)
  case (Cons x xs)
  show ?case
  proof (cases "a = x")
    case True
    then have "filter (consumable (ap_id a)) xs = []"
      using Cons.prems(1) by (auto simp: filter_empty_conv consumable_def rev_image_eqI)
    moreover have "consumable (ap_id a) x" using True Cons.prems(3) by (simp add: consumable_def)
    ultimately show ?thesis by simp
  next
    case False
    then have "a \<in> set xs" using Cons.prems(2) by simp
    then have "ap_id x \<noteq> ap_id a" using Cons.prems(1) by (auto simp: rev_image_eqI)
    then show ?thesis using Cons.IH Cons.prems \<open>a \<in> set xs\<close> by (simp add: consumable_def)
  qed
qed simp

lemma pick_live_True:
  "pick_live s w inp p u xs = Inr (Some (j, True)) \<Longrightarrow>
     \<exists>a \<in> set xs. ap_id a = j \<and> ap_status a \<noteq> Pending \<and> spendable_approval s w j p inp = Inr True"
  by (induction xs arbitrary: u) (auto split: if_splits)

lemma pick_live_False:
  "pick_live s w inp p u xs = Inr (Some (j, False)) \<Longrightarrow>
     (u = Some j \<or> (\<exists>a \<in> set xs. ap_id a = j \<and> ap_status a = Pending))
     \<and> (\<forall>a \<in> set xs. ap_status a \<noteq> Pending \<longrightarrow> spendable_approval s w (ap_id a) p inp = Inr False)"
  by (induction xs arbitrary: u) (fastforce split: if_splits option.splits)+

lemma pick_live_None:
  "pick_live s w inp p u xs = Inr None \<Longrightarrow> u = None \<and> (\<forall>a \<in> set xs. ap_status a \<noteq> Pending
     \<and> spendable_approval s w (ap_id a) p inp = Inr False)"
  by (induction xs arbitrary: u) (fastforce split: if_splits option.splits)+

lemma set_lock_order [simp]: "set (lock_order xs) = set xs"
  by (simp add: lock_order_def)

lemma redeemable_now_Inr:
  "redeemable_now s w a p tool h = Inr b \<Longrightarrow>
     b \<longleftrightarrow> validate_redemption a p tool h (svc_now s) = Inr () \<and> validate_redemption_target w a = Inr ()"
  by (cases "validate_redemption a p tool h (svc_now s)"; cases "validate_redemption_target w a")
    (auto simp: redeemable_now_def split: if_splits)

lemma spendable_redeemable:
  assumes "spendable_approval s w j p inp = Inr True"
  obtains a where "get_row j w = Inr a"
    "validate_redemption a p (in_kind inp) (in_diff_hash inp) (svc_now s) = Inr ()"
    "validate_redemption_target w a = Inr ()"
proof -
  obtain b where "get_row j w = Inr b" "redeemable_now s w b p (in_kind inp) (in_diff_hash inp) = Inr True"
    using assms by (auto simp: spendable_approval_def)
  then show ?thesis using that redeemable_now_Inr by blast
qed

section \<open>Properties\<close>

lemma redemption_spends_once_facts:
  assumes "redeem s c i tool h w = (Inr v, w')"
  shows "\<exists>p a. ctx_actor c = Some p \<and> get_row i w = Inr a \<and> ap_status a = Approved \<and> ap_consumed_at a = None
      \<and> fits_staged_call a p tool h \<and> (\<forall>t. ap_decided_at a = Some t \<longrightarrow> svc_now s \<le> t + redemption_ttl)
      \<and> v = ap_target_version a
      \<and> (\<forall>n x t. v = Some n \<and> ap_target_id a = Some x \<and> ap_target_type a = Some t \<longrightarrow> w_versions w t x = Some n)
      \<and> get_row i w' = Inr (a\<lparr>ap_consumed_at := Some (w_now w)\<rparr>)"
    and "\<exists>e. redeem s2 c2 i tool2 h2 w' = (Inl e, w')"
    and "filter (\<lambda>a. ap_id a \<noteq> i) (w_approvals w') = filter (\<lambda>a. ap_id a \<noteq> i) (w_approvals w)"
    and "w_outbox w' = w_outbox w" "length (w_audit w') = Suc (length (w_audit w))"
proof -
  have tx: "redeem_in_tx s c i tool h w = Inr (v, w')"
    using assms run_tx_InrD unfolding redeem_def by metis
  obtain a where a: "get_row i w = Inr a" "get_row i w' = Inr (a\<lparr>ap_consumed_at := Some (w_now w)\<rparr>)"
    "w_outbox w' = w_outbox w" "length (w_audit w') = Suc (length (w_audit w))"
    "w_approvals w' = update_where (consumable i) (\<lambda>a. a\<lparr>ap_consumed_at := Some (w_now w)\<rparr>) (w_approvals w)"
    using redeem_consumes [OF tx] by metis
  obtain p where p: "ctx_actor c = Some p" "validate_redemption a p tool h (svc_now s) = Inr ()"
    "validate_redemption_target w a = Inr ()" "v = ap_target_version a"
    using tx a(1) unfolding redeem_in_tx_iff by auto
  have "\<forall>n x t. v = Some n \<and> ap_target_id a = Some x \<and> ap_target_type a = Some t \<longrightarrow> w_versions w t x = Some n"
    using p(3,4) by (auto simp: validate_redemption_target_iff target_version_def split: if_splits option.splits)
  then show "\<exists>p a. ctx_actor c = Some p \<and> get_row i w = Inr a \<and> ap_status a = Approved \<and> ap_consumed_at a = None
      \<and> fits_staged_call a p tool h \<and> (\<forall>t. ap_decided_at a = Some t \<longrightarrow> svc_now s \<le> t + redemption_ttl)
      \<and> v = ap_target_version a
      \<and> (\<forall>n x t. v = Some n \<and> ap_target_id a = Some x \<and> ap_target_type a = Some t \<longrightarrow> w_versions w t x = Some n)
      \<and> get_row i w' = Inr (a\<lparr>ap_consumed_at := Some (w_now w)\<rparr>)"
    using p(1,2,4) a(1,2) unfolding validate_redemption_iff by blast
  have "\<nexists>r. redeem_in_tx s2 c2 i tool2 h2 w' = Inr r"
    using a(2) by (auto simp: redeem_in_tx_iff validate_redemption_iff)
  then obtain e where "redeem_in_tx s2 c2 i tool2 h2 w' = Inl e"
    by (cases "redeem_in_tx s2 c2 i tool2 h2 w'") auto
  then show "\<exists>e. redeem s2 c2 i tool2 h2 w' = (Inl e, w')" by (simp add: redeem_def run_tx_Inl)
  show "filter (\<lambda>a. ap_id a \<noteq> i) (w_approvals w') = filter (\<lambda>a. ap_id a \<noteq> i) (w_approvals w)"
    unfolding a(5) by (rule filter_update_where_other) (auto simp: consumable_def)
  show "w_outbox w' = w_outbox w" "length (w_audit w') = Suc (length (w_audit w))" by (rule a(3), rule a(4))
qed

text \<open>
  C5. An approval is spent exactly once, by the call it was granted to. A redemption that succeeds found
  the row approved and unconsumed, for this tool and diff hash, staged by this passport (when the caller
  asserts one), within the redemption window, its target still at the pinned version; it marks the row
  consumed, changes no other row, writes one audit row and no event; and no later redemption of that
  row succeeds, whoever asks, with whatever call, on whatever clock.
\<close>

theorem redemption_spends_once:
  assumes "redeem s c i tool h w = (Inr v, w')"
  shows "(\<exists>p a. ctx_actor c = Some p \<and> get_row i w = Inr a \<and> ap_status a = Approved \<and> ap_consumed_at a = None
      \<and> fits_staged_call a p tool h \<and> (\<forall>t. ap_decided_at a = Some t \<longrightarrow> svc_now s \<le> t + redemption_ttl)
      \<and> v = ap_target_version a
      \<and> (\<forall>n x t. v = Some n \<and> ap_target_id a = Some x \<and> ap_target_type a = Some t \<longrightarrow> w_versions w t x = Some n)
      \<and> get_row i w' = Inr (a\<lparr>ap_consumed_at := Some (w_now w)\<rparr>))
     \<and> (\<exists>e. redeem s2 c2 i tool2 h2 w' = (Inl e, w'))
     \<and> (filter (\<lambda>a. ap_id a \<noteq> i) (w_approvals w') = filter (\<lambda>a. ap_id a \<noteq> i) (w_approvals w))
     \<and> (w_outbox w' = w_outbox w)
     \<and> (length (w_audit w') = Suc (length (w_audit w)))"
  by (assumption | rule redemption_spends_once_facts [OF assms] conjI impI)+

definition approved_world :: "unit world" where
  "approved_world = sample_world\<lparr>w_approvals := [sample_approval]\<rparr>"

lemma sample_redemption:
  "redeem (sample_service 101) agent_call 1 ''advance_deal'' ''h'' approved_world
   = (Inr (Some 3), snd (redeem (sample_service 101) agent_call 1 ''advance_deal'' ''h'' approved_world))"
proof -
  have "fst (redeem (sample_service 101) agent_call 1 ''advance_deal'' ''h'' approved_world) = Inr (Some 3)"
    by code_simp
  then show ?thesis by (metis prod.collapse)
qed

theorem redemption_spends_once_witness:
  "\<exists>e. fst (redeem (sample_service 101) agent_call 1 ''advance_deal'' ''h''
      (snd (redeem (sample_service 101) agent_call 1 ''advance_deal'' ''h'' approved_world))) = Inl e"
  using redemption_spends_once [THEN conjunct2, THEN conjunct1, OF sample_redemption] by (metis fst_conv)

lemma redeem_and_apply_is_atomic_facts:
  assumes "redeem_in_tx s c i tool h w = Inr (v, w1)"
  shows "apply_tx w1 = Inl e \<Longrightarrow> redeem_and_apply s c i tool h apply_tx w = (Inl e, w)
      \<and> fst (redeem s c i tool h (snd (redeem_and_apply s c i tool h apply_tx w))) = Inr v"
    and "apply_tx w1 = Inr (u, w2) \<Longrightarrow> redeem_and_apply s c i tool h apply_tx w = (Inr u, w2)
      \<and> (\<exists>a. get_row i w1 = Inr a \<and> ap_consumed_at a = Some (w_now w))"
proof -
  show "apply_tx w1 = Inl e \<Longrightarrow> redeem_and_apply s c i tool h apply_tx w = (Inl e, w)
      \<and> fst (redeem s c i tool h (snd (redeem_and_apply s c i tool h apply_tx w))) = Inr v"
    using assms by (simp add: redeem_and_apply_def redeem_def run_tx_def)
  show "apply_tx w1 = Inr (u, w2) \<Longrightarrow> redeem_and_apply s c i tool h apply_tx w = (Inr u, w2)
      \<and> (\<exists>a. get_row i w1 = Inr a \<and> ap_consumed_at a = Some (w_now w))"
  proof -
    assume ok: "apply_tx w1 = Inr (u, w2)"
    have "\<exists>a. get_row i w1 = Inr a \<and> ap_consumed_at a = Some (w_now w)"
      by (rule redeem_consumes [OF assms]) simp
    then show ?thesis using ok assms by (simp add: redeem_and_apply_def run_tx_def)
  qed
qed

text \<open>
  Redeem-and-apply is all or nothing: when the effect fails nothing is consumed and nothing written,
  so the same redemption is still accepted and the approval can be retried; when it succeeds the row
  the effect saw was already consumed in the same transaction.
\<close>

theorem redeem_and_apply_is_atomic:
  assumes "redeem_in_tx s c i tool h w = Inr (v, w1)"
  shows "(apply_tx w1 = Inl e \<longrightarrow> (redeem_and_apply s c i tool h apply_tx w = (Inl e, w)
      \<and> fst (redeem s c i tool h (snd (redeem_and_apply s c i tool h apply_tx w))) = Inr v))
     \<and> (apply_tx w1 = Inr (u, w2) \<longrightarrow> (redeem_and_apply s c i tool h apply_tx w = (Inr u, w2)
      \<and> (\<exists>a. get_row i w1 = Inr a \<and> ap_consumed_at a = Some (w_now w))))"
  by (assumption | rule redeem_and_apply_is_atomic_facts [OF assms] conjI impI)+

theorem redeem_and_apply_is_atomic_witness:
  "redeem_and_apply (sample_service 101) agent_call 1 ''advance_deal'' ''h'' (\<lambda>_. Inl (App ErrConflict)) approved_world
   = (Inl (App ErrConflict), approved_world)"
proof -
  have "\<exists>v w1. redeem_in_tx (sample_service 101) agent_call 1 ''advance_deal'' ''h'' approved_world = Inr (v, w1)"
    using run_tx_InrD [OF sample_redemption [unfolded redeem_def]] by blast
  then obtain v w1 where "redeem_in_tx (sample_service 101) agent_call 1 ''advance_deal'' ''h'' approved_world
      = Inr (v, w1)" by blast
  from redeem_and_apply_is_atomic [THEN conjunct1, THEN mp, OF this, of "\<lambda>_. Inl (App ErrConflict)", OF refl]
  show ?thesis by (rule conjunct1)
qed

lemma agent_call_reuses_live_authority_facts:
  assumes "stage_agent_call s c inp i w = (Inr (j, approved), w')" "distinct (map ap_id (w_approvals w))"
    and "ctx_actor c = Some p"
  shows "approved \<Longrightarrow> w' = w \<and> (\<exists>v. fst (redeem s c j (in_kind inp) (in_diff_hash inp) w) = Inr v)"
    and "\<not> approved \<Longrightarrow> (\<forall>a \<in> set (w_approvals w). live_candidate w inp p a \<longrightarrow> ap_status a = Approved \<longrightarrow>
        (\<exists>e. redeem s c (ap_id a) (in_kind inp) (in_diff_hash inp) w = (Inl e, w)))"
    and "\<not> approved \<Longrightarrow> (w' = w \<and> (\<exists>a \<in> set (w_approvals w). ap_id a = j \<and> live_candidate w inp p a \<and> live_pending w a))
        \<or> (j = i \<and> insert_proposal s c inp i w = Inr (i, w')
            \<and> \<not> (\<exists>a \<in> set (w_approvals w). live_candidate w inp p a \<and> ap_status a = Pending))"
proof -
  obtain found where found: "live_approval_for_call s w inp p = Inr found"
    and res: "(case found of Some live \<Rightarrow> Inr (live, w)
        | None \<Rightarrow> bindR (insert_proposal s c inp i w) (\<lambda>(k, w'). Inr ((k, False), w'))) = Inr ((j, approved), w')"
    using assms(1,3) by (auto simp: stage_agent_call_def run_tx_def split: if_splits sum.splits)
  note pick = found [unfolded live_approval_for_call_def]
  have unspendable: "\<exists>e. redeem s c (ap_id a) (in_kind inp) (in_diff_hash inp) w = (Inl e, w)"
    if sp: "spendable_approval s w (ap_id a) p inp = Inr False" for a
  proof -
    obtain b where b: "get_row (ap_id a) w = Inr b"
      "redeemable_now s w b p (in_kind inp) (in_diff_hash inp) = Inr False"
      using sp by (auto simp: spendable_approval_def)
    have "\<not> (validate_redemption b p (in_kind inp) (in_diff_hash inp) (svc_now s) = Inr ()
        \<and> validate_redemption_target w b = Inr ())"
      using redeemable_now_Inr [OF b(2)] by blast
    then have "\<nexists>r. redeem_in_tx s c (ap_id a) (in_kind inp) (in_diff_hash inp) w = Inr r"
      using b(1) assms(3) by (auto simp: redeem_in_tx_iff)
    then obtain e where "redeem_in_tx s c (ap_id a) (in_kind inp) (in_diff_hash inp) w = Inl e"
      by (cases "redeem_in_tx s c (ap_id a) (in_kind inp) (in_diff_hash inp) w") auto
    then show ?thesis by (simp add: redeem_def run_tx_Inl)
  qed
  show "approved \<Longrightarrow> w' = w \<and> (\<exists>v. fst (redeem s c j (in_kind inp) (in_diff_hash inp) w) = Inr v)"
  proof -
    assume approved
    then have f: "found = Some (j, True)" "w' = w" using res by (cases found; auto)+
    then have sp: "spendable_approval s w j p inp = Inr True" using pick pick_live_True by blast
    then obtain a where a: "get_row j w = Inr a"
      "validate_redemption a p (in_kind inp) (in_diff_hash inp) (svc_now s) = Inr ()"
      "validate_redemption_target w a = Inr ()" by (rule spendable_redeemable)
    have "length (filter (consumable j) (w_approvals w)) = 1"
      using unique_consumable [OF assms(2)] get_row_Inr [OF a(1)] a(2) by (auto simp: validate_redemption_iff)
    then have "\<exists>x. redeem_in_tx s c j (in_kind inp) (in_diff_hash inp) w = Inr (ap_target_version a, x)"
      using a assms(3) unfolding redeem_in_tx_iff by blast
    then show ?thesis using f(2) by (auto simp: redeem_def run_tx_def)
  qed
  show "\<not> approved \<Longrightarrow> (\<forall>a \<in> set (w_approvals w). live_candidate w inp p a \<longrightarrow> ap_status a = Approved \<longrightarrow>
        (\<exists>e. redeem s c (ap_id a) (in_kind inp) (in_diff_hash inp) w = (Inl e, w)))"
  proof -
    assume "\<not> approved"
    then have "found = None \<or> found = Some (j, False)" using res by (cases found) auto
    then have "\<forall>a \<in> set (filter (live_candidate w inp p) (w_approvals w)). ap_status a \<noteq> Pending \<longrightarrow>
        spendable_approval s w (ap_id a) p inp = Inr False"
      using pick pick_live_None pick_live_False by (metis set_lock_order)
    then have "live_candidate w inp p a \<Longrightarrow> a \<in> set (w_approvals w) \<Longrightarrow> ap_status a = Approved \<Longrightarrow>
        spendable_approval s w (ap_id a) p inp = Inr False" for a by simp
    then show ?thesis using unspendable by blast
  qed
  show "\<not> approved \<Longrightarrow> (w' = w \<and> (\<exists>a \<in> set (w_approvals w). ap_id a = j \<and> live_candidate w inp p a \<and> live_pending w a))
        \<or> (j = i \<and> insert_proposal s c inp i w = Inr (i, w')
            \<and> \<not> (\<exists>a \<in> set (w_approvals w). live_candidate w inp p a \<and> ap_status a = Pending))"
  proof -
    assume na: "\<not> approved"
    show ?thesis
    proof (cases found)
      case None
      then have ins: "insert_proposal s c inp i w = Inr (j, w')"
        using res by (auto split: prod.splits)
      then have "j = i" by (elim insert_proposal_effect)
      then show ?thesis using ins pick_live_None [OF pick [unfolded None]] by auto
    next
      case (Some l)
      then have l: "l = (j, False)" "w' = w" using res na by auto
      then obtain a where "a \<in> set (w_approvals w)" "live_candidate w inp p a" "ap_id a = j" "ap_status a = Pending"
        using pick_live_False [OF pick [unfolded Some l]] by auto
      then show ?thesis using l(2) by (auto simp: live_candidate_def)
    qed
  qed
qed

text \<open>
  A refused agent call is staged at most once per live authority. When the answer says the call is
  already approved, nothing was written and redeeming that id for that very call succeeds; when it says
  it is not, no approved row for the call could be spent, and the id is a pending proposal of this
  passport for this call: one that was already open, or the one row just inserted.
\<close>

theorem agent_call_reuses_live_authority:
  assumes "stage_agent_call s c inp i w = (Inr (j, approved), w')" "distinct (map ap_id (w_approvals w))"
    and "ctx_actor c = Some p"
  shows "(approved \<longrightarrow> (w' = w \<and> (\<exists>v. fst (redeem s c j (in_kind inp) (in_diff_hash inp) w) = Inr v)))
     \<and> (\<not> approved \<longrightarrow>
         ((\<forall>a \<in> set (w_approvals w). live_candidate w inp p a \<longrightarrow> ap_status a = Approved \<longrightarrow>
        (\<exists>e. redeem s c (ap_id a) (in_kind inp) (in_diff_hash inp) w = (Inl e, w)))))
     \<and> (\<not> approved \<longrightarrow>
         ((w' = w \<and> (\<exists>a \<in> set (w_approvals w). ap_id a = j \<and> live_candidate w inp p a \<and> live_pending w a))
        \<or> (j = i \<and> insert_proposal s c inp i w = Inr (i, w')
            \<and> \<not> (\<exists>a \<in> set (w_approvals w). live_candidate w inp p a \<and> ap_status a = Pending))))"
  by (assumption | rule agent_call_reuses_live_authority_facts [OF assms] conjI impI)+

theorem agent_call_reuses_live_authority_witness:
  "\<exists>v. fst (redeem (sample_service 101) agent_call 1 ''advance_deal'' ''h'' approved_world) = Inr v"
proof -
  let ?r = "stage_agent_call (sample_service 101) agent_call deal_move 70 approved_world"
  have "fst ?r = Inr (1, True)" by code_simp
  then have run: "?r = (Inr (1, True), snd ?r)" by (metis prod.collapse)
  have "distinct (map ap_id (w_approvals approved_world))" "ctx_actor agent_call = Some agent_passport"
    by (simp_all add: approved_world_def agent_call_def)
  then show ?thesis
    using agent_call_reuses_live_authority [THEN conjunct1, THEN mp, OF run] by (simp add: deal_move_def)
qed

lemma polling_is_the_stagers_facts:
  "read_own_proposal c i w = Inr a \<longleftrightarrow>
     (\<exists>p. ctx_actor c = Some p \<and> \<not> is_zero (p_passport_id p) \<and> get_row i w = Inr a
        \<and> ap_passport_id a = Some (p_passport_id p))"
  "ctx_actor c = Some p \<Longrightarrow> \<not> is_zero (p_passport_id p) \<Longrightarrow> get_row i w = Inr a \<Longrightarrow>
     ap_passport_id a \<noteq> Some (p_passport_id p) \<Longrightarrow>
     task_state s c i w = Inl (App ErrNotFound) \<and> proposed_change c i w = Inl (App ErrNotFound)
     \<and> withdraw c i reason w = (Inl (App ErrNotFound), w)"
  "task_state s c i w = Inr st \<Longrightarrow> read_own_proposal c i w = Inr a \<Longrightarrow> ctx_actor c = Some p \<Longrightarrow>
     ts_status st = Approved \<Longrightarrow> \<not> ts_consumed st \<Longrightarrow> ap_decided_at a = Some t \<Longrightarrow>
     svc_now s \<le> ts_expires_at st \<Longrightarrow>
     validate_redemption a p (ap_kind a) (ap_diff_hash a) (svc_now s) = Inr ()"
proof -
  show "read_own_proposal c i w = Inr a \<longleftrightarrow>
     (\<exists>p. ctx_actor c = Some p \<and> \<not> is_zero (p_passport_id p) \<and> get_row i w = Inr a
        \<and> ap_passport_id a = Some (p_passport_id p))"
    by (auto simp: read_own_proposal_def staging_passport_def own_proposal_def split: option.splits if_splits)
  show "ctx_actor c = Some p \<Longrightarrow> \<not> is_zero (p_passport_id p) \<Longrightarrow> get_row i w = Inr a \<Longrightarrow>
     ap_passport_id a \<noteq> Some (p_passport_id p) \<Longrightarrow>
     task_state s c i w = Inl (App ErrNotFound) \<and> proposed_change c i w = Inl (App ErrNotFound)
     \<and> withdraw c i reason w = (Inl (App ErrNotFound), w)"
    by (simp add: task_state_def proposed_change_def withdraw_def read_own_proposal_def staging_passport_def
        own_proposal_def run_tx_def)
  show "task_state s c i w = Inr st \<Longrightarrow> read_own_proposal c i w = Inr a \<Longrightarrow> ctx_actor c = Some p \<Longrightarrow>
     ts_status st = Approved \<Longrightarrow> \<not> ts_consumed st \<Longrightarrow> ap_decided_at a = Some t \<Longrightarrow>
     svc_now s \<le> ts_expires_at st \<Longrightarrow>
     validate_redemption a p (ap_kind a) (ap_diff_hash a) (svc_now s) = Inr ()"
    by (auto simp: task_state_def validate_redemption_iff fits_staged_call_def actionable_until_def
        effective_status_cases read_own_proposal_def staging_passport_def own_proposal_def Let_def
        split: if_splits)
qed

text \<open>
  Polling is bound to the passport that staged the proposal. Its status, its payload and its
  withdrawal are answered only to that passport; any other passport is told the proposal does not
  exist, exactly as for an id nobody staged, a caller with no passport is refused outright; and what
  a poll reports as approved and unspent within the window is what a redemption would accept.
\<close>

theorem polling_is_the_stagers:
  "(read_own_proposal c i w = Inr a \<longleftrightarrow>
     (\<exists>p. ctx_actor c = Some p \<and> \<not> is_zero (p_passport_id p) \<and> get_row i w = Inr a
        \<and> ap_passport_id a = Some (p_passport_id p)))
     \<and> (ctx_actor c = Some p \<longrightarrow> \<not> is_zero (p_passport_id p) \<longrightarrow> get_row i w = Inr a \<longrightarrow>
         ap_passport_id a \<noteq> Some (p_passport_id p) \<longrightarrow>
         (task_state s c i w = Inl (App ErrNotFound) \<and> proposed_change c i w = Inl (App ErrNotFound)
     \<and> withdraw c i reason w = (Inl (App ErrNotFound), w)))
     \<and> (task_state s c i w = Inr st \<longrightarrow> read_own_proposal c i w = Inr a \<longrightarrow> ctx_actor c = Some p \<longrightarrow>
         ts_status st = Approved \<longrightarrow> \<not> ts_consumed st \<longrightarrow> ap_decided_at a = Some t \<longrightarrow>
         svc_now s \<le> ts_expires_at st \<longrightarrow>
         validate_redemption a p (ap_kind a) (ap_diff_hash a) (svc_now s) = Inr ())"
  by (assumption | rule polling_is_the_stagers_facts conjI impI)+

theorem polling_is_the_stagers_witness:
  "task_state (sample_service 101) (agent_call\<lparr>ctx_actor := Some (agent_passport\<lparr>p_passport_id := 3\<rparr>)\<rparr>) 1 approved_world
   = Inl (App ErrNotFound)"
proof -
  let ?c = "agent_call\<lparr>ctx_actor := Some (agent_passport\<lparr>p_passport_id := 3\<rparr>)\<rparr>"
  have row: "get_row 1 approved_world = Inr sample_approval"
    by (simp add: get_row_def approved_world_def sample_approval_def)
  have "\<not> is_zero (p_passport_id (agent_passport\<lparr>p_passport_id := 3\<rparr>))"
    "ap_passport_id sample_approval \<noteq> Some (p_passport_id (agent_passport\<lparr>p_passport_id := 3\<rparr>))"
    by (simp_all add: is_zero_def nil_uuid_def sample_approval_def)
  then show ?thesis
    using polling_is_the_stagers [THEN conjunct2, THEN conjunct1, THEN mp, THEN mp, THEN mp, THEN mp, of ?c "agent_passport\<lparr>p_passport_id := 3\<rparr>" 1 approved_world sample_approval]
      row by simp
qed

end
