(* ===== verification/Approval_Decide.thy ===== *)
theory Approval_Decide
  imports Approval_Redeem
begin

text \<open>
  Deciding a staged proposal: \<^verbatim>\<open>decide.go\<close>, the volume step-up an approval
  releases (\<^verbatim>\<open>quotarelease.go\<close>), the decision of a bundle
  (\<^verbatim>\<open>bundle.go\<close>) and \<open>Get\<close> of \<^verbatim>\<open>inbox.go\<close>, in
  \<^verbatim>\<open>backend/internal/modules/approvals\<close>.
\<close>

section \<open>Reading one approval\<close>

definition get_decidable :: "ctx \<Rightarrow> principal \<Rightarrow> uuid \<Rightarrow> 'q world \<Rightarrow> appr_error + approval" where
  "get_decidable c p i w =
     bindR (get_row i w) (\<lambda>a.
     bindR (lift_app (decidable c w p a)) (\<lambda>visible.
       if visible then Inr a else Inl (App ErrNotFound)))"

definition get_approval :: "ctx \<Rightarrow> uuid \<Rightarrow> 'q world \<Rightarrow> appr_error + approval" where
  "get_approval c i w =
     bindR (lift_app (acting_for_a_human c)) (\<lambda>_.
       case ctx_actor c of
         None \<Rightarrow> Inl (other ''crmapprovals: no actor bound to context'')
       | Some p \<Rightarrow> get_decidable c p i w)"

text \<open>\<open>StagedTarget\<close>: the immutable target a release executor writes to.\<close>

definition staged_target :: "ctx \<Rightarrow> uuid \<Rightarrow> 'q world \<Rightarrow> appr_error + (string \<times> uuid)" where
  "staged_target c i w =
     bindR (get_approval c i w) (\<lambda>a.
       case (ap_target_type a, ap_target_id a) of
         (Some t, Some x) \<Rightarrow> Inr (t, x)
       | _ \<Rightarrow> Inl (other ''crmapprovals: staging names no target record''))"

section \<open>The step-up an approval releases\<close>

definition apply_quota_release ::
  "'q service \<Rightarrow> ctx \<Rightarrow> approval \<Rightarrow> 'q world \<Rightarrow> (appr_error + unit) \<times> 'q world" where
  "apply_quota_release s c a w =
     (case svc_quota s of
        None \<Rightarrow> (Inl (other ''crmapprovals: this composition has no quota meter''), w)
      | Some rel \<Rightarrow>
          (case ap_passport_id a of
             None \<Rightarrow> (Inl (other ''crmapprovals: a staged step-up carries no passport''), w)
           | Some pp \<Rightarrow>
               (case ctx_workspace c of
                  None \<Rightarrow> (Inl (other ''crmapprovals: no workspace bound to context''), w)
                | Some ws \<Rightarrow>
                    (case decode_release_proposal (ap_proposed_change a) of
                       Inl e \<Rightarrow> (Inl (App e), w)
                     | Inr proposal \<Rightarrow>
                         (case proposal_window proposal of
                            Inl e \<Rightarrow> (Inl (App e), w)
                          | Inr b \<Rightarrow>
                              (case rel ws pp (rp_counter proposal) b (w_quota w) of
                                 (Inl e, q) \<Rightarrow> (Inl (App e), w\<lparr>w_quota := q\<rparr>)
                               | (Inr _, q) \<Rightarrow> (Inr (), w\<lparr>w_quota := q\<rparr>)))))))"

text \<open>What a committed decision releases. A failure does not undo the decision.\<close>

definition run_decision_effect ::
  "'q service \<Rightarrow> ctx \<Rightarrow> uuid \<Rightarrow> approval \<Rightarrow> bool \<Rightarrow> 'q world \<Rightarrow> (appr_error + unit) \<times> 'q world" where
  "run_decision_effect s c i a approve w =
     (if approve \<and> ap_kind a = kind_quota_release then
        (case apply_quota_release s c a w of
           (Inl e, w') \<Rightarrow> (Inl (EffectFailed e), w')
         | (Inr _, w') \<Rightarrow> (Inr (), w'))
      else case svc_effects s (ap_kind a) of
        None \<Rightarrow> (Inr (), w)
      | Some effect \<Rightarrow>
          if approve \<and> server_proposed a then
            (case effect i (ap_proposed_change a) (ap_diff_hash a) w of
               (Inl e, w') \<Rightarrow> (Inl (EffectFailed (App e)), w')
             | (Inr _, w') \<Rightarrow> (Inr (), w'))
          else (Inr (), w))"

section \<open>One decision\<close>

text \<open>\<open>applyEditedPayload\<close>: the canonical payload and its hash, when the edit stays within scope.\<close>

definition edited_payload :: "'q service \<Rightarrow> approval \<Rightarrow> json \<Rightarrow> appr_error + (json \<times> string)" where
  "edited_payload s a edited =
     (case diffhash_canonical (svc_num s) (svc_sha s) edited of
        None \<Rightarrow> Inl InvalidEdit
      | Some (canonical, hash) \<Rightarrow>
          (case assert_same_entity_refs (ap_proposed_change a) canonical of
             Inl e \<Rightarrow> Inl (Retargeted e)
           | Inr _ \<Rightarrow>
               (case assert_same_call_identity (svc_pg s) (svc_go s) (ap_proposed_change a) canonical of
                  Inl e \<Rightarrow> Inl (Retargeted e)
                | Inr _ \<Rightarrow> if canonical = JNull then Inl InvalidEdit else Inr (canonical, hash))))"

definition decide_edit :: "'q service \<Rightarrow> approval \<Rightarrow> json option \<Rightarrow> appr_error + (json \<times> string) option" where
  "decide_edit s a edited =
     (case edited of
        None \<Rightarrow> Inr None
      | Some e \<Rightarrow>
          if ap_kind a = kind_quota_release then Inl InvalidEdit
          else bindR (edited_payload s a e) (\<lambda>r. Inr (Some r)))"

definition verdict :: "bool \<Rightarrow> status" where
  "verdict approve = (if approve then Approved else Rejected)"

definition apply_edit :: "(json \<times> string) option \<Rightarrow> approval \<Rightarrow> approval" where
  "apply_edit ed a =
     (case ed of None \<Rightarrow> a | Some (change, hash) \<Rightarrow> a\<lparr>ap_proposed_change := change, ap_diff_hash := hash\<rparr>)"

definition settle :: "bool \<Rightarrow> uuid \<Rightarrow> time \<Rightarrow> string option \<Rightarrow> approval \<Rightarrow> approval" where
  "settle approve user now reason a =
     a\<lparr>ap_status := verdict approve, ap_decided_by := Some user, ap_decided_at := Some now,
       ap_decision_reason := reason\<rparr>"

definition decision_evidence ::
  "approval \<Rightarrow> bool \<Rightarrow> string option \<Rightarrow> (json \<times> string) option \<Rightarrow> (string \<times> json) list" where
  "decision_evidence a approve reason ed =
     [(''kind'', JStr (ap_kind a)), (''verdict'', JStr (status_string (verdict approve))),
      (''reason'', case reason of None \<Rightarrow> JNull | Some r \<Rightarrow> JStr r)]
     @ (case ed of
          None \<Rightarrow> []
        | Some (change, hash) \<Rightarrow>
            [(''edited'', JBool True), (''original_change'', ap_proposed_change a),
             (''original_diff_hash'', JStr (ap_diff_hash a)), (''edited_change'', change),
             (''edited_diff_hash'', JStr hash)])"

definition emit_kind_decided ::
  "'q service \<Rightarrow> ctx \<Rightarrow> principal \<Rightarrow> nat \<Rightarrow> uuid \<Rightarrow> string \<Rightarrow> bool \<Rightarrow> 'q world \<Rightarrow> appr_error + 'q world" where
  "emit_kind_decided s c p aud i kind approve w =
     (if kind = ''coldstart'' then emit s c p aud i (ColdstartDecided i (p_user_id p) approve) w else Inr w)"

definition decide_in_tx ::
  "'q service \<Rightarrow> ctx \<Rightarrow> principal \<Rightarrow> uuid \<Rightarrow> bool \<Rightarrow> string option \<Rightarrow> json option \<Rightarrow> ('q, approval) tx" where
  "decide_in_tx s c p i approve reason edited w =
     bindR (get_decidable c p i w) (\<lambda>a.
     bindR (lift_app (agent_may_decide p a approve)) (\<lambda>_.
       if effective_status a (svc_now s) \<noteq> Pending
       then Inl (AlreadyDecided (effective_status a (svc_now s)))
       else bindR (decide_edit s a edited) (\<lambda>ed.
         let w1 = update_rows (\<lambda>r. ap_id r = i) (\<lambda>r. settle approve (p_user_id p) (w_now w) reason (apply_edit ed r)) w;
             (aud, w2) = audit p (if approve then ''approve'' else ''reject'') i
                           (decision_evidence a approve reason ed) w1
         in bindR (emit s c p aud i
                (ApprovalDecided (ap_kind a) (verdict approve) (Some (p_user_id p))
                  (map_option (\<lambda>(change, hash). (hash, change)) ed)) w2) (\<lambda>w3.
            bindR (emit_kind_decided s c p aud i (ap_kind a) approve w3) (\<lambda>w4.
            bindR (get_row i w4) (\<lambda>b. Inr (b, w4)))))))"

text \<open>The preflight a kind registered, run before anything is decided.\<close>

definition run_precheck ::
  "'q service \<Rightarrow> ctx \<Rightarrow> uuid \<Rightarrow> bool \<Rightarrow> json option \<Rightarrow> 'q world \<Rightarrow> (appr_error + unit) \<times> 'q world" where
  "run_precheck s c i approve edited w =
     (if \<not> approve then (Inr (), w)
      else case get_approval c i w of
        Inl _ \<Rightarrow> (Inr (), w)
      | Inr a \<Rightarrow>
          (case svc_prechecks s (ap_kind a) of
             None \<Rightarrow> (Inr (), w)
           | Some check \<Rightarrow>
               if \<not> server_proposed a then (Inr (), w)
               else (case check (ap_proposed_change a) edited w of (r, w') \<Rightarrow> (lift_app r, w'))))"

definition run_decline ::
  "'q service \<Rightarrow> uuid \<Rightarrow> approval \<Rightarrow> bool \<Rightarrow> 'q world \<Rightarrow> appr_error + 'q world" where
  "run_decline s i a approve w =
     (case svc_declines s (ap_kind a) of
        None \<Rightarrow> Inr w
      | Some decline \<Rightarrow>
          if \<not> approve \<and> server_proposed a then lift_app (decline i (ap_proposed_change a) w) else Inr w)"

definition decide_tx ::
  "'q service \<Rightarrow> ctx \<Rightarrow> principal \<Rightarrow> uuid \<Rightarrow> bool \<Rightarrow> string option \<Rightarrow> json option \<Rightarrow> ('q, approval) tx" where
  "decide_tx s c p i approve reason edited w =
     bindR (decide_in_tx s c p i approve reason edited w) (\<lambda>(a, w').
     bindR (run_decline s i a approve w') (\<lambda>w''. Inr (a, w'')))"

definition decide_any ::
  "'q service \<Rightarrow> ctx \<Rightarrow> uuid \<Rightarrow> bool \<Rightarrow> string option \<Rightarrow> json option \<Rightarrow> 'q world \<Rightarrow> (appr_error + approval) \<times> 'q world" where
  "decide_any s c i approve reason edited w =
     (case lift_app (acting_for_a_human c) of
        Inl e \<Rightarrow> (Inl e, w)
      | Inr _ \<Rightarrow>
          (case ctx_actor c of
             None \<Rightarrow> (Inl (other ''crmapprovals: no actor bound to context''), w)
           | Some p \<Rightarrow>
               (case run_precheck s c i approve edited w of
                  (Inl e, w1) \<Rightarrow> (Inl e, w1)
                | (Inr _, w1) \<Rightarrow>
                    (case run_tx (decide_tx s c p i approve reason edited) w1 of
                       (Inl e, w2) \<Rightarrow> (Inl e, w2)
                     | (Inr a, w2) \<Rightarrow>
                         (case run_decision_effect s c i a approve w2 of
                            (Inl e, w3) \<Rightarrow> (Inl e, w3)
                          | (Inr _, w3) \<Rightarrow> (Inr a, w3))))))"

definition decide ::
  "'q service \<Rightarrow> ctx \<Rightarrow> uuid \<Rightarrow> bool \<Rightarrow> string option \<Rightarrow> 'q world \<Rightarrow> (appr_error + approval) \<times> 'q world" where
  "decide s c i approve reason = decide_any s c i approve reason None"

definition decide_edited ::
  "'q service \<Rightarrow> ctx \<Rightarrow> uuid \<Rightarrow> json option \<Rightarrow> 'q world \<Rightarrow> (appr_error + approval) \<times> 'q world" where
  "decide_edited s c i edited w =
     (case edited of
        None \<Rightarrow> (Inl InvalidEdit, w)
      | Some e \<Rightarrow> decide_any s c i True None (Some e) w)"

section \<open>Bundles\<close>

datatype bundle_outcome = BundleDecided | BundleAlreadyDecided | BundleExpired | BundleEffectFailed

record bundle_member =
  bm_approval :: approval
  bm_outcome :: bundle_outcome

definition pending_scan_cap :: nat where "pending_scan_cap = 200"

definition bundle_decision_cap :: nat where "bundle_decision_cap = pending_scan_cap"

definition bundle_members :: "uuid \<Rightarrow> 'q world \<Rightarrow> approval list \<times> bool" where
  "bundle_members bundle w =
     (let rows = take (bundle_decision_cap + 1) (lock_order (filter (\<lambda>a. ap_bundle_id a = Some bundle) (w_approvals w)))
      in (rows, bundle_decision_cap < length rows))"

fun decidable_members ::
  "ctx \<Rightarrow> 'q world \<Rightarrow> principal \<Rightarrow> bool \<Rightarrow> approval list \<Rightarrow> appr_error + approval list" where
  "decidable_members c w p approve [] = Inr []"
| "decidable_members c w p approve (a # as) =
     bindR (lift_app (decidable c w p a)) (\<lambda>visible.
     bindR (decidable_members c w p approve as) (\<lambda>mine.
       Inr (if visible \<and> agent_may_decide p a approve = Inr () then a # mine else mine)))"

definition outcome_of :: "status \<Rightarrow> bundle_outcome" where
  "outcome_of st = (if st = Expired then BundleExpired else BundleAlreadyDecided)"

definition decide_member_in_tx ::
  "'q service \<Rightarrow> time \<Rightarrow> ctx \<Rightarrow> principal \<Rightarrow> approval \<Rightarrow> bool \<Rightarrow> string option \<Rightarrow> ('q, bundle_member) tx" where
  "decide_member_in_tx s now c p a approve reason w =
     (case decide_in_tx (s\<lparr>svc_now := now\<rparr>) c p (ap_id a) approve reason None w of
        Inr (b, w') \<Rightarrow> Inr (\<lparr>bm_approval = b, bm_outcome = BundleDecided\<rparr>, w')
      | Inl (AlreadyDecided st) \<Rightarrow>
          bindR (get_row (ap_id a) w) (\<lambda>fresh. Inr (\<lparr>bm_approval = fresh, bm_outcome = outcome_of st\<rparr>, w))
      | Inl e \<Rightarrow> Inl e)"

text \<open>
  The process clock moves while a bundle is decided: \<open>tick\<close> is its reading when one member is,
  \<open>svc_now\<close> its reading when the decision opened.
\<close>

fun decide_members ::
  "'q service \<Rightarrow> (uuid \<Rightarrow> time) \<Rightarrow> ctx \<Rightarrow> principal \<Rightarrow> bool \<Rightarrow> string option \<Rightarrow> approval list \<Rightarrow> ('q, bundle_member list) tx" where
  "decide_members s tick c p approve reason [] w = Inr ([], w)"
| "decide_members s tick c p approve reason (a # as) w =
     (if effective_status a (svc_now s) \<noteq> Pending then
        bindR (decide_members s tick c p approve reason as w) (\<lambda>(ms, w').
          Inr (\<lparr>bm_approval = a, bm_outcome = outcome_of (effective_status a (svc_now s))\<rparr> # ms, w'))
      else
        bindR (decide_member_in_tx s (tick (ap_id a)) c p a approve reason w) (\<lambda>(m, w1).
        bindR (decide_members s tick c p approve reason as w1) (\<lambda>(ms, w'). Inr (m # ms, w'))))"

definition decide_bundle_in_tx ::
  "'q service \<Rightarrow> (uuid \<Rightarrow> time) \<Rightarrow> ctx \<Rightarrow> principal \<Rightarrow> uuid \<Rightarrow> bool \<Rightarrow> string option \<Rightarrow> ('q, bundle_member list) tx" where
  "decide_bundle_in_tx s tick c p bundle approve reason w =
     (case bundle_members bundle w of (rows, oversized) \<Rightarrow>
        bindR (decidable_members c w p approve rows) (\<lambda>mine.
          if mine = [] then Inl (App ErrNotFound)
          else if oversized then Inl (BundleTooLarge bundle_decision_cap)
          else decide_members s tick c p approve reason mine w))"

fun release_decided_members ::
  "'q service \<Rightarrow> ctx \<Rightarrow> bundle_member list \<Rightarrow> 'q world \<Rightarrow> bundle_member list \<times> 'q world" where
  "release_decided_members s c [] w = ([], w)"
| "release_decided_members s c (m # ms) w =
     (if bm_outcome m \<noteq> BundleDecided then
        (case release_decided_members s c ms w of (ms', w') \<Rightarrow> (m # ms', w'))
      else
        (case run_decision_effect s c (ap_id (bm_approval m)) (bm_approval m) True w of
           (r, w1) \<Rightarrow>
             (case release_decided_members s c ms w1 of
                (ms', w') \<Rightarrow> ((case r of Inl _ \<Rightarrow> m\<lparr>bm_outcome := BundleEffectFailed\<rparr> | Inr _ \<Rightarrow> m) # ms', w'))))"

definition decide_bundle ::
  "'q service \<Rightarrow> (uuid \<Rightarrow> time) \<Rightarrow> ctx \<Rightarrow> uuid \<Rightarrow> bool \<Rightarrow> string option \<Rightarrow> 'q world
     \<Rightarrow> (appr_error + bundle_member list) \<times> 'q world" where
  "decide_bundle s tick c bundle approve reason w =
     (case lift_app (acting_for_a_human c) of
        Inl e \<Rightarrow> (Inl e, w)
      | Inr _ \<Rightarrow>
          if is_zero bundle then (Inl (App ErrNotFound), w)
          else (case ctx_actor c of
             None \<Rightarrow> (Inl (other ''crmapprovals: no actor bound to context''), w)
           | Some p \<Rightarrow>
               (case run_tx (decide_bundle_in_tx s tick c p bundle approve reason) w of
                  (Inl e, w1) \<Rightarrow> (Inl e, w1)
                | (Inr ms, w1) \<Rightarrow>
                    (case (if approve then release_decided_members s c ms w1 else (ms, w1)) of
                       (ms', w2) \<Rightarrow> (Inr ms', w2)))))"

section \<open>Lemmas\<close>

lemma settle_simps [simp]:
  "ap_id (settle approve u now reason a) = ap_id a" "ap_status (settle approve u now reason a) = verdict approve"
  "ap_kind (settle approve u now reason a) = ap_kind a"
  "ap_decided_by (settle approve u now reason a) = Some u"
  "ap_decided_at (settle approve u now reason a) = Some now"
  "ap_consumed_at (settle approve u now reason a) = ap_consumed_at a"
  "ap_passport_id (settle approve u now reason a) = ap_passport_id a"
  "ap_proposed_change (settle approve u now reason a) = ap_proposed_change a"
  "ap_diff_hash (settle approve u now reason a) = ap_diff_hash a"
  "ap_expires_at (settle approve u now reason a) = ap_expires_at a"
  "ap_created_at (settle approve u now reason a) = ap_created_at a"
  "ap_target_type (settle approve u now reason a) = ap_target_type a"
  "ap_target_id (settle approve u now reason a) = ap_target_id a"
  "ap_target_version (settle approve u now reason a) = ap_target_version a"
  "ap_on_behalf_of (settle approve u now reason a) = ap_on_behalf_of a"
  "ap_bundle_id (settle approve u now reason a) = ap_bundle_id a"
  by (simp_all add: settle_def)

lemma apply_edit_simps [simp]:
  "ap_id (apply_edit ed a) = ap_id a" "ap_status (apply_edit ed a) = ap_status a"
  "ap_kind (apply_edit ed a) = ap_kind a" "ap_consumed_at (apply_edit ed a) = ap_consumed_at a"
  "ap_passport_id (apply_edit ed a) = ap_passport_id a" "ap_decided_at (apply_edit ed a) = ap_decided_at a"
  "ap_expires_at (apply_edit ed a) = ap_expires_at a" "ap_created_at (apply_edit ed a) = ap_created_at a"
  "ap_target_type (apply_edit ed a) = ap_target_type a" "ap_target_id (apply_edit ed a) = ap_target_id a"
  "ap_target_version (apply_edit ed a) = ap_target_version a"
  "ap_on_behalf_of (apply_edit ed a) = ap_on_behalf_of a" "ap_bundle_id (apply_edit ed a) = ap_bundle_id a"
  "apply_edit None a = a"
  "ap_proposed_change (apply_edit (Some (x, h)) a) = x" "ap_diff_hash (apply_edit (Some (x, h)) a) = h"
  by (auto simp: apply_edit_def split: option.splits prod.splits)

lemma verdict_simps [simp]:
  "verdict b \<noteq> Pending" "verdict b \<noteq> Expired" "verdict b = Approved \<longleftrightarrow> b" "verdict b = Rejected \<longleftrightarrow> \<not> b"
  by (simp_all add: verdict_def)

lemma get_decidable_iff:
  "get_decidable c p i w = Inr a \<longleftrightarrow> get_row i w = Inr a \<and> decidable c w p a = Inr True"
  by (auto simp: get_decidable_def)

text \<open>Everything a committed decision did.\<close>

lemma decide_in_tx_effect:
  assumes "decide_in_tx s c p i approve reason edited w = Inr (b, w')"
  obtains a ed aud obs where "get_row i w = Inr a" "decidable c w p a = Inr True"
    "agent_may_decide p a approve = Inr ()" "effective_status a (svc_now s) = Pending"
    "decide_edit s a edited = Inr ed"
    "b = settle approve (p_user_id p) (w_now w) reason (apply_edit ed a)" "get_row i w' = Inr b"
    "w_approvals w' = update_where (\<lambda>r. ap_id r = i)
       (\<lambda>r. settle approve (p_user_id p) (w_now w) reason (apply_edit ed r)) (w_approvals w)"
    "w_audit w' = w_audit w @ [aud]" "au_action aud = (if approve then ''approve'' else ''reject'')"
    "au_entity_id aud = i" "au_actor_id aud = p_id p" "au_evidence aud = decision_evidence a approve reason ed"
    "w_outbox w' = w_outbox w @ obs" "obs \<noteq> []" "ob_audit (hd obs) = length (w_audit w)"
    "ob_entity_id (hd obs) = i"
    "ob_payload (hd obs) = ApprovalDecided (ap_kind a) (verdict approve) (Some (p_user_id p))
       (map_option (\<lambda>(change, hash). (hash, change)) ed)" "same_env w w'"
proof -
  obtain a where a: "get_row i w = Inr a" "decidable c w p a = Inr True" "agent_may_decide p a approve = Inr ()"
    "effective_status a (svc_now s) = Pending"
    using assms by (auto simp: decide_in_tx_def get_decidable_iff split: if_splits)
  have g: "get_decidable c p i w = Inr a" using a(1,2) by (simp add: get_decidable_iff)
  obtain ed where ed: "decide_edit s a edited = Inr ed"
    using assms by (auto simp: decide_in_tx_def g a(3,4))
  let ?f = "\<lambda>r. settle approve (p_user_id p) (w_now w) reason (apply_edit ed r)"
  define w1 where "w1 = update_rows (\<lambda>r. ap_id r = i) ?f w"
  define w2 where "w2 = snd (audit p (if approve then ''approve'' else ''reject'') i
      (decision_evidence a approve reason ed) w1)"
  obtain w3 w4 where em: "emit s c p (length (w_audit w)) i (ApprovalDecided (ap_kind a) (verdict approve)
      (Some (p_user_id p)) (map_option (\<lambda>(change, hash). (hash, change)) ed)) w2 = Inr w3"
    and ek: "emit_kind_decided s c p (length (w_audit w)) i (ap_kind a) approve w3 = Inr w4"
    and b: "get_row i w4 = Inr b" and w': "w' = w4"
    using assms
    by (auto simp: decide_in_tx_def g a(3,4) ed Let_def audit_def w2_def w1_def)
  note e = emit_frame [OF em]
  have k: "w_approvals w4 = w_approvals w3" "w_audit w4 = w_audit w3" "same_env w3 w4"
    "\<exists>xs. w_outbox w4 = w_outbox w3 @ xs"
    using ek emit_frame [of s c p "length (w_audit w)" i "ColdstartDecided i (p_user_id p) approve" w3 w4]
    by (auto simp: emit_kind_decided_def split: if_splits)
  have rows: "w_approvals w4 = update_where (\<lambda>r. ap_id r = i) ?f (w_approvals w)"
    using k(1) e(1) by (simp add: w2_def w1_def)
  obtain aud where aud: "w_audit w2 = w_audit w @ [aud]"
    "au_action aud = (if approve then ''approve'' else ''reject'')" "au_entity_id aud = i" "au_actor_id aud = p_id p"
    "au_evidence aud = decision_evidence a approve reason ed"
    by (simp add: w2_def w1_def audit_def)
  obtain ob where ob: "w_outbox w3 = w_outbox w2 @ [ob]" "ob_audit ob = length (w_audit w)" "ob_entity_id ob = i"
    "ob_payload ob = ApprovalDecided (ap_kind a) (verdict approve) (Some (p_user_id p))
       (map_option (\<lambda>(change, hash). (hash, change)) ed)" using e(4) by blast
  obtain xs where xs: "w_outbox w4 = w_outbox w3 @ xs" using k(4) by blast
  have out: "w_outbox w4 = w_outbox w @ (ob # xs)" using xs ob(1) by (simp add: w2_def w1_def)
  have "same_env w w2" by (simp add: w2_def w1_def)
  then have env: "same_env w w'" using e(3) k(3) w' same_env_trans by blast
  have "get_row i w4 = get_row i w1" using rows by (simp add: get_row_def w1_def)
  also have "\<dots> = Inr (?f a)"
    using a(1) get_row_Inr [OF a(1)] by (simp add: w1_def get_row_update)
  finally have bf: "b = ?f a" using b by simp
  have au: "w_audit w' = w_audit w @ [aud]" using k(2) e(2) aud(1) w' by simp
  show thesis
    by (rule that [OF a ed bf _ _ au aud(2,3,4,5) _ _ _ _ _ env, of "ob # xs"])
      (use b w' rows out ob in simp_all)
qed

text \<open>And a decision nothing refuses commits.\<close>

lemma decide_in_tx_commits:
  assumes "get_row i w = Inr a" "decidable c w p a = Inr True" "agent_may_decide p a approve = Inr ()"
    "effective_status a (svc_now s) = Pending" "decide_edit s a edited = Inr ed" "can_emit s c p i"
  shows "\<exists>w'. decide_in_tx s c p i approve reason edited w
    = Inr (settle approve (p_user_id p) (w_now w) reason (apply_edit ed a), w')"
proof -
  have emits: "\<exists>w'. emit s c p aud i (ApprovalDecided k st u ed) w0 = Inr w'" for aud k st u ed w0
    by (rule emit_ok [OF assms(6)]) (simp add: own_events_routed)
  have kinds: "\<exists>w'. emit_kind_decided s c p aud i k approve w0 = Inr w'" for aud k w0
  proof -
    have "\<exists>w'. emit s c p aud i (ColdstartDecided i (p_user_id p) approve) w0 = Inr w'"
      by (cases approve; rule emit_ok [OF assms(6)]; simp add: own_events_routed)
    then show ?thesis by (simp add: emit_kind_decided_def)
  qed
  let ?f = "\<lambda>r. settle approve (p_user_id p) (w_now w) reason (apply_edit ed r)"
  define w2 where "w2 = snd (audit p (if approve then ''approve'' else ''reject'') i
      (decision_evidence a approve reason ed) (update_rows (\<lambda>r. ap_id r = i) ?f w))"
  obtain w3 where w3: "emit s c p (length (w_audit w)) i (ApprovalDecided (ap_kind a) (verdict approve)
      (Some (p_user_id p)) (map_option (\<lambda>(change, hash). (hash, change)) ed)) w2 = Inr w3"
    using emits by blast
  obtain w4 where w4: "emit_kind_decided s c p (length (w_audit w)) i (ap_kind a) approve w3 = Inr w4"
    using kinds by blast
  have "w_approvals w4 = w_approvals w3"
    using w4 emit_frame(1) by (auto simp: emit_kind_decided_def split: if_splits)
  then have "get_row i w4 = get_row i (update_rows (\<lambda>r. ap_id r = i) ?f w)"
    using emit_frame(1) [OF w3] by (simp add: get_row_def w2_def)
  also have "\<dots> = Inr (?f a)" using assms(1) get_row_Inr [OF assms(1)] by (simp add: get_row_update)
  finally have "get_row i w4 = Inr (?f a)" .
  moreover have "get_decidable c p i w = Inr a" using assms(1,2) by (simp add: get_decidable_iff)
  ultimately have "decide_in_tx s c p i approve reason edited w = Inr (?f a, w4)"
    using assms(3-5) w3 w4 by (simp add: decide_in_tx_def audit_def w2_def)
  then show ?thesis by blast
qed

lemma get_row_other:
  assumes "w_approvals w' = update_where (\<lambda>r. ap_id r = i) f (w_approvals w)" "\<And>r. ap_id (f r) = ap_id r" "j \<noteq> i"
  shows "get_row j w' = get_row j w"
proof -
  have "find (\<lambda>a. ap_id a = j) (w_approvals w') = find (\<lambda>a. ap_id a = j) (w_approvals w)"
    unfolding assms(1) by (rule find_update_where_other) (use assms in auto)
  then show ?thesis by (simp add: get_row_def)
qed

lemma decide_get_row_other:
  "decide_in_tx s c p i approve reason edited w = Inr (b, w') \<Longrightarrow> j \<noteq> i \<Longrightarrow> get_row j w' = get_row j w"
  by (erule decide_in_tx_effect, rule get_row_other, assumption) simp_all

lemma decide_others:
  assumes "decide_in_tx s c p i approve reason edited w = Inr (b, w')" "\<not> Q i"
  shows "filter (\<lambda>r. Q (ap_id r)) (w_approvals w') = filter (\<lambda>r. Q (ap_id r)) (w_approvals w)"
  using assms(1)
proof (rule decide_in_tx_effect)
  fix ed
  assume rows: "w_approvals w' = update_where (\<lambda>r. ap_id r = i)
       (\<lambda>r. settle approve (p_user_id p) (w_now w) reason (apply_edit ed r)) (w_approvals w)"
  show ?thesis unfolding rows by (rule filter_update_where_other) (use assms(2) in auto)
qed

lemma decide_same_env:
  "decide_in_tx s c p i approve reason edited w = Inr (b, w') \<Longrightarrow> same_env w w'"
  by (erule decide_in_tx_effect) simp

lemma decide_result_row:
  assumes "decide_in_tx s c p i approve reason edited w = Inr (b, w')"
  shows "get_row i w' = Inr b" "ap_id b = i" "ap_status b = verdict approve" "ap_decided_by b = Some (p_user_id p)"
    "ap_decided_at b = Some (w_now w)"
  using assms by (auto elim!: decide_in_tx_effect dest: get_row_Inr)

lemma member_cases:
  assumes "decide_member_in_tx s now c p a approve reason w = Inr (m, w')"
  obtains (decided) "bm_outcome m = BundleDecided"
      "decide_in_tx (s\<lparr>svc_now := now\<rparr>) c p (ap_id a) approve reason None w = Inr (bm_approval m, w')"
    | (skipped) "bm_outcome m \<noteq> BundleDecided" "w' = w" "get_row (ap_id a) w = Inr (bm_approval m)"
      "bm_outcome m = BundleExpired \<or> bm_outcome m = BundleAlreadyDecided"
  using assms
  by (auto simp: decide_member_in_tx_def outcome_of_def split: sum.splits prod.splits appr_error.splits)

lemma decide_members_frame:
  assumes "decide_members s tick c p approve reason as w = Inr (ms, w')" "distinct (map ap_id as)"
    and "\<And>a. a \<in> set as \<Longrightarrow> get_row (ap_id a) w = Inr a"
  shows "same_env w w' \<and> map (\<lambda>m. ap_id (bm_approval m)) ms = map ap_id as
    \<and> (\<forall>j. j \<notin> set (map ap_id as) \<longrightarrow> get_row j w' = get_row j w)
    \<and> filter (\<lambda>r. ap_id r \<notin> set (map ap_id as)) (w_approvals w')
        = filter (\<lambda>r. ap_id r \<notin> set (map ap_id as)) (w_approvals w)
    \<and> (\<forall>m \<in> set ms. get_row (ap_id (bm_approval m)) w' = Inr (bm_approval m)
        \<and> (if bm_outcome m = BundleDecided
           then ap_status (bm_approval m) = verdict approve \<and> ap_decided_by (bm_approval m) = Some (p_user_id p)
           else bm_approval m \<in> set as))"
  using assms
proof (induction as arbitrary: w ms)
  case (Cons a as)
  have fresh: "ap_id a \<notin> set (map ap_id as)" using Cons.prems(2) by simp
  obtain m w1 ms' where step: "decide_members s tick c p approve reason as w1 = Inr (ms', w')" "ms = m # ms'"
    and m: "ap_id (bm_approval m) = ap_id a" "same_env w w1" "get_row (ap_id a) w1 = Inr (bm_approval m)"
      "\<And>j. j \<noteq> ap_id a \<Longrightarrow> get_row j w1 = get_row j w"
      "\<And>Q. \<not> Q (ap_id a) \<Longrightarrow> filter (\<lambda>r. Q (ap_id r)) (w_approvals w1) = filter (\<lambda>r. Q (ap_id r)) (w_approvals w)"
      "if bm_outcome m = BundleDecided
         then ap_status (bm_approval m) = verdict approve \<and> ap_decided_by (bm_approval m) = Some (p_user_id p)
         else bm_approval m = a"
  proof (cases "effective_status a (svc_now s) = Pending")
    case False
    then obtain ms' where "decide_members s tick c p approve reason as w = Inr (ms', w')"
      "ms = \<lparr>bm_approval = a, bm_outcome = outcome_of (effective_status a (svc_now s))\<rparr> # ms'"
      using Cons.prems(1) by auto
    then show thesis
      using that [of w ms' "\<lparr>bm_approval = a, bm_outcome = outcome_of (effective_status a (svc_now s))\<rparr>"]
        Cons.prems(3) by (simp add: outcome_of_def)
  next
    case True
    then obtain m w1 ms' where dm: "decide_member_in_tx s (tick (ap_id a)) c p a approve reason w = Inr (m, w1)"
      and rest: "decide_members s tick c p approve reason as w1 = Inr (ms', w')" "ms = m # ms'"
      using Cons.prems(1) by auto
    from dm show thesis
    proof (cases rule: member_cases)
      case decided
      note r = decide_result_row [OF decided(2)]
      show ?thesis
        by (rule that [OF rest r(2) decide_same_env [OF decided(2)] r(1)])
          (use decided r decide_get_row_other [OF decided(2)] decide_others [OF decided(2)] in auto)
    next
      case skipped
      have "bm_approval m = a" using skipped(3) Cons.prems(3) by simp
      then show ?thesis using that [OF rest] skipped Cons.prems(3) by simp
    qed
  qed
  have rows1: "get_row (ap_id x) w1 = Inr x" if "x \<in> set as" for x
    using that fresh m(4) [of "ap_id x"] Cons.prems(3) by (metis image_eqI list.set_intros(2) set_map)
  note IH = Cons.IH [OF step(1) _ rows1]
  have d: "distinct (map ap_id as)" using Cons.prems(2) by simp
  note ih = IH [OF d]
  have others: "filter (\<lambda>r. ap_id r \<notin> set (map ap_id (a # as))) (w_approvals w')
      = filter (\<lambda>r. ap_id r \<notin> set (map ap_id (a # as))) (w_approvals w)"
  proof -
    have split: "filter (\<lambda>r. ap_id r \<notin> set (map ap_id (a # as))) xs
        = filter (\<lambda>r. ap_id r \<noteq> ap_id a) (filter (\<lambda>r. ap_id r \<notin> set (map ap_id as)) xs)" for xs
      by (simp add: conj_commute)
    have "filter (\<lambda>r. ap_id r \<notin> set (map ap_id (a # as))) (w_approvals w')
        = filter (\<lambda>r. ap_id r \<notin> set (map ap_id (a # as))) (w_approvals w1)"
      unfolding split using ih by simp
    also have "\<dots> = filter (\<lambda>r. ap_id r \<notin> set (map ap_id (a # as))) (w_approvals w)"
      by (rule m(5)) simp
    finally show ?thesis .
  qed
  show ?case
  proof (intro conjI)
    show "same_env w w'" using m(2) ih same_env_trans by blast
    show "map (\<lambda>m. ap_id (bm_approval m)) ms = map ap_id (a # as)" using ih m(1) step(2) by simp
    show "\<forall>j. j \<notin> set (map ap_id (a # as)) \<longrightarrow> get_row j w' = get_row j w" using ih m(4) by simp
    show "\<forall>m \<in> set ms. get_row (ap_id (bm_approval m)) w' = Inr (bm_approval m)
        \<and> (if bm_outcome m = BundleDecided
           then ap_status (bm_approval m) = verdict approve \<and> ap_decided_by (bm_approval m) = Some (p_user_id p)
           else bm_approval m \<in> set (a # as))"
      using ih m(1,3,6) fresh step(2) by (auto split: if_splits)
  qed (rule others)
qed simp

lemma decidable_members_mem:
  "decidable_members c w p approve rows = Inr mine \<Longrightarrow>
     mine = filter (\<lambda>a. decidable c w p a = Inr True \<and> agent_may_decide p a approve = Inr ()) rows"
  by (induction rows arbitrary: mine) (auto split: if_splits)

section \<open>Properties\<close>

text \<open>A closed decision: the sample deal move, staged by an agent, still pending.\<close>

definition pending_move :: approval where
  "pending_move = sample_approval\<lparr>ap_status := Pending, ap_decided_by := None, ap_decided_at := None\<rparr>"

definition pending_world :: "unit world" where
  "pending_world = sample_world\<lparr>w_approvals := [pending_move]\<rparr>"

definition rep_decides :: ctx where
  "rep_decides = (rep_ctx RowScopeOwn)\<lparr>ctx_correlation := Some 9\<rparr>"

lemma rep_decides_simps [simp]: "ctx_actor rep_decides = Some (rep RowScopeOwn)"
  by (simp add: rep_decides_def)

lemma rep_can_emit: "ids_minted s \<Longrightarrow> can_emit s rep_decides (rep RowScopeOwn) 1"
proof -
  assume "ids_minted s"
  moreover have "p_id (rep RowScopeOwn) \<noteq> []" "principal_type_string (p_type (rep RowScopeOwn)) \<in> set actor_types"
    "ctx_correlation rep_decides = Some 9" by code_simp+
  ultimately show ?thesis by (simp add: can_emit_def is_zero_def nil_uuid_def)
qed

lemma sample_decision:
  "\<exists>w'. decide_in_tx (sample_service 10) rep_decides (rep RowScopeOwn) 1 approve reason None pending_world
     = Inr (settle approve 7 0 reason pending_move, w')"
proof -
  have g: "get_row 1 pending_world = Inr pending_move"
      "decidable rep_decides pending_world (rep RowScopeOwn) pending_move = Inr True"
      "effective_status pending_move (svc_now (sample_service 10)) = Pending"
      "w_now pending_world = 0" "p_user_id (rep RowScopeOwn) = 7"
    by code_simp+
  have may: "agent_may_decide (rep RowScopeOwn) pending_move approve = Inr ()"
    by (simp add: agent_may_decide_def)
  show ?thesis
    using decide_in_tx_commits [OF g(1,2) may g(3), where edited = None and ed = None and reason = reason] g(4,5)
      rep_can_emit [OF sample_service_minted]
    by (simp add: decide_edit_def)
qed

lemma decision_refusals_facts:
  "get_row i w = Inl e \<Longrightarrow> decide_in_tx s c p i approve reason edited w = Inl (App ErrNotFound)"
  "get_row i w = Inr a \<Longrightarrow> decidable c w p a = Inr False \<Longrightarrow>
     decide_in_tx s c p i approve reason edited w = Inl (App ErrNotFound)"
  "get_row i w = Inr a \<Longrightarrow> decidable c w p a = Inr True \<Longrightarrow> agent_may_decide p a approve = Inl e' \<Longrightarrow>
     decide_in_tx s c p i approve reason edited w = Inl (App e')"
  "get_row i w = Inr a \<Longrightarrow> decidable c w p a = Inr True \<Longrightarrow> agent_may_decide p a approve = Inr () \<Longrightarrow>
     effective_status a (svc_now s) \<noteq> Pending \<Longrightarrow>
     decide_in_tx s c p i approve reason edited w = Inl (AlreadyDecided (effective_status a (svc_now s)))"
  by (auto simp: decide_in_tx_def get_decidable_def get_row_def split: option.splits)

text \<open>
  A decision's refusals hide what the caller may not know. A row that does not exist and a row the
  caller could not decide get one and the same answer, whatever its status; only to a caller who may
  see it does the engine say their credential falls short, and only to one whose credential suffices
  that it was already decided, with the status every reader sees; none of them writes anything.
\<close>

theorem decision_refusals:
  "(get_row i w = Inl e \<longrightarrow> decide_in_tx s c p i approve reason edited w = Inl (App ErrNotFound))
     \<and> (get_row i w = Inr a \<longrightarrow> decidable c w p a = Inr False \<longrightarrow>
         decide_in_tx s c p i approve reason edited w = Inl (App ErrNotFound))
     \<and> (get_row i w = Inr a \<longrightarrow> decidable c w p a = Inr True \<longrightarrow>
         agent_may_decide p a approve = Inl e' \<longrightarrow>
         decide_in_tx s c p i approve reason edited w = Inl (App e'))
     \<and> (get_row i w = Inr a \<longrightarrow> decidable c w p a = Inr True \<longrightarrow>
         agent_may_decide p a approve = Inr () \<longrightarrow> effective_status a (svc_now s) \<noteq> Pending \<longrightarrow>
         decide_in_tx s c p i approve reason edited w = Inl (AlreadyDecided (effective_status a (svc_now s))))"
  by (assumption | rule decision_refusals_facts conjI impI)+

theorem decision_refusals_witness:
  "decide_in_tx (sample_service 60) rep_decides (rep RowScopeOwn) 1 True None None pending_world
   = Inl (AlreadyDecided Expired)"
proof -
  have "get_row 1 pending_world = Inr pending_move" "effective_status pending_move 60 = Expired"
    "decidable rep_decides pending_world (rep RowScopeOwn) pending_move = Inr True"
    "agent_may_decide (rep RowScopeOwn) pending_move True = Inr ()" "svc_now (sample_service 60) = 60"
    by code_simp+
  then show ?thesis
    using decision_refusals [THEN conjunct2, THEN conjunct2, THEN conjunct2, THEN mp, THEN mp, THEN mp, THEN mp, of 1 pending_world pending_move rep_decides "rep RowScopeOwn" True "sample_service 60"]
    by simp
qed

text \<open>The events a decision emits, in order: its own and, for a coldstart read-back, the kind's echo.\<close>

definition decided_events ::
  "principal \<Rightarrow> uuid \<Rightarrow> approval \<Rightarrow> bool \<Rightarrow> (json \<times> string) option \<Rightarrow> (string \<times> payload) list" where
  "decided_events p i a approve ed =
     (''approval.decided'', ApprovalDecided (ap_kind a) (verdict approve) (Some (p_user_id p))
        (map_option (\<lambda>(change, hash). (hash, change)) ed))
     # (if ap_kind a = ''coldstart''
        then [(if approve then ''coldstart.accepted'' else ''coldstart.rejected'', ColdstartDecided i (p_user_id p) approve)]
        else [])"

lemma emit_event_row:
  assumes "emit s c p aud e pl w = Inr w'"
  shows "\<exists>r. w_outbox w' = w_outbox w @ [r] \<and> ob_audit r = aud \<and> ob_entity_id r = e
    \<and> (ev_type (ob_envelope r), ob_payload r) = (event_type_of pl, pl) \<and> deliverable r"
  using assms by (auto simp: emit_def Let_def deliverable_def split: option.splits)

lemma decided_events_emitted:
  assumes "decide_in_tx s c p i approve reason edited w = Inr (b, w')" "get_row i w = Inr a" "decide_edit s a edited = Inr ed"
  shows "\<exists>obs. w_outbox w' = w_outbox w @ obs
    \<and> map (\<lambda>ob. (ev_type (ob_envelope ob), ob_payload ob)) obs = decided_events p i a approve ed
    \<and> (\<forall>ob \<in> set obs. ob_audit ob = length (w_audit w) \<and> ob_entity_id ob = i \<and> deliverable ob)"
proof -
  obtain a' where g: "get_decidable c p i w = Inr a'" using assms(1) by (auto simp: decide_in_tx_def)
  then have g: "get_decidable c p i w = Inr a" using assms(2) by (simp add: get_decidable_iff)
  obtain w2 w3 where em: "emit s c p (length (w_audit w)) i (ApprovalDecided (ap_kind a) (verdict approve)
      (Some (p_user_id p)) (map_option (\<lambda>(change, hash). (hash, change)) ed)) w2 = Inr w3"
    and out: "w_outbox w2 = w_outbox w"
    and ek: "emit_kind_decided s c p (length (w_audit w)) i (ap_kind a) approve w3 = Inr w'"
    using assms(1) by (auto simp: decide_in_tx_def g assms(3) Let_def audit_def split: if_splits)
  note first = emit_event_row [OF em, unfolded out]
  show ?thesis
  proof (cases "ap_kind a = ''coldstart''")
    case False
    then have "w' = w3" using ek by (simp add: emit_kind_decided_def)
    then show ?thesis using first False by (auto simp: decided_events_def)
  next
    case True
    then have "emit s c p (length (w_audit w)) i (ColdstartDecided i (p_user_id p) approve) w3 = Inr w'"
      using ek by (simp add: emit_kind_decided_def)
    note second = emit_event_row [OF this]
    obtain r1 where r1: "w_outbox w3 = w_outbox w @ [r1]" "ob_audit r1 = length (w_audit w)" "ob_entity_id r1 = i"
      "(ev_type (ob_envelope r1), ob_payload r1) = (''approval.decided'', ApprovalDecided (ap_kind a) (verdict approve)
        (Some (p_user_id p)) (map_option (\<lambda>(change, hash). (hash, change)) ed))" "deliverable r1"
      using first by auto
    obtain r2 where r2: "w_outbox w' = w_outbox w3 @ [r2]" "ob_audit r2 = length (w_audit w)" "ob_entity_id r2 = i"
      "(ev_type (ob_envelope r2), ob_payload r2)
        = (event_type_of (ColdstartDecided i (p_user_id p) approve), ColdstartDecided i (p_user_id p) approve)" "deliverable r2"
      using second by auto
    have "w_outbox w' = w_outbox w @ [r1, r2]" using r1(1) r2(1) by simp
    moreover have "map (\<lambda>ob. (ev_type (ob_envelope ob), ob_payload ob)) [r1, r2] = decided_events p i a approve ed"
      using r1(4) r2(4) True by (simp add: decided_events_def)
    ultimately show ?thesis using r1(2,3,5) r2(2,3,5) by (intro exI [of _ "[r1, r2]"]) simp
  qed
qed

lemma decided_stays_decided:
  "get_row i w = Inr b \<Longrightarrow> ap_status b = verdict v \<Longrightarrow> \<nexists>r. decide_in_tx s c p i approve reason edited w = Inr r"
  by (auto simp: decide_in_tx_def get_decidable_iff effective_status_def verdict_def split: if_splits)

lemma decision_exact_facts:
  assumes "decide_in_tx s c p i approve reason edited w = Inr (b, w')"
  shows "\<exists>a ed aud obs. get_row i w = Inr a \<and> decidable c w p a = Inr True \<and> agent_may_decide p a approve = Inr ()
      \<and> effective_status a (svc_now s) = Pending \<and> decide_edit s a edited = Inr ed
      \<and> b = settle approve (p_user_id p) (w_now w) reason (apply_edit ed a)
      \<and> w_audit w' = w_audit w @ [aud] \<and> au_entity_id aud = i \<and> au_actor_id aud = p_id p
      \<and> au_action aud = (if approve then ''approve'' else ''reject'') \<and> au_evidence aud = decision_evidence a approve reason ed
      \<and> w_outbox w' = w_outbox w @ obs
      \<and> map (\<lambda>ob. (ev_type (ob_envelope ob), ob_payload ob)) obs = decided_events p i a approve ed
      \<and> (\<forall>ob \<in> set obs. ob_audit ob = length (w_audit w) \<and> ob_entity_id ob = i \<and> deliverable ob)"
    and "get_row i w' = Inr b" "j \<noteq> i \<Longrightarrow> get_row j w' = get_row j w" "same_env w w'"
    and "get_row i w2 = Inr b2 \<Longrightarrow> ap_status b2 = ap_status b \<Longrightarrow>
      \<nexists>r. decide_in_tx s2 c2 p2 i approve2 reason2 edited2 w2 = Inr r"
proof -
  obtain a ed aud where e: "get_row i w = Inr a" "decidable c w p a = Inr True"
    "agent_may_decide p a approve = Inr ()" "effective_status a (svc_now s) = Pending" "decide_edit s a edited = Inr ed"
    "b = settle approve (p_user_id p) (w_now w) reason (apply_edit ed a)" "get_row i w' = Inr b"
    "w_audit w' = w_audit w @ [aud]" "au_action aud = (if approve then ''approve'' else ''reject'')"
    "au_entity_id aud = i" "au_actor_id aud = p_id p" "au_evidence aud = decision_evidence a approve reason ed"
    "same_env w w'"
    using assms by (rule decide_in_tx_effect)
  show "get_row i w' = Inr b" "same_env w w'" by (rule e)+
  show "\<exists>a ed aud obs. get_row i w = Inr a \<and> decidable c w p a = Inr True \<and> agent_may_decide p a approve = Inr ()
      \<and> effective_status a (svc_now s) = Pending \<and> decide_edit s a edited = Inr ed
      \<and> b = settle approve (p_user_id p) (w_now w) reason (apply_edit ed a)
      \<and> w_audit w' = w_audit w @ [aud] \<and> au_entity_id aud = i \<and> au_actor_id aud = p_id p
      \<and> au_action aud = (if approve then ''approve'' else ''reject'') \<and> au_evidence aud = decision_evidence a approve reason ed
      \<and> w_outbox w' = w_outbox w @ obs
      \<and> map (\<lambda>ob. (ev_type (ob_envelope ob), ob_payload ob)) obs = decided_events p i a approve ed
      \<and> (\<forall>ob \<in> set obs. ob_audit ob = length (w_audit w) \<and> ob_entity_id ob = i \<and> deliverable ob)"
    using e(1-6,8-12) decided_events_emitted [OF assms e(1,5)] by blast
  show "j \<noteq> i \<Longrightarrow> get_row j w' = get_row j w" by (rule decide_get_row_other [OF assms])
  show "\<nexists>r. decide_in_tx s2 c2 p2 i approve2 reason2 edited2 w2 = Inr r"
    if "get_row i w2 = Inr b2" "ap_status b2 = ap_status b"
    using decided_stays_decided [OF that(1), of approve] that(2) e(6) by simp
qed

text \<open>
  C7. What a committed decision did is exact: it was taken by someone the row was decidable by, on a row
  that was pending, within its window and on no withheld cap; the row is the old one with the accepted
  edit, the verdict, the decider, the database's time and the reason, and no other column; no other row
  and nothing outside the approvals tables is touched; one audit row is appended, naming the actor, the
  verdict and what was edited; and the outbox gains exactly the decided event with its kind, verdict,
  decider and edit - and after it the kind's own echo for a coldstart read-back, nothing else - each
  pointing at that audit row. In this state, and in any other in which the row still carries the
  verdict, no decision of it commits, by anyone, either way, edited or not.
\<close>

theorem decision_exact:
  assumes "decide_in_tx s c p i approve reason edited w = Inr (b, w')"
  shows "(\<exists>a ed aud obs. get_row i w = Inr a \<and> decidable c w p a = Inr True \<and> agent_may_decide p a approve = Inr ()
      \<and> effective_status a (svc_now s) = Pending \<and> decide_edit s a edited = Inr ed
      \<and> b = settle approve (p_user_id p) (w_now w) reason (apply_edit ed a)
      \<and> w_audit w' = w_audit w @ [aud] \<and> au_entity_id aud = i \<and> au_actor_id aud = p_id p
      \<and> au_action aud = (if approve then ''approve'' else ''reject'') \<and> au_evidence aud = decision_evidence a approve reason ed
      \<and> w_outbox w' = w_outbox w @ obs
      \<and> map (\<lambda>ob. (ev_type (ob_envelope ob), ob_payload ob)) obs = decided_events p i a approve ed
      \<and> (\<forall>ob \<in> set obs. ob_audit ob = length (w_audit w) \<and> ob_entity_id ob = i \<and> deliverable ob))
     \<and> (get_row i w' = Inr b)
     \<and> (j \<noteq> i \<longrightarrow> get_row j w' = get_row j w)
     \<and> (same_env w w')
     \<and> (get_row i w2 = Inr b2 \<longrightarrow> ap_status b2 = ap_status b \<longrightarrow>
          (\<nexists>r. decide_in_tx s2 c2 p2 i approve2 reason2 edited2 w2 = Inr r))"
  by (assumption | rule decision_exact_facts [OF assms] conjI impI)+

theorem decision_exact_witness:
  "\<exists>w' :: unit world. decide_in_tx (sample_service 10) rep_decides (rep RowScopeOwn) 1 True None None pending_world
       = Inr (settle True 7 0 None pending_move, w')
     \<and> (\<nexists>r. decide_in_tx (sample_service 10) rep_decides (rep RowScopeOwn) 1 False None None w' = Inr r)"
proof -
  obtain w' :: "unit world" where d: "decide_in_tx (sample_service 10) rep_decides (rep RowScopeOwn) 1 True None None pending_world
     = Inr (settle True 7 0 None pending_move, w')" using sample_decision by blast
  note exact = decision_exact [OF d]
  have row: "get_row 1 w' = Inr (settle True 7 0 None pending_move)" by (rule exact [THEN conjunct2, THEN conjunct1])
  have "\<nexists>r. decide_in_tx (sample_service 10) rep_decides (rep RowScopeOwn) 1 False None None w' = Inr r"
    by (rule exact [THEN conjunct2, THEN conjunct2, THEN conjunct2, THEN conjunct2, THEN mp, THEN mp, OF row refl])
  then show ?thesis using d by blast
qed

lemma decision_failures_facts:
  assumes "acting_for_a_human c = Inr ()" "ctx_actor c = Some p"
  shows "run_precheck s c i approve edited w = (Inl e, w1) \<Longrightarrow>
      decide_any s c i approve reason edited w = (Inl e, w1)"
    and "run_precheck s c i approve edited w = (Inr (), w1) \<Longrightarrow>
      decide_in_tx s c p i approve reason edited w1 = Inr (a, w2) \<Longrightarrow> run_decline s i a approve w2 = Inl e \<Longrightarrow>
      decide_any s c i approve reason edited w = (Inl e, w1)"
    and "run_precheck s c i approve edited w = (Inr (), w1) \<Longrightarrow>
      decide_tx s c p i approve reason edited w1 = Inr (a, w2) \<Longrightarrow>
      run_decision_effect s c i a approve w2 = (Inl e, w3) \<Longrightarrow>
      decide_any s c i approve reason edited w = (Inl e, w3) \<and> approve \<and> ap_status a = Approved"
proof -
  show "run_precheck s c i approve edited w = (Inl e, w1) \<Longrightarrow>
      decide_any s c i approve reason edited w = (Inl e, w1)"
    using assms by (simp add: decide_any_def)
  show "run_precheck s c i approve edited w = (Inr (), w1) \<Longrightarrow>
      decide_in_tx s c p i approve reason edited w1 = Inr (a, w2) \<Longrightarrow> run_decline s i a approve w2 = Inl e \<Longrightarrow>
      decide_any s c i approve reason edited w = (Inl e, w1)"
    using assms by (simp add: decide_any_def decide_tx_def run_tx_def)
  assume pre: "run_precheck s c i approve edited w = (Inr (), w1)"
    and tx: "decide_tx s c p i approve reason edited w1 = Inr (a, w2)"
    and eff: "run_decision_effect s c i a approve w2 = (Inl e, w3)"
  obtain w' where d: "decide_in_tx s c p i approve reason edited w1 = Inr (a, w')"
    using tx by (auto simp: decide_tx_def)
  have approve using eff by (auto simp: run_decision_effect_def split: if_splits option.splits)
  then show "decide_any s c i approve reason edited w = (Inl e, w3) \<and> approve \<and> ap_status a = Approved"
    using assms pre tx eff decide_result_row(3) [OF d] by (simp add: decide_any_def run_tx_def)
qed

text \<open>
  Where a decision can fail, it fails on the right side of its commit. A preflight that refuses and a
  decline's effect that fails leave no decision at all, so the same row can be decided again after the
  cause is fixed; the effect an approval releases runs after the commit, so when it fails the caller is
  told while the row stays approved with its audit and event.
\<close>

theorem decision_failures:
  assumes "acting_for_a_human c = Inr ()" "ctx_actor c = Some p"
  shows "(run_precheck s c i approve edited w = (Inl e, w1) \<longrightarrow>
         decide_any s c i approve reason edited w = (Inl e, w1))
     \<and> (run_precheck s c i approve edited w = (Inr (), w1) \<longrightarrow>
         decide_in_tx s c p i approve reason edited w1 = Inr (a, w2) \<longrightarrow>
         run_decline s i a approve w2 = Inl e \<longrightarrow>
         decide_any s c i approve reason edited w = (Inl e, w1))
     \<and> (run_precheck s c i approve edited w = (Inr (), w1) \<longrightarrow>
         decide_tx s c p i approve reason edited w1 = Inr (a, w2) \<longrightarrow>
         run_decision_effect s c i a approve w2 = (Inl e, w3) \<longrightarrow>
         (decide_any s c i approve reason edited w = (Inl e, w3) \<and> approve \<and> ap_status a = Approved))"
  by (assumption | rule decision_failures_facts [OF assms] conjI impI)+

theorem decision_failures_witness:
  "decide_any ((sample_service 10)\<lparr>svc_declines := (\<lambda>_. Some (\<lambda>_ _ _. Inl ErrConflict))\<rparr>) rep_decides 1 False None None
     (pending_world\<lparr>w_approvals := [pending_move\<lparr>ap_passport_id := None\<rparr>]\<rparr>)
   = (Inl (App ErrConflict), pending_world\<lparr>w_approvals := [pending_move\<lparr>ap_passport_id := None\<rparr>]\<rparr>)"
proof -
  let ?s = "(sample_service 10)\<lparr>svc_declines := (\<lambda>_. Some (\<lambda>_ _ _. Inl ErrConflict))\<rparr> :: unit service"
  let ?w = "pending_world\<lparr>w_approvals := [pending_move\<lparr>ap_passport_id := None\<rparr>]\<rparr>"
  have g: "get_decidable rep_decides (rep RowScopeOwn) 1 ?w = Inr (pending_move\<lparr>ap_passport_id := None\<rparr>)"
    and st: "effective_status (pending_move\<lparr>ap_passport_id := None\<rparr>) (svc_now ?s) = Pending"
    and kind: "ap_kind pending_move = ''advance_deal''" and "ap_id pending_move = 1"
    by code_simp+
  have em: "can_emit ?s rep_decides (rep RowScopeOwn) 1"
    by (rule rep_can_emit) (simp add: ids_minted_def sample_service_def is_zero_def nil_uuid_def)
  have row: "get_row 1 ?w = Inr (pending_move\<lparr>ap_passport_id := None\<rparr>)"
    "decidable rep_decides ?w (rep RowScopeOwn) (pending_move\<lparr>ap_passport_id := None\<rparr>) = Inr True"
    using g by (simp_all add: get_decidable_iff)
  have may: "agent_may_decide (rep RowScopeOwn) (pending_move\<lparr>ap_passport_id := None\<rparr>) False = Inr ()"
    by (simp add: agent_may_decide_def)
  obtain a w2 where d: "decide_in_tx ?s rep_decides (rep RowScopeOwn) 1 False None None ?w = Inr (a, w2)"
    "ap_passport_id a = None"
    using decide_in_tx_commits [OF row may st, of None None None] em by (auto simp: decide_edit_def)
  have pre: "run_precheck ?s rep_decides 1 False None ?w = (Inr (), ?w)" by (simp add: run_precheck_def)
  have dec: "run_decline ?s 1 a False w2 = Inl (App ErrConflict)"
    using d(2) by (simp add: run_decline_def server_proposed_def)
  have "acting_for_a_human rep_decides = Inr ()" by (simp add: acting_for_a_human_def)
  from decision_failures [THEN conjunct2, THEN conjunct1, THEN mp, THEN mp, THEN mp, OF this rep_decides_simps pre d(1) dec] show ?thesis .
qed

lemma agent_staged_rows_run_no_effect_facts:
  "ap_passport_id a \<noteq> None \<Longrightarrow> ap_kind a \<noteq> kind_quota_release \<Longrightarrow> run_decision_effect s c i a approve w = (Inr (), w)"
  "ap_passport_id a \<noteq> None \<Longrightarrow> run_decline s i a approve w = Inr w"
  "get_approval c i w = Inr a \<Longrightarrow> ap_passport_id a \<noteq> None \<Longrightarrow> run_precheck s c i approve edited w = (Inr (), w)"
  "run_decision_effect s c i a False w = (Inr (), w)"
  by (auto simp: run_decision_effect_def run_decline_def run_precheck_def server_proposed_def split: option.splits)

text \<open>
  Who proposed a staging decides what its approval runs. A row an agent staged on its passport never
  reaches a registered effect, a preflight or a decline, whatever kind it was staged under and whatever
  compose registered for that kind; a rejection releases nothing in any case.
\<close>

theorem agent_staged_rows_run_no_effect:
  "(ap_passport_id a \<noteq> None \<longrightarrow> ap_kind a \<noteq> kind_quota_release \<longrightarrow>
         run_decision_effect s c i a approve w = (Inr (), w))
     \<and> (ap_passport_id a \<noteq> None \<longrightarrow> run_decline s i a approve w = Inr w)
     \<and> (get_approval c i w = Inr a \<longrightarrow> ap_passport_id a \<noteq> None \<longrightarrow>
         run_precheck s c i approve edited w = (Inr (), w))
     \<and> (run_decision_effect s c i a False w = (Inr (), w))"
  by (assumption | rule agent_staged_rows_run_no_effect_facts conjI impI)+

theorem agent_staged_rows_run_no_effect_witness:
  "run_decision_effect ((sample_service 10)\<lparr>svc_effects := (\<lambda>_. Some (\<lambda>_ _ _ w. (Inl ErrConflict, w)))\<rparr>)
     rep_decides 1 sample_approval True approved_world = (Inr (), approved_world)"
proof -
  have "ap_passport_id sample_approval \<noteq> None" "ap_kind sample_approval \<noteq> kind_quota_release"
    by (simp_all add: sample_approval_def kind_defs)
  then show ?thesis using agent_staged_rows_run_no_effect [THEN conjunct1, THEN mp, THEN mp] by blast
qed

lemma edited_approval_binds_the_edit_facts:
  assumes "decide_in_tx s c p i True reason (Some e) w = Inr (b, w')"
  shows "\<exists>a. get_row i w = Inr a \<and> ap_kind a \<noteq> kind_quota_release
      \<and> diffhash_canonical (svc_num s) (svc_sha s) e = Some (ap_proposed_change b, ap_diff_hash b)
      \<and> (\<forall>l. uuid_at (ap_proposed_change a) l = uuid_at (ap_proposed_change b) l)
      \<and> b = settle True (p_user_id p) (w_now w) reason
              (a\<lparr>ap_proposed_change := ap_proposed_change b, ap_diff_hash := ap_diff_hash b\<rparr>)
      \<and> (\<exists>aud. w_audit w' = w_audit w @ [aud]
          \<and> {(''original_change'', ap_proposed_change a), (''original_diff_hash'', JStr (ap_diff_hash a)),
              (''edited_change'', ap_proposed_change b), (''edited_diff_hash'', JStr (ap_diff_hash b))}
            \<subseteq> set (au_evidence aud))"
    and "get_row i w' = Inr b"
    and "h \<noteq> ap_diff_hash b \<Longrightarrow> validate_redemption b p2 tool h now = Inl ErrApprovalTokenInvalid"
proof -
  obtain a ed aud obs where d: "get_row i w = Inr a" "decide_edit s a (Some e) = Inr ed"
    "b = settle True (p_user_id p) (w_now w) reason (apply_edit ed a)" "get_row i w' = Inr b"
    "w_audit w' = w_audit w @ [aud]" "au_evidence aud = decision_evidence a True reason ed"
    using assms by (rule decide_in_tx_effect)
  obtain x y where ed: "ed = Some (x, y)" "ap_kind a \<noteq> kind_quota_release" "edited_payload s a e = Inr (x, y)"
    using d(2) by (auto simp: decide_edit_def split: if_splits)
  then have pay: "diffhash_canonical (svc_num s) (svc_sha s) e = Some (x, y)"
    "assert_same_entity_refs (ap_proposed_change a) x = Inr ()"
    by (auto simp: edited_payload_def split: option.splits sum.splits if_splits)
  have b: "ap_proposed_change b = x" "ap_diff_hash b = y" using d(3) ed(1) by simp_all
  have row: "b = settle True (p_user_id p) (w_now w) reason
              (a\<lparr>ap_proposed_change := ap_proposed_change b, ap_diff_hash := ap_diff_hash b\<rparr>)"
    unfolding b using d(3) ed(1) by (simp add: apply_edit_def)
  have "{(''original_change'', ap_proposed_change a), (''original_diff_hash'', JStr (ap_diff_hash a)),
              (''edited_change'', ap_proposed_change b), (''edited_diff_hash'', JStr (ap_diff_hash b))}
            \<subseteq> set (au_evidence aud)"
    unfolding b d(6) ed(1) by (simp add: decision_evidence_def)
  then show "\<exists>a. get_row i w = Inr a \<and> ap_kind a \<noteq> kind_quota_release
      \<and> diffhash_canonical (svc_num s) (svc_sha s) e = Some (ap_proposed_change b, ap_diff_hash b)
      \<and> (\<forall>l. uuid_at (ap_proposed_change a) l = uuid_at (ap_proposed_change b) l)
      \<and> b = settle True (p_user_id p) (w_now w) reason
              (a\<lparr>ap_proposed_change := ap_proposed_change b, ap_diff_hash := ap_diff_hash b\<rparr>)
      \<and> (\<exists>aud. w_audit w' = w_audit w @ [aud]
          \<and> {(''original_change'', ap_proposed_change a), (''original_diff_hash'', JStr (ap_diff_hash a)),
              (''edited_change'', ap_proposed_change b), (''edited_diff_hash'', JStr (ap_diff_hash b))}
            \<subseteq> set (au_evidence aud))"
    using d(1,5) ed(2) pay row b assert_same_entity_refs_iff by blast
  show "get_row i w' = Inr b" by (rule d)
  show "h \<noteq> ap_diff_hash b \<Longrightarrow> validate_redemption b p2 tool h now = Inl ErrApprovalTokenInvalid"
    by (simp add: validate_redemption_def)
qed

text \<open>
  C20. An edited approval binds what the human edited, not what was staged. It holds the canonical form
  of the edit and its hash, names the same record at every location of the payload, and changes nothing
  else of the proposal; the call it licenses is the edited one alone, so a redemption with any other
  hash, the staged one included, is an invalid token; the audit row keeps both texts. A volume
  step-up is never edited.
\<close>

theorem edited_approval_binds_the_edit:
  assumes "decide_in_tx s c p i True reason (Some e) w = Inr (b, w')"
  shows "(\<exists>a. get_row i w = Inr a \<and> ap_kind a \<noteq> kind_quota_release
      \<and> diffhash_canonical (svc_num s) (svc_sha s) e = Some (ap_proposed_change b, ap_diff_hash b)
      \<and> (\<forall>l. uuid_at (ap_proposed_change a) l = uuid_at (ap_proposed_change b) l)
      \<and> b = settle True (p_user_id p) (w_now w) reason
              (a\<lparr>ap_proposed_change := ap_proposed_change b, ap_diff_hash := ap_diff_hash b\<rparr>)
      \<and> (\<exists>aud. w_audit w' = w_audit w @ [aud]
          \<and> {(''original_change'', ap_proposed_change a), (''original_diff_hash'', JStr (ap_diff_hash a)),
              (''edited_change'', ap_proposed_change b), (''edited_diff_hash'', JStr (ap_diff_hash b))}
            \<subseteq> set (au_evidence aud)))
     \<and> (get_row i w' = Inr b)
     \<and> (h \<noteq> ap_diff_hash b \<longrightarrow> validate_redemption b p2 tool h now = Inl ErrApprovalTokenInvalid)"
  by (assumption | rule edited_approval_binds_the_edit_facts [OF assms] conjI impI)+

text \<open>A service whose hash is the canonical text, so that two contents never share one.\<close>

definition hashing_service :: "time \<Rightarrow> unit service" where
  "hashing_service now = (sample_service now)\<lparr>svc_sha := render '':'' '',''\<rparr>"

definition edited_move :: json where
  "edited_move = JObj [(''stage'', JStr ''lost'')]"

theorem edited_approval_binds_the_edit_witness:
  "\<exists>b w'. decide_in_tx (hashing_service 10) rep_decides (rep RowScopeOwn) 1 True None (Some edited_move) pending_world
       = Inr (b, w')
     \<and> validate_redemption b agent_passport ''advance_deal'' (ap_diff_hash pending_move) 11 = Inl ErrApprovalTokenInvalid"
proof -
  have g: "get_row 1 pending_world = Inr pending_move"
      "decidable rep_decides pending_world (rep RowScopeOwn) pending_move = Inr True"
      "agent_may_decide (rep RowScopeOwn) pending_move True = Inr ()"
      "effective_status pending_move (svc_now (hashing_service 10)) = Pending"
      "decide_edit (hashing_service 10) pending_move (Some edited_move)
         = Inr (Some (edited_move, render '':'' '','' edited_move))"
      "ap_diff_hash pending_move \<noteq> render '':'' '','' edited_move"
    by code_simp+
  have "ids_minted (hashing_service 10)"
    by (simp add: hashing_service_def ids_minted_def sample_service_def is_zero_def nil_uuid_def)
  then have "can_emit (hashing_service 10) rep_decides (rep RowScopeOwn) 1" by (rule rep_can_emit)
  from decide_in_tx_commits [OF g(1-5) this, of None]
  obtain w' where d: "decide_in_tx (hashing_service 10) rep_decides (rep RowScopeOwn) 1 True None (Some edited_move) pending_world
    = Inr (settle True (p_user_id (rep RowScopeOwn)) (w_now pending_world) None
        (apply_edit (Some (edited_move, render '':'' '','' edited_move)) pending_move), w')" by blast
  show ?thesis
    using edited_approval_binds_the_edit [THEN conjunct2, THEN conjunct2, THEN mp, OF d, of "ap_diff_hash pending_move" agent_passport "''advance_deal''" 11] d g(6)
    by simp
qed

lemma bundle_decides_members_independently_facts:
  assumes "decide_bundle_in_tx s tick c p bundle approve reason w = Inr (ms, w')"
    and "distinct (map ap_id (w_approvals w))"
  shows "(\<lambda>m. ap_id (bm_approval m)) ` set ms =
      {ap_id a | a. a \<in> set (w_approvals w) \<and> ap_bundle_id a = Some bundle
        \<and> decidable c w p a = Inr True \<and> agent_may_decide p a approve = Inr ()}"
    and "ms \<noteq> []" "length ms \<le> bundle_decision_cap" "distinct (map (\<lambda>m. ap_id (bm_approval m)) ms)"
    and "m \<in> set ms \<Longrightarrow> get_row (ap_id (bm_approval m)) w' = Inr (bm_approval m)
      \<and> (bm_outcome m = BundleDecided \<longrightarrow>
           ap_status (bm_approval m) = verdict approve \<and> ap_decided_by (bm_approval m) = Some (p_user_id p))
      \<and> (bm_outcome m \<noteq> BundleDecided \<longrightarrow>
           get_row (ap_id (bm_approval m)) w = Inr (bm_approval m))"
    and "j \<notin> (\<lambda>m. ap_id (bm_approval m)) ` set ms \<Longrightarrow> get_row j w' = get_row j w" "same_env w w'"
proof -
  define rows where "rows = lock_order (filter (\<lambda>a. ap_bundle_id a = Some bundle) (w_approvals w))"
  obtain mine where mine: "decidable_members c w p approve (take (bundle_decision_cap + 1) rows) = Inr mine"
    "mine \<noteq> []" "\<not> bundle_decision_cap < length (take (bundle_decision_cap + 1) rows)"
    "decide_members s tick c p approve reason mine w = Inr (ms, w')"
    using assms(1) unfolding decide_bundle_in_tx_def bundle_members_def Let_def rows_def
    by (auto split: if_splits)
  have small: "length rows \<le> bundle_decision_cap" using mine(3) by simp
  then have m: "mine = filter (\<lambda>a. decidable c w p a = Inr True \<and> agent_may_decide p a approve = Inr ()) rows"
    using decidable_members_mem [OF mine(1)] by simp
  have perm: "mset rows = mset (filter (\<lambda>a. ap_bundle_id a = Some bundle) (w_approvals w))"
    by (simp add: rows_def lock_order_def)
  have dist: "distinct (map ap_id rows)"
  proof -
    have "mset (map ap_id rows) = mset (map ap_id (filter (\<lambda>a. ap_bundle_id a = Some bundle) (w_approvals w)))"
      using perm by simp
    then show ?thesis using distinct_map_filter [OF assms(2)] mset_eq_imp_distinct_iff by blast
  qed
  have d: "distinct (map ap_id mine)" unfolding m by (rule distinct_map_filter [OF dist])
  have sub: "a \<in> set (w_approvals w)" if "a \<in> set mine" for a using that by (simp add: m rows_def)
  then have got: "get_row (ap_id a) w = Inr a" if "a \<in> set mine" for a
    using that find_distinct_key [OF assms(2)] by (simp add: get_row_def)
  note f = decide_members_frame [OF mine(4) d got]
  have ids: "map (\<lambda>m. ap_id (bm_approval m)) ms = map ap_id mine" using f by blast
  then have idset: "(\<lambda>m. ap_id (bm_approval m)) ` set ms = ap_id ` set mine" by (metis set_map)
  show "(\<lambda>m. ap_id (bm_approval m)) ` set ms =
      {ap_id a | a. a \<in> set (w_approvals w) \<and> ap_bundle_id a = Some bundle
        \<and> decidable c w p a = Inr True \<and> agent_may_decide p a approve = Inr ()}"
    unfolding idset m by (auto simp: rows_def)
  have "length ms = length mine" using ids by (metis length_map)
  then show "ms \<noteq> []" using mine(2) by auto
  show "length ms \<le> bundle_decision_cap"
    using \<open>length ms = length mine\<close> le_trans [OF length_filter_le small] m by simp
  show "distinct (map (\<lambda>m. ap_id (bm_approval m)) ms)" using ids d by simp
  show "same_env w w'" using f by blast
  show "j \<notin> (\<lambda>m. ap_id (bm_approval m)) ` set ms \<Longrightarrow> get_row j w' = get_row j w"
    using f unfolding idset by simp
  show "m \<in> set ms \<Longrightarrow> get_row (ap_id (bm_approval m)) w' = Inr (bm_approval m)
      \<and> (bm_outcome m = BundleDecided \<longrightarrow>
           ap_status (bm_approval m) = verdict approve \<and> ap_decided_by (bm_approval m) = Some (p_user_id p))
      \<and> (bm_outcome m \<noteq> BundleDecided \<longrightarrow>
           get_row (ap_id (bm_approval m)) w = Inr (bm_approval m))"
    using f got by (auto split: if_splits)
qed

text \<open>
  Deciding a bundle decides its members one by one. It covers exactly the members the caller could
  decide alone, at most the cap of them; a member recorded as decided carries the caller's verdict, one
  that lapsed or was decided before stays as it stood and is reported as such, and neither stops its
  siblings; no other row and nothing outside the approvals tables is touched.
\<close>

theorem bundle_decides_members_independently:
  assumes "decide_bundle_in_tx s tick c p bundle approve reason w = Inr (ms, w')"
    and "distinct (map ap_id (w_approvals w))"
  shows "((\<lambda>m. ap_id (bm_approval m)) ` set ms =
      {ap_id a | a. a \<in> set (w_approvals w) \<and> ap_bundle_id a = Some bundle
        \<and> decidable c w p a = Inr True \<and> agent_may_decide p a approve = Inr ()})
     \<and> (ms \<noteq> [])
     \<and> (length ms \<le> bundle_decision_cap)
     \<and> (distinct (map (\<lambda>m. ap_id (bm_approval m)) ms))
     \<and> (m \<in> set ms \<longrightarrow> (get_row (ap_id (bm_approval m)) w' = Inr (bm_approval m)
      \<and> (bm_outcome m = BundleDecided \<longrightarrow>
           ap_status (bm_approval m) = verdict approve \<and> ap_decided_by (bm_approval m) = Some (p_user_id p))
      \<and> (bm_outcome m \<noteq> BundleDecided \<longrightarrow>
           get_row (ap_id (bm_approval m)) w = Inr (bm_approval m))))
     \<and> ((j \<notin> (\<lambda>m. ap_id (bm_approval m)) ` set ms) \<longrightarrow> get_row j w' = get_row j w)
     \<and> (same_env w w')"
  by (assumption | rule bundle_decides_members_independently_facts [OF assms] conjI impI)+

text \<open>Two siblings, one open and one its owner already refused.\<close>

definition bundle_world :: "unit world" where
  "bundle_world = sample_world\<lparr>w_approvals :=
     [pending_move\<lparr>ap_bundle_id := Some 5\<rparr>,
      pending_move\<lparr>ap_id := 2, ap_bundle_id := Some 5, ap_status := Rejected, ap_decided_at := Some 0\<rparr>]\<rparr>"

theorem bundle_decides_members_independently_witness:
  "\<exists>ms w'. decide_bundle_in_tx (sample_service 10) (\<lambda>_. 10) rep_decides (rep RowScopeOwn) 5 True None bundle_world
       = Inr (ms, w') \<and> map bm_outcome ms = [BundleDecided, BundleAlreadyDecided]
     \<and> get_row 2 w' = get_row 2 bundle_world"
proof -
  let ?r = "decide_bundle_in_tx (sample_service 10) (\<lambda>_. 10) rep_decides (rep RowScopeOwn) 5 True None bundle_world"
  have "map_sum (\<lambda>_. ()) (\<lambda>(ms, _). map (\<lambda>m. (bm_outcome m, ap_id (bm_approval m))) ms) ?r
      = Inr [(BundleDecided, 1), (BundleAlreadyDecided, 2)]" by code_simp
  then obtain ms w' where r: "?r = Inr (ms, w')"
    and o: "map (\<lambda>m. (bm_outcome m, ap_id (bm_approval m))) ms = [(BundleDecided, 1), (BundleAlreadyDecided, 2)]"
    by (cases ?r) auto
  then obtain m1 m2 where ms: "ms = [m1, m2]" "bm_outcome m1 = BundleDecided"
    "bm_outcome m2 = BundleAlreadyDecided" "ap_id (bm_approval m2) = 2"
    by (auto simp: map_eq_Cons_conv)
  have dist: "distinct (map ap_id (w_approvals bundle_world))"
    by (simp add: bundle_world_def pending_move_def sample_approval_def)
  have "get_row 2 w' = get_row 2 bundle_world"
    using bundle_decides_members_independently [THEN conjunct2, THEN conjunct2, THEN conjunct2, THEN conjunct2, THEN conjunct1, THEN mp, OF r dist, of m2] ms by simp
  then show ?thesis using r ms by auto
qed

lemma bundle_refusals_and_effects_facts:
  "fst (bundle_members bundle w) = rows \<Longrightarrow> decidable_members c w p approve rows = Inr [] \<Longrightarrow>
     run_tx (decide_bundle_in_tx s tick c p bundle approve reason) w = (Inl (App ErrNotFound), w)"
  "fst (bundle_members bundle w) = rows \<Longrightarrow> decidable_members c w p approve rows = Inr (a # as) \<Longrightarrow>
     bundle_decision_cap < length (filter (\<lambda>a. ap_bundle_id a = Some bundle) (w_approvals w)) \<Longrightarrow>
     run_tx (decide_bundle_in_tx s tick c p bundle approve reason) w = (Inl (BundleTooLarge bundle_decision_cap), w)"
  "map bm_approval (fst (release_decided_members s c ms w)) = map bm_approval ms"
  "release_decided_members s c (xs @ ys) w =
     (case release_decided_members s c xs w of (xs', w1) \<Rightarrow>
        case release_decided_members s c ys w1 of (ys', w2) \<Rightarrow> (xs' @ ys', w2))"
  "release_decided_members s c [m] w = ([m'], w') \<Longrightarrow> bm_outcome m = BundleDecided \<Longrightarrow>
     bm_outcome m' = (case run_decision_effect s c (ap_id (bm_approval m)) (bm_approval m) True w of
        (Inl _, _) \<Rightarrow> BundleEffectFailed | (Inr _, _) \<Rightarrow> BundleDecided)"
proof -
  show "fst (bundle_members bundle w) = rows \<Longrightarrow> decidable_members c w p approve rows = Inr [] \<Longrightarrow>
     run_tx (decide_bundle_in_tx s tick c p bundle approve reason) w = (Inl (App ErrNotFound), w)"
    by (cases "bundle_members bundle w") (simp add: run_tx_def decide_bundle_in_tx_def)
  show "fst (bundle_members bundle w) = rows \<Longrightarrow> decidable_members c w p approve rows = Inr (a # as) \<Longrightarrow>
     bundle_decision_cap < length (filter (\<lambda>a. ap_bundle_id a = Some bundle) (w_approvals w)) \<Longrightarrow>
     run_tx (decide_bundle_in_tx s tick c p bundle approve reason) w = (Inl (BundleTooLarge bundle_decision_cap), w)"
  proof -
    assume rows: "fst (bundle_members bundle w) = rows" and some: "decidable_members c w p approve rows = Inr (a # as)"
      and big: "bundle_decision_cap < length (filter (\<lambda>a. ap_bundle_id a = Some bundle) (w_approvals w))"
    have "bundle_members bundle w = (rows, True)"
      using rows big by (auto simp: bundle_members_def Let_def lock_order_def)
    then show ?thesis using some by (simp add: run_tx_def decide_bundle_in_tx_def)
  qed
  show "map bm_approval (fst (release_decided_members s c ms w)) = map bm_approval ms"
    by (induction ms arbitrary: w) (auto split: prod.splits sum.splits dest!: arg_cong [of _ _ fst])
  show "release_decided_members s c (xs @ ys) w =
     (case release_decided_members s c xs w of (xs', w1) \<Rightarrow>
        case release_decided_members s c ys w1 of (ys', w2) \<Rightarrow> (xs' @ ys', w2))"
    by (induction xs arbitrary: w) (auto split: prod.splits)
  show "release_decided_members s c [m] w = ([m'], w') \<Longrightarrow> bm_outcome m = BundleDecided \<Longrightarrow>
     bm_outcome m' = (case run_decision_effect s c (ap_id (bm_approval m)) (bm_approval m) True w of
        (Inl _, _) \<Rightarrow> BundleEffectFailed | (Inr _, _) \<Rightarrow> BundleDecided)"
    by (auto split: prod.splits sum.splits)
qed

text \<open>
  What a bundle decision refuses, and what its effects may do. A bundle with no member the caller
  could decide reads as absent however large it is; an oversized one the caller could decide part of is
  refused whole; neither writes anything. After the commit, an effect that fails marks its own member
  alone: each decided member's effect runs in order, on the state its predecessors left, and the verdict
  it reports is otherwise the committed one.
\<close>

theorem bundle_refusals_and_effects:
  "(fst (bundle_members bundle w) = rows \<longrightarrow> decidable_members c w p approve rows = Inr [] \<longrightarrow>
         run_tx (decide_bundle_in_tx s tick c p bundle approve reason) w = (Inl (App ErrNotFound), w))
     \<and> (fst (bundle_members bundle w) = rows \<longrightarrow> decidable_members c w p approve rows = Inr (a # as) \<longrightarrow>
         (bundle_decision_cap < length (filter (\<lambda>a. ap_bundle_id a = Some bundle) (w_approvals w))) \<longrightarrow>
         run_tx (decide_bundle_in_tx s tick c p bundle approve reason) w = (Inl (BundleTooLarge bundle_decision_cap), w))
     \<and> (map bm_approval (fst (release_decided_members s c ms w)) = map bm_approval ms)
     \<and> (release_decided_members s c (xs @ ys) w =
     (case release_decided_members s c xs w of (xs', w1) \<Rightarrow>
        case release_decided_members s c ys w1 of (ys', w2) \<Rightarrow> (xs' @ ys', w2)))
     \<and> (release_decided_members s c [m] w = ([m'], w') \<longrightarrow> bm_outcome m = BundleDecided \<longrightarrow>
         (bm_outcome m' = (case run_decision_effect s c (ap_id (bm_approval m)) (bm_approval m) True w of
        (Inl _, _) \<Rightarrow> BundleEffectFailed | (Inr _, _) \<Rightarrow> BundleDecided)))"
  by (assumption | rule bundle_refusals_and_effects_facts conjI impI)+

theorem bundle_refusals_and_effects_witness:
  "run_tx (decide_bundle_in_tx (sample_service 10) (\<lambda>_. 10) rep_decides (rep RowScopeOwn) 6 True None) bundle_world
   = (Inl (App ErrNotFound), bundle_world)"
proof -
  have "fst (bundle_members 6 bundle_world) = []" by code_simp
  then show ?thesis by (rule bundle_refusals_and_effects [THEN conjunct1, THEN mp, THEN mp]) simp
qed

end
