(* ===== verification/Approval_Sweep.thy ===== *)
theory Approval_Sweep
  imports Approval_Decide
begin

text \<open>
  Expiry, written down: the sweep of
  \<^verbatim>\<open>backend/internal/modules/approvals/expiresweep.go\<close>, which records the
  outcome of every staging whose window closed, under a system actor.
\<close>

section \<open>The sweep\<close>

definition expiry_sweep_batch :: nat where "expiry_sweep_batch = 200"

definition expiry_actor :: string where "expiry_actor = ''system:approval-expiry''"

definition only_the_expiry_sweep :: "ctx \<Rightarrow> unit result" where
  "only_the_expiry_sweep c =
     (case ctx_actor c of
        None \<Rightarrow> Inl ErrPermissionDenied
      | Some p \<Rightarrow> if p_type p \<noteq> PrincipalSystem \<or> p_id p \<noteq> expiry_actor then Inl ErrPermissionDenied else Inr ())"

text \<open>
  The candidates, oldest window first. Two rows with one expiry come in the order of the table, an
  order PostgreSQL leaves open.
\<close>

definition due_for_expiry :: "'q service \<Rightarrow> 'q world \<Rightarrow> (uuid \<times> string) list" where
  "due_for_expiry s w =
     map (\<lambda>a. (ap_id a, ap_kind a))
       (filter (\<lambda>a. \<not> expires_never (ap_kind a))
         (take expiry_sweep_batch
           (sort_key ap_expires_at
             (filter (\<lambda>a. ap_status a = Pending \<and> ap_expires_at a \<le> svc_now s \<and> \<not> expires_never (ap_kind a))
               (w_approvals w)))))"

text \<open>The principal the audit row and the event name: the clock, not the caller's own.\<close>

definition expiry_principal :: principal where
  "expiry_principal = \<lparr>p_type = PrincipalSystem, p_id = expiry_actor, p_user_id = nil_uuid, p_team_ids = [],
     p_passport_id = nil_uuid, p_on_behalf_of = nil_uuid, p_scopes = {}, p_seat_type = SeatOther [],
     p_permissions = \<lparr>pm_role_keys = [], pm_objects = (\<lambda>_. None), pm_row_scope = RowScopeOther [],
       pm_field_masks = []\<rparr>\<rparr>"

definition expire_row :: "time \<Rightarrow> approval \<Rightarrow> approval" where
  "expire_row now a = a\<lparr>ap_status := Expired, ap_decided_at := Some now,
     ap_decision_reason := Some ''the approval window closed with nobody deciding''\<rparr>"

definition run_expiry :: "'q service \<Rightarrow> uuid \<Rightarrow> approval \<Rightarrow> 'q world \<Rightarrow> appr_error + 'q world" where
  "run_expiry s i a w =
     (case svc_expiries s (ap_kind a) of
        None \<Rightarrow> Inr w
      | Some effect \<Rightarrow> lift_app (effect i (ap_proposed_change a) w))"

definition expire_one :: "'q service \<Rightarrow> ctx \<Rightarrow> uuid \<Rightarrow> ('q, bool) tx" where
  "expire_one s c i w =
     (case get_row i w of
        Inl _ \<Rightarrow> Inr (False, w)
      | Inr a \<Rightarrow>
          if ap_status a \<noteq> Pending \<or> expires_never (ap_kind a) \<or> \<not> ap_expires_at a < svc_now s
          then Inr (False, w)
          else
            let w1 = update_rows (\<lambda>r. ap_id r = i) (expire_row (w_now w)) w;
                (aud, w2) = audit expiry_principal ''expire'' i
                  [(''kind'', JStr (ap_kind a)), (''verdict'', JStr (status_string Expired)),
                   (''reason'', JStr ''unactioned: the approval window closed'')] w1
            in bindR (emit s c expiry_principal aud i (ApprovalDecided (ap_kind a) Expired None None) w2) (\<lambda>w3.
               bindR (run_expiry s i a w3) (\<lambda>w4. Inr (True, w4))))"

text \<open>
  One pass: a transaction per candidate, failures collected and the pass going on. The process clock
  moves during a pass; \<open>tick\<close> is its reading at one candidate.
\<close>

fun expire_candidates ::
  "'q service \<Rightarrow> (uuid \<Rightarrow> time) \<Rightarrow> ctx \<Rightarrow> (uuid \<times> string) list \<Rightarrow> 'q world
     \<Rightarrow> ((uuid \<times> string) list \<times> (uuid \<times> appr_error) list) \<times> 'q world" where
  "expire_candidates s tick c [] w = (([], []), w)"
| "expire_candidates s tick c ((i, k) # cs) w =
     (case run_tx (expire_one (s\<lparr>svc_now := tick i\<rparr>) c i) w of
        (r, w1) \<Rightarrow>
          (case expire_candidates s tick c cs w1 of
             ((expired, failures), w2) \<Rightarrow>
               ((case r of
                   Inl e \<Rightarrow> (expired, (i, e) # failures)
                 | Inr swept \<Rightarrow> (if swept then (i, k) # expired else expired, failures)), w2)))"

definition expire_due ::
  "'q service \<Rightarrow> (uuid \<Rightarrow> time) \<Rightarrow> ctx \<Rightarrow> 'q world
     \<Rightarrow> (app_error + (uuid \<times> string) list \<times> (uuid \<times> appr_error) list) \<times> 'q world" where
  "expire_due s tick c w =
     (case only_the_expiry_sweep c of
        Inl e \<Rightarrow> (Inl e, w)
      | Inr _ \<Rightarrow> (case expire_candidates s tick c (due_for_expiry s w) w of (r, w') \<Rightarrow> (Inr r, w')))"

section \<open>Lemmas\<close>

lemma expire_row_simps [simp]:
  "ap_id (expire_row now a) = ap_id a" "ap_status (expire_row now a) = Expired"
  "ap_kind (expire_row now a) = ap_kind a" "ap_decided_by (expire_row now a) = ap_decided_by a"
  "ap_decided_at (expire_row now a) = Some now" "ap_consumed_at (expire_row now a) = ap_consumed_at a"
  "ap_passport_id (expire_row now a) = ap_passport_id a" "ap_expires_at (expire_row now a) = ap_expires_at a"
  "ap_created_at (expire_row now a) = ap_created_at a" "ap_on_behalf_of (expire_row now a) = ap_on_behalf_of a"
  "ap_proposed_change (expire_row now a) = ap_proposed_change a" "ap_diff_hash (expire_row now a) = ap_diff_hash a"
  by (simp_all add: expire_row_def)

text \<open>What one expiry wrote before the kind's own effect ran.\<close>

definition expiry_written :: "ctx \<Rightarrow> uuid \<Rightarrow> approval \<Rightarrow> 'q world \<Rightarrow> 'q world \<Rightarrow> bool" where
  "expiry_written c i a w w1 \<longleftrightarrow>
     w_approvals w1 = update_where (\<lambda>r. ap_id r = i) (expire_row (w_now w)) (w_approvals w)
     \<and> get_row i w1 = Inr (expire_row (w_now w) a)
     \<and> (\<exists>aud. w_audit w1 = w_audit w @ [aud] \<and> au_actor_type aud = PrincipalSystem
          \<and> au_actor_id aud = expiry_actor \<and> au_action aud = ''expire'' \<and> au_entity_id aud = i)
     \<and> (\<exists>ob. w_outbox w1 = w_outbox w @ [ob] \<and> ob_audit ob = length (w_audit w) \<and> ob_entity_id ob = i
          \<and> ob_payload ob = ApprovalDecided (ap_kind a) Expired None None \<and> deliverable ob)
     \<and> same_env w w1"

lemma expire_one_True:
  assumes "expire_one s c i w = Inr (True, w')"
  obtains a w1 where "get_row i w = Inr a" "ap_status a = Pending" "effective_status a (svc_now s) = Expired"
    "expiry_written c i a w w1" "run_expiry s i a w1 = Inr w'"
proof -
  obtain a where a: "get_row i w = Inr a" "ap_status a = Pending" "\<not> expires_never (ap_kind a)"
    "ap_expires_at a < svc_now s"
    using assms by (auto simp: expire_one_def split: sum.splits if_splits)
  define w2 where "w2 = snd (audit expiry_principal ''expire'' i
      [(''kind'', JStr (ap_kind a)), (''verdict'', JStr (status_string Expired)),
       (''reason'', JStr ''unactioned: the approval window closed'')]
      (update_rows (\<lambda>r. ap_id r = i) (expire_row (w_now w)) w))"
  obtain w3 where w3: "emit s c expiry_principal (length (w_audit w)) i (ApprovalDecided (ap_kind a) Expired None None) w2
      = Inr w3" and run: "run_expiry s i a w3 = Inr w'"
    using assms by (auto simp: expire_one_def a audit_def w2_def Let_def)
  note e = emit_frame [OF w3]
  have "get_row i w3 = get_row i (update_rows (\<lambda>r. ap_id r = i) (expire_row (w_now w)) w)"
    by (rule get_row_cong) (simp add: e(1) w2_def)
  also have "\<dots> = Inr (expire_row (w_now w) a)" using a(1) get_row_Inr [OF a(1)] by (simp add: get_row_update)
  finally have row: "get_row i w3 = Inr (expire_row (w_now w) a)" .
  have env: "same_env w w3" using e(3) by (simp add: w2_def same_env_trans [rotated])
  have aud: "\<exists>aud. w_audit w3 = w_audit w @ [aud] \<and> au_actor_type aud = PrincipalSystem
          \<and> au_actor_id aud = expiry_actor \<and> au_action aud = ''expire'' \<and> au_entity_id aud = i"
    unfolding e(2) w2_def by (simp add: audit_def expiry_principal_def)
  have ob: "\<exists>ob. w_outbox w3 = w_outbox w @ [ob] \<and> ob_audit ob = length (w_audit w) \<and> ob_entity_id ob = i
          \<and> ob_payload ob = ApprovalDecided (ap_kind a) Expired None None \<and> deliverable ob"
    using e(4) by (simp add: w2_def)
  have "expiry_written c i a w w3"
    unfolding expiry_written_def using row env aud ob e(1) by (simp add: w2_def)
  then show thesis using that [of a w3] a run by (simp add: effective_status_def)
qed

lemma expire_one_False:
  "expire_one s c i w = Inr (False, w') \<Longrightarrow> w' = w
     \<and> (\<forall>a. get_row i w = Inr a \<longrightarrow> \<not> (ap_status a = Pending \<and> effective_status a (svc_now s) = Expired))"
  by (auto simp: expire_one_def effective_status_def Let_def split: sum.splits if_splits prod.splits)

lemma expire_one_commits:
  assumes "get_row i w = Inr a" "ap_status a = Pending" "effective_status a (svc_now s) = Expired"
    "svc_expiries s (ap_kind a) = None" "can_emit s c expiry_principal i"
  shows "\<exists>w'. expire_one s c i w = Inr (True, w')"
proof -
  have due: "\<not> expires_never (ap_kind a)" "ap_expires_at a < svc_now s"
    using assms(2,3) by (auto simp: effective_status_def split: if_splits)
  have emits: "\<exists>w'. emit s c expiry_principal aud i (ApprovalDecided k st u ed) w0 = Inr w'" for aud k st u ed w0
    by (rule emit_ok [OF assms(5)]) (simp add: own_events_routed)
  define w2 where "w2 = snd (audit expiry_principal ''expire'' i
      [(''kind'', JStr (ap_kind a)), (''verdict'', JStr (status_string Expired)),
       (''reason'', JStr ''unactioned: the approval window closed'')]
      (update_rows (\<lambda>r. ap_id r = i) (expire_row (w_now w)) w))"
  obtain w3 where "emit s c expiry_principal (length (w_audit w)) i (ApprovalDecided (ap_kind a) Expired None None) w2
      = Inr w3" using emits by blast
  then show ?thesis using assms due by (simp add: expire_one_def audit_def w2_def run_expiry_def)
qed

text \<open>An expiry effect that leaves the approvals table to the sweep, as the registered ones do.\<close>

definition expiries_keep_rows :: "'q service \<Rightarrow> bool" where
  "expiries_keep_rows s \<longleftrightarrow>
     (\<forall>k f i x w w'. svc_expiries s k = Some f \<longrightarrow> f i x w = Inr w' \<longrightarrow> w_approvals w' = w_approvals w)"

lemma run_expiry_keeps:
  "expiries_keep_rows s \<Longrightarrow> run_expiry s i a w = Inr w' \<Longrightarrow> w_approvals w' = w_approvals w"
  by (auto simp: run_expiry_def expiries_keep_rows_def split: option.splits)

lemma expire_one_rows:
  assumes "expire_one s c i w = Inr (True, w')" "expiries_keep_rows s"
  shows "\<exists>b. get_row i w' = Inr b \<and> ap_status b = Expired" "j \<noteq> i \<Longrightarrow> get_row j w' = get_row j w"
proof -
  from assms(1) obtain a w1 where e: "get_row i w = Inr a" "expiry_written c i a w w1" "run_expiry s i a w1 = Inr w'"
    by (rule expire_one_True)
  have rows: "w_approvals w' = w_approvals w1" by (rule run_expiry_keeps [OF assms(2) e(3)])
  show "\<exists>b. get_row i w' = Inr b \<and> ap_status b = Expired"
    using e(2) get_row_cong [OF rows] by (auto simp: expiry_written_def)
  have "w_approvals w' = update_where (\<lambda>r. ap_id r = i) (expire_row (w_now w)) (w_approvals w)"
    using e(2) rows by (simp add: expiry_written_def)
  then show "j \<noteq> i \<Longrightarrow> get_row j w' = get_row j w" by (rule get_row_other) simp_all
qed

text \<open>What one pass did to one candidate.\<close>

definition swept_as ::
  "'q service \<Rightarrow> (uuid \<Rightarrow> time) \<Rightarrow> 'q world \<Rightarrow> 'q world \<Rightarrow> uuid list \<Rightarrow> uuid list \<Rightarrow> uuid \<Rightarrow> bool" where
  "swept_as s tick w w' expired failed i \<longleftrightarrow>
     (if i \<in> set expired then i \<notin> set failed \<and> (\<exists>b. get_row i w' = Inr b \<and> ap_status b = Expired)
      else get_row i w' = get_row i w
        \<and> (i \<in> set failed \<or> (\<forall>a. get_row i w = Inr a \<longrightarrow>
              \<not> (ap_status a = Pending \<and> effective_status a (tick i) = Expired))))"

lemma expire_candidates_frame:
  assumes "expire_candidates s tick c cs w = ((expired, failures), w')" "distinct (map fst cs)" "expiries_keep_rows s"
  shows "set (map fst expired) \<subseteq> set (map fst cs) \<and> set (map fst failures) \<subseteq> set (map fst cs)
    \<and> set expired \<subseteq> set cs
    \<and> (\<forall>j. j \<notin> set (map fst cs) \<longrightarrow> get_row j w' = get_row j w)
    \<and> (\<forall>i \<in> set (map fst cs). swept_as s tick w w' (map fst expired) (map fst failures) i)
    \<and> (\<forall>i \<in> set (map fst failures). can_emit s c expiry_principal i \<longrightarrow>
         (\<exists>a. get_row i w = Inr a \<and> svc_expiries s (ap_kind a) \<noteq> None))"
  using assms
proof (induction cs arbitrary: w expired failures)
  case (Cons ik cs)
  obtain i k where ik: "ik = (i, k)" by force
  let ?s = "s\<lparr>svc_now := tick i\<rparr>"
  have keep: "expiries_keep_rows ?s" using Cons.prems(3) by (simp add: expiries_keep_rows_def)
  have fresh: "i \<notin> set (map fst cs)" and d: "distinct (map fst cs)" using Cons.prems(2) ik by auto
  obtain r w1 ex fl where step: "run_tx (expire_one ?s c i) w = (r, w1)"
    and rest: "expire_candidates s tick c cs w1 = ((ex, fl), w')"
    and res: "expired = (case r of Inl e \<Rightarrow> ex | Inr swept \<Rightarrow> if swept then (i, k) # ex else ex)"
      "failures = (case r of Inl e \<Rightarrow> (i, e) # fl | Inr _ \<Rightarrow> fl)"
    using Cons.prems(1) by (auto simp: ik split: prod.splits sum.splits)
  note ih = Cons.IH [OF rest d Cons.prems(3)]
  have self: "get_row i w' = get_row i w1" using ih fresh by blast
  have other: "get_row j w1 = get_row j w" if "j \<noteq> i" for j
    using step
  proof (cases rule: run_tx_cases)
    case (commit swept)
    show ?thesis
    proof (cases swept)
      case True
      then show ?thesis using commit expire_one_rows(2) [OF _ keep, of c i w w1 j] that by simp
    next
      case False
      then show ?thesis using commit expire_one_False [of ?s c i w w1] by simp
    qed
  qed simp
  have sub: "i \<notin> set (map fst ex)" "i \<notin> set (map fst fl)" using ih fresh by blast+
  have head: "swept_as s tick w w' (map fst expired) (map fst failures) i"
    using step
  proof (cases rule: run_tx_cases)
    case (rollback e)
    then show ?thesis using sub self by (simp add: swept_as_def res)
  next
    case (commit swept)
    show ?thesis
    proof (cases swept)
      case True
      then show ?thesis
        using commit sub self expire_one_rows(1) [OF _ keep, of c i w w1] by (simp add: swept_as_def res)
    next
      case False
      then show ?thesis
        using commit sub self expire_one_False [of ?s c i w w1] by (simp add: swept_as_def res)
    qed
  qed
  have tail: "swept_as s tick w w' (map fst expired) (map fst failures) j" if "j \<in> set (map fst cs)" for j
  proof -
    have ne: "j \<noteq> i" using that fresh by blast
    have "j \<in> set (map fst expired) \<longleftrightarrow> j \<in> set (map fst ex)" "j \<in> set (map fst failures) \<longleftrightarrow> j \<in> set (map fst fl)"
      using ne by (auto simp: res split: sum.splits)
    moreover have "swept_as s tick w1 w' (map fst ex) (map fst fl) j" using ih that by blast
    ultimately show ?thesis unfolding swept_as_def other [OF ne] by (simp split: if_splits)
  qed
  have blame: "\<exists>a. get_row j w = Inr a \<and> svc_expiries s (ap_kind a) \<noteq> None"
    if corr: "can_emit s c expiry_principal j" and failed: "j \<in> set (map fst failures)" for j
  proof (cases "j \<in> set (map fst fl)")
    case True
    then have "\<exists>a. get_row j w1 = Inr a \<and> svc_expiries s (ap_kind a) \<noteq> None" using ih corr by blast
    moreover have "j \<noteq> i" using True sub by blast
    ultimately show ?thesis using other by simp
  next
    case False
    then obtain e where j: "j = i" "r = Inl e" using failed by (auto simp: res split: sum.splits)
    then have err: "expire_one ?s c i w = Inl e" using run_tx_InlD [of "expire_one ?s c i" w e w1] step by blast
    then obtain a where a: "get_row i w = Inr a" "ap_status a = Pending" "effective_status a (tick i) = Expired"
      by (auto simp: expire_one_def effective_status_def split: sum.splits if_splits)
    then show ?thesis
      using expire_one_commits [of i w a ?s c] err corr j(1) by auto
  qed
  have "set (map fst expired) \<subseteq> set (map fst (ik # cs))" "set (map fst failures) \<subseteq> set (map fst (ik # cs))"
    "set expired \<subseteq> set (ik # cs)"
    using ih by (auto simp: res ik split: sum.splits)
  moreover have "get_row j w' = get_row j w" if "j \<notin> set (map fst (ik # cs))" for j
    using that ih other by (simp add: ik)
  ultimately show ?case using head tail blame by (simp add: ik)
qed simp

lemma due_for_expiry_distinct:
  "distinct (map ap_id (w_approvals w)) \<Longrightarrow> distinct (map fst (due_for_expiry s w))"
proof -
  assume d: "distinct (map ap_id (w_approvals w))"
  let ?xs = "filter (\<lambda>a. ap_status a = Pending \<and> ap_expires_at a \<le> svc_now s \<and> \<not> expires_never (ap_kind a))
    (w_approvals w)"
  have "mset (map ap_id (sort_key ap_expires_at ?xs)) = mset (map ap_id ?xs)" by simp
  then have "distinct (map ap_id (sort_key ap_expires_at ?xs))"
    using distinct_map_filter [OF d] mset_eq_imp_distinct_iff by blast
  then have "distinct (map ap_id (take expiry_sweep_batch (sort_key ap_expires_at ?xs)))"
    by (simp add: take_map [symmetric])
  then show ?thesis unfolding due_for_expiry_def by (simp add: comp_def distinct_map_filter)
qed

section \<open>Properties\<close>

definition sweep_ctx :: ctx where
  "sweep_ctx = background\<lparr>ctx_workspace := Some 1, ctx_actor := Some expiry_principal, ctx_correlation := Some 9\<rparr>"

lemma expiry_is_the_reading_written_down_facts:
  "get_row i w = Inr a \<Longrightarrow> svc_expiries s (ap_kind a) = None \<Longrightarrow> can_emit s c expiry_principal i \<Longrightarrow>
     (\<exists>w'. expire_one s c i w = Inr (True, w'))
       \<longleftrightarrow> ap_status a = Pending \<and> effective_status a (svc_now s) = Expired"
  "expire_one s c i w = Inr (True, w') \<Longrightarrow>
     \<exists>a w1. get_row i w = Inr a \<and> expiry_written c i a w w1 \<and> run_expiry s i a w1 = Inr w'"
  "expire_one s c i w = Inr (True, w') \<Longrightarrow> expiries_keep_rows s \<Longrightarrow>
     (\<exists>b. get_row i w' = Inr b \<and> effective_status b later = Expired)
     \<and> (\<nexists>r. decide_in_tx s2 c2 p2 i approve reason edited w' = Inr r)"
  "decide_in_tx s2 c2 p2 i approve reason edited w = Inr (b, w') \<Longrightarrow> expire_one s c i w' = Inr (False, w')"
proof -
  show "get_row i w = Inr a \<Longrightarrow> svc_expiries s (ap_kind a) = None \<Longrightarrow> can_emit s c expiry_principal i \<Longrightarrow>
     (\<exists>w'. expire_one s c i w = Inr (True, w'))
       \<longleftrightarrow> ap_status a = Pending \<and> effective_status a (svc_now s) = Expired"
    using expire_one_commits [of i w a s c] by (auto elim!: expire_one_True)
  show "expire_one s c i w = Inr (True, w') \<Longrightarrow>
     \<exists>a w1. get_row i w = Inr a \<and> expiry_written c i a w w1 \<and> run_expiry s i a w1 = Inr w'"
    by (erule expire_one_True) blast
  assume "expire_one s c i w = Inr (True, w')" "expiries_keep_rows s"
  then obtain b where b: "get_row i w' = Inr b" "ap_status b = Expired" using expire_one_rows(1) by blast
  then have read: "effective_status b t = Expired" for t by (simp add: effective_status_def)
  have "\<nexists>r. decide_in_tx s2 c2 p2 i approve reason edited w' = Inr r"
    using b(1) read by (auto simp: decide_in_tx_def get_decidable_iff)
  then show "(\<exists>b. get_row i w' = Inr b \<and> effective_status b later = Expired)
     \<and> (\<nexists>r. decide_in_tx s2 c2 p2 i approve reason edited w' = Inr r)"
    using b(1) read by blast
next
  assume "decide_in_tx s2 c2 p2 i approve reason edited w = Inr (b, w')"
  note r = decide_result_row [OF this]
  show "expire_one s c i w' = Inr (False, w')" using r(1,3) by (simp add: expire_one_def)
qed

text \<open>
  The sweep writes down exactly what the reading already says. It expires a row exactly when the row
  is stored pending and reads expired, and then changes its status, the decision time and the reason,
  no decider's name, with one audit row under the clock's own actor and one decided event that names
  nobody; an expired row is then beyond any decision, and a row a human decided first is left as it is.
\<close>

theorem expiry_is_the_reading_written_down:
  "(get_row i w = Inr a \<longrightarrow> svc_expiries s (ap_kind a) = None \<longrightarrow> can_emit s c expiry_principal i \<longrightarrow>
         ((\<exists>w'. expire_one s c i w = Inr (True, w'))
       \<longleftrightarrow> ap_status a = Pending \<and> effective_status a (svc_now s) = Expired))
     \<and> (expire_one s c i w = Inr (True, w') \<longrightarrow>
         (\<exists>a w1. get_row i w = Inr a \<and> expiry_written c i a w w1 \<and> run_expiry s i a w1 = Inr w'))
     \<and> (expire_one s c i w = Inr (True, w') \<longrightarrow> expiries_keep_rows s \<longrightarrow>
         ((\<exists>b. get_row i w' = Inr b \<and> effective_status b later = Expired)
     \<and> (\<nexists>r. decide_in_tx s2 c2 p2 i approve reason edited w' = Inr r)))
     \<and> (decide_in_tx s2 c2 p2 i approve reason edited w = Inr (b, w') \<longrightarrow>
         expire_one s c i w' = Inr (False, w'))"
  by (assumption | rule expiry_is_the_reading_written_down_facts conjI impI)+

lemma sweep_can_emit: "ids_minted s \<Longrightarrow> can_emit s sweep_ctx expiry_principal 1"
  by (simp add: can_emit_def sweep_ctx_def expiry_principal_def expiry_actor_def is_zero_def nil_uuid_def actor_types_def)

lemma sample_expiry: "\<exists>w'. expire_one (sample_service 60) sweep_ctx 1 pending_world = Inr (True, w')"
proof -
  have "get_row 1 pending_world = Inr pending_move" "effective_status pending_move 60 = Expired"
    by code_simp+
  then show ?thesis
    using expire_one_commits [of 1 pending_world pending_move "sample_service 60" sweep_ctx]
      sweep_can_emit [OF sample_service_minted]
    by (simp add: sample_service_def pending_move_def)
qed

lemma sample_service_expiries [simp]: "expiries_keep_rows (sample_service now)"
  by (simp add: expiries_keep_rows_def sample_service_def)

theorem expiry_is_the_reading_written_down_witness:
  "\<exists>w'. expire_one (sample_service 60) sweep_ctx 1 pending_world = Inr (True, w')
     \<and> (\<nexists>r. decide_in_tx (sample_service 10) rep_decides (rep RowScopeOwn) 1 True None None w' = Inr r)"
proof -
  obtain w' where e: "expire_one (sample_service 60) sweep_ctx 1 pending_world = Inr (True, w')"
    using sample_expiry by blast
  show ?thesis using e expiry_is_the_reading_written_down [THEN conjunct2, THEN conjunct2, THEN conjunct1, THEN mp, THEN mp, OF e] by simp
qed

lemma sweep_isolates_failures_facts:
  "(\<nexists>p. ctx_actor c = Some p \<and> p_type p = PrincipalSystem \<and> p_id p = expiry_actor) \<Longrightarrow>
     expire_due s tick c w = (Inl ErrPermissionDenied, w)"
  "expire_due s tick c w = (Inr (expired, failures), w') \<Longrightarrow> distinct (map ap_id (w_approvals w)) \<Longrightarrow>
     expiries_keep_rows s \<Longrightarrow>
     set expired \<subseteq> set (due_for_expiry s w)
     \<and> (\<forall>j. j \<notin> set (map fst (due_for_expiry s w)) \<longrightarrow> get_row j w' = get_row j w)
     \<and> (\<forall>i \<in> set (map fst (due_for_expiry s w)). swept_as s tick w w' (map fst expired) (map fst failures) i)"
  "expire_due s tick c w = (Inr (expired, failures), w') \<Longrightarrow> distinct (map ap_id (w_approvals w)) \<Longrightarrow>
     expiries_keep_rows s \<Longrightarrow> can_emit s c expiry_principal i \<Longrightarrow> (i, k) \<in> set (due_for_expiry s w) \<Longrightarrow>
     get_row i w = Inr a \<Longrightarrow> svc_expiries s (ap_kind a) = None \<Longrightarrow> ap_status a = Pending \<Longrightarrow>
     effective_status a (tick i) = Expired \<Longrightarrow>
     i \<in> set (map fst expired) \<and> (\<exists>b. get_row i w' = Inr b \<and> ap_status b = Expired)"
proof -
  show "(\<nexists>p. ctx_actor c = Some p \<and> p_type p = PrincipalSystem \<and> p_id p = expiry_actor) \<Longrightarrow>
     expire_due s tick c w = (Inl ErrPermissionDenied, w)"
    by (auto simp: expire_due_def only_the_expiry_sweep_def split: option.splits)
  have frame: "expire_candidates s tick c (due_for_expiry s w) w = ((expired, failures), w')"
    if "expire_due s tick c w = (Inr (expired, failures), w')"
    using that by (auto simp: expire_due_def split: sum.splits prod.splits)
  show "set expired \<subseteq> set (due_for_expiry s w)
     \<and> (\<forall>j. j \<notin> set (map fst (due_for_expiry s w)) \<longrightarrow> get_row j w' = get_row j w)
     \<and> (\<forall>i \<in> set (map fst (due_for_expiry s w)). swept_as s tick w w' (map fst expired) (map fst failures) i)"
    if "expire_due s tick c w = (Inr (expired, failures), w')" "distinct (map ap_id (w_approvals w))" "expiries_keep_rows s"
    using expire_candidates_frame [OF frame [OF that(1)] due_for_expiry_distinct [OF that(2)] that(3)] by blast
  assume run: "expire_due s tick c w = (Inr (expired, failures), w')" "distinct (map ap_id (w_approvals w))"
    "expiries_keep_rows s" "can_emit s c expiry_principal i" "(i, k) \<in> set (due_for_expiry s w)"
    and row: "get_row i w = Inr a" "svc_expiries s (ap_kind a) = None" "ap_status a = Pending"
    "effective_status a (tick i) = Expired"
  note f = expire_candidates_frame [OF frame [OF run(1)] due_for_expiry_distinct [OF run(2)] run(3)]
  have "i \<in> set (map fst (due_for_expiry s w))" using run(5) by force
  then have sw: "swept_as s tick w w' (map fst expired) (map fst failures) i" using f by blast
  have "i \<notin> set (map fst failures)" using f run(4) row(1,2) by fastforce
  then have "i \<in> set (map fst expired)" using sw row unfolding swept_as_def by (simp split: if_splits)
  then show "i \<in> set (map fst expired) \<and> (\<exists>b. get_row i w' = Inr b \<and> ap_status b = Expired)"
    using sw unfolding swept_as_def by simp
qed

text \<open>
  Only the clock runs the sweep, and one bad row does not starve the rest. Any other caller is
  refused with nothing written. A pass leaves every row it did not read alone; every candidate ends
  either reported and expired, or as it stood, and as it stood only because its own write failed or
  because it was not due after all when its turn came; and no candidate fails that has no effect of
  its own to fail in, whatever happened to the candidates before it.
\<close>

theorem sweep_isolates_failures:
  "(((\<nexists>p. ctx_actor c = Some p \<and> p_type p = PrincipalSystem \<and> p_id p = expiry_actor)) \<longrightarrow>
         expire_due s tick c w = (Inl ErrPermissionDenied, w))
     \<and> (expire_due s tick c w = (Inr (expired, failures), w') \<longrightarrow>
         distinct (map ap_id (w_approvals w)) \<longrightarrow> expiries_keep_rows s \<longrightarrow>
         (set expired \<subseteq> set (due_for_expiry s w)
     \<and> (\<forall>j. j \<notin> set (map fst (due_for_expiry s w)) \<longrightarrow> get_row j w' = get_row j w)
     \<and> (\<forall>i \<in> set (map fst (due_for_expiry s w)). swept_as s tick w w' (map fst expired) (map fst failures) i)))
     \<and> (expire_due s tick c w = (Inr (expired, failures), w') \<longrightarrow>
         distinct (map ap_id (w_approvals w)) \<longrightarrow> expiries_keep_rows s \<longrightarrow>
         can_emit s c expiry_principal i \<longrightarrow> (i, k) \<in> set (due_for_expiry s w) \<longrightarrow>
         get_row i w = Inr a \<longrightarrow> svc_expiries s (ap_kind a) = None \<longrightarrow> ap_status a = Pending \<longrightarrow>
         effective_status a (tick i) = Expired \<longrightarrow>
         (i \<in> set (map fst expired) \<and> (\<exists>b. get_row i w' = Inr b \<and> ap_status b = Expired)))"
  by (assumption | rule sweep_isolates_failures_facts conjI impI)+

text \<open>Two lapsed rows; the first is of a kind whose expiry effect always fails.\<close>

definition lapsed_world :: "unit world" where
  "lapsed_world = sample_world\<lparr>w_approvals :=
     [pending_move\<lparr>ap_id := 2, ap_kind := ''held_message''\<rparr>, pending_move]\<rparr>"

definition failing_expiry :: "unit service" where
  "failing_expiry = (sample_service 60)\<lparr>svc_expiries := [''held_message'' \<mapsto> (\<lambda>_ _ _. Inl ErrConflict)]\<rparr>"

theorem sweep_isolates_failures_witness:
  "\<exists>b. get_row 1 (snd (expire_due failing_expiry (\<lambda>_. 60) sweep_ctx lapsed_world)) = Inr b \<and> ap_status b = Expired"
proof -
  let ?r = "expire_due failing_expiry (\<lambda>_. 60) sweep_ctx lapsed_world"
  have "case fst ?r of Inl e \<Rightarrow> False | Inr (ex, fl) \<Rightarrow> map fst ex = [1] \<and> map fst fl = [2]" by code_simp
  then obtain ex fl w' where r: "?r = (Inr (ex, fl), w')" by (cases ?r) (auto split: sum.splits)
  have "distinct (map ap_id (w_approvals lapsed_world))"
    by (simp add: lapsed_world_def pending_move_def sample_approval_def)
  moreover have "expiries_keep_rows failing_expiry"
    by (simp add: expiries_keep_rows_def failing_expiry_def sample_service_def)
  moreover have "can_emit failing_expiry sweep_ctx expiry_principal 1" "svc_expiries failing_expiry (ap_kind pending_move) = None"
    "ap_status pending_move = Pending"
    by (simp_all add: sweep_can_emit failing_expiry_def pending_move_def sample_approval_def ids_minted_def
        is_zero_def nil_uuid_def sample_service_def)
  moreover have "(1, ''advance_deal'') \<in> set (due_for_expiry failing_expiry lapsed_world)"
    "get_row 1 lapsed_world = Inr pending_move" "effective_status pending_move 60 = Expired"
    by code_simp+
  ultimately show ?thesis
    using sweep_isolates_failures [THEN conjunct2, THEN conjunct2, THEN mp, THEN mp, THEN mp, THEN mp, THEN mp, THEN mp, THEN mp, THEN mp, THEN mp, OF r, of 1 "''advance_deal''" pending_move] r by simp
qed

end
