(* ===== verification/Paging.thy ===== *)
theory Paging
  imports Prelude
begin

text \<open>
  The interface of a paged read. The approval inbox and the queue of data-subject requests are read this way.
\<close>

section \<open>Paging through a keyset\<close>

text \<open>A client that follows the cursors for at most \<open>n\<close> pages.\<close>

fun walk :: "nat \<Rightarrow> ('s \<Rightarrow> 'a list \<times> 's option) \<Rightarrow> 's \<Rightarrow> 'a list" where
  "walk 0 page s = []"
| "walk (Suc n) page s = (case page s of (xs, None) \<Rightarrow> xs | (xs, Some c) \<Rightarrow> xs @ walk n page c)"

text \<open>
  What a paged read promises its client: \<open>rest s\<close> is what is left to read at the cursor \<open>s\<close>; a page is
  a first part of it and its cursor stands for exactly the remainder, which is smaller.
\<close>

locale keyset_pages =
  fixes page :: "'s \<Rightarrow> 'a list \<times> 's option"
    and rest :: "'s \<Rightarrow> 'a list"
    and left :: "'s \<Rightarrow> nat"
    and ok :: "'s \<Rightarrow> bool"
  assumes last_page: "ok s \<Longrightarrow> page s = (xs, None) \<Longrightarrow> rest s = xs"
    and next_page: "ok s \<Longrightarrow> page s = (xs, Some c) \<Longrightarrow> rest s = xs @ rest c"
    and progress: "ok s \<Longrightarrow> page s = (xs, Some c) \<Longrightarrow> left c < left s"
    and cursor_ok: "ok s \<Longrightarrow> page s = (xs, Some c) \<Longrightarrow> ok c"
begin

lemma walk_reads_all: "ok s \<Longrightarrow> left s < n \<Longrightarrow> walk n page s = rest s"
proof (induction n arbitrary: s)
  case (Suc n)
  obtain xs c where page: "page s = (xs, c)" by force
  show ?case
  proof (cases c)
    case None
    then show ?thesis using last_page Suc.prems(1) page by simp
  next
    case (Some d)
    then have "left d < n" using progress [of s xs d] Suc.prems page by simp
    then show ?thesis using Suc.IH cursor_ok next_page [of s xs d] Suc.prems(1) page Some by simp
  qed
qed simp

lemma walk_stable: "ok s \<Longrightarrow> left s < n \<Longrightarrow> left s < m \<Longrightarrow> walk n page s = walk m page s"
  by (simp add: walk_reads_all)

end

end
