(* ===== verification/Approval_Inbox.thy ===== *)
theory Approval_Inbox
  imports Approval_Decide Paging
begin

text \<open>
  The inbox: \<^verbatim>\<open>inbox.go\<close> and \<^verbatim>\<open>inboxpaging.go\<close> of
  \<^verbatim>\<open>backend/internal/modules/approvals\<close>. A read is a newest-first keyset scan in
  windows of 200 rows, filtered row by row. The interface a client pages through is the locale
  \<open>keyset_pages\<close>; the inbox read is its interpretation.
\<close>

section \<open>The query\<close>

text \<open>\<open>keysetStart\<close>: the \<open>(created_at, id)\<close> of the last row shown.\<close>

type_synonym keyset_start = "time \<times> uuid"

record list_input =
  li_status :: "string option"
  li_kind :: "string option"
  li_target_type :: "string option"
  li_target_id :: "uuid option"
  li_bundle_id :: "uuid option"
  li_limit :: int
  li_cursor :: string

definition targeted :: "list_input \<Rightarrow> bool" where
  "targeted inp \<longleftrightarrow> li_target_type inp \<noteq> None \<and> li_target_id inp \<noteq> None"

definition row_key :: "approval \<Rightarrow> keyset_start" where
  "row_key a = (ap_created_at a, ap_id a)"

definition approval_where :: "list_input \<Rightarrow> keyset_start option \<Rightarrow> approval \<Rightarrow> bool" where
  "approval_where inp from a \<longleftrightarrow>
     (case li_status inp of None \<Rightarrow> True | Some st \<Rightarrow> status_string (ap_status a) = st)
     \<and> (case li_kind inp of None \<Rightarrow> True | Some k \<Rightarrow> ap_kind a = k)
     \<and> (case li_target_type inp of None \<Rightarrow> True | Some t \<Rightarrow> ap_target_type a = Some t)
     \<and> (case li_target_id inp of None \<Rightarrow> True | Some i \<Rightarrow> ap_target_id a = Some i)
     \<and> (case li_bundle_id inp of None \<Rightarrow> True | Some b \<Rightarrow> ap_bundle_id a = Some b)
     \<and> (case from of None \<Rightarrow> True | Some k \<Rightarrow> row_key a < k)"

text \<open>\<open>ORDER BY created_at DESC, id DESC\<close>.\<close>

definition newest_first :: "approval list \<Rightarrow> approval list" where
  "newest_first rows = rev (lock_order rows)"

definition inbox_batch :: nat where "inbox_batch = 200"

definition approval_page :: "list_input \<Rightarrow> keyset_start option \<Rightarrow> 'q world \<Rightarrow> approval list" where
  "approval_page inp from w =
     take inbox_batch (newest_first (filter (approval_where inp from) (w_approvals w)))"

text \<open>The rows of one batch the probe admits, and whether the limit was met.\<close>

fun append_decidable ::
  "approval list \<Rightarrow> approval list \<Rightarrow> nat \<Rightarrow> (approval \<Rightarrow> bool result) \<Rightarrow> (approval list \<times> bool) result" where
  "append_decidable [] out limit visible = Inr (out, False)"
| "append_decidable (a # batch) out limit visible =
     bindR (visible a) (\<lambda>ok.
       if \<not> ok then append_decidable batch out limit visible
       else if limit \<le> length (out @ [a]) then Inr (out @ [a], True)
       else append_decidable batch (out @ [a]) limit visible)"

section \<open>Pages\<close>

record page =
  pg_has_more :: bool
  pg_next_cursor :: string

text \<open>
  The opaque token. Its text is JSON in base64, both of Go's library, so the two directions are
  arguments; \<open>zero_time\<close> is \<open>time.Time{}\<close>.
\<close>

definition zero_time :: time where "zero_time = - 62135596800 * second"

definition empty_page :: page where "empty_page = \<lparr>pg_has_more = False, pg_next_cursor = []\<rparr>"

definition page_after :: "(keyset_start \<Rightarrow> string) \<Rightarrow> approval \<Rightarrow> page" where
  "page_after enc a = \<lparr>pg_has_more = True, pg_next_cursor = enc (row_key a)\<rparr>"

definition cap_page ::
  "(keyset_start \<Rightarrow> string) \<Rightarrow> approval list \<Rightarrow> nat \<Rightarrow> approval option \<Rightarrow> approval list \<times> page" where
  "cap_page enc out limit scanned =
     (if limit < length out then (take limit out, page_after enc (out ! (limit - 1)))
      else case scanned of Some r \<Rightarrow> (out, page_after enc r) | None \<Rightarrow> (out, empty_page))"

datatype list_error = ListApp app_error | MalformedCursor

definition decode_start :: "(string \<Rightarrow> keyset_start option) \<Rightarrow> string \<Rightarrow> list_error + keyset_start" where
  "decode_start dec token =
     (case dec token of
        None \<Rightarrow> Inl MalformedCursor
      | Some (t, i) \<Rightarrow> if t = zero_time \<or> is_zero i then Inl MalformedCursor else Inr (t, i))"

definition start_of :: "(string \<Rightarrow> keyset_start option) \<Rightarrow> string \<Rightarrow> list_error + keyset_start option" where
  "start_of dec token =
     (if token = [] then Inr None else bindR (decode_start dec token) (\<lambda>k. Inr (Some k)))"

section \<open>The scan\<close>

lemma row_key_approval_where:
  "approval_where inp (Some (row_key b)) a \<Longrightarrow> approval_where inp from b \<Longrightarrow> approval_where inp from a"
  by (auto simp: approval_where_def split: option.splits intro: less_trans)

lemma set_newest_first [simp]: "set (newest_first xs) = set xs"
  by (simp add: newest_first_def)

lemma approval_page_mem:
  "a \<in> set (approval_page inp from w) \<Longrightarrow> a \<in> set (w_approvals w) \<and> approval_where inp from a"
  unfolding approval_page_def by (auto dest: in_set_takeD)

text \<open>Resuming after a row of the window leaves fewer rows than the window was taken from.\<close>

lemma resume_smaller:
  assumes "b \<in> set (w_approvals w)" "approval_where inp from b"
  shows "length (filter (approval_where inp (Some (row_key b))) (w_approvals w))
    < length (filter (approval_where inp from) (w_approvals w))"
proof -
  let ?P = "approval_where inp (Some (row_key b))" and ?Q = "approval_where inp from"
  have sub: "?P a \<Longrightarrow> ?Q a" for a using row_key_approval_where assms(2) by blast
  have "\<not> ?P b" by (simp add: approval_where_def)
  obtain xs ys where split: "w_approvals w = xs @ b # ys" using assms(1) split_list by fast
  have le: "length (filter ?P zs) \<le> length (filter ?Q zs)" for zs
    by (induction zs) (auto simp: sub)
  show ?thesis using le [of xs] le [of ys] \<open>\<not> ?P b\<close> assms(2) by (simp add: split)
qed

function scan_inbox ::
  "(approval \<Rightarrow> bool result) \<Rightarrow> list_input \<Rightarrow> nat \<Rightarrow> 'q world \<Rightarrow> keyset_start option \<Rightarrow> approval list
     \<Rightarrow> approval list result" where
  "scan_inbox visible inp limit w from out =
     (case append_decidable (approval_page inp from w) out (limit + 1) visible of
        Inl e \<Rightarrow> Inl e
      | Inr (out', full) \<Rightarrow>
          if full \<or> length (approval_page inp from w) < inbox_batch then Inr out'
          else scan_inbox visible inp limit w (Some (row_key (last (approval_page inp from w)))) out')"
  by pat_completeness auto

termination
proof (relation "measure (\<lambda>(visible, inp, limit, w, start, out).
    length (filter (approval_where inp start) (w_approvals w)))")
  fix visible :: "approval \<Rightarrow> bool result" and inp limit start out and w :: "'q world" and r out' full
  assume "\<not> (full \<or> length (approval_page inp start w) < inbox_batch)"
  then have "approval_page inp start w \<noteq> []" by (auto simp: inbox_batch_def)
  then have "last (approval_page inp start w) \<in> set (approval_page inp start w)" by simp
  from resume_smaller [OF approval_page_mem [OF this, THEN conjunct1] approval_page_mem [OF this, THEN conjunct2]]
  show "((visible, inp, limit, w, Some (row_key (last (approval_page inp start w))), out'),
      (visible, inp, limit, w, start, out)) \<in> measure (\<lambda>(visible, inp, limit, w, start, out).
        length (filter (approval_where inp start) (w_approvals w)))" by simp
qed simp

declare scan_inbox.simps [simp del]

definition list_for_target ::
  "ctx \<Rightarrow> principal \<Rightarrow> (keyset_start \<Rightarrow> string) \<Rightarrow> list_input \<Rightarrow> nat \<Rightarrow> 'q world \<Rightarrow> keyset_start option
     \<Rightarrow> (approval list \<times> page) result" where
  "list_for_target c p enc inp limit w start =
     bindR (target_visible c w (li_target_type inp) (li_target_id inp)) (\<lambda>visible.
       if \<not> visible then Inr ([], empty_page)
       else
         let batch = approval_page inp start w;
             scanned = (if length batch = pending_scan_cap then Some (last batch) else None)
         in bindR (append_decidable batch [] (limit + 1) (\<lambda>a. Inr (require_decision_grants p a = Inr ())))
              (\<lambda>(out, _). Inr (cap_page enc out limit scanned)))"

definition page_limit :: "int \<Rightarrow> nat" where
  "page_limit n = (if n \<le> 0 \<or> int inbox_batch < n then 50 else nat n)"

definition list_approvals ::
  "(keyset_start \<Rightarrow> string) \<Rightarrow> (string \<Rightarrow> keyset_start option) \<Rightarrow> ctx \<Rightarrow> list_input \<Rightarrow> 'q world
     \<Rightarrow> list_error + (approval list \<times> page)" where
  "list_approvals enc dec c inp w =
     (case acting_for_a_human c of
        Inl e \<Rightarrow> Inl (ListApp e)
      | Inr _ \<Rightarrow>
          bindR (start_of dec (li_cursor inp)) (\<lambda>start.
            case ctx_actor c of
              None \<Rightarrow> Inl (ListApp (ErrOther ''crmapprovals: no actor bound to context''))
            | Some p \<Rightarrow>
                (case (if targeted inp then list_for_target c p enc inp (page_limit (li_limit inp)) w start
                       else bindR (scan_inbox (decidable c w p) inp (page_limit (li_limit inp)) w start [])
                              (\<lambda>out. Inr (cap_page enc out (page_limit (li_limit inp)) None))) of
                   Inl e \<Rightarrow> Inl (ListApp e)
                 | Inr r \<Rightarrow> Inr r)))"

text \<open>The record page's read: pending rows of one target, each with the status a reader sees.\<close>

definition pending_for_target ::
  "'q service \<Rightarrow> ctx \<Rightarrow> string \<Rightarrow> uuid \<Rightarrow> int \<Rightarrow> 'q world \<Rightarrow> (approval \<times> status) list result" where
  "pending_for_target s c target_type target_id limit w =
     bindR (acting_for_a_human c) (\<lambda>_.
       case ctx_actor c of
         None \<Rightarrow> Inl (ErrOther ''crmapprovals: no actor bound to context'')
       | Some p \<Rightarrow>
           bindR (target_visible c w (Some target_type) (Some target_id)) (\<lambda>visible.
             if \<not> visible then Inr []
             else
               let inp = \<lparr>li_status = Some ''pending'', li_kind = None, li_target_type = Some target_type,
                     li_target_id = Some target_id, li_bundle_id = None, li_limit = 0, li_cursor = []\<rparr>;
                   cap = (if limit \<le> 0 \<or> int pending_scan_cap < limit then pending_scan_cap else nat limit)
               in Inr (take cap (map (\<lambda>a. (a, effective_status a (svc_now s)))
                    (filter (\<lambda>a. effective_status a (svc_now s) = Pending \<and> require_decision_grants p a = Inr ())
                      (approval_page inp None w))))))"

section \<open>Lemmas\<close>

lemma append_decidable_filter:
  assumes "length out < limit"
  shows "append_decidable batch out limit (\<lambda>a. Inr (v a)) =
    Inr (take limit (out @ filter v batch), limit \<le> length out + length (filter v batch))"
  using assms
proof (induction batch arbitrary: out)
  case (Cons a batch)
  then show ?case by (cases "v a"; cases "limit \<le> length (out @ [a])") (auto simp: take_Cons')
qed simp

text \<open>The window a cursor opens onto, whole.\<close>

definition rows_from :: "list_input \<Rightarrow> keyset_start option \<Rightarrow> 'q world \<Rightarrow> approval list" where
  "rows_from inp start w = newest_first (filter (approval_where inp start) (w_approvals w))"

lemma approval_page_rows: "approval_page inp start w = take inbox_batch (rows_from inp start w)"
  by (simp add: approval_page_def rows_from_def)

lemma newest_first_filter: "newest_first (filter P xs) = filter P (newest_first xs)"
  by (simp only: newest_first_def lock_order_def rev_filter [symmetric] filter_sort)

lemma newest_first_descending:
  assumes "distinct (map ap_id xs)"
  shows "sorted_wrt (\<lambda>a b. row_key b < row_key a) (newest_first xs)"
proof -
  have "sorted (map row_key (lock_order xs))"
    unfolding lock_order_def row_key_def [abs_def] by simp
  moreover have "distinct (map row_key (lock_order xs))"
  proof -
    have "mset (map ap_id (lock_order xs)) = mset (map ap_id xs)" by (simp add: lock_order_def)
    then have "distinct (map ap_id (lock_order xs))" using assms mset_eq_imp_distinct_iff by blast
    then show ?thesis by (auto simp: distinct_map inj_on_def row_key_def)
  qed
  ultimately have "sorted_wrt (<) (map row_key (lock_order xs))" using strict_sorted_iff by blast
  then show ?thesis by (simp add: newest_first_def sorted_wrt_rev sorted_wrt_map)
qed

text \<open>A cursor at a row of the window stands for exactly the rows after it.\<close>

lemma resume:
  assumes "distinct (map ap_id (w_approvals w))" "rows_from inp start w = xs @ b # ys"
  shows "rows_from inp (Some (row_key b)) w = ys"
proof -
  let ?L = "rows_from inp start w"
  have d: "distinct (map ap_id (filter (approval_where inp start) (w_approvals w)))"
    by (rule distinct_map_filter [OF assms(1)])
  have desc: "sorted_wrt (\<lambda>a b. row_key b < row_key a) (xs @ b # ys)"
    using newest_first_descending [OF d] assms(2) by (simp add: rows_from_def)
  have "b \<in> set ?L" using assms(2) by simp
  then have b: "approval_where inp start b" by (simp add: rows_from_def)
  have narrow: "approval_where inp (Some (row_key b)) = (\<lambda>a. approval_where inp start a \<and> row_key a < row_key b)"
    using row_key_approval_where [OF _ b] by (auto simp: approval_where_def)
  then have "filter (approval_where inp (Some (row_key b))) (w_approvals w)
      = filter (\<lambda>a. row_key a < row_key b) (filter (approval_where inp start) (w_approvals w))"
    unfolding narrow by (simp add: conj_commute)
  then have "rows_from inp (Some (row_key b)) w
      = newest_first (filter (\<lambda>a. row_key a < row_key b) (filter (approval_where inp start) (w_approvals w)))"
    by (simp only: rows_from_def)
  also have "\<dots> = filter (\<lambda>a. row_key a < row_key b) ?L" by (simp only: newest_first_filter rows_from_def)
  also have "\<dots> = filter (\<lambda>a. row_key a < row_key b) (xs @ b # ys)" by (simp only: assms(2))
  also have "filter (\<lambda>a. row_key a < row_key b) (xs @ b # ys) = ys"
  proof -
    have "\<not> row_key a < row_key b" if "a \<in> set xs" for a
      using desc that by (auto simp: sorted_wrt_append dest: less_asym)
    moreover have "row_key a < row_key b" if "a \<in> set ys" for a
      using desc that by (auto simp: sorted_wrt_append)
    ultimately show ?thesis by (simp add: filter_empty_conv)
  qed
  finally show ?thesis .
qed

lemma resume_length:
  assumes "b \<in> set (rows_from inp start w)"
  shows "length (rows_from inp (Some (row_key b)) w) < length (rows_from inp start w)"
  using resume_smaller [of b w inp start] assms by (simp add: rows_from_def newest_first_def lock_order_def)

lemma filter_nth_split:
  "l < length (filter v xs) \<Longrightarrow>
     \<exists>ys zs. xs = ys @ filter v xs ! l # zs \<and> filter v zs = drop (Suc l) (filter v xs)"
proof (induction xs arbitrary: l)
  case (Cons x xs)
  show ?case
  proof (cases "v x \<and> l = 0")
    case True
    then show ?thesis by (intro exI [of _ "[]"] exI [of _ xs]) simp
  next
    case False
    define k where "k = (if v x then l - 1 else l)"
    have k: "k < length (filter v xs) \<and> filter v (x # xs) ! l = filter v xs ! k
      \<and> drop (Suc l) (filter v (x # xs)) = drop (Suc k) (filter v xs)"
    proof (cases "v x")
      case True
      then have "l = Suc (l - 1)" using False by simp
      then obtain n where "l = Suc n" by blast
      then show ?thesis using True Cons.prems by (simp add: k_def)
    qed (use Cons.prems in \<open>simp add: k_def\<close>)
    obtain ys zs where "xs = ys @ filter v xs ! k # zs" "filter v zs = drop (Suc k) (filter v xs)"
      using Cons.IH k by blast
    then have "x # xs = (x # ys) @ filter v (x # xs) ! l # zs \<and> filter v zs = drop (Suc l) (filter v (x # xs))"
      using k by simp
    then show ?thesis by blast
  qed
qed simp

text \<open>The remainder after the last row of a page of the filtered window.\<close>

lemma resume_filtered:
  assumes "distinct (map ap_id (w_approvals w))" "l < length (filter v (rows_from inp start w))"
    and "b = filter v (rows_from inp start w) ! l"
  shows "filter v (rows_from inp (Some (row_key b)) w) = drop (Suc l) (filter v (rows_from inp start w))"
    and "b \<in> set (rows_from inp start w)"
proof -
  let ?L = "rows_from inp start w"
  obtain xs ys where s: "?L = xs @ b # ys" "filter v ys = drop (Suc l) (filter v ?L)"
    using filter_nth_split [OF assms(2)] assms(3) by blast
  show "filter v (rows_from inp (Some (row_key b)) w) = drop (Suc l) (filter v ?L)"
    using resume [OF assms(1) s(1)] s(2) by simp
  show "b \<in> set ?L" using s(1) by simp
qed

lemma scan_inbox_reads:
  assumes "distinct (map ap_id (w_approvals w))" "length out \<le> limit"
  shows "scan_inbox (\<lambda>a. Inr (v a)) inp limit w start out
    = Inr (take (limit + 1) (out @ filter v (rows_from inp start w)))"
  using assms
proof (induction "\<lambda>a. Inr (v a) :: bool result" inp limit w start out rule: scan_inbox.induct)
  case (1 inp limit w start out)
  let ?L = "rows_from inp start w" and ?B = "take inbox_batch (rows_from inp start w)"
  have split: "filter v ?L = filter v ?B @ filter v (drop inbox_batch ?L)"
    by (metis append_take_drop_id filter_append)
  have app: "append_decidable (approval_page inp start w) out (limit + 1) (\<lambda>a. Inr (v a)) =
      Inr (take (limit + 1) (out @ filter v ?B), limit + 1 \<le> length out + length (filter v ?B))"
    using append_decidable_filter [of out "limit + 1" ?B v] 1(3) by (simp add: approval_page_rows)
  show ?case
  proof (cases "limit + 1 \<le> length out + length (filter v ?B) \<or> length ?B < inbox_batch")
    case True
    have "take (limit + 1) (out @ filter v ?B) = take (limit + 1) (out @ filter v ?L)"
      using True split by auto
    then show ?thesis using True app by (subst scan_inbox.simps) (simp add: approval_page_rows)
  next
    case False
    then have len: "length ?B = inbox_batch" "inbox_batch \<le> length ?L" "?B \<noteq> []"
      by (auto simp: inbox_batch_def)
    then have "?L = butlast ?B @ last ?B # drop inbox_batch ?L"
      by (metis append_butlast_last_id append_take_drop_id append_Cons append_Nil append_assoc)
    then have res: "rows_from inp (Some (row_key (last ?B))) w = drop inbox_batch ?L"
      by (rule resume [OF 1(2)])
    have small: "length (out @ filter v ?B) \<le> limit" using False by (simp only: length_append) linarith
    then have out': "take (limit + 1) (out @ filter v ?B) = out @ filter v ?B" by simp
    have "scan_inbox (\<lambda>a. Inr (v a)) inp limit w (Some (row_key (last ?B))) (out @ filter v ?B)
        = Inr (take (limit + 1) ((out @ filter v ?B) @ filter v (drop inbox_batch ?L)))"
      using 1(1) [OF app refl _ 1(2)] False small out' res by (simp add: approval_page_rows)
    then show ?thesis
      using False app out' split by (subst scan_inbox.simps) (simp add: approval_page_rows)
  qed
qed

section \<open>The inbox as a paged read\<close>

lemma approval_where_cursor [simp]: "approval_where (inp\<lparr>li_cursor := tok\<rparr>) = approval_where inp"
  by (simp add: approval_where_def fun_eq_iff)

lemma list_input_upd [simp]:
  "targeted (inp\<lparr>li_cursor := tok\<rparr>) = targeted inp"
  "approval_page (inp\<lparr>li_cursor := tok\<rparr>) = approval_page inp"
  "rows_from (inp\<lparr>li_cursor := tok\<rparr>) = rows_from inp"
  by (simp_all add: fun_eq_iff targeted_def approval_page_def rows_from_def)

definition shown :: "ctx \<Rightarrow> list_input \<Rightarrow> 'q world \<Rightarrow> principal \<Rightarrow> approval \<Rightarrow> bool" where
  "shown c inp w p a \<longleftrightarrow>
     (if targeted inp
      then target_visible c w (li_target_type inp) (li_target_id inp) = Inr True \<and> require_decision_grants p a = Inr ()
      else decidable c w p a = Inr True)"

definition list_page ::
  "(keyset_start \<Rightarrow> string) \<Rightarrow> (string \<Rightarrow> keyset_start option) \<Rightarrow> ctx \<Rightarrow> list_input \<Rightarrow> 'q world
     \<Rightarrow> string \<Rightarrow> approval list \<times> string option" where
  "list_page enc dec c inp w tok =
     (case list_approvals enc dec c (inp\<lparr>li_cursor := tok\<rparr>) w of
        Inl _ \<Rightarrow> ([], None)
      | Inr (rows, pg) \<Rightarrow> (rows, if pg_has_more pg then Some (pg_next_cursor pg) else None))"

definition list_rest ::
  "(string \<Rightarrow> keyset_start option) \<Rightarrow> ctx \<Rightarrow> list_input \<Rightarrow> 'q world \<Rightarrow> principal \<Rightarrow> string \<Rightarrow> approval list" where
  "list_rest dec c inp w p tok =
     (case start_of dec tok of Inl _ \<Rightarrow> [] | Inr start \<Rightarrow> filter (shown c inp w p) (rows_from inp start w))"

definition list_left :: "(string \<Rightarrow> keyset_start option) \<Rightarrow> list_input \<Rightarrow> 'q world \<Rightarrow> string \<Rightarrow> nat" where
  "list_left dec inp w tok =
     (case start_of dec tok of Inl _ \<Rightarrow> 0 | Inr start \<Rightarrow> length (rows_from inp start w))"

text \<open>
  Where a client may stand: the token decodes, row ids are unique, and the token of a row is one that
  decodes to it and is neither empty nor the zero resume point.
\<close>

definition tokens_ok :: "(keyset_start \<Rightarrow> string) \<Rightarrow> (string \<Rightarrow> keyset_start option) \<Rightarrow> 'q world \<Rightarrow> bool" where
  "tokens_ok enc dec w \<longleftrightarrow> distinct (map ap_id (w_approvals w))
     \<and> (\<forall>a \<in> set (w_approvals w). dec (enc (row_key a)) = Some (row_key a) \<and> enc (row_key a) \<noteq> []
          \<and> ap_created_at a \<noteq> zero_time \<and> \<not> is_zero (ap_id a))"

definition list_ready ::
  "(keyset_start \<Rightarrow> string) \<Rightarrow> (string \<Rightarrow> keyset_start option) \<Rightarrow> ctx \<Rightarrow> 'q world \<Rightarrow> principal \<Rightarrow> string \<Rightarrow> bool" where
  "list_ready enc dec c w p tok \<longleftrightarrow> acting_for_a_human c = Inr () \<and> ctx_actor c = Some p
     \<and> tokens_ok enc dec w \<and> (case start_of dec tok of Inl _ \<Rightarrow> False | Inr _ \<Rightarrow> True)"

lemma start_of_row:
  "tokens_ok enc dec w \<Longrightarrow> a \<in> set (w_approvals w) \<Longrightarrow> start_of dec (enc (row_key a)) = Inr (Some (row_key a))"
  by (simp add: tokens_ok_def start_of_def decode_start_def row_key_def)

lemma rows_from_mem: "a \<in> set (rows_from inp start w) \<Longrightarrow> a \<in> set (w_approvals w)"
  by (simp add: rows_from_def)

text \<open>A page cut from the window: whole, or ending at a row whose cursor stands for the remainder.\<close>

definition page_of ::
  "(keyset_start \<Rightarrow> string) \<Rightarrow> list_input \<Rightarrow> (approval \<Rightarrow> bool) \<Rightarrow> keyset_start option \<Rightarrow> 'q world
     \<Rightarrow> approval list \<times> page \<Rightarrow> bool" where
  "page_of enc inp v start w r \<longleftrightarrow>
     r = (filter v (rows_from inp start w), empty_page)
     \<or> (\<exists>xs b. r = (xs, page_after enc b) \<and> b \<in> set (rows_from inp start w)
          \<and> filter v (rows_from inp start w) = xs @ filter v (rows_from inp (Some (row_key b)) w))"

lemma page_cut:
  assumes "distinct (map ap_id (w_approvals w))" "0 < l" "l < length (filter v (rows_from inp start w))"
  shows "page_of enc inp v start w
    (take l (filter v (rows_from inp start w)), page_after enc (filter v (rows_from inp start w) ! (l - 1)))"
proof -
  let ?R = "filter v (rows_from inp start w)"
  have "l - 1 < length ?R" "Suc (l - 1) = l" using assms(2,3) by simp_all
  with resume_filtered [OF assms(1) this(1) refl]
  have "?R ! (l - 1) \<in> set (rows_from inp start w)"
    "filter v (rows_from inp (Some (row_key (?R ! (l - 1)))) w) = drop l ?R" by simp_all
  moreover have "?R = take l ?R @ drop l ?R" by simp
  ultimately show ?thesis unfolding page_of_def by metis
qed

lemma cap_page_scan:
  assumes "distinct (map ap_id (w_approvals w))" "0 < l"
  shows "page_of enc inp v start w (cap_page enc (take (l + 1) (filter v (rows_from inp start w))) l None)"
proof (cases "l < length (filter v (rows_from inp start w))")
  case True
  then show ?thesis using page_cut [OF assms True, of enc] assms(2) by (simp add: cap_page_def min_def)
qed (simp add: cap_page_def page_of_def)

lemma cap_page_window:
  assumes "distinct (map ap_id (w_approvals w))" "0 < l" and B_def: "B = approval_page inp start w"
  shows "page_of enc inp v start w (cap_page enc (take (l + 1) (filter v B)) l
    (if length B = inbox_batch then Some (last B) else None))"
proof -
  let ?L = "rows_from inp start w"
  have B: "B = take inbox_batch ?L" by (simp add: B_def approval_page_rows)
  have split: "filter v ?L = filter v B @ filter v (drop inbox_batch ?L)"
    unfolding B by (metis append_take_drop_id filter_append)
  show ?thesis
  proof (cases "l < length (filter v B)")
    case True
    then have "l < length (filter v ?L)" using split by simp
    from page_cut [OF assms(1,2) this, of enc] show ?thesis
      using True assms(2) split by (simp add: cap_page_def min_def nth_append less_imp_diff_less)
  next
    case small: False
    show ?thesis
    proof (cases "length B = inbox_batch")
      case True
      then have "B \<noteq> []" by (auto simp: inbox_batch_def)
      then have "?L = butlast B @ last B # drop inbox_batch ?L"
        unfolding B by (metis append_butlast_last_id append_take_drop_id append_Cons append_Nil append_assoc)
      then have "rows_from inp (Some (row_key (last B))) w = drop inbox_batch ?L" "last B \<in> set ?L"
        using resume [OF assms(1)] by (blast, metis in_set_conv_decomp)
      then show ?thesis using True small split by (auto simp: cap_page_def page_of_def)
    next
      case False
      then have "B = ?L" by (simp add: B)
      then show ?thesis using False small by (simp add: cap_page_def page_of_def)
    qed
  qed
qed

lemma cap_page_length: "cap_page enc out l sc = (rows, pg) \<Longrightarrow> length rows \<le> l"
  by (auto simp: cap_page_def split: if_splits option.splits)

lemma list_approvals_Inr:
  assumes "list_approvals enc dec c inp w = Inr r"
  obtains p start where "acting_for_a_human c = Inr ()" "ctx_actor c = Some p"
    "targeted inp \<Longrightarrow> list_for_target c p enc inp (page_limit (li_limit inp)) w start = Inr r"
    "\<not> targeted inp \<Longrightarrow> \<exists>out. scan_inbox (decidable c w p) inp (page_limit (li_limit inp)) w start [] = Inr out
      \<and> r = cap_page enc out (page_limit (li_limit inp)) None"
proof -
  obtain u where u: "acting_for_a_human c = Inr u"
    using assms by (cases "acting_for_a_human c") (simp_all add: list_approvals_def)
  obtain start where st: "start_of dec (li_cursor inp) = Inr start"
    using assms u by (cases "start_of dec (li_cursor inp)") (simp_all add: list_approvals_def)
  obtain p where p: "ctx_actor c = Some p"
    using assms u st by (cases "ctx_actor c") (simp_all add: list_approvals_def)
  show thesis
  proof (rule that)
    show "targeted inp \<Longrightarrow> list_for_target c p enc inp (page_limit (li_limit inp)) w start = Inr r"
      using assms u st p
      by (cases "list_for_target c p enc inp (page_limit (li_limit inp)) w start") (simp_all add: list_approvals_def)
    show "\<not> targeted inp \<Longrightarrow> \<exists>out. scan_inbox (decidable c w p) inp (page_limit (li_limit inp)) w start [] = Inr out
      \<and> r = cap_page enc out (page_limit (li_limit inp)) None"
      using assms u st p
      by (cases "scan_inbox (decidable c w p) inp (page_limit (li_limit inp)) w start []")
        (simp_all add: list_approvals_def)
  qed (use u p in simp_all)
qed

lemma list_approvals_length:
  assumes "list_approvals enc dec c inp w = Inr (rows, pg)"
  shows "length rows \<le> page_limit (li_limit inp)"
proof -
  obtain p start where t: "targeted inp \<Longrightarrow>
      list_for_target c p enc inp (page_limit (li_limit inp)) w start = Inr (rows, pg)"
    and f: "\<not> targeted inp \<Longrightarrow> \<exists>out. (rows, pg) = cap_page enc out (page_limit (li_limit inp)) None"
    using assms by (rule list_approvals_Inr) blast
  show ?thesis
  proof (cases "targeted inp")
    case True
    from t [OF True] show ?thesis
      by (auto simp: list_for_target_def Let_def split: if_splits intro: cap_page_length)
  next
    case False
    then show ?thesis using f cap_page_length by metis
  qed
qed

lemma page_limit_pos: "0 < page_limit n"
  by (simp add: page_limit_def)

lemma empty_page_of:
  "target_visible c w (li_target_type inp) (li_target_id inp) = Inr False \<Longrightarrow> targeted inp \<Longrightarrow>
     page_of enc inp (shown c inp w p) start w ([], empty_page)"
  by (simp add: page_of_def shown_def)

lemma list_approvals_page:
  assumes "list_ready enc dec c w p tok" "start_of dec tok = Inr start"
  shows "\<exists>r. list_approvals enc dec c (inp\<lparr>li_cursor := tok\<rparr>) w = Inr r
    \<and> page_of enc inp (shown c inp w p) start w r"
proof -
  have ready: "acting_for_a_human c = Inr ()" "ctx_actor c = Some p" "distinct (map ap_id (w_approvals w))"
    using assms(1) by (simp_all add: list_ready_def tokens_ok_def)
  let ?l = "page_limit (li_limit inp)" and ?v = "shown c inp w p"
  show ?thesis
  proof (cases "targeted inp")
    case False
    have v: "decidable c w p = (\<lambda>a. Inr (?v a))"
    proof
      fix a
      show "decidable c w p a = Inr (?v a)"
        using decidable_total [OF ready(2), of w p a] False by (auto simp: shown_def)
    qed
    have "scan_inbox (decidable c w p) (inp\<lparr>li_cursor := tok\<rparr>) ?l w start []
        = Inr (take (?l + 1) (filter ?v (rows_from inp start w)))"
      unfolding v using scan_inbox_reads [OF ready(3), of "[]" ?l ?v "inp\<lparr>li_cursor := tok\<rparr>" start] by simp
    then show ?thesis
      using False ready assms(2) cap_page_scan [OF ready(3) page_limit_pos, of enc inp ?v start]
      by (simp add: list_approvals_def)
  next
    case True
    have total: "target_visible c w (li_target_type inp) (li_target_id inp) \<in> {Inr True, Inr False}"
      using target_permitted_total(1) [OF ready(2)] by (simp add: target_visible_def)
    have app: "append_decidable B [] (?l + 1) (\<lambda>a. Inr (require_decision_grants p a = Inr ()))
        = Inr (take (?l + 1) (filter (\<lambda>a. require_decision_grants p a = Inr ()) B),
            ?l + 1 \<le> length (filter (\<lambda>a. require_decision_grants p a = Inr ()) B))" for B
      using append_decidable_filter [of "[]" "?l + 1" B] by simp
    have caps: "pending_scan_cap = inbox_batch" by (simp add: pending_scan_cap_def inbox_batch_def)
    show ?thesis
    proof (cases "target_visible c w (li_target_type inp) (li_target_id inp) = Inr True")
      case vis: True
      then have v: "?v = (\<lambda>a. require_decision_grants p a = Inr ())" using True by (simp add: shown_def fun_eq_iff)
      have "list_approvals enc dec c (inp\<lparr>li_cursor := tok\<rparr>) w
          = Inr (cap_page enc (take (?l + 1) (filter ?v (approval_page inp start w))) ?l
              (if length (approval_page inp start w) = inbox_batch then Some (last (approval_page inp start w)) else None))"
        using True vis ready assms(2)
        by (simp add: v list_approvals_def list_for_target_def Let_def app [simplified] caps)
      then show ?thesis
        using cap_page_window [OF ready(3) page_limit_pos refl, of enc inp ?v start] by blast
    next
      case False
      then have "target_visible c w (li_target_type inp) (li_target_id inp) = Inr False" using total by simp
      then show ?thesis
        using True ready assms(2) empty_page_of by (simp add: list_approvals_def list_for_target_def)
    qed
  qed
qed

lemma list_page_cases:
  assumes "list_ready enc dec c w p tok"
  obtains (whole) "list_page enc dec c inp w tok = (list_rest dec c inp w p tok, None)"
  | (part) xs b where "list_page enc dec c inp w tok = (xs, Some (enc (row_key b)))"
      "list_rest dec c inp w p tok = xs @ list_rest dec c inp w p (enc (row_key b))"
      "list_left dec inp w (enc (row_key b)) < list_left dec inp w tok"
      "list_ready enc dec c w p (enc (row_key b))"
proof -
  obtain start where start: "start_of dec tok = Inr start"
    using assms by (auto simp: list_ready_def split: sum.splits)
  have tok: "tokens_ok enc dec w" using assms by (simp add: list_ready_def)
  obtain r where r: "list_approvals enc dec c (inp\<lparr>li_cursor := tok\<rparr>) w = Inr r"
    "page_of enc inp (shown c inp w p) start w r"
    using list_approvals_page [OF assms start] by blast
  from r(2) [unfolded page_of_def] show thesis
  proof (elim disjE exE conjE)
    assume "r = (filter (shown c inp w p) (rows_from inp start w), empty_page)"
    then show thesis using whole r(1) start by (simp add: list_page_def list_rest_def empty_page_def)
  next
    fix xs b
    assume b: "r = (xs, page_after enc b)" "b \<in> set (rows_from inp start w)"
      "filter (shown c inp w p) (rows_from inp start w)
        = xs @ filter (shown c inp w p) (rows_from inp (Some (row_key b)) w)"
    note st = start_of_row [OF tok rows_from_mem [OF b(2)]]
    show thesis
    proof (rule part)
      show "list_page enc dec c inp w tok = (xs, Some (enc (row_key b)))"
        using r(1) b(1) by (simp add: list_page_def page_after_def)
      show "list_rest dec c inp w p tok = xs @ list_rest dec c inp w p (enc (row_key b))"
        using b(3) start st by (simp add: list_rest_def)
      show "list_left dec inp w (enc (row_key b)) < list_left dec inp w tok"
        using resume_length [OF b(2)] start st by (simp add: list_left_def)
      show "list_ready enc dec c w p (enc (row_key b))" using assms st by (simp add: list_ready_def)
    qed
  qed
qed

interpretation inbox: keyset_pages "list_page enc dec c inp w" "list_rest dec c inp w p" "list_left dec inp w"
    "list_ready enc dec c w p" for enc dec c inp w p
proof
  fix tok xs n
  assume ready: "list_ready enc dec c w p tok"
  show "list_page enc dec c inp w tok = (xs, None) \<Longrightarrow> list_rest dec c inp w p tok = xs"
    using ready by (cases rule: list_page_cases [where inp = inp]) auto
  show "list_page enc dec c inp w tok = (xs, Some n) \<Longrightarrow>
      list_rest dec c inp w p tok = xs @ list_rest dec c inp w p n"
    using ready by (cases rule: list_page_cases [where inp = inp]) auto
  show "list_page enc dec c inp w tok = (xs, Some n) \<Longrightarrow> list_left dec inp w n < list_left dec inp w tok"
    using ready by (cases rule: list_page_cases [where inp = inp]) auto
  show "list_page enc dec c inp w tok = (xs, Some n) \<Longrightarrow> list_ready enc dec c w p n"
    using ready by (cases rule: list_page_cases [where inp = inp]) auto
qed

section \<open>Properties\<close>

lemma start_of_nothing: "start_of dec [] = Inr None"
  by (simp add: start_of_def)

lemma walk_inbox:
  assumes "acting_for_a_human c = Inr ()" "ctx_actor c = Some p" "tokens_ok enc dec w" "length (w_approvals w) < n"
  shows "walk n (list_page enc dec c inp w) []
    = filter (shown c inp w p) (newest_first (filter (approval_where inp None) (w_approvals w)))"
proof -
  have "list_ready enc dec c w p []" using assms(1-3) by (simp add: list_ready_def start_of_nothing)
  moreover have left: "list_left dec inp w [] < n"
    using assms(4) le_less_trans [OF length_filter_le]
    by (simp add: list_left_def start_of_nothing rows_from_def newest_first_def lock_order_def)
  ultimately show ?thesis
    by (simp add: inbox.walk_reads_all list_rest_def start_of_nothing rows_from_def)
qed

text \<open>
  C28. Paging the inbox reads everything the caller may act on, once, newest first. For a listing that does
  not name both a target type and a target id, whatever the page size, a client that follows the cursors from
  the start gets each row the filters select and the caller could decide exactly once and no other row;
  undecidable rows, however many, never hide an older decidable one. The hypothesis on tokens is that a row's
  token decodes to the row. A listing of one target is another read, with another rule.
\<close>

theorem inbox_pages_cover_once:
  assumes "acting_for_a_human c = Inr ()" "ctx_actor c = Some p" "tokens_ok enc dec w" "length (w_approvals w) < n"
    and "\<not> targeted inp"
  shows "set (walk n (list_page enc dec c inp w) [])
        = {a \<in> set (w_approvals w). approval_where inp None a \<and> decidable c w p a = Inr True}
      \<and> distinct (map ap_id (walk n (list_page enc dec c inp w) []))
      \<and> sorted_wrt (\<lambda>a b. row_key b < row_key a) (walk n (list_page enc dec c inp w) [])"
proof -
  note all = walk_inbox [OF assms(1-4), of inp]
  have ids: "distinct (map ap_id (w_approvals w))" using assms(3) by (simp add: tokens_ok_def)
  define rows where "rows = newest_first (filter (approval_where inp None) (w_approvals w))"
  have "sorted_wrt (\<lambda>a b. row_key b < row_key a) rows"
    unfolding rows_def by (rule newest_first_descending [OF distinct_map_filter [OF ids]])
  moreover have "distinct (map ap_id rows)"
  proof -
    have "mset (map ap_id rows) = mset (map ap_id (filter (approval_where inp None) (w_approvals w)))"
      by (simp add: rows_def newest_first_def lock_order_def)
    then show ?thesis using distinct_map_filter [OF ids] mset_eq_imp_distinct_iff by blast
  qed
  ultimately show ?thesis
    unfolding all rows_def [symmetric] using assms(5)
    by (auto simp: rows_def shown_def sorted_wrt_filter intro: distinct_map_filter)
qed

text \<open>Tokens for the witness: a row's token is its id in unary.\<close>

definition sample_enc :: "keyset_start \<Rightarrow> string" where
  "sample_enc k = replicate (unat (snd k)) CHR ''b''"

definition sample_dec :: "string \<Rightarrow> keyset_start option" where
  "sample_dec = map_of [(''b'', (0, 1)), (''bb'', (0, 2)), (''bbb'', (4, 3))]"

definition whole_inbox :: list_input where
  "whole_inbox = \<lparr>li_status = None, li_kind = None, li_target_type = None, li_target_id = None,
     li_bundle_id = None, li_limit = 1, li_cursor = []\<rparr>"

definition inbox_world :: "unit world" where
  "inbox_world = pending_world\<lparr>w_approvals :=
     [pending_move, pending_move\<lparr>ap_id := 2, ap_kind := ''unmapped''\<rparr>, pending_move\<lparr>ap_id := 3, ap_created_at := 4\<rparr>]\<rparr>"

lemma inbox_world_tokens: "tokens_ok sample_enc sample_dec inbox_world"
  unfolding tokens_ok_def by code_simp

theorem inbox_pages_cover_once_witness:
  "3 \<in> ap_id ` set (walk 4 (list_page sample_enc sample_dec rep_decides whole_inbox inbox_world) [])
   \<and> 2 \<notin> ap_id ` set (walk 4 (list_page sample_enc sample_dec rep_decides whole_inbox inbox_world) [])"
proof -
  have "acting_for_a_human rep_decides = Inr ()" by (simp add: acting_for_a_human_def)
  moreover have "length (w_approvals inbox_world) < 4" "\<not> targeted whole_inbox"
    by (simp_all add: inbox_world_def targeted_def whole_inbox_def)
  ultimately have all: "set (walk 4 (list_page sample_enc sample_dec rep_decides whole_inbox inbox_world) [])
        = {a \<in> set (w_approvals inbox_world). approval_where whole_inbox None a
            \<and> decidable rep_decides inbox_world (rep RowScopeOwn) a = Inr True}"
    using inbox_pages_cover_once [OF _ rep_decides_simps inbox_world_tokens] by blast
  have "map (\<lambda>a. (ap_id a, decidable rep_decides inbox_world (rep RowScopeOwn) a)) (w_approvals inbox_world)
      = [(1, Inr True), (2, Inr False), (3, Inr True)]" by code_simp
  moreover have "approval_where whole_inbox None a" for a by (simp add: approval_where_def whole_inbox_def)
  ultimately show ?thesis unfolding all
    by (simp add: inbox_world_def) force
qed

text \<open>
  A listing never answers quietly with less than it was asked. An actor that does not act for a human
  is refused; a cursor that decodes to nothing, or to the zero resume point, is a malformed cursor and
  not an empty page; and a page holds at most the page limit, itself at most 200 whatever was asked for,
  of rows that the single read answers for the same caller.
\<close>

theorem inbox_refusals_and_bounds:
  "(acting_for_a_human c = Inl e \<longrightarrow>
      list_approvals enc dec c inp w = Inl (ListApp e) \<and> pending_for_target s c t i lim w = Inl e)
   \<and> (acting_for_a_human c = Inr () \<and> li_cursor inp \<noteq> [] \<and>
        (dec (li_cursor inp) = None \<or> (\<exists>k. dec (li_cursor inp) = Some k \<and> (fst k = zero_time \<or> is_zero (snd k)))) \<longrightarrow>
      list_approvals enc dec c inp w = Inl MalformedCursor)
   \<and> (list_approvals enc dec c inp w = Inr (rows, pg) \<longrightarrow>
      length rows \<le> page_limit (li_limit inp) \<and> page_limit (li_limit inp) \<le> 200)
   \<and> (list_approvals enc dec c inp w = Inr (rows, pg) \<and> \<not> targeted inp \<and> distinct (map ap_id (w_approvals w)) \<longrightarrow>
      (\<forall>a \<in> set rows. get_approval c (ap_id a) w = Inr a))"
proof (intro conjI impI)
  show "list_approvals enc dec c inp w = Inl (ListApp e)" "pending_for_target s c t i lim w = Inl e"
    if "acting_for_a_human c = Inl e"
    using that by (simp_all add: list_approvals_def pending_for_target_def)
  show "list_approvals enc dec c inp w = Inl MalformedCursor"
    if "acting_for_a_human c = Inr () \<and> li_cursor inp \<noteq> [] \<and>
        (dec (li_cursor inp) = None \<or> (\<exists>k. dec (li_cursor inp) = Some k \<and> (fst k = zero_time \<or> is_zero (snd k))))"
    using that by (auto simp: list_approvals_def start_of_def decode_start_def)
  show "page_limit (li_limit inp) \<le> 200" by (auto simp: page_limit_def inbox_batch_def)
  show "length rows \<le> page_limit (li_limit inp)" if "list_approvals enc dec c inp w = Inr (rows, pg)"
    by (rule list_approvals_length [OF that])
  assume asm: "list_approvals enc dec c inp w = Inr (rows, pg) \<and> \<not> targeted inp \<and> distinct (map ap_id (w_approvals w))"
  then obtain p start out where p: "acting_for_a_human c = Inr ()" "ctx_actor c = Some p"
    and out: "scan_inbox (decidable c w p) inp (page_limit (li_limit inp)) w start [] = Inr out"
    and rows: "(rows, pg) = cap_page enc out (page_limit (li_limit inp)) None"
    using list_approvals_Inr [of enc dec c inp w "(rows, pg)"] by metis
  have v: "decidable c w p = (\<lambda>a. Inr (decidable c w p a = Inr True))"
  proof
    fix a
    show "decidable c w p a = Inr (decidable c w p a = Inr True)"
      using decidable_total [OF p(2), of w p a] by auto
  qed
  have "out = take (page_limit (li_limit inp) + 1)
      (filter (\<lambda>a. decidable c w p a = Inr True) (rows_from inp start w))"
    using out scan_inbox_reads [of w "[]" "page_limit (li_limit inp)" "\<lambda>a. decidable c w p a = Inr True" inp start] asm
    by (simp add: v [symmetric])
  then have "a \<in> set (w_approvals w) \<and> decidable c w p a = Inr True" if "a \<in> set out" for a
    using that by (auto dest!: in_set_takeD dest: rows_from_mem)
  moreover have "set rows \<subseteq> set out"
    using rows set_take_subset by (auto simp: cap_page_def split: if_splits dest: in_set_takeD)
  ultimately show "\<forall>a \<in> set rows. get_approval c (ap_id a) w = Inr a"
    using p asm find_distinct_key [of ap_id "w_approvals w"]
    by (auto simp: get_approval_def get_decidable_iff get_row_def)
qed

theorem inbox_refusals_and_bounds_witness:
  "list_approvals sample_enc sample_dec rep_decides (whole_inbox\<lparr>li_cursor := ''x''\<rparr>) inbox_world = Inl MalformedCursor"
proof -
  have "acting_for_a_human rep_decides = Inr ()" by (simp add: acting_for_a_human_def)
  moreover have "sample_dec ''x'' = None" by (simp add: sample_dec_def)
  ultimately show ?thesis
    using inbox_refusals_and_bounds [THEN conjunct2, THEN conjunct1, of rep_decides "whole_inbox\<lparr>li_cursor := ''x''\<rparr>"
        sample_dec sample_enc inbox_world] by simp
qed

text \<open>A colleague of the member a match was staged for, and that match.\<close>

definition colleague :: principal where
  "colleague = (rep RowScopeOwn)\<lparr>p_permissions := (p_permissions (rep RowScopeOwn))\<lparr>pm_objects :=
     [''person'' \<mapsto> \<lparr>g_create = True, g_read = True, g_update = True, g_delete = False\<rparr>]\<rparr>\<rparr>"

definition colleague_ctx :: ctx where
  "colleague_ctx = rep_decides\<lparr>ctx_actor := Some colleague\<rparr>"

definition member_match :: approval where
  "member_match = pending_move\<lparr>ap_kind := kind_linkedin_match, ap_on_behalf_of := Some 5, ap_passport_id := None,
     ap_target_type := Some ''person'', ap_target_id := Some 201\<rparr>"

definition match_world :: "unit world" where
  "match_world = pending_world\<lparr>w_approvals := [member_match], w_db := (w_db pending_world)\<lparr>db_rows := (\<lambda>t.
     if t = ''person'' then [\<lparr>rr_id = 201, rr_owner = Some 5, rr_visibility = ''workspace'', rr_archived_at = None\<rparr>]
     else [])\<rparr>\<rparr>"

definition of_person :: list_input where
  "of_person = whole_inbox\<lparr>li_target_type := Some ''person'', li_target_id := Some 201\<rparr>"

lemma others_stager_only:
  assumes "stager_only a" "ap_on_behalf_of a \<noteq> Some (p_user_id p)"
  shows "decidable c w p a = Inr False"
  using assms by (simp add: decidable_def)

text \<open>
  C40. The listing of one record is wider than the decision it stands for. With both target filters set and
  the record readable, a client that follows the cursors gets every row the filters select whose kind's grants
  the caller holds, and nothing else is asked: whose match it is does not matter. A match staged for another
  member's own address book is therefore listed to a colleague, while the single read answers the same caller
  that it does not exist.
\<close>

theorem target_list_bypasses_self_only:
  assumes "acting_for_a_human c = Inr ()" "ctx_actor c = Some p" "tokens_ok enc dec w" "length (w_approvals w) < n"
    and "targeted inp" "target_visible c w (li_target_type inp) (li_target_id inp) = Inr True"
  shows "set (walk n (list_page enc dec c inp w) [])
        = {a \<in> set (w_approvals w). approval_where inp None a \<and> require_decision_grants p a = Inr ()}
      \<and> (\<forall>a \<in> set (w_approvals w). stager_only a \<and> ap_on_behalf_of a \<noteq> Some (p_user_id p)
           \<longrightarrow> get_approval c (ap_id a) w = Inl (App ErrNotFound))"
proof (intro conjI ballI impI)
  show "set (walk n (list_page enc dec c inp w) [])
      = {a \<in> set (w_approvals w). approval_where inp None a \<and> require_decision_grants p a = Inr ()}"
    unfolding walk_inbox [OF assms(1-4), of inp] using assms(5,6) by (auto simp: shown_def)
next
  fix a
  assume a: "a \<in> set (w_approvals w)" "stager_only a \<and> ap_on_behalf_of a \<noteq> Some (p_user_id p)"
  have "find (\<lambda>x. ap_id x = ap_id a) (w_approvals w) = Some a"
    using assms(3) a(1) find_distinct_key [of ap_id "w_approvals w"] by (simp add: tokens_ok_def)
  then show "get_approval c (ap_id a) w = Inl (App ErrNotFound)"
    using assms(1,2) others_stager_only [of a p c w] a(2)
    by (simp add: get_approval_def get_decidable_def get_row_def)
qed

theorem target_list_bypasses_self_only_witness:
  "member_match \<in> set (walk 2 (list_page sample_enc sample_dec colleague_ctx of_person match_world) [])
   \<and> get_approval colleague_ctx 1 match_world = Inl (App ErrNotFound)"
proof -
  have actor: "ctx_actor colleague_ctx = Some colleague" by (simp add: colleague_ctx_def)
  have "acting_for_a_human colleague_ctx = Inr ()" "tokens_ok sample_enc sample_dec match_world" "length (w_approvals match_world) < 2" "targeted of_person"
    "target_visible colleague_ctx match_world (li_target_type of_person) (li_target_id of_person) = Inr True"
    unfolding tokens_ok_def by code_simp+
  note all = target_list_bypasses_self_only [OF this(1) actor this(2-)]
  have "member_match \<in> set (w_approvals match_world)" by (simp add: match_world_def)
  moreover have "approval_where of_person None member_match" "require_decision_grants colleague member_match = Inr ()"
    "stager_only member_match" "ap_on_behalf_of member_match \<noteq> Some (p_user_id colleague)" "ap_id member_match = 1" by code_simp+
  ultimately show ?thesis using all by auto
qed

end
