(* ===== verification/Approval_Erasure.thy ===== *)
theory Approval_Erasure
  imports Approval_Staging
begin

text \<open>
  What the rest of the system writes on the approvals table: the scrubs of an erasure and of a retention
  pass (\<^verbatim>\<open>backend/internal/modules/privacy/erasure_approvals.go\<close>). A staged proposal that
  names the subject, or quotes a record that is being destroyed, is emptied; one nobody has decided is
  withdrawn with it, and so are the runs parked behind it. No statement of these writes an audit row or
  an event. \<open>jsonb_text\<close> is the text PostgreSQL gives a jsonb value.
\<close>

section \<open>Which proposals name the subject\<close>

text \<open>
  \<open>addressPatterns\<close>: each address lower-cased and quoted, the empty ones skipped. The regex around it
  admits a match only where the address stands alone: not preceded by a character of a local part, not
  followed by one of a domain. PostgreSQL's operator ignores case.
\<close>

definition address_patterns :: "string list \<Rightarrow> string list" where
  "address_patterns emails = map to_lower (filter (\<lambda>e. e \<noteq> []) emails)"

definition alphanumeric :: "char \<Rightarrow> bool" where
  "alphanumeric c \<longleftrightarrow> c \<in> set ''abcdefghijklmnopqrstuvwxyz0123456789''"

definition local_char :: "char \<Rightarrow> bool" where
  "local_char c \<longleftrightarrow> alphanumeric c \<or> c \<in> set ''._%+-''"

definition domain_char :: "char \<Rightarrow> bool" where
  "domain_char c \<longleftrightarrow> alphanumeric c \<or> c \<in> set ''.-''"

definition stands_at :: "string \<Rightarrow> string \<Rightarrow> nat \<Rightarrow> bool" where
  "stands_at addr t n \<longleftrightarrow> take (length addr) (drop n t) = addr \<and> (n = 0 \<or> \<not> local_char (t ! (n - 1)))
     \<and> (n + length addr = length t \<or> \<not> domain_char (t ! (n + length addr)))"

definition address_in :: "string \<Rightarrow> string \<Rightarrow> bool" where
  "address_in t addr \<longleftrightarrow> list_ex (stands_at addr (to_lower t)) [0..<Suc (length t)]"

definition subject_approval_match ::
  "(json \<Rightarrow> string) \<Rightarrow> uuid \<Rightarrow> uuid list \<Rightarrow> string list \<Rightarrow> approval \<Rightarrow> bool" where
  "subject_approval_match jsonb_text subj leads patterns a \<longleftrightarrow>
     (ap_target_type a = Some ''person'' \<and> ap_target_id a = Some subj)
     \<or> (ap_target_type a = Some ''lead'' \<and> list_ex (\<lambda>l. ap_target_id a = Some l) leads)
     \<or> list_ex (address_in (jsonb_text (ap_proposed_change a))) patterns
     \<or> (case ap_summary a of None \<Rightarrow> False | Some s \<Rightarrow> list_ex (address_in s) patterns)"

section \<open>The scrubs\<close>

definition subject_withdrawal :: string where
  "subject_withdrawal = ''withdrawn: the person it names exercised erasure''"

definition erased_source_withdrawal :: string where
  "erased_source_withdrawal = ''withdrawn: the record it was read from was erased''"

definition aged_out_source_withdrawal :: string where
  "aged_out_source_withdrawal =
     ''withdrawn: the record it was read from reached the end of its retention window''"

definition blank_staged_proposal :: "approval \<Rightarrow> approval" where
  "blank_staged_proposal a = a\<lparr>ap_proposed_change := JObj [], ap_summary := Some [], ap_evidence := None\<rparr>"

definition withdraw_blanked :: "time \<Rightarrow> string \<Rightarrow> approval \<Rightarrow> approval" where
  "withdraw_blanked now reason a = (blank_staged_proposal a)
     \<lparr>ap_status := Expired, ap_decision_reason := Some reason, ap_decided_at := Some now\<rparr>"

fun item_member :: "json \<Rightarrow> string \<Rightarrow> string option" where
  "item_member (JObj kvs) k = (case obj_get kvs k of Some (JStr s) \<Rightarrow> Some s | _ \<Rightarrow> None)"
| "item_member _ k = None"

text \<open>
  The runs waiting for an answer, with the columns the scrub reads and writes: an automation's, which
  names its approval in \<open>detail\<close>, and an agent's, which holds a copy of the staged call.
\<close>

record workflow_run =
  wr_id :: uuid
  wr_status :: string
  wr_detail :: json

record agent_run =
  ag_id :: uuid
  ag_status :: string
  ag_approval :: "uuid option"
  ag_pending :: "json option"
  ag_trace :: json
  ag_finished_at :: "time option"
  ag_degrade_reason :: "string option"

record 'q privacy_db =
  pd_world :: "'q world"
  pd_workflow_runs :: "workflow_run list"
  pd_agent_runs :: "agent_run list"

definition run_withdrawal :: string where
  "run_withdrawal = ''the approval it waited on was '' @ subject_withdrawal"

text \<open>
  The statements of \<open>redactStagedApprovals\<close>: the open rows withdrawn, the automation runs behind those
  very rows blocked, the agent runs behind any row withdrawn for this reason failed, the decided rows
  emptied.
\<close>

definition withdraw_staged :: "(approval \<Rightarrow> bool) \<Rightarrow> 'q world \<Rightarrow> 'q world" where
  "withdraw_staged names w =
     update_rows (\<lambda>a. ap_status a = Pending \<and> names a) (withdraw_blanked (w_now w) subject_withdrawal) w"

definition withdrawn_by :: "(approval \<Rightarrow> bool) \<Rightarrow> 'q world \<Rightarrow> uuid list" where
  "withdrawn_by names w = map ap_id (filter (\<lambda>a. ap_status a = Pending \<and> names a) (w_approvals w))"

definition block_workflow_runs :: "uuid list \<Rightarrow> workflow_run list \<Rightarrow> workflow_run list" where
  "block_workflow_runs withdrawn =
     update_where (\<lambda>r. wr_status r = ''requires_approval''
         \<and> list_ex (\<lambda>i. item_member (wr_detail r) ''approval_id'' = Some (uuid_string i)) withdrawn)
       (\<lambda>r. r\<lparr>wr_status := ''blocked'', wr_detail := JObj [(''reason'', JStr run_withdrawal)]\<rparr>)"

definition fail_agent_runs :: "'q world \<Rightarrow> agent_run list \<Rightarrow> agent_run list" where
  "fail_agent_runs w =
     update_where (\<lambda>r. ag_status r = ''awaiting_approval''
         \<and> list_ex (\<lambda>a. ag_approval r = Some (ap_id a) \<and> ap_status a = Expired
              \<and> ap_decision_reason a = Some subject_withdrawal) (w_approvals w))
       (\<lambda>r. r\<lparr>ag_status := ''failed'', ag_pending := None, ag_trace := JArr [], ag_finished_at := Some (w_now w),
          ag_degrade_reason := Some run_withdrawal\<rparr>)"

definition empty_decided :: "(approval \<Rightarrow> bool) \<Rightarrow> 'q world \<Rightarrow> 'q world" where
  "empty_decided names w = update_rows (\<lambda>a. ap_status a \<noteq> Pending \<and> names a) blank_staged_proposal w"

definition redact_staged_approvals ::
  "(json \<Rightarrow> string) \<Rightarrow> uuid \<Rightarrow> uuid list \<Rightarrow> string list \<Rightarrow> 'q privacy_db \<Rightarrow> 'q privacy_db" where
  "redact_staged_approvals jsonb_text subj leads emails d =
     (let names = subject_approval_match jsonb_text subj leads (address_patterns emails);
          w1 = withdraw_staged names (pd_world d)
      in d\<lparr>pd_world := empty_decided names w1,
           pd_workflow_runs := block_workflow_runs (withdrawn_by names (pd_world d)) (pd_workflow_runs d),
           pd_agent_runs := fail_agent_runs w1 (pd_agent_runs d)\<rparr>)"

text \<open>
  \<open>evidenceCitesActivity\<close> reads the evidence as an array, anything else as an empty one, and a member
  as an object; \<open>->>\<close> of a value that is not a string renders text no id and no type name equals.
\<close>

definition evidence_cites_activity :: "string list \<Rightarrow> approval \<Rightarrow> bool" where
  "evidence_cites_activity cited a \<longleftrightarrow>
     (case ap_evidence a of
        Some (JArr items) \<Rightarrow> list_ex (\<lambda>item. item_member item ''source_type'' = Some ''activity''
          \<and> list_ex (\<lambda>c. item_member item ''source_id'' = Some c) cited) items
      | _ \<Rightarrow> False)"

definition redact_approvals_citing_activities :: "uuid list \<Rightarrow> string \<Rightarrow> 'q world \<Rightarrow> 'q world" where
  "redact_approvals_citing_activities activities reason w =
     (if activities = [] then w
      else update_rows (evidence_cites_activity (map uuid_string activities))
        (\<lambda>a. if ap_status a = Pending then withdraw_blanked (w_now w) reason a else blank_staged_proposal a) w)"

section \<open>One rewrite for both\<close>

text \<open>What a scrub does to one row it reaches.\<close>

definition scrubbed :: "time \<Rightarrow> string \<Rightarrow> approval \<Rightarrow> approval" where
  "scrubbed now reason a =
     (if ap_status a = Pending then withdraw_blanked now reason a else blank_staged_proposal a)"

lemma blank_simps [simp]:
  "ap_id (blank_staged_proposal a) = ap_id a" "ap_status (blank_staged_proposal a) = ap_status a"
  "ap_id (withdraw_blanked now r a) = ap_id a" "ap_status (withdraw_blanked now r a) = Expired"
  "ap_id (scrubbed now r a) = ap_id a"
  "blank_staged_proposal (withdraw_blanked now r a) = withdraw_blanked now r a"
  "blank_staged_proposal (blank_staged_proposal a) = blank_staged_proposal a"
  by (simp_all add: blank_staged_proposal_def withdraw_blanked_def scrubbed_def)

lemma scrubbed_status: "ap_status (scrubbed now r a) = (if ap_status a = Pending then Expired else ap_status a)"
  by (simp add: scrubbed_def)

lemma scrubbed_blank: "blank_staged_proposal (scrubbed now r a) = scrubbed now r a"
  by (simp add: scrubbed_def)

text \<open>
  The two statements of the subject's scrub are one rewrite per row: a row the first withdrew is empty,
  and emptying it again changes nothing.
\<close>

lemma redact_staged_rows:
  "pd_world (redact_staged_approvals jsonb_text subj leads emails d) = (pd_world d)
     \<lparr>w_approvals := update_where (subject_approval_match jsonb_text subj leads (address_patterns emails))
       (scrubbed (w_now (pd_world d)) subject_withdrawal) (w_approvals (pd_world d))\<rparr>"
  by (auto simp: redact_staged_approvals_def withdraw_staged_def empty_decided_def update_rows_def update_where_def
      scrubbed_def Let_def)

lemma update_where_off: "(\<And>x. \<not> p (f x)) \<Longrightarrow> r \<in> set (update_where p f xs) \<Longrightarrow> \<not> p r"
  by (auto simp: set_update_where)

text \<open>No run is left waiting behind a row the scrub withdrew.\<close>

lemma no_run_waits:
  assumes "a \<in> set (w_approvals (pd_world d))" "ap_status a = Pending"
    and "subject_approval_match jsonb_text subj leads (address_patterns emails) a"
    and "d' = redact_staged_approvals jsonb_text subj leads emails d"
  shows "r \<in> set (pd_workflow_runs d') \<Longrightarrow> wr_status r = ''requires_approval'' \<Longrightarrow>
      item_member (wr_detail r) ''approval_id'' \<noteq> Some (uuid_string (ap_id a))"
    and "g \<in> set (pd_agent_runs d') \<Longrightarrow> ag_status g = ''awaiting_approval'' \<Longrightarrow> ag_approval g \<noteq> Some (ap_id a)"
proof -
  let ?names = "subject_approval_match jsonb_text subj leads (address_patterns emails)"
  have "ap_id a \<in> set (withdrawn_by ?names (pd_world d))" using assms(1-3) by (auto simp: withdrawn_by_def)
  then show "r \<in> set (pd_workflow_runs d') \<Longrightarrow> wr_status r = ''requires_approval'' \<Longrightarrow>
      item_member (wr_detail r) ''approval_id'' \<noteq> Some (uuid_string (ap_id a))"
    by (auto simp: assms(4) redact_staged_approvals_def Let_def block_workflow_runs_def set_update_where list_ex_iff
        split: if_splits)
  let ?b = "withdraw_blanked (w_now (pd_world d)) subject_withdrawal a"
  have "?b \<in> set (w_approvals (withdraw_staged ?names (pd_world d)))"
    unfolding withdraw_staged_def update_rows_simps set_update_where
    by (rule image_eqI [of _ _ a]) (use assms(1-3) in simp_all)
  moreover have "ap_id ?b = ap_id a" "ap_status ?b = Expired" "ap_decision_reason ?b = Some subject_withdrawal"
    by (simp_all add: withdraw_blanked_def blank_staged_proposal_def)
  ultimately have reached: "\<exists>x \<in> set (w_approvals (withdraw_staged ?names (pd_world d))). Some (ap_id a) = Some (ap_id x)
      \<and> ap_status x = Expired \<and> ap_decision_reason x = Some subject_withdrawal" by metis
  let ?p = "\<lambda>r. ag_status r = ''awaiting_approval'' \<and> list_ex (\<lambda>a. ag_approval r = Some (ap_id a) \<and> ap_status a = Expired
    \<and> ap_decision_reason a = Some subject_withdrawal) (w_approvals (withdraw_staged ?names (pd_world d)))"
  let ?f = "\<lambda>r :: agent_run. r\<lparr>ag_status := ''failed'', ag_pending := None, ag_trace := JArr [],
      ag_finished_at := Some (w_now (withdraw_staged ?names (pd_world d))), ag_degrade_reason := Some run_withdrawal\<rparr>"
  show "ag_approval g \<noteq> Some (ap_id a)" if g: "g \<in> set (pd_agent_runs d')" "ag_status g = ''awaiting_approval''"
  proof -
    have "pd_agent_runs d' = fail_agent_runs (withdraw_staged ?names (pd_world d)) (pd_agent_runs d)"
      by (simp add: assms(4) redact_staged_approvals_def Let_def)
    then have mem: "g \<in> set (update_where ?p ?f (pd_agent_runs d))" using g(1) unfolding fail_agent_runs_def by simp
    have "\<not> ?p (?f x)" for x by simp
    then have "\<not> ?p g" using mem by (rule update_where_off)
    then show ?thesis using g(2) reached by (auto simp: list_ex_iff)
  qed
qed

lemma redact_citing_rows:
  "redact_approvals_citing_activities activities reason w =
     w\<lparr>w_approvals := update_where (evidence_cites_activity (map uuid_string activities))
       (scrubbed (w_now w) reason) (w_approvals w)\<rparr>"
proof (cases "activities = []")
  case True
  have "\<not> evidence_cites_activity [] a" for a
    by (auto simp: evidence_cites_activity_def list_ex_iff split: option.splits json.splits)
  then show ?thesis using True by (simp add: redact_approvals_citing_activities_def update_where_def)
next
  case False
  then show ?thesis
    by (simp add: redact_approvals_citing_activities_def update_rows_def scrubbed_def cong: if_cong)
      (simp add: update_where_def scrubbed_def)
qed

lemma scrubbed_row:
  assumes "get_row i w = Inr a"
    and "w' = w\<lparr>w_approvals := update_where hit (scrubbed now r) (w_approvals w)\<rparr>"
  shows "get_row i w' = Inr (if hit a then scrubbed now r a else a)"
proof -
  have "find (\<lambda>x. ap_id x = i) (update_where hit (scrubbed now r) rows)
      = map_option (\<lambda>x. if hit x then scrubbed now r x else x) (find (\<lambda>x. ap_id x = i) rows)" for rows
    by (induction rows) (auto simp: update_where_def)
  then show ?thesis using assms by (auto simp: get_row_def split: option.splits)
qed

section \<open>The anchored match\<close>

text \<open>A pattern finds the address on its own, in any case, and nothing that merely contains it.\<close>

lemma longer_address_escapes:
  "\<not> address_in ''tim@acme.com'' ''m@acme.com''" "address_in ''to: M@Acme.com, now'' ''m@acme.com''"
  "\<not> address_in ''m@acme.com.vn'' ''m@acme.com''"
  by code_simp+

end
