(* ===== verification/Machines.thy ===== *)
theory Machines
  imports Prelude
begin

text \<open>
  Runs of a labelled step relation, and two interfaces over it: a machine with an invariant its steps
  preserve, and one whose states have an abstract view that the steps respect. The approvals engine and
  the bus consumers are machines of this kind.
\<close>

inductive run_of :: "('s \<Rightarrow> 'e \<Rightarrow> 's \<Rightarrow> bool) \<Rightarrow> 's \<Rightarrow> 'e list \<Rightarrow> 's \<Rightarrow> bool" for move where
  start: "run_of move s [] s"
| step: "run_of move s es s1 \<Longrightarrow> move s1 e s2 \<Longrightarrow> run_of move s (es @ [e]) s2"

inductive_simps run_of_Nil: "run_of move s [] s'"

lemma run_of_single: "move s e s' \<Longrightarrow> run_of move s [e] s'"
  using run_of.step [OF run_of.start] by fastforce

lemma run_of_trans: "run_of move s1 es' s2 \<Longrightarrow> run_of move s es s1 \<Longrightarrow> run_of move s (es @ es') s2"
  by (induction rule: run_of.induct) (auto simp flip: append_assoc intro: run_of.intros)

locale invariant_machine =
  fixes move :: "'s \<Rightarrow> 'e \<Rightarrow> 's \<Rightarrow> bool" and inv :: "'s \<Rightarrow> bool"
  assumes inv_move: "move s e s' \<Longrightarrow> inv s \<Longrightarrow> inv s'"
begin

lemma run_inv: "run_of move s es s' \<Longrightarrow> inv s \<Longrightarrow> inv s'"
  by (induction rule: run_of.induct) (auto intro: inv_move)

text \<open>A relation every step from a good state keeps is kept by a run.\<close>

lemma run_keeps:
  assumes "run_of move s es s'" "inv s" "\<And>s. R s s" "\<And>a b c. R a b \<Longrightarrow> R b c \<Longrightarrow> R a c"
    and "\<And>a e b. move a e b \<Longrightarrow> inv a \<Longrightarrow> R a b"
  shows "R s s'"
  using assms(1,2)
proof (induction rule: run_of.induct)
  case (step s es s1 e s2)
  have "R s1 s2" using assms(5) step.hyps(2) run_inv [OF step.hyps(1) step.prems] by blast
  then show ?case using assms(4) step.IH [OF step.prems] by blast
qed (rule assms(3))

end

text \<open>States seen through \<open>view\<close>, events acting on views by \<open>act\<close>.\<close>

locale viewed_machine = invariant_machine move inv
  for move :: "'s \<Rightarrow> 'e \<Rightarrow> 's \<Rightarrow> bool" and inv :: "'s \<Rightarrow> bool" +
  fixes view :: "'s \<Rightarrow> 'a" and act :: "'e \<Rightarrow> 'a \<Rightarrow> 'a \<Rightarrow> bool"
  assumes view_move: "move s e s' \<Longrightarrow> inv s \<Longrightarrow> act e (view s) (view s')"
begin

text \<open>A language of histories per view, closed under what each event adds, describes every run.\<close>

lemma view_history:
  assumes "run_of move s es s'" "inv s" "[] \<in> H (view s)"
    and "\<And>e a b h. act e a b \<Longrightarrow> h \<in> H a \<Longrightarrow> h @ filter P [e] \<in> H b"
  shows "filter P es \<in> H (view s')"
  using assms(1-3)
proof (induction rule: run_of.induct)
  case (step s es s1 e s2)
  have "act e (view s1) (view s2)" by (rule view_move [OF step.hyps(2) run_inv [OF step.hyps(1) step.prems(1)]])
  from assms(4) [OF this step.IH [OF step.prems]] show ?case by simp
qed simp

end

end
