(* ===== verification/Approval_Machine.thy ===== *)
theory Approval_Machine
  imports Approval_Sweep Approval_Erasure Machines
begin

text \<open>
  The approvals engine as one state machine. Every committed operation of
  \<^verbatim>\<open>backend/internal/modules/approvals\<close> is a step, in any order and under any
  caller and clock, and so are the two scrubs of an erasure, the only other statements of the program
  that update the table; what the rest of the system writes elsewhere is the step \<open>EvOutside\<close>. The life
  of a row is the abstract specification the steps refine.

  A run lies between two data resets: \<^verbatim>\<open>compose/datasweep.go\<close> deletes every approval and
  every outbox row, and the histories start anew. The foreign keys that would null a row's decider,
  principal or passport fire only when a user or a passport is deleted; no statement of the program
  deletes either, and the reset keeps both tables.
\<close>

section \<open>The abstract life of a row\<close>

datatype life = Unborn | Open | Granted | Spent | Refused | Lapsed

text \<open>The lives in an order no event goes back in.\<close>

fun life_rank :: "life \<Rightarrow> nat" where
  "life_rank Unborn = 0"
| "life_rank Open = 1"
| "life_rank Granted = 2"
| "life_rank Spent = 3"
| "life_rank Refused = 4"
| "life_rank Lapsed = 5"

lemma life_rank_inj: "life_rank l = life_rank l' \<longleftrightarrow> l = l'"
  by (cases l; cases l') simp_all

instantiation life :: linorder
begin

definition less_eq_life :: "life \<Rightarrow> life \<Rightarrow> bool" where "less_eq_life l l' \<longleftrightarrow> life_rank l \<le> life_rank l'"
definition less_life :: "life \<Rightarrow> life \<Rightarrow> bool" where "less_life l l' \<longleftrightarrow> life_rank l < life_rank l'"

instance by standard (auto simp: less_eq_life_def less_life_def life_rank_inj)

end

datatype engine_event =
    EvOutside
  | EvStaged uuid
  | EvDecided uuid bool
  | EvRedeemed uuid
  | EvWithdrawn uuid
  | EvExpired uuid
  | EvErased "uuid list"

text \<open>
  The specification: what one event may do to one row. A staging may retire an open row other than its
  own, under the same logical identity; an erasure names the open rows it withdraws.
\<close>

inductive life_step :: "engine_event \<Rightarrow> uuid \<Rightarrow> life \<Rightarrow> life \<Rightarrow> bool" where
  outside: "life_step EvOutside i l l"
| other_decided: "i \<noteq> j \<Longrightarrow> life_step (EvDecided j v) i l l"
| other_redeemed: "i \<noteq> j \<Longrightarrow> life_step (EvRedeemed j) i l l"
| other_withdrawn: "i \<noteq> j \<Longrightarrow> life_step (EvWithdrawn j) i l l"
| other_expired: "i \<noteq> j \<Longrightarrow> life_step (EvExpired j) i l l"
| other_staged: "i \<noteq> j \<Longrightarrow> life_step (EvStaged j) i l l"
| superseded: "i \<noteq> j \<Longrightarrow> life_step (EvStaged j) i Open Lapsed"
| born: "life_step (EvStaged i) i Unborn Open"
| joined: "life_step (EvStaged i) i Open Open"
| granted: "life_step (EvDecided i True) i Open Granted"
| refused: "life_step (EvDecided i False) i Open Refused"
| spent: "life_step (EvRedeemed i) i Granted Spent"
| withdrawn: "life_step (EvWithdrawn i) i Open Lapsed"
| expired: "life_step (EvExpired i) i Open Lapsed"
| not_erased: "i \<notin> set js \<Longrightarrow> life_step (EvErased js) i l l"
| erased: "i \<in> set js \<Longrightarrow> life_step (EvErased js) i Open Lapsed"

code_pred life_step .

inductive_simps life_step_simps:
  "life_step EvOutside i l l'"
  "life_step (EvStaged j) i l l'"
  "life_step (EvDecided j v) i l l'"
  "life_step (EvRedeemed j) i l l'"
  "life_step (EvWithdrawn j) i l l'"
  "life_step (EvExpired j) i l l'"
  "life_step (EvErased js) i l l'"

definition life :: "approval \<Rightarrow> life" where
  "life a =
     (case ap_status a of
        Pending \<Rightarrow> Open
      | Approved \<Rightarrow> if ap_consumed_at a = None then Granted else Spent
      | Rejected \<Rightarrow> Refused
      | Expired \<Rightarrow> Lapsed)"

definition life_of :: "uuid \<Rightarrow> 'q world \<Rightarrow> life" where
  "life_of i w = (case get_row i w of Inl _ \<Rightarrow> Unborn | Inr a \<Rightarrow> life a)"

section \<open>The engine's steps\<close>

text \<open>
  What a transaction adds to the two append-only tables: deliverable outbox rows naming audit rows that
  exist.
\<close>

definition logged :: "'q world \<Rightarrow> 'q world \<Rightarrow> bool" where
  "logged w w' \<longleftrightarrow>
     (\<exists>xs. w_audit w' = w_audit w @ xs)
     \<and> (\<exists>ys. w_outbox w' = w_outbox w @ ys \<and> (\<forall>y \<in> set ys. ob_audit y < length (w_audit w') \<and> deliverable y))"

text \<open>
  The rest of the system: records, versions and the quota move, audit and outbox rows are appended, the
  database clock does not go back. It writes no approval: the statements that do are the steps below.
\<close>

definition outside :: "'q world \<Rightarrow> 'q world \<Rightarrow> bool" where
  "outside w w' \<longleftrightarrow> w_approvals w' = w_approvals w \<and> logged w w' \<and> w_now w \<le> w_now w'"

definition expiries_outside :: "'q service \<Rightarrow> bool" where
  "expiries_outside s \<longleftrightarrow>
     (\<forall>k f i x w w'. svc_expiries s k = Some f \<longrightarrow> f i x w = Inr w' \<longrightarrow> outside w w')"

definition unused_id :: "uuid \<Rightarrow> 'q world \<Rightarrow> bool" where
  "unused_id i w \<longleftrightarrow> i \<notin> ap_id ` set (w_approvals w)"

inductive engine_step :: "'q world \<Rightarrow> engine_event \<Rightarrow> 'q world \<Rightarrow> bool" where
  outside: "outside w w' \<Longrightarrow> engine_step w EvOutside w'"
| stage: "stage s c inp i w = (Inr j, w') \<Longrightarrow> unused_id i w \<Longrightarrow> engine_step w (EvStaged j) w'"
| stage_in_tx: "stage_in_tx s c inp i w = Inr (j, w') \<Longrightarrow> unused_id i w \<Longrightarrow> engine_step w (EvStaged j) w'"
| join_in_tx: "stage_or_join_pending_in_tx s c inp i w = Inr (j, w') \<Longrightarrow> unused_id i w
    \<Longrightarrow> engine_step w (EvStaged j) w'"
| stage_agent_call: "stage_agent_call s c inp i w = (Inr (j, False), w') \<Longrightarrow> unused_id i w
    \<Longrightarrow> engine_step w (EvStaged j) w'"
| decide: "decide_in_tx s c p i v reason edited w = Inr (b, w') \<Longrightarrow> engine_step w (EvDecided i v) w'"
| redeem: "redeem_in_tx s c i tool h w = Inr (n, w') \<Longrightarrow> engine_step w (EvRedeemed i) w'"
| withdraw: "withdraw_in_tx c i reason w = Inr (True, w') \<Longrightarrow> engine_step w (EvWithdrawn i) w'"
| expire: "expire_one s c i w = Inr (True, w') \<Longrightarrow> expiries_outside s \<Longrightarrow> engine_step w (EvExpired i) w'"
| erase_subject: "pd_world d = w \<Longrightarrow> engine_step w
    (EvErased (withdrawn_by (subject_approval_match jsonb_text subj leads (address_patterns emails)) w))
    (pd_world (redact_staged_approvals jsonb_text subj leads emails d))"
| erase_cited: "engine_step w
    (EvErased (withdrawn_by (evidence_cites_activity (map uuid_string activities)) w))
    (redact_approvals_citing_activities activities reason w)"

definition engine_run :: "'q world \<Rightarrow> engine_event list \<Rightarrow> 'q world \<Rightarrow> bool" where
  "engine_run = run_of engine_step"

section \<open>The invariant\<close>

definition row_ok :: "approval \<Rightarrow> bool" where
  "row_ok a \<longleftrightarrow>
     (case ap_status a of
        Pending \<Rightarrow> ap_decided_by a = None \<and> ap_decided_at a = None \<and> ap_consumed_at a = None
      | Approved \<Rightarrow> ap_decided_by a \<noteq> None \<and> ap_decided_at a \<noteq> None
      | Rejected \<Rightarrow> ap_decided_by a \<noteq> None \<and> ap_decided_at a \<noteq> None \<and> ap_consumed_at a = None
      | Expired \<Rightarrow> ap_decided_by a = None \<and> ap_consumed_at a = None)"

text \<open>An answered row has the audit row of its answer.\<close>

definition answer_audited :: "'q world \<Rightarrow> approval \<Rightarrow> bool" where
  "answer_audited w a \<longleftrightarrow>
     (ap_status a = Approved \<longrightarrow> (\<exists>r \<in> set (w_audit w). au_action r = ''approve'' \<and> au_entity_id r = ap_id a))
     \<and> (ap_status a = Rejected \<longrightarrow> (\<exists>r \<in> set (w_audit w). au_action r = ''reject'' \<and> au_entity_id r = ap_id a))"

definition consistent :: "'q world \<Rightarrow> bool" where
  "consistent w \<longleftrightarrow> distinct (map ap_id (w_approvals w))
     \<and> (\<forall>a \<in> set (w_approvals w). row_ok a \<and> answer_audited w a)
     \<and> (\<forall>ob \<in> set (w_outbox w). ob_audit ob < length (w_audit w) \<and> deliverable ob)"

section \<open>What one step does to the table\<close>

text \<open>The columns no operation rewrites, those a decision may, and those only an erasure does.\<close>

definition same_proposal :: "approval \<Rightarrow> approval \<Rightarrow> bool" where
  "same_proposal a b \<longleftrightarrow> ap_id b = ap_id a \<and> ap_kind b = ap_kind a \<and> ap_proposed_by b = ap_proposed_by a
     \<and> ap_on_behalf_of b = ap_on_behalf_of a \<and> ap_passport_id b = ap_passport_id a
     \<and> ap_target_type b = ap_target_type a \<and> ap_target_id b = ap_target_id a
     \<and> ap_target_version b = ap_target_version a \<and> ap_created_at b = ap_created_at a"

definition same_wording :: "approval \<Rightarrow> approval \<Rightarrow> bool" where
  "same_wording a b \<longleftrightarrow> ap_summary b = ap_summary a \<and> ap_evidence b = ap_evidence a"

definition same_payload :: "approval \<Rightarrow> approval \<Rightarrow> bool" where
  "same_payload a b \<longleftrightarrow> ap_proposed_change b = ap_proposed_change a \<and> ap_diff_hash b = ap_diff_hash a"

definition emptied :: "engine_event \<Rightarrow> approval \<Rightarrow> approval \<Rightarrow> bool" where
  "emptied e a b \<longleftrightarrow> (\<exists>js. e = EvErased js) \<and> b = blank_staged_proposal b \<and> ap_diff_hash b = ap_diff_hash a"

lemma emptied_simps [simp]:
  "\<not> emptied EvOutside a b" "\<not> emptied (EvStaged j) a b" "\<not> emptied (EvDecided j v) a b"
  "\<not> emptied (EvRedeemed j) a b" "\<not> emptied (EvWithdrawn j) a b" "\<not> emptied (EvExpired j) a b"
  by (simp_all add: emptied_def)

definition row_step :: "engine_event \<Rightarrow> approval \<Rightarrow> approval \<Rightarrow> bool" where
  "row_step e a b \<longleftrightarrow> same_proposal a b
     \<and> (emptied e a b \<or> (same_wording a b \<and> (same_payload a b \<or> (\<exists>v. e = EvDecided (ap_id a) v))))
     \<and> (row_ok a \<longrightarrow> row_ok b \<and> life_step e (ap_id a) (life a) (life b))"

definition added_by :: "engine_event \<Rightarrow> 'q world \<Rightarrow> approval list \<Rightarrow> bool" where
  "added_by e w rows \<longleftrightarrow> rows = []
     \<or> (\<exists>r. rows = [r] \<and> e = EvStaged (ap_id r) \<and> unused_id (ap_id r) w \<and> life r = Open \<and> row_ok r)"

definition verdict_audited :: "engine_event \<Rightarrow> 'q world \<Rightarrow> bool" where
  "verdict_audited e w \<longleftrightarrow> (\<forall>i v. e = EvDecided i v \<longrightarrow>
     (\<exists>r \<in> set (w_audit w). au_action r = (if v then ''approve'' else ''reject'') \<and> au_entity_id r = i))"

text \<open>The rows an event names.\<close>

fun subjects :: "engine_event \<Rightarrow> uuid list" where
  "subjects EvOutside = []"
| "subjects (EvStaged i) = [i]"
| "subjects (EvDecided i v) = [i]"
| "subjects (EvRedeemed i) = [i]"
| "subjects (EvWithdrawn i) = [i]"
| "subjects (EvExpired i) = [i]"
| "subjects (EvErased js) = js"

definition subject_present :: "engine_event \<Rightarrow> 'q world \<Rightarrow> bool" where
  "subject_present e w \<longleftrightarrow> (\<forall>i \<in> set (subjects e). \<not> unused_id i w)"

definition table_step :: "'q world \<Rightarrow> engine_event \<Rightarrow> 'q world \<Rightarrow> bool" where
  "table_step w e w' \<longleftrightarrow>
     (\<exists>f rows. w_approvals w' = map f (w_approvals w) @ rows
        \<and> (\<forall>a \<in> set (w_approvals w). row_step e a (f a)) \<and> added_by e w rows)
     \<and> logged w w' \<and> verdict_audited e w' \<and> subject_present e w'"

lemmas step_defs = row_step_def same_proposal_def same_payload_def same_wording_def life_def row_ok_def

lemma table_stepI:
  assumes "w_approvals w' = map f (w_approvals w) @ rows"
    "\<And>a. a \<in> set (w_approvals w) \<Longrightarrow> row_step e a (f a)" "added_by e w rows" "logged w w'" "verdict_audited e w'"
    "subject_present e w'"
  shows "table_step w e w'"
  using assms by (auto simp: table_step_def)

lemma added_by_cases:
  assumes "added_by e w rows"
  obtains "rows = []"
    | r where "rows = [r]" "e = EvStaged (ap_id r)" "unused_id (ap_id r) w" "life r = Open" "row_ok r"
  using assms by (auto simp: added_by_def)

lemma added_none [simp]: "added_by e w []"
  by (simp add: added_by_def)

lemma verdict_audited_simps [simp]:
  "verdict_audited EvOutside w" "verdict_audited (EvStaged j) w" "verdict_audited (EvRedeemed j) w"
  "verdict_audited (EvWithdrawn j) w" "verdict_audited (EvExpired j) w" "verdict_audited (EvErased js) w"
  by (simp_all add: verdict_audited_def)

lemma row_step_refl: "life_step e (ap_id a) (life a) (life a) \<Longrightarrow> row_step e a a"
  by (simp add: row_step_def same_proposal_def same_payload_def same_wording_def)

section \<open>The log only grows\<close>

lemma logged_refl [simp]: "logged w w"
  by (simp add: logged_def)

lemma logged_trans [trans]:
  assumes "logged w w'" "logged w' w''"
  shows "logged w w''"
proof -
  obtain xs ys where a: "w_audit w' = w_audit w @ xs" "w_outbox w' = w_outbox w @ ys"
    "\<forall>y \<in> set ys. ob_audit y < length (w_audit w') \<and> deliverable y" using assms(1) unfolding logged_def by blast
  obtain us vs where b: "w_audit w'' = w_audit w' @ us" "w_outbox w'' = w_outbox w' @ vs"
    "\<forall>y \<in> set vs. ob_audit y < length (w_audit w'') \<and> deliverable y" using assms(2) unfolding logged_def by blast
  have "\<forall>y \<in> set (ys @ vs). ob_audit y < length (w_audit w'') \<and> deliverable y" using a(3) b(1,3) by fastforce
  then show ?thesis unfolding logged_def using a(1,2) b(1,2) by (metis append.assoc)
qed

lemma logged_audit [simp]: "logged w (snd (audit p act e ev w'))" if "logged w w'"
  using that by (auto simp: logged_def audit_def intro: less_SucI)

lemma logged_rows [simp]:
  "logged w (update_rows P f w') = logged w w'" "logged w (w'\<lparr>w_approvals := rows\<rparr>) = logged w w'"
  "logged (w\<lparr>w_approvals := rows\<rparr>) w' = logged w w'"
  by (simp_all add: logged_def)

lemma logged_emit: "emit s c p aud e pl w = Inr w' \<Longrightarrow> aud < length (w_audit w) \<Longrightarrow> logged w w'"
  by (auto simp: emit_def logged_def deliverable_def Let_def split: option.splits)

lemma logged_announce: "announce_all s c p aud e ans w = Inr w' \<Longrightarrow> aud < length (w_audit w) \<Longrightarrow> logged w w'"
proof (induction ans arbitrary: w)
  case (Cons an ans)
  then obtain event w1 where em: "emit s c p aud e (Announced event) w = Inr w1"
    and rest: "announce_all s c p aud e ans w1 = Inr w'"
    by (auto split: option.splits prod.splits if_splits)
  have "logged w w1" by (rule logged_emit [OF em Cons.prems(2)])
  also have "logged w1 w'" using Cons.IH [OF rest] Cons.prems(2) emit_frame(2) [OF em] by simp
  finally show ?case .
qed simp

lemma logged_insert: "insert_proposal s c inp i w = Inr (j, w') \<Longrightarrow> logged w w'"
proof -
  assume ins: "insert_proposal s c inp i w = Inr (j, w')"
  then obtain p where p: "ctx_actor c = Some p" by (auto simp: insert_proposal_def split: option.splits)
  define mk where "mk = (\<lambda>ev rows. snd (audit p ''create'' i ev (w\<lparr>w_approvals := rows\<rparr>)))"
  obtain rows ev pl w2 where em: "emit s c p (length (w_audit w)) i pl (mk ev rows) = Inr w2"
    and an: "announce_all s c p (length (w_audit w)) i (in_announce inp) w2 = Inr w'"
    using ins p by (fastforce simp: insert_proposal_def Let_def audit_def mk_def split: prod.splits)
  have len: "length (w_audit w) < length (w_audit (mk ev rows))" by (simp add: mk_def audit_def)
  have "logged w (mk ev rows)" by (simp add: mk_def)
  also have "logged (mk ev rows) w2" by (rule logged_emit [OF em len])
  also have "logged w2 w'" using len emit_frame(2) [OF em] by (intro logged_announce [OF an]) simp
  finally show ?thesis .
qed

lemma logged_rebundle: "rebundle_joined c inp j w = Inr (u, w') \<Longrightarrow> logged w w'"
  by (auto simp: rebundle_joined_def Let_def split: option.splits if_splits)

lemma logged_fold: "logged w (fold (audit_superseded p inp j) olds w') = True" if "logged w w'"
  using that by (induction olds arbitrary: w') (auto simp: audit_superseded_def)

lemma logged_supersede: "supersede_pending c inp j w = Inr (u, w') \<Longrightarrow> logged w w'"
  by (auto simp: supersede_pending_def Let_def logged_fold split: option.splits if_splits)

section \<open>Each operation is a table step\<close>

text \<open>A retired or spent row, and one a staging joined.\<close>

lemma row_step_retire:
  "ap_status a = Pending \<Longrightarrow> life_step e (ap_id a) Open Lapsed \<Longrightarrow> row_step e a (retire now a)"
  by (simp add: step_defs retire_def)

lemma row_step_rebundle:
  "life_step e (ap_id a) (life a) (life a) \<Longrightarrow> row_step e a (a\<lparr>ap_bundle_id := b\<rparr>)"
  by (cases "ap_status a") (simp_all add: step_defs)

lemma row_step_expire:
  "ap_status a = Pending \<Longrightarrow> row_step (EvExpired (ap_id a)) a (expire_row now a)"
  by (simp add: step_defs expire_row_def life_step.expired)

lemma row_step_consume:
  "ap_status a = Approved \<Longrightarrow> ap_consumed_at a = None \<Longrightarrow>
     row_step (EvRedeemed (ap_id a)) a (a\<lparr>ap_consumed_at := Some now\<rparr>)"
  by (simp add: step_defs life_step.spent)

lemma row_step_settle:
  "ap_status a = Pending \<Longrightarrow>
     row_step (EvDecided (ap_id a) v) a (settle v u now reason (apply_edit ed a))"
  by (cases v; cases ed)
    (auto simp: step_defs settle_def apply_edit_def verdict_def life_step.granted life_step.refused)

lemma unused_update:
  assumes "w_approvals w' = update_where q f (w_approvals w)"
    and "\<And>a. a \<in> set (w_approvals w) \<Longrightarrow> q a \<Longrightarrow> ap_id (f a) = ap_id a"
  shows "unused_id i w' = unused_id i w"
proof -
  have "ap_id ` set (w_approvals w') = ap_id ` set (w_approvals w)"
    unfolding assms(1) set_update_where image_image by (rule image_cong) (auto simp: assms(2))
  then show ?thesis by (simp add: unused_id_def)
qed

text \<open>An event leaves every other row alone; so an update of one row is a step of the table.\<close>

lemma other_row:
  "e \<in> {EvDecided j v, EvRedeemed j, EvWithdrawn j, EvExpired j, EvStaged j} \<Longrightarrow> ap_id a \<noteq> j \<Longrightarrow> row_step e a a"
  by (rule row_step_refl) (auto intro: life_step.intros)

lemma one_row_step:
  assumes "w_approvals w' = update_where q f (w_approvals w)" "logged w w'" "verdict_audited e w'" "\<not> unused_id j w"
    and "e \<in> {EvDecided j v, EvRedeemed j, EvWithdrawn j, EvExpired j}"
    and "\<And>a. q a \<Longrightarrow> ap_id a = j"
    and "\<And>a. a \<in> set (w_approvals w) \<Longrightarrow> ap_id a = j \<Longrightarrow> q a \<and> row_step e a (f a)"
  shows "table_step w e w'"
proof (rule table_stepI [where f = "\<lambda>r. if q r then f r else r" and rows = "[]"])
  show "w_approvals w' = map (\<lambda>r. if q r then f r else r) (w_approvals w) @ []"
    using assms(1) by (simp add: update_where_def)
  fix a assume a: "a \<in> set (w_approvals w)"
  show "row_step e a (if q a then f a else a)"
  proof (cases "ap_id a = j")
    case True
    then show ?thesis using assms(7) a by simp
  next
    case False
    then show ?thesis using assms(5,6) other_row [of e j v a] by auto
  qed
next
  have "unused_id j w' = unused_id j w"
    by (rule unused_update [OF assms(1)]) (use assms(6,7) in \<open>auto simp: row_step_def same_proposal_def\<close>)
  then have "\<not> unused_id j w'" using assms(4) by simp
  then show "subject_present e w'" using assms(5) by (auto simp: subject_present_def)
qed (use assms(2,3) in simp_all)

lemma the_only_row:
  "consistent w \<Longrightarrow> get_row i w = Inr a \<Longrightarrow> b \<in> set (w_approvals w) \<Longrightarrow> ap_id b = i \<Longrightarrow> b = a"
  using find_distinct_key [of ap_id "w_approvals w" b]
  by (auto simp: consistent_def get_row_def split: option.splits)

lemma same_id: "consistent w \<Longrightarrow> a \<in> set (w_approvals w) \<Longrightarrow> b \<in> set (w_approvals w) \<Longrightarrow> ap_id a = ap_id b \<Longrightarrow> a = b"
  by (auto simp: consistent_def distinct_map dest: inj_onD)

lemma present: "get_row i w = Inr a \<Longrightarrow> \<not> unused_id i w"
  by (auto simp: unused_id_def dest!: get_row_Inr)

lemma effective_PendingD: "effective_status a now = Pending \<Longrightarrow> ap_status a = Pending"
  by (auto simp: effective_status_def split: if_splits)

lemma logged_decide: "decide_in_tx s c p i v reason edited w = Inr (b, w') \<Longrightarrow> logged w w'"
proof -
  assume d: "decide_in_tx s c p i v reason edited w = Inr (b, w')"
  obtain a where a: "get_decidable c p i w = Inr a" using d by (auto simp: decide_in_tx_def)
  define mk where "mk = (\<lambda>act ev f. snd (audit p act i ev (update_rows (\<lambda>r. ap_id r = i) f w)))"
  obtain act ev f pl w3 where em: "emit s c p (length (w_audit w)) i pl (mk act ev f) = Inr w3"
    and ek: "emit_kind_decided s c p (length (w_audit w)) i (ap_kind a) v w3 = Inr w'"
    using d a by (fastforce simp: decide_in_tx_def Let_def audit_def mk_def split: if_splits prod.splits)
  let ?w2 = "mk act ev f"
  have len: "length (w_audit w) < length (w_audit ?w2)" by (simp add: mk_def audit_def)
  have "logged w ?w2" by (simp add: mk_def)
  also have "logged ?w2 w3" by (rule logged_emit [OF em len])
  also have "logged w3 w'"
    using ek len emit_frame(2) [OF em] logged_emit [of s c p "length (w_audit w)" i _ w3 w']
    by (auto simp: emit_kind_decided_def split: if_splits)
  finally show ?thesis .
qed

lemma decide_table_step:
  assumes "decide_in_tx s c p i v reason edited w = Inr (b, w')" "consistent w"
  shows "table_step w (EvDecided i v) w'"
proof (cases rule: decide_in_tx_effect [OF assms(1)])
  case (1 a ed aud obs)
  show ?thesis
  proof (rule one_row_step [OF 1(8) logged_decide [OF assms(1)]])
    show "\<not> unused_id i w" by (rule present [OF 1(1)])
    show "verdict_audited (EvDecided i v) w'"
      using 1(9-11) by (auto simp: verdict_audited_def)
    fix x assume "x \<in> set (w_approvals w)" "ap_id x = i"
    moreover from this have "x = a" using the_only_row [OF assms(2) 1(1)] by blast
    ultimately show "ap_id x = i \<and> row_step (EvDecided i v) x (settle v (p_user_id p) (w_now w) reason (apply_edit ed x))"
      using row_step_settle [of a v] effective_PendingD [OF 1(4)] by simp
  qed simp_all
qed

lemma redeem_table_step:
  assumes "redeem_in_tx s c i tool h w = Inr (n, w')" "consistent w"
  shows "table_step w (EvRedeemed i) w'"
proof -
  obtain p a where r: "get_row i w = Inr a" "validate_redemption a p tool h (svc_now s) = Inr ()"
    "w' = snd (audit p ''update'' i [(''kind'', JStr (ap_kind a)), (''redeemed'', JBool True)]
            (update_rows (consumable i) (\<lambda>a. a\<lparr>ap_consumed_at := Some (w_now w)\<rparr>) w))"
    using assms(1) unfolding redeem_in_tx_iff by blast
  then have st: "ap_status a = Approved" "ap_consumed_at a = None"
    by (auto simp: validate_redemption_iff)
  show ?thesis
  proof (rule one_row_step [of w' "consumable i" "\<lambda>a. a\<lparr>ap_consumed_at := Some (w_now w)\<rparr>" w _ i])
    fix x assume x: "x \<in> set (w_approvals w)" "ap_id x = i"
    moreover from this have "x = a" using the_only_row [OF assms(2) r(1)] by blast
    ultimately show "consumable i x \<and> row_step (EvRedeemed i) x (x\<lparr>ap_consumed_at := Some (w_now w)\<rparr>)"
      using st row_step_consume [of a] by (simp add: consumable_def)
  qed (use present [OF r(1)] in \<open>simp_all add: r(3) consumable_def\<close>)
qed

lemma withdraw_table_step:
  assumes "withdraw_in_tx c i reason w = Inr (True, w')" "consistent w"
  shows "table_step w (EvWithdrawn i) w'"
proof -
  let ?open = "\<lambda>a. ap_id a = i \<and> ap_status a = Pending"
  obtain p where p: "list_ex ?open (w_approvals w)"
    "w' = snd (audit p ''update'' i [(''withdrawn'', JBool True), (''reason'', JStr reason)]
        (update_rows ?open (retire (w_now w)) w))"
    using assms(1) by (auto simp: withdraw_in_tx_def Let_def split: option.splits if_splits)
  show ?thesis
  proof (rule one_row_step [of w' ?open "retire (w_now w)" w _ i])
    fix x assume x: "x \<in> set (w_approvals w)" "ap_id x = i"
    obtain y where y: "y \<in> set (w_approvals w)" "ap_id y = i" "ap_status y = Pending"
      using p(1) by (auto simp: list_ex_iff)
    have "x = y" using same_id [OF assms(2) x(1) y(1)] x(2) y(2) by simp
    then show "?open x \<and> row_step (EvWithdrawn i) x (retire (w_now w) x)"
      using y row_step_retire [of x "EvWithdrawn i"] life_step.withdrawn by simp
  qed (use p(1) in \<open>auto simp: p(2) unused_id_def list_ex_iff\<close>)
qed

lemma expire_table_step:
  assumes "expire_one s c i w = Inr (True, w')" "expiries_outside s" "consistent w"
  shows "table_step w (EvExpired i) w'"
proof -
  obtain a w1 where e: "get_row i w = Inr a" "ap_status a = Pending" "expiry_written c i a w w1"
    "run_expiry s i a w1 = Inr w'" using assms(1) by (rule expire_one_True)
  have out: "w_approvals w' = w_approvals w1" "logged w1 w'"
    using e(4) assms(2) by (auto simp: run_expiry_def expiries_outside_def outside_def split: option.splits)
  have "logged w w1" using e(3) by (auto simp: expiry_written_def logged_def)
  then have log: "logged w w'" using out(2) logged_trans by blast
  have rows: "w_approvals w' = update_where (\<lambda>r. ap_id r = i) (expire_row (w_now w)) (w_approvals w)"
    using out(1) e(3) by (simp add: expiry_written_def)
  show ?thesis
  proof (rule one_row_step [OF rows log])
    fix x assume "x \<in> set (w_approvals w)" "ap_id x = i"
    moreover from this have "x = a" using the_only_row [OF assms(3) e(1)] by blast
    ultimately show "ap_id x = i \<and> row_step (EvExpired i) x (expire_row (w_now w) x)"
      using row_step_expire [of a] e(2) by simp
  qed (use present [OF e(1)] in simp_all)
qed

lemma insert_table_step:
  assumes "insert_proposal s c inp i w = Inr (j, w')" "unused_id i w"
  shows "table_step w (EvStaged j) w'"
proof (cases rule: insert_proposal_effect [OF assms(1)])
  case (1 p pin ev aud ob xs)
  let ?r = "new_row s p inp pin ev i (w_now w)"
  show ?thesis
  proof (rule table_stepI [where f = id and rows = "[?r]"])
    show "w_approvals w' = map id (w_approvals w) @ [?r]" using 1(5) by simp
    show "row_step (EvStaged j) a (id a)" if "a \<in> set (w_approvals w)" for a
      using that assms(2) 1(1) by (auto simp: unused_id_def intro!: other_row [of _ j])
    show "added_by (EvStaged j) w [?r]"
      using assms(2) 1(1) by (simp add: added_by_def life_def row_ok_def)
    show "subject_present (EvStaged j) w'" using 1(1,5) by (simp add: subject_present_def unused_id_def)
  qed (use logged_insert [OF assms(1)] in simp_all)
qed

lemma join_table_step:
  assumes "(case joinable w inp of
       Some a \<Rightarrow> bindR (rebundle_joined c inp (ap_id a) w) (\<lambda>(_, w'). Inr (ap_id a, w'))
     | None \<Rightarrow> insert_proposal s c inp i w) = Inr (j, w')" "unused_id i w" "consistent w"
  shows "table_step w (EvStaged j) w'"
proof (cases "joinable w inp")
  case None
  then show ?thesis using assms(1,2) by (simp add: insert_table_step)
next
  case (Some a)
  then have "bindR (rebundle_joined c inp (ap_id a) w) (\<lambda>(_, w'). Inr (ap_id a, w')) = Inr (j, w')"
    using assms(1) by (simp only: option.case)
  then obtain u where u: "rebundle_joined c inp (ap_id a) w = Inr (u, w')" and j: "j = ap_id a"
    by (cases "rebundle_joined c inp (ap_id a) w") (auto split: prod.splits)
  note jf = joinable_facts [OF Some]
  let ?f = "\<lambda>a. a\<lparr>ap_bundle_id := Some (in_bundle_id inp)\<rparr>"
  show ?thesis
  proof (rule rebundle_effect [OF u])
    fix q assume q: "w_approvals w' = update_where q ?f (w_approvals w)" "\<And>x. q x \<Longrightarrow> ap_id x = ap_id a"
    show ?thesis
    proof (rule table_stepI [where f = "\<lambda>r. if q r then ?f r else r" and rows = "[]"])
      fix x assume x: "x \<in> set (w_approvals w)"
      show "row_step (EvStaged j) x (if q x then ?f x else x)"
      proof (cases "ap_id x = j")
        case True
        then have "x = a" using same_id [OF assms(3) x jf(1)] j by simp
        then have "life_step (EvStaged j) (ap_id x) (life x) (life x)"
          using jf(4) by (simp add: live_pending_def life_def j life_step.joined)
        then show ?thesis using row_step_rebundle row_step_refl by simp
      next
        case False
        then show ?thesis using q(2) [of x] j by (auto intro!: other_row [of _ j])
      qed
    next
      show "subject_present (EvStaged j) w'"
        using jf(1) unused_update [OF q(1), of j] by (auto simp: subject_present_def j unused_id_def)
    qed (use q logged_rebundle [OF u] in \<open>simp_all add: update_where_def\<close>)
  qed
qed

text \<open>Retiring the stale rows after a staging is part of the same step.\<close>

lemma row_step_then_retire:
  assumes "row_step (EvStaged j) a b" "ap_status b = Pending" "ap_id b \<noteq> j"
  shows "row_step (EvStaged j) a (retire now b)"
proof -
  have "life_step (EvStaged j) (ap_id a) (life a) Open \<Longrightarrow> life_step (EvStaged j) (ap_id a) (life a) Lapsed"
    using assms(1,3) by (auto simp: life_step_simps row_step_def same_proposal_def)
  then show ?thesis using assms(1,2) by (simp add: step_defs retire_def)
qed

lemma supersede_table_step:
  assumes "table_step w (EvStaged j) w1" "supersede_pending c inp j w1 = Inr (u, w')"
  shows "table_step w (EvStaged j) w'"
proof -
  let ?g = "\<lambda>r. if superseded_by w1 inp j r then retire (w_now w1) r else r"
  obtain f rows where f: "w_approvals w1 = map f (w_approvals w) @ rows"
    "\<forall>a \<in> set (w_approvals w). row_step (EvStaged j) a (f a)" "added_by (EvStaged j) w rows"
    and log: "logged w w1" "subject_present (EvStaged j) w1" using assms(1) by (auto simp: table_step_def)
  note eff = supersede_effect [OF assms(2)]
  have "map ?g rows = rows"
    using f(3) by (auto simp: added_by_def superseded_by_def)
  then have rows: "w_approvals w' = map (\<lambda>a. ?g (f a)) (w_approvals w) @ rows"
    by (simp add: eff(1) update_where_def f(1))
  show ?thesis
  proof (rule table_stepI [OF rows _ f(3)])
    fix a assume "a \<in> set (w_approvals w)"
    then have "row_step (EvStaged j) a (f a)" using f(2) by blast
    then show "row_step (EvStaged j) a (?g (f a))"
      using row_step_then_retire by (simp add: superseded_by_def live_pending_def)
  next
    show "subject_present (EvStaged j) w'"
      using log(2) unused_update [OF eff(1), of j] by (simp add: subject_present_def)
  qed (use logged_trans [OF log(1) logged_supersede [OF assms(2)]] in simp_all)
qed

lemma stage_or_join_table_step:
  assumes "stage_or_join_pending s c inp i w = Inr (j, w')" "unused_id i w" "consistent w"
  shows "table_step w (EvStaged j) w'"
proof (rule stage_or_join_steps [OF assms(1)])
  fix w1 assume step: "(case joinable w inp of
       Some a \<Rightarrow> bindR (rebundle_joined c inp (ap_id a) w) (\<lambda>(_, w'). Inr (ap_id a, w'))
     | None \<Rightarrow> insert_proposal s c inp i w) = Inr (j, w1)"
    and w': "in_identity inp = None \<Longrightarrow> w' = w1"
    "in_identity inp \<noteq> None \<Longrightarrow> \<exists>u. supersede_pending c inp j w1 = Inr (u, w')"
  show ?thesis
    using join_table_step [OF step assms(2,3)] w' supersede_table_step by (cases "in_identity inp = None") blast+
qed

lemma stage_table_step:
  assumes "stage s c inp i w = (Inr j, w')" "unused_id i w" "consistent w"
  shows "table_step w (EvStaged j) w'"
  using assms
  by (auto elim!: stage_commits simp: stage_body_def split: if_splits
      intro: insert_table_step stage_or_join_table_step)

lemma agent_table_step:
  assumes "stage_agent_call s c inp i w = (Inr (j, False), w')" "unused_id i w" "consistent w"
  shows "table_step w (EvStaged j) w'"
proof -
  obtain p where p: "ctx_actor c = Some p" using assms(1) by (auto simp: stage_agent_call_def split: if_splits option.splits)
  have "distinct (map ap_id (w_approvals w))" using assms(3) by (simp add: consistent_def)
  then consider (old) a where "w' = w" "a \<in> set (w_approvals w)" "ap_id a = j" "live_pending w a"
    | (fresh) "insert_proposal s c inp i w = Inr (j, w')"
    using agent_call_reuses_live_authority_facts(3) [OF assms(1) _ p] by blast
  then show ?thesis
  proof cases
    case old
    show ?thesis
    proof (rule table_stepI [where f = id and rows = "[]"])
      fix x assume x: "x \<in> set (w_approvals w)"
      show "row_step (EvStaged j) x (id x)"
      proof (cases "ap_id x = j")
        case True
        then have "x = a" using same_id [OF assms(3) x old(2)] old(3) by simp
        then show ?thesis
          using old(3,4) by (auto simp: live_pending_def life_def life_step.joined intro!: row_step_refl)
      qed (auto intro!: other_row [of _ j])
    qed (use old in \<open>auto simp: subject_present_def unused_id_def\<close>)
  next
    case fresh
    then show ?thesis using insert_table_step assms(2) by blast
  qed
qed

text \<open>
  A scrub withdraws the open rows it reaches and empties the rest; the event names the withdrawn ones.
\<close>

lemma row_step_scrubbed:
  assumes "ap_id a \<in> set js \<longleftrightarrow> ap_status a = Pending"
  shows "row_step (EvErased js) a (scrubbed now r a)"
proof -
  have "life_step (EvErased js) (ap_id a) (life a) (life (scrubbed now r a))"
  proof (cases "ap_status a = Pending")
    case True
    then show ?thesis using assms life_step.erased [of "ap_id a" js] by (simp add: life_def scrubbed_def)
  next
    case False
    then have "life (scrubbed now r a) = life a"
      by (simp add: life_def scrubbed_def blank_staged_proposal_def cong: if_cong split: status.split)
    then show ?thesis using assms False life_step.not_erased [of "ap_id a" js] by simp
  qed
  moreover have "row_ok a \<Longrightarrow> row_ok (scrubbed now r a)"
    by (cases "ap_status a") (simp_all add: row_ok_def scrubbed_def withdraw_blanked_def blank_staged_proposal_def)
  moreover have "same_proposal a (scrubbed now r a)" "ap_diff_hash (scrubbed now r a) = ap_diff_hash a"
    by (simp_all add: same_proposal_def scrubbed_def withdraw_blanked_def blank_staged_proposal_def)
  ultimately show ?thesis by (simp add: row_step_def emptied_def scrubbed_blank)
qed

lemma scrub_table_step:
  assumes "w' = w\<lparr>w_approvals := update_where hit (scrubbed now r) (w_approvals w)\<rparr>" "consistent w"
  shows "table_step w (EvErased (withdrawn_by hit w)) w'"
proof (rule table_stepI [where f = "\<lambda>a. if hit a then scrubbed now r a else a" and rows = "[]"])
  let ?js = "withdrawn_by hit w"
  fix a assume a: "a \<in> set (w_approvals w)"
  have named: "ap_id a \<in> set ?js \<longleftrightarrow> ap_status a = Pending \<and> hit a"
    using a same_id [OF assms(2) a] by (auto simp: withdrawn_by_def)
  show "row_step (EvErased ?js) a (if hit a then scrubbed now r a else a)"
  proof (cases "hit a")
    case True
    then show ?thesis using named row_step_scrubbed [of a ?js now r] by simp
  next
    case False
    then show ?thesis using named by (auto intro!: row_step_refl life_step.not_erased)
  qed
next
  have "unused_id j w' = unused_id j w" for j
    by (rule unused_update [of w' hit "scrubbed now r" w]) (simp_all add: assms(1))
  then show "subject_present (EvErased (withdrawn_by hit w)) w'"
    by (auto simp: subject_present_def unused_id_def withdrawn_by_def)
qed (simp_all add: assms(1) update_where_def)

text \<open>Every step of the engine is a step of the table.\<close>

lemma engine_table_step:
  assumes "engine_step w e w'" "consistent w"
  shows "table_step w e w'"
  using assms(1)
proof cases
  case outside
  show ?thesis
    by (rule table_stepI [where f = id and rows = "[]"])
      (use outside in \<open>auto simp: outside_def life_step.outside subject_present_def intro!: row_step_refl\<close>)
next
  case (stage_in_tx s c inp i j)
  then show ?thesis by (auto simp: stage_in_tx_def split: if_splits intro: insert_table_step)
next
  case (join_in_tx s c inp i j)
  then show ?thesis using assms(2) by (auto simp: stage_or_join_pending_in_tx_def intro: stage_or_join_table_step)
next
  case (stage s c inp i j)
  then show ?thesis using stage_table_step [OF _ _ assms(2)] by simp
next
  case (stage_agent_call s c inp i j)
  then show ?thesis using agent_table_step [OF _ _ assms(2)] by simp
next
  case (decide s c p i v reason edited b)
  then show ?thesis using decide_table_step [OF _ assms(2)] by simp
next
  case (redeem s c i tool h n)
  then show ?thesis using redeem_table_step [OF _ assms(2)] by simp
next
  case (withdraw c i reason)
  then show ?thesis using withdraw_table_step [OF _ assms(2)] by simp
next
  case (expire s c i)
  then show ?thesis using expire_table_step [OF _ _ assms(2)] by simp
next
  case (erase_subject d jsonb_text subj leads emails)
  then show ?thesis using scrub_table_step [OF redact_staged_rows, of d] assms(2) by simp
next
  case (erase_cited activities reason)
  then show ?thesis using scrub_table_step [OF redact_citing_rows assms(2)] by simp
qed

section \<open>The invariant holds in every run\<close>

lemma answer_audited_mono: "answer_audited w a \<Longrightarrow> logged w w' \<Longrightarrow> answer_audited w' a"
  by (auto simp: answer_audited_def logged_def)

lemma row_step_answer:
  assumes "row_step e a b" "row_ok a" "answer_audited w a" "logged w w'" "verdict_audited e w'"
  shows "answer_audited w' b"
proof -
  have ls: "life_step e (ap_id a) (life a) (life b)" and id: "ap_id b = ap_id a"
    using assms(1,2) by (auto simp: row_step_def same_proposal_def)
  have old: "answer_audited w' a" by (rule answer_audited_mono [OF assms(3,4)])
  have lives: "ap_status x = Approved \<longleftrightarrow> life x \<in> {Granted, Spent}" "ap_status x = Rejected \<longleftrightarrow> life x = Refused"
    for x by (cases "ap_status x"; simp add: life_def)+
  show ?thesis
    using ls old assms(5) unfolding answer_audited_def lives id
    by (cases rule: life_step.cases) (auto simp: verdict_audited_def)
qed

lemma table_step_consistent:
  assumes "table_step w e w'" "consistent w"
  shows "consistent w'"
proof -
  obtain f rows where f: "w_approvals w' = map f (w_approvals w) @ rows"
    "\<forall>a \<in> set (w_approvals w). row_step e a (f a)" "added_by e w rows"
    and log: "logged w w'" "verdict_audited e w'" using assms(1) by (auto simp: table_step_def)
  have ids: "map ap_id (map f (w_approvals w)) = map ap_id (w_approvals w)"
    using f(2) by (auto simp: row_step_def same_proposal_def)
  have "distinct (map ap_id (w_approvals w'))"
    unfolding f(1) map_append ids using f(3) assms(2)
    by (elim added_by_cases) (simp_all add: consistent_def unused_id_def)
  moreover have "row_ok b \<and> answer_audited w' b" if b: "b \<in> set (w_approvals w')" for b
  proof -
    consider a where "a \<in> set (w_approvals w)" "b = f a" | "b \<in> set rows" using b f(1) by auto
    then show ?thesis
    proof cases
      case 1
      then have "row_step e a b" "row_ok a" "answer_audited w a" using f(2) assms(2) by (auto simp: consistent_def)
      then show ?thesis using row_step_answer [OF _ _ _ log] by (simp add: row_step_def)
    next
      case 2
      then have "row_ok b" "life b = Open" using f(3) by (auto simp: added_by_def)
      then show ?thesis by (auto simp: answer_audited_def life_def split: if_splits)
    qed
  qed
  moreover have "\<forall>ob \<in> set (w_outbox w'). ob_audit ob < length (w_audit w') \<and> deliverable ob"
    using log(1) assms(2) by (fastforce simp: logged_def consistent_def)
  ultimately show ?thesis by (simp add: consistent_def)
qed

interpretation engine: invariant_machine engine_step consistent
  by unfold_locales (rule table_step_consistent [OF engine_table_step])

lemma run_consistent: "engine_run w es w' \<Longrightarrow> consistent w \<Longrightarrow> consistent w'"
  unfolding engine_run_def by (rule engine.run_inv)

section \<open>Refinement of the life of a row\<close>

lemma get_row_mem: "consistent w \<Longrightarrow> a \<in> set (w_approvals w) \<Longrightarrow> get_row (ap_id a) w = Inr a"
  using find_distinct_key [of ap_id "w_approvals w" a] by (simp add: get_row_def consistent_def)

lemma get_row_Inl: "get_row i w = Inl e \<longleftrightarrow> e = App ErrNotFound \<and> unused_id i w"
  by (auto simp: get_row_def unused_id_def find_None_iff split: option.splits dest!: find_SomeD)

lemma life_of_absent: "unused_id i w \<Longrightarrow> life_of i w = Unborn"
  using get_row_Inl [of i w "App ErrNotFound"] by (simp add: life_of_def)

text \<open>A row that was there is still there, one step on.\<close>

lemma table_step_row:
  assumes "table_step w e w'" "consistent w" "get_row i w = Inr a"
  shows "\<exists>b. get_row i w' = Inr b \<and> row_step e a b"
proof -
  obtain f rows where f: "w_approvals w' = map f (w_approvals w) @ rows"
    "\<forall>a \<in> set (w_approvals w). row_step e a (f a)" using assms(1) by (auto simp: table_step_def)
  have a: "a \<in> set (w_approvals w)" "ap_id a = i" using get_row_Inr [OF assms(3)] by auto
  then have "f a \<in> set (w_approvals w')" "row_step e a (f a)" using f by auto
  then show ?thesis
    using get_row_mem [OF table_step_consistent [OF assms(1,2)], of "f a"] a(2)
    by (auto simp: row_step_def same_proposal_def)
qed

lemma table_step_absent:
  assumes "table_step w e w'" "consistent w" "unused_id i w"
  shows "unused_id i w' \<or> (e = EvStaged i \<and> life_of i w' = Open)"
proof -
  obtain f rows where f: "w_approvals w' = map f (w_approvals w) @ rows"
    "\<forall>a \<in> set (w_approvals w). row_step e a (f a)" "added_by e w rows" using assms(1) by (auto simp: table_step_def)
  have old: "ap_id (f a) \<noteq> i" if "a \<in> set (w_approvals w)" for a
    using that f(2) assms(3) by (auto simp: row_step_def same_proposal_def unused_id_def)
  show ?thesis
  proof (cases "\<exists>r \<in> set rows. ap_id r = i")
    case True
    then obtain r where r: "rows = [r]" "ap_id r = i" "e = EvStaged i" "life r = Open"
      using f(3) by (auto simp: added_by_def)
    then have "get_row i w' = Inr r"
      using get_row_mem [OF table_step_consistent [OF assms(1,2)], of r] f(1) by simp
    then show ?thesis using r by (simp add: life_of_def)
  next
    case False
    then show ?thesis using old f(1) by (auto simp: unused_id_def)
  qed
qed

lemma life_of_refines:
  assumes "table_step w e w'" "consistent w"
  shows "life_step e i (life_of i w) (life_of i w')"
proof (cases "get_row i w")
  case (Inr a)
  then obtain b where b: "get_row i w' = Inr b" "row_step e a b" using table_step_row [OF assms] by blast
  have "a \<in> set (w_approvals w)" "ap_id a = i" using get_row_Inr [OF Inr] by auto
  then show ?thesis using b Inr assms(2) by (simp add: life_of_def row_step_def consistent_def)
next
  case (Inl err)
  then have un: "unused_id i w" by (simp add: get_row_Inl)
  note absent = un life_of_absent [OF un]
  from table_step_absent [OF assms absent(1)] show ?thesis
  proof
    assume un: "unused_id i w'"
    note same = life_of_absent [OF un]
    have "i \<notin> set (subjects e)" using assms(1) un by (auto simp: table_step_def subject_present_def)
    then show ?thesis unfolding absent(2) same by (cases e) (auto intro: life_step.intros)
  next
    assume "e = EvStaged i \<and> life_of i w' = Open"
    then show ?thesis using absent(2) life_step.born by simp
  qed
qed

section \<open>Histories\<close>

text \<open>The events that answer a row, in the order of a run.\<close>

fun answers :: "uuid \<Rightarrow> engine_event \<Rightarrow> bool" where
  "answers i (EvDecided j v) \<longleftrightarrow> j = i"
| "answers i (EvRedeemed j) \<longleftrightarrow> j = i"
| "answers i (EvWithdrawn j) \<longleftrightarrow> j = i"
| "answers i (EvExpired j) \<longleftrightarrow> j = i"
| "answers i (EvErased js) \<longleftrightarrow> i \<in> set js"
| "answers i EvOutside \<longleftrightarrow> False"
| "answers i (EvStaged j) \<longleftrightarrow> False"

definition history :: "uuid \<Rightarrow> engine_event list \<Rightarrow> engine_event list" where
  "history i es = filter (answers i) es"

text \<open>The histories a life allows, for a row the run began without.\<close>

fun histories :: "uuid \<Rightarrow> life \<Rightarrow> engine_event list set" where
  "histories i Unborn = {[]}"
| "histories i Open = {[]}"
| "histories i Granted = {[EvDecided i True]}"
| "histories i Spent = {[EvDecided i True, EvRedeemed i]}"
| "histories i Refused = {[EvDecided i False]}"
| "histories i Lapsed = {[], [EvWithdrawn i], [EvExpired i]} \<union> {[EvErased js] | js. i \<in> set js}"

lemma history_step:
  assumes "life_step e i l l'" "h \<in> histories i l"
  shows "h @ filter (answers i) [e] \<in> histories i l'"
  using assms by (cases rule: life_step.cases) auto

interpretation row: viewed_machine engine_step consistent "life_of i" "\<lambda>e. life_step e i" for i
  by unfold_locales (rule life_of_refines [OF engine_table_step])

lemma run_history:
  assumes "engine_run w es w'" "consistent w" "unused_id i w"
  shows "history i es \<in> histories i (life_of i w')"
  unfolding history_def
  by (rule row.view_history [OF assms(1) [unfolded engine_run_def] assms(2) _ history_step])
    (simp_all add: life_of_absent [OF assms(3)])

text \<open>So the stored row tells a decision and a redemption in the run from their absence.\<close>

lemma history_iff:
  "EvDecided i v \<in> set es \<longleftrightarrow> EvDecided i v \<in> set (history i es)"
  "EvRedeemed i \<in> set es \<longleftrightarrow> EvRedeemed i \<in> set (history i es)"
  by (simp_all only: history_def set_filter mem_Collect_eq answers.simps simp_thms)

lemma lapsed_history: "h \<in> histories i Lapsed \<Longrightarrow> EvDecided i v \<notin> set h \<and> EvRedeemed i \<notin> set h"
  by auto

lemma stored_row_agrees:
  assumes "engine_run w es w'" "consistent w" "unused_id i w" "get_row i w' = Inr a"
  shows "(ap_status a = Approved \<longleftrightarrow> EvDecided i True \<in> set es)
     \<and> (ap_status a = Rejected \<longleftrightarrow> EvDecided i False \<in> set es)
     \<and> (ap_consumed_at a \<noteq> None \<longleftrightarrow> EvRedeemed i \<in> set es) \<and> (ap_status a = Pending \<longrightarrow> history i es = [])"
proof -
  have "life_of i w' = life a" by (simp add: life_of_def assms(4))
  then have h: "history i es \<in> histories i (life a)" using run_history [OF assms(1-3)] by simp
  have "row_ok a" using get_row_Inr [OF assms(4)] run_consistent [OF assms(1,2)] by (simp add: consistent_def)
  then consider "ap_status a = Pending" "ap_consumed_at a = None" "history i es = []"
    | "ap_status a = Approved" "ap_consumed_at a = None" "history i es = [EvDecided i True]"
    | "ap_status a = Approved" "ap_consumed_at a \<noteq> None" "history i es = [EvDecided i True, EvRedeemed i]"
    | "ap_status a = Rejected" "ap_consumed_at a = None" "history i es = [EvDecided i False]"
    | "ap_status a = Expired" "ap_consumed_at a = None" "history i es \<in> histories i Lapsed"
    using h by (cases "ap_status a"; cases "ap_consumed_at a") (simp_all add: life_def row_ok_def)
  then show ?thesis by cases (auto simp: history_iff [where es = es] simp del: histories.simps dest: lapsed_history)
qed

text \<open>A life never goes back.\<close>

lemma life_step_advances: "life_step e i l l' \<Longrightarrow> l \<le> l'"
  by (auto simp: less_eq_life_def elim: life_step.cases)

lemma run_advances: "engine_run w es w' \<Longrightarrow> consistent w \<Longrightarrow> life_of i w \<le> life_of i w'"
  unfolding engine_run_def
  by (erule engine.run_keeps) (auto intro: life_step_advances row.view_move order_trans)

text \<open>What a run keeps of a row that was there when it began.\<close>

definition carried_over :: "engine_event list \<Rightarrow> approval \<Rightarrow> approval \<Rightarrow> bool" where
  "carried_over es a b \<longleftrightarrow> same_proposal a b
     \<and> (same_payload a b \<or> (\<exists>v. EvDecided (ap_id a) v \<in> set es) \<or> (\<exists>js. EvErased js \<in> set es))
     \<and> (same_wording a b \<or> (\<exists>js. EvErased js \<in> set es))
     \<and> (life a \<in> {Spent, Refused, Lapsed} \<longrightarrow> life b = life a)"

lemma terminal_life: "life_step e i l l' \<Longrightarrow> l \<in> {Spent, Refused, Lapsed} \<Longrightarrow> l' = l"
  by (auto elim: life_step.cases)

lemma same_proposal_trans: "same_proposal a b \<Longrightarrow> same_proposal b c \<Longrightarrow> same_proposal a c"
  by (simp add: same_proposal_def)

lemma same_payload_trans: "same_payload a b \<Longrightarrow> same_payload b c \<Longrightarrow> same_payload a c"
  by (simp add: same_payload_def)

lemma carried_step:
  assumes "carried_over es a b" "row_step e b c" "row_ok b"
  shows "carried_over (es @ [e]) a c"
proof -
  have "life_step e (ap_id b) (life b) (life c)" using assms(2,3) by (simp add: row_step_def)
  then have "life a \<in> {Spent, Refused, Lapsed} \<longrightarrow> life c = life a"
    using terminal_life assms(1) unfolding carried_over_def by metis
  moreover have "ap_id b = ap_id a" using assms(1) by (simp add: carried_over_def same_proposal_def)
  then have "same_payload a c \<or> (\<exists>v. EvDecided (ap_id a) v \<in> set (es @ [e])) \<or> (\<exists>js. EvErased js \<in> set (es @ [e]))"
    using assms(1,2) same_payload_trans [of a b c] unfolding carried_over_def row_step_def emptied_def by auto
  moreover have "same_wording a c \<or> (\<exists>js. EvErased js \<in> set (es @ [e]))"
    using assms(1,2) unfolding carried_over_def row_step_def emptied_def same_wording_def by auto
  moreover have "same_proposal a c"
    using assms(1,2) same_proposal_trans [of a b c] by (simp add: carried_over_def row_step_def)
  ultimately show ?thesis by (simp add: carried_over_def)
qed

lemma run_carries:
  assumes "engine_run w es w'" "consistent w" "get_row i w = Inr a"
  shows "\<exists>b. get_row i w' = Inr b \<and> carried_over es a b"
  using assms unfolding engine_run_def
proof (induction rule: run_of.induct)
  case (start w)
  then show ?case by (auto simp: carried_over_def same_proposal_def same_payload_def same_wording_def)
next
  case (step w es w1 e w2)
  have con: "consistent w1" by (rule engine.run_inv [OF step.hyps(1) step.prems(1)])
  obtain b where b: "get_row i w1 = Inr b" "carried_over es a b" using step.IH [OF step.prems] by blast
  obtain c where c: "get_row i w2 = Inr c" "row_step e b c"
    using table_step_row [OF engine_table_step [OF step.hyps(2) con] con b(1)] by blast
  have "row_ok b" using get_row_Inr [OF b(1)] con by (simp add: consistent_def)
  then show ?case using carried_step [OF b(2) c(2)] c(1) by blast
qed

lemma run_logged: "engine_run w es w' \<Longrightarrow> consistent w \<Longrightarrow> logged w w'"
  unfolding engine_run_def
  by (erule engine.run_keeps) (auto intro: logged_trans dest: engine_table_step simp: table_step_def)

section \<open>Entry points are runs\<close>

text \<open>
  The entry points compose the operations above, so what holds of every run holds of any sequence of
  calls. These lemmas carry the properties from the machine to the calls.
\<close>

lemmas engine_run_trans = run_of_trans [where move = engine_step, folded engine_run_def]
lemmas run_single = run_of_single [where move = engine_step, folded engine_run_def]

text \<open>
  The functions compose registers may stage and decide further proposals themselves: each is required
  to change the world by a run of the machine only.
\<close>

definition runs_to :: "'q world \<Rightarrow> 'q world \<Rightarrow> bool" where
  "runs_to w w' \<longleftrightarrow> (\<exists>es. engine_run w es w')"

definition hooks_are_runs :: "'q service \<Rightarrow> bool" where
  "hooks_are_runs s \<longleftrightarrow>
     (\<forall>k f x e w. svc_prechecks s k = Some f \<longrightarrow> runs_to w (snd (f x e w)))
     \<and> (\<forall>k f i x h w. svc_effects s k = Some f \<longrightarrow> runs_to w (snd (f i x h w)))
     \<and> (\<forall>k f i x w w'. svc_declines s k = Some f \<longrightarrow> f i x w = Inr w' \<longrightarrow> runs_to w w')
     \<and> expiries_outside s"

lemma runs_to_refl [simp]: "runs_to w w"
  using run_of.start [of engine_step w] by (auto simp: runs_to_def engine_run_def)

lemma runs_to_trans [trans]: "runs_to w w' \<Longrightarrow> runs_to w' w'' \<Longrightarrow> runs_to w w''"
  using engine_run_trans by (fastforce simp: runs_to_def)

lemma runs_to_step: "engine_step w e w' \<Longrightarrow> runs_to w w'"
  using run_single by (auto simp: runs_to_def)

lemma outside_quota: "outside w (w\<lparr>w_quota := q\<rparr>)"
  by (simp add: outside_def logged_def w_now_def)

lemma quota_release_runs: "runs_to w (snd (apply_quota_release s c a w))"
  using runs_to_step [OF engine_step.outside [OF outside_quota]]
  by (auto simp: apply_quota_release_def split: option.splits sum.splits prod.splits)

lemma decision_effect_runs:
  assumes "hooks_are_runs s"
  shows "runs_to w (snd (run_decision_effect s c i a v w))"
proof -
  have "runs_to w (snd (f i (ap_proposed_change a) (ap_diff_hash a) w))" if "svc_effects s (ap_kind a) = Some f" for f
    using assms that by (simp add: hooks_are_runs_def)
  moreover note quota_release_runs [of w s c a]
  ultimately show ?thesis
    by (force simp: run_decision_effect_def split: option.splits sum.splits prod.splits)
qed

lemma precheck_runs:
  assumes "hooks_are_runs s"
  shows "runs_to w (snd (run_precheck s c i v edited w))"
proof -
  have "runs_to w w'" if "svc_prechecks s k = Some f" "f x edited w = (r, w')" for f k x r w'
    using assms that unfolding hooks_are_runs_def by (metis snd_conv)
  then show ?thesis
    by (auto simp: run_precheck_def split: option.splits sum.splits prod.splits)
qed

lemma decide_tx_run:
  assumes "decide_tx s c p i v reason edited w = Inr (a, w')" "hooks_are_runs s"
  shows "\<exists>es. engine_run w (EvDecided i v # es) w'"
proof -
  obtain w1 where w1: "decide_in_tx s c p i v reason edited w = Inr (a, w1)" "run_decline s i a v w1 = Inr w'"
    using assms(1) by (auto simp: decide_tx_def)
  have "runs_to w1 w'"
    using w1(2) assms(2) by (auto simp: run_decline_def hooks_are_runs_def split: option.splits if_splits)
  then obtain es where "engine_run w1 es w'" by (auto simp: runs_to_def)
  then show ?thesis using engine_run_trans run_single [OF engine_step.decide [OF w1(1)]] by fastforce
qed

lemma decide_any_run:
  assumes "decide_any s c i v reason edited w = (r, w')" "hooks_are_runs s"
  shows "\<exists>es. engine_run w es w' \<and> ((\<exists>a. r = Inr a) \<longrightarrow> EvDecided i v \<in> set es)"
proof (cases "\<exists>p w1. acting_for_a_human c = Inr () \<and> ctx_actor c = Some p
    \<and> run_precheck s c i v edited w = (Inr (), w1)")
  case False
  then have "w' = snd (run_precheck s c i v edited w) \<or> w' = w" "\<nexists>a. r = Inr a"
    using assms(1) by (auto simp: decide_any_def split: sum.splits option.splits prod.splits)
  then show ?thesis using precheck_runs [OF assms(2)] runs_to_refl by (metis runs_to_def)
next
  case True
  then obtain p w1 where p: "acting_for_a_human c = Inr ()" "ctx_actor c = Some p"
    "run_precheck s c i v edited w = (Inr (), w1)" by blast
  have pre: "runs_to w w1" using precheck_runs [OF assms(2), of w c i v edited] p(3) by simp
  show ?thesis
  proof (cases "decide_tx s c p i v reason edited w1")
    case (Inl e)
    then have "w' = w1" "\<nexists>a. r = Inr a"
      using assms(1) p by (auto simp: decide_any_def run_tx_def)
    then show ?thesis using pre by (auto simp: runs_to_def)
  next
    case (Inr aw)
    then obtain a w2 where aw: "decide_tx s c p i v reason edited w1 = Inr (a, w2)" by (cases aw) auto
    then have "w' = snd (run_decision_effect s c i a v w2)"
      using assms(1) p by (auto simp: decide_any_def run_tx_def split: sum.splits prod.splits)
    then obtain es3 where es3: "engine_run w2 es3 w'"
      using decision_effect_runs [OF assms(2), of w2 c i a v] by (auto simp: runs_to_def)
    obtain es2 where es2: "engine_run w1 (EvDecided i v # es2) w2" using decide_tx_run [OF aw assms(2)] by blast
    obtain es1 where es1: "engine_run w es1 w1" using pre by (auto simp: runs_to_def)
    have "engine_run w ((es1 @ EvDecided i v # es2) @ es3) w'"
      by (rule engine_run_trans [OF es3 engine_run_trans [OF es2 es1]])
    then show ?thesis by (intro exI [of _ "(es1 @ EvDecided i v # es2) @ es3"]) simp
  qed
qed

lemma decide_members_runs:
  "decide_members s tick c p v reason xs w = Inr (ms, w') \<Longrightarrow> runs_to w w'"
proof (induction xs arbitrary: w ms)
  case (Cons a xs)
  show ?case
  proof (cases "effective_status a (svc_now s) \<noteq> Pending")
    case True
    then show ?thesis using Cons by auto
  next
    case False
    then obtain m w1 ms' where m: "decide_member_in_tx s (tick (ap_id a)) c p a v reason w = Inr (m, w1)"
      and rest: "decide_members s tick c p v reason xs w1 = Inr (ms', w')"
      using Cons.prems by auto
    have "runs_to w w1"
      using m runs_to_step [OF engine_step.decide]
      by (auto simp: decide_member_in_tx_def split: sum.splits appr_error.splits)
    also have "runs_to w1 w'" by (rule Cons.IH [OF rest])
    finally show ?thesis .
  qed
qed simp

lemma release_runs:
  assumes "hooks_are_runs s"
  shows "release_decided_members s c ms w = (ms', w') \<Longrightarrow> runs_to w w'"
proof (induction ms arbitrary: w ms')
  case (Cons m ms)
  show ?case
  proof (cases "bm_outcome m \<noteq> BundleDecided")
    case True
    then show ?thesis using Cons by (auto split: prod.splits)
  next
    case False
    have "runs_to w (snd (run_decision_effect s c (ap_id (bm_approval m)) (bm_approval m) True w))"
      by (rule decision_effect_runs [OF assms])
    also have "runs_to \<dots> w'"
      using False Cons.prems Cons.IH by (auto split: prod.splits)
    finally show ?thesis .
  qed
qed simp

lemma decide_bundle_runs:
  assumes "decide_bundle s tick c bundle v reason w = (r, w')" "hooks_are_runs s"
  shows "runs_to w w'"
proof (cases "\<exists>p ms w1. run_tx (decide_bundle_in_tx s tick c p bundle v reason) w = (Inr ms, w1)
    \<and> w' = snd (if v then release_decided_members s c ms w1 else (ms, w1))")
  case True
  then obtain p ms w1 where t: "decide_bundle_in_tx s tick c p bundle v reason w = Inr (ms, w1)"
    "w' = snd (if v then release_decided_members s c ms w1 else (ms, w1))"
    using run_tx_InrD by metis
  have "runs_to w w1"
    using t(1) decide_members_runs by (auto simp: decide_bundle_in_tx_def split: prod.splits if_splits)
  also have "runs_to w1 w'"
    using t(2) release_runs [OF assms(2), of c ms w1] by (cases "release_decided_members s c ms w1") auto
  finally show ?thesis .
next
  case False
  then have "w' = w"
    using assms(1)
    by (fastforce simp: decide_bundle_def run_tx_def split: sum.splits option.splits prod.splits if_splits)
  then show ?thesis by simp
qed

lemma expire_candidates_runs:
  assumes "expiries_outside s"
  shows "expire_candidates s tick c cs w = (r, w') \<Longrightarrow> runs_to w w'"
proof (induction cs arbitrary: w r)
  case (Cons ik cs)
  obtain i k where ik: "ik = (i, k)" by force
  let ?s = "s\<lparr>svc_now := tick i\<rparr>"
  obtain q w1 r1 where step: "run_tx (expire_one ?s c i) w = (q, w1)"
    and rest: "expire_candidates s tick c cs w1 = (r1, w')"
    using Cons.prems by (auto simp: ik split: prod.splits)
  have out: "expiries_outside ?s" using assms by (simp add: expiries_outside_def)
  have "runs_to w w1"
    using step
  proof (cases rule: run_tx_cases)
    case (commit swept)
    then show ?thesis
      using expire_one_False [of ?s c i w w1] runs_to_step [OF engine_step.expire [OF _ out]]
      by (cases swept) auto
  qed simp
  also have "runs_to w1 w'" by (rule Cons.IH [OF rest])
  finally show ?case .
qed simp

section \<open>Properties\<close>

text \<open>A table nobody has staged into yet is consistent, and a closed run over it.\<close>

lemma empty_consistent: "w_approvals w = [] \<Longrightarrow> w_outbox w = [] \<Longrightarrow> consistent w"
  by (simp add: consistent_def)

definition staged_world :: "unit world" where
  "staged_world = snd (stage (sample_service 0) agent_call deal_move 70 sample_world)"

definition granted_world :: "unit world" where
  "granted_world = (case decide_in_tx (sample_service 10) rep_decides (rep RowScopeOwn) 70 True None None staged_world of
     Inr (_, w) \<Rightarrow> w | Inl _ \<Rightarrow> staged_world)"

definition spent_world :: "unit world" where
  "spent_world = (case redeem_in_tx (sample_service 20) agent_call 70 ''advance_deal'' ''h'' granted_world of
     Inr (_, w) \<Rightarrow> w | Inl _ \<Rightarrow> granted_world)"

definition is_Inr :: "'a + 'b \<Rightarrow> bool" where
  "is_Inr r = (case r of Inl _ \<Rightarrow> False | Inr _ \<Rightarrow> True)"

lemma sample_run:
  "engine_run sample_world [EvStaged 70, EvDecided 70 True, EvRedeemed 70] spent_world"
proof -
  have st: "stage (sample_service 0) agent_call deal_move 70 sample_world = (Inr 70, staged_world)"
  proof -
    have "fst (stage (sample_service 0) agent_call deal_move 70 sample_world) = Inr 70" by code_simp
    then show ?thesis unfolding staged_world_def by (metis prod.collapse)
  qed
  have s1: "engine_step sample_world (EvStaged 70) staged_world"
    by (rule engine_step.stage [OF st]) (simp add: unused_id_def sample_world_def)
  have "is_Inr (decide_in_tx (sample_service 10) rep_decides (rep RowScopeOwn) 70 True None None staged_world)"
    by code_simp
  then have "\<exists>b. decide_in_tx (sample_service 10) rep_decides (rep RowScopeOwn) 70 True None None staged_world
      = Inr (b, granted_world)"
    by (auto simp: is_Inr_def granted_world_def split: sum.splits)
  then have s2: "engine_step staged_world (EvDecided 70 True) granted_world" using engine_step.decide by blast
  have "is_Inr (redeem_in_tx (sample_service 20) agent_call 70 ''advance_deal'' ''h'' granted_world)" by code_simp
  then have "\<exists>n. redeem_in_tx (sample_service 20) agent_call 70 ''advance_deal'' ''h'' granted_world = Inr (n, spent_world)"
    by (auto simp: is_Inr_def spent_world_def split: sum.splits)
  then have s3: "engine_step granted_world (EvRedeemed 70) spent_world" using engine_step.redeem by blast
  show ?thesis
    using engine_run_trans [OF run_single [OF s3] engine_run_trans [OF run_single [OF s2] run_single [OF s1]]] by simp
qed

lemma sample_world_consistent: "consistent sample_world"
  by (rule empty_consistent) (simp_all add: sample_world_def)

text \<open>
  C13. The rows and the log stay consistent in every run of the engine and of the erasure scrubs, whatever
  the order, callers and clocks: ids stay distinct; a pending row carries no answer, an answered one its
  decider and time and the audit row of the very verdict, a refused or lapsed one is never marked spent;
  every outbox row names an audit row that exists and is an envelope the bus can route and a subscriber
  accepts; and neither log loses or rewrites a row. What the model takes of the rest of the program:
  nothing else updates the approvals table, and a run ends where a data reset deletes the approvals and
  the outbox; no user is deleted, so no decider is nulled by its foreign key.
\<close>

theorem consistency_is_invariant:
  assumes "engine_run w es w'" "consistent w"
  shows "consistent w' \<and> (\<exists>xs. w_audit w' = w_audit w @ xs) \<and> (\<exists>ys. w_outbox w' = w_outbox w @ ys)"
  using run_consistent [OF assms] run_logged [OF assms] by (auto simp: logged_def)

theorem consistency_is_invariant_witness: "consistent spent_world"
  by (rule consistency_is_invariant [OF sample_run sample_world_consistent, THEN conjunct1])

text \<open>
  C2. Each committed operation refines the row's specification. Under one step every row of the table
  makes the move its abstract life allows for that event and no other: a row is born open, is answered
  once, is spent only after it was granted, and lapses only while open.
\<close>

theorem engine_refines_life:
  assumes "engine_step w e w'" "consistent w"
  shows "life_step e i (life_of i w) (life_of i w')"
  by (rule life_of_refines [OF engine_table_step [OF assms] assms(2)])

theorem engine_refines_life_witness:
  "life_step (EvStaged 70) 70 (life_of 70 sample_world)
     (life_of 70 (snd (stage (sample_service 0) agent_call deal_move 70 sample_world)))"
proof -
  have "fst (stage (sample_service 0) agent_call deal_move 70 sample_world) = Inr 70" by code_simp
  then have st: "stage (sample_service 0) agent_call deal_move 70 sample_world
      = (Inr 70, snd (stage (sample_service 0) agent_call deal_move 70 sample_world))" by (metis prod.collapse)
  show ?thesis
    by (rule engine_refines_life [OF engine_step.stage [OF st] sample_world_consistent])
      (simp add: unused_id_def sample_world_def)
qed

text \<open>
  C1. Over a whole run - any sequence of the engine's operations and of the two erasure scrubs, between
  two data resets, nothing else updating the table - a proposal first staged in it has one of these
  histories: nobody answered it, it was refused, granted, granted and then spent, withdrawn, expired, or
  withdrawn by an erasure. So it is decided at most once and by one verdict, it is spent at most once and
  only after it was granted, and what was refused or has lapsed is never spent in any later step,
  whatever the interleaving. The stored row agrees with the history: it is approved or rejected exactly
  when it was decided so, consumed exactly when it was redeemed, and while it is pending it has no answer
  in the run. An expired row does not tell how it lapsed: it was withdrawn, timed out, scrubbed, or (with
  an empty history) superseded by a newer staging.
\<close>

theorem one_answer_and_one_use:
  assumes "engine_run w es w'" "consistent w" "unused_id i w"
  shows "history i es \<in> histories i (life_of i w')
     \<and> (\<forall>a. get_row i w' = Inr a \<longrightarrow>
          (ap_status a = Approved \<longleftrightarrow> EvDecided i True \<in> set es)
        \<and> (ap_status a = Rejected \<longleftrightarrow> EvDecided i False \<in> set es)
        \<and> (ap_consumed_at a \<noteq> None \<longleftrightarrow> EvRedeemed i \<in> set es)
        \<and> (ap_status a = Pending \<longrightarrow> history i es = []))"
  using run_history [OF assms] stored_row_agrees [OF assms] by blast

theorem one_answer_and_one_use_witness:
  "history 70 [EvStaged 70, EvDecided 70 True, EvRedeemed 70] \<in> histories 70 (life_of 70 spent_world)"
  by (rule one_answer_and_one_use [OF sample_run sample_world_consistent, THEN conjunct1])
    (simp add: unused_id_def sample_world_def)

text \<open>
  A proposal keeps its identity for life. In every run a row that stands stays in the table under its
  id with the kind, proposer, passport, target and pin it was staged with; its payload changes only by a
  decision on it or an erasure, its summary and evidence only by an erasure; a spent, refused or lapsed
  row stays so; and no row's life ever goes back.
\<close>

theorem proposals_keep_their_identity:
  assumes "engine_run w es w'" "consistent w" "get_row i w = Inr a"
  shows "(\<exists>b. get_row i w' = Inr b \<and> carried_over es a b) \<and> life_of j w \<le> life_of j w'"
  using run_carries [OF assms] run_advances [OF assms(1,2)] by blast

theorem proposals_keep_their_identity_witness:
  "\<exists>w' b. engine_run pending_world [EvDecided 1 True] w' \<and> get_row 1 w' = Inr b \<and> same_proposal pending_move b"
proof -
  obtain w' where d: "decide_in_tx (sample_service 10) rep_decides (rep RowScopeOwn) 1 True None None pending_world
      = Inr (settle True 7 0 None pending_move, w')" using sample_decision by blast
  have run: "engine_run pending_world [EvDecided 1 True] w'" by (rule run_single [OF engine_step.decide [OF d]])
  have "consistent pending_world" "get_row 1 pending_world = Inr pending_move"
    by (simp_all add: consistent_def pending_world_def pending_move_def sample_approval_def sample_world_def
        row_ok_def answer_audited_def get_row_def)
  from proposals_keep_their_identity [OF run this, of 1] show ?thesis using run unfolding carried_over_def by blast
qed

lemma stage_runs: "unused_id i w \<Longrightarrow> runs_to w (snd (stage s c inp i w))"
proof -
  assume new: "unused_id i w"
  show ?thesis
  proof (cases "stage s c inp i w")
    case (Pair r w')
    show ?thesis
    proof (cases r)
      case (Inl e)
      then have "w' = w" using Pair by (auto simp: stage_def run_tx_def split: sum.splits prod.splits)
      then show ?thesis by (simp add: Pair)
    next
      case (Inr j)
      then show ?thesis using runs_to_step [OF engine_step.stage [OF _ new]] Pair by simp
    qed
  qed
qed

lemma stage_unless_declined_runs: "unused_id i w \<Longrightarrow> runs_to w (snd (stage_unless_declined s c inp i w))"
proof -
  assume new: "unused_id i w"
  have "snd (stage_unless_declined s c inp i w) = w
      \<or> snd (stage_unless_declined s c inp i w) = snd (stage s c inp i w)"
    by (auto simp: stage_unless_declined_def stage_def run_tx_def split: sum.splits prod.splits)
  then show ?thesis using stage_runs [OF new, of s c inp] runs_to_refl [of w] by metis
qed

lemma stage_agent_call_runs: "unused_id i w \<Longrightarrow> runs_to w (snd (stage_agent_call s c inp i w))"
proof -
  assume new: "unused_id i w"
  show ?thesis
  proof (cases "stage_agent_call s c inp i w")
    case (Pair r w')
    consider (fail) e where "r = Inl e" | (old) j where "r = Inr (j, True)" | (staged) j where "r = Inr (j, False)"
      by (cases r; force)
    then show ?thesis
    proof cases
      case staged
      then show ?thesis using runs_to_step [OF engine_step.stage_agent_call [OF _ new]] Pair by simp
    next
      case fail
      then have "w' = w" using Pair by (auto simp: stage_agent_call_def dest!: run_tx_InlD split: if_splits option.splits)
      then show ?thesis using Pair by simp
    next
      case old
      then have "w' = w"
        using Pair by (auto simp: stage_agent_call_def dest!: run_tx_InrD split: if_splits option.splits)
      then show ?thesis using Pair by simp
    qed
  qed
qed

lemma tx_runs: "(\<And>x w'. f w = Inr (x, w') \<Longrightarrow> runs_to w w') \<Longrightarrow> runs_to w (snd (run_tx f w))"
  by (auto simp: run_tx_def split: sum.splits)

lemma withdraw_runs: "runs_to w (snd (withdraw c i reason w))"
proof -
  have "runs_to w w'" if "withdraw_in_tx c i reason w = Inr (b, w')" for b w'
  proof (cases b)
    case True
    then have "withdraw_in_tx c i reason w = Inr (True, w')" using that by simp
    then show ?thesis by (rule runs_to_step [OF engine_step.withdraw])
  next
    case False
    then show ?thesis using that by (auto simp: withdraw_in_tx_def Let_def split: option.splits if_splits)
  qed
  then show ?thesis
    by (auto simp: withdraw_def split: sum.splits intro!: tx_runs)
qed

lemma expire_due_runs: "expiries_outside s \<Longrightarrow> runs_to w (snd (expire_due s tick c w))"
  using expire_candidates_runs by (auto simp: expire_due_def split: sum.splits prod.splits)

lemma entry_points_are_runs_facts:
  assumes "hooks_are_runs s"
  shows "unused_id i w \<Longrightarrow> runs_to w (snd (stage s c inp i w))
      \<and> runs_to w (snd (stage_unless_declined s c inp i w)) \<and> runs_to w (snd (stage_agent_call s c inp i w))"
    and "runs_to w (snd (redeem s c j tool h w)) \<and> runs_to w (snd (withdraw c j reason w))"
    and "(\<And>w1 u w2. apply_tx w1 = Inr (u, w2) \<Longrightarrow> runs_to w1 w2) \<Longrightarrow>
      runs_to w (snd (redeem_and_apply s c j tool h apply_tx w))"
    and "decide_any s c j v note edited w = (r, w') \<Longrightarrow>
      \<exists>es. engine_run w es w' \<and> ((\<exists>a. r = Inr a) \<longrightarrow> EvDecided j v \<in> set es)"
    and "runs_to w (snd (decide_bundle s tick c bundle v note w)) \<and> runs_to w (snd (expire_due s tick c w))"
proof -
  show "runs_to w (snd (stage s c inp i w))
      \<and> runs_to w (snd (stage_unless_declined s c inp i w)) \<and> runs_to w (snd (stage_agent_call s c inp i w))"
    if "unused_id i w"
    using that by (simp add: stage_runs stage_unless_declined_runs stage_agent_call_runs)
  show "runs_to w (snd (redeem s c j tool h w)) \<and> runs_to w (snd (withdraw c j reason w))"
    using runs_to_step [OF engine_step.redeem] by (auto simp: redeem_def withdraw_runs intro!: tx_runs)
  show "runs_to w (snd (redeem_and_apply s c j tool h apply_tx w))"
    if "\<And>w1 u w2. apply_tx w1 = Inr (u, w2) \<Longrightarrow> runs_to w1 w2"
    unfolding redeem_and_apply_def
    by (rule tx_runs) (auto intro: runs_to_trans [OF runs_to_step [OF engine_step.redeem] that])
  show "\<exists>es. engine_run w es w' \<and> ((\<exists>a. r = Inr a) \<longrightarrow> EvDecided j v \<in> set es)"
    if "decide_any s c j v note edited w = (r, w')"
    by (rule decide_any_run [OF that assms])
  have "expiries_outside s" using assms by (simp add: hooks_are_runs_def)
  then show "runs_to w (snd (decide_bundle s tick c bundle v note w)) \<and> runs_to w (snd (expire_due s tick c w))"
    using decide_bundle_runs [OF _ assms] expire_due_runs by (metis prod.collapse)
qed

section \<open>After an erasure\<close>

text \<open>A row that is empty and not open stays so in every run, and is decided by nobody.\<close>

lemma emptied_row_run:
  assumes "engine_run w es w'" "consistent w" "get_row i w = Inr a" "a = blank_staged_proposal a" "life a \<noteq> Open"
  shows "\<exists>b. get_row i w' = Inr b \<and> b = blank_staged_proposal b \<and> life b \<noteq> Open
    \<and> (\<forall>v. EvDecided i v \<notin> set es) \<and> (life a = Lapsed \<longrightarrow> life b = Lapsed \<and> history i es = [])"
  using assms unfolding engine_run_def
proof (induction rule: run_of.induct)
  case (start w)
  then show ?case by (auto simp: history_def)
next
  case (step w es w1 e w2)
  have con: "consistent w1" by (rule engine.run_inv [OF step.hyps(1) step.prems(1)])
  obtain b where b: "get_row i w1 = Inr b" "b = blank_staged_proposal b" "life b \<noteq> Open"
    "\<forall>v. EvDecided i v \<notin> set es" "life a = Lapsed \<longrightarrow> life b = Lapsed \<and> history i es = []"
    using step.IH [OF step.prems] by blast
  obtain c where c: "get_row i w2 = Inr c" "row_step e b c"
    using table_step_row [OF engine_table_step [OF step.hyps(2) con] con b(1)] by blast
  have row: "ap_id b = i" "row_ok b" using get_row_Inr [OF b(1)] con by (auto simp: consistent_def)
  have move: "life_step e i (life b) (life c)" using c(2) row by (simp add: row_step_def)
  have new: "\<forall>v. e \<noteq> EvDecided i v" using move b(3) by (auto simp: life_step_simps)
  have "life c \<noteq> Open" using move b(3) new
    by (cases rule: life_step.cases) (use get_row_Inr [OF b(1)] b(1) in \<open>auto simp: life_def split: status.splits if_splits\<close>)
  moreover have "c = blank_staged_proposal c"
  proof -
    have "emptied e b c \<or> (same_wording b c \<and> same_payload b c)" using c(2) new row(1) by (auto simp: row_step_def)
    then show ?thesis
    proof
      assume "emptied e b c"
      then show ?thesis unfolding emptied_def by blast
    next
      assume "same_wording b c \<and> same_payload b c"
      moreover have "ap_proposed_change b = JObj []" "ap_summary b = Some []" "ap_evidence b = None"
        by (subst b(2), simp add: blank_staged_proposal_def)+
      ultimately show ?thesis by (simp add: blank_staged_proposal_def same_wording_def same_payload_def)
    qed
  qed
  moreover have "life a = Lapsed \<longrightarrow> life c = Lapsed \<and> \<not> answers i e"
    using move b(5) by (auto elim: life_step.cases)
  ultimately show ?case using b(4,5) c(1) new by (auto simp: history_def)
qed

lemma erased_world_consistent:
  "consistent (pd_world d) \<Longrightarrow> consistent (pd_world (redact_staged_approvals jsonb_text subj leads emails d))"
  by (rule table_step_consistent [OF engine_table_step [OF engine_step.erase_subject [OF refl]]])

definition person_card :: approval where
  "person_card = pending_move\<lparr>ap_target_type := Some ''person''\<rparr>"

definition person_db :: "unit privacy_db" where
  "person_db = \<lparr>pd_world = pending_world\<lparr>w_approvals := [person_card]\<rparr>, pd_workflow_runs = [],
     pd_agent_runs = [\<lparr>ag_id = 5, ag_status = ''awaiting_approval'', ag_approval = Some 1, ag_pending = Some (JObj []),
       ag_trace = JArr [], ag_finished_at = None, ag_degrade_reason = None\<rparr>]\<rparr>"

lemma erasure_facts:
  assumes "consistent (pd_world d)" "get_row i (pd_world d) = Inr a"
    and "d' = redact_staged_approvals jsonb_text subj leads emails d" "engine_run (pd_world d') es w'"
    and "subject_approval_match jsonb_text subj leads (address_patterns emails) a"
  shows "\<exists>b c. get_row i (pd_world d') = Inr b \<and> get_row i w' = Inr c
    \<and> (ap_proposed_change c, ap_summary c, ap_evidence c) = (JObj [], Some [], None)
    \<and> (\<forall>v. EvDecided i v \<notin> set es)
    \<and> (if ap_status a = Pending
       then ap_status b = Expired \<and> ap_decision_reason b = Some subject_withdrawal \<and> ap_decided_by b = None
         \<and> ap_status c = Expired \<and> history i es = []
       else b = a\<lparr>ap_proposed_change := JObj [], ap_summary := Some [], ap_evidence := None\<rparr>)"
proof -
  let ?b = "scrubbed (w_now (pd_world d)) subject_withdrawal a"
  have b: "get_row i (pd_world d') = Inr ?b"
    using scrubbed_row [OF assms(2) redact_staged_rows, of jsonb_text subj leads emails] assms(3,5) by simp
  have live: "life ?b \<noteq> Open" by (auto simp: life_def scrubbed_status split: status.splits)
  have con: "consistent (pd_world d')" unfolding assms(3) by (rule erased_world_consistent [OF assms(1)])
  obtain c where c: "get_row i w' = Inr c" "c = blank_staged_proposal c" "\<forall>v. EvDecided i v \<notin> set es"
    "life ?b = Lapsed \<longrightarrow> life c = Lapsed \<and> history i es = []"
    using emptied_row_run [OF assms(4) con b scrubbed_blank [symmetric] live] by blast
  have blank: "ap_proposed_change c = JObj []" "ap_summary c = Some []" "ap_evidence c = None"
    by (subst c(2), simp add: blank_staged_proposal_def)+
  have "row_ok a" using assms(1) get_row_Inr [OF assms(2)] by (simp add: consistent_def)
  then have "ap_status ?b = Expired \<and> ap_decision_reason ?b = Some subject_withdrawal \<and> ap_decided_by ?b = None
      \<and> ap_status c = Expired \<and> history i es = []" if "ap_status a = Pending"
    using that c(4) by (auto simp: life_def row_ok_def scrubbed_def withdraw_blanked_def blank_staged_proposal_def
        split: status.splits if_splits)
  then show ?thesis using b c(1,3) blank by (simp add: scrubbed_def blank_staged_proposal_def)
qed

text \<open>
  C6. An erasure leaves nobody anything to approve. After the scrub every row of the table that named the
  subject - by its person or lead target, or by an address standing alone in its payload or summary, in
  any case - has an empty payload, an empty summary and no evidence, and so it stays in every later run,
  where nobody ever decides it. One that was pending is expired under the scrub's reason with no decider,
  is never redeemed, withdrawn or timed out afterwards, and no automation or agent run is left waiting
  for it. One already answered keeps its verdict, decider, times, hash and use, so a grant not yet spent
  stands. A row that names nobody erased is unchanged, and neither log records the scrub.
\<close>

theorem erasure_leaves_nothing_to_approve:
  assumes "consistent (pd_world d)" "get_row i (pd_world d) = Inr a"
    and "d' = redact_staged_approvals jsonb_text subj leads emails d" "engine_run (pd_world d') es w'"
  shows "w_audit (pd_world d') = w_audit (pd_world d) \<and> w_outbox (pd_world d') = w_outbox (pd_world d)
    \<and> (if subject_approval_match jsonb_text subj leads (address_patterns emails) a
       then (\<exists>b c. get_row i (pd_world d') = Inr b \<and> get_row i w' = Inr c
         \<and> (ap_proposed_change c, ap_summary c, ap_evidence c) = (JObj [], Some [], None)
         \<and> (\<forall>v. EvDecided i v \<notin> set es)
         \<and> (if ap_status a = Pending
            then ap_status b = Expired \<and> ap_decision_reason b = Some subject_withdrawal \<and> ap_decided_by b = None
              \<and> ap_status c = Expired \<and> history i es = []
            else b = a\<lparr>ap_proposed_change := JObj [], ap_summary := Some [], ap_evidence := None\<rparr>))
       else get_row i (pd_world d') = Inr a)
    \<and> (subject_approval_match jsonb_text subj leads (address_patterns emails) a \<and> ap_status a = Pending \<longrightarrow>
         (\<forall>r \<in> set (pd_workflow_runs d'). wr_status r = ''requires_approval'' \<longrightarrow>
            item_member (wr_detail r) ''approval_id'' \<noteq> Some (uuid_string i))
       \<and> (\<forall>r \<in> set (pd_agent_runs d'). ag_status r = ''awaiting_approval'' \<longrightarrow> ag_approval r \<noteq> Some i))"
proof -
  let ?hit = "subject_approval_match jsonb_text subj leads (address_patterns emails)"
  have logs: "w_audit (pd_world d') = w_audit (pd_world d)" "w_outbox (pd_world d') = w_outbox (pd_world d)"
    by (simp_all add: assms(3) redact_staged_rows)
  have a: "a \<in> set (w_approvals (pd_world d))" "ap_id a = i" using get_row_Inr [OF assms(2)] by auto
  show ?thesis
  proof (cases "?hit a")
    case False
    then have "get_row i (pd_world d') = Inr a"
      using scrubbed_row [OF assms(2) redact_staged_rows, of jsonb_text subj leads emails] assms(3) by simp
    then show ?thesis using logs False by simp
  next
    case True
    note waits = no_run_waits [OF a(1) _ True assms(3), unfolded a(2)]
    show ?thesis unfolding if_P [OF True] using logs erasure_facts [OF assms True] waits by blast
  qed
qed

theorem erasure_leaves_nothing_to_approve_witness:
  "\<exists>b. get_row 1 (pd_world (redact_staged_approvals (\<lambda>_. []) 100 [] [''m@acme.com''] person_db)) = Inr b
     \<and> ap_status b = Expired"
proof -
  have con: "consistent (pd_world person_db)"
    by (simp add: person_db_def person_card_def consistent_def pending_world_def pending_move_def sample_approval_def
        sample_world_def row_ok_def answer_audited_def)
  have row: "get_row 1 (pd_world person_db) = Inr person_card"
    by (simp add: person_db_def person_card_def get_row_def pending_move_def sample_approval_def)
  have hit: "subject_approval_match (\<lambda>_. []) 100 [] (address_patterns [''m@acme.com'']) person_card"
    and pend: "ap_status person_card = Pending"
    by (simp_all add: subject_approval_match_def person_card_def pending_move_def sample_approval_def)
  have run: "engine_run (pd_world (redact_staged_approvals (\<lambda>_. []) 100 [] [''m@acme.com''] person_db)) []
      (pd_world (redact_staged_approvals (\<lambda>_. []) 100 [] [''m@acme.com''] person_db))"
    unfolding engine_run_def by (rule run_of.start)
  show ?thesis
    using erasure_leaves_nothing_to_approve [OF con row refl run] unfolding if_P [OF hit] if_P [OF pend] by blast
qed

end
