(* ===== verification/Event_Bus.thy ===== *)
theory Event_Bus
  imports Event_Catalog Machines
begin

text \<open>
  Delivery: the outbox relay, the consumer and the dedupe wrapper of
  \<^verbatim>\<open>backend/internal/platform/events\<close> (\<^verbatim>\<open>relay.go\<close>,
  \<^verbatim>\<open>subscriber.go\<close>, \<^verbatim>\<open>dedupe.go\<close>). Redis is not part of the
  repository: its commands are the record \<open>event_redis\<close>, an argument of every operation, and
  \<open>event_redis_laws\<close> is what its documentation promises. The JSON decoder of an envelope and the
  handler a group runs are arguments too. Waiting and logging are not modelled. A mark is set for
  \<open>dedupe_ttl\<close>, 96 hours; its expiry is not modelled, so what is said of a repeated event holds of
  deliveries within that window.
\<close>

section \<open>The store behind the bus\<close>

text \<open>Each command answers whether it succeeded; \<open>EXISTS\<close> answers nothing when it failed.\<close>

record 'r event_redis =
  er_xadd :: "'r \<Rightarrow> string \<Rightarrow> int \<Rightarrow> string \<Rightarrow> bool \<times> 'r"
  er_exists :: "'r \<Rightarrow> string \<Rightarrow> bool option"
  er_set :: "'r \<Rightarrow> string \<Rightarrow> duration \<Rightarrow> bool \<times> 'r"
  er_xack :: "'r \<Rightarrow> string \<Rightarrow> string \<Rightarrow> string \<Rightarrow> bool \<times> 'r"

text \<open>
  What is observed of the store: every envelope ever appended to a stream (trimming ends its delivery,
  not the fact), the keys that are set, the entries a group has acknowledged. A command that reports a
  failure may have been carried out all the same. The laws speak of one span no longer than the expiry a
  key was set with.
\<close>

record 'r event_view =
  vw_log :: "'r \<Rightarrow> string \<Rightarrow> string list"
  vw_keys :: "'r \<Rightarrow> string set"
  vw_acked :: "'r \<Rightarrow> (string \<times> string \<times> string) set"

definition event_redis_laws :: "'r event_redis \<Rightarrow> 'r event_view \<Rightarrow> bool" where
  "event_redis_laws rdb v \<longleftrightarrow>
     (\<forall>r s m e ok r'. er_xadd rdb r s m e = (ok, r') \<longrightarrow>
        vw_keys v r' = vw_keys v r \<and> vw_acked v r' = vw_acked v r
        \<and> (vw_log v r' = (vw_log v r)(s := vw_log v r s @ [e]) \<or> (\<not> ok \<and> vw_log v r' = vw_log v r)))
     \<and> (\<forall>r k b. er_exists rdb r k = Some b \<longrightarrow> b = (k \<in> vw_keys v r))
     \<and> (\<forall>r k t ok r'. er_set rdb r k t = (ok, r') \<longrightarrow>
        vw_log v r' = vw_log v r \<and> vw_acked v r' = vw_acked v r
        \<and> (vw_keys v r' = insert k (vw_keys v r) \<or> (\<not> ok \<and> vw_keys v r' = vw_keys v r)))
     \<and> (\<forall>r s g i ok r'. er_xack rdb r s g i = (ok, r') \<longrightarrow>
        vw_log v r' = vw_log v r \<and> vw_keys v r' = vw_keys v r
        \<and> (vw_acked v r' = insert (s, g, i) (vw_acked v r) \<or> (\<not> ok \<and> vw_acked v r' = vw_acked v r)))"

section \<open>The relay\<close>

record relay =
  rl_interval :: duration
  rl_batch_size :: nat
  rl_max_len :: int

definition new_relay :: relay where
  "new_relay = \<lparr>rl_interval = 200 * 1000000, rl_batch_size = 256, rl_max_len = 2 ^ 17\<rparr>"

text \<open>The table \<open>event_outbox\<close> in \<open>seq\<close> order.\<close>

record outbox_entry =
  oe_id :: uuid
  oe_stream :: string
  oe_envelope :: string
  oe_published_at :: "time option"

definition outbox_backlog :: "outbox_entry list \<Rightarrow> nat" where
  "outbox_backlog rows = length (filter (\<lambda>row. oe_published_at row = None) rows)"

text \<open>What the database does to one pass: rows another relay holds, and the statements that fail.\<close>

record relay_db =
  rd_now :: time
  rd_locked :: "uuid \<Rightarrow> bool"
  rd_query_fails :: bool
  rd_stamp_fails :: bool
  rd_commit_fails :: bool

definition relay_claim :: "relay \<Rightarrow> relay_db \<Rightarrow> outbox_entry list \<Rightarrow> outbox_entry list" where
  "relay_claim rl db rows =
     take (rl_batch_size rl) (filter (\<lambda>row. oe_published_at row = None \<and> \<not> rd_locked db (oe_id row)) rows)"

fun ship :: "'r event_redis \<Rightarrow> int \<Rightarrow> outbox_entry list \<Rightarrow> 'r \<Rightarrow> (outbox_entry list \<times> app_error option) \<times> 'r" where
  "ship rdb max_len [] r = (([], None), r)"
| "ship rdb max_len (o1 # os) r =
     (case er_xadd rdb r (oe_stream o1) max_len (oe_envelope o1) of
        (False, r1) \<Rightarrow> (([], Some (ErrOther ''bus: XADD'')), r1)
      | (True, r1) \<Rightarrow>
          (case ship rdb max_len os r1 of ((shipped, err), r2) \<Rightarrow> ((o1 # shipped, err), r2)))"

definition stamp :: "time \<Rightarrow> outbox_entry list \<Rightarrow> outbox_entry list \<Rightarrow> outbox_entry list" where
  "stamp now shipped rows =
     update_where (\<lambda>row. oe_id row \<in> oe_id ` set shipped) (\<lambda>row. row\<lparr>oe_published_at := Some now\<rparr>) rows"

definition relay_batch ::
  "relay \<Rightarrow> 'r event_redis \<Rightarrow> relay_db \<Rightarrow> outbox_entry list \<times> 'r
     \<Rightarrow> (nat \<times> app_error option) \<times> (outbox_entry list \<times> 'r)" where
  "relay_batch rl rdb db st =
     (case st of (rows, r) \<Rightarrow>
        if rd_query_fails db then ((0, Some (ErrOther ''query'')), st)
        else (case ship rdb (rl_max_len rl) (relay_claim rl db rows) r of
          ((shipped, xadd_err), r1) \<Rightarrow>
            if shipped = [] then ((0, xadd_err), (rows, r1))
            else if rd_stamp_fails db then ((0, Some (ErrOther ''stamp'')), (rows, r1))
            else if rd_commit_fails db then ((length shipped, Some (ErrOther ''commit'')), (rows, r1))
            else ((length shipped, xadd_err), (stamp (rd_now db) shipped rows, r1))))"

text \<open>One turn of \<open>Run\<close>: the pass, the next backoff, and whether it polls again at once.\<close>

definition relay_turn ::
  "relay \<Rightarrow> 'r event_redis \<Rightarrow> relay_db \<Rightarrow> duration \<Rightarrow> outbox_entry list \<times> 'r
     \<Rightarrow> (duration \<times> bool) \<times> (outbox_entry list \<times> 'r)" where
  "relay_turn rl rdb db backoff st =
     (case relay_batch rl rdb db st of
        ((published, Some e), st') \<Rightarrow> ((min (backoff * 2) (10 * second), False), st')
      | ((published, None), st') \<Rightarrow> ((rl_interval rl, published = rl_batch_size rl), st'))"

fun relay_run ::
  "relay \<Rightarrow> 'r event_redis \<Rightarrow> duration \<Rightarrow> relay_db list \<Rightarrow> outbox_entry list \<times> 'r \<Rightarrow> outbox_entry list \<times> 'r" where
  "relay_run rl rdb backoff [] st = st"
| "relay_run rl rdb backoff (db # dbs) st =
     (case relay_turn rl rdb db backoff st of ((backoff', _), st') \<Rightarrow> relay_run rl rdb backoff' dbs st')"

section \<open>Consuming\<close>

definition dedupe_ttl :: duration where "dedupe_ttl = 96 * hour"
definition dedupe_key_prefix :: string where "dedupe_key_prefix = ''gw:dedupe:''"

definition dedupe_key :: "string \<Rightarrow> 'p envelope \<Rightarrow> string" where
  "dedupe_key g env = dedupe_key_prefix @ g @ '':'' @ uuid_string (ev_event_id env)"

type_synonym ('p, 's) handler = "'p envelope \<Rightarrow> 's \<Rightarrow> app_error option \<times> 's"

text \<open>\<open>Dedupe\<close>: check, run, mark, in that order. The state is the store's and the consumer's own.\<close>

definition dedupe :: "'r event_redis \<Rightarrow> string \<Rightarrow> ('p, 's) handler \<Rightarrow> ('p, 'r \<times> 's) handler" where
  "dedupe rdb g next env st =
     (case st of (r, s) \<Rightarrow>
        (case er_exists rdb r (dedupe_key g env) of
           None \<Rightarrow> (Some (ErrOther ''bus: dedupe check''), st)
         | Some True \<Rightarrow> (None, st)
         | Some False \<Rightarrow>
             (case next env s of
                (Some e, s1) \<Rightarrow> (Some e, (r, s1))
              | (None, s1) \<Rightarrow>
                  (case er_set rdb r (dedupe_key g env) dedupe_ttl of
                     (False, r1) \<Rightarrow> (Some (ErrOther ''bus: marking processed''), (r1, s1))
                   | (True, r1) \<Rightarrow> (None, (r1, s1))))))"

text \<open>A stream entry: its id and the text of its one field, when it has one.\<close>

record stream_entry =
  se_id :: string
  se_value :: "string option"

definition decode_envelope :: "(string \<Rightarrow> 'p envelope option) \<Rightarrow> stream_entry \<Rightarrow> 'p envelope result" where
  "decode_envelope unmarshal entry =
     (case se_value entry of
        None \<Rightarrow> Inl (ErrOther ''bus: entry has no field'')
      | Some raw \<Rightarrow>
          (case unmarshal raw of
             None \<Rightarrow> Inl (ErrOther ''bus: malformed envelope'')
           | Some env \<Rightarrow> bindR (validate_envelope env) (\<lambda>_. Inr env)))"

definition ack :: "'r event_redis \<Rightarrow> group \<Rightarrow> string \<Rightarrow> string \<Rightarrow> 'r \<times> 's \<Rightarrow> 'r \<times> 's" where
  "ack rdb g stream entry_id st = (case st of (r, s) \<Rightarrow> (snd (er_xack rdb r stream (g_name g) entry_id), s))"

definition deliver ::
  "'r event_redis \<Rightarrow> group \<Rightarrow> (string \<Rightarrow> 'p envelope option) \<Rightarrow> ('p, 'r \<times> 's) handler \<Rightarrow> string
     \<Rightarrow> stream_entry \<Rightarrow> 'r \<times> 's \<Rightarrow> 'r \<times> 's" where
  "deliver rdb g unmarshal handler stream entry st =
     (case decode_envelope unmarshal entry of
        Inl _ \<Rightarrow> ack rdb g stream (se_id entry) st
      | Inr env \<Rightarrow>
          (case handler env st of
             (Some _, st') \<Rightarrow> st'
           | (None, st') \<Rightarrow> ack rdb g stream (se_id entry) st'))"

text \<open>One read or reclaim: the entries handed over, in order.\<close>

definition deliver_all ::
  "'r event_redis \<Rightarrow> group \<Rightarrow> (string \<Rightarrow> 'p envelope option) \<Rightarrow> ('p, 'r \<times> 's) handler
     \<Rightarrow> (string \<times> stream_entry) list \<Rightarrow> 'r \<times> 's \<Rightarrow> 'r \<times> 's" where
  "deliver_all rdb g unmarshal handler entries =
     fold (\<lambda>(stream, entry). deliver rdb g unmarshal handler stream entry) entries"

section \<open>Lemmas on the relay\<close>

lemma xadd_law:
  assumes "event_redis_laws rdb v" "er_xadd rdb r s m e = (ok, r')"
  shows "vw_log v r' = (vw_log v r)(s := vw_log v r s @ [e]) \<or> \<not> ok \<and> vw_log v r' = vw_log v r"
    and "vw_keys v r' = vw_keys v r" "vw_acked v r' = vw_acked v r"
  using assms(1) [unfolded event_redis_laws_def, THEN conjunct1, rule_format, OF assms(2)] by auto

lemma exists_law: "event_redis_laws rdb v \<Longrightarrow> er_exists rdb r k = Some b \<Longrightarrow> b = (k \<in> vw_keys v r)"
  by (simp add: event_redis_laws_def)

lemma set_law:
  assumes "event_redis_laws rdb v" "er_set rdb r k t = (ok, r')"
  shows "vw_keys v r' = insert k (vw_keys v r) \<or> \<not> ok \<and> vw_keys v r' = vw_keys v r"
    and "vw_acked v r' = vw_acked v r" "vw_log v r' = vw_log v r"
  using assms(1) [unfolded event_redis_laws_def, THEN conjunct2, THEN conjunct2, THEN conjunct1, rule_format, OF assms(2)]
  by auto

lemma xack_law:
  assumes "event_redis_laws rdb v" "er_xack rdb r s g i = (ok, r')"
  shows "vw_acked v r' = insert (s, g, i) (vw_acked v r) \<or> \<not> ok \<and> vw_acked v r' = vw_acked v r"
    and "vw_keys v r' = vw_keys v r" "vw_log v r' = vw_log v r"
  using assms(1) [unfolded event_redis_laws_def, THEN conjunct2, THEN conjunct2, THEN conjunct2, rule_format, OF assms(2)]
  by auto

definition sent_to :: "string \<Rightarrow> outbox_entry list \<Rightarrow> string list" where
  "sent_to s rows = map oe_envelope (filter (\<lambda>row. oe_stream row = s) rows)"

lemma sent_to_simps [simp]:
  "sent_to s [] = []" "sent_to s (x # xs) = (if oe_stream x = s then oe_envelope x # sent_to s xs else sent_to s xs)"
  "sent_to s (xs @ ys) = sent_to s xs @ sent_to s ys"
  by (simp_all add: sent_to_def)

text \<open>A pass ships a prefix of what it claimed, each envelope to its stream and in order.\<close>

lemma ship_prefix:
  assumes "event_redis_laws rdb v" "ship rdb m rows r = ((shipped, err), r')"
  shows "\<exists>rest. rows = shipped @ rest \<and> (err = None \<longleftrightarrow> rest = [])
    \<and> (\<forall>s. \<exists>late. vw_log v r' s = vw_log v r s @ sent_to s shipped @ late \<and> (err = None \<longrightarrow> late = []))"
  using assms(2)
proof (induction rows arbitrary: r shipped)
  case Nil
  then show ?case by simp
next
  case (Cons x rows)
  obtain ok r1 where x: "er_xadd rdb r (oe_stream x) m (oe_envelope x) = (ok, r1)" by force
  have log: "vw_log v r1 = (vw_log v r)(oe_stream x := vw_log v r (oe_stream x) @ [oe_envelope x])
      \<or> (\<not> ok \<and> vw_log v r1 = vw_log v r)"
    by (rule xadd_law(1) [OF assms(1) x])
  show ?case
  proof (cases ok)
    case False
    then have "shipped = []" "r' = r1" "err \<noteq> None" using Cons.prems x by auto
    then show ?thesis using log by auto
  next
    case True
    then obtain sh where sh: "ship rdb m rows r1 = ((sh, err), r')" "shipped = x # sh"
      using Cons.prems x by (auto split: prod.splits)
    obtain rest where ih: "rows = sh @ rest" "err = None \<longleftrightarrow> rest = []"
      "\<forall>s. \<exists>late. vw_log v r' s = vw_log v r1 s @ sent_to s sh @ late \<and> (err = None \<longrightarrow> late = [])"
      using Cons.IH [OF sh(1)] by blast
    have "vw_log v r1 s @ sent_to s sh = vw_log v r s @ sent_to s shipped" for s
      using log True sh(2) by simp
    then have "\<forall>s. \<exists>late. vw_log v r' s = vw_log v r s @ sent_to s shipped @ late \<and> (err = None \<longrightarrow> late = [])"
      using ih(3) by (metis append.assoc)
    then show ?thesis using ih(1,2) sh(2) by auto
  qed
qed

lemma stamp_frame:
  "map oe_id (stamp now shipped rows) = map oe_id rows" "map oe_envelope (stamp now shipped rows) = map oe_envelope rows"
  "map oe_stream (stamp now shipped rows) = map oe_stream rows" "length (stamp now shipped rows) = length rows"
  by (simp_all add: stamp_def map_update_where)

text \<open>With nothing failing, stamping the claimed prefix leaves the rest of the backlog.\<close>

lemma filter_not_taken:
  "distinct (map k xs) \<Longrightarrow> filter (\<lambda>x. k x \<notin> k ` set (take n xs)) xs = drop n xs"
proof -
  assume d: "distinct (map k xs)"
  have "filter (\<lambda>x. k x \<notin> k ` set (take n xs)) (take n xs) = []" by (auto simp: filter_empty_conv)
  moreover have "k x \<notin> k ` set (take n xs)" if "x \<in> set (drop n xs)" for x
  proof -
    have "set (map k (take n xs)) \<inter> set (map k (drop n xs)) = {}"
      using d by (metis append_take_drop_id distinct_append map_append)
    then show ?thesis using that by auto
  qed
  then have "filter (\<lambda>x. k x \<notin> k ` set (take n xs)) (drop n xs) = drop n xs" by (simp add: filter_id_conv)
  ultimately show ?thesis by (metis append_Nil append_take_drop_id filter_append)
qed

lemma unpublished_stamp:
  assumes "distinct (map oe_id rows)"
  shows "filter (\<lambda>row. oe_published_at row = None) (stamp now
      (take n (filter (\<lambda>row. oe_published_at row = None) rows)) rows)
    = drop n (filter (\<lambda>row. oe_published_at row = None) rows)"
proof -
  let ?P = "\<lambda>row. oe_published_at row = None" and ?sh = "take n (filter (\<lambda>row. oe_published_at row = None) rows)"
  have "filter ?P (update_where q (\<lambda>row. row\<lparr>oe_published_at := Some now\<rparr>) xs)
      = filter (\<lambda>row. \<not> q row) (filter ?P xs)" for q and xs :: "outbox_entry list"
    by (induction xs) auto
  then have "filter ?P (stamp now ?sh rows) = filter (\<lambda>row. oe_id row \<notin> oe_id ` set ?sh) (filter ?P rows)"
    by (simp add: stamp_def)
  also have "\<dots> = drop n (filter ?P rows)"
    by (rule filter_not_taken) (use assms in \<open>simp add: distinct_map_filter\<close>)
  finally show ?thesis .
qed

text \<open>One pass, whatever fails.\<close>

lemma relay_batch_exact:
  assumes "event_redis_laws rdb v" "relay_batch rl rdb db (rows, r) = ((k, err), (rows', r'))"
  obtains shipped rest where
    "rd_query_fails db \<or> relay_claim rl db rows = shipped @ rest"
    "\<And>s. \<exists>late. vw_log v r' s = vw_log v r s @ sent_to s shipped @ late \<and> (err = None \<longrightarrow> late = [])"
    "rows' = rows \<or> rows' = stamp (rd_now db) shipped rows"
    "\<not> rd_query_fails db \<Longrightarrow> \<not> rd_stamp_fails db \<Longrightarrow> \<not> rd_commit_fails db \<Longrightarrow>
       rows' = stamp (rd_now db) shipped rows \<and> k = length shipped"
    "err = None \<Longrightarrow> rest = [] \<and> \<not> rd_query_fails db \<and> rows' = stamp (rd_now db) shipped rows \<and> k = length shipped"
proof (cases "rd_query_fails db")
  case True
  then have "rows' = rows" "r' = r" "err \<noteq> None" using assms(2) by (auto simp: relay_batch_def)
  then show ?thesis using that [of "[]" "[]"] True by auto
next
  case False
  obtain shipped xerr r1 where sh: "ship rdb (rl_max_len rl) (relay_claim rl db rows) r = ((shipped, xerr), r1)"
    by (metis prod.exhaust)
  obtain rest where pre: "relay_claim rl db rows = shipped @ rest" "xerr = None \<longleftrightarrow> rest = []"
    "\<forall>s. \<exists>late. vw_log v r1 s = vw_log v r s @ sent_to s shipped @ late \<and> (xerr = None \<longrightarrow> late = [])"
    using ship_prefix [OF assms(1) sh] by blast
  have nil: "stamp (rd_now db) [] rows = rows" by (simp add: stamp_def update_where_id)
  have out: "r' = r1" "rows' = rows \<or> rows' = stamp (rd_now db) shipped rows" "err = None \<longrightarrow> xerr = None"
    "\<not> rd_stamp_fails db \<longrightarrow> \<not> rd_commit_fails db \<longrightarrow> rows' = stamp (rd_now db) shipped rows \<and> k = length shipped"
    "err = None \<longrightarrow> rows' = stamp (rd_now db) shipped rows \<and> k = length shipped"
    using assms(2) False sh nil by (auto simp: relay_batch_def split: if_splits)
  show ?thesis
    by (rule that [of shipped rest]) (use False pre out in auto)
qed

text \<open>What a run of passes keeps: the rows, and that a stamped row's envelope was appended to its stream.\<close>

definition stamped_are_sent :: "'r event_view \<Rightarrow> outbox_entry list \<Rightarrow> 'r \<Rightarrow> bool" where
  "stamped_are_sent v rows r \<longleftrightarrow>
     (\<forall>row \<in> set rows. oe_published_at row \<noteq> None \<longrightarrow> oe_envelope row \<in> set (vw_log v r (oe_stream row)))"

definition still_there :: "outbox_entry list \<Rightarrow> outbox_entry list \<Rightarrow> bool" where
  "still_there rows rows' \<longleftrightarrow> list_all2 (\<lambda>a b. oe_id b = oe_id a \<and> oe_stream b = oe_stream a
     \<and> oe_envelope b = oe_envelope a \<and> (oe_published_at a \<noteq> None \<longrightarrow> oe_published_at b \<noteq> None)) rows rows'"

lemma still_there_refl: "still_there rows rows"
  by (simp add: still_there_def list_all2_refl)

lemma still_there_trans: "still_there a b \<Longrightarrow> still_there b c \<Longrightarrow> still_there a c"
  unfolding still_there_def by (rule list_all2_trans) auto

lemma still_there_stamp: "still_there rows (stamp now shipped rows)"
  unfolding still_there_def stamp_def update_where_def list_all2_map2 by (rule list.rel_refl_strong) simp

lemma batch_keeps:
  assumes "event_redis_laws rdb v" "distinct (map oe_id rows)" "stamped_are_sent v rows r"
    "relay_batch rl rdb db (rows, r) = ((k, err), (rows', r'))"
  shows "stamped_are_sent v rows' r' \<and> still_there rows rows' \<and> distinct (map oe_id rows')"
proof (rule relay_batch_exact [OF assms(1,4)])
  fix shipped rest
  assume claim: "rd_query_fails db \<or> relay_claim rl db rows = shipped @ rest"
    and log: "\<And>s. \<exists>late. vw_log v r' s = vw_log v r s @ sent_to s shipped @ late \<and> (err = None \<longrightarrow> late = [])"
    and rows': "rows' = rows \<or> rows' = stamp (rd_now db) shipped rows"
  have grown: "set (vw_log v r s) \<union> set (sent_to s shipped) \<subseteq> set (vw_log v r' s)" for s using log [of s] by auto
  have old: "stamped_are_sent v rows r'" using assms(3) grown unfolding stamped_are_sent_def by blast
  have "stamped_are_sent v (stamp (rd_now db) shipped rows) r'" if sub: "set shipped \<subseteq> set rows"
    unfolding stamped_are_sent_def
  proof (intro ballI impI)
    fix row assume row: "row \<in> set (stamp (rd_now db) shipped rows)" "oe_published_at row \<noteq> None"
    then obtain a where a: "a \<in> set rows" "oe_id row = oe_id a" "oe_envelope row = oe_envelope a"
      "oe_stream row = oe_stream a" "row = a \<or> oe_id a \<in> oe_id ` set shipped"
      by (auto simp: stamp_def set_update_where)
    show "oe_envelope row \<in> set (vw_log v r' (oe_stream row))"
    proof (cases "oe_id a \<in> oe_id ` set shipped")
      case True
      then obtain b where "b \<in> set shipped" "oe_id b = oe_id a" by auto
      then have "a \<in> set shipped" using sub a(1) assms(2) by (metis distinct_map inj_onD subsetD)
      then have "oe_envelope a \<in> set (sent_to (oe_stream a) shipped)" by (auto simp: sent_to_def)
      then show ?thesis using grown a(3,4) by auto
    next
      case False
      then show ?thesis using a row(2) old by (auto simp: stamped_are_sent_def)
    qed
  qed
  moreover have "set shipped \<subseteq> set rows" if "relay_claim rl db rows = shipped @ rest"
  proof -
    have "set (relay_claim rl db rows) \<subseteq> set rows" by (auto simp: relay_claim_def dest!: in_set_takeD)
    then show ?thesis using that by simp
  qed
  moreover have "rd_query_fails db \<Longrightarrow> rows' = rows" using assms(4) by (simp add: relay_batch_def)
  ultimately show ?thesis
    using claim rows' old assms(2) still_there_refl still_there_stamp stamp_frame(1) by metis
qed

lemma relay_run_keeps:
  assumes "event_redis_laws rdb v"
  shows "relay_run rl rdb backoff dbs (rows, r) = (rows', r') \<Longrightarrow> distinct (map oe_id rows) \<Longrightarrow>
    stamped_are_sent v rows r \<Longrightarrow> stamped_are_sent v rows' r' \<and> still_there rows rows'"
proof (induction dbs arbitrary: backoff rows r)
  case Nil
  then show ?case using still_there_refl by simp
next
  case (Cons db dbs)
  obtain k err rows1 r1 where b: "relay_batch rl rdb db (rows, r) = ((k, err), (rows1, r1))" by (metis prod.exhaust)
  then obtain backoff1 where run: "relay_run rl rdb backoff1 dbs (rows1, r1) = (rows', r')"
    using Cons.prems(1) by (cases err) (auto simp: relay_turn_def)
  have kept: "stamped_are_sent v rows1 r1 \<and> still_there rows rows1 \<and> distinct (map oe_id rows1)"
    by (rule batch_keeps [OF assms Cons.prems(2,3) b])
  then show ?case using Cons.IH [OF run] still_there_trans by blast
qed

text \<open>A pass in which nothing fails and no other relay holds rows.\<close>

definition healthy :: "relay_db \<Rightarrow> bool" where
  "healthy db \<longleftrightarrow> \<not> rd_query_fails db \<and> \<not> rd_stamp_fails db \<and> \<not> rd_commit_fails db \<and> (\<forall>i. \<not> rd_locked db i)"

definition unpublished :: "outbox_entry list \<Rightarrow> outbox_entry list" where
  "unpublished rows = filter (\<lambda>row. oe_published_at row = None) rows"

lemma ship_all:
  assumes "event_redis_laws rdb v" "\<And>r s m e. fst (er_xadd rdb r s m e)"
  shows "\<exists>r'. ship rdb m rows r = ((rows, None), r') \<and> (\<forall>s. vw_log v r' s = vw_log v r s @ sent_to s rows)"
proof -
  have "fst (fst (ship rdb m rows r)) = rows \<and> snd (fst (ship rdb m rows r)) = None" for r
  proof (induction rows arbitrary: r)
    case (Cons x rows)
    obtain r1 where "er_xadd rdb r (oe_stream x) m (oe_envelope x) = (True, r1)"
      using assms(2) [of r "oe_stream x" m "oe_envelope x"] by (metis prod.collapse)
    then show ?case using Cons.IH [of r1] by (auto split: prod.splits)
  qed simp
  then obtain r' where sh: "ship rdb m rows r = ((rows, None), r')" by (metis prod.collapse)
  have "vw_log v r' s = vw_log v r s @ sent_to s rows" for s
  proof -
    obtain rest late where "rows = rows @ rest" "vw_log v r' s = vw_log v r s @ sent_to s rows @ late" "late = []"
      using ship_prefix [OF assms(1) sh] by blast
    then show ?thesis by simp
  qed
  then show ?thesis using sh by blast
qed

lemma healthy_batch:
  assumes "event_redis_laws rdb v" "\<And>r s m e. fst (er_xadd rdb r s m e)" "healthy db" "distinct (map oe_id rows)"
  shows "\<exists>rows' r'. relay_batch rl rdb db (rows, r)
      = ((length (take (rl_batch_size rl) (unpublished rows)), None), (rows', r'))
    \<and> unpublished rows' = drop (rl_batch_size rl) (unpublished rows) \<and> distinct (map oe_id rows')
    \<and> (\<forall>s. vw_log v r' s = vw_log v r s @ sent_to s (take (rl_batch_size rl) (unpublished rows)))"
proof -
  have claim: "relay_claim rl db rows = take (rl_batch_size rl) (unpublished rows)"
    using assms(3) by (simp add: relay_claim_def healthy_def unpublished_def)
  let ?t = "take (rl_batch_size rl) (unpublished rows)"
  obtain r' where sh: "ship rdb (rl_max_len rl) ?t r = ((?t, None), r')" "\<forall>s. vw_log v r' s = vw_log v r s @ sent_to s ?t"
    using ship_all [OF assms(1,2)] by blast
  have un: "unpublished (stamp (rd_now db) ?t rows) = drop (rl_batch_size rl) (unpublished rows)"
    unfolding unpublished_def by (rule unpublished_stamp [OF assms(4)])
  have st: "relay_batch rl rdb db (rows, r) = ((length ?t, None), (stamp (rd_now db) ?t rows, r'))"
    using assms(3) sh(1) by (simp add: relay_batch_def claim healthy_def) (simp add: stamp_def update_where_id)
  show ?thesis
    by (intro exI conjI) (rule st, rule un, use assms(4) sh(2) stamp_frame(1) in metis, rule sh(2))
qed

lemma relay_run_drains:
  assumes "event_redis_laws rdb v" "\<And>r s m e. fst (er_xadd rdb r s m e)"
  shows "list_all healthy dbs \<Longrightarrow> distinct (map oe_id rows) \<Longrightarrow>
    \<exists>rows' r'. relay_run rl rdb backoff dbs (rows, r) = (rows', r')
      \<and> unpublished rows' = drop (length dbs * rl_batch_size rl) (unpublished rows)
      \<and> (\<forall>s. vw_log v r' s = vw_log v r s @ sent_to s (take (length dbs * rl_batch_size rl) (unpublished rows)))"
proof (induction dbs arbitrary: backoff rows r)
  case (Cons db dbs)
  let ?n = "rl_batch_size rl"
  obtain rows1 r1 where b: "relay_batch rl rdb db (rows, r) = ((length (take ?n (unpublished rows)), None), (rows1, r1))"
    "unpublished rows1 = drop ?n (unpublished rows)" "distinct (map oe_id rows1)"
    "\<forall>s. vw_log v r1 s = vw_log v r s @ sent_to s (take ?n (unpublished rows))"
    using healthy_batch [OF assms, of db rows rl r] Cons.prems by (auto simp: list_all_iff)
  obtain rows2 r2 where run: "relay_run rl rdb (rl_interval rl) dbs (rows1, r1) = (rows2, r2)"
    "unpublished rows2 = drop (length dbs * ?n) (unpublished rows1)"
    "\<forall>s. vw_log v r2 s = vw_log v r1 s @ sent_to s (take (length dbs * ?n) (unpublished rows1))"
  proof -
    have "\<exists>rows' r'. relay_run rl rdb (rl_interval rl) dbs (rows1, r1) = (rows', r')
      \<and> unpublished rows' = drop (length dbs * ?n) (unpublished rows1)
      \<and> (\<forall>s. vw_log v r' s = vw_log v r1 s @ sent_to s (take (length dbs * ?n) (unpublished rows1)))"
      by (rule Cons.IH) (use Cons.prems(1) b(3) in simp_all)
    then show thesis using that by blast
  qed
  have "relay_run rl rdb backoff (db # dbs) (rows, r) = (rows2, r2)"
    using run(1) by (simp add: relay_turn_def b(1))
  moreover have "take (length (db # dbs) * ?n) (unpublished rows)
      = take ?n (unpublished rows) @ take (length dbs * ?n) (unpublished rows1)"
    by (simp add: b(2) take_add add.commute)
  ultimately show ?case using run(2,3) b(2,4) by (simp add: add.commute)
qed simp

section \<open>Consuming as steps\<close>

text \<open>
  One consumer group under crashes, overlapping deliveries and redelivery. A consumer that has taken an
  entry checks the mark, runs the handler, sets the mark and acknowledges, one step each; it may stop
  after any of them. This is a specification, not a translation: \<open>dedupe\<close>, \<open>deliver\<close> and \<open>deliver_all\<close> are
  shown to be runs of it. \<open>content\<close> is what an entry decodes to. The log holds the ids of the events whose
  handler ran to success.
\<close>

datatype 'p phase =
    Resting
  | Taken string string
  | Checked string string "'p envelope"
  | Ran string string "'p envelope"
  | Settled string string

record 'p bus_state =
  bs_keys :: "string set"
  bs_acked :: "(string \<times> string \<times> string) set"
  bs_log :: "uuid list"
  bs_phase :: "nat \<Rightarrow> 'p phase"

abbreviation at_phase :: "'p bus_state \<Rightarrow> nat \<Rightarrow> 'p phase \<Rightarrow> 'p bus_state" where
  "at_phase b n ph \<equiv> b\<lparr>bs_phase := (bs_phase b)(n := ph)\<rparr>"

inductive bus_step :: "(string \<Rightarrow> string \<Rightarrow> 'p envelope option) \<Rightarrow> string
    \<Rightarrow> 'p bus_state \<Rightarrow> nat \<Rightarrow> 'p bus_state \<Rightarrow> bool"
  for content g where
  take: "bs_phase b n = Resting \<Longrightarrow> bus_step content g b n (at_phase b n (Taken s i))"
| drop: "bs_phase b n = Taken s i \<Longrightarrow> content s i = None \<Longrightarrow> bus_step content g b n (at_phase b n (Settled s i))"
| seen: "bs_phase b n = Taken s i \<Longrightarrow> content s i = Some env \<Longrightarrow> dedupe_key g env \<in> bs_keys b
    \<Longrightarrow> bus_step content g b n (at_phase b n (Settled s i))"
| unseen: "bs_phase b n = Taken s i \<Longrightarrow> content s i = Some env \<Longrightarrow> dedupe_key g env \<notin> bs_keys b
    \<Longrightarrow> bus_step content g b n (at_phase b n (Checked s i env))"
| ran: "bs_phase b n = Checked s i env
    \<Longrightarrow> bus_step content g b n (at_phase (b\<lparr>bs_log := bs_log b @ [ev_event_id env]\<rparr>) n (Ran s i env))"
| marked: "bs_phase b n = Ran s i env
    \<Longrightarrow> bus_step content g b n (at_phase (b\<lparr>bs_keys := insert (dedupe_key g env) (bs_keys b)\<rparr>) n (Settled s i))"
| mark_unconfirmed: "bs_phase b n = Ran s i env
    \<Longrightarrow> bus_step content g b n (at_phase (b\<lparr>bs_keys := insert (dedupe_key g env) (bs_keys b)\<rparr>) n Resting)"
| acked: "bs_phase b n = Settled s i
    \<Longrightarrow> bus_step content g b n (at_phase (b\<lparr>bs_acked := insert (s, g, i) (bs_acked b)\<rparr>) n Resting)"
| stop: "bus_step content g b n (at_phase b n Resting)"

definition handled :: "(string \<Rightarrow> string \<Rightarrow> 'p envelope option) \<Rightarrow> 'p bus_state \<Rightarrow> string \<Rightarrow> string \<Rightarrow> bool" where
  "handled content b s i \<longleftrightarrow> (\<forall>env. content s i = Some env \<longrightarrow> ev_event_id env \<in> set (bs_log b))"

definition bus_ok :: "(string \<Rightarrow> string \<Rightarrow> 'p envelope option) \<Rightarrow> string \<Rightarrow> 'p bus_state \<Rightarrow> bool" where
  "bus_ok content g b \<longleftrightarrow>
     (\<forall>env :: 'p envelope. dedupe_key g env \<in> bs_keys b \<longrightarrow> ev_event_id env \<in> set (bs_log b))
     \<and> (\<forall>s i. (s, g, i) \<in> bs_acked b \<longrightarrow> handled content b s i)
     \<and> (\<forall>n s i. bs_phase b n = Settled s i \<longrightarrow> handled content b s i)
     \<and> (\<forall>n s i env. bs_phase b n = Checked s i env \<longrightarrow> content s i = Some env)
     \<and> (\<forall>n s i env. bs_phase b n = Ran s i env \<longrightarrow> content s i = Some env \<and> ev_event_id env \<in> set (bs_log b))"

lemma dedupe_key_inj: "dedupe_key g env = dedupe_key g env' \<longleftrightarrow> ev_event_id env = ev_event_id env'"
  by (auto simp: dedupe_key_def uuid_string_inj)

lemma bus_step_ok:
  assumes "bus_step content g b m b'" "bus_ok content g b"
  shows "bus_ok content g b'"
  using assms
proof cases
  case (marked s i env)
  then show ?thesis using assms(2) by (auto simp: bus_ok_def handled_def dedupe_key_inj)
next
  case (mark_unconfirmed s i env)
  then show ?thesis using assms(2) by (auto simp: bus_ok_def handled_def dedupe_key_inj)
next
  case (ran s i env)
  then show ?thesis using assms(2) by (auto simp: bus_ok_def handled_def)
qed (use assms(2) in \<open>auto simp: bus_ok_def handled_def\<close>)

interpretation bus: invariant_machine "bus_step content g" "bus_ok content g" for content g
  by unfold_locales (rule bus_step_ok)

text \<open>A run names the consumer of each step.\<close>

definition bus_run ::
  "(string \<Rightarrow> string \<Rightarrow> 'p envelope option) \<Rightarrow> string \<Rightarrow> 'p bus_state \<Rightarrow> nat list \<Rightarrow> 'p bus_state \<Rightarrow> bool" where
  "bus_run content g = run_of (bus_step content g)"

definition bus_start :: "'p bus_state" where
  "bus_start = \<lparr>bs_keys = {}, bs_acked = {}, bs_log = [], bs_phase = (\<lambda>_. Resting)\<rparr>"

lemma bus_start_ok: "bus_ok content g bus_start"
  by (simp add: bus_ok_def bus_start_def)

lemma bus_run_ok: "bus_run content g b ns b' \<Longrightarrow> bus_ok content g b \<Longrightarrow> bus_ok content g b'"
  unfolding bus_run_def by (rule bus.run_inv)

text \<open>What one consumer can reach alone.\<close>

definition consumer_reaches ::
  "(string \<Rightarrow> string \<Rightarrow> 'p envelope option) \<Rightarrow> string \<Rightarrow> nat \<Rightarrow> 'p bus_state \<Rightarrow> 'p bus_state \<Rightarrow> bool" where
  "consumer_reaches content g n b b' \<longleftrightarrow> (\<exists>ns. bus_run content g b ns b' \<and> set ns \<subseteq> {n})"

lemma reaches_refl [simp]: "consumer_reaches content g n b b"
  using run_of.start [of "bus_step content g" b] by (auto simp: consumer_reaches_def bus_run_def intro: exI [of _ "[]"])

lemma reaches_step:
  assumes "consumer_reaches content g n a b" "bus_step content g b n c"
  shows "consumer_reaches content g n a c"
proof -
  obtain ns where ns: "run_of (bus_step content g) a ns b" "set ns \<subseteq> {n}"
    using assms(1) by (auto simp: consumer_reaches_def bus_run_def)
  then have "run_of (bus_step content g) a (ns @ [n]) c" using assms(2) by (rule_tac run_of.step)
  then show ?thesis using ns(2) by (auto simp: consumer_reaches_def bus_run_def intro!: exI [of _ "ns @ [n]"])
qed

lemma reaches_trans:
  assumes "consumer_reaches content g n a b" "consumer_reaches content g n b c"
  shows "consumer_reaches content g n a c"
proof -
  obtain ns ms where r: "bus_run content g a ns b" "set ns \<subseteq> {n}" "bus_run content g b ms c" "set ms \<subseteq> {n}"
    using assms by (auto simp: consumer_reaches_def)
  then have "bus_run content g a (ns @ ms) c" unfolding bus_run_def by (blast intro: run_of_trans)
  then show ?thesis using r(2,4) by (auto simp: consumer_reaches_def intro!: exI [of _ "ns @ ms"])
qed

section \<open>The code takes those steps\<close>

text \<open>A handler that keeps the log of the events it ran to success.\<close>

definition recording :: "('p, 's) handler \<Rightarrow> ('p, 's \<times> uuid list) handler" where
  "recording next env st =
     (case st of (s, lg) \<Rightarrow> (case next env s of (err, s1) \<Rightarrow>
        (err, (s1, if err = None then lg @ [ev_event_id env] else lg))))"

definition bus_of :: "'r event_view \<Rightarrow> 'r \<Rightarrow> uuid list \<Rightarrow> (nat \<Rightarrow> 'p phase) \<Rightarrow> 'p bus_state" where
  "bus_of v r lg ph = \<lparr>bs_keys = vw_keys v r, bs_acked = vw_acked v r, bs_log = lg, bs_phase = ph\<rparr>"

lemma bus_of_simps [simp]:
  "bs_keys (bus_of v r lg ph) = vw_keys v r" "bs_acked (bus_of v r lg ph) = vw_acked v r"
  "bs_log (bus_of v r lg ph) = lg" "bs_phase (bus_of v r lg ph) = ph"
  "(bus_of v r lg ph)\<lparr>bs_phase := f\<rparr> = bus_of v r lg f" "(bus_of v r lg ph)\<lparr>bs_log := l\<rparr> = bus_of v r l ph"
  by (simp_all add: bus_of_def)

lemma taken:
  assumes "ph n = Resting"
  shows "consumer_reaches content g n (bus_of v r lg ph) (bus_of v r lg (ph(n := Taken s i)))"
proof -
  have "bus_step content g (bus_of v r lg ph) n (at_phase (bus_of v r lg ph) n (Taken s i))"
    by (rule bus_step.take) (simp add: assms)
  then show ?thesis using reaches_step [OF reaches_refl] by simp
qed

text \<open>Coming to rest: stopping, and acknowledging whether or not the command is confirmed.\<close>

lemma rest_steps:
  assumes "consumer_reaches content g n a (bus_of v r lg (ph(n := x)))" "ph n = Resting"
  shows "consumer_reaches content g n a (bus_of v r lg ph)"
proof -
  have "bus_step content g (bus_of v r lg (ph(n := x))) n (at_phase (bus_of v r lg (ph(n := x))) n Resting)"
    by (rule bus_step.stop)
  moreover have "(ph(n := x))(n := Resting) = ph" using assms(2) by (simp add: fun_upd_idem)
  ultimately show ?thesis using reaches_step [OF assms(1)] by simp
qed

lemma ack_steps:
  assumes "event_redis_laws rdb v" "consumer_reaches content (g_name g) n a (bus_of v r lg (ph(n := Settled s i)))"
    and "ph n = Resting" "ack rdb g s i (r, st) = (r', st')"
  shows "st' = st \<and> consumer_reaches content (g_name g) n a (bus_of v r' lg ph)"
proof -
  obtain ok where x: "er_xack rdb r s (g_name g) i = (ok, r')" and st: "st' = st"
    using assms(4) by (cases "er_xack rdb r s (g_name g) i") (auto simp: ack_def)
  note law = xack_law [OF assms(1) x]
  let ?b = "bus_of v r lg (ph(n := Settled s i))"
  have "consumer_reaches content (g_name g) n a (bus_of v r' lg ph)"
  proof (cases "vw_acked v r' = vw_acked v r")
    case True
    then have "bus_of v r' lg ph = bus_of v r lg ph" using law(2) by (simp add: bus_of_def)
    then show ?thesis using rest_steps [OF assms(2,3)] by simp
  next
    case False
    then have acked: "vw_acked v r' = insert (s, g_name g, i) (vw_acked v r)" using law(1) by blast
    have "bus_step content (g_name g) ?b n (at_phase (?b\<lparr>bs_acked := insert (s, g_name g, i) (bs_acked ?b)\<rparr>) n Resting)"
      by (rule bus_step.acked) simp
    moreover have "at_phase (?b\<lparr>bs_acked := insert (s, g_name g, i) (bs_acked ?b)\<rparr>) n Resting = bus_of v r' lg ph"
      using assms(3) acked law(2) by (simp add: bus_of_def fun_upd_idem)
    ultimately show ?thesis using reaches_step [OF assms(2)] by simp
  qed
  then show ?thesis using st by blast
qed

definition content_of :: "(string \<Rightarrow> 'p envelope option) \<Rightarrow> stream_entry \<Rightarrow> 'p envelope option" where
  "content_of unmarshal entry = (case decode_envelope unmarshal entry of Inl _ \<Rightarrow> None | Inr env \<Rightarrow> Some env)"

text \<open>The wrapped handler, once the entry was taken.\<close>

lemma dedupe_steps:
  assumes "event_redis_laws rdb v" "dedupe rdb g (recording next) env (r, (s, lg)) = (err, (r', (s', lg')))"
    and "content stream i = Some env" "ph n = Resting"
    and "consumer_reaches content g n a (bus_of v r lg (ph(n := Taken stream i)))"
  shows "consumer_reaches content g n a (bus_of v r' lg' (if err = None then ph(n := Settled stream i) else ph))"
proof (cases "er_exists rdb r (dedupe_key g env)")
  case None
  then obtain e where "err = Some e" "r' = r" "lg' = lg" using assms(2) by (auto simp: dedupe_def)
  then show ?thesis using rest_steps [where ph = ph and n = n, OF assms(5,4)] by simp
next
  case (Some seen)
  have known: "seen = (dedupe_key g env \<in> vw_keys v r)" by (rule exists_law [OF assms(1) Some])
  let ?b = "bus_of v r lg (ph(n := Taken stream i))"
  show ?thesis
  proof (cases seen)
    case True
    then have eq: "err = None" "r' = r" "lg' = lg" using assms(2) Some by (auto simp: dedupe_def)
    have "bus_step content g ?b n (at_phase ?b n (Settled stream i))"
      by (rule bus_step.seen [where env = env]) (use assms(3) True known in simp_all)
    then show ?thesis using reaches_step [OF assms(5)] eq by simp
  next
    case False
    have "bus_step content g ?b n (at_phase ?b n (Checked stream i env))"
      by (rule bus_step.unseen) (use assms(3) False known in simp_all)
    then have chk: "consumer_reaches content g n a (bus_of v r lg (ph(n := Checked stream i env)))"
      using reaches_step [OF assms(5)] by simp
    obtain e1 s1 where nx: "next env s = (e1, s1)" by force
    show ?thesis
    proof (cases e1)
      case (Some e)
      then have "err = Some e" "r' = r" "lg' = lg"
        using assms(2) nx \<open>er_exists rdb r (dedupe_key g env) = Some seen\<close> False
        by (auto simp: dedupe_def recording_def)
      then show ?thesis using rest_steps [where ph = ph and n = n, OF chk assms(4)] by simp
    next
      case None
      let ?lg = "lg @ [ev_event_id env]"
      obtain ok r1 where set: "er_set rdb r (dedupe_key g env) dedupe_ttl = (ok, r1)" by force
      have eq: "lg' = ?lg" "r' = r1" "(err = None) = ok"
        using assms(2) nx None \<open>er_exists rdb r (dedupe_key g env) = Some seen\<close> False set
        by (auto simp: dedupe_def recording_def split: bool.splits)
      have "bus_step content g (bus_of v r lg (ph(n := Checked stream i env))) n (at_phase ((bus_of v r lg (ph(n := Checked stream i env)))\<lparr>bs_log := ?lg\<rparr>) n (Ran stream i env))"
        using bus_step.ran [of "bus_of v r lg (ph(n := Checked stream i env))" n stream i env content g] by simp
      moreover have "at_phase ((bus_of v r lg (ph(n := Checked stream i env)))\<lparr>bs_log := ?lg\<rparr>) n (Ran stream i env)
          = bus_of v r ?lg (ph(n := Ran stream i env))" by (simp add: bus_of_def)
      ultimately have took: "consumer_reaches content g n a (bus_of v r ?lg (ph(n := Ran stream i env)))"
        using reaches_step [OF chk] by simp
      note law = set_law [OF assms(1) set]
      let ?c = "bus_of v r ?lg (ph(n := Ran stream i env))"
      have mk: "at_phase (?c\<lparr>bs_keys := insert (dedupe_key g env) (bs_keys ?c)\<rparr>) n x = bus_of v r1 ?lg (ph(n := x))"
        if "vw_keys v r1 = insert (dedupe_key g env) (vw_keys v r)" for x
        using that law(2) by (simp add: bus_of_def)
      show ?thesis
      proof (cases "vw_keys v r1 = insert (dedupe_key g env) (vw_keys v r)")
        case True
        have "consumer_reaches content g n a (bus_of v r1 ?lg (ph(n := Settled stream i)))"
          using reaches_step [OF took bus_step.marked [of ?c n stream i env]] mk [OF True] by simp
        then show ?thesis using eq rest_steps [where ph = ph and n = n, OF _ assms(4)] by (cases ok) auto
      next
        case False
        then have fails: "\<not> ok" and "bus_of v r1 ?lg ph = bus_of v r ?lg ph" using law by (auto simp: bus_of_def)
        then show ?thesis using eq rest_steps [where ph = ph and n = n, OF took assms(4)] by (cases err) simp_all
      qed
    qed
  qed
qed

lemma deliver_steps:
  assumes "event_redis_laws rdb v"
    and "deliver rdb g unmarshal (dedupe rdb (g_name g) (recording next)) stream entry (r, (s, lg)) = (r', (s', lg'))"
    and "content stream (se_id entry) = content_of unmarshal entry" "ph n = Resting"
  shows "consumer_reaches content (g_name g) n (bus_of v r lg ph) (bus_of v r' lg' ph)"
proof (cases "decode_envelope unmarshal entry")
  case (Inl e)
  let ?b = "bus_of v r lg (ph(n := Taken stream (se_id entry)))"
  have "bus_step content (g_name g) ?b n (at_phase ?b n (Settled stream (se_id entry)))"
    by (rule bus_step.drop) (use assms(3) Inl in \<open>simp_all add: content_of_def\<close>)
  then have st: "consumer_reaches content (g_name g) n (bus_of v r lg ph) (bus_of v r lg (ph(n := Settled stream (se_id entry))))"
    using reaches_step [OF taken [where ph = ph and n = n, OF assms(4)]] by simp
  have "ack rdb g stream (se_id entry) (r, (s, lg)) = (r', (s', lg'))"
    using assms(2) Inl by (simp add: deliver_def)
  from ack_steps [where ph = ph and n = n, OF assms(1) st assms(4) this] show ?thesis by simp
next
  case (Inr env)
  then have con: "content stream (se_id entry) = Some env" using assms(3) by (simp add: content_of_def)
  obtain err r1 s1 lg1 where h: "dedupe rdb (g_name g) (recording next) env (r, (s, lg)) = (err, (r1, (s1, lg1)))"
    by (metis prod.exhaust)
  note st = dedupe_steps [where content = content and i = "se_id entry", OF assms(1) h con assms(4) taken [where ph = ph and n = n, OF assms(4)]]
  show ?thesis
  proof (cases err)
    case None
    then have "ack rdb g stream (se_id entry) (r1, (s1, lg1)) = (r', (s', lg'))"
      using assms(2) Inr h by (simp add: deliver_def)
    from ack_steps [where ph = ph and n = n, OF assms(1) _ assms(4) this] st None show ?thesis by simp
  next
    case (Some e)
    then have "r' = r1" "lg' = lg1" using assms(2) Inr h by (simp_all add: deliver_def)
    then show ?thesis using st Some by simp
  qed
qed

lemma deliver_all_steps:
  assumes "event_redis_laws rdb v" "ph n = Resting"
  shows "deliver_all rdb g unmarshal (dedupe rdb (g_name g) (recording next)) entries (r, (s, lg)) = (r', (s', lg'))
    \<Longrightarrow> (\<And>stream entry. (stream, entry) \<in> set entries \<Longrightarrow> content stream (se_id entry) = content_of unmarshal entry)
    \<Longrightarrow> consumer_reaches content (g_name g) n (bus_of v r lg ph) (bus_of v r' lg' ph)"
proof (induction entries arbitrary: r s lg)
  case Nil
  then show ?case by (simp add: deliver_all_def)
next
  case (Cons x entries)
  obtain stream entry where x: "x = (stream, entry)" by force
  obtain r1 s1 lg1 where d: "deliver rdb g unmarshal (dedupe rdb (g_name g) (recording next)) stream entry (r, (s, lg))
      = (r1, (s1, lg1))" by (metis prod.exhaust)
  have "consumer_reaches content (g_name g) n (bus_of v r lg ph) (bus_of v r1 lg1 ph)"
    by (rule deliver_steps [where content = content and ph = ph and n = n, OF assms(1) d])
      (use Cons.prems(2) x assms(2) in simp_all)
  moreover have "deliver_all rdb g unmarshal (dedupe rdb (g_name g) (recording next)) entries (r1, (s1, lg1))
      = (r', (s', lg'))" using Cons.prems(1) x d by (simp add: deliver_all_def)
  then have "consumer_reaches content (g_name g) n (bus_of v r1 lg1 ph) (bus_of v r' lg' ph)"
    by (rule Cons.IH) (use Cons.prems(2) in simp)
  ultimately show ?case by (rule reaches_trans)
qed

text \<open>With a store that answers, one delivery at a time runs an event's handler to success at most once.\<close>

definition answering :: "'r event_redis \<Rightarrow> bool" where
  "answering rdb \<longleftrightarrow> (\<forall>r k. er_exists rdb r k \<noteq> None) \<and> (\<forall>r k t. fst (er_set rdb r k t))"

lemma deliver_once:
  assumes "event_redis_laws rdb v" "answering rdb"
    and "deliver rdb g (unmarshal :: string \<Rightarrow> 'p envelope option) (dedupe rdb (g_name g) (recording next)) stream entry (r, (s, lg)) = (r', (s', lg'))"
    and "distinct lg" "\<And>env :: 'p envelope. ev_event_id env \<in> set lg \<Longrightarrow> dedupe_key (g_name g) env \<in> vw_keys v r"
  shows "distinct lg' \<and> (\<forall>env :: 'p envelope. ev_event_id env \<in> set lg' \<longrightarrow> dedupe_key (g_name g) env \<in> vw_keys v r')"
proof (cases "decode_envelope unmarshal entry")
  case (Inl e)
  obtain ok r1 where x: "er_xack rdb r stream (g_name g) (se_id entry) = (ok, r1)" by force
  then have "r' = r1" "lg' = lg" using assms(3) Inl by (auto simp: deliver_def ack_def)
  then show ?thesis using xack_law(2) [OF assms(1) x] assms(4,5) by simp
next
  case (Inr env)
  obtain err r1 s1 lg1 where h: "dedupe rdb (g_name g) (recording next) env (r, (s, lg)) = (err, (r1, (s1, lg1)))"
    by (metis prod.exhaust)
  have step: "distinct lg1 \<and> (\<forall>env :: 'p envelope. ev_event_id env \<in> set lg1 \<longrightarrow> dedupe_key (g_name g) env \<in> vw_keys v r1)"
  proof -
    obtain seen where seen: "er_exists rdb r (dedupe_key (g_name g) env) = Some seen"
      using assms(2) unfolding answering_def by (metis option.exhaust)
    obtain e1 s2 where nx: "next env s = (e1, s2)" by force
    obtain r2 where set: "er_set rdb r (dedupe_key (g_name g) env) dedupe_ttl = (True, r2)"
      using assms(2) unfolding answering_def by (metis prod.collapse)
    have keys: "vw_keys v r2 = insert (dedupe_key (g_name g) env) (vw_keys v r)" using set_law(1) [OF assms(1) set] by blast
    show ?thesis
    proof (cases "seen \<or> e1 \<noteq> None")
      case True
      then have "r1 = r" "lg1 = lg" using h seen nx by (auto simp: dedupe_def recording_def split: bool.splits)
      then show ?thesis using assms(4,5) by simp
    next
      case False
      then have eq: "r1 = r2" "lg1 = lg @ [ev_event_id env]"
        using h seen nx set by (auto simp: dedupe_def recording_def)
      have "dedupe_key (g_name g) env \<notin> vw_keys v r" using exists_law [OF assms(1) seen] False by blast
      then have "ev_event_id env \<notin> set lg" using assms(5) by blast
      then show ?thesis using eq keys assms(4,5) by (auto simp: dedupe_key_inj)
    qed
  qed
  show ?thesis
  proof (cases err)
    case (Some e)
    then show ?thesis using step assms(3) Inr h by (simp add: deliver_def)
  next
    case None
    obtain ok r2 where x: "er_xack rdb r1 stream (g_name g) (se_id entry) = (ok, r2)" by force
    then have "r' = r2" "lg' = lg1" using assms(3) Inr h None by (auto simp: deliver_def ack_def)
    then show ?thesis using xack_law(2) [OF assms(1) x] step by simp
  qed
qed

lemma deliver_all_once:
  assumes "event_redis_laws rdb v" "answering rdb"
  shows "deliver_all rdb g (unmarshal :: string \<Rightarrow> 'p envelope option) (dedupe rdb (g_name g) (recording next)) entries (r, (s, lg)) = (r', (s', lg'))
    \<Longrightarrow> distinct lg \<Longrightarrow> (\<forall>env :: 'p envelope. ev_event_id env \<in> set lg \<longrightarrow> dedupe_key (g_name g) env \<in> vw_keys v r)
    \<Longrightarrow> distinct lg'"
proof (induction entries arbitrary: r s lg)
  case Nil
  then show ?case by (simp add: deliver_all_def)
next
  case (Cons x entries)
  obtain stream entry where x: "x = (stream, entry)" by force
  obtain r1 s1 lg1 where d: "deliver rdb g unmarshal (dedupe rdb (g_name g) (recording next)) stream entry (r, (s, lg))
      = (r1, (s1, lg1))" by (metis prod.exhaust)
  have rest: "deliver_all rdb g unmarshal (dedupe rdb (g_name g) (recording next)) entries (r1, (s1, lg1))
      = (r', (s', lg'))" using Cons.prems(1) x d by (simp add: deliver_all_def)
  show ?case using Cons.IH [OF rest] deliver_once [OF assms d Cons.prems(2)] Cons.prems(3) by blast
qed

section \<open>Properties\<close>

text \<open>A reference store for closed instances, every command answering.\<close>

type_synonym mem_store = "(string \<Rightarrow> string list) \<times> string set \<times> (string \<times> string \<times> string) set"

definition mem_bus :: "mem_store event_redis" where
  "mem_bus = \<lparr>er_xadd = (\<lambda>(l, k, a) s m e. (True, (l(s := l s @ [e]), k, a))), er_exists = (\<lambda>(l, k, a) key. Some (key \<in> k)),
     er_set = (\<lambda>(l, k, a) key t. (True, (l, insert key k, a))),
     er_xack = (\<lambda>(l, k, a) s g i. (True, (l, k, insert (s, g, i) a)))\<rparr>"

definition mem_view :: "mem_store event_view" where
  "mem_view = \<lparr>vw_log = fst, vw_keys = (\<lambda>r. fst (snd r)), vw_acked = (\<lambda>r. snd (snd r))\<rparr>"

definition mem_empty :: mem_store where "mem_empty = ((\<lambda>_. []), {}, {})"

lemma mem_laws: "event_redis_laws mem_bus mem_view"
  by (auto simp: event_redis_laws_def mem_bus_def mem_view_def)

lemma mem_answers: "answering mem_bus" "fst (er_xadd mem_bus r s m e)"
  by (auto simp: answering_def mem_bus_def split: prod.splits)

definition calm :: relay_db where
  "calm = \<lparr>rd_now = 5, rd_locked = (\<lambda>_. False), rd_query_fails = False, rd_stamp_fails = False, rd_commit_fails = False\<rparr>"

definition two_rows :: "outbox_entry list" where
  "two_rows = [\<lparr>oe_id = 1, oe_stream = ''s'', oe_envelope = ''a'', oe_published_at = None\<rparr>,
     \<lparr>oe_id = 2, oe_stream = ''s'', oe_envelope = ''b'', oe_published_at = None\<rparr>]"

text \<open>
  C25. A committed event is never lost on its way to the bus. Through any number of relay passes, with reads,
  appends, stamps and commits failing at will, every outbox row stays in the table with its stream and
  its envelope verbatim, no stamp is taken back, and a row is stamped published only when its envelope
  was appended to its own stream; so a row the bus never saw is still there to be shipped.
\<close>

theorem outbox_rows_are_never_lost:
  assumes "event_redis_laws rdb v" "distinct (map oe_id rows)" "stamped_are_sent v rows r"
    and "relay_run rl rdb backoff dbs (rows, r) = (rows', r')"
  shows "stamped_are_sent v rows' r' \<and> still_there rows rows'"
  by (rule relay_run_keeps [OF assms(1,4,2,3)])

theorem outbox_rows_are_never_lost_witness:
  "still_there two_rows (fst (relay_run new_relay mem_bus 1 [calm\<lparr>rd_stamp_fails := True\<rparr>] (two_rows, mem_empty)))"
proof -
  have "distinct (map oe_id two_rows)" "stamped_are_sent mem_view two_rows mem_empty"
    by (simp_all add: two_rows_def stamped_are_sent_def)
  then show ?thesis
    using outbox_rows_are_never_lost [OF mem_laws _ _ prod.collapse [symmetric], THEN conjunct2] by blast
qed

text \<open>
  C27. The relay drains the backlog. As soon as nothing fails, as many passes as the backlog has batches leave
  no committed row unpublished, and each stream has received exactly the envelopes that were waiting for
  it, each once and in commit order.
\<close>

theorem relay_drains_the_backlog:
  assumes "event_redis_laws rdb v" "\<forall>r s m e. fst (er_xadd rdb r s m e)" "list_all healthy dbs"
    and "distinct (map oe_id rows)" "outbox_backlog rows \<le> length dbs * rl_batch_size rl"
  shows "\<exists>rows' r'. relay_run rl rdb backoff dbs (rows, r) = (rows', r') \<and> outbox_backlog rows' = 0
    \<and> (\<forall>s. vw_log v r' s = vw_log v r s @ sent_to s (unpublished rows))"
proof -
  obtain rows' r' where run: "relay_run rl rdb backoff dbs (rows, r) = (rows', r')"
    "unpublished rows' = drop (length dbs * rl_batch_size rl) (unpublished rows)"
    "\<forall>s. vw_log v r' s = vw_log v r s @ sent_to s (take (length dbs * rl_batch_size rl) (unpublished rows))"
    using relay_run_drains [OF assms(1) _ assms(3,4), of rl backoff r] assms(2) by blast
  have "length (unpublished rows) \<le> length dbs * rl_batch_size rl"
    using assms(5) by (simp add: outbox_backlog_def unpublished_def)
  then show ?thesis using run by (simp add: outbox_backlog_def unpublished_def [symmetric])
qed

theorem relay_drains_the_backlog_witness:
  "\<exists>rows' r'. relay_run (new_relay\<lparr>rl_batch_size := 1\<rparr>) mem_bus 1 [calm, calm] (two_rows, mem_empty) = (rows', r')
     \<and> outbox_backlog rows' = 0 \<and> vw_log mem_view r' ''s'' = [''a'', ''b'']"
proof -
  have ok: "list_all healthy [calm, calm]" "distinct (map oe_id two_rows)"
    "outbox_backlog two_rows \<le> length [calm, calm] * rl_batch_size (new_relay\<lparr>rl_batch_size := 1\<rparr>)"
    by (simp_all add: healthy_def calm_def two_rows_def outbox_backlog_def)
  have "vw_log mem_view mem_empty ''s'' @ sent_to ''s'' (unpublished two_rows) = [''a'', ''b'']"
    by (simp add: mem_view_def mem_empty_def unpublished_def two_rows_def)
  then show ?thesis
    using relay_drains_the_backlog [OF mem_laws _ ok, of 1 mem_empty] mem_answers(2) by metis
qed

text \<open>
  The consumer's promise over the code's own state: a mark and an acknowledgement both stand for an event
  whose handler ran to success.
\<close>

definition promise_kept ::
  "'r event_view \<Rightarrow> (string \<Rightarrow> string \<Rightarrow> 'p envelope option) \<Rightarrow> string \<Rightarrow> 'r \<Rightarrow> uuid list \<Rightarrow> bool" where
  "promise_kept v content g r lg \<longleftrightarrow>
     (\<forall>env :: 'p envelope. dedupe_key g env \<in> vw_keys v r \<longrightarrow> ev_event_id env \<in> set lg)
     \<and> (\<forall>s i env. (s, g, i) \<in> vw_acked v r \<longrightarrow> content s i = Some env \<longrightarrow> ev_event_id env \<in> set lg)"

lemma promise_is_bus_ok: "promise_kept v content g r lg \<longleftrightarrow> bus_ok content g (bus_of v r lg (\<lambda>_. Resting))"
  by (auto simp: promise_kept_def bus_ok_def handled_def)

definition acking :: "'r event_redis \<Rightarrow> bool" where
  "acking rdb \<longleftrightarrow> (\<forall>r s g i. fst (er_xack rdb r s g i))"

lemma ack_confirmed:
  assumes "event_redis_laws rdb v" "acking rdb" "ack rdb g s i (r, st) = (r', st')"
  shows "vw_acked v r' = insert (s, g_name g, i) (vw_acked v r)"
proof -
  obtain ok where x: "er_xack rdb r s (g_name g) i = (ok, r')" using assms(3)
    by (cases "er_xack rdb r s (g_name g) i") (auto simp: ack_def)
  moreover have ok using assms(2) x unfolding acking_def by (metis fst_conv)
  ultimately show ?thesis using xack_law(1) [OF assms(1) x] by blast
qed

lemma dedupe_acked:
  assumes "event_redis_laws rdb v" "dedupe rdb g h env (r, st) = (err, (r', st'))"
  shows "vw_acked v r' = vw_acked v r"
proof (cases "er_exists rdb r (dedupe_key g env)")
  case (Some seen)
  obtain e1 s1 where nx: "h env st = (e1, s1)" by force
  obtain ok r1 where set: "er_set rdb r (dedupe_key g env) dedupe_ttl = (ok, r1)" by force
  have "r' = r \<or> r' = r1" using assms(2) Some nx set by (auto simp: dedupe_def split: bool.splits option.splits)
  then show ?thesis using set_law(2) [OF assms(1) set] by auto
qed (use assms(2) in \<open>simp add: dedupe_def\<close>)

text \<open>A store that answers and a handler that succeeds: the delivery ends acknowledged.\<close>

lemma deliver_acks:
  assumes "event_redis_laws rdb v" "answering rdb" "acking rdb" "\<And>env s. fst (next env s) = None"
    and "deliver rdb g unmarshal (dedupe rdb (g_name g) next) stream entry (r, s) = (r', s')"
  shows "vw_acked v r' = insert (stream, g_name g, se_id entry) (vw_acked v r)"
proof (cases "decode_envelope unmarshal entry")
  case (Inl e)
  then show ?thesis using assms(5) ack_confirmed [OF assms(1,3)] by (simp add: deliver_def)
next
  case (Inr env)
  obtain err r1 s1 where h: "dedupe rdb (g_name g) next env (r, s) = (err, (r1, s1))" by (metis prod.exhaust)
  obtain seen where seen: "er_exists rdb r (dedupe_key (g_name g) env) = Some seen"
    using assms(2) unfolding answering_def by (metis option.exhaust)
  obtain r2 where set: "er_set rdb r (dedupe_key (g_name g) env) dedupe_ttl = (True, r2)"
    using assms(2) unfolding answering_def by (metis prod.collapse)
  obtain s2 where nx: "next env s = (None, s2)" using assms(4) by (metis prod.collapse)
  have "err = None" using h seen set nx by (cases seen) (auto simp: dedupe_def)
  then have acked: "ack rdb g stream (se_id entry) (r1, s1) = (r', s')" using assms(5) Inr h by (simp add: deliver_def)
  show ?thesis using ack_confirmed [OF assms(1,3) acked] dedupe_acked [OF assms(1) h] by simp
qed

lemma deliver_all_acks:
  assumes "event_redis_laws rdb v" "answering rdb" "acking rdb" "\<And>env s. fst (next env s) = None"
  shows "deliver_all rdb g unmarshal (dedupe rdb (g_name g) next) entries (r, s) = (r', s')
    \<Longrightarrow> vw_acked v r' = (\<lambda>(stream, entry). (stream, g_name g, se_id entry)) ` set entries \<union> vw_acked v r"
proof (induction entries arbitrary: r s)
  case Nil
  then show ?case by (simp add: deliver_all_def)
next
  case (Cons x entries)
  obtain stream entry where x: "x = (stream, entry)" by force
  obtain r1 s1 where d: "deliver rdb g unmarshal (dedupe rdb (g_name g) next) stream entry (r, s) = (r1, s1)"
    by (metis prod.exhaust)
  have "deliver_all rdb g unmarshal (dedupe rdb (g_name g) next) entries (r1, s1) = (r', s')"
    using Cons.prems x d by (simp add: deliver_all_def)
  from Cons.IH [OF this] show ?case using deliver_acks [OF assms d] x by auto
qed

lemma recording_succeeds: "(\<And>env s. fst (next env s) = None) \<Longrightarrow> fst (recording next env st) = None"
  by (auto simp: recording_def split: prod.splits) (metis fst_conv)

text \<open>
  C24. An acknowledged entry was handled. Deliver any batch of entries through the dedupe wrapper, with the
  store's checks, marks and acknowledgements failing or unconfirmed and the handler failing at will: if
  before it every mark and every acknowledgement of the group stood for an event whose handler had run
  to success, so they do after it. And when the store answers and the handler succeeds, every entry of
  the batch ends acknowledged, the ones that cannot be decoded included.
\<close>

theorem acknowledged_means_handled:
  assumes "event_redis_laws rdb v"
    and "deliver_all rdb g unmarshal (dedupe rdb (g_name g) (recording next)) entries (r, (s, lg)) = (r', (s', lg'))"
    and "\<forall>(stream, entry) \<in> set entries. content stream (se_id entry) = content_of unmarshal entry"
  shows "(promise_kept v content (g_name g) r lg \<longrightarrow> promise_kept v content (g_name g) r' lg')
    \<and> (answering rdb \<and> acking rdb \<and> (\<forall>env s. fst (next env s) = None) \<longrightarrow>
        (\<forall>(stream, entry) \<in> set entries. (stream, g_name g, se_id entry) \<in> vw_acked v r'))"
proof -
  have run: "consumer_reaches content (g_name g) 0 (bus_of v r lg (\<lambda>_. Resting)) (bus_of v r' lg' (\<lambda>_. Resting))"
    by (rule deliver_all_steps [where ph = "\<lambda>_. Resting", OF assms(1) refl assms(2)]) (use assms(3) in auto)
  have "promise_kept v content (g_name g) r lg \<longrightarrow> promise_kept v content (g_name g) r' lg'"
    using run bus_run_ok unfolding promise_is_bus_ok consumer_reaches_def by blast
  moreover have "\<forall>(stream, entry) \<in> set entries. (stream, g_name g, se_id entry) \<in> vw_acked v r'"
    if "answering rdb" "acking rdb" "\<forall>env s. fst (next env s) = None"
    using deliver_all_acks [OF assms(1) that(1,2) recording_succeeds assms(2)] that(3) by force
  ultimately show ?thesis by blast
qed

text \<open>One entry naming one event, read and handled.\<close>

definition one_event :: "unit envelope" where
  "one_event = \<lparr>ev_event_id = 4, ev_type = ''lead.created'', ev_version = 1, ev_occurred_at = Some 1,
     ev_actor_type = ''human'', ev_actor_id = ''u'', ev_passport_id = None, ev_on_behalf_of = None,
     ev_entity_type = ''lead'', ev_entity_id = 6, ev_payload = (), ev_correlation_id = 7, ev_causation_id = None,
     ev_audit_log_id = 8\<rparr>"

definition mail_group :: group where "mail_group = \<lparr>g_name = ''cg'', g_streams = [''s'']\<rparr>"

definition raw_entry :: stream_entry where "raw_entry = \<lparr>se_id = ''1-0'', se_value = Some ''e''\<rparr>"

definition quiet_handler :: "(unit, unit) handler" where "quiet_handler env s = (None, s)"

text \<open>
  C26. The consumer's code takes the machine's steps. Delivering any batch of entries through the dedupe
  wrapper is a run of the machine by one consumer, whatever the store and the handler answer, so what
  holds of the machine holds of it; and with a store that answers, such a batch runs the handler of one
  event to success at most once, however often the entry comes back.
\<close>

theorem delivery_refines_the_machine:
  assumes "event_redis_laws rdb v"
    and "deliver_all rdb g (unmarshal :: string \<Rightarrow> 'p envelope option) (dedupe rdb (g_name g) (recording next))
      entries (r, (s, lg)) = (r', (s', lg'))"
  shows "(ph n = Resting \<longrightarrow>
      (\<forall>(stream, entry) \<in> set entries. content stream (se_id entry) = content_of unmarshal entry) \<longrightarrow>
      consumer_reaches content (g_name g) n (bus_of v r lg ph) (bus_of v r' lg' ph))
    \<and> (answering rdb \<longrightarrow> distinct lg \<longrightarrow>
      (\<forall>env :: 'p envelope. ev_event_id env \<in> set lg \<longrightarrow> dedupe_key (g_name g) env \<in> vw_keys v r) \<longrightarrow> distinct lg')"
  using deliver_all_steps [OF assms(1) _ assms(2), of ph n content] deliver_all_once [OF assms(1) _ assms(2)]
  by blast

theorem delivery_refines_the_machine_witness:
  "distinct (snd (snd (deliver_all mem_bus mail_group (\<lambda>_. Some one_event)
     (dedupe mem_bus ''cg'' (recording quiet_handler)) [(''s'', raw_entry), (''s'', raw_entry)] (mem_empty, ((), [])))))"
proof -
  obtain r' s' lg' where run: "deliver_all mem_bus mail_group (\<lambda>_. Some one_event)
     (dedupe mem_bus (g_name mail_group) (recording quiet_handler)) [(''s'', raw_entry), (''s'', raw_entry)]
     (mem_empty, ((), [])) = (r', (s', lg'))" by (metis prod.exhaust)
  have "distinct lg'"
    using delivery_refines_the_machine [THEN conjunct2, OF mem_laws run] mem_answers(1) by simp
  then show ?thesis using run by (simp add: mail_group_def)
qed

theorem acknowledged_means_handled_witness:
  "promise_kept mem_view (\<lambda>s i. if s = ''s'' \<and> i = ''1-0'' then Some one_event else None) ''cg''
     (fst (deliver_all mem_bus mail_group (\<lambda>_. Some one_event) (dedupe mem_bus ''cg'' (recording quiet_handler))
        [(''s'', raw_entry), (''s'', raw_entry)] (mem_empty, ((), []))))
     (snd (snd (deliver_all mem_bus mail_group (\<lambda>_. Some one_event) (dedupe mem_bus ''cg'' (recording quiet_handler))
        [(''s'', raw_entry), (''s'', raw_entry)] (mem_empty, ((), [])))))"
proof -
  let ?c = "\<lambda>s i. if s = ''s'' \<and> i = ''1-0'' then Some one_event else None"
  obtain r' s' lg' where run: "deliver_all mem_bus mail_group (\<lambda>_. Some one_event)
     (dedupe mem_bus (g_name mail_group) (recording quiet_handler)) [(''s'', raw_entry), (''s'', raw_entry)]
     (mem_empty, ((), [])) = (r', (s', lg'))" by (metis prod.exhaust)
  have "decode_envelope (\<lambda>_. Some one_event) raw_entry = Inr one_event" by code_simp
  then have con: "\<forall>(stream, entry) \<in> set [(''s'', raw_entry), (''s'', raw_entry)].
      ?c stream (se_id entry) = content_of (\<lambda>_. Some one_event) entry"
    by (simp add: content_of_def) (simp add: raw_entry_def)
  have "promise_kept mem_view ?c (g_name mail_group) mem_empty []"
    by (simp add: promise_kept_def mem_view_def mem_empty_def)
  then have "promise_kept mem_view ?c (g_name mail_group) r' lg'"
    using acknowledged_means_handled [OF mem_laws run con] by blast
  then show ?thesis using run by (simp add: mail_group_def)
qed

end
