(* ===== verification/Store_Kit.thy ===== *)
theory Store_Kit
  imports Rbac Event_Catalog Text
begin

text \<open>
  The write discipline every store shares: \<^verbatim>\<open>storekit.go\<close> of
  \<^verbatim>\<open>backend/internal/platform/database/storekit\<close>. A mutation writes its audit row
  and stages its event in the transaction that makes it, both under the actor the request is bound to.
  The ledger is two append-only lists; the ids and clock readings Go mints are supplied by a \<open>kit\<close>.
\<close>

section \<open>The ledgers\<close>

type_synonym image = "(string \<times> json) list option"

record audit_row =
  al_id :: uuid
  al_actor_type :: principal_type
  al_actor_id :: string
  al_passport_id :: "uuid option"
  al_on_behalf_of :: "uuid option"
  al_action :: string
  al_entity_type :: string
  al_entity_id :: uuid
  al_before :: image
  al_after :: image
  al_evidence :: image
  al_rule :: string

record 'p staged_event =
  se_stream :: string
  se_envelope :: "'p envelope"

record 'p ledger =
  lg_audit :: "audit_row list"
  lg_outbox :: "'p staged_event list"

text \<open>
  What a call brings with it besides its context: \<open>ids.NewV7\<close> for the \<open>n\<close>th audit row and outbox
  row, \<open>time.Now\<close>, and the attribution of the extension the call runs for.
\<close>

record kit =
  kt_audit_id :: "nat \<Rightarrow> uuid"
  kt_event_id :: "nat \<Rightarrow> uuid"
  kt_now :: time
  kt_extension :: "json option"

section \<open>Who is writing\<close>

definition store_actor :: "ctx \<Rightarrow> principal result" where
  "store_actor c =
     (case ctx_actor c of None \<Rightarrow> Inl (ErrOther ''store: no actor bound to context'') | Some p \<Rightarrow> Inr p)"

definition captured_by :: "ctx \<Rightarrow> string result" where
  "captured_by c = bindR (store_actor c) (\<lambda>p. Inr (p_id p))"

definition uuid_or_nil :: "uuid \<Rightarrow> uuid option" where
  "uuid_or_nil i = (if is_zero i then None else Some i)"

section \<open>Audit\<close>

definition extension_evidence_key :: string where
  "extension_evidence_key = ''extension''"

definition with_extension_attribution :: "kit \<Rightarrow> image \<Rightarrow> image result" where
  "with_extension_attribution k evidence =
     (if (case evidence of None \<Rightarrow> False | Some kvs \<Rightarrow> obj_get kvs extension_evidence_key \<noteq> None)
      then Inl (ErrOther ''store: audit evidence key is stamped by the core'')
      else case kt_extension k of
        None \<Rightarrow> Inr evidence
      | Some ext \<Rightarrow> Inr (Some ((case evidence of None \<Rightarrow> [] | Some kvs \<Rightarrow> kvs) @ [(extension_evidence_key, ext)])))"

definition audit_with_evidence ::
  "kit \<Rightarrow> ctx \<Rightarrow> string \<Rightarrow> string \<Rightarrow> uuid \<Rightarrow> image \<Rightarrow> image \<Rightarrow> image \<Rightarrow> 'p ledger \<Rightarrow> (uuid \<times> 'p ledger) result" where
  "audit_with_evidence k c act entity_type entity_id before after evidence l =
     bindR (store_actor c) (\<lambda>p.
     bindR (with_extension_attribution k evidence) (\<lambda>ev.
       let i = kt_audit_id k (length (lg_audit l)) in
       Inr (i, l\<lparr>lg_audit := lg_audit l @ [\<lparr>al_id = i, al_actor_type = p_type p, al_actor_id = p_id p,
         al_passport_id = uuid_or_nil (p_passport_id p), al_on_behalf_of = uuid_or_nil (p_on_behalf_of p),
         al_action = act, al_entity_type = entity_type, al_entity_id = entity_id, al_before = before,
         al_after = after, al_evidence = ev, al_rule = authz_rule p entity_type act\<rparr>]\<rparr>)))"

definition audit_entry ::
  "kit \<Rightarrow> ctx \<Rightarrow> string \<Rightarrow> string \<Rightarrow> uuid \<Rightarrow> image \<Rightarrow> image \<Rightarrow> 'p ledger \<Rightarrow> (uuid \<times> 'p ledger) result" where
  "audit_entry k c act entity_type entity_id before after l =
     audit_with_evidence k c act entity_type entity_id before after None l"

section \<open>Events\<close>

definition event_envelope ::
  "kit \<Rightarrow> ctx \<Rightarrow> principal \<Rightarrow> uuid \<Rightarrow> uuid \<Rightarrow> string \<Rightarrow> string \<Rightarrow> uuid \<Rightarrow> 'p \<Rightarrow> 'p ledger \<Rightarrow> 'p envelope" where
  "event_envelope k c p corr audit_id event_type entity_type entity_id payload l =
     \<lparr>ev_event_id = kt_event_id k (length (lg_outbox l)), ev_type = event_type,
      ev_version = version_of event_type, ev_occurred_at = Some (kt_now k),
      ev_actor_type = principal_type_string (p_type p), ev_actor_id = p_id p,
      ev_passport_id = uuid_or_nil (p_passport_id p), ev_on_behalf_of = uuid_or_nil (p_on_behalf_of p),
      ev_entity_type = entity_type, ev_entity_id = entity_id, ev_payload = payload,
      ev_correlation_id = corr, ev_causation_id = ctx_causation c, ev_audit_log_id = audit_id\<rparr>"

definition emit_staged ::
  "kit \<Rightarrow> ctx \<Rightarrow> uuid \<Rightarrow> string \<Rightarrow> string \<Rightarrow> uuid \<Rightarrow> 'p \<Rightarrow> 'p ledger \<Rightarrow> 'p ledger result" where
  "emit_staged k c audit_id event_type entity_type entity_id payload l =
     bindR (store_actor c) (\<lambda>p.
       case ctx_correlation c of
         None \<Rightarrow> Inl (ErrOther ''store: no correlation id bound to context'')
       | Some corr \<Rightarrow>
           let env = event_envelope k c p corr audit_id event_type entity_type entity_id payload l in
           bindR (stream_for event_type) (\<lambda>stream.
           bindR (validate_envelope env) (\<lambda>_.
             Inr (l\<lparr>lg_outbox := lg_outbox l @ [\<lparr>se_stream = stream, se_envelope = env\<rparr>]\<rparr>))))"

text \<open>
  A payload knows its event type and its entity type; \<open>dynamic\<close> is the entity type of one whose subject
  the caller names.
\<close>

record 'p event_payload =
  py_event_type :: string
  py_entity_type :: string
  py_body :: 'p

definition dynamic_entity :: string where "dynamic_entity = ''dynamic''"

definition emit_event ::
  "kit \<Rightarrow> ctx \<Rightarrow> uuid \<Rightarrow> uuid \<Rightarrow> 'p event_payload \<Rightarrow> 'p ledger \<Rightarrow> 'p ledger result" where
  "emit_event k c audit_id entity_id py l =
     (if py_entity_type py = dynamic_entity then Inl (ErrOther ''store: a dynamic-entity event'')
      else emit_staged k c audit_id (py_event_type py) (py_entity_type py) entity_id (py_body py) l)"

definition emit_event_for_entity ::
  "kit \<Rightarrow> ctx \<Rightarrow> uuid \<Rightarrow> string \<Rightarrow> uuid \<Rightarrow> 'p event_payload \<Rightarrow> 'p ledger \<Rightarrow> 'p ledger result" where
  "emit_event_for_entity k c audit_id entity_type entity_id py l =
     (if py_entity_type py \<noteq> dynamic_entity then Inl (ErrOther ''store: a static-entity event'')
      else emit_staged k c audit_id (py_event_type py) entity_type entity_id (py_body py) l)"

definition clamp_limit :: "int option \<Rightarrow> int" where
  "clamp_limit limit =
     (case limit of None \<Rightarrow> 50 | Some n \<Rightarrow> if n < 1 then 1 else if n > 200 then 200 else n)"

section \<open>Lemmas\<close>

lemma store_actor_iff [simp]: "store_actor c = Inr p \<longleftrightarrow> ctx_actor c = Some p"
  by (auto simp: store_actor_def split: option.splits)

lemma captured_by_iff [simp]: "captured_by c = Inr s \<longleftrightarrow> (\<exists>p. ctx_actor c = Some p \<and> s = p_id p)"
  by (auto simp: captured_by_def)

text \<open>Both ledgers only grow; an audit row names its actor, an event names the audit row it belongs to.\<close>

lemma audit_entry_effect:
  assumes "audit_entry k c act et i before after l = Inr (aud, l')"
  shows "\<exists>p r. ctx_actor c = Some p \<and> lg_audit l' = lg_audit l @ [r] \<and> lg_outbox l' = lg_outbox l
    \<and> al_id r = aud \<and> al_action r = act \<and> al_entity_type r = et \<and> al_entity_id r = i
    \<and> al_actor_id r = p_id p \<and> al_before r = before \<and> al_after r = after"
  using assms by (auto simp: audit_entry_def audit_with_evidence_def Let_def)

lemma audit_entry_ok:
  "ctx_actor c = Some p \<Longrightarrow> \<exists>aud l'. audit_entry k c act et i before after l = Inr (aud, l')"
  by (auto simp: audit_entry_def audit_with_evidence_def with_extension_attribution_def store_actor_def Let_def
      split: option.splits)

lemma emit_staged_effect:
  assumes "emit_staged k c aud ty et i body l = Inr l'"
  shows "\<exists>e. lg_audit l' = lg_audit l \<and> lg_outbox l' = lg_outbox l @ [e]
    \<and> ev_type (se_envelope e) = ty \<and> ev_entity_type (se_envelope e) = et \<and> ev_entity_id (se_envelope e) = i
    \<and> ev_payload (se_envelope e) = body \<and> ev_audit_log_id (se_envelope e) = aud
    \<and> validate_envelope (se_envelope e) = Inr () \<and> stream_for ty = Inr (se_stream e)"
  using assms by (auto simp: emit_staged_def event_envelope_def Let_def split: option.splits)

lemma emit_for_entity_effect:
  assumes "emit_event_for_entity k c aud et i py l = Inr l'"
  shows "\<exists>e. lg_audit l' = lg_audit l \<and> lg_outbox l' = lg_outbox l @ [e]
    \<and> ev_type (se_envelope e) = py_event_type py \<and> ev_entity_type (se_envelope e) = et
    \<and> ev_entity_id (se_envelope e) = i \<and> ev_payload (se_envelope e) = py_body py
    \<and> ev_audit_log_id (se_envelope e) = aud"
  using assms emit_staged_effect [of k c aud "py_event_type py" et i "py_body py" l l']
  by (auto simp: emit_event_for_entity_def split: if_splits)

lemma audit_entry_id: "audit_entry k c act et i before after l = Inr (aud, l') \<Longrightarrow> aud = kt_audit_id k (length (lg_audit l))"
  by (auto simp: audit_entry_def audit_with_evidence_def Let_def)

text \<open>A request with an actor and a correlation id, ids that are minted: such a call can always write.\<close>

definition writes :: "kit \<Rightarrow> ctx \<Rightarrow> bool" where
  "writes k c \<longleftrightarrow> (\<exists>p corr. ctx_actor c = Some p \<and> p_id p \<noteq> [] \<and> principal_type_string (p_type p) \<in> set actor_types
     \<and> ctx_correlation c = Some corr \<and> \<not> is_zero corr)
     \<and> (\<forall>n. \<not> is_zero (kt_audit_id k n) \<and> \<not> is_zero (kt_event_id k n))"

lemma emit_staged_ok:
  assumes "writes k c" "\<not> is_zero aud" "et \<noteq> []" "\<not> is_zero i" "stream_for ty = Inr st"
  shows "\<exists>l'. emit_staged k c aud ty et i body l = Inr l'"
  using assms by (auto simp: writes_def emit_staged_def event_envelope_def validate_envelope_def store_actor_def Let_def)

end
