(* ===== verification/Consent_Store.thy ===== *)
theory Consent_Store
  imports Store_Kit Row_Scope "HOL-Library.List_Lexorder" "HOL-Library.Char_ord"
begin

text \<open>
  Consent as it is recorded: \<^verbatim>\<open>store.go\<close>, \<^verbatim>\<open>state.go\<close>,
  \<^verbatim>\<open>doi.go\<close> and \<^verbatim>\<open>seed.go\<close> of
  \<^verbatim>\<open>backend/internal/modules/consent\<close>. A subject's decision per purpose is one
  \<open>person_consent\<close> row; every change appends a \<open>consent_event\<close> proof row; a purpose that demands a
  double opt-in takes a grant only against a token this server issued. Tables are lists in insertion
  order; a statement of a transaction is a function of the tables.
\<close>

section \<open>Rows\<close>

datatype consent_state = StateUnknown | StateGranted | StateWithdrawn

fun state_text :: "consent_state \<Rightarrow> string" where
  "state_text StateUnknown = ''unknown''"
| "state_text StateGranted = ''granted''"
| "state_text StateWithdrawn = ''withdrawn''"

datatype purpose_class =
    ClassBusinessCorrespondence
  | ClassTransactional
  | ClassMarketing
  | ClassPhoneOutreach
  | ClassOther string

text \<open>The subject of a consent row: the one of \<open>person_id\<close> and \<open>lead_id\<close> that is set.\<close>

datatype subject_ref = Person uuid | Lead uuid

fun subject_table :: "subject_ref \<Rightarrow> string" where
  "subject_table (Person _) = ''person''"
| "subject_table (Lead _) = ''lead''"

fun subject_id :: "subject_ref \<Rightarrow> uuid" where
  "subject_id (Person i) = i"
| "subject_id (Lead i) = i"

record purpose =
  pu_id :: uuid
  pu_key :: string
  pu_label :: string
  pu_class :: purpose_class
  pu_doi :: bool
  pu_archived_at :: "time option"
  pu_created_at :: time

record consent_row =
  cr_subject :: subject_ref
  cr_purpose :: uuid
  cr_state :: consent_state
  cr_basis :: "string option"
  cr_captured_at :: "time option"
  cr_source :: "string option"

record proof_event =
  pe_subject :: subject_ref
  pe_purpose :: uuid
  pe_new_state :: consent_state
  pe_basis :: "string option"
  pe_source :: string
  pe_policy_text :: string
  pe_policy_version :: string
  pe_doi_at :: "time option"
  pe_captured_at :: time
  pe_captured_by :: string

record doi_token =
  dt_person :: uuid
  dt_purpose :: uuid
  dt_hash :: string
  dt_issued_at :: time
  dt_expires_at :: time
  dt_consumed_at :: "time option"

record qualifying_row =
  qr_person :: uuid
  qr_kind :: string
  qr_source_type :: "string option"
  qr_source_id :: "uuid option"
  qr_note :: "string option"
  qr_occurred_at :: time
  qr_source :: string
  qr_captured_by :: string

record email_row =
  em_person :: uuid
  em_email :: string
  em_archived_at :: "time option"

record channel_row =
  ch_person :: uuid
  ch_provider :: string
  ch_user_id :: string
  ch_archived_at :: "time option"

record lead_row =
  ld_id :: uuid
  ld_email :: string
  ld_archived_at :: "time option"

record message_row =
  ms_id :: uuid
  ms_direction :: string
  ms_occurred_at :: time
  ms_archived_at :: "time option"
  ms_persons :: "uuid list"

record pref_token =
  pt_person :: uuid
  pt_token :: string
  pt_created_at :: time
  pt_revoked_at :: "time option"
  pt_expires_at :: time

record consent_changed =
  cc_purpose :: uuid
  cc_key :: string
  cc_new_state :: string

record consent_db =
  cd_scope :: scope_db
  cd_purposes :: "purpose list"
  cd_consents :: "consent_row list"
  cd_proofs :: "proof_event list"
  cd_doi :: "doi_token list"
  cd_qualifying :: "qualifying_row list"
  cd_flags :: "(uuid \<times> time option) list"
  cd_emails :: "email_row list"
  cd_channels :: "channel_row list"
  cd_leads :: "lead_row list"
  cd_messages :: "message_row list"
  cd_prefs :: "pref_token list"
  cd_ledger :: "consent_changed ledger"
  cd_now :: time

text \<open>The store: its clock, what its ledger writes mint, SHA-256 in hexadecimal.\<close>

record consent_svc =
  cs_now :: time
  cs_kit :: kit
  cs_sha :: "string \<Rightarrow> string"

section \<open>Errors\<close>

datatype consent_error =
    CApp app_error
  | Invalid string string
  | BodyInvalid string string
  | ParseFailed string string

type_synonym 'a consent_tx = "consent_db \<Rightarrow> consent_error + ('a \<times> consent_db)"

definition lift_c :: "'a result \<Rightarrow> consent_error + 'a" where
  "lift_c r = (case r of Inl e \<Rightarrow> Inl (CApp e) | Inr x \<Rightarrow> Inr x)"

definition ledger_tx :: "(consent_changed ledger \<Rightarrow> ('a \<times> consent_changed ledger) result) \<Rightarrow> 'a consent_tx" where
  "ledger_tx f w = bindR (lift_c (f (cd_ledger w))) (\<lambda>(x, l). Inr (x, w\<lparr>cd_ledger := l\<rparr>))"

definition require_body_id :: "string \<Rightarrow> uuid \<Rightarrow> consent_error + unit" where
  "require_body_id field i = guardR (\<not> is_zero i) (BodyInvalid field ''required'')"

definition purpose_id_field :: string where "purpose_id_field = ''purpose_id''"

section \<open>Purposes\<close>

definition live_purposes :: "consent_db \<Rightarrow> purpose list" where
  "live_purposes w = filter (\<lambda>p. pu_archived_at p = None) (cd_purposes w)"

definition list_purposes :: "ctx \<Rightarrow> consent_db \<Rightarrow> consent_error + purpose list" where
  "list_purposes c w =
     bindR (lift_c (require c ''person'' ActionRead)) (\<lambda>_. Inr (sort_key pu_key (live_purposes w)))"

text \<open>The id the table's default mints is \<open>new_id\<close>; the class column defaults to marketing.\<close>

definition create_purpose :: "ctx \<Rightarrow> string \<Rightarrow> string \<Rightarrow> bool \<Rightarrow> uuid \<Rightarrow> consent_db \<Rightarrow> (consent_error + purpose) \<times> consent_db" where
  "create_purpose c raw_key label doi new_id w =
     (case require c ''pipeline'' ActionCreate of
        Inl e \<Rightarrow> (Inl (CApp e), w)
      | Inr _ \<Rightarrow>
          let key = trim_space (to_lower raw_key) in
          if key = [] \<or> blank label then (Inl (Invalid ''key'' ''key and label are required''), w)
          else run_tx (\<lambda>w.
            if key \<in> pu_key ` set (cd_purposes w) then Inl (CApp ErrConflict)
            else let p = \<lparr>pu_id = new_id, pu_key = key, pu_label = label, pu_class = ClassMarketing,
                   pu_doi = doi, pu_archived_at = None, pu_created_at = cd_now w\<rparr>
                 in Inr (p, w\<lparr>cd_purposes := cd_purposes w @ [p]\<rparr>)) w)"

definition load_consent_purpose :: "consent_db \<Rightarrow> uuid \<Rightarrow> consent_error + (string \<times> bool)" where
  "load_consent_purpose w i =
     (case find (\<lambda>p. pu_id p = i) (live_purposes w) of
        None \<Rightarrow> Inl (CApp ErrNotFound)
      | Some p \<Rightarrow> Inr (pu_key p, pu_doi p))"

text \<open>The catalog a workspace starts with: the two lanes consent does not gate, then the configured ones.\<close>

record purpose_seed =
  sd_key :: string
  sd_label :: string
  sd_doi :: bool
  sd_class :: purpose_class

definition class_or_marketing :: "purpose_seed \<Rightarrow> purpose_class" where
  "class_or_marketing sd = (if sd_class sd = ClassOther [] then ClassMarketing else sd_class sd)"

definition invariant_seeds :: "purpose_seed list" where
  "invariant_seeds =
     [\<lparr>sd_key = ''transactional'', sd_label = ''Transactional email'', sd_doi = False, sd_class = ClassTransactional\<rparr>,
      \<lparr>sd_key = ''business_correspondence'', sd_label = ''Business correspondence'', sd_doi = False,
       sd_class = ClassBusinessCorrespondence\<rparr>]"

fun insert_seeds :: "(nat \<Rightarrow> uuid) \<Rightarrow> (purpose_seed \<Rightarrow> purpose_class) \<Rightarrow> purpose_seed list \<Rightarrow> unit consent_tx" where
  "insert_seeds new_id class_of [] w = Inr ((), w)"
| "insert_seeds new_id class_of (sd # sds) w =
     (if sd_key sd \<in> pu_key ` set (cd_purposes w) then Inl (CApp (ErrOther ''consent_purpose_key_unique''))
      else insert_seeds new_id class_of sds (w\<lparr>cd_purposes := cd_purposes w @
        [\<lparr>pu_id = new_id (length (cd_purposes w)), pu_key = sd_key sd, pu_label = sd_label sd, pu_class = class_of sd,
          pu_doi = sd_doi sd, pu_archived_at = None, pu_created_at = cd_now w\<rparr>]\<rparr>))"

definition seed_purposes :: "(nat \<Rightarrow> uuid) \<Rightarrow> purpose_seed list \<Rightarrow> unit consent_tx" where
  "seed_purposes new_id sds w =
     bindR (insert_seeds new_id sd_class invariant_seeds w) (\<lambda>(_, w1).
       insert_seeds new_id class_or_marketing sds w1)"

definition seed_default_purposes :: "(nat \<Rightarrow> uuid) \<Rightarrow> unit consent_tx" where
  "seed_default_purposes new_id =
     seed_purposes new_id [\<lparr>sd_key = ''marketing_email'', sd_label = ''Marketing email'', sd_doi = True, sd_class = ClassMarketing\<rparr>]"

section \<open>The double opt-in\<close>

definition doi_token_ttl :: duration where "doi_token_ttl = 72 * hour"

text \<open>\<open>base64.RawURLEncoding\<close>: six bits a character, no padding.\<close>

definition b64_alphabet :: string where
  "b64_alphabet = ''ABCDEFGHIJKLMNOPQRSTUVWXYZabcdefghijklmnopqrstuvwxyz0123456789-_''"

definition b64_char :: "nat \<Rightarrow> char" where "b64_char n = b64_alphabet ! (n mod 64)"

fun raw_url_base64 :: "8 word list \<Rightarrow> string" where
  "raw_url_base64 (a # b # c # bs) =
     [b64_char (unat a div 4), b64_char ((unat a mod 4) * 16 + unat b div 16),
      b64_char ((unat b mod 16) * 4 + unat c div 64), b64_char (unat c mod 64)] @ raw_url_base64 bs"
| "raw_url_base64 [a, b] =
     [b64_char (unat a div 4), b64_char ((unat a mod 4) * 16 + unat b div 16), b64_char ((unat b mod 16) * 4)]"
| "raw_url_base64 [a] = [b64_char (unat a div 4), b64_char ((unat a mod 4) * 16)]"
| "raw_url_base64 [] = []"

text \<open>\<open>rand\<close> is the 32 bytes \<open>rand.Read\<close> fills, or nothing when it fails.\<close>

definition new_doi_token :: "8 word list option \<Rightarrow> consent_error + string" where
  "new_doi_token rand =
     (case rand of None \<Rightarrow> Inl (CApp (ErrOther ''consent: doi token entropy''))
      | Some buf \<Rightarrow> Inr (''doi_'' @ raw_url_base64 buf))"

definition issue_in_tx ::
  "consent_svc \<Rightarrow> ctx \<Rightarrow> uuid \<Rightarrow> uuid \<Rightarrow> bool \<Rightarrow> string \<Rightarrow> uuid \<Rightarrow> (string \<times> time) consent_tx" where
  "issue_in_tx s c person purpose deliver token row_id w =
     bindR (lift_c (ensure_writable c (cd_scope w) ''person'' person)) (\<lambda>_.
     bindR (load_consent_purpose w purpose) (\<lambda>(key, doi).
       if \<not> doi then Inl (Invalid purpose_id_field ''purpose does not require a double opt-in'')
       else
         let issued = cs_now s;
             expired = update_where (\<lambda>t. dt_person t = person \<and> dt_purpose t = purpose \<and> dt_consumed_at t = None
               \<and> issued < dt_expires_at t) (\<lambda>t. t\<lparr>dt_expires_at := issued\<rparr>) (cd_doi w)
         in if cs_sha s token \<in> dt_hash ` set expired
            then Inl (CApp (ErrOther ''consent_doi_token_hash_unique''))
            else bindR (ledger_tx (audit_entry (cs_kit s) c ''create'' ''consent_doi_token'' row_id None
                   (Some [(''deliver'', JBool deliver), (''expires_at'', JNum (int_string (issued + doi_token_ttl))),
                          (''person_id'', JStr (uuid_string person)), (''purpose_id'', JStr (uuid_string purpose))]))
                   (w\<lparr>cd_doi := expired @ [\<lparr>dt_person = person, dt_purpose = purpose, dt_hash = cs_sha s token,
                       dt_issued_at = issued, dt_expires_at = issued + doi_token_ttl, dt_consumed_at = None\<rparr>]\<rparr>))
                 (\<lambda>(_, w'). Inr ((token, issued + doi_token_ttl), w'))))"

definition issue_double_opt_in ::
  "consent_svc \<Rightarrow> ctx \<Rightarrow> uuid \<Rightarrow> uuid \<Rightarrow> bool \<Rightarrow> 8 word list option \<Rightarrow> uuid \<Rightarrow> consent_db
     \<Rightarrow> (consent_error + string \<times> time) \<times> consent_db" where
  "issue_double_opt_in s c person purpose deliver rand row_id w =
     (case bindR (require_body_id purpose_id_field purpose) (\<lambda>_.
             bindR (lift_c (require c ''person'' ActionUpdate)) (\<lambda>_. new_doi_token rand)) of
        Inl e \<Rightarrow> (Inl e, w)
      | Inr token \<Rightarrow> run_tx (issue_in_tx s c person purpose deliver token row_id) w)"

definition redeemable :: "consent_svc \<Rightarrow> uuid \<Rightarrow> uuid \<Rightarrow> string \<Rightarrow> doi_token \<Rightarrow> bool" where
  "redeemable s person purpose token t \<longleftrightarrow> dt_person t = person \<and> dt_purpose t = purpose
     \<and> dt_hash t = cs_sha s token \<and> dt_consumed_at t = None \<and> cs_now s < dt_expires_at t"

definition consume_doi_token :: "consent_svc \<Rightarrow> uuid \<Rightarrow> uuid \<Rightarrow> string \<Rightarrow> time consent_tx" where
  "consume_doi_token s person purpose token w =
     (if list_ex (redeemable s person purpose token) (cd_doi w)
      then Inr (cs_now s, w\<lparr>cd_doi := update_where (redeemable s person purpose token)
             (\<lambda>t. t\<lparr>dt_consumed_at := Some (cs_now s)\<rparr>) (cd_doi w)\<rparr>)
      else Inl (Invalid ''double_opt_in_token'' ''not a currently issued double opt-in token''))"

section \<open>Recording a decision\<close>

record record_input =
  ri_person :: uuid
  ri_lead :: uuid
  ri_purpose :: uuid
  ri_new_state :: string
  ri_basis :: "string option"
  ri_source :: "string option"
  ri_token :: "string option"
  ri_policy_text :: "string option"
  ri_policy_version :: "string option"
  ri_never_override :: bool

record state_out =
  so_purpose :: uuid
  so_key :: string
  so_state :: consent_state
  so_basis :: "string option"
  so_doi_at :: "time option"
  so_updated_at :: "time option"

definition consent_subject :: "record_input \<Rightarrow> consent_error + subject_ref" where
  "consent_subject inp =
     (if \<not> is_zero (ri_person inp) \<and> \<not> is_zero (ri_lead inp) then Inl (Invalid ''subject'' ''exactly one subject'')
      else if \<not> is_zero (ri_person inp) then Inr (Person (ri_person inp))
      else if \<not> is_zero (ri_lead inp) then Inr (Lead (ri_lead inp))
      else Inl (Invalid ''subject'' ''a person or a lead''))"

definition parse_recordable_state :: "string \<Rightarrow> consent_error + consent_state" where
  "parse_recordable_state raw =
     (if raw = state_text StateGranted then Inr StateGranted
      else if raw = state_text StateWithdrawn then Inr StateWithdrawn
      else Inl (ParseFailed ''state'' ''invalid_consent_state''))"

text \<open>
  The code keeps the raw state and compares texts; \<open>state_text\<close> is injective, so the parsed state is
  carried along here.
\<close>

definition admit_record :: "ctx \<Rightarrow> record_input \<Rightarrow> consent_error + (subject_ref \<times> consent_state)" where
  "admit_record c inp =
     bindR (consent_subject inp) (\<lambda>sub.
     bindR (require_body_id purpose_id_field (ri_purpose inp)) (\<lambda>_.
     bindR (lift_c (require c (subject_table sub) ActionUpdate)) (\<lambda>_.
     bindR (parse_recordable_state (ri_new_state inp)) (\<lambda>st. Inr (sub, st)))))"

definition current_state :: "consent_db \<Rightarrow> subject_ref \<Rightarrow> uuid \<Rightarrow> consent_state option" where
  "current_state w sub purpose =
     map_option cr_state (find (\<lambda>r. cr_subject r = sub \<and> cr_purpose r = purpose) (cd_consents w))"

definition resolve_doi_confirmation ::
  "consent_svc \<Rightarrow> record_input \<Rightarrow> subject_ref \<Rightarrow> consent_state \<Rightarrow> bool \<Rightarrow> (time option) consent_tx" where
  "resolve_doi_confirmation s inp sub st doi w =
     (if st \<noteq> StateGranted \<or> \<not> doi then Inr (None, w)
      else case sub of
        Lead _ \<Rightarrow> Inl (Invalid ''subject'' ''a double opt-in purpose needs a person subject'')
      | Person person \<Rightarrow>
          (case ri_token inp of
             None \<Rightarrow> Inl (Invalid ''double_opt_in_token'' ''purpose requires a confirmed double opt-in'')
           | Some token \<Rightarrow>
               if token = [] then Inl (Invalid ''double_opt_in_token'' ''purpose requires a confirmed double opt-in'')
               else bindR (consume_doi_token s person (ri_purpose inp) token w) (\<lambda>(at, w'). Inr (Some at, w'))))"

definition upsert_state :: "subject_ref \<Rightarrow> uuid \<Rightarrow> (consent_row \<Rightarrow> consent_row) \<Rightarrow> consent_row list \<Rightarrow> consent_row list" where
  "upsert_state sub purpose set_cols rows =
     (if list_ex (\<lambda>r. cr_subject r = sub \<and> cr_purpose r = purpose) rows
      then update_where (\<lambda>r. cr_subject r = sub \<and> cr_purpose r = purpose) set_cols rows
      else rows @ [set_cols \<lparr>cr_subject = sub, cr_purpose = purpose, cr_state = StateUnknown, cr_basis = None,
             cr_captured_at = None, cr_source = None\<rparr>])"

definition upsert_consent_with_proof ::
  "record_input \<Rightarrow> subject_ref \<Rightarrow> consent_state \<Rightarrow> time option \<Rightarrow> time \<Rightarrow> string \<Rightarrow> consent_db \<Rightarrow> consent_db" where
  "upsert_consent_with_proof inp sub st doi_at captured_at actor_id w =
     w\<lparr>cd_consents := upsert_state sub (ri_purpose inp)
         (\<lambda>r. r\<lparr>cr_state := st, cr_basis := ri_basis inp, cr_captured_at := Some captured_at, cr_source := ri_source inp\<rparr>)
         (cd_consents w),
       cd_proofs := cd_proofs w @ [\<lparr>pe_subject = sub, pe_purpose = ri_purpose inp, pe_new_state = st,
         pe_basis = ri_basis inp, pe_source = (case ri_source inp of None \<Rightarrow> ''api'' | Some x \<Rightarrow> x),
         pe_policy_text = (case ri_policy_text inp of None \<Rightarrow> ''recorded via API'' | Some x \<Rightarrow> x),
         pe_policy_version = (case ri_policy_version inp of None \<Rightarrow> ''v1'' | Some x \<Rightarrow> x),
         pe_doi_at = doi_at, pe_captured_at = captured_at, pe_captured_by = actor_id\<rparr>]\<rparr>"

definition state_or_unknown :: "consent_state option \<Rightarrow> string" where
  "state_or_unknown current = (case current of None \<Rightarrow> ''unknown'' | Some st \<Rightarrow> state_text st)"

definition consent_changed_payload :: "uuid \<Rightarrow> string \<Rightarrow> consent_state \<Rightarrow> consent_changed event_payload" where
  "consent_changed_payload purpose key st =
     \<lparr>py_event_type = ''consent.changed'', py_entity_type = dynamic_entity,
      py_body = \<lparr>cc_purpose = purpose, cc_key = key, cc_new_state = state_text st\<rparr>\<rparr>"

definition verdict_action :: "consent_state \<Rightarrow> string" where
  "verdict_action st = (if st = StateWithdrawn then ''consent_withdraw'' else ''consent_grant'')"

text \<open>
  What the transaction does once the current state was read: nothing for a re-assertion or for an
  anonymous capture over a decision on record, the change otherwise.
\<close>

definition record_change ::
  "consent_svc \<Rightarrow> ctx \<Rightarrow> record_input \<Rightarrow> subject_ref \<Rightarrow> consent_state \<Rightarrow> string \<Rightarrow> bool \<Rightarrow> consent_state option
     \<Rightarrow> state_out consent_tx" where
  "record_change s c inp sub st key doi current w =
     bindR (resolve_doi_confirmation s inp sub st doi w) (\<lambda>(doi_at, w1).
     bindR (lift_c (store_actor c)) (\<lambda>p.
     bindR (ledger_tx (audit_entry (cs_kit s) c (verdict_action st) (subject_table sub) (subject_id sub)
             (Some [(''state'', JStr (state_or_unknown current))])
             (Some [(''purpose'', JStr key), (''state'', JStr (state_text st))]))
             (upsert_consent_with_proof inp sub st doi_at (cs_now s) (p_id p) w1)) (\<lambda>(aud, w2).
     bindR (ledger_tx (\<lambda>l. bindR (emit_event_for_entity (cs_kit s) c aud (subject_table sub) (subject_id sub)
             (consent_changed_payload (ri_purpose inp) key st) l) (\<lambda>l'. Inr ((), l'))) w2) (\<lambda>(_, w3).
       Inr (\<lparr>so_purpose = ri_purpose inp, so_key = key, so_state = st, so_basis = ri_basis inp,
             so_doi_at = doi_at, so_updated_at = Some (cs_now s)\<rparr>, w3)))))"

definition record_after_read ::
  "consent_svc \<Rightarrow> ctx \<Rightarrow> record_input \<Rightarrow> subject_ref \<Rightarrow> consent_state \<Rightarrow> string \<Rightarrow> bool \<Rightarrow> consent_state option
     \<Rightarrow> state_out consent_tx" where
  "record_after_read s c inp sub st key doi current w =
     (if current = Some st
      then Inr (\<lparr>so_purpose = ri_purpose inp, so_key = key, so_state = st, so_basis = ri_basis inp,
                 so_doi_at = None, so_updated_at = None\<rparr>, w)
      else case (ri_never_override inp, current) of
        (True, Some cur) \<Rightarrow>
          Inr (\<lparr>so_purpose = ri_purpose inp, so_key = key, so_state = cur, so_basis = None,
                so_doi_at = None, so_updated_at = None\<rparr>, w)
      | _ \<Rightarrow> record_change s c inp sub st key doi current w)"

definition record_in_tx ::
  "consent_svc \<Rightarrow> ctx \<Rightarrow> record_input \<Rightarrow> subject_ref \<Rightarrow> consent_state \<Rightarrow> state_out consent_tx" where
  "record_in_tx s c inp sub st w =
     bindR (lift_c (ensure_writable c (cd_scope w) (subject_table sub) (subject_id sub))) (\<lambda>_.
     bindR (load_consent_purpose w (ri_purpose inp)) (\<lambda>(key, doi).
       record_after_read s c inp sub st key doi (current_state w sub (ri_purpose inp)) w))"

definition record_consent ::
  "consent_svc \<Rightarrow> ctx \<Rightarrow> record_input \<Rightarrow> consent_db \<Rightarrow> (consent_error + state_out) \<times> consent_db" where
  "record_consent s c inp w =
     (case admit_record c inp of
        Inl e \<Rightarrow> (Inl e, w)
      | Inr (sub, st) \<Rightarrow> run_tx (record_in_tx s c inp sub st) w)"

section \<open>Reading the record\<close>

text \<open>Newest first; rows are in id order, so reversing a stable sort breaks the ties by id.\<close>

definition subject_consent_in_tx ::
  "ctx \<Rightarrow> subject_ref \<Rightarrow> consent_db \<Rightarrow> consent_error + (state_out list \<times> proof_event list)" where
  "subject_consent_in_tx c sub w =
     bindR (lift_c (ensure_visible c (cd_scope w) (subject_table sub) (subject_id sub))) (\<lambda>_.
       Inr (map (\<lambda>p. let row = find (\<lambda>r. cr_subject r = sub \<and> cr_purpose r = pu_id p) (cd_consents w) in
                  \<lparr>so_purpose = pu_id p, so_key = pu_key p,
                   so_state = (case row of None \<Rightarrow> StateUnknown | Some r \<Rightarrow> cr_state r),
                   so_basis = Option.bind row cr_basis, so_doi_at = None,
                   so_updated_at = Option.bind row cr_captured_at\<rparr>) (sort_key pu_key (live_purposes w)),
            rev (sort_key pe_captured_at (filter (\<lambda>e. pe_subject e = sub) (cd_proofs w)))))"

definition subject_consent ::
  "ctx \<Rightarrow> subject_ref \<Rightarrow> consent_db \<Rightarrow> consent_error + (state_out list \<times> proof_event list)" where
  "subject_consent c sub w =
     bindR (lift_c (require c (subject_table sub) ActionRead)) (\<lambda>_. subject_consent_in_tx c sub w)"

end
