(* ===== verification/Consent_Verdict.thy ===== *)
theory Consent_Verdict
  imports Consent_Store
begin

text \<open>
  May we write to this person for this purpose: \<^verbatim>\<open>verdict.go\<close>, the transmit-time gate
  of \<^verbatim>\<open>gate.go\<close> and its readable half \<^verbatim>\<open>guard.go\<close>
  (\<^verbatim>\<open>backend/internal/modules/consent\<close>), with the recipients of
  \<^verbatim>\<open>backend/internal/shared/ports/connector/recipient.go\<close>. A verdict's reason is kept as
  the case it is rendered from; the calendar text is not modelled. Where a query orders by time and takes
  one row, rows of the same instant tie and the first of the table is taken.
\<close>

section \<open>Verdicts\<close>

datatype verdict_state = VerdictAllowed | VerdictBlocked | VerdictUnknown

record qualifying_event =
  qe_kind :: string
  qe_occurred_at :: time
  qe_source_type :: string
  qe_source_id :: "uuid option"
  qe_note :: string

datatype verdict_reason =
    Objected "time option"
  | NoConsentNeeded
  | NeverWrote
  | Qualified qualifying_event
  | NoCallPath
  | GaveConsent
  | WithdrewConsent
  | NeverConfirmed
  | ExistingCustomer
  | NoConsentRecorded

record verdict_out =
  vd_state :: verdict_state
  vd_reason :: verdict_reason
  vd_qualifying :: "qualifying_event option"
  vd_derived :: bool

definition plain_verdict :: "verdict_state \<Rightarrow> verdict_reason \<Rightarrow> verdict_out" where
  "plain_verdict st reason = \<lparr>vd_state = st, vd_reason = reason, vd_qualifying = None, vd_derived = False\<rparr>"

text \<open>\<open>ORDER BY k DESC LIMIT 1\<close>.\<close>

fun latest_by :: "('r \<Rightarrow> time) \<Rightarrow> 'r list \<Rightarrow> 'r option" where
  "latest_by k [] = None"
| "latest_by k (r # rs) =
     (case latest_by k rs of None \<Rightarrow> Some r | Some x \<Rightarrow> if k x \<le> k r then Some r else Some x)"

section \<open>What is on the record\<close>

text \<open>\<open>objectionStands\<close>: whether, and when the ledger says so.\<close>

definition objection_stands :: "consent_db \<Rightarrow> uuid \<Rightarrow> uuid \<Rightarrow> bool \<times> time option" where
  "objection_stands w person purpose =
     (if current_state w (Person person) purpose \<noteq> Some StateWithdrawn then (False, None)
      else (True, map_option pe_captured_at (latest_by pe_captured_at
        (filter (\<lambda>e. pe_subject e = Person person \<and> pe_purpose e = purpose \<and> pe_new_state e = StateWithdrawn)
          (cd_proofs w)))))"

definition recorded_qualifying_event :: "consent_db \<Rightarrow> uuid \<Rightarrow> qualifying_event option" where
  "recorded_qualifying_event w person =
     map_option (\<lambda>q. \<lparr>qe_kind = qr_kind q, qe_occurred_at = qr_occurred_at q,
         qe_source_type = (case qr_source_type q of None \<Rightarrow> [] | Some t \<Rightarrow> t), qe_source_id = qr_source_id q,
         qe_note = (case qr_note q of None \<Rightarrow> [] | Some n \<Rightarrow> n)\<rparr>)
       (latest_by qr_occurred_at (filter (\<lambda>q. qr_person q = person) (cd_qualifying w)))"

definition inbound_qualifying_event :: "consent_db \<Rightarrow> uuid \<Rightarrow> qualifying_event option" where
  "inbound_qualifying_event w person =
     map_option (\<lambda>m. \<lparr>qe_kind = ''inbound_message'', qe_occurred_at = ms_occurred_at m,
         qe_source_type = ''activity'', qe_source_id = Some (ms_id m), qe_note = []\<rparr>)
       (latest_by ms_occurred_at (filter (\<lambda>m. person \<in> set (ms_persons m) \<and> ms_direction m = ''inbound''
          \<and> ms_archived_at m = None) (cd_messages w)))"

datatype event_source = SourceNone | SourceRecorded qualifying_event | SourceDerived qualifying_event

definition latest_qualifying_event :: "consent_db \<Rightarrow> uuid \<Rightarrow> event_source" where
  "latest_qualifying_event w person =
     (case recorded_qualifying_event w person of
        Some e \<Rightarrow> SourceRecorded e
      | None \<Rightarrow> (case inbound_qualifying_event w person of None \<Rightarrow> SourceNone | Some e \<Rightarrow> SourceDerived e))"

text \<open>A grant counts under a double opt-in purpose when a confirmed proof row stands beside it.\<close>

definition confirmed :: "consent_db \<Rightarrow> subject_ref \<Rightarrow> uuid \<Rightarrow> bool" where
  "confirmed w sub purpose = list_ex (\<lambda>e. pe_subject e = sub \<and> pe_purpose e = purpose
     \<and> pe_new_state e = StateGranted \<and> pe_doi_at e \<noteq> None) (cd_proofs w)"

definition recorded_state :: "consent_db \<Rightarrow> uuid \<Rightarrow> uuid \<Rightarrow> bool \<Rightarrow> consent_state \<times> bool" where
  "recorded_state w person purpose doi =
     (case current_state w (Person person) purpose of
        None \<Rightarrow> (StateUnknown, False)
      | Some st \<Rightarrow> (st, st = StateGranted \<and> (doi \<longrightarrow> confirmed w (Person person) purpose)))"

definition existing_customer_flag :: "consent_db \<Rightarrow> uuid \<Rightarrow> bool" where
  "existing_customer_flag w person = list_ex (\<lambda>(p, revoked). p = person \<and> revoked = None) (cd_flags w)"

section \<open>The decision\<close>

definition marketing_verdict :: "consent_db \<Rightarrow> uuid \<Rightarrow> purpose \<Rightarrow> verdict_out" where
  "marketing_verdict w person pu =
     (case recorded_state w person (pu_id pu) (pu_doi pu) of (st, ok) \<Rightarrow>
        if ok then plain_verdict VerdictAllowed GaveConsent
        else if st = StateWithdrawn then plain_verdict VerdictBlocked WithdrewConsent
        else if st = StateGranted \<and> pu_doi pu then plain_verdict VerdictBlocked NeverConfirmed
        else if existing_customer_flag w person then plain_verdict VerdictAllowed ExistingCustomer
        else plain_verdict VerdictUnknown NoConsentRecorded)"

definition verdict_for_person :: "consent_db \<Rightarrow> uuid \<Rightarrow> purpose \<Rightarrow> verdict_out" where
  "verdict_for_person w person pu =
     (case objection_stands w person (pu_id pu) of
        (True, at) \<Rightarrow> plain_verdict VerdictBlocked (Objected at)
      | (False, _) \<Rightarrow>
          (case pu_class pu of
             ClassTransactional \<Rightarrow> plain_verdict VerdictAllowed NoConsentNeeded
           | ClassBusinessCorrespondence \<Rightarrow>
               (case latest_qualifying_event w person of
                  SourceNone \<Rightarrow> plain_verdict VerdictUnknown NeverWrote
                | SourceRecorded e \<Rightarrow> \<lparr>vd_state = VerdictAllowed, vd_reason = Qualified e,
                    vd_qualifying = Some e, vd_derived = False\<rparr>
                | SourceDerived e \<Rightarrow> \<lparr>vd_state = VerdictAllowed, vd_reason = Qualified e,
                    vd_qualifying = Some e, vd_derived = True\<rparr>)
           | ClassPhoneOutreach \<Rightarrow> plain_verdict VerdictBlocked NoCallPath
           | _ \<Rightarrow> marketing_verdict w person pu))"

section \<open>Stamping a derived basis\<close>

definition record_derived_qualifying_event :: "uuid \<Rightarrow> qualifying_event \<Rightarrow> string \<Rightarrow> consent_db \<Rightarrow> consent_db" where
  "record_derived_qualifying_event person e by_whom w =
     (if qe_source_id e \<noteq> None \<and> list_ex (\<lambda>q. qr_person q = person \<and> qr_source_type q = Some (qe_source_type e)
           \<and> qr_source_id q = qe_source_id e) (cd_qualifying w) then w
      else w\<lparr>cd_qualifying := cd_qualifying w @ [\<lparr>qr_person = person, qr_kind = qe_kind e,
        qr_source_type = Some (qe_source_type e), qr_source_id = qe_source_id e, qr_note = None,
        qr_occurred_at = qe_occurred_at e, qr_source = ''derived'', qr_captured_by = by_whom\<rparr>]\<rparr>)"

definition stamp_derived_basis :: "ctx \<Rightarrow> uuid \<Rightarrow> verdict_out \<Rightarrow> unit consent_tx" where
  "stamp_derived_basis c person v w =
     (case (vd_derived v, vd_qualifying v) of
        (True, Some e) \<Rightarrow> bindR (lift_c (captured_by c)) (\<lambda>by_whom.
          Inr ((), record_derived_qualifying_event person e by_whom w))
      | _ \<Rightarrow> Inr ((), w))"

section \<open>The gate\<close>

text \<open>A recipient as the transports name it; the empty address is no address.\<close>

record recipient =
  rc_email :: string
  rc_channel :: "(string \<times> string) option"

definition recipient_shape :: app_error where
  "recipient_shape = ErrOther ''connector: a recipient carries exactly one of an email address or a channel identity''"

definition validate_recipient :: "recipient \<Rightarrow> unit result" where
  "validate_recipient r =
     (if rc_email r \<noteq> [] \<and> rc_channel r \<noteq> None then Inl recipient_shape
      else if rc_email r = [] \<and> rc_channel r = None then Inl recipient_shape
      else case rc_channel r of
        None \<Rightarrow> Inr ()
      | Some (provider, user) \<Rightarrow> guardR (provider \<noteq> [] \<and> user \<noteq> []) recipient_shape)"

definition email_recipients :: "string list \<Rightarrow> recipient list" where
  "email_recipients = map (\<lambda>a. \<lparr>rc_email = a, rc_channel = None\<rparr>)"

definition live_person :: "consent_db \<Rightarrow> uuid \<Rightarrow> bool" where
  "live_person w i = exists_row (cd_scope w) ''person'' i (\<lambda>r. rr_archived_at r = None)"

text \<open>The distinct live persons a recipient names; the query stops at two.\<close>

definition persons_named :: "consent_db \<Rightarrow> recipient \<Rightarrow> uuid list" where
  "persons_named w r = remdups (filter (live_person w)
     (case rc_channel r of
        Some (provider, user) \<Rightarrow> map ch_person (filter (\<lambda>x. ch_provider x = provider \<and> ch_user_id x = user
          \<and> ch_archived_at x = None) (cd_channels w))
      | None \<Rightarrow> map em_person (filter (\<lambda>x. to_lower (em_email x) = to_lower (rc_email r)
          \<and> em_archived_at x = None) (cd_emails w))))"

definition resolve_person :: "consent_db \<Rightarrow> recipient \<Rightarrow> consent_error + uuid option" where
  "resolve_person w r =
     (case persons_named w r of
        [] \<Rightarrow> Inr None
      | [i] \<Rightarrow> Inr (Some i)
      | _ \<Rightarrow> Inl (CApp ErrConsentNotGranted))"

definition granted_for_lead :: "consent_db \<Rightarrow> recipient \<Rightarrow> uuid \<Rightarrow> bool \<Rightarrow> bool" where
  "granted_for_lead w r purpose doi =
     (rc_channel r = None \<and> list_ex (\<lambda>l. to_lower (ld_email l) = to_lower (rc_email r) \<and> ld_archived_at l = None
        \<and> current_state w (Lead (ld_id l)) purpose = Some StateGranted
        \<and> (doi \<longrightarrow> confirmed w (Lead (ld_id l)) purpose)) (cd_leads w))"

definition granted_for_recipient :: "ctx \<Rightarrow> recipient \<Rightarrow> purpose \<Rightarrow> bool consent_tx" where
  "granted_for_recipient c r pu w =
     bindR (resolve_person w r) (\<lambda>found.
       case found of
         None \<Rightarrow> Inr (granted_for_lead w r (pu_id pu) (pu_doi pu), w)
       | Some person \<Rightarrow>
           let v = verdict_for_person w person pu in
           if vd_state v \<noteq> VerdictAllowed then Inr (False, w)
           else bindR (stamp_derived_basis c person v w) (\<lambda>(_, w'). Inr (True, w')))"

fun grant_all :: "ctx \<Rightarrow> purpose \<Rightarrow> recipient list \<Rightarrow> unit consent_tx" where
  "grant_all c pu [] w = Inr ((), w)"
| "grant_all c pu (r # rs) w =
     bindR (granted_for_recipient c r pu w) (\<lambda>(ok, w').
       if \<not> ok then Inl (CApp ErrConsentNotGranted) else grant_all c pu rs w')"

fun validate_all :: "recipient list \<Rightarrow> consent_error + unit" where
  "validate_all [] = Inr ()"
| "validate_all (r # rs) = bindR (lift_c (validate_recipient r)) (\<lambda>_. validate_all rs)"

definition purpose_of_key :: "consent_db \<Rightarrow> string \<Rightarrow> purpose option" where
  "purpose_of_key w key = find (\<lambda>p. pu_key p = key) (live_purposes w)"

definition require_granted_for_recipients ::
  "ctx \<Rightarrow> recipient list \<Rightarrow> string \<Rightarrow> consent_db \<Rightarrow> (consent_error + unit) \<times> consent_db" where
  "require_granted_for_recipients c rs key w =
     (if rs = [] then (Inl (CApp ErrConsentNotGranted), w)
      else case validate_all rs of
        Inl e \<Rightarrow> (Inl e, w)
      | Inr _ \<Rightarrow> run_tx (\<lambda>w.
          case purpose_of_key w (trim_space (to_lower key)) of
            None \<Rightarrow> Inl (CApp ErrConsentNotGranted)
          | Some pu \<Rightarrow> grant_all c pu rs w) w)"

definition require_granted_for_emails ::
  "ctx \<Rightarrow> string list \<Rightarrow> string \<Rightarrow> consent_db \<Rightarrow> (consent_error + unit) \<times> consent_db" where
  "require_granted_for_emails c addresses key w = require_granted_for_recipients c (email_recipients addresses) key w"

section \<open>The readable half\<close>

definition class_rank :: "purpose_class \<Rightarrow> nat" where
  "class_rank cl = (case cl of ClassBusinessCorrespondence \<Rightarrow> 0 | ClassTransactional \<Rightarrow> 1 | ClassMarketing \<Rightarrow> 2 | _ \<Rightarrow> 3)"

definition purposes_for_guard :: "consent_db \<Rightarrow> purpose list" where
  "purposes_for_guard w = sort_key (\<lambda>p. class_rank (pu_class p)) (sort_key pu_key (live_purposes w))"

datatype guard_channel = ChannelEmail | ChannelPhone

definition channel_for :: "purpose_class \<Rightarrow> guard_channel" where
  "channel_for cl = (if cl = ClassPhoneOutreach then ChannelPhone else ChannelEmail)"

record guard_entry =
  ge_key :: string
  ge_label :: string
  ge_class :: purpose_class
  ge_channel :: guard_channel
  ge_verdict :: verdict_state
  ge_reason :: verdict_reason
  ge_qualifying :: "qualifying_event option"

definition wire_guard_entry :: "purpose \<Rightarrow> verdict_out \<Rightarrow> guard_entry" where
  "wire_guard_entry pu v = \<lparr>ge_key = pu_key pu, ge_label = pu_label pu, ge_class = pu_class pu,
     ge_channel = channel_for (pu_class pu), ge_verdict = vd_state v, ge_reason = vd_reason v,
     ge_qualifying = vd_qualifying v\<rparr>"

definition person_consent_guard :: "ctx \<Rightarrow> uuid \<Rightarrow> consent_db \<Rightarrow> consent_error + guard_entry list" where
  "person_consent_guard c person w =
     bindR (lift_c (require c ''person'' ActionRead)) (\<lambda>_.
     bindR (lift_c (ensure_visible_live c (cd_scope w) ''person'' person)) (\<lambda>_.
       Inr (map (\<lambda>pu. wire_guard_entry pu (verdict_for_person w person pu)) (purposes_for_guard w))))"

section \<open>Lemmas\<close>

lemma latest_by_None [simp]: "latest_by k rs = None \<longleftrightarrow> rs = []"
  by (induction rs) (auto split: option.splits)

lemma latest_by_mem: "latest_by k rs = Some x \<Longrightarrow> x \<in> set rs"
  by (induction rs arbitrary: x) (auto split: option.splits if_splits)

lemma latest_by_max: "latest_by k rs = Some x \<Longrightarrow> y \<in> set rs \<Longrightarrow> k y \<le> k x"
  by (induction rs arbitrary: x) (fastforce split: option.splits if_splits)+

lemma plain_verdict_simps [simp]:
  "vd_state (plain_verdict st rs) = st" "vd_reason (plain_verdict st rs) = rs"
  "vd_qualifying (plain_verdict st rs) = None" "\<not> vd_derived (plain_verdict st rs)"
  by (simp_all add: plain_verdict_def)

definition objected :: "consent_db \<Rightarrow> subject_ref \<Rightarrow> uuid \<Rightarrow> bool" where
  "objected w sub purpose \<longleftrightarrow> current_state w sub purpose = Some StateWithdrawn"

lemma objection_stands_iff: "fst (objection_stands w person purpose) = objected w (Person person) purpose"
  by (simp add: objection_stands_def objected_def)

text \<open>The basis a correspondence is written on: a recorded event, or a message they sent.\<close>

definition corresponded :: "consent_db \<Rightarrow> uuid \<Rightarrow> bool" where
  "corresponded w person \<longleftrightarrow> list_ex (\<lambda>q. qr_person q = person) (cd_qualifying w)
     \<or> list_ex (\<lambda>m. person \<in> set (ms_persons m) \<and> ms_direction m = ''inbound'' \<and> ms_archived_at m = None) (cd_messages w)"

lemma filter_nonempty_iff: "filter P rs \<noteq> [] \<longleftrightarrow> list_ex P rs"
  by (auto simp: list_ex_iff filter_empty_conv)

lemma inbound_iff: "inbound_qualifying_event w i \<noteq> None \<longleftrightarrow>
    list_ex (\<lambda>m. i \<in> set (ms_persons m) \<and> ms_direction m = ''inbound'' \<and> ms_archived_at m = None) (cd_messages w)"
  by (simp add: inbound_qualifying_event_def filter_nonempty_iff)

lemma recorded_iff: "recorded_qualifying_event w i \<noteq> None \<longleftrightarrow> list_ex (\<lambda>q. qr_person q = i) (cd_qualifying w)"
  by (simp add: recorded_qualifying_event_def filter_nonempty_iff)

lemma latest_qualifying_iff: "latest_qualifying_event w person \<noteq> SourceNone \<longleftrightarrow> corresponded w person"
  unfolding corresponded_def inbound_iff [symmetric] recorded_iff [symmetric]
  by (auto simp: latest_qualifying_event_def split: option.splits)

text \<open>What the marketing lane asks for.\<close>

definition marketing_basis :: "consent_db \<Rightarrow> uuid \<Rightarrow> purpose \<Rightarrow> bool" where
  "marketing_basis w person pu \<longleftrightarrow>
     (if current_state w (Person person) (pu_id pu) = Some StateGranted
      then \<not> pu_doi pu \<or> confirmed w (Person person) (pu_id pu)
      else existing_customer_flag w person)"

lemma recorded_state_simps:
  "snd (recorded_state w i pid doi) \<longleftrightarrow> current_state w (Person i) pid = Some StateGranted
     \<and> (doi \<longrightarrow> confirmed w (Person i) pid)"
  "fst (recorded_state w i pid doi) = (case current_state w (Person i) pid of None \<Rightarrow> StateUnknown | Some st \<Rightarrow> st)"
  by (auto simp: recorded_state_def split: option.splits)

lemma marketing_allowed_iff:
  assumes "\<not> objected w (Person i) (pu_id pu)"
  shows "vd_state (marketing_verdict w i pu) = VerdictAllowed \<longleftrightarrow> marketing_basis w i pu"
  using assms
  by (cases "current_state w (Person i) (pu_id pu)")
    (auto simp: marketing_verdict_def recorded_state_def marketing_basis_def objected_def)

lemma marketing_blocked_iff:
  assumes "\<not> objected w (Person i) (pu_id pu)"
  shows "vd_state (marketing_verdict w i pu) = VerdictBlocked \<longleftrightarrow>
    current_state w (Person i) (pu_id pu) = Some StateGranted \<and> \<not> marketing_basis w i pu"
  using assms
  by (cases "current_state w (Person i) (pu_id pu)")
    (auto simp: marketing_verdict_def recorded_state_def marketing_basis_def objected_def)

definition lawful_basis :: "consent_db \<Rightarrow> uuid \<Rightarrow> purpose \<Rightarrow> bool" where
  "lawful_basis w person pu \<longleftrightarrow>
     (case pu_class pu of
        ClassTransactional \<Rightarrow> True
      | ClassBusinessCorrespondence \<Rightarrow> corresponded w person
      | ClassPhoneOutreach \<Rightarrow> False
      | _ \<Rightarrow> marketing_basis w person pu)"

lemma verdict_objected:
  "objected w (Person i) (pu_id pu) \<Longrightarrow> vd_state (verdict_for_person w i pu) = VerdictBlocked"
  by (auto simp: verdict_for_person_def objected_def objection_stands_def)

lemma verdict_open:
  assumes "\<not> objected w (Person i) (pu_id pu)"
  shows "verdict_for_person w i pu =
    (case pu_class pu of
       ClassTransactional \<Rightarrow> plain_verdict VerdictAllowed NoConsentNeeded
     | ClassBusinessCorrespondence \<Rightarrow>
         (case latest_qualifying_event w i of
            SourceNone \<Rightarrow> plain_verdict VerdictUnknown NeverWrote
          | SourceRecorded e \<Rightarrow> \<lparr>vd_state = VerdictAllowed, vd_reason = Qualified e, vd_qualifying = Some e, vd_derived = False\<rparr>
          | SourceDerived e \<Rightarrow> \<lparr>vd_state = VerdictAllowed, vd_reason = Qualified e, vd_qualifying = Some e, vd_derived = True\<rparr>)
     | ClassPhoneOutreach \<Rightarrow> plain_verdict VerdictBlocked NoCallPath
     | _ \<Rightarrow> marketing_verdict w i pu)"
  using assms by (simp add: verdict_for_person_def objected_def objection_stands_def)

lemma verdict_allowed_iff:
  "vd_state (verdict_for_person w i pu) = VerdictAllowed \<longleftrightarrow>
     \<not> objected w (Person i) (pu_id pu) \<and> lawful_basis w i pu"
proof (cases "objected w (Person i) (pu_id pu)")
  case True
  then show ?thesis by (simp add: verdict_objected)
next
  case False
  then show ?thesis
    using latest_qualifying_iff [of w i] marketing_allowed_iff [OF False]
    by (auto simp: verdict_open lawful_basis_def split: purpose_class.splits event_source.splits)
qed

lemma verdict_blocked_iff:
  "vd_state (verdict_for_person w i pu) = VerdictBlocked \<longleftrightarrow>
     objected w (Person i) (pu_id pu) \<or> pu_class pu = ClassPhoneOutreach
     \<or> (\<not> lawful_basis w i pu \<and> pu_class pu \<noteq> ClassBusinessCorrespondence
        \<and> current_state w (Person i) (pu_id pu) = Some StateGranted)"
proof (cases "objected w (Person i) (pu_id pu)")
  case True
  then show ?thesis by (simp add: verdict_objected)
next
  case False
  then show ?thesis
    using marketing_blocked_iff [OF False]
    by (auto simp: verdict_open lawful_basis_def split: purpose_class.splits event_source.splits)
qed

text \<open>A derived basis belongs to correspondence, and comes from a message on the timeline.\<close>

lemma derived_iff:
  "vd_derived (verdict_for_person w i pu) \<longleftrightarrow>
     \<not> objected w (Person i) (pu_id pu) \<and> pu_class pu = ClassBusinessCorrespondence
     \<and> recorded_qualifying_event w i = None \<and> corresponded w i"
proof (cases "objected w (Person i) (pu_id pu)")
  case True
  then show ?thesis by (auto simp: verdict_for_person_def objected_def objection_stands_def)
next
  case False
  have market: "\<not> vd_derived (marketing_verdict w i pu)"
    by (auto simp: marketing_verdict_def split: prod.splits)
  have src: "(\<exists>e. latest_qualifying_event w i = SourceDerived e) \<longleftrightarrow> recorded_qualifying_event w i = None \<and> corresponded w i"
    using latest_qualifying_iff [of w i] by (auto simp: latest_qualifying_event_def split: option.splits)
  show ?thesis using False market src
    by (auto simp: verdict_open split: purpose_class.splits event_source.splits)
qed

lemma derived_event:
  assumes "vd_derived (verdict_for_person w i pu)"
  shows "\<exists>e. vd_qualifying (verdict_for_person w i pu) = Some e \<and> qe_source_id e \<noteq> None \<and> qe_source_type e = ''activity''"
proof -
  have open': "\<not> objected w (Person i) (pu_id pu)" "pu_class pu = ClassBusinessCorrespondence"
    using assms derived_iff by blast+
  then obtain e where "latest_qualifying_event w i = SourceDerived e"
    using assms by (auto simp: verdict_open split: event_source.splits)
  then show ?thesis using open'
    by (auto simp: verdict_open latest_qualifying_event_def inbound_qualifying_event_def split: option.splits)
qed

subsection \<open>Stamping keeps every verdict and makes it recorded\<close>

definition stamped_more :: "consent_db \<Rightarrow> consent_db \<Rightarrow> bool" where
  "stamped_more w w' \<longleftrightarrow> (\<exists>more. w' = w\<lparr>cd_qualifying := cd_qualifying w @ more\<rparr>
     \<and> (\<forall>q \<in> set more. corresponded w (qr_person q)))"

lemma stamped_refl [simp]: "stamped_more w w"
  by (auto simp: stamped_more_def intro: exI [of _ "[]"])

lemma stamped_corresponded:
  assumes "stamped_more w w'"
  shows "corresponded w' i \<longleftrightarrow> corresponded w i"
proof -
  obtain more where w': "w' = w\<lparr>cd_qualifying := cd_qualifying w @ more\<rparr>" "\<forall>q \<in> set more. corresponded w (qr_person q)"
    using assms by (auto simp: stamped_more_def)
  have "corresponded w' i \<longleftrightarrow> corresponded w i \<or> (\<exists>q \<in> set more. qr_person q = i)"
    by (auto simp: w'(1) corresponded_def list_ex_iff)
  then show ?thesis using w'(2) by auto
qed

lemma stamped_trans:
  assumes "stamped_more a b" "stamped_more b c"
  shows "stamped_more a c"
proof -
  obtain xs ys where ab: "b = a\<lparr>cd_qualifying := cd_qualifying a @ xs\<rparr>" "\<forall>q \<in> set xs. corresponded a (qr_person q)"
    and bc: "c = b\<lparr>cd_qualifying := cd_qualifying b @ ys\<rparr>" "\<forall>q \<in> set ys. corresponded b (qr_person q)"
    using assms by (auto simp: stamped_more_def)
  have "c = a\<lparr>cd_qualifying := cd_qualifying a @ (xs @ ys)\<rparr>" using ab(1) bc(1) by simp
  moreover have "\<forall>q \<in> set (xs @ ys). corresponded a (qr_person q)"
    using ab(2) bc(2) stamped_corresponded [OF assms(1)] by auto
  ultimately show ?thesis unfolding stamped_more_def by blast
qed

lemma live_person_stamped [simp]: "live_person (w\<lparr>cd_qualifying := x\<rparr>) = live_person w"
  by (simp add: live_person_def fun_eq_iff)

lemma stamped_reads:
  assumes "stamped_more w w'"
  shows "current_state w' = current_state w" "confirmed w' = confirmed w" "existing_customer_flag w' = existing_customer_flag w"
    "objected w' = objected w" "persons_named w' = persons_named w" "granted_for_lead w' = granted_for_lead w"
    "live_purposes w' = live_purposes w"
  using assms
  by (auto simp: stamped_more_def current_state_def confirmed_def existing_customer_flag_def objected_def
      persons_named_def granted_for_lead_def live_purposes_def fun_eq_iff split: option.splits)

lemma stamped_basis: "stamped_more w w' \<Longrightarrow> lawful_basis w' i pu \<longleftrightarrow> lawful_basis w i pu"
  by (auto simp: lawful_basis_def marketing_basis_def stamped_reads stamped_corresponded split: purpose_class.splits)

lemma stamped_verdict:
  "stamped_more w w' \<Longrightarrow>
     vd_state (verdict_for_person w' i pu) = VerdictAllowed \<longleftrightarrow> vd_state (verdict_for_person w i pu) = VerdictAllowed"
  by (simp add: verdict_allowed_iff stamped_reads stamped_basis)

text \<open>What a pass for one person has to leave behind.\<close>

definition accounted :: "consent_db \<Rightarrow> uuid \<Rightarrow> purpose \<Rightarrow> bool" where
  "accounted w i pu \<longleftrightarrow> pu_class pu = ClassBusinessCorrespondence \<longrightarrow> list_ex (\<lambda>q. qr_person q = i) (cd_qualifying w)"

lemma accounted_more: "accounted w i pu \<Longrightarrow> stamped_more w w' \<Longrightarrow> accounted w' i pu"
  by (auto simp: accounted_def stamped_more_def)

lemma stamp_effect:
  assumes "stamp_derived_basis c i (verdict_for_person w i pu) w = Inr (u, w')"
    and "vd_state (verdict_for_person w i pu) = VerdictAllowed"
  shows "stamped_more w w' \<and> accounted w' i pu"
proof (cases "vd_derived (verdict_for_person w i pu)")
  case True
  then obtain e by_whom where w': "w' = record_derived_qualifying_event i e by_whom w"
    using assms(1) derived_event [OF True] by (auto simp: stamp_derived_basis_def)
  have "corresponded w i" using True derived_iff by blast
  then have "stamped_more w w'"
    unfolding w' record_derived_qualifying_event_def stamped_more_def
    by (auto intro: exI [of _ "[]"])
  moreover have "accounted w' i pu"
    by (auto simp: w' record_derived_qualifying_event_def accounted_def list_ex_iff)
  ultimately show ?thesis by blast
next
  case False
  have "pu_class pu = ClassBusinessCorrespondence \<Longrightarrow> recorded_qualifying_event w i \<noteq> None"
    using assms(2) False derived_iff [of w i pu] by (auto simp: verdict_allowed_iff lawful_basis_def)
  then have "accounted w i pu"
    by (auto simp: accounted_def recorded_qualifying_event_def filter_empty_conv list_ex_iff)
  then show ?thesis using assms(1) False by (auto simp: stamp_derived_basis_def split: bool.splits)
qed

lemma stamp_ok: "ctx_actor c = Some p \<Longrightarrow> \<exists>w'. stamp_derived_basis c i v w = Inr ((), w')"
  by (auto simp: stamp_derived_basis_def lift_c_def captured_by_def store_actor_def split: option.splits bool.splits)

subsection \<open>The gate over a list of recipients\<close>

definition recipient_ok :: "consent_db \<Rightarrow> purpose \<Rightarrow> recipient \<Rightarrow> bool" where
  "recipient_ok w pu r \<longleftrightarrow>
     (case persons_named w r of
        [] \<Rightarrow> granted_for_lead w r (pu_id pu) (pu_doi pu)
      | [i] \<Rightarrow> vd_state (verdict_for_person w i pu) = VerdictAllowed
      | _ \<Rightarrow> False)"

lemma recipient_ok_stamped: "stamped_more w w' \<Longrightarrow> recipient_ok w' pu r \<longleftrightarrow> recipient_ok w pu r"
  by (auto simp: recipient_ok_def stamped_reads stamped_verdict split: list.splits)

lemma granted_for_recipient_effect:
  assumes "granted_for_recipient c r pu w = Inr (ok, w')"
  shows "stamped_more w w' \<and> ok = recipient_ok w pu r \<and> (ok \<longrightarrow> (\<forall>i. persons_named w r = [i] \<longrightarrow> accounted w' i pu))"
  using assms stamp_effect [of c _ w pu]
  by (auto simp: granted_for_recipient_def resolve_person_def recipient_ok_def Let_def split: list.splits if_splits)

lemma granted_for_recipient_ok:
  assumes "ctx_actor c = Some p" "recipient_ok w pu r"
  shows "\<exists>w'. granted_for_recipient c r pu w = Inr (True, w')"
  using assms stamp_ok [OF assms(1)]
  by (fastforce simp: granted_for_recipient_def resolve_person_def recipient_ok_def Let_def split: list.splits)

lemma grant_all_effect:
  "grant_all c pu rs w = Inr (u, w') \<Longrightarrow>
     stamped_more w w' \<and> list_all (recipient_ok w pu) rs
     \<and> (\<forall>r \<in> set rs. \<forall>i. persons_named w r = [i] \<longrightarrow> accounted w' i pu)"
proof (induction rs arbitrary: w)
  case (Cons r rs)
  then obtain w1 where one: "granted_for_recipient c r pu w = Inr (True, w1)" and rest: "grant_all c pu rs w1 = Inr (u, w')"
    by (auto split: if_splits)
  note e = granted_for_recipient_effect [OF one] and ih = Cons.IH [OF rest]
  have "list_all (recipient_ok w pu) rs"
    using ih recipient_ok_stamped [of w w1 pu] e by (simp add: list_all_iff)
  moreover have "\<forall>r \<in> set rs. \<forall>i. persons_named w r = [i] \<longrightarrow> accounted w' i pu"
    using ih e stamped_reads(5) [of w w1] by simp
  ultimately show ?case using e ih accounted_more [of w1] by (auto intro: stamped_trans)
qed simp

lemma grant_all_ok:
  "ctx_actor c = Some p \<Longrightarrow> list_all (recipient_ok w pu) rs \<Longrightarrow> \<exists>w'. grant_all c pu rs w = Inr ((), w')"
proof (induction rs arbitrary: w)
  case (Cons r rs)
  then obtain w1 where one: "granted_for_recipient c r pu w = Inr (True, w1)"
    using granted_for_recipient_ok by fastforce
  have "list_all (recipient_ok w1 pu) rs"
    using granted_for_recipient_effect [OF one] Cons.prems(2) recipient_ok_stamped [of w w1 pu] by (simp add: list_all_iff)
  then show ?case using Cons.IH [OF Cons.prems(1)] one by simp
qed simp

lemma validate_all_iff: "validate_all rs = Inr u \<longleftrightarrow> list_all (\<lambda>r. validate_recipient r = Inr ()) rs"
  by (induction rs) (auto simp: lift_c_def split: sum.splits)

definition gate_open :: "consent_db \<Rightarrow> recipient list \<Rightarrow> string \<Rightarrow> bool" where
  "gate_open w rs key \<longleftrightarrow> rs \<noteq> [] \<and> list_all (\<lambda>r. validate_recipient r = Inr ()) rs
     \<and> (\<exists>pu. purpose_of_key w (trim_space (to_lower key)) = Some pu \<and> list_all (recipient_ok w pu) rs)"

lemma run_tx_passes: "fst (run_tx f w) = Inr () \<longleftrightarrow> \<not> isl (f w)"
  by (cases "f w") (auto simp: run_tx_def)

lemma gate_passes_iff:
  assumes "ctx_actor c = Some p"
  shows "fst (require_granted_for_recipients c rs key w) = Inr () \<longleftrightarrow> gate_open w rs key"
proof -
  have all: "\<not> isl (grant_all c pu rs w) \<longleftrightarrow> list_all (recipient_ok w pu) rs" for pu
    using grant_all_effect [of c pu rs w] grant_all_ok [OF assms, of w pu rs]
    by (cases "grant_all c pu rs w") auto
  have valid: "validate_all rs = Inr () \<longleftrightarrow> list_all (\<lambda>r. validate_recipient r = Inr ()) rs"
    by (rule validate_all_iff)
  show ?thesis
  proof (cases "validate_all rs")
    case (Inl e)
    then show ?thesis using valid by (auto simp: require_granted_for_recipients_def gate_open_def)
  next
    case (Inr u)
    then show ?thesis using valid
      by (cases "purpose_of_key w (trim_space (to_lower key))")
        (auto simp: require_granted_for_recipients_def gate_open_def run_tx_passes all)
  qed
qed

lemma gate_refuses: "require_granted_for_recipients c rs key w = (Inl e, w') \<Longrightarrow> w' = w"
  by (auto simp: require_granted_for_recipients_def split: if_splits sum.splits dest: run_tx_InlD)

lemma gate_passed:
  assumes "require_granted_for_recipients c rs key w = (Inr u, w')"
  obtains pu where "purpose_of_key w (trim_space (to_lower key)) = Some pu" "stamped_more w w'"
    "\<And>r i. r \<in> set rs \<Longrightarrow> persons_named w r = [i] \<Longrightarrow> accounted w' i pu"
proof -
  obtain pu where pu: "purpose_of_key w (trim_space (to_lower key)) = Some pu" "grant_all c pu rs w = Inr (u, w')"
    using assms by (auto simp: require_granted_for_recipients_def split: if_splits sum.splits option.splits dest!: run_tx_InrD)
  then show thesis using that grant_all_effect [OF pu(2)] by blast
qed

section \<open>Properties\<close>

text \<open>What a recipient has to have behind it, read off the record.\<close>

definition may_write :: "consent_db \<Rightarrow> purpose \<Rightarrow> recipient \<Rightarrow> bool" where
  "may_write w pu r \<longleftrightarrow> (persons_named w r = [] \<and> granted_for_lead w r (pu_id pu) (pu_doi pu))
     \<or> (\<exists>i. persons_named w r = [i] \<and> \<not> objected w (Person i) (pu_id pu) \<and> lawful_basis w i pu)"

lemma recipient_ok_iff: "recipient_ok w pu = may_write w pu"
  by (auto simp: fun_eq_iff recipient_ok_def may_write_def verdict_allowed_iff split: list.splits)

text \<open>A small installation for closed instances: one person who wrote once, three purposes.\<close>

definition clerk :: principal where
  "clerk = \<lparr>p_type = PrincipalSystem, p_id = ''system'', p_user_id = 0, p_team_ids = [], p_passport_id = 0,
     p_on_behalf_of = 0, p_scopes = {}, p_seat_type = SeatFull, p_permissions = no_permissions\<rparr>"

definition clerk_ctx :: ctx where
  "clerk_ctx = background\<lparr>ctx_actor := Some clerk, ctx_correlation := Some 9\<rparr>"

definition desk_purposes :: "purpose list" where
  "desk_purposes =
     [\<lparr>pu_id = 1, pu_key = ''transactional'', pu_label = ''T'', pu_class = ClassTransactional, pu_doi = False,
       pu_archived_at = None, pu_created_at = 0\<rparr>,
      \<lparr>pu_id = 2, pu_key = ''reply'', pu_label = ''R'', pu_class = ClassBusinessCorrespondence, pu_doi = False,
       pu_archived_at = None, pu_created_at = 0\<rparr>,
      \<lparr>pu_id = 3, pu_key = ''news'', pu_label = ''N'', pu_class = ClassMarketing, pu_doi = True,
       pu_archived_at = None, pu_created_at = 0\<rparr>]"

definition desk :: consent_db where
  "desk = \<lparr>cd_scope = \<lparr>db_rows = (\<lambda>t. if t = ''person'' then
       [\<lparr>rr_id = 7, rr_owner = None, rr_visibility = ''workspace'', rr_archived_at = None\<rparr>] else []),
       db_grants = [], db_memberships = [], db_now = 0\<rparr>,
     cd_purposes = desk_purposes, cd_consents = [], cd_proofs = [], cd_doi = [], cd_qualifying = [],
     cd_flags = [(7, None)], cd_emails = [\<lparr>em_person = 7, em_email = ''a@b'', em_archived_at = None\<rparr>],
     cd_channels = [], cd_leads = [],
     cd_messages = [\<lparr>ms_id = 5, ms_direction = ''inbound'', ms_occurred_at = 3, ms_archived_at = None, ms_persons = [7]\<rparr>],
     cd_prefs = [], cd_ledger = \<lparr>lg_audit = [], lg_outbox = []\<rparr>, cd_now = 10\<rparr>"

definition to_a :: recipient where "to_a = \<lparr>rc_email = ''a@b'', rc_channel = None\<rparr>"

lemma desk_keys:
  "purpose_of_key desk (trim_space (to_lower ''reply'')) = Some (desk_purposes ! 1)"
  "purpose_of_key desk (trim_space (to_lower ''news'')) = Some (desk_purposes ! 2)"
  "purpose_of_key desk (trim_space (to_lower ''transactional'')) = Some (desk_purposes ! 0)"
  by code_simp+

lemma desk_named: "persons_named desk to_a = [7]"
  by code_simp

lemma desk_valid: "validate_recipient to_a = Inr ()"
  by code_simp

lemma clerk_acts: "ctx_actor clerk_ctx = Some clerk"
  by (simp add: clerk_ctx_def)

text \<open>
  C17. When an outbound message may go. The verdict on a person and a purpose is allowed exactly when no
  objection stands and the purpose's class has its basis: nothing more for transactional mail, a
  qualifying event for correspondence, and for marketing a grant (confirmed where the purpose demands
  the double opt-in), or the existing-customer flag where no grant is on record. It is blocked exactly on
  an objection, on the dormant phone class, or on an unconfirmed marketing grant; it is unknown otherwise.
\<close>

theorem verdict_decides_exactly:
  "(vd_state (verdict_for_person w i pu) = VerdictAllowed \<longleftrightarrow>
      current_state w (Person i) (pu_id pu) \<noteq> Some StateWithdrawn
      \<and> (case pu_class pu of
           ClassTransactional \<Rightarrow> True
         | ClassBusinessCorrespondence \<Rightarrow> corresponded w i
         | ClassPhoneOutreach \<Rightarrow> False
         | _ \<Rightarrow> (if current_state w (Person i) (pu_id pu) = Some StateGranted
                  then (if pu_doi pu then confirmed w (Person i) (pu_id pu) else True)
                  else existing_customer_flag w i)))
   \<and> (vd_state (verdict_for_person w i pu) = VerdictBlocked \<longleftrightarrow>
      current_state w (Person i) (pu_id pu) = Some StateWithdrawn \<or> pu_class pu = ClassPhoneOutreach
      \<or> (pu_class pu \<notin> {ClassTransactional, ClassBusinessCorrespondence} \<and> pu_doi pu
         \<and> current_state w (Person i) (pu_id pu) = Some StateGranted \<and> \<not> confirmed w (Person i) (pu_id pu)))"
  unfolding verdict_allowed_iff verdict_blocked_iff objected_def
  by (auto simp: lawful_basis_def marketing_basis_def split: purpose_class.splits)

text \<open>
  C4. The gate sends exactly on a basis. It passes when and only when there is a recipient, every one is
  well formed, the purpose exists, and each names one live person with no objection and a lawful basis or
  no person and a lead with the grant. A refusal leaves nothing behind; a pass under the correspondence
  class leaves a recorded qualifying event for every person it wrote to, whoever derived it.
\<close>

theorem gate_sends_exactly_on_a_basis:
  assumes "ctx_actor c = Some p" "require_granted_for_recipients c rs key w = (res, w')"
  shows "(res = Inr () \<longleftrightarrow> rs \<noteq> [] \<and> list_all (\<lambda>r. validate_recipient r = Inr ()) rs
      \<and> (\<exists>pu. purpose_of_key w (trim_space (to_lower key)) = Some pu \<and> list_all (may_write w pu) rs))
    \<and> (res \<noteq> Inr () \<longrightarrow> w' = w)
    \<and> (res = Inr () \<longrightarrow> (\<exists>pu. purpose_of_key w (trim_space (to_lower key)) = Some pu
        \<and> (\<forall>r \<in> set rs. \<forall>i. persons_named w r = [i] \<longrightarrow> pu_class pu = ClassBusinessCorrespondence \<longrightarrow>
             list_ex (\<lambda>q. qr_person q = i) (cd_qualifying w'))))"
proof -
  have "res = Inr () \<longleftrightarrow> gate_open w rs key" using gate_passes_iff [OF assms(1), of rs key w] assms(2) by simp
  moreover have "res \<noteq> Inr () \<longrightarrow> w' = w" using gate_refuses assms(2) by (cases res) auto
  moreover have "res = Inr () \<longrightarrow> (\<exists>pu. purpose_of_key w (trim_space (to_lower key)) = Some pu
        \<and> (\<forall>r \<in> set rs. \<forall>i. persons_named w r = [i] \<longrightarrow> accounted w' i pu))"
    using assms(2) by (auto elim!: gate_passed)
  ultimately show ?thesis by (simp add: gate_open_def recipient_ok_iff accounted_def)
qed

theorem gate_sends_exactly_on_a_basis_witness:
  "list_ex (\<lambda>q. qr_person q = 7) (cd_qualifying (snd (require_granted_for_recipients clerk_ctx [to_a] ''reply'' desk)))
   \<and> snd (require_granted_for_recipients clerk_ctx [] ''reply'' desk) = desk"
proof -
  obtain res w' where run: "require_granted_for_recipients clerk_ctx [to_a] ''reply'' desk = (res, w')" by force
  have "may_write desk (desk_purposes ! 1) to_a"
    by (simp add: may_write_def desk_named) code_simp
  then have "res = Inr ()"
    using gate_sends_exactly_on_a_basis [THEN conjunct1, OF clerk_acts run] desk_valid desk_keys(1) by simp
  then have "list_ex (\<lambda>q. qr_person q = 7) (cd_qualifying w')"
    using gate_sends_exactly_on_a_basis [THEN conjunct2, THEN conjunct2, THEN mp, OF clerk_acts run] desk_keys(1) desk_named
    by (auto simp: desk_purposes_def)
  moreover obtain res0 w0 where none: "require_granted_for_recipients clerk_ctx [] ''reply'' desk = (res0, w0)" by force
  have "w0 = desk"
    using gate_sends_exactly_on_a_basis [THEN conjunct2, THEN conjunct1, THEN mp, OF clerk_acts none]
      gate_sends_exactly_on_a_basis [THEN conjunct1, OF clerk_acts none] by blast
  ultimately show ?thesis using run none by simp
qed

text \<open>
  C21. What the composer previews is what the transmit gate answers. For a recipient that names one live
  person, the guard's entry for the purpose says allowed exactly when the gate, asked on the same record
  by whomever, lets that message go.
\<close>

theorem preview_agrees_with_transmit:
  assumes "person_consent_guard c i w = Inr entries" "persons_named w r = [i]" "validate_recipient r = Inr ()"
    and "purpose_of_key w (trim_space (to_lower key)) = Some pu" "ctx_actor c' = Some p"
  shows "\<exists>e \<in> set entries. ge_key e = trim_space (to_lower key) \<and> ge_class e = pu_class pu
    \<and> (ge_verdict e = VerdictAllowed \<longleftrightarrow> fst (require_granted_for_recipients c' [r] key w) = Inr ())"
proof -
  have pu: "pu \<in> set (live_purposes w)" "pu_key pu = trim_space (to_lower key)"
    using find_SomeD [OF assms(4) [unfolded purpose_of_key_def]] by auto
  have "wire_guard_entry pu (verdict_for_person w i pu) \<in> set entries"
    using assms(1) pu(1) by (auto simp: person_consent_guard_def purposes_for_guard_def)
  moreover have "fst (require_granted_for_recipients c' [r] key w) = Inr () \<longleftrightarrow>
      vd_state (verdict_for_person w i pu) = VerdictAllowed"
    unfolding gate_passes_iff [OF assms(5)] gate_open_def by (simp add: assms(2-4) recipient_ok_def)
  ultimately show ?thesis using pu(2)
    by (intro bexI [of _ "wire_guard_entry pu (verdict_for_person w i pu)"]) (simp_all add: wire_guard_entry_def)
qed

theorem preview_agrees_with_transmit_witness:
  "\<exists>entries. person_consent_guard clerk_ctx 7 desk = Inr entries \<and> (\<exists>e \<in> set entries. ge_key e = ''news''
     \<and> (ge_verdict e = VerdictAllowed \<longleftrightarrow> fst (require_granted_for_recipients clerk_ctx [to_a] ''news'' desk) = Inr ()))"
proof -
  have "\<not> isl (person_consent_guard clerk_ctx 7 desk)" by code_simp
  then obtain entries where g: "person_consent_guard clerk_ctx 7 desk = Inr entries"
    by (cases "person_consent_guard clerk_ctx 7 desk") auto
  have "trim_space (to_lower ''news'') = ''news''" by code_simp
  then show ?thesis
    using preview_agrees_with_transmit [OF g desk_named desk_valid desk_keys(2) clerk_acts] g by auto
qed

end
