(* ===== verification/Consent_Machine.thy ===== *)
theory Consent_Machine
  imports Consent_Verdict Machines
begin

text \<open>
  Consent over time. What merging and promotion do to it (\<open>mergeConsent\<close>, \<open>carryLeadConsent\<close>,
  \<open>carryLeadConsentToLead\<close> of \<^verbatim>\<open>backend/internal/modules/people\<close>), and every committed
  operation on the consent tables as a step of one machine.
\<close>

section \<open>Carrying consent from one subject to another\<close>

definition withdrew :: "consent_row list \<Rightarrow> subject_ref \<Rightarrow> uuid \<Rightarrow> bool" where
  "withdrew rows sub purpose =
     list_ex (\<lambda>a. cr_subject a = sub \<and> cr_purpose a = purpose \<and> cr_state a = StateWithdrawn) rows"

definition flips :: "subject_ref \<Rightarrow> subject_ref \<Rightarrow> consent_row list \<Rightarrow> consent_row \<Rightarrow> bool" where
  "flips src dst rows b \<longleftrightarrow> cr_subject b = dst \<and> cr_state b \<noteq> StateWithdrawn \<and> withdrew rows src (cr_purpose b)"

text \<open>
  The statement that flips what the survivor holds where the source withdrew, with a proof row each; the
  inserted rows come in the order of the table.
\<close>

definition carry_withdrawals ::
  "subject_ref \<Rightarrow> subject_ref \<Rightarrow> string \<Rightarrow> string \<Rightarrow> string \<Rightarrow> time \<Rightarrow> string \<Rightarrow> consent_db \<Rightarrow> consent_db" where
  "carry_withdrawals src dst source policy_text policy_version now by_whom w =
     w\<lparr>cd_consents := update_where (flips src dst (cd_consents w))
         (\<lambda>b. b\<lparr>cr_state := StateWithdrawn, cr_captured_at := Some now, cr_source := Some source\<rparr>) (cd_consents w),
       cd_proofs := cd_proofs w @ map (\<lambda>b. \<lparr>pe_subject = dst, pe_purpose = cr_purpose b,
         pe_new_state = StateWithdrawn, pe_basis = None, pe_source = source, pe_policy_text = policy_text,
         pe_policy_version = policy_version, pe_doi_at = None, pe_captured_at = now, pe_captured_by = by_whom\<rparr>)
         (filter (flips src dst (cd_consents w)) (cd_consents w))\<rparr>"

definition drop_colliding :: "subject_ref \<Rightarrow> subject_ref \<Rightarrow> consent_db \<Rightarrow> consent_db" where
  "drop_colliding src dst w =
     w\<lparr>cd_consents := filter (\<lambda>a. \<not> (cr_subject a = src
         \<and> list_ex (\<lambda>b. cr_subject b = dst \<and> cr_purpose b = cr_purpose a) (cd_consents w))) (cd_consents w)\<rparr>"

definition repoint_states :: "subject_ref \<Rightarrow> subject_ref \<Rightarrow> consent_db \<Rightarrow> consent_db" where
  "repoint_states src dst w =
     w\<lparr>cd_consents := update_where (\<lambda>a. cr_subject a = src) (\<lambda>a. a\<lparr>cr_subject := dst\<rparr>) (cd_consents w)\<rparr>"

definition repoint_proofs :: "subject_ref \<Rightarrow> subject_ref \<Rightarrow> consent_db \<Rightarrow> consent_db" where
  "repoint_proofs src dst w =
     w\<lparr>cd_proofs := update_where (\<lambda>e. pe_subject e = src) (\<lambda>e. e\<lparr>pe_subject := dst\<rparr>) (cd_proofs w)\<rparr>"

definition merge_consent :: "ctx \<Rightarrow> time \<Rightarrow> uuid \<Rightarrow> uuid \<Rightarrow> unit consent_tx" where
  "merge_consent c now source_id target_id w =
     bindR (lift_c (captured_by c)) (\<lambda>by_whom.
       let src = Person source_id; dst = Person target_id in
       Inr ((), repoint_proofs src dst (repoint_states src dst (drop_colliding src dst
         (carry_withdrawals src dst ''merge'' ''withdrawal carried over from a merged duplicate record'' ''merge''
            now by_whom w)))))"

definition carry_lead_consent :: "string \<Rightarrow> time \<Rightarrow> uuid \<Rightarrow> uuid \<Rightarrow> unit consent_tx" where
  "carry_lead_consent by_whom now lead_id person_id w =
     (let src = Lead lead_id; dst = Person person_id in
      Inr ((), repoint_states src dst (drop_colliding src dst
        (carry_withdrawals src dst ''promotion'' ''withdrawal carried over from the promoted lead'' ''promotion''
           now by_whom w))))"

definition carry_lead_consent_to_lead :: "string \<Rightarrow> time \<Rightarrow> uuid \<Rightarrow> uuid \<Rightarrow> unit consent_tx" where
  "carry_lead_consent_to_lead by_whom now source_id target_id w =
     (let src = Lead source_id; dst = Lead target_id in
      Inr ((), repoint_proofs src dst (repoint_states src dst (drop_colliding src dst
        (carry_withdrawals src dst ''merge'' ''withdrawal carried over from the merged-away lead'' ''merge''
           now by_whom w)))))"

section \<open>Lemmas on the state rows\<close>

lemma find_key:
  assumes "distinct (map k rs)" "r \<in> set rs"
  shows "find (\<lambda>x. k x = k r) rs = Some r"
  by (rule find_distinct_key [OF assms])

abbreviation consent_key :: "consent_row \<Rightarrow> subject_ref \<times> uuid" where
  "consent_key r \<equiv> (cr_subject r, cr_purpose r)"

definition keyed :: "consent_db \<Rightarrow> bool" where
  "keyed w \<longleftrightarrow> distinct (map consent_key (cd_consents w))"

lemma current_state_iff:
  assumes "keyed w"
  shows "current_state w sub pu = Some st \<longleftrightarrow>
    (\<exists>r \<in> set (cd_consents w). cr_subject r = sub \<and> cr_purpose r = pu \<and> cr_state r = st)"
proof -
  have found: "find (\<lambda>r. cr_subject r = sub \<and> cr_purpose r = pu) (cd_consents w) = Some r"
    if "r \<in> set (cd_consents w)" "cr_subject r = sub" "cr_purpose r = pu" for r
    using find_key [of consent_key "cd_consents w" r] assms that by (simp add: keyed_def)
  show ?thesis
    using found by (fastforce simp: current_state_def dest: find_SomeD)
qed

lemma current_state_None_iff:
  "current_state w sub pu = None \<longleftrightarrow> (\<forall>r \<in> set (cd_consents w). \<not> (cr_subject r = sub \<and> cr_purpose r = pu))"
  by (auto simp: current_state_def find_None_iff)

lemma withdrew_iff: "keyed w \<Longrightarrow> withdrew (cd_consents w) sub pu \<longleftrightarrow> objected w sub pu"
  by (auto simp: withdrew_def objected_def current_state_iff list_ex_iff)

subsection \<open>The upsert\<close>

lemma upsert_state_keys:
  assumes "\<And>r. consent_key (f r) = consent_key r"
  shows "map consent_key (upsert_state sub pu f rows) =
    (if (sub, pu) \<in> consent_key ` set rows then map consent_key rows else map consent_key rows @ [(sub, pu)])"
  using assms by (auto simp: upsert_state_def list_ex_iff map_update_where image_iff)

lemma upsert_state_find:
  assumes "\<And>r. consent_key (f r) = consent_key r"
  shows "find (\<lambda>r. cr_subject r = s \<and> cr_purpose r = p) (upsert_state sub pu f rows) =
    (if s = sub \<and> p = pu
     then Some (f (case find (\<lambda>r. cr_subject r = sub \<and> cr_purpose r = pu) rows of Some r \<Rightarrow> r
           | None \<Rightarrow> \<lparr>cr_subject = sub, cr_purpose = pu, cr_state = StateUnknown, cr_basis = None,
                       cr_captured_at = None, cr_source = None\<rparr>))
     else find (\<lambda>r. cr_subject r = s \<and> cr_purpose r = p) rows)"
proof -
  have keys: "cr_subject (f r) = cr_subject r" "cr_purpose (f r) = cr_purpose r" for r using assms [of r] by auto
  have none: "\<not> list_ex (\<lambda>r. cr_subject r = sub \<and> cr_purpose r = pu) rows \<Longrightarrow>
      find (\<lambda>r. cr_subject r = sub \<and> cr_purpose r = pu) rows = None"
    by (simp add: find_None_iff list_ex_iff)
  have some: "list_ex (\<lambda>r. cr_subject r = sub \<and> cr_purpose r = pu) rows \<Longrightarrow>
      \<exists>r. find (\<lambda>r. cr_subject r = sub \<and> cr_purpose r = pu) rows = Some r"
    by (auto simp: list_ex_iff find_None_iff simp flip: not_None_eq)
  show ?thesis
    using none some find_update_where [of "\<lambda>r. cr_subject r = s \<and> cr_purpose r = p" f "\<lambda>r. cr_subject r = sub \<and> cr_purpose r = pu" rows]
      find_update_where_other [of "\<lambda>r. cr_subject r = s \<and> cr_purpose r = p" f "\<lambda>r. cr_subject r = sub \<and> cr_purpose r = pu" rows]
    by (auto simp: upsert_state_def keys find_append split: option.splits)
qed

lemma upsert_current:
  "current_state (upsert_consent_with_proof inp sub st doi_at at by_whom w) s p =
     (if s = sub \<and> p = ri_purpose inp then Some st else current_state w s p)"
  by (simp add: current_state_def upsert_consent_with_proof_def upsert_state_find)

lemma upsert_keyed: "keyed w \<Longrightarrow> keyed (upsert_consent_with_proof inp sub st doi_at at by_whom w)"
  by (auto simp: keyed_def upsert_consent_with_proof_def upsert_state_keys)

subsection \<open>The carry\<close>

lemma current_eqI: "(\<And>st. x = Some st \<longleftrightarrow> y = Some st) \<Longrightarrow> x = (y :: consent_state option)"
  by (cases x; cases y) auto

lemma withdrawals_keyed: "keyed (carry_withdrawals src dst a b c now who w) \<longleftrightarrow> keyed w"
  by (simp add: keyed_def carry_withdrawals_def map_update_where)

lemma find_map_key: "(\<And>r. Q (f r) = Q r) \<Longrightarrow> find Q (map f rs) = map_option f (find Q rs)"
  by (induction rs) auto

lemma withdrawals_current:
  assumes "keyed w"
  shows "current_state (carry_withdrawals src dst a b c now who w) s p =
    (if s = dst \<and> current_state w dst p \<noteq> None \<and> objected w src p then Some StateWithdrawn else current_state w s p)"
proof -
  let ?key = "\<lambda>r. cr_subject r = s \<and> cr_purpose r = p"
  let ?f = "\<lambda>r. if flips src dst (cd_consents w) r
      then r\<lparr>cr_state := StateWithdrawn, cr_captured_at := Some now, cr_source := Some a\<rparr> else r"
  have found: "find ?key (map ?f (cd_consents w)) = map_option ?f (find ?key (cd_consents w))"
    by (rule find_map_key) simp
  then have cur: "current_state (carry_withdrawals src dst a b c now who w) s p
      = map_option (cr_state \<circ> ?f) (find ?key (cd_consents w))"
    by (simp add: current_state_def carry_withdrawals_def update_where_def option.map_comp)
  show ?thesis
  proof (cases "find ?key (cd_consents w)")
    case None
    then show ?thesis using cur by (auto simp: current_state_def)
  next
    case (Some r)
    then have "cr_subject r = s" "cr_purpose r = p" and now': "current_state w s p = Some (cr_state r)"
      using find_SomeD [OF Some] by (auto simp: current_state_def)
    then have "flips src dst (cd_consents w) r \<longleftrightarrow> s = dst \<and> cr_state r \<noteq> StateWithdrawn \<and> objected w src p"
      by (simp add: flips_def withdrew_iff [OF assms])
    then show ?thesis using cur Some now' by auto
  qed
qed

lemma drop_keyed: "keyed w \<Longrightarrow> keyed (drop_colliding src dst w)"
  by (simp add: keyed_def drop_colliding_def distinct_map_filter)

lemma drop_current:
  assumes "keyed w"
  shows "current_state (drop_colliding src dst w) s p =
    (if s = src \<and> current_state w dst p \<noteq> None then None else current_state w s p)"
proof (rule current_eqI)
  fix st
  show "current_state (drop_colliding src dst w) s p = Some st \<longleftrightarrow>
    (if s = src \<and> current_state w dst p \<noteq> None then None else current_state w s p) = Some st"
    unfolding current_state_iff [OF drop_keyed [OF assms]]
    by (auto simp: drop_colliding_def list_ex_iff current_state_iff [OF assms] current_state_None_iff)
qed

lemma repoint_facts:
  assumes "keyed w" "src \<noteq> dst" "\<And>p. current_state w src p \<noteq> None \<Longrightarrow> current_state w dst p = None"
  shows "keyed (repoint_states src dst w) \<and> current_state (repoint_states src dst w) s p =
    (if s = src then None
     else if s = dst then (case current_state w dst p of None \<Rightarrow> current_state w src p | Some st \<Rightarrow> Some st)
     else current_state w s p)"
proof -
  let ?w = "repoint_states src dst w" and ?f = "\<lambda>r. if cr_subject r = src then r\<lparr>cr_subject := dst\<rparr> else r"
  have rows: "cd_consents ?w = map ?f (cd_consents w)" by (simp add: repoint_states_def update_where_def)
  have apart: "\<not> (cr_subject r = src \<and> cr_subject q = dst \<and> cr_purpose r = cr_purpose q)"
    if "r \<in> set (cd_consents w)" "q \<in> set (cd_consents w)" for r q
  proof
    assume same: "cr_subject r = src \<and> cr_subject q = dst \<and> cr_purpose r = cr_purpose q"
    then have "current_state w src (cr_purpose r) \<noteq> None" "current_state w dst (cr_purpose r) \<noteq> None"
      using that by (auto simp: current_state_None_iff)
    then show False using assms(3) [of "cr_purpose r"] by simp
  qed
  have "inj_on consent_key (set (cd_consents w))" using assms(1) by (simp add: keyed_def distinct_map)
  then have "inj_on (consent_key \<circ> ?f) (set (cd_consents w))"
    using apart by (fastforce simp: inj_on_def split: if_splits)
  then have k: "keyed ?w"
    using assms(1) by (simp add: keyed_def rows distinct_map comp_def)
  moreover have "current_state ?w s p =
    (if s = src then None
     else if s = dst then (case current_state w dst p of None \<Rightarrow> current_state w src p | Some st \<Rightarrow> Some st)
     else current_state w s p)"
  proof (rule current_eqI)
    fix st
    have "current_state ?w s p = Some st \<longleftrightarrow> (\<exists>r \<in> set (cd_consents w).
        (if cr_subject r = src then dst else cr_subject r) = s \<and> cr_purpose r = p \<and> cr_state r = st)"
      unfolding current_state_iff [OF k] rows set_map bex_simps by (rule bex_cong [OF refl]) auto
    also have "\<dots> \<longleftrightarrow> (if s = src then False
        else if s = dst then current_state w dst p = Some st \<or> current_state w src p = Some st
        else current_state w s p = Some st)"
      using assms(2) by (auto simp: current_state_iff [OF assms(1)] split: if_splits)
    also have "\<dots> \<longleftrightarrow> (if s = src then None
        else if s = dst then (case current_state w dst p of None \<Rightarrow> current_state w src p | Some st \<Rightarrow> Some st)
        else current_state w s p) = Some st"
      using assms(3) [of p] by (auto split: option.splits)
    finally show "current_state ?w s p = Some st \<longleftrightarrow> (if s = src then None
        else if s = dst then (case current_state w dst p of None \<Rightarrow> current_state w src p | Some st \<Rightarrow> Some st)
        else current_state w s p) = Some st" .
  qed
  ultimately show ?thesis by blast
qed

text \<open>What a carry makes of the states: the survivor's stands, except that a withdrawal always wins.\<close>

definition carried_state :: "consent_db \<Rightarrow> subject_ref \<Rightarrow> subject_ref \<Rightarrow> subject_ref \<Rightarrow> uuid \<Rightarrow> consent_state option" where
  "carried_state w src dst s p =
     (if s = src then None
      else if s = dst then
        (case current_state w dst p of
           None \<Rightarrow> current_state w src p
         | Some st \<Rightarrow> if current_state w src p = Some StateWithdrawn then Some StateWithdrawn else Some st)
      else current_state w s p)"

definition carry :: "subject_ref \<Rightarrow> subject_ref \<Rightarrow> string \<Rightarrow> string \<Rightarrow> string \<Rightarrow> time \<Rightarrow> string \<Rightarrow> consent_db \<Rightarrow> consent_db" where
  "carry src dst a b c now who w =
     repoint_states src dst (drop_colliding src dst (carry_withdrawals src dst a b c now who w))"

lemma carry_facts:
  assumes "keyed w" "src \<noteq> dst"
  shows "keyed (carry src dst a b c now who w)"
    "current_state (carry src dst a b c now who w) s p = carried_state w src dst s p"
proof -
  let ?w1 = "carry_withdrawals src dst a b c now who w"
  have k1: "keyed ?w1" using assms(1) by (simp add: withdrawals_keyed)
  note k2 = drop_keyed [OF k1, of src dst]
  have apart: "current_state (drop_colliding src dst ?w1) src p \<noteq> None \<Longrightarrow>
      current_state (drop_colliding src dst ?w1) dst p = None" for p
    using assms(2) by (auto simp: drop_current [OF k1] split: if_splits)
  have r: "keyed (carry src dst a b c now who w) \<and> current_state (carry src dst a b c now who w) s p =
    (if s = src then None
     else if s = dst then (case current_state (drop_colliding src dst ?w1) dst p of
        None \<Rightarrow> current_state (drop_colliding src dst ?w1) src p | Some st \<Rightarrow> Some st)
     else current_state (drop_colliding src dst ?w1) s p)"
    unfolding carry_def by (rule repoint_facts [OF k2 assms(2) apart])
  then show "keyed (carry src dst a b c now who w)" by blast
  show "current_state (carry src dst a b c now who w) s p = carried_state w src dst s p"
    unfolding r [THEN conjunct2] carried_state_def drop_current [OF k1] withdrawals_current [OF assms(1)]
    using assms(2) by (auto simp: objected_def split: option.splits)
qed

lemma proofs_untouched [simp]:
  "current_state (repoint_proofs src dst w) = current_state w" "keyed (repoint_proofs src dst w) = keyed w"
  by (auto simp: repoint_proofs_def current_state_def keyed_def fun_eq_iff)

section \<open>What recording does\<close>

lemma lift_c_iff [simp]: "lift_c r = Inr x \<longleftrightarrow> r = Inr x"
  by (auto simp: lift_c_def split: sum.splits)

text \<open>Redeeming a token touches that token alone.\<close>

definition redeemed :: "consent_svc \<Rightarrow> uuid \<Rightarrow> uuid \<Rightarrow> string \<Rightarrow> consent_db \<Rightarrow> consent_db" where
  "redeemed s person purpose token w =
     w\<lparr>cd_doi := update_where (redeemable s person purpose token) (\<lambda>t. t\<lparr>dt_consumed_at := Some (cs_now s)\<rparr>) (cd_doi w)\<rparr>"

lemma resolve_doi_effect:
  assumes "resolve_doi_confirmation s inp sub st doi w = Inr (doi_at, w1)"
  obtains (unconfirmed) "doi_at = None" "w1 = w" "st \<noteq> StateGranted \<or> \<not> doi"
    | (redeemed) person token where "st = StateGranted" "doi" "sub = Person person" "ri_token inp = Some token"
        "doi_at = Some (cs_now s)" "list_ex (redeemable s person (ri_purpose inp) token) (cd_doi w)"
        "w1 = redeemed s person (ri_purpose inp) token w"
  using assms
  by (auto simp: resolve_doi_confirmation_def consume_doi_token_def redeemed_def
      split: if_splits subject_ref.splits option.splits)

lemma resolve_doi_keeps:
  assumes "resolve_doi_confirmation s inp sub st doi w = Inr (doi_at, w1)"
  shows "cd_consents w1 = cd_consents w \<and> cd_proofs w1 = cd_proofs w \<and> cd_purposes w1 = cd_purposes w
    \<and> cd_ledger w1 = cd_ledger w"
  using assms by (rule resolve_doi_effect) (auto simp: redeemed_def)

text \<open>The ledger entries of one recorded change.\<close>

definition change_logged :: "ctx \<Rightarrow> subject_ref \<Rightarrow> uuid \<Rightarrow> string \<Rightarrow> consent_state \<Rightarrow> consent_db \<Rightarrow> consent_db \<Rightarrow> bool" where
  "change_logged c sub purpose key st w w' \<longleftrightarrow>
     (\<exists>a e. lg_audit (cd_ledger w') = lg_audit (cd_ledger w) @ [a]
        \<and> lg_outbox (cd_ledger w') = lg_outbox (cd_ledger w) @ [e]
        \<and> al_action a = verdict_action st \<and> al_entity_type a = subject_table sub \<and> al_entity_id a = subject_id sub
        \<and> ev_type (se_envelope e) = ''consent.changed'' \<and> ev_entity_type (se_envelope e) = subject_table sub
        \<and> ev_entity_id (se_envelope e) = subject_id sub \<and> ev_audit_log_id (se_envelope e) = al_id a
        \<and> ev_payload (se_envelope e) = \<lparr>cc_purpose = purpose, cc_key = key, cc_new_state = state_text st\<rparr>)"

lemma record_in_tx_effect:
  assumes "record_in_tx s c inp sub st w = Inr (out, w')"
  obtains (kept) cur where "w' = w" "current_state w sub (ri_purpose inp) = Some cur" "so_state out = cur"
      "cur = st \<or> ri_never_override inp"
    | (changed) key doi doi_at w1 p l where
        "load_consent_purpose w (ri_purpose inp) = Inr (key, doi)"
        "current_state w sub (ri_purpose inp) \<noteq> Some st"
        "\<not> (ri_never_override inp \<and> current_state w sub (ri_purpose inp) \<noteq> None)"
        "resolve_doi_confirmation s inp sub st doi w = Inr (doi_at, w1)" "ctx_actor c = Some p"
        "w' = (upsert_consent_with_proof inp sub st doi_at (cs_now s) (p_id p) w1)\<lparr>cd_ledger := l\<rparr>"
        "change_logged c sub (ri_purpose inp) key st w w'" "so_state out = st"
proof -
  obtain key doi where load: "load_consent_purpose w (ri_purpose inp) = Inr (key, doi)"
    and body: "record_after_read s c inp sub st key doi (current_state w sub (ri_purpose inp)) w = Inr (out, w')"
    using assms by (auto simp: record_in_tx_def)
  show thesis
  proof (cases "current_state w sub (ri_purpose inp) = Some st \<or> (ri_never_override inp \<and> current_state w sub (ri_purpose inp) \<noteq> None)")
    case True
    then show thesis using body kept by (auto simp: record_after_read_def split: if_splits)
  next
    case False
    have "record_change s c inp sub st key doi (current_state w sub (ri_purpose inp)) w = Inr (out, w')"
      using body False by (auto simp: record_after_read_def split: bool.splits option.splits)
    then obtain doi_at w1 p aud w3 l where r: "resolve_doi_confirmation s inp sub st doi w = Inr (doi_at, w1)"
      and p: "ctx_actor c = Some p"
      and a: "ledger_tx (audit_entry (cs_kit s) c (verdict_action st) (subject_table sub) (subject_id sub)
          (Some [(''state'', JStr (state_or_unknown (current_state w sub (ri_purpose inp))))])
          (Some [(''purpose'', JStr key), (''state'', JStr (state_text st))]))
          (upsert_consent_with_proof inp sub st doi_at (cs_now s) (p_id p) w1) = Inr (aud, w3)"
      and e: "emit_event_for_entity (cs_kit s) c aud (subject_table sub) (subject_id sub)
          (consent_changed_payload (ri_purpose inp) key st) (cd_ledger w3) = Inr l"
      and w': "w' = w3\<lparr>cd_ledger := l\<rparr>" and out: "so_state out = st"
      by (auto simp: record_change_def ledger_tx_def)
    obtain l3 where l3: "audit_entry (cs_kit s) c (verdict_action st) (subject_table sub) (subject_id sub)
          (Some [(''state'', JStr (state_or_unknown (current_state w sub (ri_purpose inp))))])
          (Some [(''purpose'', JStr key), (''state'', JStr (state_text st))]) (cd_ledger w) = Inr (aud, l3)"
      and w3: "w3 = (upsert_consent_with_proof inp sub st doi_at (cs_now s) (p_id p) w1)\<lparr>cd_ledger := l3\<rparr>"
      using a resolve_doi_keeps [OF r] by (auto simp: ledger_tx_def upsert_consent_with_proof_def)
    obtain row where row: "lg_audit l3 = lg_audit (cd_ledger w) @ [row]" "lg_outbox l3 = lg_outbox (cd_ledger w)"
      "al_id row = aud" "al_action row = verdict_action st" "al_entity_type row = subject_table sub"
      "al_entity_id row = subject_id sub"
      using audit_entry_effect [OF l3] by blast
    have led: "cd_ledger w3 = l3" "cd_ledger w' = l" using w3 w' by simp_all
    have "\<exists>ev. lg_audit l = lg_audit l3 \<and> lg_outbox l = lg_outbox l3 @ [ev]
      \<and> ev_type (se_envelope ev) = ''consent.changed'' \<and> ev_entity_type (se_envelope ev) = subject_table sub
      \<and> ev_entity_id (se_envelope ev) = subject_id sub
      \<and> ev_payload (se_envelope ev) = \<lparr>cc_purpose = ri_purpose inp, cc_key = key, cc_new_state = state_text st\<rparr>
      \<and> ev_audit_log_id (se_envelope ev) = aud"
      using emit_for_entity_effect [OF e] by (simp add: consent_changed_payload_def led(1))
    then obtain ev where "lg_audit l = lg_audit l3" "lg_outbox l = lg_outbox l3 @ [ev]"
      "ev_type (se_envelope ev) = ''consent.changed''" "ev_entity_type (se_envelope ev) = subject_table sub"
      "ev_entity_id (se_envelope ev) = subject_id sub" "ev_audit_log_id (se_envelope ev) = aud"
      "ev_payload (se_envelope ev) = \<lparr>cc_purpose = ri_purpose inp, cc_key = key, cc_new_state = state_text st\<rparr>"
      by blast
    then have logged: "change_logged c sub (ri_purpose inp) key st w w'"
      using row led(2) unfolding change_logged_def by (intro exI [of _ row] exI [of _ ev]) simp
    have eq: "w' = (upsert_consent_with_proof inp sub st doi_at (cs_now s) (p_id p) w1)\<lparr>cd_ledger := l\<rparr>"
      unfolding w' w3 by simp
    show thesis by (rule changed [OF load _ _ r p eq logged out]) (use False in blast)+
  qed
qed

lemma changed_states:
  assumes "resolve_doi_confirmation s inp sub st doi w = Inr (doi_at, w1)"
  shows "current_state ((upsert_consent_with_proof inp sub st doi_at at who w1)\<lparr>cd_ledger := l\<rparr>) =
      (\<lambda>s' p. if s' = sub \<and> p = ri_purpose inp then Some st else current_state w s' p)" (is ?A)
    and "keyed w \<Longrightarrow> keyed ((upsert_consent_with_proof inp sub st doi_at at who w1)\<lparr>cd_ledger := l\<rparr>)"
proof -
  have cur: "current_state (x\<lparr>cd_ledger := l\<rparr>) = current_state x" "keyed (x\<lparr>cd_ledger := l\<rparr>) = keyed x" for x
    by (simp_all add: current_state_def keyed_def fun_eq_iff)
  have same: "current_state w1 = current_state w" "keyed w1 = keyed w"
    using resolve_doi_keeps [OF assms] by (simp_all add: current_state_def keyed_def fun_eq_iff)
  show ?A by (simp add: fun_eq_iff cur upsert_current same)
  show "keyed ((upsert_consent_with_proof inp sub st doi_at at who w1)\<lparr>cd_ledger := l\<rparr>)" if "keyed w"
    using that by (simp add: cur same upsert_keyed)
qed

section \<open>The machine\<close>

datatype consent_event =
    Recorded subject_ref uuid consent_state
  | Issued uuid uuid
  | Carried subject_ref subject_ref
  | Sent
  | Catalogued uuid
  | Elsewhere

text \<open>
  What other writers may change without touching consent: the people, leads, addresses and messages, the
  preference links, the existing-customer flags, the clock.
\<close>

definition consent_untouched :: "consent_db \<Rightarrow> consent_db \<Rightarrow> bool" where
  "consent_untouched w w' \<longleftrightarrow> cd_consents w' = cd_consents w \<and> cd_proofs w' = cd_proofs w
     \<and> cd_doi w' = cd_doi w \<and> cd_purposes w' = cd_purposes w"

inductive consent_step :: "consent_db \<Rightarrow> consent_event \<Rightarrow> consent_db \<Rightarrow> bool" where
  recorded: "admit_record c inp = Inr (sub, st) \<Longrightarrow> record_in_tx s c inp sub st w = Inr (out, w')
    \<Longrightarrow> consent_step w (Recorded sub (ri_purpose inp) st) w'"
| issued: "issue_in_tx s c person purpose deliver token row_id w = Inr (x, w')
    \<Longrightarrow> consent_step w (Issued person purpose) w'"
| merged: "merge_consent c now a b w = Inr (u, w') \<Longrightarrow> a \<noteq> b \<Longrightarrow> consent_step w (Carried (Person a) (Person b)) w'"
| promoted: "carry_lead_consent by_whom now l i w = Inr (u, w') \<Longrightarrow> consent_step w (Carried (Lead l) (Person i)) w'"
| leads_merged: "carry_lead_consent_to_lead by_whom now a b w = Inr (u, w') \<Longrightarrow> a \<noteq> b
    \<Longrightarrow> consent_step w (Carried (Lead a) (Lead b)) w'"
| sent: "require_granted_for_recipients c rs key w = (Inr u, w') \<Longrightarrow> consent_step w Sent w'"
| catalogued: "create_purpose c key label doi new_id w = (Inr pu, w') \<Longrightarrow> new_id \<notin> pu_id ` set (cd_purposes w)
    \<Longrightarrow> consent_step w (Catalogued new_id) w'"
| elsewhere: "consent_untouched w w' \<Longrightarrow> consent_step w Elsewhere w'"

text \<open>The states alone, as each event leaves them.\<close>

definition carried_pair :: "subject_ref \<Rightarrow> subject_ref \<Rightarrow> bool" where
  "carried_pair src dst \<longleftrightarrow> src \<noteq> dst \<and> \<not> (\<exists>i l. src = Person i \<and> dst = Lead l)"

lemma untouched_states: "consent_untouched w w' \<Longrightarrow> current_state w' = current_state w \<and> keyed w' = keyed w"
  by (simp add: consent_untouched_def current_state_def keyed_def fun_eq_iff)

lemma stamped_untouched: "stamped_more w w' \<Longrightarrow> consent_untouched w w'"
  by (auto simp: stamped_more_def consent_untouched_def)

lemma sent_untouched: "require_granted_for_recipients c rs key w = (Inr u, w') \<Longrightarrow> consent_untouched w w'"
  by (erule gate_passed) (rule stamped_untouched)

lemma image_update_where: "(\<And>r. k (f r) = k r) \<Longrightarrow> k ` set (update_where p f xs) = k ` set xs"
  by (induction xs) auto

lemma issue_effect:
  assumes "issue_in_tx s c person purpose deliver token row_id w = Inr (x, w')"
  shows "\<exists>doi. cd_consents w' = cd_consents w \<and> cd_proofs w' = cd_proofs w \<and> cd_purposes w' = cd_purposes w
    \<and> cd_doi w' = update_where (\<lambda>t. dt_person t = person \<and> dt_purpose t = purpose \<and> dt_consumed_at t = None
          \<and> cs_now s < dt_expires_at t) (\<lambda>t. t\<lparr>dt_expires_at := cs_now s\<rparr>) (cd_doi w)
        @ [\<lparr>dt_person = person, dt_purpose = purpose, dt_hash = cs_sha s token, dt_issued_at = cs_now s,
            dt_expires_at = cs_now s + doi_token_ttl, dt_consumed_at = None\<rparr>]
    \<and> cs_sha s token \<notin> dt_hash ` set (cd_doi w) \<and> x = (token, cs_now s + doi_token_ttl)"
  using assms
  by (auto simp: issue_in_tx_def Let_def ledger_tx_def image_update_where split: if_splits)

lemma catalogue_effect:
  assumes "create_purpose c key label doi new_id w = (Inr pu, w')"
  shows "w' = w\<lparr>cd_purposes := cd_purposes w @ [pu]\<rparr> \<and> pu_id pu = new_id \<and> pu_doi pu = doi"
  using assms by (auto simp: create_purpose_def Let_def split: sum.splits if_splits dest!: run_tx_InrD)

text \<open>A carry as the three functions perform it; promotion leaves the proofs where they are.\<close>

lemma merge_effect:
  assumes "merge_consent c now a b w = Inr (u, w')"
  shows "\<exists>x y z who. w' = repoint_proofs (Person a) (Person b) (carry (Person a) (Person b) x y z now who w)"
  using assms by (fastforce simp: merge_consent_def carry_def Let_def)

lemma promote_effect:
  assumes "carry_lead_consent who now l i w = Inr (u, w')"
  shows "\<exists>x y z. w' = carry (Lead l) (Person i) x y z now who w"
  using assms by (auto simp: carry_lead_consent_def carry_def Let_def)

lemma leads_merge_effect:
  assumes "carry_lead_consent_to_lead who now a b w = Inr (u, w')"
  shows "\<exists>x y z. w' = repoint_proofs (Lead a) (Lead b) (carry (Lead a) (Lead b) x y z now who w)"
  using assms by (auto simp: carry_lead_consent_to_lead_def carry_def Let_def)

fun states_after :: "consent_event \<Rightarrow> consent_db \<Rightarrow> (subject_ref \<Rightarrow> uuid \<Rightarrow> consent_state option) \<Rightarrow> bool" where
  "states_after (Recorded sub purpose st) w cur \<longleftrightarrow> st \<noteq> StateUnknown \<and>
     ((cur = current_state w \<and> current_state w sub purpose \<noteq> None)
     \<or> cur = (\<lambda>s p. if s = sub \<and> p = purpose then Some st else current_state w s p))"
| "states_after (Carried src dst) w cur \<longleftrightarrow> carried_pair src dst \<and> cur = carried_state w src dst"
| "states_after _ w cur \<longleftrightarrow> cur = current_state w"

lemma consent_step_states:
  assumes "consent_step w e w'" "keyed w"
  shows "keyed w' \<and> states_after e w (current_state w')"
  using assms(1)
proof cases
  case (recorded c inp sub st s out)
  have known: "st \<noteq> StateUnknown"
    using recorded(2) by (auto simp: admit_record_def parse_recordable_state_def split: if_splits)
  show ?thesis
  proof (rule record_in_tx_effect [OF recorded(3)], goal_cases)
    case (1 cur)
    then show ?thesis using recorded(1) assms(2) known by simp
  next
    case (2 key doi doi_at w1 p l)
    then show ?thesis using changed_states [OF 2(4)] assms(2) recorded(1) known by auto
  qed
next
  case (issued s c person purpose deliver token row_id x)
  then show ?thesis using issue_effect [OF issued(2)] assms(2) by (auto simp: current_state_def keyed_def fun_eq_iff)
next
  case (merged c now a b u)
  then show ?thesis using merge_effect [OF merged(2)] carry_facts [OF assms(2), of "Person a" "Person b"]
    by (auto simp: carried_pair_def fun_eq_iff)
next
  case (promoted who now l i u)
  then show ?thesis using promote_effect [OF promoted(2)] carry_facts [OF assms(2), of "Lead l" "Person i"]
    by (auto simp: carried_pair_def fun_eq_iff)
next
  case (leads_merged who now a b u)
  then show ?thesis using leads_merge_effect [OF leads_merged(2)] carry_facts [OF assms(2), of "Lead a" "Lead b"]
    by (auto simp: carried_pair_def fun_eq_iff)
next
  case (sent c rs key u)
  then show ?thesis using untouched_states [OF sent_untouched [OF sent(2)]] assms(2) by simp
next
  case (catalogued c key label doi new_id pu)
  then show ?thesis using catalogue_effect [OF catalogued(2)] assms(2) by (auto simp: current_state_def keyed_def fun_eq_iff)
next
  case elsewhere
  then show ?thesis using untouched_states [OF elsewhere(2)] assms(2) by simp
qed

interpretation consents: invariant_machine consent_step keyed
  by unfold_locales (simp add: consent_step_states)

section \<open>A withdrawal stands\<close>

fun moved :: "consent_event \<Rightarrow> subject_ref \<Rightarrow> subject_ref" where
  "moved (Carried src dst) s = (if s = src then dst else s)"
| "moved _ s = s"

text \<open>Who a subject is after a history, and whether that subject granted the purpose again during it.\<close>

definition now_as :: "consent_event list \<Rightarrow> subject_ref \<Rightarrow> subject_ref" where
  "now_as es sub = fold moved es sub"

fun regranted :: "subject_ref \<Rightarrow> uuid \<Rightarrow> consent_event list \<Rightarrow> bool" where
  "regranted sub p [] \<longleftrightarrow> False"
| "regranted sub p (e # es) \<longleftrightarrow> e = Recorded sub p StateGranted \<or> regranted (moved e sub) p es"

lemma regranted_append: "regranted sub p (es @ fs) \<longleftrightarrow> regranted sub p es \<or> regranted (now_as es sub) p fs"
  by (induction es arbitrary: sub) (auto simp: now_as_def)

lemma withdrawal_stands_step:
  assumes "consent_step w e w'" "keyed w" "objected w s p" "e \<noteq> Recorded s p StateGranted"
  shows "objected w' (moved e s) p"
proof -
  have "states_after e w (current_state w')" using consent_step_states [OF assms(1,2)] by blast
  then show ?thesis using assms(3,4)
    by (cases e) (auto simp: objected_def carried_state_def carried_pair_def split: if_splits option.splits,
      (metis consent_state.exhaust)+)
qed

lemma withdrawal_stands:
  "run_of consent_step w es w' \<Longrightarrow> keyed w \<Longrightarrow> objected w s p \<Longrightarrow> \<not> regranted s p es \<Longrightarrow> objected w' (now_as es s) p"
proof (induction rule: run_of.induct)
  case (step w es w1 e w2)
  have "objected w1 (now_as es s) p" "e \<noteq> Recorded (now_as es s) p StateGranted"
    using step.IH step.prems by (auto simp: regranted_append)
  then show ?case
    using withdrawal_stands_step [OF step.hyps(2) consents.run_inv [OF step.hyps(1) step.prems(1)]]
    by (simp add: now_as_def)
qed (simp add: now_as_def)

lemma now_as_person: "run_of consent_step w es w' \<Longrightarrow> keyed w \<Longrightarrow> \<exists>j. now_as es (Person i) = Person j"
proof (induction rule: run_of.induct)
  case (step w es w1 e w2)
  have "states_after e w1 (current_state w2)"
    using consent_step_states [OF step.hyps(2) consents.run_inv [OF step.hyps(1) step.prems]] by blast
  then show ?case using step.IH [OF step.prems]
    by (cases e) (auto simp: now_as_def carried_pair_def, metis subject_ref.exhaust)
qed (simp add: now_as_def)

section \<open>Every state has its proof\<close>

definition evidenced :: "consent_db \<Rightarrow> subject_ref \<Rightarrow> uuid \<Rightarrow> consent_state \<Rightarrow> bool" where
  "evidenced w sub p st \<longleftrightarrow> (\<exists>e \<in> set (cd_proofs w). pe_purpose e = p \<and> pe_new_state e = st
     \<and> (pe_subject e = sub \<or> ((\<exists>l. pe_subject e = Lead l) \<and> (\<exists>i. sub = Person i))))"

definition confirmations :: "consent_db \<Rightarrow> nat" where
  "confirmations w = length (filter (\<lambda>e. pe_doi_at e \<noteq> None) (cd_proofs w))"

definition redemptions :: "consent_db \<Rightarrow> nat" where
  "redemptions w = length (filter (\<lambda>t. dt_consumed_at t \<noteq> None) (cd_doi w))"

definition double_opt_in :: "consent_db \<Rightarrow> uuid \<Rightarrow> bool" where
  "double_opt_in w p \<longleftrightarrow> (\<exists>pu \<in> set (cd_purposes w). pu_id pu = p \<and> pu_doi pu)"

definition states_ok :: "consent_db \<Rightarrow> bool" where
  "states_ok w \<longleftrightarrow> (\<forall>sub p st. current_state w sub p = Some st \<longrightarrow>
     st \<noteq> StateUnknown \<and> p \<in> pu_id ` set (cd_purposes w) \<and> evidenced w sub p st
     \<and> (st = StateGranted \<and> double_opt_in w p \<longrightarrow> confirmed w sub p \<and> (\<exists>i. sub = Person i)))"

definition consent_ok :: "consent_db \<Rightarrow> bool" where
  "consent_ok w \<longleftrightarrow> keyed w \<and> distinct (map pu_id (cd_purposes w)) \<and> distinct (map dt_hash (cd_doi w))
     \<and> confirmations w = redemptions w \<and> states_ok w"

subsection \<open>The invariant, part by part\<close>

lemma length_filter_update_same:
  "(\<And>r. Q (f r) = Q r) \<Longrightarrow> length (filter Q (update_where p f xs)) = length (filter Q xs)"
  by (induction xs) auto

lemma length_filter_update_new:
  "(\<And>r. P r \<Longrightarrow> \<not> Q r \<and> Q (f r)) \<Longrightarrow>
     length (filter Q (update_where P f xs)) = length (filter Q xs) + length (filter P xs)"
  by (induction xs) auto

lemma one_with_key:
  assumes "distinct (map k xs)" "\<And>x. P x \<Longrightarrow> k x = c" "list_ex P xs"
  shows "length (filter P xs) = 1"
  using assms(1,3)
proof (induction xs)
  case (Cons x xs)
  have "filter P xs = []" if "P x" using that assms(2) Cons.prems(1) by (force simp: filter_empty_conv)
  then show ?case using Cons by (cases "P x") auto
qed simp

lemma redeemed_counts:
  assumes "distinct (map dt_hash (cd_doi w))" "list_ex (redeemable s person purpose token) (cd_doi w)"
  shows "redemptions (redeemed s person purpose token w) = redemptions w + 1"
    "distinct (map dt_hash (cd_doi (redeemed s person purpose token w)))"
proof -
  have one: "length (filter (redeemable s person purpose token) (cd_doi w)) = 1"
    by (rule one_with_key [OF assms(1) _ assms(2), of "cs_sha s token"]) (simp add: redeemable_def)
  show "redemptions (redeemed s person purpose token w) = redemptions w + 1"
    unfolding redemptions_def redeemed_def
    by (simp add: length_filter_update_new [where P = "redeemable s person purpose token"] one redeemable_def [abs_def])
      (subst length_filter_update_new, auto simp: redeemable_def one [unfolded redeemable_def [abs_def]])
  show "distinct (map dt_hash (cd_doi (redeemed s person purpose token w)))"
    using assms(1) by (simp add: redeemed_def map_update_where)
qed

lemma upsert_tables:
  "cd_purposes (upsert_consent_with_proof inp sub st doi_at at who w) = cd_purposes w"
  "cd_doi (upsert_consent_with_proof inp sub st doi_at at who w) = cd_doi w"
  by (simp_all add: upsert_consent_with_proof_def)

lemma upsert_counts:
  "confirmations ((upsert_consent_with_proof inp sub st doi_at at who w)\<lparr>cd_ledger := l\<rparr>) =
     confirmations w + (if doi_at = None then 0 else 1)"
  "redemptions ((upsert_consent_with_proof inp sub st doi_at at who w)\<lparr>cd_ledger := l\<rparr>) = redemptions w"
  by (simp_all add: confirmations_def redemptions_def upsert_consent_with_proof_def)

lemma evidenced_mono: "set (cd_proofs w) \<subseteq> set (cd_proofs w') \<Longrightarrow> evidenced w sub p st \<Longrightarrow> evidenced w' sub p st"
  by (auto simp: evidenced_def)

lemma confirmed_mono: "set (cd_proofs w) \<subseteq> set (cd_proofs w') \<Longrightarrow> confirmed w sub p \<Longrightarrow> confirmed w' sub p"
  by (auto simp: confirmed_def list_ex_iff)

lemma states_ok_mono:
  assumes "states_ok w" "current_state w' = current_state w" "set (cd_proofs w) \<subseteq> set (cd_proofs w')"
    and "pu_id ` set (cd_purposes w) \<subseteq> pu_id ` set (cd_purposes w')"
    and "\<And>p. p \<in> pu_id ` set (cd_purposes w) \<Longrightarrow> double_opt_in w' p = double_opt_in w p"
  shows "states_ok w'"
  unfolding states_ok_def assms(2)
proof (intro allI impI)
  fix sub p st assume "current_state w sub p = Some st"
  then have s: "st \<noteq> StateUnknown" "p \<in> pu_id ` set (cd_purposes w)" "evidenced w sub p st"
    "st = StateGranted \<and> double_opt_in w p \<longrightarrow> confirmed w sub p \<and> (\<exists>i. sub = Person i)"
    using assms(1) by (auto simp: states_ok_def)
  then show "st \<noteq> StateUnknown \<and> p \<in> pu_id ` set (cd_purposes w') \<and> evidenced w' sub p st
     \<and> (st = StateGranted \<and> double_opt_in w' p \<longrightarrow> confirmed w' sub p \<and> (\<exists>i. sub = Person i))"
    using assms(4) assms(5) [OF s(2)] evidenced_mono [OF assms(3) s(3)] confirmed_mono [OF assms(3), of sub p] by auto
qed

lemma load_purpose_doi:
  assumes "load_consent_purpose w p = Inr (key, doi)" "distinct (map pu_id (cd_purposes w))"
  shows "p \<in> pu_id ` set (cd_purposes w)" "double_opt_in w p \<longleftrightarrow> doi"
proof -
  obtain pu where pu: "find (\<lambda>x. pu_id x = p) (live_purposes w) = Some pu" "doi = pu_doi pu"
    using assms(1) by (auto simp: load_consent_purpose_def split: option.splits)
  then have m: "pu \<in> set (cd_purposes w)" "pu_id pu = p" by (auto simp: live_purposes_def dest: find_SomeD)
  then show "p \<in> pu_id ` set (cd_purposes w)" by blast
  show "double_opt_in w p \<longleftrightarrow> doi"
    using m pu(2) assms(2) by (auto simp: double_opt_in_def distinct_map dest: inj_onD)
qed

lemma states_ok_recorded:
  assumes "states_ok w" "load_consent_purpose w (ri_purpose inp) = Inr (key, doi)"
    and "distinct (map pu_id (cd_purposes w))" "st \<noteq> StateUnknown"
    and "resolve_doi_confirmation s inp sub st doi w = Inr (doi_at, w1)"
  shows "states_ok ((upsert_consent_with_proof inp sub st doi_at at who w1)\<lparr>cd_ledger := l\<rparr>)" (is "states_ok ?w")
proof -
  note cur = changed_states(1) [OF assms(5), where at = at and who = who and l = l]
  note same = resolve_doi_keeps [OF assms(5)] and pu = load_purpose_doi [OF assms(2,3)]
  have ps: "cd_purposes ?w = cd_purposes w" using same by (simp add: upsert_consent_with_proof_def)
  obtain e where e: "cd_proofs ?w = cd_proofs w @ [e]" "pe_subject e = sub" "pe_purpose e = ri_purpose inp"
    "pe_new_state e = st" "pe_doi_at e = doi_at" using same by (simp add: upsert_consent_with_proof_def)
  have d: "double_opt_in ?w = double_opt_in w" by (simp add: fun_eq_iff double_opt_in_def ps)
  have new: "st = StateGranted \<and> doi \<longrightarrow> confirmed ?w sub (ri_purpose inp) \<and> (\<exists>i. sub = Person i)"
    using resolve_doi_effect [OF assms(5)] e by (fastforce simp: confirmed_def)
  have old: "evidenced w s' p st' \<Longrightarrow> evidenced ?w s' p st'" "confirmed w s' p \<Longrightarrow> confirmed ?w s' p" for s' p st'
    by (rule evidenced_mono confirmed_mono, use e(1) in auto)+
  have "evidenced ?w sub (ri_purpose inp) st" using e by (auto simp: evidenced_def)
  then show ?thesis
    unfolding states_ok_def cur d ps using assms(1,4) pu new old by (auto simp: states_ok_def)
qed

text \<open>A carry, with or without its proofs.\<close>

definition renamed :: "bool \<Rightarrow> subject_ref \<Rightarrow> subject_ref \<Rightarrow> subject_ref \<Rightarrow> subject_ref" where
  "renamed move src dst s = (if move \<and> s = src then dst else s)"

definition carried_to :: "bool \<Rightarrow> subject_ref \<Rightarrow> subject_ref \<Rightarrow> consent_db \<Rightarrow> consent_db \<Rightarrow> bool" where
  "carried_to move src dst w w' \<longleftrightarrow>
     carried_pair src dst \<and> (move \<longleftrightarrow> \<not> (\<exists>l i. src = Lead l \<and> dst = Person i))
     \<and> current_state w' = carried_state w src dst \<and> keyed w'
     \<and> cd_purposes w' = cd_purposes w \<and> cd_doi w' = cd_doi w
     \<and> (\<exists>new. cd_proofs w' = map (\<lambda>e. e\<lparr>pe_subject := renamed move src dst (pe_subject e)\<rparr>) (cd_proofs w) @ new
         \<and> (\<forall>e \<in> set new. pe_doi_at e = None)
         \<and> (\<forall>p st. current_state w dst p = Some st \<and> st \<noteq> StateWithdrawn \<and> objected w src p \<longrightarrow>
              (\<exists>e \<in> set new. pe_subject e = dst \<and> pe_purpose e = p \<and> pe_new_state e = StateWithdrawn)))"

lemma carry_proofs:
  "cd_proofs (carry src dst x y z now who w) = cd_proofs w @ map (\<lambda>b. \<lparr>pe_subject = dst, pe_purpose = cr_purpose b,
     pe_new_state = StateWithdrawn, pe_basis = None, pe_source = x, pe_policy_text = y,
     pe_policy_version = z, pe_doi_at = None, pe_captured_at = now, pe_captured_by = who\<rparr>)
     (filter (flips src dst (cd_consents w)) (cd_consents w))"
  "cd_purposes (carry src dst x y z now who w) = cd_purposes w" "cd_doi (carry src dst x y z now who w) = cd_doi w"
  by (simp_all add: carry_def repoint_states_def drop_colliding_def carry_withdrawals_def)

lemma flip_exists:
  assumes "keyed w" "current_state w dst p = Some st" "st \<noteq> StateWithdrawn" "objected w src p"
  shows "\<exists>b \<in> set (cd_consents w). flips src dst (cd_consents w) b \<and> cr_purpose b = p"
  using assms by (auto simp: current_state_iff flips_def withdrew_iff)

lemma carry_is_carried:
  assumes "keyed w" "carried_pair src dst" "move \<longleftrightarrow> \<not> (\<exists>l i. src = Lead l \<and> dst = Person i)"
    and "w' = (if move then repoint_proofs src dst else id) (carry src dst x y z now who w)"
  shows "carried_to move src dst w w'"
proof -
  have ne: "src \<noteq> dst" using assms(2) by (simp add: carried_pair_def)
  note facts = carry_facts [OF assms(1) ne]
  have st: "current_state w' = carried_state w src dst" "keyed w'"
    using facts assms(4) by (auto simp: fun_eq_iff)
  have tabs: "cd_purposes w' = cd_purposes w" "cd_doi w' = cd_doi w"
    using assms(4) by (auto simp: repoint_proofs_def carry_proofs)
  let ?new = "map (\<lambda>b. \<lparr>pe_subject = dst, pe_purpose = cr_purpose b,
     pe_new_state = StateWithdrawn, pe_basis = None, pe_source = x, pe_policy_text = y,
     pe_policy_version = z, pe_doi_at = None, pe_captured_at = now, pe_captured_by = who\<rparr>)
     (filter (flips src dst (cd_consents w)) (cd_consents w))"
  have pr: "cd_proofs w' = map (\<lambda>e. e\<lparr>pe_subject := renamed move src dst (pe_subject e)\<rparr>) (cd_proofs w) @ ?new"
    using assms(4) ne
    by (auto simp: repoint_proofs_def carry_proofs renamed_def update_where_def map_idI intro!: map_cong)
  have "\<exists>e \<in> set ?new. pe_subject e = dst \<and> pe_purpose e = p \<and> pe_new_state e = StateWithdrawn"
    if "current_state w dst p = Some s0" "s0 \<noteq> StateWithdrawn" "objected w src p" for p s0
    using flip_exists [OF assms(1) that] by force
  then show ?thesis
    unfolding carried_to_def using assms(2,3) st tabs pr by (intro conjI exI [of _ ?new]) auto
qed

lemma evidenced_carried:
  assumes "carried_to move src dst w w'" "evidenced w s p st"
  shows "evidenced w' (if s = src then dst else s) p st"
proof -
  obtain e where e: "e \<in> set (cd_proofs w)" "pe_purpose e = p" "pe_new_state e = st"
    "pe_subject e = s \<or> ((\<exists>l. pe_subject e = Lead l) \<and> (\<exists>i. s = Person i))"
    using assms(2) by (auto simp: evidenced_def)
  let ?e = "e\<lparr>pe_subject := renamed move src dst (pe_subject e)\<rparr>"
  have "?e \<in> set (cd_proofs w')" using assms(1) e(1) by (auto simp: carried_to_def)
  moreover have "pe_subject ?e = (if s = src then dst else s)
      \<or> ((\<exists>l. pe_subject ?e = Lead l) \<and> (\<exists>i. (if s = src then dst else s) = Person i))"
    using e(4) assms(1)
    by (cases src; cases dst) (auto simp: carried_to_def carried_pair_def renamed_def)
  ultimately show ?thesis using e(2,3) unfolding evidenced_def by (intro bexI [of _ ?e]) auto
qed

lemma confirmed_carried:
  assumes "carried_to move src dst w w'" "confirmed w s p" "s = src \<longrightarrow> move"
  shows "confirmed w' (if s = src then dst else s) p"
proof -
  obtain e where e: "e \<in> set (cd_proofs w)" "pe_subject e = s" "pe_purpose e = p" "pe_new_state e = StateGranted"
    "pe_doi_at e \<noteq> None" using assms(2) by (auto simp: confirmed_def list_ex_iff)
  let ?e = "e\<lparr>pe_subject := renamed move src dst (pe_subject e)\<rparr>"
  have "?e \<in> set (cd_proofs w')" using assms(1) e(1) by (auto simp: carried_to_def)
  then show ?thesis using e assms(3) unfolding confirmed_def list_ex_iff
    by (intro bexI [of _ ?e]) (auto simp: renamed_def)
qed

lemma states_ok_carried:
  assumes "carried_to move src dst w w'" "states_ok w"
  shows "states_ok w'"
  unfolding states_ok_def
proof (intro allI impI)
  fix s p st assume cur: "current_state w' s p = Some st"
  have d: "double_opt_in w' = double_opt_in w" "cd_purposes w' = cd_purposes w"
    using assms(1) by (auto simp: carried_to_def double_opt_in_def fun_eq_iff)
  have kinds: "s = dst \<Longrightarrow> (\<exists>i. src = Person i) \<Longrightarrow> \<exists>i. s = Person i" "src \<noteq> dst"
    using assms(1) by (cases dst; auto simp: carried_to_def carried_pair_def)+
  have after: "carried_state w src dst s p = Some st" using assms(1) cur by (simp add: carried_to_def)
  consider (own) "s \<noteq> src" "current_state w s p = Some st"
    | (flip) s0 where "s = dst" "current_state w dst p = Some s0" "s0 \<noteq> StateWithdrawn" "objected w src p" "st = StateWithdrawn"
    | (came) "s = dst" "current_state w src p = Some st"
    using after kinds(2) by (auto simp: carried_state_def objected_def split: if_splits option.splits)
  then show "st \<noteq> StateUnknown \<and> p \<in> pu_id ` set (cd_purposes w') \<and> evidenced w' s p st
     \<and> (st = StateGranted \<and> double_opt_in w' p \<longrightarrow> confirmed w' s p \<and> (\<exists>i. s = Person i))"
  proof cases
    case own
    then show ?thesis
      using assms(2) evidenced_carried [OF assms(1), of s p st] confirmed_carried [OF assms(1), of s p] d
      by (auto simp: states_ok_def)
  next
    case flip
    have "p \<in> pu_id ` set (cd_purposes w)" using assms(2) flip(2) by (auto simp: states_ok_def)
    moreover have "evidenced w' s p st"
      using assms(1) flip unfolding carried_to_def evidenced_def by (metis Un_iff set_append)
    ultimately show ?thesis using flip(5) d(2) by auto
  next
    case came
    have "st = StateGranted \<and> double_opt_in w p \<Longrightarrow> (\<exists>i. src = Person i)" using assms(2) came by (auto simp: states_ok_def)
    then have "st = StateGranted \<and> double_opt_in w p \<Longrightarrow> move" using assms(1) by (auto simp: carried_to_def)
    then show ?thesis
      using assms(2) came evidenced_carried [OF assms(1), of src p st] confirmed_carried [OF assms(1), of src p] d kinds(1)
      by (auto simp: states_ok_def)
  qed
qed

lemma consent_ok_carried:
  assumes "carried_to move src dst w w'" "consent_ok w"
  shows "consent_ok w'"
proof -
  have "confirmations w' = confirmations w"
    using assms(1) by (auto simp: confirmations_def carried_to_def filter_map comp_def filter_empty_conv)
  then show ?thesis
    using assms states_ok_carried [OF assms(1)] by (auto simp: consent_ok_def carried_to_def redemptions_def)
qed

lemma consent_ok_recorded:
  assumes "record_in_tx s c inp sub st w = Inr (out, w')" "st \<noteq> StateUnknown" "consent_ok w"
  shows "consent_ok w'"
proof (rule record_in_tx_effect [OF assms(1)], goal_cases)
  case (1 cur)
  then show ?case using assms(3) by simp
next
  case (2 key doi doi_at w1 p l)
  have ok: "keyed w" "distinct (map pu_id (cd_purposes w))" "distinct (map dt_hash (cd_doi w))"
    "confirmations w = redemptions w" "states_ok w" using assms(3) by (simp_all add: consent_ok_def)
  have "distinct (map dt_hash (cd_doi w1)) \<and> confirmations w1 = confirmations w
      \<and> redemptions w1 = redemptions w + (if doi_at = None then 0 else 1)"
    by (rule resolve_doi_effect [OF 2(4)])
      (use ok(3) redeemed_counts [OF ok(3)] in \<open>auto simp: confirmations_def redeemed_def\<close>)
  moreover have "cd_purposes w1 = cd_purposes w" using resolve_doi_keeps [OF 2(4)] by blast
  ultimately show ?case
    unfolding consent_ok_def 2(6) upsert_counts
    using ok changed_states(2) [OF 2(4) ok(1)] states_ok_recorded [OF ok(5) 2(1) ok(2) assms(2) 2(4)]
    by (simp add: upsert_tables)
qed

lemma consent_ok_same_tables:
  assumes "consent_ok w" "cd_consents w' = cd_consents w" "cd_proofs w' = cd_proofs w" "cd_purposes w' = cd_purposes w"
    and "distinct (map dt_hash (cd_doi w'))" "redemptions w' = redemptions w"
  shows "consent_ok w'"
proof -
  have "current_state w' = current_state w" using assms(2) by (simp add: current_state_def fun_eq_iff)
  then show ?thesis
    using assms states_ok_mono [of w w'] by (simp add: consent_ok_def keyed_def confirmations_def double_opt_in_def)
qed

lemma consent_ok_issued:
  assumes "issue_in_tx s c person purpose deliver token row_id w = Inr (x, w')" "consent_ok w"
  shows "consent_ok w'"
proof -
  obtain P f t where d: "cd_doi w' = update_where P f (cd_doi w) @ [t]" "dt_hash t \<notin> dt_hash ` set (cd_doi w)"
    "dt_consumed_at t = None" and f: "\<And>r. dt_hash (f r) = dt_hash r" "\<And>r. dt_consumed_at (f r) = dt_consumed_at r"
    and same: "cd_consents w' = cd_consents w" "cd_proofs w' = cd_proofs w" "cd_purposes w' = cd_purposes w"
    by (rule that [of "\<lambda>t. dt_person t = person \<and> dt_purpose t = purpose \<and> dt_consumed_at t = None
        \<and> cs_now s < dt_expires_at t" "\<lambda>t. t\<lparr>dt_expires_at := cs_now s\<rparr>"
        "\<lparr>dt_person = person, dt_purpose = purpose, dt_hash = cs_sha s token, dt_issued_at = cs_now s,
          dt_expires_at = cs_now s + doi_token_ttl, dt_consumed_at = None\<rparr>"])
      (use issue_effect [OF assms(1)] in simp_all)
  have "distinct (map dt_hash (cd_doi w'))"
    unfolding d(1) using assms(2) d(2) f(1) by (simp add: consent_ok_def map_update_where image_update_where)
  moreover have "redemptions w' = redemptions w"
    unfolding redemptions_def d(1) using d(3) f(2) by (simp add: length_filter_update_same)
  ultimately show ?thesis using consent_ok_same_tables [OF assms(2) same] by blast
qed

lemma consent_ok_catalogued:
  assumes "create_purpose c key label doi new_id w = (Inr pu, w')" "new_id \<notin> pu_id ` set (cd_purposes w)" "consent_ok w"
  shows "consent_ok w'"
proof -
  have w': "w' = w\<lparr>cd_purposes := cd_purposes w @ [pu]\<rparr>" "pu_id pu = new_id" using catalogue_effect [OF assms(1)] by auto
  have "states_ok w'"
    by (rule states_ok_mono [of w]) (use assms(2,3) w' in \<open>auto simp: consent_ok_def current_state_def fun_eq_iff double_opt_in_def\<close>)
  then show ?thesis
    using assms(2,3) w' by (auto simp: consent_ok_def keyed_def confirmations_def redemptions_def)
qed

lemma consent_step_ok:
  assumes "consent_step w e w'" "consent_ok w"
  shows "consent_ok w'"
  using assms(1)
proof cases
  case (recorded c inp sub st s out)
  have "st \<noteq> StateUnknown"
    using recorded(2) by (auto simp: admit_record_def parse_recordable_state_def split: if_splits)
  then show ?thesis using consent_ok_recorded [OF recorded(3)] assms(2) by blast
next
  case (issued s c person purpose deliver token row_id x)
  then show ?thesis using consent_ok_issued assms(2) by blast
next
  case (merged c now a b u)
  then obtain x y z who where "w' = repoint_proofs (Person a) (Person b) (carry (Person a) (Person b) x y z now who w)"
    using merge_effect by blast
  then have "carried_to True (Person a) (Person b) w w'"
    using carry_is_carried [of w "Person a" "Person b" True w' x y z now who] merged(3) assms(2)
    by (simp add: consent_ok_def carried_pair_def)
  then show ?thesis using consent_ok_carried assms(2) by blast
next
  case (promoted who now l i u)
  then obtain x y z where "w' = carry (Lead l) (Person i) x y z now who w" using promote_effect by blast
  then have "carried_to False (Lead l) (Person i) w w'"
    using carry_is_carried [of w "Lead l" "Person i" False w' x y z now who] assms(2)
    by (simp add: consent_ok_def carried_pair_def)
  then show ?thesis using consent_ok_carried assms(2) by blast
next
  case (leads_merged who now a b u)
  then obtain x y z where "w' = repoint_proofs (Lead a) (Lead b) (carry (Lead a) (Lead b) x y z now who w)"
    using leads_merge_effect by blast
  then have "carried_to True (Lead a) (Lead b) w w'"
    using carry_is_carried [of w "Lead a" "Lead b" True w' x y z now who] leads_merged(3) assms(2)
    by (simp add: consent_ok_def carried_pair_def)
  then show ?thesis using consent_ok_carried assms(2) by blast
next
  case (sent c rs key u)
  show ?thesis using consent_ok_same_tables [OF assms(2)] sent_untouched [OF sent(2)] assms(2)
    by (simp add: consent_untouched_def consent_ok_def redemptions_def)
next
  case (catalogued c key label doi new_id pu)
  then show ?thesis using consent_ok_catalogued assms(2) by blast
next
  case elsewhere
  show ?thesis using consent_ok_same_tables [OF assms(2)] elsewhere(2) assms(2)
    by (simp add: consent_untouched_def consent_ok_def redemptions_def)
qed

interpretation proved_consents: invariant_machine consent_step consent_ok
  by unfold_locales (rule consent_step_ok)

section \<open>Properties\<close>

lemma merge_frame:
  assumes "merge_consent c now a b w = Inr (u, w')"
  shows "cd_purposes w' = cd_purposes w" "cd_emails w' = cd_emails w" "cd_messages w' = cd_messages w"
    "cd_scope w' = cd_scope w" "cd_channels w' = cd_channels w" "cd_leads w' = cd_leads w"
  using assms by (auto simp: merge_consent_def repoint_proofs_def repoint_states_def drop_colliding_def
    carry_withdrawals_def Let_def)

lemma gate_pass_all:
  assumes "fst (require_granted_for_recipients c rs key w) = Inr u" "r \<in> set rs"
    and "purpose_of_key w (trim_space (to_lower key)) = Some pu"
  shows "recipient_ok w pu r"
  using assms grant_all_effect [of c pu rs w]
  by (cases "grant_all c pu rs w")
    (auto simp: require_granted_for_recipients_def run_tx_def list_all_iff split: if_splits sum.splits)

text \<open>
  C3. A withdrawal outlives everything but a new grant. Through any history of decisions, double opt-in
  issues, merges, promotions, sends and changes to the rest of the record, a person who withdrew a purpose
  stays withdrawn, under whatever person record they have become, unless that very subject's grant is
  recorded again; and as long as they are, every verdict on the purpose is blocked and no message to them
  passes the gate, whoever sends it, with whomever else in copy.
\<close>

theorem a_withdrawal_stands_until_regranted:
  assumes "run_of consent_step w es w'" "keyed w" "current_state w (Person i) p = Some StateWithdrawn"
    and "\<not> regranted (Person i) p es"
  shows "\<exists>j. now_as es (Person i) = Person j \<and> current_state w' (Person j) p = Some StateWithdrawn
    \<and> (\<forall>pu. pu_id pu = p \<longrightarrow> vd_state (verdict_for_person w' j pu) = VerdictBlocked
        \<and> (\<forall>c rs r key. r \<in> set rs \<longrightarrow> persons_named w' r = [j] \<longrightarrow>
             purpose_of_key w' (trim_space (to_lower key)) = Some pu \<longrightarrow>
             fst (require_granted_for_recipients c rs key w') \<noteq> Inr ()))"
proof -
  obtain j where j: "now_as es (Person i) = Person j" using now_as_person [OF assms(1,2)] by blast
  then have out: "objected w' (Person j) p"
    using withdrawal_stands [OF assms(1,2), of "Person i" p] assms(3,4) by (simp add: objected_def)
  then have blocked: "pu_id pu = p \<Longrightarrow> vd_state (verdict_for_person w' j pu) = VerdictBlocked" for pu
    by (simp add: verdict_objected)
  have "\<not> recipient_ok w' pu r" if "pu_id pu = p" "persons_named w' r = [j]" for pu r
    using blocked [OF that(1)] that(2) by (simp add: recipient_ok_def)
  then show ?thesis using j out blocked gate_pass_all by (metis objected_def)
qed

definition opted_out :: consent_db where
  "opted_out = desk\<lparr>cd_consents := [\<lparr>cr_subject = Person 7, cr_purpose = 3, cr_state = StateWithdrawn, cr_basis = None,
     cr_captured_at = Some 2, cr_source = None\<rparr>]\<rparr>"

theorem a_withdrawal_stands_until_regranted_witness:
  "\<exists>w'. run_of consent_step opted_out [Carried (Person 7) (Person 8), Sent] w'
     \<and> current_state w' (Person 8) 3 = Some StateWithdrawn"
proof -
  obtain w1 where merged: "merge_consent clerk_ctx 4 7 8 opted_out = Inr ((), w1)"
    by (simp add: merge_consent_def captured_by_def clerk_acts Let_def)
  then have one: "consent_step opted_out (Carried (Person 7) (Person 8)) w1" by (rule consent_step.merged) simp
  have keyed: "keyed opted_out" by (simp add: keyed_def opted_out_def)
  obtain w2 where sent: "consent_step w1 Sent w2"
  proof -
    have scope: "cd_scope w1 = cd_scope desk" "cd_channels w1 = []" "cd_leads w1 = []"
      "cd_emails w1 = cd_emails desk" "cd_purposes w1 = desk_purposes"
      by (simp_all add: merge_frame [OF merged] opted_out_def desk_def)
    have states: "current_state w1 = carried_state opted_out (Person 7) (Person 8)"
      using consent_step_states [OF one keyed] by simp
    have named: "persons_named w1 to_a = [7]"
      using desk_named scope by (simp add: persons_named_def live_person_def [abs_def] to_a_def)
    have pu: "purpose_of_key w1 (trim_space (to_lower ''transactional'')) = Some (desk_purposes ! 0)"
      using desk_keys(3) scope by (simp add: purpose_of_key_def live_purposes_def desk_def)
    have "current_state w1 (Person 7) 1 = None" by (simp add: states carried_state_def)
    then have "recipient_ok w1 (desk_purposes ! 0) to_a"
      by (simp add: recipient_ok_def named verdict_allowed_iff objected_def lawful_basis_def desk_purposes_def)
    then have "gate_open w1 [to_a] ''transactional''" using pu desk_valid by (simp add: gate_open_def)
    then have "fst (require_granted_for_recipients clerk_ctx [to_a] ''transactional'' w1) = Inr ()"
      using gate_passes_iff [OF clerk_acts] by blast
    then show thesis using that consent_step.sent by (metis prod.collapse)
  qed
  have run: "run_of consent_step opted_out [Carried (Person 7) (Person 8), Sent] w2"
    using run_of_trans [OF run_of_single [where move = consent_step, OF sent] run_of_single [where move = consent_step, OF one]] by simp
  have "current_state opted_out (Person 7) 3 = Some StateWithdrawn" by (simp add: current_state_def opted_out_def)
  from a_withdrawal_stands_until_regranted [OF run keyed this] run show ?thesis
    by (auto simp: now_as_def)
qed

text \<open>
  C9. Consent on record rests on its proof. The invariant holds after every history: one state per subject
  and purpose, no state without a proof row that says so, a person's grant under a double opt-in purpose
  only with a confirmed proof of theirs (so the arm of the verdict for an unconfirmed grant is never
  taken), and exactly as many confirmations as tokens redeemed.
\<close>

theorem consent_rests_on_its_proof:
  assumes "run_of consent_step w es w'" "consent_ok w"
  shows "consent_ok w' \<and> (\<forall>pu \<in> set (cd_purposes w'). pu_doi pu \<longrightarrow>
      current_state w' (Person i) (pu_id pu) = Some StateGranted \<longrightarrow>
      confirmed w' (Person i) (pu_id pu) \<and> vd_reason (verdict_for_person w' i pu) \<noteq> NeverConfirmed)"
proof -
  have ok: "consent_ok w'" by (rule proved_consents.run_inv [OF assms])
  have "confirmed w' (Person i) (pu_id pu) \<and> vd_reason (verdict_for_person w' i pu) \<noteq> NeverConfirmed"
    if "pu \<in> set (cd_purposes w')" "pu_doi pu" "current_state w' (Person i) (pu_id pu) = Some StateGranted" for pu
  proof -
    have "confirmed w' (Person i) (pu_id pu)"
      using ok that by (auto simp: consent_ok_def states_ok_def double_opt_in_def)
    then show ?thesis using that
      by (auto simp: verdict_open objected_def marketing_verdict_def recorded_state_def
          split: purpose_class.splits event_source.splits)
  qed
  then show ?thesis using ok by blast
qed

section \<open>What always succeeds\<close>

lemma issue_ok:
  assumes "ensure_writable c (cd_scope w) ''person'' person = Inr ()" "load_consent_purpose w purpose = Inr (key, True)"
    and "cs_sha s token \<notin> dt_hash ` set (cd_doi w)" "ctx_actor c = Some p"
  shows "\<exists>x w'. issue_in_tx s c person purpose deliver token row_id w = Inr (x, w')"
proof -
  obtain aud l where "audit_entry (cs_kit s) c ''create'' ''consent_doi_token'' row_id None
      (Some [(''deliver'', JBool deliver), (''expires_at'', JNum (int_string (cs_now s + doi_token_ttl))),
        (''person_id'', JStr (uuid_string person)), (''purpose_id'', JStr (uuid_string purpose))]) (cd_ledger w) = Inr (aud, l)"
    using audit_entry_ok [OF assms(4)] by blast
  then show ?thesis
    using assms by (simp add: issue_in_tx_def Let_def ledger_tx_def image_update_where)
qed

lemma consent_changed_stream: "stream_for ''consent.changed'' = Inr ''gw:events:crm:person''"
  by code_simp

lemma subject_table_some: "subject_table sub \<noteq> []"
  by (cases sub) simp_all

lemma change_ok:
  assumes "resolve_doi_confirmation s inp sub st doi w = Inr (doi_at, w1)"
    and "writes (cs_kit s) c" "\<not> is_zero (subject_id sub)"
  shows "\<exists>r. record_change s c inp sub st key doi cur w = Inr r"
proof -
  obtain p where p: "ctx_actor c = Some p" using assms(2) by (auto simp: writes_def)
  let ?w2 = "upsert_consent_with_proof inp sub st doi_at (cs_now s) (p_id p) w1"
  obtain aud l where a: "audit_entry (cs_kit s) c (verdict_action st) (subject_table sub) (subject_id sub)
      (Some [(''state'', JStr (state_or_unknown cur))])
      (Some [(''purpose'', JStr key), (''state'', JStr (state_text st))]) (cd_ledger ?w2) = Inr (aud, l)"
    using audit_entry_ok [OF p] by blast
  have aud: "\<not> is_zero aud" using audit_entry_id [OF a] assms(2) by (simp add: writes_def)
  obtain l' where "emit_staged (cs_kit s) c aud ''consent.changed'' (subject_table sub) (subject_id sub)
      \<lparr>cc_purpose = ri_purpose inp, cc_key = key, cc_new_state = state_text st\<rparr> l = Inr l'"
    using emit_staged_ok [where l = l, OF assms(2) aud subject_table_some [of sub] assms(3) consent_changed_stream] by blast
  then show ?thesis
    using assms(1) a p by (simp add: record_change_def ledger_tx_def emit_event_for_entity_def consent_changed_payload_def)
qed

lemma after_read_ok:
  assumes "resolve_doi_confirmation s inp sub st doi w = Inr (doi_at, w1)"
    and "writes (cs_kit s) c" "\<not> is_zero (subject_id sub)"
  shows "\<exists>out w'. record_after_read s c inp sub st key doi cur w = Inr (out, w')"
  using change_ok [OF assms, of key cur] unfolding record_after_read_def
  by (cases "cur = Some st"; cases "ri_never_override inp"; cases cur) auto

lemma record_ok:
  assumes "ensure_writable c (cd_scope w) (subject_table sub) (subject_id sub) = Inr ()"
    and "load_consent_purpose w (ri_purpose inp) = Inr (key, doi)"
    and "resolve_doi_confirmation s inp sub st doi w = Inr (doi_at, w1)"
    and "writes (cs_kit s) c" "\<not> is_zero (subject_id sub)"
  shows "\<exists>out w'. record_in_tx s c inp sub st w = Inr (out, w')"
  using assms(1,2) after_read_ok [OF assms(3-5)] by (simp add: record_in_tx_def)

section \<open>Recording, in full\<close>

lemma update_where_all: "(\<And>t. P t \<Longrightarrow> \<not> P (f t)) \<Longrightarrow> \<not> list_ex P (update_where P f xs)"
  by (induction xs) auto

lemma redeemed_no_more: "\<not> list_ex (redeemable s person purpose token) (cd_doi (redeemed s person purpose token w))"
proof -
  have "\<not> list_ex (redeemable s person purpose token) (update_where (redeemable s person purpose token)
      (\<lambda>t. t\<lparr>dt_consumed_at := Some (cs_now s)\<rparr>) (cd_doi w))"
    by (rule update_where_all) (simp add: redeemable_def)
  then show ?thesis by (simp add: redeemed_def)
qed

lemma record_consent_cases:
  assumes "record_consent s c inp w = (res, w')"
  obtains (refused) e where "res = Inl e" "w' = w"
    | (recorded) sub st out where "res = Inr out" "admit_record c inp = Inr (sub, st)"
        "record_in_tx s c inp sub st w = Inr (out, w')"
  using assms by (cases "admit_record c inp") (auto simp: record_consent_def run_tx_def split: sum.splits)

text \<open>What the decision leaves behind: the state, one proof row, an audit row and an event, and a spent link.\<close>

definition decided :: "consent_svc \<Rightarrow> ctx \<Rightarrow> record_input \<Rightarrow> subject_ref \<Rightarrow> consent_state \<Rightarrow> consent_db \<Rightarrow> consent_db \<Rightarrow> bool" where
  "decided s c inp sub st w w' \<longleftrightarrow> (\<exists>key doi e. load_consent_purpose w (ri_purpose inp) = Inr (key, doi)
     \<and> current_state w' = (\<lambda>x p. if x = sub \<and> p = ri_purpose inp then Some st else current_state w x p)
     \<and> cd_proofs w' = cd_proofs w @ [e] \<and> pe_subject e = sub \<and> pe_purpose e = ri_purpose inp \<and> pe_new_state e = st
     \<and> change_logged c sub (ri_purpose inp) key st w w'
     \<and> (if st = StateGranted \<and> doi
        then (\<exists>i token. sub = Person i \<and> ri_token inp = Some token \<and> pe_doi_at e = Some (cs_now s)
          \<and> list_ex (redeemable s i (ri_purpose inp) token) (cd_doi w)
          \<and> \<not> list_ex (redeemable s i (ri_purpose inp) token) (cd_doi w'))
        else pe_doi_at e = None \<and> cd_doi w' = cd_doi w))"

lemma upsert_proofs:
  "\<exists>e. cd_proofs (upsert_consent_with_proof inp sub st doi_at at who w) = cd_proofs w @ [e]
     \<and> pe_subject e = sub \<and> pe_purpose e = ri_purpose inp \<and> pe_new_state e = st \<and> pe_doi_at e = doi_at"
  by (simp add: upsert_consent_with_proof_def)

lemma changed_is_decided:
  assumes "load_consent_purpose w (ri_purpose inp) = Inr (key, doi)"
    and r: "resolve_doi_confirmation s inp sub st doi w = Inr (doi_at, w1)"
    and w': "w' = (upsert_consent_with_proof inp sub st doi_at (cs_now s) who w1)\<lparr>cd_ledger := l\<rparr>"
    and "change_logged c sub (ri_purpose inp) key st w w'"
  shows "decided s c inp sub st w w'"
proof -
  obtain e where e: "cd_proofs w' = cd_proofs w @ [e]" "pe_subject e = sub" "pe_purpose e = ri_purpose inp"
    "pe_new_state e = st" "pe_doi_at e = doi_at"
    using upsert_proofs [of inp sub st doi_at "cs_now s" who w1] resolve_doi_keeps [OF r] unfolding w' by auto
  have "cd_doi w' = cd_doi w1" unfolding w' by (simp add: upsert_tables)
  then have "if st = StateGranted \<and> doi
        then (\<exists>i token. sub = Person i \<and> ri_token inp = Some token \<and> pe_doi_at e = Some (cs_now s)
          \<and> list_ex (redeemable s i (ri_purpose inp) token) (cd_doi w)
          \<and> \<not> list_ex (redeemable s i (ri_purpose inp) token) (cd_doi w'))
        else pe_doi_at e = None \<and> cd_doi w' = cd_doi w"
    using r by (rule_tac resolve_doi_effect [OF r]) (auto simp: e(5) redeemed_no_more)
  moreover have "current_state w' = (\<lambda>x p. if x = sub \<and> p = ri_purpose inp then Some st else current_state w x p)"
    unfolding w' by (rule changed_states(1) [OF r])
  ultimately show ?thesis
    unfolding decided_def using assms(1,4) e(1-4) by (intro exI [of _ key] exI [of _ doi] exI [of _ e] conjI)
qed

text \<open>
  C16. A decision is recorded with its proof or not at all. A refused request changes nothing. An answered
  one is about a well-formed request on a purpose of the catalog; repeating the decision on record, or
  capturing anonymously over any decision, leaves everything as it is and answers the state on record;
  anything else sets exactly that subject's state for that purpose and appends one proof row, one audit
  row and one event that names it, and a grant under a double opt-in purpose spends a live link of that
  very person.
\<close>

theorem a_decision_is_recorded_with_its_proof:
  assumes "record_consent s c inp w = (res, w')"
  shows "case res of
      Inl e \<Rightarrow> w' = w
    | Inr out \<Rightarrow> (\<exists>sub st. admit_record c inp = Inr (sub, st) \<and>
        (case current_state w sub (ri_purpose inp) of
           None \<Rightarrow> so_state out = st \<and> decided s c inp sub st w w'
         | Some cur \<Rightarrow>
             if cur = st \<or> ri_never_override inp then w' = w \<and> so_state out = cur
             else so_state out = st \<and> decided s c inp sub st w w'))"
proof (rule record_consent_cases [OF assms], goal_cases)
  case (1 e)
  then show ?case by simp
next
  case (2 sub st out)
  show ?case
  proof (rule record_in_tx_effect [OF 2(3)], goal_cases)
    case (1 cur)
    then show ?case using \<open>res = Inr out\<close> \<open>admit_record c inp = Inr (sub, st)\<close> by auto
  next
    case (2 key doi doi_at w1 p l)
    have "decided s c inp sub st w w'" by (rule changed_is_decided [OF 2(1,4,6,7)])
    then show ?case using 2 \<open>res = Inr out\<close> \<open>admit_record c inp = Inr (sub, st)\<close>
      by (auto split: option.splits)
  qed
qed

text \<open>A confirmed grant on the desk: a link is issued to the person, and the grant redeems it.\<close>

definition desk_svc :: consent_svc where
  "desk_svc = \<lparr>cs_now = 20, cs_kit = \<lparr>kt_audit_id = (\<lambda>n. 100), kt_event_id = (\<lambda>n. 200), kt_now = 20,
     kt_extension = None\<rparr>, cs_sha = id\<rparr>"

definition grant_by_link :: record_input where
  "grant_by_link = \<lparr>ri_person = 7, ri_lead = 0, ri_purpose = 3, ri_new_state = ''granted'', ri_basis = None,
     ri_source = None, ri_token = Some ''tok'', ri_policy_text = None, ri_policy_version = None, ri_never_override = False\<rparr>"

lemma desk_admits:
  "ensure_writable clerk_ctx (cd_scope desk) ''person'' 7 = Inr ()" "load_consent_purpose desk 3 = Inr (''news'', True)"
  "admit_record clerk_ctx grant_by_link = Inr (Person 7, StateGranted)" "cs_sha desk_svc ''tok'' \<notin> dt_hash ` set (cd_doi desk)"
  by code_simp+

lemma desk_writes: "writes (cs_kit desk_svc) clerk_ctx"
  by (simp add: writes_def desk_svc_def clerk_ctx_def clerk_def actor_types_def is_zero_def nil_uuid_def)

lemma issued_scope:
  assumes "issue_in_tx s c person purpose deliver token row_id w = Inr (x, w')"
  shows "cd_scope w' = cd_scope w" "cd_purposes w' = cd_purposes w"
  using assms by (auto simp: issue_in_tx_def Let_def ledger_tx_def split: if_splits)

lemma desk_confirms:
  obtains x w1 out w2 where "issue_in_tx desk_svc clerk_ctx 7 3 False ''tok'' 11 desk = Inr (x, w1)"
    "record_consent desk_svc clerk_ctx grant_by_link w1 = (Inr out, w2)" "current_state w1 (Person 7) 3 = None"
    "record_in_tx desk_svc clerk_ctx grant_by_link (Person 7) StateGranted w1 = Inr (out, w2)"
proof -
  obtain x w1 where i: "issue_in_tx desk_svc clerk_ctx 7 3 False ''tok'' 11 desk = Inr (x, w1)"
    using issue_ok [OF desk_admits(1,2,4) clerk_acts] by blast
  have doi: "cd_doi w1 = [\<lparr>dt_person = 7, dt_purpose = 3, dt_hash = ''tok'', dt_issued_at = 20,
      dt_expires_at = 20 + doi_token_ttl, dt_consumed_at = None\<rparr>]" and st: "cd_consents w1 = cd_consents desk"
    using issue_effect [OF i] by (simp_all add: desk_svc_def desk_def)
  have live: "list_ex (redeemable desk_svc 7 3 ''tok'') (cd_doi w1)"
    unfolding doi by (simp add: redeemable_def desk_svc_def doi_token_ttl_def) code_simp
  have "resolve_doi_confirmation desk_svc grant_by_link (Person 7) StateGranted True w1 =
      Inr (Some 20, redeemed desk_svc 7 3 ''tok'' w1)"
    using live by (simp add: resolve_doi_confirmation_def consume_doi_token_def redeemed_def grant_by_link_def)
      (simp add: desk_svc_def)
  then obtain out w2 where r: "record_in_tx desk_svc clerk_ctx grant_by_link (Person 7) StateGranted w1 = Inr (out, w2)"
    using record_ok [of clerk_ctx w1 "Person 7" grant_by_link "''news''" True desk_svc StateGranted] desk_admits(1,2)
      desk_writes issued_scope [OF i]
    by (auto simp: grant_by_link_def load_consent_purpose_def live_purposes_def is_zero_def nil_uuid_def)
  then have "record_consent desk_svc clerk_ctx grant_by_link w1 = (Inr out, w2)"
    by (simp add: record_consent_def desk_admits(3) run_tx_def)
  moreover have "current_state w1 (Person 7) 3 = None" by (simp add: current_state_def st desk_def)
  ultimately show thesis using that i r by blast
qed

theorem a_decision_is_recorded_with_its_proof_witness:
  "\<exists>w w'. decided desk_svc clerk_ctx grant_by_link (Person 7) StateGranted w w'"
proof -
  obtain x w1 out w2 where d: "record_consent desk_svc clerk_ctx grant_by_link w1 = (Inr out, w2)"
    "current_state w1 (Person 7) 3 = None"
    using desk_confirms by blast
  have "ri_purpose grant_by_link = 3" by (simp add: grant_by_link_def)
  then have "decided desk_svc clerk_ctx grant_by_link (Person 7) StateGranted w1 w2"
    using a_decision_is_recorded_with_its_proof [OF d(1)] d(2) desk_admits(3) by (auto split: option.splits)
  then show ?thesis by blast
qed

lemma desk_consent_ok: "consent_ok desk"
  by (simp add: consent_ok_def keyed_def states_ok_def confirmations_def redemptions_def desk_def current_state_def
      desk_purposes_def)

theorem consent_rests_on_its_proof_witness:
  "\<exists>w'. run_of consent_step desk [Issued 7 3, Recorded (Person 7) 3 StateGranted] w' \<and> consent_ok w'
     \<and> confirmed w' (Person 7) 3"
proof -
  obtain x w1 out w2 where i: "issue_in_tx desk_svc clerk_ctx 7 3 False ''tok'' 11 desk = Inr (x, w1)"
    and c: "record_consent desk_svc clerk_ctx grant_by_link w1 = (Inr out, w2)" "current_state w1 (Person 7) 3 = None"
    and r: "record_in_tx desk_svc clerk_ctx grant_by_link (Person 7) StateGranted w1 = Inr (out, w2)"
    by (rule desk_confirms)
  have p3: "ri_purpose grant_by_link = 3" by (simp add: grant_by_link_def)
  have "consent_step w1 (Recorded (Person 7) 3 StateGranted) w2"
    using consent_step.recorded [OF desk_admits(3) r] by (simp add: p3)
  then have run: "run_of consent_step desk [Issued 7 3, Recorded (Person 7) 3 StateGranted] w2"
    using run_of_trans [OF run_of_single [where move = consent_step] run_of_single [where move = consent_step,
        OF consent_step.issued [OF i]]] by fastforce
  have pu: "desk_purposes ! 2 \<in> set (cd_purposes w2)" "pu_doi (desk_purposes ! 2)" "pu_id (desk_purposes ! 2) = 3"
  proof -
    have "cd_purposes w2 = cd_purposes w1"
      by (rule record_in_tx_effect [OF r]) (auto simp: upsert_tables dest: resolve_doi_keeps)
    then show "desk_purposes ! 2 \<in> set (cd_purposes w2)"
      by (simp add: issued_scope [OF i] desk_def desk_purposes_def)
  qed (simp_all add: desk_purposes_def)
  have cur: "current_state w2 (Person 7) 3 = Some StateGranted"
    using r c(2) by (rule_tac record_in_tx_effect [OF r])
      (auto simp: p3 changed_states(1))
  show ?thesis
    using consent_rests_on_its_proof [where i = 7, OF run desk_consent_ok, THEN conjunct1]
      consent_rests_on_its_proof [where i = 7, OF run desk_consent_ok, THEN conjunct2, rule_format, OF pu(1,2), unfolded pu(3), OF cur]
      run by blast
qed

section \<open>Links, and what the reads do not lock\<close>

lemma update_where_keeps: "t \<in> set xs \<Longrightarrow> \<not> P t \<Longrightarrow> t \<in> set (update_where P f xs)"
  by (induction xs) auto

lemma spent_links_stay:
  assumes "run_of consent_step w es w'" "keyed w"
  shows "\<forall>t. t \<in> set (cd_doi w) \<longrightarrow> dt_consumed_at t \<noteq> None \<longrightarrow> t \<in> set (cd_doi w')"
proof (rule consents.run_keeps [OF assms], goal_cases)
  case (3 a e b)
  from 3(1) show ?case
  proof cases
    case (recorded c inp sub st s out)
    show ?thesis
    proof (rule record_in_tx_effect [OF recorded(3)], goal_cases)
      case (2 key doi doi_at w1 p l)
      have "cd_doi b = cd_doi w1" unfolding 2(6) by (simp add: upsert_tables)
      then show ?case by (rule_tac resolve_doi_effect [OF 2(4)])
        (auto simp: redeemed_def redeemable_def intro!: update_where_keeps)
    qed simp
  next
    case (issued s c person purpose deliver token row_id x)
    then show ?thesis using issue_effect [OF issued(2)] by (auto intro!: update_where_keeps)
  next
    case (merged c now a b u)
    then show ?thesis using merge_effect [OF merged(2)] by (auto simp: repoint_proofs_def carry_proofs)
  next
    case (promoted who now l i u)
    then show ?thesis using promote_effect [OF promoted(2)] by (auto simp: carry_proofs)
  next
    case (leads_merged who now a b u)
    then show ?thesis using leads_merge_effect [OF leads_merged(2)] by (auto simp: repoint_proofs_def carry_proofs)
  next
    case (sent c rs key u)
    then show ?thesis using sent_untouched [OF sent(2)] by (simp add: consent_untouched_def)
  next
    case (catalogued c key label doi new_id pu)
    then show ?thesis using catalogue_effect [OF catalogued(2)] by simp
  qed (simp add: consent_untouched_def)
qed auto

text \<open>
  C22. A confirmation link works once. Through any history, a link that was redeemed stays redeemed: a grant
  under a double opt-in purpose that presents it again is refused, or finds the grant already on record
  and changes nothing.
\<close>

theorem a_confirmation_link_works_once:
  assumes "run_of consent_step w es w'" "consent_ok w" "t \<in> set (cd_doi w)" "dt_consumed_at t \<noteq> None"
    and "cs_sha s token = dt_hash t" "ri_token inp = Some token"
    and "load_consent_purpose w' (ri_purpose inp) = Inr (key, True)"
    and "record_in_tx s c inp sub StateGranted w' = Inr (out, w'')"
  shows "w'' = w'"
proof (rule record_in_tx_effect [OF assms(8)], goal_cases)
  case (2 key' doi doi_at w1 p l)
  have here: "t \<in> set (cd_doi w')"
    using spent_links_stay [OF assms(1)] assms(2-4) by (simp add: consent_ok_def)
  have "distinct (map dt_hash (cd_doi w'))"
    using proved_consents.run_inv [OF assms(1,2)] by (simp add: consent_ok_def)
  then have only: "u = t" if "u \<in> set (cd_doi w')" "dt_hash u = dt_hash t" for u
    using that here by (auto simp: distinct_map dest: inj_onD)
  have "doi" using 2(1) assms(7) by simp
  then obtain u where "u \<in> set (cd_doi w')" "dt_hash u = dt_hash t" "dt_consumed_at u = None"
    using 2(4) assms(5,6) by (rule_tac resolve_doi_effect [OF 2(4)]) (auto simp: list_ex_iff redeemable_def)
  then show ?case using only [of u] assms(4) by simp
qed simp

theorem a_confirmation_link_works_once_witness:
  "\<exists>w w'. run_of consent_step w [Elsewhere] w' \<and> (\<exists>t \<in> set (cd_doi w). dt_consumed_at t = Some 20)
     \<and> (\<forall>r. record_in_tx desk_svc clerk_ctx grant_by_link (Person 7) StateGranted w' = Inr r \<longrightarrow> snd r = w')"
proof -
  obtain x w1 out w2 where i: "issue_in_tx desk_svc clerk_ctx 7 3 False ''tok'' 11 desk = Inr (x, w1)"
    and n: "current_state w1 (Person 7) 3 = None"
    and r: "record_in_tx desk_svc clerk_ctx grant_by_link (Person 7) StateGranted w1 = Inr (out, w2)"
    by (rule desk_confirms)
  have p3: "ri_purpose grant_by_link = 3" and tok: "ri_token grant_by_link = Some ''tok''" by (simp_all add: grant_by_link_def)
  have one: "consent_step w1 (Recorded (Person 7) 3 StateGranted) w2"
    using consent_step.recorded [OF desk_admits(3) r] by (simp add: p3)
  have ok1: "consent_ok w1" by (rule consent_step_ok [OF consent_step.issued [OF i] desk_consent_ok])
  have ok2: "consent_ok w2" by (rule consent_step_ok [OF one ok1])
  have idle: "run_of consent_step w2 [Elsewhere] w2"
    by (rule run_of_single [where move = consent_step], rule consent_step.elsewhere) (simp add: consent_untouched_def)
  have load1: "load_consent_purpose w1 3 = Inr (''news'', True)"
    using desk_admits(2) by (simp add: load_consent_purpose_def live_purposes_def issued_scope [OF i])
  obtain t where t: "t \<in> set (cd_doi w2)" "dt_consumed_at t = Some 20" "dt_hash t = ''tok''" and load: "load_consent_purpose w2 3 = Inr (''news'', True)"
  proof (rule record_in_tx_effect [OF r], goal_cases)
    case (2 key doi doi_at w0 p l)
    have "doi" using 2(2) load1 p3 by simp
    then obtain person where l: "list_ex (redeemable desk_svc person 3 ''tok'') (cd_doi w1)"
      "w0 = redeemed desk_svc person 3 ''tok'' w1"
      using 2(5) p3 tok by (rule_tac resolve_doi_effect [OF 2(5)]) auto
    then obtain t where t: "t \<in> set (cd_doi w1)" "redeemable desk_svc person 3 ''tok'' t" by (auto simp: list_ex_iff)
    have d: "cd_doi w2 = cd_doi w0" "cd_purposes w2 = cd_purposes w0" unfolding 2(7) by (simp_all add: upsert_tables)
    show ?case
    proof (rule 2(1))
      show "t\<lparr>dt_consumed_at := Some 20\<rparr> \<in> set (cd_doi w2)"
        using t unfolding d l(2) redeemed_def by (auto simp: update_where_def desk_svc_def intro!: image_eqI [of _ _ t])
      show "load_consent_purpose w2 3 = Inr (''news'', True)"
        using load1 unfolding load_consent_purpose_def live_purposes_def d l(2) redeemed_def by simp
    qed (use t(2) in \<open>simp_all add: redeemable_def desk_svc_def\<close>)
  qed (use n p3 in simp)
  have "cs_sha desk_svc ''tok'' = dt_hash t" using t(3) by (simp add: desk_svc_def)
  then have "record_in_tx desk_svc clerk_ctx grant_by_link (Person 7) StateGranted w2 = Inr (out', w3) \<Longrightarrow> w3 = w2" for out' w3
    using a_confirmation_link_works_once [OF idle ok2 t(1) _ _ tok] load t(2) p3 by simp
  then show ?thesis using idle t by (intro exI [of _ w2]) auto
qed

text \<open>
  A recording that read at \<open>w0\<close>, before another transaction committed, and writes at \<open>w\<close>, after it:
  \<open>record_in_tx\<close> is the case in which nothing came between.
\<close>

definition record_reading ::
  "consent_svc \<Rightarrow> ctx \<Rightarrow> record_input \<Rightarrow> subject_ref \<Rightarrow> consent_state \<Rightarrow> consent_db \<Rightarrow> state_out consent_tx" where
  "record_reading s c inp sub st w0 w =
     bindR (lift_c (ensure_writable c (cd_scope w0) (subject_table sub) (subject_id sub))) (\<lambda>_.
     bindR (load_consent_purpose w0 (ri_purpose inp)) (\<lambda>(key, doi).
       record_after_read s c inp sub st key doi (current_state w0 sub (ri_purpose inp)) w))"

lemma record_reading_now: "record_reading s c inp sub st w w = record_in_tx s c inp sub st w"
  by (simp add: record_reading_def record_in_tx_def)

lemma unconfirmed: "st \<noteq> StateGranted \<or> \<not> doi \<Longrightarrow> resolve_doi_confirmation s inp sub st doi w = Inr (None, w)"
  by (auto simp: resolve_doi_confirmation_def)

lemma withdrawal_recorded:
  assumes "record_in_tx s c wd sub StateWithdrawn w = Inr (out, w1)" "current_state w sub (ri_purpose wd) = None"
  shows "current_state w1 sub (ri_purpose wd) = Some StateWithdrawn" "cd_scope w1 = cd_scope w" "cd_purposes w1 = cd_purposes w"
proof -
  show "current_state w1 sub (ri_purpose wd) = Some StateWithdrawn"
    by (rule record_in_tx_effect [OF assms(1)]) (use assms(2) in \<open>simp_all add: changed_states(1)\<close>)
  show "cd_scope w1 = cd_scope w"
    by (rule record_in_tx_effect [OF assms(1)]) (auto simp: unconfirmed upsert_consent_with_proof_def)
  show "cd_purposes w1 = cd_purposes w"
    by (rule record_in_tx_effect [OF assms(1)]) (auto simp: unconfirmed upsert_consent_with_proof_def)
qed

text \<open>
  C37. The anonymous-capture rule does not survive a concurrent decision. Take a purpose without double
  opt-in on which the subject has no decision yet, and a withdrawal that commits. A public capture made after
  it is accepted and changes nothing. But the current state is read without a lock and the upsert does not look
  again, so the same capture, when it read before the withdrawal committed and writes after it, succeeds and
  turns the withdrawal into a grant.
\<close>

theorem an_anonymous_capture_can_overturn_a_withdrawal:
  assumes "record_in_tx s c wd sub StateWithdrawn w = Inr (out, w1)" "ri_purpose wd = purpose" "current_state w sub purpose = None"
    and "ri_never_override cap" "ri_purpose cap = purpose" "load_consent_purpose w purpose = Inr (key, False)"
    and "ensure_writable c' (cd_scope w) (subject_table sub) (subject_id sub) = Inr ()" "writes (cs_kit s') c'" "\<not> is_zero (subject_id sub)"
  shows "current_state w1 sub purpose = Some StateWithdrawn
    \<and> (\<exists>out1. record_in_tx s' c' cap sub StateGranted w1 = Inr (out1, w1))
    \<and> (\<exists>out2 w2. record_reading s' c' cap sub StateGranted w w1 = Inr (out2, w2) \<and> current_state w2 sub purpose = Some StateGranted)"
proof (intro conjI)
  note wd = withdrawal_recorded [OF assms(1), unfolded assms(2), OF assms(3)]
  show "current_state w1 sub purpose = Some StateWithdrawn" by (rule wd(1))
  have here: "ensure_writable c' (cd_scope w1) (subject_table sub) (subject_id sub) = Inr ()"
    "load_consent_purpose w1 (ri_purpose cap) = Inr (key, False)"
    using assms(5-7) wd(2,3) by (simp_all add: load_consent_purpose_def live_purposes_def)
  obtain out1 w2 where rec: "record_in_tx s' c' cap sub StateGranted w1 = Inr (out1, w2)"
    using record_ok [OF here unconfirmed assms(8,9)] by blast
  have "w2 = w1" by (rule record_in_tx_effect [OF rec]) (use wd(1) assms(4,5) in auto)
  then show "\<exists>out1. record_in_tx s' c' cap sub StateGranted w1 = Inr (out1, w1)" using rec by blast
  obtain out2 w3 where w3: "record_after_read s' c' cap sub StateGranted key False None w1 = Inr (out2, w3)"
    using after_read_ok [OF unconfirmed assms(8,9)] by blast
  then have "record_change s' c' cap sub StateGranted key False None w1 = Inr (out2, w3)"
    by (cases "ri_never_override cap") (simp_all add: record_after_read_def)
  then obtain who l where "w3 = (upsert_consent_with_proof cap sub StateGranted None (cs_now s') who w1)\<lparr>cd_ledger := l\<rparr>"
    by (auto simp: record_change_def ledger_tx_def unconfirmed upsert_consent_with_proof_def)
  then have "current_state w3 sub purpose = Some StateGranted"
    by (simp add: changed_states(1) [OF unconfirmed, where doi = False] assms(5))
  moreover have "record_reading s' c' cap sub StateGranted w w1 = Inr (out2, w3)"
    using w3 assms(3,5-7) by (simp add: record_reading_def)
  ultimately show "\<exists>out2 w2. record_reading s' c' cap sub StateGranted w w1 = Inr (out2, w2)
      \<and> current_state w2 sub purpose = Some StateGranted" by blast
qed

definition plain :: "string \<Rightarrow> bool \<Rightarrow> record_input" where
  "plain st anonymous = \<lparr>ri_person = 7, ri_lead = 0, ri_purpose = 2, ri_new_state = st, ri_basis = None,
     ri_source = None, ri_token = None, ri_policy_text = None, ri_policy_version = None, ri_never_override = anonymous\<rparr>"

theorem an_anonymous_capture_can_overturn_a_withdrawal_witness:
  "\<exists>out w1 out2 w2. record_in_tx desk_svc clerk_ctx (plain ''withdrawn'' False) (Person 7) StateWithdrawn desk = Inr (out, w1)
     \<and> current_state w1 (Person 7) 2 = Some StateWithdrawn
     \<and> record_reading desk_svc clerk_ctx (plain ''granted'' True) (Person 7) StateGranted desk w1 = Inr (out2, w2)
     \<and> current_state w2 (Person 7) 2 = Some StateGranted"
proof -
  have load: "load_consent_purpose desk 2 = Inr (''reply'', False)" by code_simp
  have p: "ri_purpose (plain st b) = 2" "ri_never_override (plain st b) = b" for st b by (simp_all add: plain_def)
  have may: "ensure_writable clerk_ctx (cd_scope desk) (subject_table (Person 7)) (subject_id (Person 7)) = Inr ()"
    "\<not> is_zero (subject_id (Person 7))"
    using desk_admits(1) by (simp_all add: is_zero_def nil_uuid_def)
  have none: "current_state desk (Person 7) 2 = None" by (simp add: current_state_def desk_def)
  obtain out w1 where wd: "record_in_tx desk_svc clerk_ctx (plain ''withdrawn'' False) (Person 7) StateWithdrawn desk = Inr (out, w1)"
    using record_ok [OF may(1) _ unconfirmed desk_writes may(2), of "plain ''withdrawn'' False" _ False StateWithdrawn] load p(1) by auto
  show ?thesis
    using an_anonymous_capture_can_overturn_a_withdrawal [OF wd p(1) none _ p(1) load may(1) desk_writes may(2), of "''granted''" True] wd p(2)
    by blast
qed

end
