(* ===== verification/Consent_Preference.thy ===== *)
theory Consent_Preference
  imports Consent_Machine
begin

text \<open>
  The no-login preference centre: \<^verbatim>\<open>preference.go\<close> and
  \<^verbatim>\<open>handlers_public.go\<close> of \<^verbatim>\<open>backend/internal/modules/consent\<close>,
  and the middleware of \<^verbatim>\<open>backend/internal/compose/publicpreferences.go\<close> that binds its
  actor. Every call of a handler is a transaction of its own, so a handler that fails half way keeps what
  it already committed. The rate limits in front are not modelled.
\<close>

section \<open>Locked purposes\<close>

definition purpose_transactional :: string where "purpose_transactional = ''transactional''"

definition locked_purpose :: "string \<Rightarrow> bool" where
  "locked_purpose key \<longleftrightarrow> trim_space (to_lower key) = purpose_transactional"

section \<open>Preference links\<close>

definition days :: "int \<Rightarrow> duration" where "days n = n * (24 * hour)"

definition preference_token_ttl :: duration where "preference_token_ttl = days 30"
definition preference_token_max_age :: duration where "preference_token_max_age = days 180"

text \<open>The token column is unique, so at most one row answers.\<close>

definition honoured :: "consent_db \<Rightarrow> pref_token \<Rightarrow> bool" where
  "honoured w t \<longleftrightarrow> pt_revoked_at t = None \<and> cd_now w < pt_expires_at t"

definition resolve_preference_token :: "consent_db \<Rightarrow> string \<Rightarrow> consent_error + uuid" where
  "resolve_preference_token w token =
     (case find (\<lambda>t. pt_token t = token \<and> honoured w t) (cd_prefs w) of
        None \<Rightarrow> Inl (CApp ErrNotFound)
      | Some t \<Rightarrow> Inr (pt_person t))"

text \<open>The refresh: the person's link that is still honoured and not past the ceiling.\<close>

definition refreshable :: "uuid \<Rightarrow> consent_db \<Rightarrow> pref_token \<Rightarrow> bool" where
  "refreshable person w t \<longleftrightarrow> pt_person t = person \<and> honoured w t
     \<and> cd_now w - preference_token_max_age < pt_created_at t"

definition refresh_preference_token :: "uuid \<Rightarrow> consent_db \<Rightarrow> (string \<times> consent_db) option" where
  "refresh_preference_token person w =
     map_option (\<lambda>t. (pt_token t, w\<lparr>cd_prefs := update_where (refreshable person w)
         (\<lambda>t. t\<lparr>pt_expires_at := cd_now w + preference_token_ttl\<rparr>) (cd_prefs w)\<rparr>))
       (find (refreshable person w) (cd_prefs w))"

definition live_for :: "uuid \<Rightarrow> pref_token \<Rightarrow> bool" where
  "live_for person t \<longleftrightarrow> pt_person t = person \<and> pt_revoked_at t = None"

definition revoke_preference_tokens :: "uuid \<Rightarrow> consent_db \<Rightarrow> consent_db" where
  "revoke_preference_tokens person w =
     w\<lparr>cd_prefs := update_where (live_for person) (\<lambda>t. t\<lparr>pt_revoked_at := Some (cd_now w)\<rparr>) (cd_prefs w)\<rparr>"

definition new_preference_token :: "8 word list option \<Rightarrow> consent_error + string" where
  "new_preference_token rand =
     (case rand of None \<Rightarrow> Inl (CApp (ErrOther ''consent: preference token entropy''))
      | Some buf \<Rightarrow> Inr (''pref_'' @ raw_url_base64 buf))"

text \<open>
  The insert, with the partial unique index: a row another transaction put in the person's slot meanwhile
  wins and is read back.
\<close>

definition insert_or_read :: "uuid \<Rightarrow> string \<Rightarrow> string consent_tx" where
  "insert_or_read person fresh w =
     (case find (live_for person) (cd_prefs w) of
        Some t \<Rightarrow> Inr (pt_token t, w)
      | None \<Rightarrow>
          if fresh \<in> pt_token ` set (cd_prefs w) then Inl (CApp (ErrOther ''preference_token_token_key''))
          else Inr (fresh, w\<lparr>cd_prefs := cd_prefs w @ [\<lparr>pt_person = person, pt_token = fresh,
            pt_created_at = cd_now w, pt_revoked_at = None, pt_expires_at = cd_now w + preference_token_ttl\<rparr>]\<rparr>))"

definition ensure_preference_token :: "uuid \<Rightarrow> 8 word list option \<Rightarrow> string consent_tx" where
  "ensure_preference_token person rand w =
     (case refresh_preference_token person w of
        Some (token, w') \<Rightarrow> Inr (token, w')
      | None \<Rightarrow>
          let w1 = revoke_preference_tokens person w in
          bindR (new_preference_token rand) (\<lambda>fresh. insert_or_read person fresh w1))"

text \<open>
  The send path's lookup. The address carries no order, so the row is the first of the table's; a
  recipient nobody knows has no link.
\<close>

definition person_of_email :: "consent_db \<Rightarrow> string \<Rightarrow> uuid option" where
  "person_of_email w email =
     map_option em_person (find (\<lambda>x. to_lower (em_email x) = email \<and> live_person w (em_person x)) (cd_emails w))"

definition preference_token_for_email ::
  "ctx \<Rightarrow> string \<Rightarrow> 8 word list option \<Rightarrow> consent_db \<Rightarrow> (consent_error + string option) \<times> consent_db" where
  "preference_token_for_email c email rand w =
     (case require c ''person'' ActionRead of
        Inl e \<Rightarrow> (Inl (CApp e), w)
      | Inr _ \<Rightarrow> run_tx (\<lambda>w.
          case person_of_email w (to_lower (trim_space email)) of
            None \<Rightarrow> Inr (None, w)
          | Some person \<Rightarrow>
              bindR (lift_c (ensure_visible_live c (cd_scope w) ''person'' person)) (\<lambda>_.
              bindR (ensure_preference_token person rand w) (\<lambda>(token, w'). Inr (Some token, w')))) w)"

definition unsubscribe_token ::
  "ctx \<Rightarrow> string \<Rightarrow> string \<Rightarrow> 8 word list option \<Rightarrow> consent_db \<Rightarrow> (consent_error + string option) \<times> consent_db" where
  "unsubscribe_token c email purpose_key rand w =
     (if locked_purpose purpose_key then (Inr None, w) else preference_token_for_email c email rand w)"

section \<open>The choices\<close>

record purpose_choice =
  pc_key :: string
  pc_label :: string
  pc_state :: consent_state
  pc_locked :: bool

definition public_purpose_states :: "ctx \<Rightarrow> uuid \<Rightarrow> consent_db \<Rightarrow> consent_error + purpose_choice list" where
  "public_purpose_states c person w =
     bindR (lift_c (require c ''person'' ActionRead)) (\<lambda>_.
     bindR (lift_c (ensure_visible c (cd_scope w) ''person'' person)) (\<lambda>_.
       Inr (map (\<lambda>p. \<lparr>pc_key = pu_key p, pc_label = pu_label p,
           pc_state = (case current_state w (Person person) (pu_id p) of None \<Rightarrow> StateUnknown | Some st \<Rightarrow> st),
           pc_locked = locked_purpose (pu_key p)\<rparr>) (sort_key pu_key (live_purposes w)))))"

definition purpose_by_key :: "consent_db \<Rightarrow> string \<Rightarrow> consent_error + uuid" where
  "purpose_by_key w key =
     (case find (\<lambda>p. pu_key p = key) (live_purposes w) of
        None \<Rightarrow> Inl (Invalid ''purpose_key'' ''not a tracked consent purpose'')
      | Some p \<Rightarrow> Inr (pu_id p))"

definition preference_input :: "uuid \<Rightarrow> uuid \<Rightarrow> string \<Rightarrow> string option \<Rightarrow> record_input" where
  "preference_input person purpose new_state wording =
     \<lparr>ri_person = person, ri_lead = nil_uuid, ri_purpose = purpose, ri_new_state = new_state, ri_basis = None,
      ri_source = Some ''preference_center'', ri_token = None, ri_policy_text = wording,
      ri_policy_version = None, ri_never_override = False\<rparr>"

definition public_set_consent ::
  "consent_svc \<Rightarrow> ctx \<Rightarrow> uuid \<Rightarrow> string \<Rightarrow> string \<Rightarrow> string option \<Rightarrow> consent_db
     \<Rightarrow> (consent_error + state_out) \<times> consent_db" where
  "public_set_consent s c person raw_key new_state wording w =
     (let key = trim_space (to_lower raw_key) in
      if locked_purpose key then (Inl (Invalid ''purpose_key'' ''transactional consent is locked''), w)
      else case purpose_by_key w key of
        Inl e \<Rightarrow> (Inl e, w)
      | Inr purpose \<Rightarrow> record_consent s c (preference_input person purpose new_state wording) w)"

section \<open>The handlers\<close>

text \<open>The actor the middleware binds, once the link resolves.\<close>

definition public_preferences_actor :: principal where
  "public_preferences_actor = \<lparr>p_type = PrincipalSystem, p_id = ''system:public_preferences'', p_user_id = 0,
     p_team_ids = [], p_passport_id = 0, p_on_behalf_of = 0, p_scopes = {}, p_seat_type = SeatOther [],
     p_permissions = no_permissions\<rparr>"

definition public_gate :: "ctx \<Rightarrow> string \<Rightarrow> consent_db \<Rightarrow> consent_error + ctx" where
  "public_gate c token w =
     (if token = [] then Inl (CApp ErrNotFound)
      else bindR (resolve_preference_token w token) (\<lambda>_. Inr (c\<lparr>ctx_actor := Some public_preferences_actor\<rparr>)))"

definition get_preference_center :: "ctx \<Rightarrow> string \<Rightarrow> consent_db \<Rightarrow> consent_error + purpose_choice list" where
  "get_preference_center c token w =
     bindR (resolve_preference_token w token) (\<lambda>person. public_purpose_states c person w)"

text \<open>One choice after another; the first failure ends the request, what went before is committed.\<close>

fun set_choices ::
  "consent_svc \<Rightarrow> ctx \<Rightarrow> uuid \<Rightarrow> (string \<times> string \<times> string option) list \<Rightarrow> consent_db
     \<Rightarrow> (consent_error + unit) \<times> consent_db" where
  "set_choices s c person [] w = (Inr (), w)"
| "set_choices s c person ((key, st, wording) # cs) w =
     (case parse_recordable_state st of
        Inl _ \<Rightarrow> (Inl (BodyInvalid ''state'' ''invalid''), w)
      | Inr _ \<Rightarrow>
          (case public_set_consent s c person key st wording w of
             (Inl e, w') \<Rightarrow> (Inl e, w')
           | (Inr _, w') \<Rightarrow> set_choices s c person cs w'))"

definition withdrawable :: "purpose_choice \<Rightarrow> bool" where
  "withdrawable ch \<longleftrightarrow> \<not> pc_locked ch \<and> pc_state ch = StateGranted"

fun withdraw_all ::
  "consent_svc \<Rightarrow> ctx \<Rightarrow> uuid \<Rightarrow> purpose_choice list \<Rightarrow> consent_db \<Rightarrow> (consent_error + string list) \<times> consent_db" where
  "withdraw_all s c person [] w = (Inr [], w)"
| "withdraw_all s c person (ch # chs) w =
     (if \<not> withdrawable ch then withdraw_all s c person chs w
      else case public_set_consent s c person (pc_key ch) ''withdrawn'' None w of
        (Inl e, w') \<Rightarrow> (Inl e, w')
      | (Inr _, w') \<Rightarrow>
          (case withdraw_all s c person chs w' of
             (Inl e, w'') \<Rightarrow> (Inl e, w'')
           | (Inr keys, w'') \<Rightarrow> (Inr (pc_key ch # keys), w'')))"

definition one_click_unsubscribe ::
  "consent_svc \<Rightarrow> ctx \<Rightarrow> string \<Rightarrow> string option \<Rightarrow> consent_db \<Rightarrow> (consent_error + string list) \<times> consent_db" where
  "one_click_unsubscribe s c token purpose w =
     (case resolve_preference_token w token of
        Inl e \<Rightarrow> (Inl e, w)
      | Inr person \<Rightarrow>
          if purpose \<noteq> None \<and> \<not> blank (the purpose) then
            let key = to_lower (trim_space (the purpose)) in
            (case public_set_consent s c person key ''withdrawn'' None w of
               (Inl e, w') \<Rightarrow> (Inl e, w')
             | (Inr _, w') \<Rightarrow> (Inr [key], w'))
          else (case public_purpose_states c person w of
             Inl e \<Rightarrow> (Inl e, w)
           | Inr chs \<Rightarrow> withdraw_all s c person chs w))"

definition max_preference_choices :: nat where "max_preference_choices = 64"

definition update_preferences ::
  "consent_svc \<Rightarrow> ctx \<Rightarrow> string \<Rightarrow> (string \<times> string \<times> string option) list \<Rightarrow> consent_db
     \<Rightarrow> (consent_error + purpose_choice list) \<times> consent_db" where
  "update_preferences s c token choices w =
     (if choices = [] then (Inl (BodyInvalid ''choices'' ''required''), w)
      else if max_preference_choices < length choices then (Inl (BodyInvalid ''choices'' ''too_many''), w)
      else case resolve_preference_token w token of
        Inl e \<Rightarrow> (Inl e, w)
      | Inr person \<Rightarrow>
          (case set_choices s c person choices w of
             (Inl e, w') \<Rightarrow> (Inl e, w')
           | (Inr _, w') \<Rightarrow> (public_purpose_states c person w', w')))"

section \<open>Lemmas on the links\<close>

lemma hour_days: "days 30 + days 180 = days 210" "0 < days 30"
  by (simp_all add: days_def duration_defs)

definition prefs_ok :: "consent_db \<Rightarrow> bool" where
  "prefs_ok w \<longleftrightarrow> distinct (map pt_token (cd_prefs w))
     \<and> distinct (map pt_person (filter (\<lambda>t. pt_revoked_at t = None) (cd_prefs w)))
     \<and> (\<forall>t \<in> set (cd_prefs w). pt_expires_at t \<le> pt_created_at t + days 210)"

lemma prefs_only: "prefs_ok w \<Longrightarrow> cd_prefs w' = cd_prefs w \<Longrightarrow> prefs_ok w'"
  by (simp add: prefs_ok_def)

lemma refresh_facts:
  assumes "refresh_preference_token person w = Some (token, w')" "prefs_ok w"
  shows "prefs_ok w' \<and> resolve_preference_token w' token = Inr person \<and> cd_now w' = cd_now w
    \<and> (\<exists>t \<in> set (cd_prefs w'). pt_token t = token \<and> pt_expires_at t = cd_now w + days 30)"
proof -
  let ?set = "\<lambda>t. t\<lparr>pt_expires_at := cd_now w + preference_token_ttl\<rparr>"
  obtain t where t: "find (refreshable person w) (cd_prefs w) = Some t" "pt_token t = token"
    and w': "w' = w\<lparr>cd_prefs := update_where (refreshable person w) ?set (cd_prefs w)\<rparr>"
    using assms(1) by (auto simp: refresh_preference_token_def)
  have m: "refreshable person w t" "t \<in> set (cd_prefs w)" using find_SomeD [OF t(1)] by auto
  have inn: "?set t \<in> set (cd_prefs w')" using m by (auto simp: w' update_where_def)
  have d: "distinct (map pt_token (cd_prefs w'))" using assms(2) by (simp add: prefs_ok_def w' map_update_where)
  have live: "filter (\<lambda>t. pt_revoked_at t = None) (cd_prefs w')
      = update_where (refreshable person w) ?set (filter (\<lambda>t. pt_revoked_at t = None) (cd_prefs w))"
    by (simp add: w' filter_update_where)
  have bound: "\<forall>t \<in> set (cd_prefs w'). pt_expires_at t \<le> pt_created_at t + days 210"
    using assms(2) by (auto simp: w' update_where_def prefs_ok_def refreshable_def preference_token_ttl_def
      preference_token_max_age_def simp flip: hour_days(1))
  have ok: "prefs_ok w'" using d bound assms(2) by (simp add: prefs_ok_def live map_update_where)
  have now: "cd_now w' = cd_now w" by (simp add: w')
  have hon: "honoured w' (?set t)" using m(1) hour_days(2) by (auto simp: honoured_def refreshable_def now preference_token_ttl_def)
  have found: "find (\<lambda>u. pt_token u = token \<and> honoured w' u) (cd_prefs w') = Some (?set t)"
  proof -
    obtain u where u: "find (\<lambda>u. pt_token u = token \<and> honoured w' u) (cd_prefs w') = Some u"
      using inn hon t(2) by (cases "find (\<lambda>u. pt_token u = token \<and> honoured w' u) (cd_prefs w')")
        (auto simp: find_None_iff)
    then have "u \<in> set (cd_prefs w')" "pt_token u = pt_token (?set t)" using find_SomeD [OF u] t(2) by auto
    then have "u = ?set t" using d inn inj_onD [of pt_token "set (cd_prefs w')" u "?set t"] by (simp add: distinct_map)
    then show ?thesis using u by simp
  qed
  have "resolve_preference_token w' token = Inr person"
    using found m(1) by (simp add: resolve_preference_token_def refreshable_def)
  then show ?thesis using ok now inn t(2) by (intro conjI bexI [of _ "?set t"]) (simp_all add: preference_token_ttl_def)
qed

lemma revoke_facts:
  assumes "prefs_ok w"
  shows "prefs_ok (revoke_preference_tokens person w)"
    "find (live_for person) (cd_prefs (revoke_preference_tokens person w)) = None"
proof -
  let ?set = "\<lambda>t. t\<lparr>pt_revoked_at := Some (cd_now w)\<rparr>"
  have rest: "map pt_person (filter (\<lambda>t. pt_revoked_at t = None) (update_where (live_for person) ?set xs))
      = filter (\<lambda>i. i \<noteq> person) (map pt_person (filter (\<lambda>t. pt_revoked_at t = None) xs))" for xs
    by (induction xs) (auto simp: live_for_def)
  show "prefs_ok (revoke_preference_tokens person w)"
    using assms by (auto simp: prefs_ok_def revoke_preference_tokens_def map_update_where rest)
      (auto simp: update_where_def)
  show "find (live_for person) (cd_prefs (revoke_preference_tokens person w)) = None"
  proof -
    have "\<not> list_ex (live_for person) (update_where (live_for person) ?set (cd_prefs w))"
      by (rule update_where_all) (simp add: live_for_def)
    then show ?thesis by (simp add: revoke_preference_tokens_def find_None_iff list_ex_iff)
  qed
qed

lemma insert_facts:
  assumes "insert_or_read person fresh w = Inr (token, w')" "prefs_ok w"
  shows "prefs_ok w' \<and> (\<exists>t \<in> set (cd_prefs w'). pt_token t = token \<and> live_for person t)
    \<and> (find (live_for person) (cd_prefs w) = None \<longrightarrow> cd_now w' = cd_now w \<and> resolve_preference_token w' token = Inr person
         \<and> (\<exists>t \<in> set (cd_prefs w'). pt_token t = token \<and> pt_expires_at t = cd_now w + days 30))"
proof (cases "find (live_for person) (cd_prefs w)")
  case (Some t)
  then show ?thesis using assms find_SomeD [OF Some] by (auto simp: insert_or_read_def)
next
  case None
  let ?t = "\<lparr>pt_person = person, pt_token = fresh, pt_created_at = cd_now w, pt_revoked_at = None,
      pt_expires_at = cd_now w + preference_token_ttl\<rparr>"
  have new: "fresh \<notin> pt_token ` set (cd_prefs w)" "token = fresh" "w' = w\<lparr>cd_prefs := cd_prefs w @ [?t]\<rparr>"
    using assms(1) None by (auto simp: insert_or_read_def split: if_splits)
  have free: "person \<notin> pt_person ` set (filter (\<lambda>t. pt_revoked_at t = None) (cd_prefs w))"
    using None by (auto simp: find_None_iff live_for_def)
  have "prefs_ok w'"
    using assms(2) new free by (auto simp: prefs_ok_def preference_token_ttl_def days_def duration_defs)
  moreover have "find (\<lambda>u. pt_token u = fresh \<and> honoured w' u) (cd_prefs w) = None"
    using new(1) by (force simp: find_None_iff)
  then have "resolve_preference_token w' token = Inr person"
    using hour_days(2) by (simp add: resolve_preference_token_def new(2,3) find_append honoured_def preference_token_ttl_def)
  ultimately show ?thesis using None by (auto simp: new(2,3) live_for_def preference_token_ttl_def)
qed

lemma ensure_facts:
  assumes "ensure_preference_token person rand w = Inr (token, w')" "prefs_ok w"
  shows "prefs_ok w' \<and> resolve_preference_token w' token = Inr person
    \<and> (\<exists>t \<in> set (cd_prefs w'). pt_token t = token \<and> pt_expires_at t = cd_now w + days 30)"
proof (cases "refresh_preference_token person w")
  case None
  then obtain fresh where i: "insert_or_read person fresh (revoke_preference_tokens person w) = Inr (token, w')"
    using assms(1) by (auto simp: ensure_preference_token_def Let_def)
  have "cd_now (revoke_preference_tokens person w) = cd_now w" by (simp add: revoke_preference_tokens_def)
  then show ?thesis
    using insert_facts [OF i revoke_facts(1) [OF assms(2)]] revoke_facts(2) [OF assms(2), of person] by simp
next
  case (Some r)
  then show ?thesis
    using refresh_facts [of person w token w'] assms by (auto simp: ensure_preference_token_def split: prod.splits)
qed

section \<open>The links over time\<close>

text \<open>
  A refresh is one statement; a rotation retires, and inserts later. Other transactions may come between.
\<close>

datatype link_event = Refreshed uuid | Retired uuid | Minted uuid string | Forgotten uuid | Ticked

inductive link_step :: "consent_db \<Rightarrow> link_event \<Rightarrow> consent_db \<Rightarrow> bool" where
  refreshed: "refresh_preference_token person w = Some (token, w') \<Longrightarrow> link_step w (Refreshed person) w'"
| retired: "link_step w (Retired person) (revoke_preference_tokens person w)"
| minted: "insert_or_read person fresh w = Inr (token, w') \<Longrightarrow> link_step w (Minted person token) w'"
| forgotten: "cd_prefs w' = filter (\<lambda>t. pt_person t \<noteq> person) (cd_prefs w) \<Longrightarrow> link_step w (Forgotten person) w'"
| ticked: "cd_prefs w' = cd_prefs w \<Longrightarrow> link_step w Ticked w'"

lemma link_step_ok: "link_step w e w' \<Longrightarrow> prefs_ok w \<Longrightarrow> prefs_ok w'"
proof (induction rule: link_step.induct)
  case (refreshed person w token w')
  then show ?case by (rule refresh_facts [THEN conjunct1])
next
  case (retired w person)
  then show ?case by (rule revoke_facts(1))
next
  case (minted person fresh w token w')
  then show ?case by (rule insert_facts [THEN conjunct1])
next
  case (forgotten w' person w)
  have "filter (\<lambda>t. pt_revoked_at t = None) (cd_prefs w') = filter (\<lambda>t. pt_person t \<noteq> person) (filter (\<lambda>t. pt_revoked_at t = None) (cd_prefs w))"
    unfolding forgotten(1) by (simp add: conj_commute)
  then show ?case using forgotten(2) unfolding prefs_ok_def forgotten(1) by (simp add: distinct_map_filter del: filter_filter)
qed (rule prefs_only)

interpretation links: invariant_machine link_step prefs_ok
  by unfold_locales (rule link_step_ok)

lemma resolve_row:
  assumes "resolve_preference_token w token = Inr person"
  obtains t where "t \<in> set (cd_prefs w)" "pt_token t = token" "pt_person t = person" "pt_revoked_at t = None"
    "cd_now w < pt_expires_at t"
proof -
  obtain t where t: "find (\<lambda>t. pt_token t = token \<and> honoured w t) (cd_prefs w) = Some t" "pt_person t = person"
    using assms by (auto simp: resolve_preference_token_def split: option.splits)
  show thesis using that [of t] t(2) find_SomeD [OF t(1)] by (simp add: honoured_def)
qed

section \<open>Recording through the centre\<close>

lemma record_frame:
  assumes "record_consent s c inp w = (res, w')"
  shows "cd_purposes w' = cd_purposes w" "cd_prefs w' = cd_prefs w" "cd_scope w' = cd_scope w"
    "cd_flags w' = cd_flags w" "cd_now w' = cd_now w" "keyed w \<Longrightarrow> keyed w'"
proof -
  have "cd_purposes w' = cd_purposes w \<and> cd_prefs w' = cd_prefs w \<and> cd_scope w' = cd_scope w \<and> cd_flags w' = cd_flags w
    \<and> cd_now w' = cd_now w \<and> (keyed w \<longrightarrow> keyed w')"
  proof (rule record_consent_cases [OF assms], goal_cases)
    case (2 sub st out)
    show ?case
    proof (rule record_in_tx_effect [OF 2(3)], goal_cases)
      case (2 key doi doi_at w1 p l)
      have "cd_purposes w1 = cd_purposes w \<and> cd_prefs w1 = cd_prefs w \<and> cd_scope w1 = cd_scope w \<and> cd_flags w1 = cd_flags w
          \<and> cd_now w1 = cd_now w"
        by (rule resolve_doi_effect [OF 2(4)]) (simp_all add: redeemed_def)
      then show ?case unfolding 2(6) using changed_states(2) [OF 2(4)]
        by (simp add: upsert_consent_with_proof_def)
    qed simp
  qed simp
  then show "cd_purposes w' = cd_purposes w" "cd_prefs w' = cd_prefs w" "cd_scope w' = cd_scope w"
    "cd_flags w' = cd_flags w" "cd_now w' = cd_now w" "keyed w \<Longrightarrow> keyed w'" by blast+
qed

definition set_state ::
  "consent_db \<Rightarrow> subject_ref \<Rightarrow> uuid \<Rightarrow> consent_state \<Rightarrow> (subject_ref \<Rightarrow> uuid \<Rightarrow> consent_state option)" where
  "set_state w sub purpose st = (\<lambda>x p. if x = sub \<and> p = purpose then Some st else current_state w x p)"

lemma record_sets:
  assumes "record_consent s c inp w = (Inr out, w')" "\<not> ri_never_override inp"
  shows "\<exists>sub st. admit_record c inp = Inr (sub, st) \<and> current_state w' = set_state w sub (ri_purpose inp) st"
proof (rule record_consent_cases [OF assms(1)], goal_cases)
  case (2 sub st out')
  show ?case
  proof (rule record_in_tx_effect [OF 2(3)], goal_cases)
    case (1 cur)
    then show ?case using 2 assms(2) by (auto simp: set_state_def fun_eq_iff)
  next
    case (2 key doi doi_at w1 p l)
    have "current_state w' = set_state w sub (ri_purpose inp) st"
      unfolding 2(6) changed_states(1) [OF 2(4)] by (simp add: set_state_def)
    then show ?case using \<open>admit_record c inp = Inr (sub, st)\<close> by blast
  qed
qed simp

lemma admit_preference:
  "admit_record c (preference_input i purpose st wording) = Inr (sub, x) \<Longrightarrow> sub = Person i \<and> parse_recordable_state st = Inr x"
  by (auto simp: admit_record_def consent_subject_def preference_input_def is_zero_def split: if_splits)

lemma public_set_cases:
  assumes "public_set_consent s c i key st wording w = (res, w')"
  obtains (unchanged) e where "res = Inl e" "w' = w"
    | (recorded) out purpose x where "res = Inr out" "\<not> locked_purpose (trim_space (to_lower key))" "purpose_by_key w (trim_space (to_lower key)) = Inr purpose"
        "parse_recordable_state st = Inr x" "current_state w' = set_state w (Person i) purpose x"
        "record_consent s c (preference_input i purpose st wording) w = (Inr out, w')"
proof (cases res)
  case (Inl e)
  have "w' = w"
    using assms unfolding Inl public_set_consent_def Let_def
    by (auto split: if_splits sum.splits elim: record_consent_cases)
  then show thesis using unchanged Inl by blast
next
  case (Inr out)
  have "\<not> locked_purpose (trim_space (to_lower key))"
    and "\<exists>purpose. purpose_by_key w (trim_space (to_lower key)) = Inr purpose
      \<and> record_consent s c (preference_input i purpose st wording) w = (Inr out, w')"
    using assms unfolding Inr public_set_consent_def Let_def by (auto split: if_splits sum.splits)
  then obtain purpose where p: "purpose_by_key w (trim_space (to_lower key)) = Inr purpose"
    "record_consent s c (preference_input i purpose st wording) w = (Inr out, w')" by blast
  obtain sub x where a: "admit_record c (preference_input i purpose st wording) = Inr (sub, x)"
    "current_state w' = set_state w sub (ri_purpose (preference_input i purpose st wording)) x"
    using record_sets [OF p(2)] by (auto simp: preference_input_def)
  have "current_state w' = set_state w (Person i) purpose x" "parse_recordable_state st = Inr x"
    using a(2) admit_preference [OF a(1)] by (simp_all add: preference_input_def)
  then show thesis using recorded p Inr \<open>\<not> locked_purpose _\<close> by blast
qed

section \<open>Unsubscribing\<close>

definition normal_keys :: "consent_db \<Rightarrow> bool" where
  "normal_keys w \<longleftrightarrow> distinct (map pu_key (live_purposes w))
     \<and> (\<forall>p \<in> set (live_purposes w). trim_space (to_lower (pu_key p)) = pu_key p)"

definition choice_of :: "consent_db \<Rightarrow> uuid \<Rightarrow> purpose \<Rightarrow> purpose_choice" where
  "choice_of w i p = \<lparr>pc_key = pu_key p, pc_label = pu_label p,
     pc_state = (case current_state w (Person i) (pu_id p) of None \<Rightarrow> StateUnknown | Some st \<Rightarrow> st),
     pc_locked = locked_purpose (pu_key p)\<rparr>"

lemma choice_key [simp]: "pc_key (choice_of w i p) = pu_key p"
  by (simp add: choice_of_def)

lemma purpose_by_key_live:
  assumes "normal_keys w" "p \<in> set (live_purposes w)"
  shows "purpose_by_key w (trim_space (to_lower (pu_key p))) = Inr (pu_id p)"
  using assms find_distinct_key [of pu_key "live_purposes w" p] by (simp add: normal_keys_def purpose_by_key_def)

text \<open>What withdrawing a list of choices leaves, when it succeeds.\<close>

lemma withdraw_all_effect:
  assumes "withdraw_all s c i (map (choice_of w0 i) ps) w = (Inr keys, w')" "normal_keys w0"
    and "cd_purposes w = cd_purposes w0" "set ps \<subseteq> set (live_purposes w0)"
  shows "current_state w' = (\<lambda>x q. if x = Person i \<and> (\<exists>p \<in> set ps. withdrawable (choice_of w0 i p) \<and> pu_id p = q)
      then Some StateWithdrawn else current_state w x q)
    \<and> keys = map pu_key (filter (\<lambda>p. withdrawable (choice_of w0 i p)) ps) \<and> cd_purposes w' = cd_purposes w
    \<and> cd_flags w' = cd_flags w \<and> cd_prefs w' = cd_prefs w"
  using assms(1,3,4)
proof (induction ps arbitrary: w keys)
  case Nil
  then show ?case by simp
next
  case (Cons p ps)
  show ?case
  proof (cases "withdrawable (choice_of w0 i p)")
    case False
    then show ?thesis using Cons.IH [of w keys] Cons.prems by simp
  next
    case True
    obtain out w1 keys' where set: "public_set_consent s c i (pu_key p) ''withdrawn'' None w = (Inr out, w1)"
      and rest: "withdraw_all s c i (map (choice_of w0 i) ps) w1 = (Inr keys', w')" and keys: "keys = pu_key p # keys'"
      using Cons.prems(1) True by (auto split: prod.splits sum.splits)
    show ?thesis
    proof (rule public_set_cases [OF set], goal_cases)
      case (2 out' purpose x)
      have live: "live_purposes w = live_purposes w0" using Cons.prems(2) by (simp add: live_purposes_def)
      have "purpose = pu_id p"
        using 2(3) purpose_by_key_live [OF assms(2), of p] Cons.prems(3) by (simp add: purpose_by_key_def live)
      moreover have "x = StateWithdrawn" using 2(4) by (auto simp: parse_recordable_state_def split: if_splits)
      ultimately have cur: "current_state w1 = set_state w (Person i) (pu_id p) StateWithdrawn" using 2(5) by simp
      note fr = record_frame [OF 2(6)]
      show ?case
        using Cons.IH [OF rest] Cons.prems(2,3) fr(1,2,4) keys True
        by (auto simp: cur set_state_def fun_eq_iff)
    qed simp
  qed
qed

text \<open>The subject alone is touched, whatever the request and however it ends.\<close>

lemma public_set_subject:
  assumes "public_set_consent s c i key st wording w = (res, w')" "x \<noteq> Person i"
  shows "current_state w' x = current_state w x"
  using assms(2) by (rule_tac public_set_cases [OF assms(1)]) (auto simp: set_state_def)

lemma withdraw_all_subject:
  "withdraw_all s c i chs w = (res, w') \<Longrightarrow> x \<noteq> Person i \<Longrightarrow> current_state w' x = current_state w x"
proof (induction chs arbitrary: w res)
  case (Cons ch chs)
  show ?case
  proof (cases "withdrawable ch")
    case True
    obtain r1 w1 where one: "public_set_consent s c i (pc_key ch) ''withdrawn'' None w = (r1, w1)" by force
    have "current_state w1 x = current_state w x" by (rule public_set_subject [OF one Cons.prems(2)])
    moreover obtain r2 w2 where "withdraw_all s c i chs w1 = (r2, w2)" by force
    ultimately show ?thesis using Cons True one by (cases r1; cases r2) auto
  qed (use Cons in auto)
qed simp

lemma one_click_subject:
  assumes "one_click_unsubscribe s c token purpose w = (res, w')" "resolve_preference_token w token = Inr i" "x \<noteq> Person i"
  shows "current_state w' x = current_state w x"
  using assms(1,2)
  by (auto simp: one_click_unsubscribe_def Let_def split: if_splits sum.splits prod.splits
      dest: public_set_subject [OF _ assms(3)] withdraw_all_subject [OF _ assms(3)])

text \<open>The middleware's actor may always write, so a withdrawal always goes through.\<close>

definition public_ctx :: "ctx \<Rightarrow> bool" where
  "public_ctx c \<longleftrightarrow> ctx_actor c = Some public_preferences_actor \<and> (\<exists>corr. ctx_correlation c = Some corr \<and> \<not> is_zero corr)"

definition minting :: "kit \<Rightarrow> bool" where
  "minting k \<longleftrightarrow> (\<forall>n. \<not> is_zero (kt_audit_id k n) \<and> \<not> is_zero (kt_event_id k n))"

lemma public_powers:
  assumes "public_ctx c"
  shows "require c obj a = Inr ()" "ensure_writable c db ''person'' i = Inr ()" "ensure_visible c db ''person'' i = Inr ()"
  using assms
  by (auto simp: public_ctx_def public_preferences_actor_def require_def rbac_actor_def refuse_buyer_def
    ensure_writable_def ensure_visible_def scope_clause_for_def ensure_write_authority_def owner_scoped_tables_def
    unbounded_def unbounded_for_def)

lemma public_writes: "public_ctx c \<Longrightarrow> minting (cs_kit s) \<Longrightarrow> writes (cs_kit s) c"
  by (auto simp: public_ctx_def minting_def writes_def public_preferences_actor_def actor_types_def)

lemma public_withdraws:
  assumes "public_ctx c" "minting (cs_kit s)" "normal_keys w" "p \<in> set (live_purposes w)" "distinct (map pu_id (cd_purposes w))"
    and "\<not> locked_purpose (pu_key p)" "\<not> is_zero i" "\<not> is_zero (pu_id p)"
  shows "\<exists>out w'. public_set_consent s c i (pu_key p) ''withdrawn'' None w = (Inr out, w')"
proof -
  let ?inp = "preference_input i (pu_id p) ''withdrawn'' None"
  have key: "trim_space (to_lower (pu_key p)) = pu_key p" using assms(3,4) by (simp add: normal_keys_def)
  have "distinct (map pu_id (live_purposes w))" using assms(5) by (simp add: live_purposes_def distinct_map_filter)
  then have load: "load_consent_purpose w (pu_id p) = Inr (pu_key p, pu_doi p)"
    using find_distinct_key [of pu_id "live_purposes w" p] assms(4) by (simp add: load_consent_purpose_def)
  have "\<exists>out w'. record_in_tx s c ?inp (Person i) StateWithdrawn w = Inr (out, w')"
    using record_ok [of c w "Person i" ?inp "pu_key p" "pu_doi p" s StateWithdrawn None w] load assms(7)
      public_powers(2) [OF assms(1)] public_writes [OF assms(1,2)]
    by (simp add: preference_input_def resolve_doi_confirmation_def)
  moreover have "admit_record c ?inp = Inr (Person i, StateWithdrawn)"
    using assms(7,8) public_powers(1) [OF assms(1)]
    by (simp add: admit_record_def consent_subject_def preference_input_def require_body_id_def
      parse_recordable_state_def is_zero_def guardR_def)
  ultimately show ?thesis
    using purpose_by_key_live [OF assms(3,4)] assms(6)
    by (auto simp: public_set_consent_def key record_consent_def run_tx_def split: sum.splits)
qed

lemma withdraw_all_ok:
  assumes "public_ctx c" "minting (cs_kit s)" "normal_keys w0" "distinct (map pu_id (cd_purposes w0))" "\<not> is_zero i"
    and "\<forall>p \<in> set ps. p \<in> set (live_purposes w0) \<and> \<not> is_zero (pu_id p)" "cd_purposes w = cd_purposes w0"
  shows "\<exists>keys w'. withdraw_all s c i (map (choice_of w0 i) ps) w = (Inr keys, w')"
  using assms(6,7)
proof (induction ps arbitrary: w)
  case (Cons p ps)
  show ?case
  proof (cases "withdrawable (choice_of w0 i p)")
    case True
    have "normal_keys w" "live_purposes w = live_purposes w0"
      using assms(3) Cons.prems(2) by (simp_all add: normal_keys_def live_purposes_def)
    then obtain out w1 where one: "public_set_consent s c i (pu_key p) ''withdrawn'' None w = (Inr out, w1)"
      using public_withdraws [OF assms(1,2), of w p i] Cons.prems assms(4,5) True
      by (auto simp: withdrawable_def choice_of_def)
    have "cd_purposes w1 = cd_purposes w"
      by (rule public_set_cases [OF one]) (auto dest: record_frame(1))
    then show ?thesis using Cons.IH [of w1] Cons.prems one True by (auto split: prod.splits)
  qed (use Cons in simp)
qed simp

definition purposes_fine :: "consent_db \<Rightarrow> bool" where
  "purposes_fine w \<longleftrightarrow> normal_keys w \<and> distinct (map pu_id (cd_purposes w))
     \<and> (\<forall>p \<in> set (live_purposes w). \<not> is_zero (pu_id p))"

lemma one_click_all:
  assumes "public_ctx c" "minting (cs_kit s)" "purposes_fine w" "\<not> is_zero i" "resolve_preference_token w token = Inr i"
  shows "\<exists>keys w'. one_click_unsubscribe s c token None w = (Inr keys, w')
    \<and> set keys = pu_key ` {p \<in> set (live_purposes w). \<not> locked_purpose (pu_key p) \<and> current_state w (Person i) (pu_id p) = Some StateGranted}
    \<and> current_state w' = (\<lambda>x q.
        if x = Person i \<and> current_state w x q = Some StateGranted
           \<and> (\<exists>p \<in> set (live_purposes w). pu_id p = q \<and> \<not> locked_purpose (pu_key p))
        then Some StateWithdrawn else current_state w x q)
    \<and> cd_flags w' = cd_flags w"
proof -
  let ?ps = "sort_key pu_key (live_purposes w)"
  have fine: "normal_keys w" "distinct (map pu_id (cd_purposes w))" "\<forall>p \<in> set ?ps. p \<in> set (live_purposes w) \<and> \<not> is_zero (pu_id p)"
    using assms(3) by (auto simp: purposes_fine_def)
  have states: "public_purpose_states c i w = Inr (map (choice_of w i) ?ps)"
    by (simp add: public_purpose_states_def public_powers [OF assms(1)] lift_c_def choice_of_def)
  obtain keys w' where run: "withdraw_all s c i (map (choice_of w i) ?ps) w = (Inr keys, w')"
    using withdraw_all_ok [OF assms(1,2) fine(1,2) assms(4) fine(3) refl] by blast
  have eff: "one_click_unsubscribe s c token None w = (Inr keys, w')"
    by (simp add: one_click_unsubscribe_def assms(5) states run)
  have w: "withdrawable (choice_of w i p) \<longleftrightarrow> \<not> locked_purpose (pu_key p) \<and> current_state w (Person i) (pu_id p) = Some StateGranted" for p
    by (auto simp: withdrawable_def choice_of_def split: option.splits)
  note r = withdraw_all_effect [OF run fine(1) refl]
  show ?thesis
    using eff r by (intro exI [of _ keys] exI [of _ w']) (auto simp: w fun_eq_iff)
qed

section \<open>Properties\<close>

text \<open>
  A link in a message works and ages out. Ensuring a link for a person hands out one that resolves to
  that person for the next thirty days; and through any history of refreshes, rotations that other
  transactions interleave with, and erasures, a person holds at most one live link and no link resolves
  two hundred and ten days after it was created.
\<close>

theorem preference_links_work_and_age_out:
  assumes "run_of link_step w es w1" "prefs_ok w" "ensure_preference_token person rand w1 = Inr (token, w2)"
    and "run_of link_step w2 es' w3"
  shows "(cd_prefs w3 = cd_prefs w2 \<and> cd_now w3 < cd_now w1 + days 30 \<longrightarrow> resolve_preference_token w3 token = Inr person)
    \<and> length (filter (live_for i) (cd_prefs w3)) \<le> 1
    \<and> (resolve_preference_token w3 tok = Inr i \<longrightarrow>
        (\<exists>t \<in> set (cd_prefs w3). pt_token t = tok \<and> pt_person t = i \<and> cd_now w3 < pt_created_at t + days 210))"
proof -
  have ok1: "prefs_ok w1" by (rule links.run_inv [OF assms(1,2)])
  note made = ensure_facts [OF assms(3) ok1]
  have ok3: "prefs_ok w3" by (rule links.run_inv [OF assms(4)]) (use made in blast)
  have "resolve_preference_token w3 token = Inr person"
    if "cd_prefs w3 = cd_prefs w2" "cd_now w3 < cd_now w1 + days 30"
  proof -
    obtain t where t: "t \<in> set (cd_prefs w2)" "pt_token t = token" "pt_expires_at t = cd_now w1 + days 30"
      using made by blast
    have d: "distinct (map pt_token (cd_prefs w2))" using made by (simp add: prefs_ok_def)
    obtain u where u: "u \<in> set (cd_prefs w2)" "pt_token u = token" "pt_person u = person" "pt_revoked_at u = None"
      by (rule resolve_row [OF made [THEN conjunct2, THEN conjunct1]])
    have "u = t" using d t(1,2) u(1,2) by (auto simp: distinct_map dest: inj_onD)
    then have hon: "honoured w3 t" using u(4) t(3) that(2) by (simp add: honoured_def)
    have "find (\<lambda>u. pt_token u = token \<and> honoured w3 u) (cd_prefs w2) = Some t"
    proof (cases "find (\<lambda>u. pt_token u = token \<and> honoured w3 u) (cd_prefs w2)")
      case (Some v)
      then have "v = t" using find_SomeD [OF Some] d t(1,2) by (auto simp: distinct_map dest: inj_onD)
      then show ?thesis using Some by simp
    qed (use t hon in \<open>auto simp: find_None_iff\<close>)
    then show ?thesis using u(3) \<open>u = t\<close> by (simp add: resolve_preference_token_def that(1))
  qed
  moreover have "length (filter (live_for i) (cd_prefs w3)) \<le> 1"
  proof -
    let ?live = "filter (\<lambda>t. pt_revoked_at t = None) (cd_prefs w3)"
    have "distinct (map pt_person ?live)" using ok3 by (simp add: prefs_ok_def)
    then have "length (filter (\<lambda>j. j = i) (map pt_person ?live)) \<le> 1"
      by (metis (full_types) distinct_length_filter card_mono card.empty card_insert_disjoint finite.emptyI finite.insertI
        inf_le1 singleton_conv One_nat_def empty_iff)
    moreover have "filter (live_for i) (cd_prefs w3) = filter (\<lambda>t. pt_person t = i) ?live"
      by (simp add: live_for_def [abs_def] conj_commute)
    ultimately show ?thesis by (simp add: filter_map comp_def)
  qed
  moreover have "\<exists>t \<in> set (cd_prefs w3). pt_token t = tok \<and> pt_person t = i \<and> cd_now w3 < pt_created_at t + days 210"
    if r: "resolve_preference_token w3 tok = Inr i"
  proof -
    obtain t where t: "t \<in> set (cd_prefs w3)" "pt_token t = tok" "pt_person t = i" "cd_now w3 < pt_expires_at t"
      by (rule resolve_row [OF r])
    have "pt_expires_at t \<le> pt_created_at t + days 210" using ok3 t(1) by (simp add: prefs_ok_def)
    then show ?thesis using t by (intro bexI [of _ t]) auto
  qed
  ultimately show ?thesis by blast
qed

theorem preference_links_work_and_age_out_witness:
  "\<exists>token w2. ensure_preference_token 7 (Some []) desk = Inr (token, w2) \<and> resolve_preference_token w2 token = Inr 7"
proof -
  have d: "cd_prefs desk = []" by (simp add: desk_def)
  then have ok: "prefs_ok desk" by (simp add: prefs_ok_def)
  have none: "refresh_preference_token 7 desk = None" by (simp add: refresh_preference_token_def d)
  obtain token w2 where e: "ensure_preference_token 7 (Some []) desk = Inr (token, w2)" and now: "cd_now w2 = cd_now desk"
    by (simp add: ensure_preference_token_def none new_preference_token_def insert_or_read_def revoke_preference_tokens_def d Let_def)
  have "resolve_preference_token w2 token = Inr 7"
    using preference_links_work_and_age_out [THEN conjunct1, OF run_of.start ok e run_of.start] hour_days(2) now by simp
  then show ?thesis using e by blast
qed

text \<open>
  One click withdraws. Behind the middleware an unsubscribe that names no purpose never fails, and
  leaves the person the link names withdrawn from every unlocked purpose they had granted; every other
  state, of this person or anybody else, is untouched, and the answer lists exactly the purposes withdrawn.
\<close>

theorem one_click_withdraws_every_grant:
  assumes "public_ctx c" "minting (cs_kit s)" "purposes_fine w" "\<not> is_zero i" "resolve_preference_token w token = Inr i"
  shows "\<exists>keys w'. one_click_unsubscribe s c token None w = (Inr keys, w')
    \<and> set keys = pu_key ` {p \<in> set (live_purposes w). \<not> locked_purpose (pu_key p) \<and> current_state w (Person i) (pu_id p) = Some StateGranted}
    \<and> current_state w' = (\<lambda>x q.
        if x = Person i \<and> current_state w x q = Some StateGranted
           \<and> (\<exists>p \<in> set (live_purposes w). pu_id p = q \<and> \<not> locked_purpose (pu_key p))
        then Some StateWithdrawn else current_state w x q)"
  using one_click_all [OF assms] by blast

text \<open>A mailing-list world: the person of the desk reads the news and holds a link.\<close>

definition web_ctx :: ctx where
  "web_ctx = background\<lparr>ctx_actor := Some public_preferences_actor, ctx_correlation := Some 9\<rparr>"

definition subscribed :: consent_db where
  "subscribed = desk\<lparr>cd_consents := [\<lparr>cr_subject = Person 7, cr_purpose = 2, cr_state = StateGranted, cr_basis = None,
      cr_captured_at = Some 2, cr_source = None\<rparr>],
     cd_prefs := [\<lparr>pt_person = 7, pt_token = ''pref_x'', pt_created_at = 0, pt_revoked_at = None, pt_expires_at = 20\<rparr>]\<rparr>"

lemma subscribed_facts:
  "public_ctx web_ctx" "minting (cs_kit desk_svc)" "purposes_fine subscribed"
  "resolve_preference_token subscribed ''pref_x'' = Inr 7" "live_purposes subscribed = desk_purposes"
  "current_state subscribed (Person 7) 2 = Some StateGranted" "current_state subscribed (Person 7) 3 = None"
  "existing_customer_flag subscribed 7" "keyed subscribed"
proof -
  show "public_ctx web_ctx" by (simp add: public_ctx_def web_ctx_def is_zero_def nil_uuid_def)
  show "minting (cs_kit desk_svc)" by (simp add: minting_def desk_svc_def is_zero_def nil_uuid_def)
  show live: "live_purposes subscribed = desk_purposes"
    by (simp add: live_purposes_def subscribed_def desk_def desk_purposes_def)
  have "\<forall>p \<in> set desk_purposes. trim_space (to_lower (pu_key p)) = pu_key p" by code_simp
  then show "purposes_fine subscribed"
    by (simp add: purposes_fine_def normal_keys_def live) (simp add: subscribed_def desk_def desk_purposes_def is_zero_def nil_uuid_def)
qed (simp_all add: resolve_preference_token_def honoured_def subscribed_def desk_def current_state_def
    existing_customer_flag_def keyed_def)

theorem one_click_withdraws_every_grant_witness:
  "\<exists>keys w'. one_click_unsubscribe desk_svc web_ctx ''pref_x'' None subscribed = (Inr keys, w')
     \<and> ''reply'' \<in> set keys \<and> current_state w' (Person 7) 2 = Some StateWithdrawn"
proof -
  let ?p = "desk_purposes ! 1"
  have p: "?p \<in> set (live_purposes subscribed)" "pu_id ?p = 2" "pu_key ?p = ''reply''"
    unfolding subscribed_facts(5) by (simp_all add: desk_purposes_def)
  have free: "\<not> locked_purpose (pu_key ?p)" unfolding p(3) by code_simp
  have "\<not> is_zero (7 :: uuid)" by (simp add: is_zero_def nil_uuid_def)
  then obtain keys w' where run: "one_click_unsubscribe desk_svc web_ctx ''pref_x'' None subscribed = (Inr keys, w')"
    and keys: "set keys = pu_key ` {p \<in> set (live_purposes subscribed). \<not> locked_purpose (pu_key p)
        \<and> current_state subscribed (Person 7) (pu_id p) = Some StateGranted}"
    and cur: "current_state w' = (\<lambda>x q. if x = Person 7 \<and> current_state subscribed x q = Some StateGranted
        \<and> (\<exists>p \<in> set (live_purposes subscribed). pu_id p = q \<and> \<not> locked_purpose (pu_key p))
        then Some StateWithdrawn else current_state subscribed x q)"
    using one_click_withdraws_every_grant [OF subscribed_facts(1-3) _ subscribed_facts(4)] by blast
  have "pu_key ?p \<in> set keys" unfolding keys by (rule imageI) (use p(1,2) free subscribed_facts(6) in simp)
  moreover have "current_state w' (Person 7) (pu_id ?p) = Some StateWithdrawn"
    unfolding cur using p(1,2) free subscribed_facts(6) by auto
  ultimately show ?thesis using run p by auto
qed

text \<open>
  C39. Unsubscribing from everything withdraws only what was granted. A person who may be written to as an
  existing customer, with no decision on record for a marketing purpose, may be written to for it just as
  before after the one-click unsubscribe that names no purpose; the unsubscribe that names it does block it.
\<close>

theorem unsubscribing_from_all_keeps_existing_customers:
  assumes "public_ctx c" "minting (cs_kit s)" "purposes_fine w" "\<not> is_zero i" "resolve_preference_token w token = Inr i"
    and "existing_customer_flag w i" "pu_class pu = ClassMarketing" "current_state w (Person i) (pu_id pu) = None"
  shows "vd_state (verdict_for_person (snd (one_click_unsubscribe s c token None w)) i pu) = VerdictAllowed
    \<and> (one_click_unsubscribe s c token (Some (pu_key pu)) w = (Inr keys, w'') \<longrightarrow>
        pu \<in> set (live_purposes w) \<longrightarrow> \<not> blank (pu_key pu) \<longrightarrow> to_lower (trim_space (pu_key pu)) = pu_key pu \<longrightarrow>
        vd_state (verdict_for_person w'' i pu) = VerdictBlocked)"
proof -
  obtain keys' w' where run: "one_click_unsubscribe s c token None w = (Inr keys', w')" "cd_flags w' = cd_flags w"
    "current_state w' (Person i) (pu_id pu) = None"
    using one_click_all [OF assms(1-5)] assms(8) by force
  then have "existing_customer_flag w' i" using assms(6) by (simp add: existing_customer_flag_def)
  then have allowed: "vd_state (verdict_for_person w' i pu) = VerdictAllowed"
    using run(3) assms(7) by (simp add: verdict_allowed_iff objected_def lawful_basis_def marketing_basis_def)
  have "vd_state (verdict_for_person w'' i pu) = VerdictBlocked"
    if h: "one_click_unsubscribe s c token (Some (pu_key pu)) w = (Inr keys, w'')" "pu \<in> set (live_purposes w)"
      "\<not> blank (pu_key pu)" "to_lower (trim_space (pu_key pu)) = pu_key pu"
  proof -
    obtain out where set: "public_set_consent s c i (pu_key pu) ''withdrawn'' None w = (Inr out, w'')"
      using h(1,3,4) assms(5) by (auto simp: one_click_unsubscribe_def Let_def split: prod.splits sum.splits)
    have "normal_keys w" using assms(3) by (simp add: purposes_fine_def)
    then have "objected w'' (Person i) (pu_id pu)"
      using purpose_by_key_live [of w pu] h(2)
      by (rule_tac public_set_cases [OF set]) (auto simp: set_state_def objected_def parse_recordable_state_def split: if_splits)
    then show ?thesis by (simp add: verdict_objected)
  qed
  then show ?thesis using allowed run(1) by simp
qed

theorem unsubscribing_from_all_keeps_existing_customers_witness:
  "vd_state (verdict_for_person (snd (one_click_unsubscribe desk_svc web_ctx ''pref_x'' None subscribed)) 7 (desk_purposes ! 2))
     = VerdictAllowed"
proof -
  have "pu_class (desk_purposes ! 2) = ClassMarketing" "pu_id (desk_purposes ! 2) = 3" by (simp_all add: desk_purposes_def)
  moreover have "\<not> is_zero (7 :: uuid)" by (simp add: is_zero_def nil_uuid_def)
  ultimately show ?thesis
    using unsubscribing_from_all_keeps_existing_customers [OF subscribed_facts(1-3) _ subscribed_facts(4,8), of "desk_purposes ! 2",
        THEN conjunct1] subscribed_facts(7) by simp
qed

text \<open>
  The preference centre never grants a double opt-in purpose. It sends no confirmation token, so an
  opt-in to such a purpose that is not on record already is refused and changes nothing, though the
  holder of the link may always withdraw.
\<close>

theorem the_centre_cannot_opt_in_twice:
  assumes "purposes_fine w" "pu \<in> set (live_purposes w)" "pu_doi pu"
    and "current_state w (Person i) (pu_id pu) \<noteq> Some StateGranted"
    and "public_set_consent s c i (pu_key pu) ''granted'' wording w = (res, w')"
  shows "isl res \<and> w' = w"
proof (rule public_set_cases [OF assms(5)], goal_cases)
  case (2 out purpose x)
  have "purpose = pu_id pu" using purpose_by_key_live [of w pu] assms(1,2) 2(3) by (simp add: purposes_fine_def)
  moreover have "distinct (map pu_id (live_purposes w))"
    using assms(1) by (simp add: purposes_fine_def live_purposes_def distinct_map_filter)
  then have load: "load_consent_purpose w (pu_id pu) = Inr (pu_key pu, True)"
    using find_distinct_key [of pu_id "live_purposes w" pu] assms(2,3) by (simp add: load_consent_purpose_def)
  ultimately obtain sub st where r: "record_in_tx s c (preference_input i (pu_id pu) ''granted'' wording) sub st w = Inr (out, w')"
    "admit_record c (preference_input i (pu_id pu) ''granted'' wording) = Inr (sub, st)"
    using 2(6) by (auto elim: record_consent_cases)
  have who: "sub = Person i" "st = StateGranted"
    using admit_preference [OF r(2)] by (auto simp: parse_recordable_state_def split: if_splits)
  show ?case
    by (rule record_in_tx_effect [OF r(1)])
      (use load assms(4) who in \<open>auto simp: preference_input_def resolve_doi_confirmation_def\<close>)
qed simp

theorem the_centre_cannot_opt_in_twice_witness:
  "isl (fst (public_set_consent desk_svc web_ctx 7 ''news'' ''granted'' None subscribed))"
proof -
  have "desk_purposes ! 2 \<in> set (live_purposes subscribed)" "pu_doi (desk_purposes ! 2)"
    "pu_id (desk_purposes ! 2) = 3" "pu_key (desk_purposes ! 2) = ''news''"
    unfolding subscribed_facts(5) by (simp_all add: desk_purposes_def)
  then show ?thesis
    using the_centre_cannot_opt_in_twice [OF subscribed_facts(3), of "desk_purposes ! 2" 7 desk_svc web_ctx None]
      subscribed_facts(7) by (metis option.distinct(1) prod.collapse)
qed

section \<open>A link does not follow a merge\<close>

lemma merge_links:
  assumes "merge_consent c now a b w = Inr (u, w')"
  shows "cd_prefs w' = cd_prefs w" "cd_now w' = cd_now w"
  using assms by (auto simp: merge_consent_def repoint_proofs_def repoint_states_def drop_colliding_def
    carry_withdrawals_def Let_def)

lemma withdraw_none: "list_all (\<lambda>ch. \<not> withdrawable ch) chs \<Longrightarrow> withdraw_all s c i chs w = (Inr [], w)"
  by (induction chs) auto

text \<open>
  C38. A link in an old message stops at a merge. Consent moves to the surviving record with the address,
  the preference link does not: it still resolves to the merged-away person, who has no state left, so the
  one-click unsubscribe answers success, withdraws nothing and leaves every grant the survivor took over
  in force; naming a purpose changes the merged-away person alone.
\<close>

theorem an_old_link_stops_at_a_merge:
  assumes "merge_consent c now a b w = Inr (u, w1)" "a \<noteq> b" "keyed w" "resolve_preference_token w token = Inr a"
    and "public_ctx c'" "current_state w (Person a) p = Some StateGranted" "current_state w (Person b) p = None"
  shows "one_click_unsubscribe s c' token None w1 = (Inr [], w1)
    \<and> current_state (snd (one_click_unsubscribe s c' token named w1)) (Person b) p = Some StateGranted"
proof -
  have states: "current_state w1 = carried_state w (Person a) (Person b)"
    using consent_step_states [OF consent_step.merged [OF assms(1,2)] assms(3)] by simp
  have link: "resolve_preference_token w1 token = Inr a"
    using assms(4) by (simp add: resolve_preference_token_def honoured_def merge_links [OF assms(1)])
  have "\<not> withdrawable (choice_of w1 a q)" for q
    by (simp add: withdrawable_def choice_of_def states carried_state_def)
  then have "withdraw_all s c' a (map (choice_of w1 a) qs) w1 = (Inr [], w1)" for qs
    by (intro withdraw_none) (simp add: list_all_iff)
  moreover have "public_purpose_states c' a w1 = Inr (map (choice_of w1 a) (sort_key pu_key (live_purposes w1)))"
    by (simp add: public_purpose_states_def public_powers [OF assms(5)] lift_c_def choice_of_def)
  ultimately have all: "one_click_unsubscribe s c' token None w1 = (Inr [], w1)"
    by (simp add: one_click_unsubscribe_def link)
  obtain res w2 where one: "one_click_unsubscribe s c' token named w1 = (res, w2)" by force
  have "current_state w2 (Person b) p = current_state w1 (Person b) p"
    using one_click_subject [OF one link, of "Person b"] assms(2) by simp
  also have "\<dots> = Some StateGranted" using assms(2,6,7) by (simp add: states carried_state_def)
  finally show ?thesis using all one by simp
qed

theorem an_old_link_stops_at_a_merge_witness:
  "\<exists>w1. merge_consent clerk_ctx 4 7 8 subscribed = Inr ((), w1)
     \<and> current_state (snd (one_click_unsubscribe desk_svc web_ctx ''pref_x'' (Some ''reply'') w1)) (Person 8) 2 = Some StateGranted"
proof -
  obtain w1 where m: "merge_consent clerk_ctx 4 7 8 subscribed = Inr ((), w1)"
    by (simp add: merge_consent_def captured_by_def clerk_acts Let_def)
  have "current_state subscribed (Person 8) 2 = None" by (simp add: current_state_def subscribed_def)
  then show ?thesis
    using an_old_link_stops_at_a_merge [OF m _ subscribed_facts(9,4,1,6), THEN conjunct2] m by auto
qed

end
