(* ===== verification/Subject_Requests.thy ===== *)
theory Subject_Requests
  imports Consent_Store Machines Paging
begin

text \<open>
  Data-subject requests: \<^verbatim>\<open>dsr.go\<close> and \<^verbatim>\<open>handlers_dsr.go\<close> of
  \<^verbatim>\<open>backend/internal/modules/consent\<close>. The erase that fulfilling an erasure request runs is
  the privacy module's and a parameter here: a function on a world of its own, committed by itself. A
  request row carries what the queries project; the table's own constraints are kept: the kinds it
  admits, an answer on a closed row, and the foreign key of the assignee, for which the users' ids stand
  beside the rows.
\<close>

section \<open>Rows\<close>

record dsr_row =
  dq_id :: uuid
  dq_kind :: string
  dq_status :: string
  dq_subject_ref :: string
  dq_assignee :: "uuid option"
  dq_due_at :: time
  dq_resolution :: "string option"
  dq_created_at :: time

record 'x dsr_db =
  dd_rows :: "dsr_row list"
  dd_ledger :: "unit ledger"
  dd_now :: time
  dd_users :: "uuid list"
  dd_world :: 'x

type_synonym ('a, 'x) dsr_tx = "'x dsr_db \<Rightarrow> consent_error + ('a \<times> 'x dsr_db)"
type_synonym 'x erase_fun = "uuid \<Rightarrow> string \<Rightarrow> 'x \<Rightarrow> (app_error + unit) \<times> 'x"

definition field_status :: string where "field_status = ''status''"
definition field_subject_ref :: string where "field_subject_ref = ''subject_ref''"
definition field_resolution :: string where "field_resolution = ''resolution''"

definition illegal_transition :: "string \<Rightarrow> string \<Rightarrow> consent_error" where
  "illegal_transition a b = Invalid field_status (a @ '' to '' @ b @ '' is not a legal transition'')"

definition dsr_transitions :: "(string \<times> string) list" where
  "dsr_transitions =
     [(''open'', ''in_progress''), (''open'', ''fulfilled''), (''open'', ''rejected''),
      (''in_progress'', ''fulfilled''), (''in_progress'', ''rejected'')]"

definition dsr_kinds :: "string list" where "dsr_kinds = [''access'', ''rectify'', ''erasure'']"

definition closed :: "string \<Rightarrow> bool" where
  "closed st \<longleftrightarrow> st = ''fulfilled'' \<or> st = ''rejected''"

definition dsr_by_id :: "uuid \<Rightarrow> 'x dsr_db \<Rightarrow> consent_error + dsr_row" where
  "dsr_by_id i w = (case find (\<lambda>r. dq_id r = i) (dd_rows w) of None \<Rightarrow> Inl (CApp ErrNotFound) | Some r \<Rightarrow> Inr r)"

definition dsr_ledger_tx :: "(unit ledger \<Rightarrow> ('a \<times> unit ledger) result) \<Rightarrow> ('a, 'x) dsr_tx" where
  "dsr_ledger_tx f w = bindR (lift_c (f (dd_ledger w))) (\<lambda>(x, l). Inr (x, w\<lparr>dd_ledger := l\<rparr>))"

text \<open>\<open>dsr_assignee_fkey\<close>: an assignee that is written must be a user.\<close>

definition assignee_known :: "uuid option \<Rightarrow> 'x dsr_db \<Rightarrow> bool" where
  "assignee_known assignee w = (case assignee of None \<Rightarrow> True | Some u \<Rightarrow> u \<in> set (dd_users w))"

section \<open>Who may work the queue\<close>

definition require_dsr_admin :: "ctx \<Rightarrow> action \<Rightarrow> unit result" where
  "require_dsr_admin c a =
     bindR (require c ''person'' a) (\<lambda>_.
       case ctx_actor c of
         None \<Rightarrow> Inl ErrPermissionDenied
       | Some p \<Rightarrow> if p_type p \<noteq> PrincipalHuman then Inl ErrPermissionDenied else require_admin c)"

section \<open>Reading the queue\<close>

definition dsr_query :: "string \<Rightarrow> string \<Rightarrow> int \<Rightarrow> 'x dsr_db \<Rightarrow> consent_error + dsr_row list" where
  "dsr_query cursor status bounded w =
     bindR (if cursor = [] then Inr (\<lambda>_. True)
            else case parse_uuid cursor of
              None \<Rightarrow> Inl (Invalid ''cursor'' ''malformed'')
            | Some after \<Rightarrow> Inr (\<lambda>r. after < dq_id r)) (\<lambda>past.
       Inr (take (nat (bounded + 1)) (filter (\<lambda>r. past r \<and> (status = [] \<or> dq_status r = status))
         (sort_key dq_id (dd_rows w)))))"

text \<open>The rows of a page and the cursor of the next one.\<close>

definition list_dsrs ::
  "ctx \<Rightarrow> int option \<Rightarrow> string \<Rightarrow> string \<Rightarrow> 'x dsr_db \<Rightarrow> consent_error + (dsr_row list \<times> string option)" where
  "list_dsrs c limit cursor status w =
     bindR (lift_c (require_dsr_admin c ActionRead)) (\<lambda>_.
       let bounded = clamp_limit limit in
       bindR (dsr_query cursor status bounded w) (\<lambda>rows.
         if nat bounded < length rows
         then Inr (take (nat bounded) rows, Some (uuid_string (dq_id (rows ! (nat bounded - 1)))))
         else Inr (rows, None)))"

definition dsr_status_valid :: "string \<Rightarrow> bool" where
  "dsr_status_valid st \<longleftrightarrow> st \<in> {''open'', ''in_progress'', ''fulfilled'', ''rejected''}"

definition list_data_subject_requests ::
  "ctx \<Rightarrow> int option \<Rightarrow> string option \<Rightarrow> string option \<Rightarrow> 'x dsr_db \<Rightarrow> consent_error + (dsr_row list \<times> string option)" where
  "list_data_subject_requests c limit cursor status w =
     (case status of
        Some st \<Rightarrow> if \<not> dsr_status_valid st then Inl (Invalid field_status ''not a queue state'')
                   else list_dsrs c limit (case cursor of None \<Rightarrow> [] | Some x \<Rightarrow> x) st w
      | None \<Rightarrow> list_dsrs c limit (case cursor of None \<Rightarrow> [] | Some x \<Rightarrow> x) [] w)"

definition get_dsr :: "ctx \<Rightarrow> uuid \<Rightarrow> 'x dsr_db \<Rightarrow> consent_error + dsr_row" where
  "get_dsr c i w = bindR (lift_c (require_dsr_admin c ActionUpdate)) (\<lambda>_. dsr_by_id i w)"

section \<open>Filing a request\<close>

record create_dsr_input =
  ci_kind :: string
  ci_subject_ref :: string
  ci_assignee :: "uuid option"
  ci_due_at :: time

text \<open>The id is the one the table's default mints.\<close>

definition create_dsr ::
  "kit \<Rightarrow> ctx \<Rightarrow> create_dsr_input \<Rightarrow> uuid \<Rightarrow> 'x dsr_db \<Rightarrow> (consent_error + dsr_row) \<times> 'x dsr_db" where
  "create_dsr k c inp new_id w =
     (case bindR (lift_c (require c ''person'' ActionUpdate)) (\<lambda>_.
        guardR (\<not> blank (ci_subject_ref inp)) (Invalid field_subject_ref ''required'')) of
        Inl e \<Rightarrow> (Inl e, w)
      | Inr _ \<Rightarrow> run_tx (\<lambda>w.
          if ci_kind inp \<notin> set dsr_kinds then Inl (CApp (ErrOther ''data_subject_request_kind_check''))
          else if \<not> assignee_known (ci_assignee inp) w then Inl (CApp (ErrOther ''dsr_assignee_fkey''))
          else let r = \<lparr>dq_id = new_id, dq_kind = ci_kind inp, dq_status = ''open'',
                 dq_subject_ref = trim_space (ci_subject_ref inp), dq_assignee = ci_assignee inp,
                 dq_due_at = ci_due_at inp, dq_resolution = None, dq_created_at = dd_now w\<rparr>
               in bindR (dsr_ledger_tx (audit_entry k c ''create'' ''data_subject_request'' new_id None
                    (Some [(''due_at'', JNum (int_string (ci_due_at inp))), (''kind'', JStr (ci_kind inp)),
                           (field_subject_ref, JStr (ci_subject_ref inp))]))
                    (w\<lparr>dd_rows := dd_rows w @ [r]\<rparr>)) (\<lambda>(_, w'). Inr (r, w'))) w)"

section \<open>Answering one\<close>

record update_dsr_input =
  ui_status :: "string option"
  ui_assignee :: "uuid option"
  ui_resolution :: "string option"

definition has_resolution :: "string option \<Rightarrow> bool" where
  "has_resolution v = (case v of None \<Rightarrow> False | Some s \<Rightarrow> \<not> blank s)"

definition validate_dsr_update :: "dsr_row \<Rightarrow> update_dsr_input \<Rightarrow> consent_error + unit" where
  "validate_dsr_update current inp =
     (case ui_status inp of
        None \<Rightarrow> Inr ()
      | Some st \<Rightarrow>
          if st = dq_status current then Inr ()
          else if (dq_status current, st) \<notin> set dsr_transitions then Inl (illegal_transition (dq_status current) st)
          else guardR (\<not> (closed st \<and> \<not> has_resolution (ui_resolution inp) \<and> \<not> has_resolution (dq_resolution current)))
                 (Invalid field_resolution ''closing a request needs its answer''))"

definition coalesce :: "'a option \<Rightarrow> 'a option \<Rightarrow> 'a option" where
  "coalesce a b = (case a of None \<Rightarrow> b | Some x \<Rightarrow> Some x)"

definition applied :: "update_dsr_input \<Rightarrow> dsr_row \<Rightarrow> dsr_row" where
  "applied inp r = r\<lparr>dq_status := (case ui_status inp of None \<Rightarrow> dq_status r | Some st \<Rightarrow> st),
     dq_assignee := coalesce (ui_assignee inp) (dq_assignee r),
     dq_resolution := coalesce (ui_resolution inp) (dq_resolution r)\<rparr>"

text \<open>The table refuses a closed row with no resolution at all.\<close>

definition resolution_shape :: "dsr_row \<Rightarrow> bool" where
  "resolution_shape r \<longleftrightarrow> (closed (dq_status r) \<longrightarrow> dq_resolution r \<noteq> None)"

text \<open>
  The conditional update and its audit row, for a row read and validated before, perhaps while others
  wrote: \<open>current\<close> is what was read.
\<close>

definition write_dsr ::
  "kit \<Rightarrow> ctx \<Rightarrow> uuid \<Rightarrow> string option \<Rightarrow> update_dsr_input \<Rightarrow> dsr_row \<Rightarrow> (dsr_row, 'x) dsr_tx" where
  "write_dsr k c i guard_status inp current w =
     (case find (\<lambda>r. dq_id r = i \<and> (case guard_status of None \<Rightarrow> True | Some st \<Rightarrow> dq_status r = st)) (dd_rows w) of
        None \<Rightarrow>
          (case ui_status inp of
             None \<Rightarrow> Inl (CApp (ErrOther ''no rows in result set''))
           | Some st \<Rightarrow> Inl (illegal_transition (dq_status current) st))
      | Some r \<Rightarrow>
          if \<not> resolution_shape (applied inp r) then Inl (CApp (ErrOther ''dsr_resolution_shape''))
          else if \<not> assignee_known (ui_assignee inp) w then Inl (CApp (ErrOther ''dsr_assignee_fkey''))
          else bindR (dsr_ledger_tx (audit_entry k c ''update'' ''data_subject_request'' i
                 (Some [(field_status, JStr (dq_status current))])
                 (Some [(field_resolution, JBool (ui_resolution inp \<noteq> None)),
                        (field_status, JStr (dq_status (applied inp r)))]))
                 (w\<lparr>dd_rows := update_where (\<lambda>r. dq_id r = i) (applied inp) (dd_rows w)\<rparr>))
               (\<lambda>(_, w'). Inr (applied inp r, w')))"

definition status_guard :: "update_dsr_input \<Rightarrow> dsr_row \<Rightarrow> string option" where
  "status_guard inp current = (if ui_status inp = None then None else Some (dq_status current))"

definition read_for_update :: "uuid \<Rightarrow> update_dsr_input \<Rightarrow> 'x dsr_db \<Rightarrow> consent_error + dsr_row" where
  "read_for_update i inp w =
     bindR (dsr_by_id i w) (\<lambda>current. bindR (validate_dsr_update current inp) (\<lambda>_. Inr current))"

definition update_dsr ::
  "kit \<Rightarrow> ctx \<Rightarrow> uuid \<Rightarrow> update_dsr_input \<Rightarrow> 'x dsr_db \<Rightarrow> (consent_error + dsr_row) \<times> 'x dsr_db" where
  "update_dsr k c i inp w =
     (case require_dsr_admin c ActionUpdate of
        Inl e \<Rightarrow> (Inl (CApp e), w)
      | Inr _ \<Rightarrow> run_tx (\<lambda>w.
          bindR (read_for_update i inp w) (\<lambda>current. write_dsr k c i (status_guard inp current) inp current w)) w)"

section \<open>Fulfilling an erasure\<close>

definition unresolved_subject :: consent_error where
  "unresolved_subject = Invalid field_subject_ref ''an erasure request must name a person id before it can be fulfilled''"

definition finalize_erasure_fulfil ::
  "kit \<Rightarrow> ctx \<Rightarrow> uuid \<Rightarrow> update_dsr_input \<Rightarrow> dsr_row \<Rightarrow> (dsr_row, 'x) dsr_tx" where
  "finalize_erasure_fulfil k c i inp current w =
     write_dsr k c i (Some (dq_status current)) (inp\<lparr>ui_status := Some ''fulfilled''\<rparr>) current w"

definition erase_reason :: "dsr_row \<Rightarrow> string" where
  "erase_reason r = ''dsr:'' @ uuid_string (dq_id r)"

text \<open>
  The row is locked from the read to the end, so the whole is one step on the requests; the erase commits
  on its own, so a failure after it leaves the world erased and the request as it was.
\<close>

definition fulfil_erasure ::
  "'x erase_fun \<Rightarrow> kit \<Rightarrow> ctx \<Rightarrow> uuid \<Rightarrow> update_dsr_input \<Rightarrow> 'x dsr_db \<Rightarrow> (consent_error + dsr_row) \<times> 'x dsr_db" where
  "fulfil_erasure erase k c i inp w =
     (case bindR (lift_c (require_dsr_admin c ActionUpdate)) (\<lambda>_. read_for_update i inp w) of
        Inl e \<Rightarrow> (Inl e, w)
      | Inr current \<Rightarrow>
          (case parse_uuid (dq_subject_ref current) of
             None \<Rightarrow> (Inl unresolved_subject, w)
           | Some person \<Rightarrow>
               (case erase person (erase_reason current) (dd_world w) of
                  (Inl e, x) \<Rightarrow> (Inl (if e = ErrNotFound then unresolved_subject else CApp e), w\<lparr>dd_world := x\<rparr>)
                | (Inr _, x) \<Rightarrow> run_tx (finalize_erasure_fulfil k c i inp current) (w\<lparr>dd_world := x\<rparr>))))"

text \<open>The handler: fulfilling an erasure takes the erase path, and none is fulfilled without one wired.\<close>

definition update_data_subject_request ::
  "'x erase_fun option \<Rightarrow> kit \<Rightarrow> ctx \<Rightarrow> uuid \<Rightarrow> update_dsr_input \<Rightarrow> 'x dsr_db \<Rightarrow> (consent_error + dsr_row) \<times> 'x dsr_db" where
  "update_data_subject_request eraser k c i inp w =
     (if ui_status inp = Some ''fulfilled'' then
        (case get_dsr c i w of
           Inl e \<Rightarrow> (Inl e, w)
         | Inr current \<Rightarrow>
             if dq_kind current = ''erasure'' then
               (case eraser of
                  None \<Rightarrow> (Inl (CApp (ErrOther ''consent: erasure fulfillment has no erase path wired'')), w)
                | Some erase \<Rightarrow> fulfil_erasure erase k c i inp w)
             else update_dsr k c i inp w)
      else update_dsr k c i inp w)"

section \<open>Lemmas\<close>

lemma coalesce_None [simp]: "coalesce None b = b" and coalesce_Some [simp]: "coalesce (Some x) b = Some x"
  by (simp_all add: coalesce_def)

lemma applied_simps [simp]:
  "dq_id (applied inp r) = dq_id r" "dq_kind (applied inp r) = dq_kind r"
  "dq_subject_ref (applied inp r) = dq_subject_ref r" "dq_created_at (applied inp r) = dq_created_at r"
  "dq_status (applied inp r) = (case ui_status inp of None \<Rightarrow> dq_status r | Some st \<Rightarrow> st)"
  "dq_resolution (applied inp r) = coalesce (ui_resolution inp) (dq_resolution r)"
  by (simp_all add: applied_def)

lemma dsr_by_id_iff: "distinct (map dq_id (dd_rows w)) \<Longrightarrow> dsr_by_id i w = Inr r \<longleftrightarrow> r \<in> set (dd_rows w) \<and> dq_id r = i"
proof -
  assume d: "distinct (map dq_id (dd_rows w))"
  have "find (\<lambda>x. dq_id x = i) (dd_rows w) = Some r \<longleftrightarrow> r \<in> set (dd_rows w) \<and> dq_id r = i"
    using find_distinct_key [OF d, of r] find_SomeD [of "\<lambda>x. dq_id x = i" "dd_rows w" r] by auto
  then show ?thesis by (auto simp: dsr_by_id_def split: option.splits)
qed

lemma dsr_ledger_ok:
  "ctx_actor c = Some p \<Longrightarrow> \<exists>aud l. dsr_ledger_tx (audit_entry k c act et i before after) w = Inr (aud, w\<lparr>dd_ledger := l\<rparr>)"
  using audit_entry_ok [of c p k act et i before after "dd_ledger w"] by (force simp: dsr_ledger_tx_def lift_c_def)

text \<open>What the conditional update does when it goes through.\<close>

lemma write_dsr_effect:
  assumes "write_dsr k c i guard_status inp current w = Inr (r', w')"
  shows "\<exists>r \<in> set (dd_rows w). dq_id r = i \<and> (case guard_status of None \<Rightarrow> True | Some st \<Rightarrow> dq_status r = st)
    \<and> r' = applied inp r \<and> resolution_shape r' \<and> dd_rows w' = update_where (\<lambda>r. dq_id r = i) (applied inp) (dd_rows w)
    \<and> dd_world w' = dd_world w \<and> dd_now w' = dd_now w \<and> assignee_known (ui_assignee inp) w"
proof -
  obtain r where r: "find (\<lambda>r. dq_id r = i \<and> (case guard_status of None \<Rightarrow> True | Some st \<Rightarrow> dq_status r = st)) (dd_rows w) = Some r"
    using assms by (auto simp: write_dsr_def split: option.splits)
  have w: "resolution_shape (applied inp r)" "r' = applied inp r" "assignee_known (ui_assignee inp) w"
    "dd_rows w' = update_where (\<lambda>r. dq_id r = i) (applied inp) (dd_rows w) \<and> dd_world w' = dd_world w \<and> dd_now w' = dd_now w"
    using assms unfolding write_dsr_def r by (auto simp: dsr_ledger_tx_def split: if_splits)
  show ?thesis using find_SomeD [OF r] w by (intro bexI [of _ r]) simp_all
qed

lemma create_dsr_effect:
  assumes "create_dsr k c inp new_id w = (Inr r, w')"
  shows "dd_rows w' = dd_rows w @ [r] \<and> dq_id r = new_id \<and> dq_status r = ''open'' \<and> dd_world w' = dd_world w"
  using assms by (auto simp: create_dsr_def dsr_ledger_tx_def Let_def split: sum.splits if_splits dest!: run_tx_InrD)

section \<open>The queue over time\<close>

text \<open>
  Officers work at the same time. A read is remembered and may be stale when the write it decided comes;
  the rows read so far stand beside the tables. Erasing holds the row's lock and is one step.
\<close>

type_synonym 'x office = "'x dsr_db \<times> dsr_row list"

datatype dsr_event = Filed uuid | Looked uuid | Answered uuid | FulfilTried uuid | OtherWork

definition eraser_contract :: "'x erase_fun \<Rightarrow> (uuid \<Rightarrow> 'x \<Rightarrow> bool) \<Rightarrow> bool" where
  "eraser_contract erase gone \<longleftrightarrow>
     (\<forall>p reason x x'. erase p reason x = (Inr (), x') \<longrightarrow> gone p x')
   \<and> (\<forall>p q reason x res x'. erase p reason x = (res, x') \<longrightarrow> gone q x \<longrightarrow> gone q x')"

inductive dsr_step :: "'x erase_fun \<Rightarrow> (uuid \<Rightarrow> 'x \<Rightarrow> bool) \<Rightarrow> 'x office \<Rightarrow> dsr_event \<Rightarrow> 'x office \<Rightarrow> bool"
  for erase gone where
  filed: "create_dsr k c inp new_id w = (Inr r, w') \<Longrightarrow> new_id \<notin> dq_id ` set (dd_rows w)
    \<Longrightarrow> dsr_step erase gone (w, rs) (Filed new_id) (w', rs)"
| looked: "dsr_by_id i w = Inr r \<Longrightarrow> dsr_step erase gone (w, rs) (Looked i) (w, r # rs)"
| answered: "seen \<in> set rs \<Longrightarrow> dq_id seen = i \<Longrightarrow> current \<in> set rs \<Longrightarrow> dq_id current = i
    \<Longrightarrow> ui_status inp = Some ''fulfilled'' \<Longrightarrow> dq_kind seen \<noteq> ''erasure'' \<Longrightarrow> validate_dsr_update current inp = Inr ()
    \<Longrightarrow> write_dsr k c i (status_guard inp current) inp current w = Inr (r, w')
    \<Longrightarrow> dsr_step erase gone (w, rs) (Answered i) (w', rs)"
| progressed: "current \<in> set rs \<Longrightarrow> dq_id current = i
    \<Longrightarrow> ui_status inp \<noteq> Some ''fulfilled'' \<Longrightarrow> validate_dsr_update current inp = Inr ()
    \<Longrightarrow> write_dsr k c i (status_guard inp current) inp current w = Inr (r, w')
    \<Longrightarrow> dsr_step erase gone (w, rs) (Answered i) (w', rs)"
| fulfil_tried: "ui_status inp = Some ''fulfilled'' \<Longrightarrow> fulfil_erasure erase k c i inp w = (res, w')
    \<Longrightarrow> dsr_step erase gone (w, rs) (FulfilTried i) (w', rs)"
| other_work: "dd_rows w' = dd_rows w \<Longrightarrow> (\<And>p. gone p (dd_world w) \<Longrightarrow> gone p (dd_world w'))
    \<Longrightarrow> dsr_step erase gone (w, rs) OtherWork (w', rs)"

definition same_request :: "dsr_row \<Rightarrow> dsr_row \<Rightarrow> bool" where
  "same_request r r' \<longleftrightarrow> dq_id r' = dq_id r \<and> dq_kind r' = dq_kind r \<and> dq_subject_ref r' = dq_subject_ref r"

definition certified :: "(uuid \<Rightarrow> 'x \<Rightarrow> bool) \<Rightarrow> 'x \<Rightarrow> dsr_row \<Rightarrow> bool" where
  "certified gone x r \<longleftrightarrow> (dq_kind r = ''erasure'' \<and> dq_status r = ''fulfilled''
     \<longrightarrow> (\<exists>p. parse_uuid (dq_subject_ref r) = Some p \<and> gone p x))"

definition office_ok :: "(uuid \<Rightarrow> 'x \<Rightarrow> bool) \<Rightarrow> 'x office \<Rightarrow> bool" where
  "office_ok gone o1 \<longleftrightarrow> distinct (map dq_id (dd_rows (fst o1)))
     \<and> (\<forall>r \<in> set (dd_rows (fst o1)). certified gone (dd_world (fst o1)) r \<and> resolution_shape r)
     \<and> (\<forall>r \<in> set (snd o1). \<exists>r' \<in> set (dd_rows (fst o1)). same_request r r')"

lemma officeD:
  assumes "office_ok gone (w, rs)"
  shows "distinct (map dq_id (dd_rows w))" "r \<in> set (dd_rows w) \<Longrightarrow> certified gone (dd_world w) r"
    "r \<in> set (dd_rows w) \<Longrightarrow> resolution_shape r" "r \<in> set rs \<Longrightarrow> \<exists>r' \<in> set (dd_rows w). same_request r r'"
  using assms by (auto simp: office_ok_def)

lemma same_applied: "same_request r x \<Longrightarrow> same_request r (applied inp x)"
  by (simp add: same_request_def)

text \<open>One written row, whatever was read: the other rows stand, this one is certified if it has to be.\<close>

lemma write_keeps_office:
  assumes "office_ok gone (w, rs)" "write_dsr k c i guard_status inp current w1 = Inr (r', w')"
    and "dd_rows w1 = dd_rows w" "\<And>p. gone p (dd_world w) \<Longrightarrow> gone p (dd_world w1)" "certified gone (dd_world w1) r'"
  shows "office_ok gone (w', rs)"
proof -
  obtain r where r: "r \<in> set (dd_rows w)" "dq_id r = i" "r' = applied inp r" "resolution_shape r'"
    and rows: "dd_rows w' = update_where (\<lambda>r. dq_id r = i) (applied inp) (dd_rows w)" and x: "dd_world w' = dd_world w1"
    using write_dsr_effect [OF assms(2)] assms(3) by auto
  note ok = officeD [OF assms(1)]
  have only: "s = r" if "s \<in> set (dd_rows w)" "dq_id s = i" for s
    using that r(1,2) ok(1) by (auto simp: distinct_map dest: inj_onD)
  have up: "certified gone (dd_world w) s \<Longrightarrow> certified gone (dd_world w1) s" for s
    using assms(4) by (auto simp: certified_def)
  have "certified gone (dd_world w') s \<and> resolution_shape s" if h: "s \<in> set (dd_rows w')" for s
  proof -
    obtain t where t: "t \<in> set (dd_rows w)" "s = (if dq_id t = i then applied inp t else t)"
      using h unfolding rows update_where_def set_map by blast
    show ?thesis using t only [of t] r(3,4) assms(5) ok(2,3) up x by auto
  qed
  moreover have "distinct (map dq_id (dd_rows w'))" using ok(1) by (simp add: rows map_update_where)
  moreover have "\<exists>s \<in> set (dd_rows w'). same_request q s" if h: "q \<in> set rs" for q
  proof -
    obtain t where t: "t \<in> set (dd_rows w)" "same_request q t" using ok(4) [OF h] by blast
    then have "(if dq_id t = i then applied inp t else t) \<in> set (dd_rows w')" unfolding rows update_where_def by auto
    then show ?thesis using t(2) same_applied by (metis (full_types))
  qed
  ultimately show ?thesis by (simp add: office_ok_def)
qed

lemma read_for_update_iff:
  "read_for_update i inp w = Inr current \<longleftrightarrow> dsr_by_id i w = Inr current \<and> validate_dsr_update current inp = Inr ()"
  by (auto simp: read_for_update_def)

lemma fulfil_cases:
  assumes "fulfil_erasure erase k c i inp w = (res, w')"
  obtains (nothing) e where "res = Inl e" "w' = w"
    | (failed) e current person res0 x where "res = Inl e" "read_for_update i inp w = Inr current"
        "parse_uuid (dq_subject_ref current) = Some person" "erase person (erase_reason current) (dd_world w) = (res0, x)"
        "w' = w\<lparr>dd_world := x\<rparr>"
    | (fulfilled) current person x r where "res = Inr r" "read_for_update i inp w = Inr current"
        "parse_uuid (dq_subject_ref current) = Some person" "erase person (erase_reason current) (dd_world w) = (Inr (), x)"
        "write_dsr k c i (Some (dq_status current)) (inp\<lparr>ui_status := Some ''fulfilled''\<rparr>) current (w\<lparr>dd_world := x\<rparr>) = Inr (r, w')"
proof (cases "bindR (lift_c (require_dsr_admin c ActionUpdate)) (\<lambda>_. read_for_update i inp w)")
  case (Inl e)
  then have "(Inl e, w) = (res, w')" using assms by (simp add: fulfil_erasure_def)
  then have "res = Inl e" "w' = w" by auto
  then show thesis by (rule nothing)
next
  case (Inr current)
  then have read: "read_for_update i inp w = Inr current" by auto
  show thesis
  proof (cases "parse_uuid (dq_subject_ref current)")
    case None
    then have "res = Inl unresolved_subject" "w' = w" using assms Inr by (auto simp: fulfil_erasure_def)
    then show thesis by (rule nothing)
  next
    case (Some person)
    obtain res0 x where e: "erase person (erase_reason current) (dd_world w) = (res0, x)" by force
    show thesis
    proof (cases res0)
      case (Inl a)
      then show thesis using assms Inr Some e failed [OF _ read Some e] by (auto simp: fulfil_erasure_def)
    next
      case (Inr u)
      show thesis
      proof (cases "finalize_erasure_fulfil k c i inp current (w\<lparr>dd_world := x\<rparr>)")
        case (Inl a)
        then show thesis using assms \<open>bindR _ _ = Inr current\<close> Some e \<open>res0 = Inr u\<close> failed [OF _ read Some e]
          by (auto simp: fulfil_erasure_def run_tx_def)
      next
        case (Inr b)
        then show thesis using assms \<open>bindR _ _ = Inr current\<close> Some e \<open>res0 = Inr u\<close> fulfilled [OF _ read Some]
          by (cases b) (auto simp: fulfil_erasure_def run_tx_def finalize_erasure_fulfil_def)
      qed
    qed
  qed
qed

lemma dsr_step_ok:
  assumes "dsr_step erase gone o1 e o2" "eraser_contract erase gone" "office_ok gone o1"
  shows "office_ok gone o2"
  using assms(1,3)
proof (induction rule: dsr_step.induct)
  case (filed k c inp new_id w r w' rs)
  have eff: "dd_rows w' = dd_rows w @ [r]" "dq_id r = new_id" "dq_status r = ''open''" "dd_world w' = dd_world w"
    using create_dsr_effect [OF filed(1)] by auto
  have "certified gone (dd_world w) r" "resolution_shape r" using eff(3) by (simp_all add: certified_def resolution_shape_def closed_def)
  then show ?case using filed(2,3) eff by (auto simp: office_ok_def)
next
  case (looked i w r rs)
  have "r \<in> set (dd_rows w)" using looked(1) by (auto simp: dsr_by_id_def dest: find_SomeD split: option.splits)
  then show ?case using looked(2) by (auto simp: office_ok_def same_request_def)
next
  case (answered seen rs i current inp k c w r w')
  obtain q where q: "q \<in> set (dd_rows w)" "same_request seen q" using officeD(4) [OF answered(9,1)] by blast
  obtain r0 where r0: "r0 \<in> set (dd_rows w)" "dq_id r0 = i" "r = applied inp r0" using write_dsr_effect [OF answered(8)] by auto
  have "r0 = q" using q r0(1,2) answered(2) officeD(1) [OF answered(9)] by (auto simp: same_request_def distinct_map dest: inj_onD)
  then have "certified gone (dd_world w) r" using q(2) r0(3) answered(6) by (simp add: certified_def same_request_def)
  then show ?case using write_keeps_office [OF answered(9,8)] by simp
next
  case (progressed current rs i inp k c w r w')
  obtain r0 where r0: "r0 \<in> set (dd_rows w)" "r = applied inp r0" using write_dsr_effect [OF progressed(5)] by auto
  have "certified gone (dd_world w) r"
    using officeD(2) [OF progressed(6) r0(1)] r0(2) progressed(3) by (auto simp: certified_def split: option.splits)
  then show ?case using write_keeps_office [OF progressed(6,5)] by simp
next
  case (fulfil_tried inp k c i w res w' rs)
  have keeps: "gone q (dd_world w) \<Longrightarrow> gone q x" if "erase p reason (dd_world w) = (r0, x)" for p q reason r0 x
    using assms(2) that unfolding eraser_contract_def by blast
  show ?case
  proof (rule fulfil_cases [OF fulfil_tried(2)], goal_cases)
    case (1 e)
    then show ?case using fulfil_tried(3) by simp
  next
    case (2 e current person res0 x)
    have "certified gone (dd_world w) r \<Longrightarrow> certified gone x r" for r
      using keeps [OF 2(4)] by (auto simp: certified_def)
    then show ?case using fulfil_tried(3) 2(5) by (auto simp: office_ok_def)
  next
    case (3 current person x r)
    let ?inp = "inp\<lparr>ui_status := Some ''fulfilled''\<rparr>"
    obtain r0 where r0: "r0 \<in> set (dd_rows w)" "dq_id r0 = i" "r = applied ?inp r0"
      using write_dsr_effect [OF 3(5)] by auto
    have cur: "current \<in> set (dd_rows w)" "dq_id current = i"
      using 3(2) by (auto simp: read_for_update_iff dsr_by_id_iff [OF officeD(1) [OF fulfil_tried(3)]])
    then have "r0 = current" using r0(1,2) officeD(1) [OF fulfil_tried(3)] by (auto simp: distinct_map dest: inj_onD)
    moreover have "gone person x" using assms(2) 3(4) by (auto simp: eraser_contract_def)
    ultimately have "certified gone x r" using r0(3) 3(3) by (auto simp: certified_def)
    then show ?case using write_keeps_office [OF fulfil_tried(3) 3(5)] keeps [OF 3(4)] by simp
  qed
next
  case (other_work w' w rs)
  then show ?case by (auto simp: office_ok_def certified_def)
qed

text \<open>The life of one request, as the writes move it.\<close>

definition moves_on :: "dsr_row \<Rightarrow> dsr_row \<Rightarrow> bool" where
  "moves_on r r' \<longleftrightarrow> same_request r r' \<and> (dq_status r, dq_status r') \<in> (set dsr_transitions)\<^sup>*"

definition requests_move_on :: "'x office \<Rightarrow> 'x office \<Rightarrow> bool" where
  "requests_move_on o1 o2 \<longleftrightarrow> (\<forall>r \<in> set (dd_rows (fst o1)). \<exists>r' \<in> set (dd_rows (fst o2)). moves_on r r')"

lemma moves_refl: "moves_on r r" by (simp add: moves_on_def same_request_def)

lemma moves_trans: "moves_on a b \<Longrightarrow> moves_on b c \<Longrightarrow> moves_on a c"
  by (auto simp: moves_on_def same_request_def intro: rtrancl_trans)

lemma closed_stays:
  assumes "(a, b) \<in> (set dsr_transitions)\<^sup>*" "closed a"
  shows "b = a"
proof -
  have "(a, x) \<notin> set dsr_transitions" for x using assms(2) by (auto simp: closed_def dsr_transitions_def)
  then show ?thesis using assms(1) by (metis converse_rtranclE)
qed

lemma validated_move:
  assumes "validate_dsr_update current inp = Inr ()" "dq_id r = i"
    and "case status_guard inp current of None \<Rightarrow> True | Some st \<Rightarrow> dq_status r = st"
  shows "moves_on r (applied inp r)"
  using assms
  by (auto simp: moves_on_def same_request_def validate_dsr_update_def status_guard_def guardR_def
      split: option.splits if_splits)

lemma write_moves_on:
  assumes "write_dsr k c i guard_status inp current w1 = Inr (r', w')" "dd_rows w1 = dd_rows w"
    and "\<And>r. dq_id r = i \<Longrightarrow> (case guard_status of None \<Rightarrow> True | Some st \<Rightarrow> dq_status r = st) \<Longrightarrow> moves_on r (applied inp r)"
    and "distinct (map dq_id (dd_rows w))"
  shows "requests_move_on (w, rs) (w', rs')"
  unfolding requests_move_on_def
proof
  fix r assume "r \<in> set (dd_rows (fst (w, rs)))"
  then have r: "r \<in> set (dd_rows w)" by simp
  obtain r0 where r0: "r0 \<in> set (dd_rows w)" "dq_id r0 = i" "case guard_status of None \<Rightarrow> True | Some st \<Rightarrow> dq_status r0 = st"
    and rows: "dd_rows w' = update_where (\<lambda>r. dq_id r = i) (applied inp) (dd_rows w)"
    using write_dsr_effect [OF assms(1)] assms(2) by auto
  have "dq_id r = i \<Longrightarrow> r = r0" using r r0(1,2) assms(4) by (auto simp: distinct_map dest: inj_onD)
  then have "moves_on r (if dq_id r = i then applied inp r else r)" using assms(3) [of r0] r0 moves_refl
    by (cases "dq_id r = i") simp_all
  moreover have "(if dq_id r = i then applied inp r else r) \<in> set (dd_rows w')" using r unfolding rows update_where_def by auto
  ultimately show "\<exists>r' \<in> set (dd_rows (fst (w', rs'))). moves_on r r'" by auto
qed

lemma dsr_step_moves:
  assumes "dsr_step erase gone o1 e o2" "office_ok gone o1"
  shows "requests_move_on o1 o2"
  using assms
proof (induction rule: dsr_step.induct)
  case (filed k c inp new_id w r w' rs)
  then show ?case using create_dsr_effect [OF filed(1)] moves_refl by (auto simp: requests_move_on_def)
next
  case (answered seen rs i current inp k c w r w')
  show ?case by (rule write_moves_on [OF answered(8) refl _ officeD(1) [OF answered(9)]]) (rule validated_move [OF answered(7)])
next
  case (progressed current rs i inp k c w r w')
  show ?case by (rule write_moves_on [OF progressed(5) refl _ officeD(1) [OF progressed(6)]]) (rule validated_move [OF progressed(4)])
next
  case (fulfil_tried inp k c i w res w' rs)
  show ?case
  proof (rule fulfil_cases [OF fulfil_tried(2)], goal_cases)
    case (3 current person x r)
    have v: "validate_dsr_update current inp = Inr ()" and s: "inp\<lparr>ui_status := Some ''fulfilled''\<rparr> = inp"
      using 3(2) fulfil_tried(1) by (simp_all add: read_for_update_iff)
    show ?case
      by (rule write_moves_on [OF 3(5) _ _ officeD(1) [OF fulfil_tried(3)]])
        (use validated_move [OF v] fulfil_tried(1) in \<open>simp_all add: s status_guard_def\<close>)
  qed (use moves_refl in \<open>auto simp: requests_move_on_def\<close>)
qed (use moves_refl in \<open>auto simp: requests_move_on_def\<close>)

interpretation office: invariant_machine "\<lambda>o1 e o2. dsr_step erase gone o1 e o2 \<and> eraser_contract erase gone" "office_ok gone"
  for erase gone
  by unfold_locales (blast intro: dsr_step_ok)

lemma office_runs:
  assumes "run_of (dsr_step erase gone) o1 es o2" "eraser_contract erase gone"
  shows "run_of (\<lambda>o1 e o2. dsr_step erase gone o1 e o2 \<and> eraser_contract erase gone) o1 es o2"
  using assms by (induction rule: run_of.induct) (auto intro: run_of.intros)

lemma requests_trans: "requests_move_on a b \<Longrightarrow> requests_move_on b c \<Longrightarrow> requests_move_on a c"
  unfolding requests_move_on_def using moves_trans by meson

section \<open>Updating, exactly\<close>

definition may_answer :: "update_dsr_input \<Rightarrow> dsr_row \<Rightarrow> bool" where
  "may_answer inp r \<longleftrightarrow> (case ui_status inp of None \<Rightarrow> True | Some st \<Rightarrow> st = dq_status r
     \<or> ((dq_status r, st) \<in> set dsr_transitions
        \<and> (closed st \<longrightarrow> has_resolution (ui_resolution inp) \<or> has_resolution (dq_resolution r))))"

lemma validate_iff: "validate_dsr_update r inp = Inr () \<longleftrightarrow> may_answer inp r"
  by (auto simp: validate_dsr_update_def may_answer_def guardR_def split: option.splits)

lemma has_resolution_Some: "has_resolution v \<Longrightarrow> v \<noteq> None"
  by (auto simp: has_resolution_def)

lemma may_answer_shape:
  assumes "may_answer inp r" "resolution_shape r"
  shows "resolution_shape (applied inp r)"
  using assms
  by (auto simp: may_answer_def resolution_shape_def coalesce_def has_resolution_def split: option.splits)

lemma write_dsr_ok:
  assumes "ctx_actor c = Some p" "distinct (map dq_id (dd_rows w))" "r \<in> set (dd_rows w)" "dq_id r = i"
    and "guard_status = None \<or> guard_status = Some (dq_status r)" "resolution_shape (applied inp r)"
    and "assignee_known (ui_assignee inp) w"
  shows "\<exists>l. write_dsr k c i guard_status inp current w =
    Inr (applied inp r, w\<lparr>dd_rows := update_where (\<lambda>r. dq_id r = i) (applied inp) (dd_rows w), dd_ledger := l\<rparr>)"
proof -
  let ?P = "\<lambda>x. dq_id x = i \<and> (case guard_status of None \<Rightarrow> True | Some st \<Rightarrow> dq_status x = st)"
  have found: "find ?P (dd_rows w) = Some r"
  proof (cases "find ?P (dd_rows w)")
    case (Some x)
    then have "x = r" using find_SomeD [OF Some] assms(2-4) by (auto simp: distinct_map dest: inj_onD)
    then show ?thesis using Some by simp
  qed (use assms(3-5) in \<open>auto simp: find_None_iff\<close>)
  obtain aud l where "dsr_ledger_tx (audit_entry k c ''update'' ''data_subject_request'' i (Some [(field_status, JStr (dq_status current))])
      (Some [(field_resolution, JBool (ui_resolution inp \<noteq> None)), (field_status, JStr (dq_status (applied inp r)))]))
      (w\<lparr>dd_rows := update_where (\<lambda>r. dq_id r = i) (applied inp) (dd_rows w)\<rparr>)
      = Inr (aud, w\<lparr>dd_rows := update_where (\<lambda>r. dq_id r = i) (applied inp) (dd_rows w)\<rparr>\<lparr>dd_ledger := l\<rparr>)"
    using dsr_ledger_ok [OF assms(1)] by blast
  then show ?thesis
    unfolding write_dsr_def found by (intro exI [of _ l]) (simp add: assms(6,7) del: applied_simps)
qed

lemma update_dsr_ok:
  assumes "require_dsr_admin c ActionUpdate = Inr ()" "distinct (map dq_id (dd_rows w))" "r \<in> set (dd_rows w)"
    and "dq_id r = i" "may_answer inp r" "resolution_shape r" "assignee_known (ui_assignee inp) w"
  shows "\<exists>w'. update_dsr k c i inp w = (Inr (applied inp r), w')
    \<and> dd_rows w' = update_where (\<lambda>r. dq_id r = i) (applied inp) (dd_rows w) \<and> dd_world w' = dd_world w"
proof -
  obtain p where p: "ctx_actor c = Some p"
    using assms(1) by (auto simp: require_dsr_admin_def split: option.splits)
  have read: "read_for_update i inp w = Inr r"
    using assms(2-5) by (simp add: read_for_update_iff dsr_by_id_iff validate_iff)
  have g: "status_guard inp r = None \<or> status_guard inp r = Some (dq_status r)" by (simp add: status_guard_def)
  obtain l where "write_dsr k c i (status_guard inp r) inp r w
      = Inr (applied inp r, w\<lparr>dd_rows := update_where (\<lambda>r. dq_id r = i) (applied inp) (dd_rows w), dd_ledger := l\<rparr>)"
    using write_dsr_ok [OF p assms(2-4) g may_answer_shape [OF assms(5,6)] assms(7), of k r] by blast
  then show ?thesis by (simp add: update_dsr_def assms(1) run_tx_def read)
qed

lemma update_dsr_refused:
  assumes "update_dsr k c i inp w = (Inr r', w')" "distinct (map dq_id (dd_rows w))"
  shows "require_dsr_admin c ActionUpdate = Inr () \<and> (\<exists>r \<in> set (dd_rows w). dq_id r = i \<and> may_answer inp r)
    \<and> assignee_known (ui_assignee inp) w"
proof -
  obtain current where cur: "require_dsr_admin c ActionUpdate = Inr ()" "read_for_update i inp w = Inr current"
    and wr: "write_dsr k c i (status_guard inp current) inp current w = Inr (r', w')"
    using assms(1) by (auto simp: update_dsr_def split: sum.splits dest!: run_tx_InrD)
  then show ?thesis using assms(2) write_dsr_effect [OF wr] by (auto simp: read_for_update_iff dsr_by_id_iff validate_iff)
qed

lemma update_dsr_fails: "update_dsr k c i inp w = (Inl e, w') \<Longrightarrow> w' = w"
  by (auto simp: update_dsr_def split: sum.splits dest: run_tx_InlD)

section \<open>Paging the queue\<close>

definition queue :: "string \<Rightarrow> 'x dsr_db \<Rightarrow> dsr_row list" where
  "queue status w = filter (\<lambda>r. status = [] \<or> dq_status r = status) (sort_key dq_id (dd_rows w))"

text \<open>A cursor the listing handed out, read back; the listing as a page of the walk.\<close>

definition after :: "uuid option \<Rightarrow> dsr_row list \<Rightarrow> dsr_row list" where
  "after from_id rs = filter (\<lambda>r. case from_id of None \<Rightarrow> True | Some i \<Rightarrow> i < dq_id r) rs"

definition cursor_text :: "uuid option \<Rightarrow> string" where
  "cursor_text i = (case i of None \<Rightarrow> [] | Some i \<Rightarrow> uuid_string i)"

definition dsr_page :: "ctx \<Rightarrow> int option \<Rightarrow> string \<Rightarrow> 'x dsr_db \<Rightarrow> uuid option \<Rightarrow> dsr_row list \<times> uuid option option" where
  "dsr_page c limit status w from_id =
     (case list_dsrs c limit (cursor_text from_id) status w of
        Inl _ \<Rightarrow> ([], None)
      | Inr (rows, next) \<Rightarrow> (rows, map_option parse_uuid next))"

lemma uuid_text_some: "uuid_string i \<noteq> []"
  using parse_of_string [of i] by (auto simp: parse_uuid_def)

lemma clamp_pos: "1 \<le> clamp_limit limit"
  by (auto simp: clamp_limit_def split: option.splits)

lemma dsr_query_queue:
  "dsr_query (cursor_text from_id) status b w = Inr (take (nat (b + 1)) (after from_id (queue status w)))"
  by (cases from_id) (auto simp: dsr_query_def cursor_text_def queue_def after_def parse_of_string uuid_text_some
    intro: arg_cong [where f = "take _"] filter_cong)

lemma sorted_after:
  assumes "sorted (map dq_id rs)" "distinct (map dq_id rs)" "n < length rs"
  shows "after (Some (dq_id (rs ! n))) rs = drop (Suc n) rs"
proof -
  have split: "rs = take (Suc n) rs @ drop (Suc n) rs" by simp
  have "dq_id x \<le> dq_id (rs ! n)" if "x \<in> set (take (Suc n) rs)" for x
    using that assms(1,3) by (auto simp: in_set_conv_nth sorted_iff_nth_mono less_Suc_eq_le)
  then have "filter (\<lambda>r. dq_id (rs ! n) < dq_id r) (take (Suc n) rs) = []"
    by (auto simp: filter_empty_conv not_less)
  moreover have "dq_id (rs ! n) < dq_id x" if h: "x \<in> set (drop (Suc n) rs)" for x
  proof -
    obtain m where m: "m < length rs - Suc n" "x = rs ! (Suc n + m)"
      using h by (auto simp: in_set_conv_nth)
    then have "dq_id (rs ! n) \<le> dq_id x" "dq_id (rs ! n) \<noteq> dq_id x"
      using assms by (auto simp: sorted_iff_nth_mono distinct_conv_nth)
    then show ?thesis by simp
  qed
  then have "filter (\<lambda>r. dq_id (rs ! n) < dq_id r) (drop (Suc n) rs) = drop (Suc n) rs"
    by (simp add: filter_id_conv)
  ultimately show ?thesis
    by (subst split) (simp only: after_def option.case filter_append append_Nil)
qed

lemma after_after: "i \<le> j \<Longrightarrow> after (Some j) (after (Some i) rs) = after (Some j) rs"
  by (auto simp: after_def intro!: filter_cong)

definition queue_ready :: "ctx \<Rightarrow> 'x dsr_db \<Rightarrow> bool" where
  "queue_ready c w \<longleftrightarrow> require_dsr_admin c ActionRead = Inr () \<and> distinct (map dq_id (dd_rows w))"

lemma queue_ordered:
  assumes "distinct (map dq_id (dd_rows w))"
  shows "sorted (map dq_id (after from_id (queue status w)))" "distinct (map dq_id (after from_id (queue status w)))"
proof -
  have "distinct (map dq_id (sort_key dq_id (dd_rows w)))" using assms by (simp add: distinct_map)
  then show "sorted (map dq_id (after from_id (queue status w)))" "distinct (map dq_id (after from_id (queue status w)))"
    by (simp_all add: after_def queue_def sorted_filter distinct_map_filter)
qed

lemma dsr_page_cases:
  assumes "queue_ready c w" "dsr_page c limit status w from_id = (xs, next)"
  obtains (last) "next = None" "after from_id (queue status w) = xs"
    | (more) i where "next = Some (Some i)" "after from_id (queue status w) = xs @ after (Some i) (queue status w)" "xs \<noteq> []"
proof -
  let ?rs = "after from_id (queue status w)" and ?n = "nat (clamp_limit limit)"
  have adm: "lift_c (require_dsr_admin c ActionRead) = Inr ()" using assms(1) by (simp add: queue_ready_def lift_c_def)
  have n: "0 < ?n" "nat (clamp_limit limit + 1) = Suc ?n" using clamp_pos [of limit] by simp_all
  show thesis
  proof (cases "?n < length ?rs")
    case False
    then have "next = None" "?rs = xs"
      using assms(2) by (simp_all add: dsr_page_def list_dsrs_def adm dsr_query_queue n(2) Let_def)
    then show thesis by (rule last)
  next
    case True
    let ?i = "dq_id (?rs ! (?n - 1))"
    have page: "next = Some (Some ?i)" "xs = take ?n ?rs"
    proof -
      have len: "length (take (Suc ?n) ?rs) = Suc ?n" using True by simp
      have cut: "take ?n (take (Suc ?n) ?rs) = take ?n ?rs" "take (Suc ?n) ?rs ! (?n - 1) = ?rs ! (?n - 1)"
        using n(1) by (simp_all add: min_def)
      have "list_dsrs c limit (cursor_text from_id) status w = Inr (take ?n ?rs, Some (uuid_string ?i))"
        unfolding list_dsrs_def adm dsr_query_queue n(2) Let_def bindR.simps len cut by simp
      then show "next = Some (Some ?i)" "xs = take ?n ?rs"
        using assms(2) by (simp_all add: dsr_page_def parse_of_string)
    qed
    have "after (Some ?i) ?rs = drop ?n ?rs"
      using sorted_after [of ?rs "?n - 1"] queue_ordered [of w from_id status] assms(1) True n(1) by (simp add: queue_ready_def)
    moreover have "after (Some ?i) ?rs = after (Some ?i) (queue status w)"
    proof (cases from_id)
      case (Some j)
      have "?rs ! (?n - 1) \<in> set ?rs" using True n(1) by simp
      then have "j \<le> ?i" using Some by (simp add: after_def less_imp_le)
      then show ?thesis using Some after_after by simp
    qed (simp add: after_def)
    ultimately have "?rs = xs @ after (Some ?i) (queue status w)" using page(2) by (metis append_take_drop_id)
    moreover have "xs \<noteq> []" using page(2) n(1) True by auto
    ultimately show thesis using more page(1) by blast
  qed
qed

interpretation dsr_queue: keyset_pages "dsr_page c limit status w" "\<lambda>from_id. after from_id (queue status w)"
    "\<lambda>from_id. length (after from_id (queue status w))" "\<lambda>from_id. queue_ready c w" for c limit status w
proof
  fix from_id xs n
  assume ready: "queue_ready c w"
  show "after from_id (queue status w) = xs" if page: "dsr_page c limit status w from_id = (xs, None)"
    by (rule dsr_page_cases [OF ready page]) auto
  show "after from_id (queue status w) = xs @ after n (queue status w)"
    if page: "dsr_page c limit status w from_id = (xs, Some n)"
    by (rule dsr_page_cases [OF ready page]) auto
  show "length (after n (queue status w)) < length (after from_id (queue status w))"
    if page: "dsr_page c limit status w from_id = (xs, Some n)"
    by (rule dsr_page_cases [OF ready page]) auto
qed

section \<open>Properties\<close>

text \<open>
  C12. A request lives once. Whoever works the queue at the same time, and however stale what they read: a
  filed request stays filed with its kind and its subject, its status moves only along the closed status
  machine and never out of a closed state, every closed row has its resolution column filled (with text
  that may be blank: a blank answer in the closing update overwrites the one on the row), and an erasure
  request reads fulfilled only when the person it names has been erased.
\<close>

theorem a_request_closes_once_and_truthfully:
  assumes "run_of (dsr_step erase gone) (w, rs) es (w', rs')" "eraser_contract erase gone" "office_ok gone (w, rs)"
  shows "(\<forall>r \<in> set (dd_rows w). \<exists>r' \<in> set (dd_rows w'). dq_id r' = dq_id r \<and> dq_kind r' = dq_kind r
        \<and> dq_subject_ref r' = dq_subject_ref r \<and> (dq_status r, dq_status r') \<in> (set dsr_transitions)\<^sup>*
        \<and> (closed (dq_status r) \<longrightarrow> dq_status r' = dq_status r))
    \<and> (\<forall>r \<in> set (dd_rows w'). (closed (dq_status r) \<longrightarrow> dq_resolution r \<noteq> None)
        \<and> (dq_kind r = ''erasure'' \<and> dq_status r = ''fulfilled'' \<longrightarrow>
             (\<exists>p. parse_uuid (dq_subject_ref r) = Some p \<and> gone p (dd_world w'))))"
proof -
  note run = office_runs [OF assms(1,2)]
  have "requests_move_on o1 o1" for o1 :: "'a office" using moves_refl by (auto simp: requests_move_on_def)
  then have "requests_move_on (w, rs) (w', rs')"
    by (rule office.run_keeps [OF run assms(3)]) (blast intro: requests_trans dsr_step_moves)+
  moreover have "office_ok gone (w', rs')" by (rule office.run_inv [OF run assms(3)])
  ultimately show ?thesis
    by (auto simp: requests_move_on_def moves_on_def same_request_def office_ok_def certified_def resolution_shape_def
        dest: closed_stays) (metis closed_stays)
qed

text \<open>A closed instance: an officer, an erase that keeps a list of the erased, an open erasure request.\<close>

definition officer :: principal where
  "officer = \<lparr>p_type = PrincipalHuman, p_id = ''human:1'', p_user_id = 1, p_team_ids = [], p_passport_id = 0,
     p_on_behalf_of = 0, p_scopes = {}, p_seat_type = SeatFull,
     p_permissions = no_permissions\<lparr>pm_role_keys := [''admin''],
       pm_objects := [''person'' \<mapsto> \<lparr>g_create = True, g_read = True, g_update = True, g_delete = True\<rparr>]\<rparr>\<rparr>"

definition officer_ctx :: ctx where
  "officer_ctx = background\<lparr>ctx_actor := Some officer, ctx_correlation := Some 9\<rparr>"

definition note_erased :: "uuid list erase_fun" where
  "note_erased p reason x = (Inr (), p # x)"

definition is_erased :: "uuid \<Rightarrow> uuid list \<Rightarrow> bool" where
  "is_erased p x \<longleftrightarrow> p \<in> set x"

lemma note_erased_contract: "eraser_contract note_erased is_erased"
  by (auto simp: eraser_contract_def note_erased_def is_erased_def)

definition filed_row :: "string \<Rightarrow> string option \<Rightarrow> dsr_row" where
  "filed_row kind answer = \<lparr>dq_id = 1, dq_kind = kind, dq_status = ''open'', dq_subject_ref = uuid_string 7,
     dq_assignee = None, dq_due_at = 30, dq_resolution = answer, dq_created_at = 0\<rparr>"

definition officers_queue :: "dsr_row \<Rightarrow> uuid list dsr_db" where
  "officers_queue r = \<lparr>dd_rows = [r], dd_ledger = \<lparr>lg_audit = [], lg_outbox = []\<rparr>, dd_now = 1, dd_users = [1], dd_world = []\<rparr>"

definition close_as :: "string \<Rightarrow> string \<Rightarrow> update_dsr_input" where
  "close_as st answer = \<lparr>ui_status = Some st, ui_assignee = None, ui_resolution = Some answer\<rparr>"

lemma officer_works: "require_dsr_admin officer_ctx ActionUpdate = Inr ()" "require_dsr_admin officer_ctx ActionRead = Inr ()"
  by code_simp+

lemma officer_may_close: "may_answer (close_as ''fulfilled'' ''done'') (filed_row kind answer)"
proof -
  have "(''open'', ''fulfilled'') \<in> set dsr_transitions" "has_resolution (Some ''done'')" by code_simp+
  then show ?thesis by (simp add: may_answer_def close_as_def filed_row_def)
qed

theorem a_request_closes_once_and_truthfully_witness:
  "\<exists>w'. run_of (dsr_step note_erased is_erased) (officers_queue (filed_row ''erasure'' None), []) [FulfilTried 1] (w', [])
     \<and> (\<forall>r \<in> set (dd_rows w'). dq_status r = ''fulfilled'') \<and> dd_rows w' \<noteq> [] \<and> is_erased 7 (dd_world w')"
proof -
  let ?r = "filed_row ''erasure'' None" and ?inp = "close_as ''fulfilled'' ''done''"
  let ?w = "officers_queue ?r" and ?k = "\<lparr>kt_audit_id = (\<lambda>n. 100), kt_event_id = (\<lambda>n. 200), kt_now = 20, kt_extension = None\<rparr>"
  have rows: "dd_rows ?w = [?r]" "dq_id ?r = 1" "dq_status ?r = ''open''" by (simp_all add: officers_queue_def filed_row_def)
  have read: "read_for_update 1 ?inp ?w = Inr ?r"
    using officer_may_close by (simp add: read_for_update_iff dsr_by_id_iff rows validate_iff)
  have ref: "parse_uuid (dq_subject_ref ?r) = Some 7" by (simp add: filed_row_def parse_of_string)
  let ?w1 = "?w\<lparr>dd_world := [7]\<rparr>"
  have inp: "?inp\<lparr>ui_status := Some ''fulfilled''\<rparr> = ?inp" by (simp add: close_as_def)
  have shape: "resolution_shape (applied ?inp ?r)" by (simp add: resolution_shape_def close_as_def)
  have known: "assignee_known (ui_assignee ?inp) ?w1" by (simp add: assignee_known_def close_as_def)
  have act: "ctx_actor officer_ctx = Some officer" by (simp add: officer_ctx_def)
  obtain l where wr: "write_dsr ?k officer_ctx 1 (Some (dq_status ?r)) ?inp ?r ?w1
      = Inr (applied ?inp ?r, ?w1\<lparr>dd_rows := update_where (\<lambda>r. dq_id r = 1) (applied ?inp) (dd_rows ?w1), dd_ledger := l\<rparr>)"
    using write_dsr_ok [OF act, of ?w1 ?r 1 "Some (dq_status ?r)" ?inp ?k ?r] shape rows known by auto
  obtain w' where w': "fulfil_erasure note_erased ?k officer_ctx 1 ?inp ?w = (Inr (applied ?inp ?r), w')"
    and rows': "dd_rows w' = [applied ?inp ?r]" "dd_world w' = [7]"
    using wr by (simp add: fulfil_erasure_def officer_works lift_c_def read ref note_erased_def finalize_erasure_fulfil_def inp run_tx_def
        rows) (simp add: officers_queue_def)
  have "dsr_step note_erased is_erased (?w, []) (FulfilTried 1) (w', [])"
    by (rule dsr_step.fulfil_tried [OF _ w']) (simp add: close_as_def)
  then have run: "run_of (dsr_step note_erased is_erased) (?w, []) [FulfilTried 1] (w', [])" by (rule run_of_single)
  have ok: "office_ok is_erased (?w, [])"
    by (simp add: office_ok_def rows certified_def resolution_shape_def closed_def)
  have "applied ?inp ?r \<in> set (dd_rows w')" "dq_kind (applied ?inp ?r) = ''erasure''" "dq_status (applied ?inp ?r) = ''fulfilled''"
    "dq_subject_ref (applied ?inp ?r) = uuid_string 7"
    by (simp_all add: rows' close_as_def filed_row_def)
  then have "is_erased 7 (dd_world w')"
    using a_request_closes_once_and_truthfully [OF run note_erased_contract ok, THEN conjunct2] parse_of_string [of 7] by force
  then show ?thesis using run rows' by (auto simp: close_as_def)
qed

text \<open>
  C36. An update is accepted exactly when it may be. Only a human admin with the update grant on people
  gets through; the status may stay or take one step of the machine, closing needs an answer that is
  not blank, in the update or on the row, and an assignee the update gives must be a user. A refusal changes nothing; an accepted update changes that row
  alone, filling what the update gives.
\<close>

theorem updates_are_accepted_exactly:
  assumes "update_dsr k c i inp w = (res, w')" "distinct (map dq_id (dd_rows w))" "\<forall>r \<in> set (dd_rows w). resolution_shape r"
  shows "(isl res \<longleftrightarrow> require_dsr_admin c ActionUpdate \<noteq> Inr ()
      \<or> (case ui_assignee inp of None \<Rightarrow> False | Some u \<Rightarrow> u \<notin> set (dd_users w)) \<or> (\<forall>r \<in> set (dd_rows w). dq_id r = i \<longrightarrow>
        (\<exists>st. ui_status inp = Some st \<and> st \<noteq> dq_status r \<and> ((dq_status r, st) \<notin> set dsr_transitions
           \<or> (closed st \<and> \<not> has_resolution (ui_resolution inp) \<and> \<not> has_resolution (dq_resolution r))))))
    \<and> (isl res \<longrightarrow> w' = w)
    \<and> (\<not> isl res \<longrightarrow> dd_rows w' = update_where (\<lambda>r. dq_id r = i) (applied inp) (dd_rows w) \<and> dd_world w' = dd_world w)"
proof -
  have may: "(\<exists>st. ui_status inp = Some st \<and> st \<noteq> dq_status r \<and> ((dq_status r, st) \<notin> set dsr_transitions
           \<or> (closed st \<and> \<not> has_resolution (ui_resolution inp) \<and> \<not> has_resolution (dq_resolution r)))) \<longleftrightarrow> \<not> may_answer inp r" for r
    by (auto simp: may_answer_def split: option.splits)
  have known: "(case ui_assignee inp of None \<Rightarrow> False | Some u \<Rightarrow> u \<notin> set (dd_users w)) \<longleftrightarrow> \<not> assignee_known (ui_assignee inp) w"
    by (simp add: assignee_known_def split: option.splits)
  show ?thesis
  proof (cases "require_dsr_admin c ActionUpdate = Inr () \<and> assignee_known (ui_assignee inp) w \<and> (\<exists>r \<in> set (dd_rows w). dq_id r = i \<and> may_answer inp r)")
    case True
    then obtain r where "r \<in> set (dd_rows w)" "dq_id r = i" "may_answer inp r" by blast
    then show ?thesis unfolding may known using update_dsr_ok [of c w r i inp k] True assms by auto
  next
    case False
    have bad: "isl res"
    proof (cases res)
      case (Inr r')
      then show ?thesis using update_dsr_refused [of k c i inp w r' w'] assms(1,2) False by blast
    qed simp
    then obtain e where "res = Inl e" by (cases res) auto
    then show ?thesis using update_dsr_fails [of k c i inp w e w'] bad False assms(1) unfolding may known by auto
  qed
qed

theorem updates_are_accepted_exactly_witness:
  "\<not> isl (fst (update_dsr \<lparr>kt_audit_id = (\<lambda>n. 100), kt_event_id = (\<lambda>n. 200), kt_now = 20, kt_extension = None\<rparr>
     officer_ctx 1 (close_as ''fulfilled'' ''done'') (officers_queue (filed_row ''access'' None))))"
proof -
  let ?w = "officers_queue (filed_row ''access'' None)"
  have rows: "dd_rows ?w = [filed_row ''access'' None]" "dq_id (filed_row ''access'' None) = 1" "dq_status (filed_row ''access'' None) = ''open''"
    by (simp_all add: officers_queue_def filed_row_def)
  have shape: "distinct (map dq_id (dd_rows ?w))" "\<forall>r \<in> set (dd_rows ?w). resolution_shape r"
    by (simp_all add: rows resolution_shape_def closed_def)
  show ?thesis
    by (subst updates_are_accepted_exactly [THEN conjunct1, OF prod.collapse [symmetric] shape])
      (use officer_may_close [of "''access''" None] in \<open>auto simp: officer_works rows may_answer_def close_as_def\<close>)
qed

text \<open>
  A blank answer overwrites the answer. Closing asks for an answer in the update or on the row, and then
  stores whatever the update carries: a request whose answer is on the row, closed with a blank one, ends
  closed with no answer.
\<close>

theorem a_blank_answer_overwrites_the_answer:
  assumes "require_dsr_admin c ActionUpdate = Inr ()" "distinct (map dq_id (dd_rows w))" "r \<in> set (dd_rows w)" "dq_id r = i"
    and "dq_status r = ''open''" "has_resolution (dq_resolution r)" "closed st" "blank answer"
  shows "\<exists>r' w'. update_dsr k c i (close_as st answer) w = (Inr r', w') \<and> r' \<in> set (dd_rows w')
    \<and> dq_status r' = st \<and> \<not> has_resolution (dq_resolution r')"
proof -
  have "may_answer (close_as st answer) r"
    using assms(5-7) by (auto simp: may_answer_def close_as_def closed_def dsr_transitions_def)
  moreover have "resolution_shape r" using assms(5) by (simp add: resolution_shape_def closed_def)
  moreover have "assignee_known (ui_assignee (close_as st answer)) w" by (simp add: assignee_known_def close_as_def)
  ultimately obtain w' where w': "update_dsr k c i (close_as st answer) w = (Inr (applied (close_as st answer) r), w')"
    "dd_rows w' = update_where (\<lambda>r. dq_id r = i) (applied (close_as st answer)) (dd_rows w)"
    using update_dsr_ok [OF assms(1-4)] by blast
  have "applied (close_as st answer) r \<in> set (dd_rows w')" using assms(3,4) unfolding w'(2) update_where_def by auto
  then show ?thesis using w'(1) assms(8) by (intro exI) (auto simp: close_as_def has_resolution_def)
qed

theorem a_blank_answer_overwrites_the_answer_witness:
  "\<exists>r' w'. update_dsr \<lparr>kt_audit_id = (\<lambda>n. 100), kt_event_id = (\<lambda>n. 200), kt_now = 20, kt_extension = None\<rparr>
     officer_ctx 1 (close_as ''rejected'' '' '') (officers_queue (filed_row ''access'' (Some ''they have no account''))) = (Inr r', w')
     \<and> dq_status r' = ''rejected'' \<and> \<not> has_resolution (dq_resolution r')"
proof -
  let ?r = "filed_row ''access'' (Some ''they have no account'')"
  have rows: "distinct (map dq_id (dd_rows (officers_queue ?r)))" "?r \<in> set (dd_rows (officers_queue ?r))" "dq_id ?r = 1"
    "dq_status ?r = ''open''" by (simp_all add: officers_queue_def filed_row_def)
  have texts: "has_resolution (dq_resolution ?r)" "closed ''rejected''" "blank '' ''"
    unfolding filed_row_def dsr_row.simps by code_simp+
  show ?thesis
    using a_blank_answer_overwrites_the_answer [OF officer_works(1) rows texts] by blast
qed

text \<open>
  The queue is read once. An admin who follows the cursors of the listing, whatever the page size asked
  for, reads every request of the state asked for exactly once, in the order of their ids.
\<close>

theorem the_queue_is_read_once:
  assumes "require_dsr_admin c ActionRead = Inr ()" "distinct (map dq_id (dd_rows w))" "length (dd_rows w) < n"
  shows "walk n (dsr_page c limit status w) None = filter (\<lambda>r. status = [] \<or> dq_status r = status) (sort_key dq_id (dd_rows w))"
proof -
  have "length (after None (queue status w)) \<le> length (sort_key dq_id (dd_rows w))"
    unfolding after_def queue_def by (intro order.trans [OF length_filter_le] length_filter_le)
  then have "walk n (dsr_page c limit status w) None = after None (queue status w)"
    using assms dsr_queue.walk_reads_all [of c w None status n limit] by (simp add: queue_ready_def)
  then show ?thesis by (simp add: after_def queue_def)
qed

theorem the_queue_is_read_once_witness:
  "walk 2 (dsr_page officer_ctx (Some 1) ''open'' (officers_queue (filed_row ''access'' None))) None = [filed_row ''access'' None]"
  using the_queue_is_read_once [OF officer_works(2), of "officers_queue (filed_row ''access'' None)" 2 "Some 1" "''open''"]
  by (simp add: officers_queue_def filed_row_def)

end
