(* ===== verification/Money.thy ===== *)
theory Money
  imports Text
begin

text \<open>
  Money and its written form: \<^verbatim>\<open>money.go\<close>, \<^verbatim>\<open>decimal.go\<close> and
  \<^verbatim>\<open>minorunits.go\<close> of \<^verbatim>\<open>backend/internal/shared/kernel/values\<close>. An amount is a count of
  minor units in 64 bits, so it is a word here and the arithmetic on it wraps as the code's does.
\<close>

section \<open>Currencies and amounts\<close>

type_synonym int64 = "64 word"

datatype parse_error = ParseError string string

definition upper_letter :: "char \<Rightarrow> bool" where
  "upper_letter c \<longleftrightarrow> 65 \<le> (of_char c :: nat) \<and> (of_char c :: nat) \<le> 90"

definition valid_currency :: "string \<Rightarrow> bool" where
  "valid_currency s \<longleftrightarrow> length s = 3 \<and> list_all upper_letter s"

record money =
  mn_amount :: int64
  mn_currency :: string

definition no_money :: money where "no_money = \<lparr>mn_amount = 0, mn_currency = []\<rparr>"

definition new_money :: "int64 \<Rightarrow> string \<Rightarrow> parse_error + money" where
  "new_money amount currency =
     (if \<not> valid_currency currency then Inl (ParseError ''currency'' ''currency_malformed'')
      else Inr \<lparr>mn_amount = amount, mn_currency = currency\<rparr>)"

definition money_is_zero :: "money \<Rightarrow> bool" where
  "money_is_zero m \<longleftrightarrow> m = no_money"

definition money_add :: "money \<Rightarrow> money \<Rightarrow> parse_error + money" where
  "money_add m n =
     (if mn_currency m \<noteq> mn_currency n then Inl (ParseError ''currency'' ''currency_mismatch'')
      else Inr \<lparr>mn_amount = mn_amount m + mn_amount n, mn_currency = mn_currency m\<rparr>)"

section \<open>Plain decimals\<close>

definition all_digits :: "string \<Rightarrow> bool" where
  "all_digits s \<longleftrightarrow> list_all (\<lambda>c. digit_value c \<noteq> None) s"

definition plain_decimal :: "string \<Rightarrow> nat \<Rightarrow> nat \<Rightarrow> bool" where
  "plain_decimal s max_int max_frac =
     (case cut_at (CHR ''.'') s of (whole, frac, dot) \<Rightarrow>
        s \<noteq> [] \<and> whole \<noteq> [] \<and> length whole \<le> max_int \<and> all_digits whole
        \<and> (dot \<longrightarrow> frac \<noteq> [] \<and> length frac \<le> max_frac \<and> all_digits frac))"

section \<open>Minor units\<close>

definition currency_minor_digits :: "(string \<times> nat) list" where
  "currency_minor_digits =
     map (\<lambda>code. (code, 0)) [''BIF'', ''CLP'', ''DJF'', ''GNF'', ''ISK'', ''JPY'', ''KMF'',
       ''KRW'', ''PYG'', ''RWF'', ''UGX'', ''UYI'', ''VND'', ''VUV'', ''XAF'', ''XOF'', ''XPF'']
     @ map (\<lambda>code. (code, 3)) [''BHD'', ''IQD'', ''JOD'', ''KWD'', ''LYD'', ''OMR'', ''TND'']
     @ map (\<lambda>code. (code, 4)) [''CLF'', ''UYW'']
     @ map (\<lambda>code. (code, 0)) [''XAU'', ''XAG'', ''XPT'', ''XPD'', ''XDR'', ''XXX'', ''XTS'']"

definition minor_unit_digits :: "string \<Rightarrow> nat" where
  "minor_unit_digits currency =
     (case map_of currency_minor_digits (to_upper (trim_space currency)) of Some digits \<Rightarrow> digits | None \<Rightarrow> 2)"

definition minor_unit_scale :: "nat \<Rightarrow> int64" where
  "minor_unit_scale digits = ((\<lambda>scale. scale * 10) ^^ digits) 1"

text \<open>The \<open>0*d\<close> verb of \<open>fmt\<close>: zeros in front, up to a width.\<close>

definition pad0 :: "nat \<Rightarrow> string \<Rightarrow> string" where
  "pad0 width s = replicate (width - length s) (CHR ''0'') @ s"

text \<open>The magnitude is taken in unsigned arithmetic: \<open>-uint64(x)\<close> is the size of every negative \<open>x\<close>.\<close>

definition major_units :: "int64 \<Rightarrow> string \<Rightarrow> string" where
  "major_units amount currency =
     (let digits = minor_unit_digits currency in
      if digits = 0 then int_string (sint amount)
      else let scale = minor_unit_scale digits;
               (sign, magnitude) = (if amount <s 0 then (''-'', - amount) else ('''', amount)) in
        sign @ nat_string (unat (magnitude div scale)) @ ''.'' @ pad0 digits (nat_string (unat (magnitude mod scale))))"

definition whole_major_units :: "int64 \<Rightarrow> string \<Rightarrow> int64" where
  "whole_major_units amount currency =
     word_of_int (go_div (sint amount) (sint (minor_unit_scale (minor_unit_digits currency))))"

definition minor_units :: "string \<Rightarrow> string \<Rightarrow> int64 option" where
  "minor_units major currency =
     (let major = trim_space major; digits = minor_unit_digits currency in
      if \<not> plain_decimal major 18 digits then None
      else case cut_at (CHR ''.'') major of (whole, frac, _) \<Rightarrow>
        map_option word_of_int (parse_int (whole @ frac @ replicate (digits - length frac) (CHR ''0''))))"

section \<open>Words that hold what they should\<close>

lemma sint_of_int64: "in_int64 v \<Longrightarrow> sint (word_of_int v :: int64) = v"
  unfolding in_int64_def sint_sbintrunc' by (rule signed_take_bit_int_eq_self) simp_all

lemma in_int64_sint: "in_int64 (sint (a :: int64))"
  using sint_greater_eq [of a] sint_less [of a] by (simp add: in_int64_def)

lemma uint_of_int64: "0 \<le> v \<Longrightarrow> v < 2 ^ 64 \<Longrightarrow> uint (word_of_int v :: int64) = v"
  unfolding uint_word_of_int_eq by (rule take_bit_int_eq_self) simp_all

lemma unat_uminus_neg:
  assumes "(a :: int64) <s 0"
  shows "int (unat (- a)) = - sint a"
proof -
  have neg: "sint a < 0" "- (2 ^ 63) \<le> sint a"
    using assms sint_greater_eq [of a] by (simp_all add: word_sless_alt)
  have "- a = word_of_int (- sint a)" by simp
  then have "uint (- a) = - sint a" using uint_of_int64 [of "- sint a"] neg by simp
  then show ?thesis by simp
qed

lemma unat_nonneg:
  assumes "\<not> (a :: int64) <s 0"
  shows "int (unat a) = sint a"
proof -
  have "0 \<le> sint a" "sint a < 2 ^ 63" using assms sint_less [of a] by (simp_all add: word_sless_alt)
  then have "uint a = sint a" using uint_of_int64 [of "sint a"] by simp
  then show ?thesis by simp
qed

section \<open>Digits\<close>

lemma parse_digits_shift:
  "parse_digits a s = map_option (\<lambda>n. a * 10 ^ length s + n) (parse_digits 0 s)"
proof (induction s arbitrary: a)
  case (Cons c cs)
  show ?case
  proof (cases "digit_value c")
    case (Some d)
    then show ?thesis using Cons.IH [of "a * 10 + d"] Cons.IH [of d]
      by (cases "parse_digits 0 cs") (simp_all add: algebra_simps)
  qed simp
qed simp

lemma parse_digits_zeros: "parse_digits a (replicate k (CHR ''0'')) = Some (a * 10 ^ k)"
  by (induction k arbitrary: a) (simp_all add: digit_value_def)

lemma parse_digits_all: "all_digits s \<Longrightarrow> \<exists>n. parse_digits a s = Some n"
  by (induction s arbitrary: a) (auto simp: all_digits_def)

lemma all_digits_parsed: "parse_digits a s = Some n \<Longrightarrow> all_digits s"
  by (induction s arbitrary: a) (auto simp: all_digits_def split: option.splits)

lemma all_digits_append [simp]: "all_digits (xs @ ys) \<longleftrightarrow> all_digits xs \<and> all_digits ys"
  by (simp add: all_digits_def)

lemma all_digits_zeros [simp]: "all_digits (replicate k (CHR ''0''))"
  by (simp add: all_digits_def list_all_iff digit_value_def)

lemma all_digits_no_dot: "all_digits s \<Longrightarrow> CHR ''.'' \<notin> set s"
  by (auto simp: all_digits_def list_all_iff digit_value_def)

lemma all_digits_nat_string: "all_digits (nat_string n)"
  by (rule all_digits_parsed [OF parse_digits_nat_string])

lemma length_nat_string: "n < 10 ^ k \<Longrightarrow> 0 < k \<Longrightarrow> length (nat_string n) \<le> k"
proof (induction n arbitrary: k rule: nat_string.induct)
  case (1 n)
  show ?case
  proof (cases "n < 10")
    case True
    then show ?thesis using 1(3) by (subst nat_string.simps) simp
  next
    case False
    then obtain j where j: "k = Suc j" "0 < j" using 1(2,3) by (cases k; cases "k - 1") auto
    then have "length (nat_string (n div 10)) \<le> j" using 1(1) [OF False, of j] 1(2) by (simp add: less_mult_imp_div_less)
    then show ?thesis using False j by (subst nat_string.simps) simp
  qed
qed

lemma parse_digits_pad0: "parse_digits 0 (pad0 k (nat_string n)) = Some n"
  by (simp add: pad0_def parse_digits_append parse_digits_zeros parse_digits_nat_string)

lemma length_pad0: "n < 10 ^ k \<Longrightarrow> 0 < k \<Longrightarrow> length (pad0 k (nat_string n)) = k"
  using length_nat_string [of n k] by (simp add: pad0_def)

section \<open>What the table answers\<close>

lemma minor_unit_digits_cases: "minor_unit_digits c \<in> {0, 2, 3, 4}"
proof -
  have "list_all (\<lambda>(_, d). d \<in> {0, 2, 3, 4}) currency_minor_digits" by (simp add: currency_minor_digits_def)
  then have "map_of currency_minor_digits k = Some d \<Longrightarrow> d \<in> {0, 2, 3, 4}" for k d
    by (auto simp: list_all_iff dest!: map_of_SomeD)
  then show ?thesis by (simp add: minor_unit_digits_def split: option.split)
qed

lemma minor_unit_scale_eq:
  assumes "d \<in> {0, 2, 3, 4}"
  shows "unat (minor_unit_scale d) = 10 ^ d" "sint (minor_unit_scale d) = 10 ^ d"
proof -
  have "minor_unit_scale 0 = 1" "minor_unit_scale 2 = 100" "minor_unit_scale 3 = 1000" "minor_unit_scale 4 = 10000"
    by code_simp+
  then show "unat (minor_unit_scale d) = 10 ^ d" "sint (minor_unit_scale d) = 10 ^ d"
    using assms by auto
qed

end
