(* ===== verification/Row_Patch.thy ===== *)
theory Row_Patch
  imports Store_Kit
begin

text \<open>
  Partial updates under a concurrency guard: \<^verbatim>\<open>patch.go\<close> of
  \<^verbatim>\<open>backend/internal/platform/database/storekit\<close>. A patch holds one assignment per column with
  the audit images beside it; it is applied under the version the caller read, or under the row lock. An
  assignment is its column, the two values as the audit renders them, and the update it makes of the row. The
  slots \<^verbatim>\<open>setQuoted\<close> adds, for custom columns whose rendered name differs from the key, are not
  modelled.
\<close>

section \<open>Patches\<close>

record 'r slot =
  ps_column :: string
  ps_old :: json
  ps_new :: json
  ps_assign :: "'r \<Rightarrow> 'r"

type_synonym 'r patch = "'r slot list"

text \<open>A repeated column keeps its place and its first old value, and takes the last new one.\<close>

fun patch_set :: "string \<Rightarrow> json \<Rightarrow> json \<Rightarrow> ('r \<Rightarrow> 'r) \<Rightarrow> 'r patch \<Rightarrow> 'r patch" where
  "patch_set column old new assign [] = [\<lparr>ps_column = column, ps_old = old, ps_new = new, ps_assign = assign\<rparr>]"
| "patch_set column old new assign (s # ss) =
     (if ps_column s = column then s\<lparr>ps_new := new, ps_assign := assign\<rparr> # ss
      else s # patch_set column old new assign ss)"

definition patch_empty :: "'r patch \<Rightarrow> bool" where "patch_empty p \<longleftrightarrow> p = []"

definition patch_before :: "'r patch \<Rightarrow> image" where
  "patch_before p = Some (map (\<lambda>s. (ps_column s, ps_old s)) p)"

definition patch_after :: "'r patch \<Rightarrow> image" where
  "patch_after p = Some (map (\<lambda>s. (ps_column s, ps_new s)) p)"

definition patched :: "'r patch \<Rightarrow> 'r \<Rightarrow> 'r" where
  "patched p r = fold ps_assign p r"

text \<open>A field the client may have left out.\<close>

definition patch_opt :: "string \<Rightarrow> json \<Rightarrow> ('v \<Rightarrow> json) \<Rightarrow> ('v \<Rightarrow> 'r \<Rightarrow> 'r) \<Rightarrow> 'v option \<Rightarrow> 'r patch \<Rightarrow> 'r patch" where
  "patch_opt column old enc assign v p = (case v of None \<Rightarrow> p | Some x \<Rightarrow> patch_set column old (enc x) (assign x) p)"

section \<open>Guards\<close>

datatype archived_filter = LiveOnly | IncludeArchived | NoArchiveColumn

text \<open>What a table offers the guards; \<open>tb_touch\<close> is its update trigger.\<close>

record 'r table =
  tb_id :: "'r \<Rightarrow> uuid"
  tb_live :: "'r \<Rightarrow> bool"
  tb_version :: "'r \<Rightarrow> int"
  tb_touch :: "'r \<Rightarrow> 'r"

definition live_clause :: "'r table \<Rightarrow> archived_filter \<Rightarrow> 'r \<Rightarrow> bool" where
  "live_clause t f r \<longleftrightarrow> f \<noteq> LiveOnly \<or> tb_live t r"

definition selects :: "'r table \<Rightarrow> archived_filter \<Rightarrow> uuid \<Rightarrow> 'r \<Rightarrow> bool" where
  "selects t f i r \<longleftrightarrow> tb_id t r = i \<and> live_clause t f r"

definition lock_row :: "'r table \<Rightarrow> archived_filter \<Rightarrow> uuid \<Rightarrow> 'r list \<Rightarrow> unit result" where
  "lock_row t f i rows = guardR (list_ex (selects t f i) rows) ErrNotFound"

definition apply_locked :: "'r table \<Rightarrow> archived_filter \<Rightarrow> uuid \<Rightarrow> 'r patch \<Rightarrow> 'r list \<Rightarrow> 'r list result" where
  "apply_locked t f i p rows =
     (if list_ex (selects t f i) rows
      then Inr (update_where (selects t f i) (\<lambda>r. tb_touch t (patched p r)) rows)
      else Inl ErrNotFound)"

definition apply_with_version ::
  "'r table \<Rightarrow> archived_filter \<Rightarrow> uuid \<Rightarrow> int \<Rightarrow> 'r patch \<Rightarrow> 'r list \<Rightarrow> 'r list result" where
  "apply_with_version t f i version p rows =
     (let hit = (\<lambda>r. selects t f i r \<and> tb_version t r = version) in
      if list_ex hit rows then Inr (update_where hit (\<lambda>r. tb_touch t (patched p r)) rows)
      else if list_ex (selects t f i) rows then Inl ErrVersionSkew
      else Inl ErrNotFound)"

definition apply_guarded ::
  "'r table \<Rightarrow> archived_filter \<Rightarrow> uuid \<Rightarrow> int option \<Rightarrow> 'r patch \<Rightarrow> 'r list \<Rightarrow> 'r list result" where
  "apply_guarded t f i if_version p rows =
     (case if_version of
        Some version \<Rightarrow> apply_with_version t f i version p rows
      | None \<Rightarrow> bindR (lock_row t f i rows) (\<lambda>_. apply_locked t f i p rows))"

section \<open>Lemmas\<close>

lemma patched_simps [simp]:
  "patched [] r = r" "patched (s # p) r = patched p (ps_assign s r)"
  by (simp_all add: patched_def)

lemma patch_set_columns:
  "map ps_column (patch_set c old new f p) = map ps_column p @ (if c \<in> ps_column ` set p then [] else [c])"
  by (induction p) auto

lemma patch_set_distinct: "distinct (map ps_column p) \<Longrightarrow> distinct (map ps_column (patch_set c old new f p))"
  by (simp add: patch_set_columns)

lemma patch_opt_distinct: "distinct (map ps_column p) \<Longrightarrow> distinct (map ps_column (patch_opt c old enc f v p))"
  by (simp add: patch_opt_def patch_set_distinct split: option.splits)

text \<open>A fact about a row that no assignment of the patch changes.\<close>

definition patch_keeps :: "('r \<Rightarrow> 'a) \<Rightarrow> 'r patch \<Rightarrow> bool" where
  "patch_keeps k p \<longleftrightarrow> (\<forall>s \<in> set p. \<forall>r. k (ps_assign s r) = k r)"

lemma patch_keepsD: "patch_keeps k p \<Longrightarrow> k (patched p r) = k r"
  by (induction p arbitrary: r) (auto simp: patch_keeps_def)

lemma patch_keeps_Nil [simp]: "patch_keeps k []"
  by (simp add: patch_keeps_def)

lemma patch_keeps_set: "patch_keeps k p \<Longrightarrow> (\<And>r. k (f r) = k r) \<Longrightarrow> patch_keeps k (patch_set c old new f p)"
  by (induction p) (auto simp: patch_keeps_def)

lemma patch_keeps_opt:
  "patch_keeps k p \<Longrightarrow> (\<And>x r. k (f x r) = k r) \<Longrightarrow> patch_keeps k (patch_opt c old enc f v p)"
  by (simp add: patch_opt_def patch_keeps_set split: option.splits)

text \<open>Whatever guarded it, an applied patch changed the rows it selects and no other.\<close>

lemma apply_with_version_Inr:
  "apply_with_version t f i v p rows = Inr rows' \<longleftrightarrow>
     (\<exists>r \<in> set rows. selects t f i r \<and> tb_version t r = v)
     \<and> rows' = update_where (\<lambda>r. selects t f i r \<and> tb_version t r = v) (\<lambda>r. tb_touch t (patched p r)) rows"
  by (auto simp: apply_with_version_def list_ex_iff Let_def)

lemma apply_locked_Inr:
  "apply_locked t f i p rows = Inr rows' \<longleftrightarrow> (\<exists>r \<in> set rows. selects t f i r)
     \<and> rows' = update_where (selects t f i) (\<lambda>r. tb_touch t (patched p r)) rows"
  by (auto simp: apply_locked_def list_ex_iff)

lemma lock_row_iff [simp]: "lock_row t f i rows = Inr () \<longleftrightarrow> (\<exists>r \<in> set rows. selects t f i r)"
  by (auto simp: lock_row_def list_ex_iff guardR_def)

lemma apply_guarded_Inr:
  assumes "apply_guarded t f i v p rows = Inr rows'" "distinct (map (tb_id t) rows)"
  shows "\<exists>r \<in> set rows. selects t f i r \<and> (case v of None \<Rightarrow> True | Some n \<Rightarrow> tb_version t r = n)
    \<and> rows' = update_where (\<lambda>x. tb_id t x = i) (\<lambda>r. tb_touch t (patched p r)) rows"
proof -
  obtain r where r: "r \<in> set rows" "selects t f i r" "case v of None \<Rightarrow> True | Some n \<Rightarrow> tb_version t r = n"
    and rows': "rows' = update_where (\<lambda>x. selects t f i x \<and> (case v of None \<Rightarrow> True | Some n \<Rightarrow> tb_version t x = n))
        (\<lambda>r. tb_touch t (patched p r)) rows"
    using assms(1) by (auto simp: apply_guarded_def apply_with_version_Inr apply_locked_Inr split: option.splits)
  have "x = r" if "x \<in> set rows" "tb_id t x = i" for x
    using that r(1,2) assms(2) by (auto simp: selects_def distinct_map dest: inj_onD)
  then have "rows' = update_where (\<lambda>x. tb_id t x = i) (\<lambda>r. tb_touch t (patched p r)) rows"
    unfolding rows' using r(2,3) by (auto simp: update_where_def selects_def intro!: map_cong)
  then show ?thesis using r by blast
qed

lemma patch_set_mem:
  "s \<in> set (patch_set c old new f q) \<Longrightarrow> distinct (map ps_column q) \<Longrightarrow>
     (s \<in> set q \<and> ps_column s \<noteq> c)
     \<or> (\<exists>s0 \<in> set q. ps_column s0 = c \<and> s = s0\<lparr>ps_new := new, ps_assign := f\<rparr>)
     \<or> (c \<notin> ps_column ` set q \<and> s = \<lparr>ps_column = c, ps_old = old, ps_new = new, ps_assign = f\<rparr>)"
  by (induction q) (auto simp: image_iff split: if_splits)

text \<open>The first and the last call for a column.\<close>

definition first_old :: "(string \<times> json \<times> json \<times> ('r \<Rightarrow> 'r)) list \<Rightarrow> string \<Rightarrow> json \<Rightarrow> bool" where
  "first_old calls c old \<longleftrightarrow> (\<exists>rest. find (\<lambda>x. fst x = c) calls = Some (c, old, rest))"

definition last_new :: "(string \<times> json \<times> json \<times> ('r \<Rightarrow> 'r)) list \<Rightarrow> string \<Rightarrow> json \<Rightarrow> ('r \<Rightarrow> 'r) \<Rightarrow> bool" where
  "last_new calls c new f \<longleftrightarrow> (\<exists>old. find (\<lambda>x. fst x = c) (rev calls) = Some (c, old, new, f))"

lemma first_old_snoc: "first_old calls c old \<Longrightarrow> first_old (calls @ [x]) c old"
  by (auto simp: first_old_def find_append)

lemma first_old_new: "c \<notin> fst ` set calls \<Longrightarrow> first_old (calls @ [(c, old, rest)]) c old"
  by (auto simp: first_old_def find_append find_None_iff split: option.split dest: find_SomeD)

lemma last_new_snoc: "last_new calls c new f \<Longrightarrow> fst x \<noteq> c \<Longrightarrow> last_new (calls @ [x]) c new f"
  by (simp add: last_new_def)

lemma last_new_new: "last_new (calls @ [(c, old, new, f)]) c new f"
  by (simp add: last_new_def)

text \<open>
  C35. A partial update assigns each column once and its audit images tell the whole change. After any
  sequence of \<open>Set\<close> calls the columns are distinct, a column's old value is the first one given and its
  new value the last, so no statement assigns a column twice and the diff spans the change.
\<close>

theorem a_patch_assigns_each_column_once:
  assumes "p = foldl (\<lambda>p (c, old, new, f). patch_set c old new f p) [] calls"
  shows "distinct (map ps_column p)
    \<and> ps_column ` set p = fst ` set calls
    \<and> (\<forall>s \<in> set p. first_old calls (ps_column s) (ps_old s) \<and> last_new calls (ps_column s) (ps_new s) (ps_assign s))"
  using assms
proof (induction calls arbitrary: p rule: rev_induct)
  case (snoc call calls)
  obtain c old new f where call: "call = (c, old, new, f)" by (cases call) auto
  let ?q = "foldl (\<lambda>p (c, old, new, f). patch_set c old new f p) [] calls"
  have p: "p = patch_set c old new f ?q" using snoc.prems by (simp add: call)
  note IH = snoc.IH [OF refl]
  have "first_old (calls @ [call]) (ps_column s) (ps_old s) \<and> last_new (calls @ [call]) (ps_column s) (ps_new s) (ps_assign s)"
    if s: "s \<in> set p" for s
    using patch_set_mem [OF s [unfolded p] IH [THEN conjunct1]] IH call
    by (auto intro: first_old_snoc first_old_new last_new_snoc last_new_new)
  moreover have "ps_column ` set p = insert c (ps_column ` set ?q)"
    using arg_cong [OF patch_set_columns [of c old new f ?q], of set] unfolding p by auto
  moreover have "distinct (map ps_column p)" unfolding p by (rule patch_set_distinct) (use IH in blast)
  ultimately show ?case using IH by (simp add: call)
qed simp

theorem a_patch_assigns_each_column_once_witness:
  "\<exists>p. p = foldl (\<lambda>p (c, old, new, f). patch_set c old new f p) []
       [(''a'', JNull, JStr ''1'', Suc), (''b'', JNull, JNull, id), (''a'', JStr ''1'', JStr ''2'', (+) 2)]
     \<and> distinct (map ps_column p) \<and> patch_before p = Some [(''a'', JNull), (''b'', JNull)] \<and> patched p 0 = 2"
  using a_patch_assigns_each_column_once [OF refl, THEN conjunct1,
      of "[(''a'', JNull, JStr ''1'', Suc), (''b'', JNull, JNull, id), (''a'', JStr ''1'', JStr ''2'', (+) 2)]"]
  by (simp add: patch_before_def)
end
