(* ===== verification/Offer_Totals.thy ===== *)
theory Offer_Totals
  imports Money Complex_Main "HOL-Library.Multiset"
begin

text \<open>
  The money-totals engine of \<^verbatim>\<open>backend/internal/modules/deals/offer_totals.go\<close>: line and offer
  figures derived from decimal strings in exact rational arithmetic. \<open>big.Rat\<close> is \<open>rat\<close> and
  \<open>big.Int\<close> is \<open>int\<close>; a figure leaves the engine as a 64-bit word or not at all.
\<close>

section \<open>What the module answers\<close>

datatype offer_status =
    OfferStatusDraft | OfferStatusSent | OfferStatusAccepted | OfferStatusRejected | OfferStatusExpired
  | OfferStatusSuperseded

datatype offer_error =
    OApp app_error
  | DecimalField string string
  | MoneyRange string "string list"
  | RequiredField string
  | ProductCurrencyMismatch string string
  | OfferNotDraft offer_status
  | OfferNotSent offer_status
  | OfferEmpty
  | MissingFxRate string string
  | UngroundedPriceNotZero int64
  | CheckViolated string
  | AtLine nat offer_error

section \<open>The engine\<close>

record line_input =
  li_quantity :: string
  li_unit_price :: int64
  li_discount :: string
  li_tax_rate :: string

record line_figures =
  lf_net :: int64
  lf_tax :: int64
  lf_total :: int64

record offer_figures =
  og_net :: int64
  og_tax :: int64
  og_gross :: int64

definition minor_from_big :: "int \<Rightarrow> string \<Rightarrow> string list \<Rightarrow> offer_error + int64" where
  "minor_from_big v figure inputs = (if \<not> in_int64 v then Inl (MoneyRange figure inputs) else Inr (word_of_int v))"

text \<open>
  \<open>big.Rat.SetString\<close> on text of digits, dots and minus signs: an optional sign, then digits with at most
  one dot among them and at least one digit.
\<close>

definition rat_set_string :: "string \<Rightarrow> rat option" where
  "rat_set_string s =
     (let (sign, body) = (case s of [] \<Rightarrow> (1, s) | c # cs \<Rightarrow> if c = CHR ''-'' then (- 1, cs) else (1, s)) in
      case cut_at (CHR ''.'') body of (whole, part, _) \<Rightarrow>
        map_option (\<lambda>n. sign * (of_nat n / 10 ^ length part)) (parse_nat (whole @ part)))"

definition decimal_char :: "char \<Rightarrow> bool" where
  "decimal_char c \<longleftrightarrow> digit_value c \<noteq> None \<or> c = CHR ''.'' \<or> c = CHR ''-''"

definition rat_from_decimal :: "string \<Rightarrow> string \<Rightarrow> offer_error + rat" where
  "rat_from_decimal field s =
     (if \<not> list_all decimal_char s then Inl (DecimalField field s)
      else case rat_set_string s of None \<Rightarrow> Inl (DecimalField field s) | Some r \<Rightarrow> Inr r)"

definition round_half_up :: "rat \<Rightarrow> int" where
  "round_half_up x =
     (case quotient_of x of (num, den) \<Rightarrow>
        let twice = num * 2; shifted = (if 0 \<le> twice then twice + den else twice - den)
        in go_div shifted (den * 2))"

definition line_totals :: "line_input \<Rightarrow> offer_error + line_figures" where
  "line_totals l =
     bindR (rat_from_decimal ''quantity'' (li_quantity l)) (\<lambda>qty.
     bindR (rat_from_decimal ''discount_pct'' (li_discount l)) (\<lambda>discount.
     bindR (rat_from_decimal ''tax_rate'' (li_tax_rate l)) (\<lambda>tax_rate.
       let keep = 100 - discount;
           net = of_int (sint (li_unit_price l)) * qty * keep / 100 in
     bindR (minor_from_big (round_half_up net) ''line_net_minor'' [''quantity'', ''unit_price_minor'']) (\<lambda>net_minor.
       let tax = of_int (sint net_minor) * tax_rate / 100 in
     bindR (minor_from_big (round_half_up tax) ''line_tax_minor''
              [''quantity'', ''unit_price_minor'', ''tax_rate'']) (\<lambda>tax_minor.
     bindR (minor_from_big (sint net_minor + sint tax_minor) ''line_total_minor''
              [''quantity'', ''unit_price_minor'']) (\<lambda>total_minor.
       Inr \<lparr>lf_net = net_minor, lf_tax = tax_minor, lf_total = total_minor\<rparr>))))))"

datatype proposal_state = ProposalStaged | ProposalAccepted

record stateful_line =
  sl_line :: line_input
  sl_state :: proposal_state

definition accepted_lines :: "stateful_line list \<Rightarrow> line_input list" where
  "accepted_lines ls = map sl_line (filter (\<lambda>l. sl_state l = ProposalAccepted) ls)"

text \<open>The loop of \<open>OfferTotals\<close>: the sums so far, and the number of the line it is at.\<close>

fun sum_lines :: "nat \<Rightarrow> line_input list \<Rightarrow> int \<times> int \<times> int \<Rightarrow> offer_error + (int \<times> int \<times> int)" where
  "sum_lines i [] totals = Inr totals"
| "sum_lines i (l # ls) (net, tax, gross) =
     (case line_totals l of
        Inl e \<Rightarrow> Inl (AtLine i e)
      | Inr f \<Rightarrow> sum_lines (i + 1) ls (net + sint (lf_net f), tax + sint (lf_tax f), gross + sint (lf_total f)))"

definition offer_totals :: "line_input list \<Rightarrow> offer_error + offer_figures" where
  "offer_totals ls =
     bindR (sum_lines 1 ls (0, 0, 0)) (\<lambda>(net, tax, gross).
     bindR (minor_from_big net ''net_minor'' [''line_items'']) (\<lambda>n.
     bindR (minor_from_big tax ''tax_minor'' [''line_items'']) (\<lambda>t.
     bindR (minor_from_big gross ''gross_minor'' [''line_items'']) (\<lambda>g.
       Inr \<lparr>og_net = n, og_tax = t, og_gross = g\<rparr>))))"

section \<open>Rounding\<close>

lemma round_half_up_eq: "round_half_up x = (if 0 \<le> x then \<lfloor>x + 1 / 2\<rfloor> else \<lceil>x - 1 / 2\<rceil>)"
proof -
  obtain n d where q: "quotient_of x = (n, d)" by (cases "quotient_of x") auto
  have d: "0 < d" and x: "x = of_int n / of_int d"
    using quotient_of_denom_pos [OF q] quotient_of_div [OF q] by simp_all
  show ?thesis
  proof (cases "0 \<le> n")
    case True
    then have pos: "0 \<le> x" using d x by simp
    have "(2 * n + d) div (2 * d) = \<lfloor>of_int (2 * n + d) / (of_int (2 * d) :: rat)\<rfloor>"
      by (rule floor_divide_of_int_eq [symmetric])
    also have "of_int (2 * n + d) / (of_int (2 * d) :: rat) = x + 1 / 2" using d by (simp add: x field_simps)
    finally show ?thesis using True pos d by (simp add: round_half_up_def q go_div_nonneg mult.commute)
  next
    case False
    then have neg: "\<not> 0 \<le> x" using d x by (simp add: zero_le_divide_iff)
    have "(d - 2 * n) div (2 * d) = \<lfloor>of_int (d - 2 * n) / (of_int (2 * d) :: rat)\<rfloor>"
      by (rule floor_divide_of_int_eq [symmetric])
    also have "of_int (d - 2 * n) / (of_int (2 * d) :: rat) = - (x - 1 / 2)" using d by (simp add: x field_simps)
    finally have "\<lceil>x - 1 / 2\<rceil> = - ((d - 2 * n) div (2 * d))" by (simp add: ceiling_def)
    moreover have "go_div (n * 2 - d) (d * 2) = - ((d - 2 * n) div (2 * d))"
      using False d by (simp add: go_div_def mult.commute)
    ultimately show ?thesis using False neg by (simp add: round_half_up_def q)
  qed
qed

lemma round_half_up_near: "\<bar>of_int (round_half_up x) - x\<bar> \<le> 1 / 2"
proof (cases "0 \<le> x")
  case True
  then have r: "round_half_up x = \<lfloor>x + 1 / 2\<rfloor>" by (simp add: round_half_up_eq)
  show ?thesis using floor_correct [of "x + 1 / 2"] unfolding r abs_le_iff by linarith
next
  case False
  then have r: "round_half_up x = \<lceil>x - 1 / 2\<rceil>" by (simp add: round_half_up_eq)
  show ?thesis using ceiling_correct [of "x - 1 / 2"] unfolding r abs_le_iff by linarith
qed

lemma round_half_up_nonneg: "0 \<le> x \<Longrightarrow> 0 \<le> round_half_up x"
  by (simp add: round_half_up_eq)

lemma round_half_up_is:
  "0 \<le> x \<Longrightarrow> of_int n \<le> x + 1 / 2 \<Longrightarrow> x + 1 / 2 < of_int n + 1 \<Longrightarrow> round_half_up x = n"
  by (simp add: round_half_up_eq floor_unique)

lemma round_half_up_int [simp]: "round_half_up (of_int n) = n"
proof -
  have "\<bar>of_int (round_half_up (of_int n)) - (of_int n :: rat)\<bar> \<le> 1 / 2" by (rule round_half_up_near)
  then show ?thesis by linarith
qed

section \<open>The reading of a decimal\<close>

lemma minor_from_big_iff [simp]: "minor_from_big v f ins = Inr w \<longleftrightarrow> in_int64 v \<and> w = word_of_int v"
  by (auto simp: minor_from_big_def)

lemma digit_not_mark: "digit_value c = Some d \<Longrightarrow> c \<noteq> CHR ''.'' \<and> c \<noteq> CHR ''-'' \<and> c \<noteq> CHR ''+''"
  by (auto simp: digit_value_def)

lemma all_digits_decimal: "all_digits s \<Longrightarrow> list_all decimal_char s"
  by (auto simp: all_digits_def decimal_char_def list_all_iff)

lemma parse_nat_all: "s \<noteq> [] \<Longrightarrow> all_digits s \<Longrightarrow> \<exists>n. parse_nat s = Some n"
  using parse_digits_all [of s 0] by (simp add: parse_nat_def)

text \<open>A figure written with a whole part and an optional fraction is read for what it says.\<close>

lemma rat_of_whole:
  assumes "parse_nat whole = Some n"
  shows "rat_set_string whole = Some (of_nat n)"
    and "rat_set_string (CHR ''-'' # whole) = Some (- of_nat n)"
proof -
  have d: "all_digits whole" using assms by (auto simp: parse_nat_def dest: all_digits_parsed split: if_splits)
  note cut = cut_at_absent [OF all_digits_no_dot [OF d]]
  obtain c cs where s: "whole = c # cs" using assms by (cases whole) (auto simp: parse_nat_def)
  then have "c \<noteq> CHR ''-''" using d by (auto simp: all_digits_def dest: digit_not_mark)
  then show "rat_set_string whole = Some (of_nat n)" using assms cut by (simp add: rat_set_string_def s)
  show "rat_set_string (CHR ''-'' # whole) = Some (- of_nat n)" using assms cut by (simp add: rat_set_string_def)
qed

lemma rat_of_parts:
  assumes "all_digits whole" "whole \<noteq> []" "all_digits part" "parse_nat (whole @ part) = Some n"
  shows "rat_set_string (whole @ CHR ''.'' # part) = Some (of_nat n / 10 ^ length part)"
    and "rat_set_string (CHR ''-'' # whole @ CHR ''.'' # part) = Some (- (of_nat n / 10 ^ length part))"
proof -
  note cut = cut_at_found [OF all_digits_no_dot [OF assms(1)], of part]
  obtain c cs where s: "whole = c # cs" using assms(2) by (cases whole) auto
  then have "c \<noteq> CHR ''-''" using assms(1) by (auto simp: all_digits_def dest: digit_not_mark)
  then show "rat_set_string (whole @ CHR ''.'' # part) = Some (of_nat n / 10 ^ length part)"
    using assms(4) cut by (simp add: rat_set_string_def s)
  show "rat_set_string (CHR ''-'' # whole @ CHR ''.'' # part) = Some (- (of_nat n / 10 ^ length part))"
    using assms(4) cut by (simp add: rat_set_string_def)
qed

lemma parse_nat_append:
  assumes "parse_nat xs = Some a" "parse_digits 0 ys = Some b"
  shows "parse_nat (xs @ ys) = Some (a * 10 ^ length ys + b)"
  using assms parse_digits_shift [of a ys]
  by (auto simp: parse_nat_def parse_digits_append split: if_splits)

section \<open>Amounts written and read\<close>

text \<open>What \<open>MajorUnits\<close> prints, for a magnitude and its sign.\<close>

lemma major_units_text:
  assumes "minor_unit_digits c = d" "0 < d"
  shows "\<exists>m. int m = \<bar>sint a\<bar> \<and> major_units a c
    = (if sint a < 0 then ''-'' else '''') @ nat_string (m div 10 ^ d) @ CHR ''.'' # pad0 d (nat_string (m mod 10 ^ d))"
proof -
  let ?m = "if a <s 0 then - a else a"
  have d: "d \<in> {0, 2, 3, 4}" using minor_unit_digits_cases [of c] assms(1) by simp
  have "int (unat ?m) = \<bar>sint a\<bar>"
    using unat_uminus_neg [of a] unat_nonneg [of a] by (auto simp: word_sless_alt)
  moreover have "major_units a c = (if sint a < 0 then ''-'' else '''') @ nat_string (unat ?m div 10 ^ d)
      @ CHR ''.'' # pad0 d (nat_string (unat ?m mod 10 ^ d))"
    using assms minor_unit_scale_eq(1) [OF d]
    by (auto simp: major_units_def Let_def word_sless_alt unat_div unat_mod)
  ultimately show ?thesis by blast
qed

lemma parse_digits_less: "parse_digits 0 s = Some n \<Longrightarrow> n < 10 ^ length s"
proof (induction s arbitrary: n rule: rev_induct)
  case (snoc c cs)
  obtain m d where m: "parse_digits 0 cs = Some m" "digit_value c = Some d" "n = m * 10 + d"
    using snoc.prems by (auto simp: parse_digits_append split: option.splits)
  moreover have "d < 10" using m(2) by (auto simp: digit_value_def Let_def split: if_splits)
  ultimately show ?case using snoc.IH [of m] by simp
qed simp

lemma length_nat_string_iff: "0 < k \<Longrightarrow> length (nat_string n) \<le> k \<longleftrightarrow> n < 10 ^ k"
  using length_nat_string [of n k] parse_digits_less [OF parse_digits_nat_string, of n]
  by (metis less_le_trans one_le_numeral power_increasing)

lemma plain_decimal_whole:
  "all_digits whole \<Longrightarrow> whole \<noteq> [] \<Longrightarrow> plain_decimal whole mi mf \<longleftrightarrow> length whole \<le> mi"
  by (simp add: plain_decimal_def cut_at_absent all_digits_no_dot)

lemma plain_decimal_parts:
  "all_digits whole \<Longrightarrow> whole \<noteq> [] \<Longrightarrow> all_digits part \<Longrightarrow>
     plain_decimal (whole @ CHR ''.'' # part) mi mf \<longleftrightarrow> length whole \<le> mi \<and> part \<noteq> [] \<and> length part \<le> mf"
  by (auto simp: plain_decimal_def cut_at_found all_digits_no_dot)

lemma plain_decimal_negative: "\<not> plain_decimal (CHR ''-'' # s) mi mf"
  by (auto simp: plain_decimal_def all_digits_def digit_value_def split: prod.splits)

lemma plain_decimal_cases:
  assumes "plain_decimal s mi mf"
  obtains whole part dot where "cut_at (CHR ''.'') s = (whole, part, dot)" "all_digits whole" "whole \<noteq> []"
    "all_digits part" "length part \<le> mf" "s = whole \<and> part = [] \<or> s = whole @ CHR ''.'' # part"
proof -
  obtain whole part dot where c: "cut_at (CHR ''.'') s = (whole, part, dot)" by (cases "cut_at (CHR ''.'') s") auto
  have "all_digits part" "length part \<le> mf"
    using assms c cut_at_parts [OF c] by (auto simp: plain_decimal_def all_digits_def)
  then show thesis using that [of whole part dot] assms c cut_at_parts [OF c] by (auto simp: plain_decimal_def)
qed

lemma parse_int_digits:
  assumes "parse_nat s = Some n"
  shows "parse_int s = (if in_int64 (int n) then Some (int n) else None)"
proof -
  obtain c cs where s: "s = c # cs" using assms by (cases s) (auto simp: parse_nat_def)
  then have "digit_value c \<noteq> None" using assms by (auto simp: parse_nat_def split: option.splits)
  then have "c \<noteq> CHR ''-'' \<and> c \<noteq> CHR ''+''" by (auto dest: digit_not_mark)
  then show ?thesis using assms by (simp add: parse_int_def s)
qed

lemma narrowed_iff: "(if in_int64 v then Some (word_of_int v) else None) = Some (a :: int64) \<longleftrightarrow> v = sint a"
  using sint_of_int64 [of v] in_int64_sint [of a] by auto

lemma decimal_not_space: "decimal_char c \<Longrightarrow> \<not> is_space c"
  by (auto simp: decimal_char_def digit_value_def is_space_def Let_def split: if_splits)

lemma trim_decimal: "list_all decimal_char s \<Longrightarrow> trim_space s = s"
  using trim_space_id [of s] decimal_not_space by (cases "s = []") (auto simp: list_all_iff trim_space_def)

lemma decimal_nat_string [simp]: "list_all decimal_char (nat_string n)"
  by (rule all_digits_decimal [OF all_digits_nat_string])

text \<open>One reading of a plain decimal: the digits with the point taken out, and how many stand behind it.\<close>

lemma plain_decimal_value:
  assumes "plain_decimal (trim_space m) 18 (minor_unit_digits c)"
  obtains n k where "k \<le> minor_unit_digits c"
    "rat_from_decimal f (trim_space m) = Inr (of_nat n / 10 ^ k)"
    "minor_units m c = (let v = int n * 10 ^ (minor_unit_digits c - k) in
       if in_int64 v then Some (word_of_int v) else None)"
proof -
  let ?s = "trim_space m" and ?d = "minor_unit_digits c"
  obtain whole part dot where p: "cut_at (CHR ''.'') ?s = (whole, part, dot)" "all_digits whole" "whole \<noteq> []"
    "all_digits part" "length part \<le> ?d" "?s = whole \<and> part = [] \<or> ?s = whole @ CHR ''.'' # part"
    by (rule plain_decimal_cases [OF assms])
  obtain n where n: "parse_nat (whole @ part) = Some n" using parse_nat_all [of "whole @ part"] p(2-4) by auto
  have "rat_set_string ?s = Some (of_nat n / 10 ^ length part)"
    using p(6) rat_of_whole(1) [of whole n] rat_of_parts(1) [OF p(2,3,4) n] n by auto
  moreover have "list_all decimal_char ?s"
    using p(2,4,6) all_digits_decimal [of whole] all_digits_decimal [of part] by (auto simp: decimal_char_def)
  ultimately have rat: "rat_from_decimal f ?s = Inr (of_nat n / 10 ^ length part)" by (simp add: rat_from_decimal_def)
  have "parse_nat ((whole @ part) @ replicate (?d - length part) (CHR ''0'')) = Some (n * 10 ^ (?d - length part))"
    using parse_nat_append [OF n parse_digits_zeros [of 0 "?d - length part"]] by simp
  then have "minor_units m c = (let v = int n * 10 ^ (?d - length part) in
       if in_int64 v then Some (word_of_int v) else None)"
    using assms p(1) parse_int_digits by (simp add: minor_units_def Let_def)
  then show thesis using that p(5) rat by blast
qed

text \<open>
  A written amount is read for exactly what it says. \<open>MinorUnits\<close> answers a count of minor units if and
  only if the text is a plain decimal with no more fractional digits than the currency has, and the count
  divided by the currency's scale is the number written, so it never rounds and never invents a cent; what
  does not fit 64 bits is refused.
\<close>

theorem minor_units_read_exactly:
  "minor_units m c = Some a \<longleftrightarrow> plain_decimal (trim_space m) 18 (minor_unit_digits c)
     \<and> rat_from_decimal f (trim_space m) = Inr (of_int (sint a) / 10 ^ minor_unit_digits c)"
proof (cases "plain_decimal (trim_space m) 18 (minor_unit_digits c)")
  case True
  let ?d = "minor_unit_digits c"
  obtain n k where nk: "k \<le> ?d" "rat_from_decimal f (trim_space m) = Inr (of_nat n / 10 ^ k)"
    "minor_units m c = (let v = int n * 10 ^ (?d - k) in if in_int64 v then Some (word_of_int v) else None)"
    by (rule plain_decimal_value [OF True])
  let ?v = "int n * 10 ^ (?d - k)"
  have "(10 :: rat) ^ ?d = 10 ^ k * 10 ^ (?d - k)" using nk(1) by (simp flip: power_add)
  then have "of_nat n / 10 ^ k = (of_int ?v / 10 ^ ?d :: rat)" by simp
  then have "rat_from_decimal f (trim_space m) = Inr (of_int x / 10 ^ ?d) \<longleftrightarrow> ?v = x" for x
    using nk(2) by (auto simp del: of_int_mult)
  moreover have "minor_units m c = Some a \<longleftrightarrow> ?v = sint a"
    using nk(3) narrowed_iff [of ?v a] by (simp only: Let_def)
  ultimately show ?thesis using True by blast
qed (simp add: minor_units_def Let_def)

text \<open>
  C34. Every amount has one written form and is read back from it. What \<open>MajorUnits\<close> prints is the amount
  divided by the currency's scale, for every 64-bit amount, the least one included, whose size has no
  signed word of its own; and \<open>MinorUnits\<close> reads it back whenever the amount is not negative and has no
  more than eighteen digits in front of the point.
\<close>

theorem amounts_are_written_and_read_back:
  "rat_from_decimal f (major_units a c) = Inr (of_int (sint a) / 10 ^ minor_unit_digits c)
   \<and> minor_units (major_units a c) c
     = (if 0 \<le> sint a \<and> (0 < minor_unit_digits c \<or> sint a < 10 ^ 18) then Some a else None)"
proof -
  let ?d = "minor_unit_digits c" and ?s = "major_units a c"
  obtain x where x: "sint a = x" by simp
  have "rat_set_string ?s = Some (of_int x / 10 ^ ?d) \<and> list_all decimal_char ?s
    \<and> (plain_decimal ?s 18 ?d \<longleftrightarrow> 0 \<le> x \<and> (0 < ?d \<or> x < 10 ^ 18))"
  proof (cases "?d = 0")
    case True
    have s: "?s = (if x < 0 then CHR ''-'' # nat_string (nat (- x)) else nat_string (nat x))"
      by (simp add: major_units_def Let_def True int_string_def x)
    show ?thesis
      unfolding s using True rat_of_whole [OF parse_nat_string] plain_decimal_whole [OF all_digits_nat_string nat_string_nonempty]
      by (auto simp: plain_decimal_negative length_nat_string_iff nat_less_iff decimal_char_def)
  next
    case False
    then have d: "0 < ?d" by simp
    obtain m where m: "int m = \<bar>x\<bar>" and s: "?s = (if x < 0 then ''-'' else '''') @ nat_string (m div 10 ^ ?d)
        @ CHR ''.'' # pad0 ?d (nat_string (m mod 10 ^ ?d))"
      using major_units_text [OF refl d, of a] unfolding x by blast
    let ?w = "nat_string (m div 10 ^ ?d)" and ?p = "pad0 ?d (nat_string (m mod 10 ^ ?d))"
    have part: "parse_digits 0 ?p = Some (m mod 10 ^ ?d)" "length ?p = ?d" "all_digits ?p"
      using parse_digits_pad0 length_pad0 [OF _ d] by (auto intro: all_digits_parsed [OF parse_digits_pad0])
    have some: "?p \<noteq> []" using part(2) d by (metis list.size(3) less_irrefl)
    have "parse_nat (?w @ ?p) = Some (m div 10 ^ ?d * 10 ^ length ?p + m mod 10 ^ ?d)"
      by (rule parse_nat_append [OF parse_nat_string part(1)])
    then have n: "parse_nat (?w @ ?p) = Some m" by (simp only: part(2) div_mult_mod_eq)
    have big: "2 \<le> ?d" using minor_unit_digits_cases [of c] d by auto
    have "\<bar>x\<bar> \<le> 9223372036854775808" using in_int64_sint [of a] unfolding x in_int64_def by (simp add: abs_le_iff)
    then have "int m \<le> 9223372036854775808" using m by simp
    then have "m < 10 ^ 20" by simp
    then have "m div 10 ^ ?d < 10 ^ 18"
      using power_increasing [OF big, of "10 :: nat"] by (simp add: less_mult_imp_div_less)
    then have len: "length ?w \<le> 18" by (simp add: length_nat_string_iff)
    have "x = (if x < 0 then - int m else int m)" using m by simp
    then have val: "of_int x = (if x < 0 then - of_nat m else of_nat m :: rat)"
      by (metis of_int_minus of_int_of_nat_eq)
    show ?thesis
      unfolding s using d len val some rat_of_parts [OF all_digits_nat_string nat_string_nonempty part(3) n]
        plain_decimal_parts [OF all_digits_nat_string nat_string_nonempty part(3)] all_digits_decimal [OF part(3)]
      by (auto simp: plain_decimal_negative decimal_char_def part(2))
  qed
  then show ?thesis
    using minor_units_read_exactly [of ?s c a f] unfolding x
    by (auto simp: rat_from_decimal_def trim_decimal minor_units_def Let_def)
qed

section \<open>What a line and an offer come to\<close>

text \<open>The exact figures, as the formulas of the engine state them.\<close>

definition exact_net :: "line_input \<Rightarrow> rat \<Rightarrow> rat \<Rightarrow> rat" where
  "exact_net l qty discount = of_int (sint (li_unit_price l)) * qty * (100 - discount) / 100"

lemma line_totals_iff:
  "line_totals l = Inr f \<longleftrightarrow> (\<exists>qty discount tax_rate.
      rat_from_decimal ''quantity'' (li_quantity l) = Inr qty
    \<and> rat_from_decimal ''discount_pct'' (li_discount l) = Inr discount
    \<and> rat_from_decimal ''tax_rate'' (li_tax_rate l) = Inr tax_rate
    \<and> (let net = round_half_up (exact_net l qty discount); tax = round_half_up (of_int net * tax_rate / 100) in
        in_int64 net \<and> in_int64 tax \<and> in_int64 (net + tax)
        \<and> f = \<lparr>lf_net = word_of_int net, lf_tax = word_of_int tax, lf_total = word_of_int (net + tax)\<rparr>))"
  by (auto simp: line_totals_def exact_net_def Let_def sint_of_int64 simp del: of_int_sint of_int_add)

lemma line_figures_fit:
  assumes "line_totals l = Inr f"
  shows "sint (lf_total f) = sint (lf_net f) + sint (lf_tax f)"
  using assms by (auto simp: line_totals_iff Let_def sint_of_int64 simp del: of_int_add)

text \<open>The sums over the lines, when every line has figures.\<close>

definition figures_of :: "line_input list \<Rightarrow> line_figures list option" where
  "figures_of ls = those (map (\<lambda>l. case line_totals l of Inl _ \<Rightarrow> None | Inr f \<Rightarrow> Some f) ls)"

definition net_of :: "line_figures list \<Rightarrow> int" where "net_of fs = (\<Sum>f\<leftarrow>fs. sint (lf_net f))"
definition tax_of :: "line_figures list \<Rightarrow> int" where "tax_of fs = (\<Sum>f\<leftarrow>fs. sint (lf_tax f))"
definition gross_of :: "line_figures list \<Rightarrow> int" where "gross_of fs = (\<Sum>f\<leftarrow>fs. sint (lf_total f))"

lemmas sums_defs = net_of_def tax_of_def gross_of_def

lemma figures_of_Cons [simp]:
  "figures_of [] = Some []"
  "figures_of (l # ls) = Some fs \<longleftrightarrow> (\<exists>f gs. line_totals l = Inr f \<and> figures_of ls = Some gs \<and> fs = f # gs)"
  by (auto simp: figures_of_def split: sum.splits)

lemma figures_of_gross:
  "figures_of ls = Some fs \<Longrightarrow> gross_of fs = net_of fs + tax_of fs"
  by (induction ls arbitrary: fs) (auto simp: sums_defs line_figures_fit)

lemma sum_lines_iff:
  "sum_lines i ls (n, t, g) = Inr r \<longleftrightarrow>
     (\<exists>fs. figures_of ls = Some fs \<and> r = (n + net_of fs, t + tax_of fs, g + gross_of fs))"
  by (induction ls arbitrary: i n t g) (auto simp: sums_defs algebra_simps split: sum.splits)

lemma offer_totals_iff:
  "offer_totals ls = Inr g \<longleftrightarrow> (\<exists>fs. figures_of ls = Some fs
     \<and> in_int64 (net_of fs) \<and> in_int64 (tax_of fs) \<and> in_int64 (gross_of fs)
     \<and> g = \<lparr>og_net = word_of_int (net_of fs), og_tax = word_of_int (tax_of fs), og_gross = word_of_int (gross_of fs)\<rparr>)"
  by (auto simp: offer_totals_def sum_lines_iff)

lemma figures_of_perm:
  assumes "figures_of ls = Some fs" "mset ls' = mset ls"
  obtains fs' where "figures_of ls' = Some fs'" "mset fs' = mset fs"
proof -
  have *: "figures_of ls = Some fs \<longleftrightarrow> (\<forall>l \<in> set ls. \<exists>f. line_totals l = Inr f) \<and> fs = map (projr \<circ> line_totals) ls" for ls fs
    by (induction ls arbitrary: fs) auto
  have "set ls' = set ls" using assms(2) by (rule mset_eq_setD)
  then have "figures_of ls' = Some (map (projr \<circ> line_totals) ls')" using assms(1) unfolding * by simp
  moreover have "mset (map (projr \<circ> line_totals) ls') = mset fs" using assms unfolding * by (simp only: mset_map)
  ultimately show thesis by (rule that)
qed

lemma sums_perm:
  assumes "mset fs' = mset fs"
  shows "net_of fs' = net_of fs" "tax_of fs' = tax_of fs" "gross_of fs' = gross_of fs"
  using assms unfolding sums_defs by (simp_all only: mset_map flip: sum_mset_sum_list)

text \<open>
  What rounding promises: a nearest integer, and of two equally near ones that further from zero.
\<close>

definition half_away :: "rat \<Rightarrow> int \<Rightarrow> bool" where
  "half_away x n \<longleftrightarrow> \<bar>of_int n - x\<bar> \<le> 1 / 2 \<and> (\<bar>of_int n - x\<bar> = 1 / 2 \<longrightarrow> \<bar>x\<bar> < \<bar>of_int n\<bar>)"

lemma round_half_up_away: "half_away x (round_half_up x)"
proof -
  have "\<bar>x\<bar> < \<bar>of_int (round_half_up x)\<bar>" if tie: "\<bar>of_int (round_half_up x) - x\<bar> = 1 / 2"
  proof (cases "0 \<le> x")
    case True
    then have "round_half_up x = \<lfloor>x + 1 / 2\<rfloor>" by (simp add: round_half_up_eq)
    then have "of_int (round_half_up x) \<le> x + 1 / 2" "x + 1 / 2 < of_int (round_half_up x) + 1" by linarith+
    then show ?thesis using tie True by linarith
  next
    case False
    then have "round_half_up x = \<lceil>x - 1 / 2\<rceil>" by (simp add: round_half_up_eq)
    then have "x - 1 / 2 \<le> of_int (round_half_up x)" "of_int (round_half_up x) < x - 1 / 2 + 1" by linarith+
    then show ?thesis using tie False by linarith
  qed
  then show ?thesis using round_half_up_near by (simp add: half_away_def)
qed

lemma half_away_nonneg: "half_away x n \<Longrightarrow> 0 \<le> x \<Longrightarrow> 0 \<le> n"
  unfolding half_away_def by linarith

text \<open>
  C18. A line is priced to half a minor unit and never wraps. When the engine answers figures for a line, the
  three decimals are readable, the net is the integer nearest to quantity times price less the discount,
  the tax the integer nearest to that net times the rate, each tie going away from zero, the total is
  exactly their
  sum, and no figure of a line with non-negative inputs is negative. It refuses a line only for an unreadable
  decimal or for a figure of that very line that does not fit 64 bits.
\<close>

theorem a_line_is_priced_to_half_a_unit:
  "case line_totals l of
     Inr f \<Rightarrow> (\<exists>qty discount tax_rate.
        rat_from_decimal ''quantity'' (li_quantity l) = Inr qty
      \<and> rat_from_decimal ''discount_pct'' (li_discount l) = Inr discount
      \<and> rat_from_decimal ''tax_rate'' (li_tax_rate l) = Inr tax_rate
      \<and> half_away (exact_net l qty discount) (sint (lf_net f))
      \<and> half_away (of_int (sint (lf_net f)) * tax_rate / 100) (sint (lf_tax f))
      \<and> sint (lf_total f) = sint (lf_net f) + sint (lf_tax f)
      \<and> (0 \<le> exact_net l qty discount \<and> 0 \<le> tax_rate \<longrightarrow> 0 \<le> sint (lf_net f) \<and> 0 \<le> sint (lf_tax f)))
   | Inl (DecimalField field s) \<Rightarrow> rat_from_decimal field s = Inl (DecimalField field s)
        \<and> s \<in> {li_quantity l, li_discount l, li_tax_rate l}
   | Inl (MoneyRange _ _) \<Rightarrow> (\<exists>qty discount tax_rate.
        rat_from_decimal ''quantity'' (li_quantity l) = Inr qty
      \<and> rat_from_decimal ''discount_pct'' (li_discount l) = Inr discount
      \<and> rat_from_decimal ''tax_rate'' (li_tax_rate l) = Inr tax_rate
      \<and> (\<exists>net tax. half_away (exact_net l qty discount) net \<and> half_away (of_int net * tax_rate / 100) tax
           \<and> \<not> (in_int64 net \<and> in_int64 tax \<and> in_int64 (net + tax))))
   | Inl _ \<Rightarrow> False"
proof (cases "line_totals l")
  case (Inr f)
  then obtain qty discount tax_rate net tax where p:
      "rat_from_decimal ''quantity'' (li_quantity l) = Inr qty"
      "rat_from_decimal ''discount_pct'' (li_discount l) = Inr discount"
      "rat_from_decimal ''tax_rate'' (li_tax_rate l) = Inr tax_rate"
      "net = round_half_up (exact_net l qty discount)" "tax = round_half_up (of_int net * tax_rate / 100)"
      "in_int64 net" "in_int64 tax" "f = \<lparr>lf_net = word_of_int net, lf_tax = word_of_int tax, lf_total = word_of_int (net + tax)\<rparr>"
    unfolding line_totals_iff Let_def by blast
  then have f: "sint (lf_net f) = net" "sint (lf_tax f) = tax" by (simp_all add: sint_of_int64)
  have "0 \<le> net \<and> 0 \<le> tax" if "0 \<le> exact_net l qty discount" "0 \<le> tax_rate"
    using that p(4,5) round_half_up_nonneg by simp
  moreover have "half_away (exact_net l qty discount) net" "half_away (of_int net * tax_rate / 100) tax"
    unfolding p(4,5) by (rule round_half_up_away)+
  ultimately show ?thesis unfolding Inr sum.case line_figures_fit [OF Inr] f using p(1-3) by blast
next
  case (Inl e)
  have rat: "rat_from_decimal field s = Inl e \<Longrightarrow> e = DecimalField field s" for field s
    by (auto simp: rat_from_decimal_def split: if_splits option.splits)
  have big: "minor_from_big v figure ins = Inl e \<Longrightarrow> e = MoneyRange figure ins" for v figure ins
    by (auto simp: minor_from_big_def split: if_splits)
  consider (decimal) field s where "rat_from_decimal field s = Inl e" "s \<in> {li_quantity l, li_discount l, li_tax_rate l}"
    | (range) q d t v figure ins where "minor_from_big v figure ins = Inl e"
        "rat_from_decimal ''quantity'' (li_quantity l) = Inr q" "rat_from_decimal ''discount_pct'' (li_discount l) = Inr d"
        "rat_from_decimal ''tax_rate'' (li_tax_rate l) = Inr t"
    using Inl unfolding line_totals_def bindR_Inl_iff Let_def by blast
  then show ?thesis
  proof cases
    case decimal
    then show ?thesis using Inl rat [OF decimal(1)] by simp
  next
    case range
    then have e: "line_totals l = Inl (MoneyRange figure ins)" using Inl big [OF range(1)] by simp
    then have "\<not> (\<exists>f. line_totals l = Inr f)" by simp
    let ?net = "round_half_up (exact_net l q d)"
    have "\<not> (in_int64 ?net \<and> in_int64 (round_half_up (of_int ?net * t / 100))
        \<and> in_int64 (?net + round_half_up (of_int ?net * t / 100)))"
      using \<open>\<nexists>f. line_totals l = Inr f\<close> range(2-4) unfolding line_totals_iff Let_def by blast
    then have "\<exists>net tax. half_away (exact_net l q d) net \<and> half_away (of_int net * t / 100) tax
        \<and> \<not> (in_int64 net \<and> in_int64 tax \<and> in_int64 (net + tax))"
      using round_half_up_away by blast
    then show ?thesis using range(2-4) unfolding e by simp
  qed
qed

text \<open>
  C19. An offer's totals reconcile to its lines with no drift. They are answered exactly when every line has
  figures and the three sums fit 64 bits; each total is then the sum of the lines' figures as numbers, gross
  is net plus tax, and no order of the lines changes any of them.
\<close>

theorem totals_reconcile_to_the_lines:
  "(offer_totals ls = Inr g \<longleftrightarrow> (\<exists>fs. figures_of ls = Some fs \<and> in_int64 (gross_of fs)
      \<and> sint (og_net g) = net_of fs \<and> sint (og_tax g) = tax_of fs
      \<and> sint (og_gross g) = gross_of fs \<and> gross_of fs = net_of fs + tax_of fs))
   \<and> (mset ls' = mset ls \<longrightarrow> offer_totals ls = Inr g \<longrightarrow> offer_totals ls' = Inr g)"
proof -
  have word: "sint (w :: int64) = v \<longleftrightarrow> in_int64 v \<and> w = word_of_int v" for w v
    using sint_of_int64 [of v] in_int64_sint [of w] by auto
  have "offer_totals ls = Inr g \<longleftrightarrow> (\<exists>fs. figures_of ls = Some fs \<and> in_int64 (gross_of fs)
      \<and> sint (og_net g) = net_of fs \<and> sint (og_tax g) = tax_of fs
      \<and> sint (og_gross g) = gross_of fs \<and> gross_of fs = net_of fs + tax_of fs)"
    unfolding offer_totals_iff word using figures_of_gross [of ls] by (cases g) auto
  moreover have "offer_totals ls' = Inr g" if same: "mset ls' = mset ls" and totals: "offer_totals ls = Inr g"
  proof -
    obtain fs where fs: "figures_of ls = Some fs" "in_int64 (net_of fs)" "in_int64 (tax_of fs)" "in_int64 (gross_of fs)"
      "g = \<lparr>og_net = word_of_int (net_of fs), og_tax = word_of_int (tax_of fs), og_gross = word_of_int (gross_of fs)\<rparr>"
      using totals unfolding offer_totals_iff by blast
    obtain fs' where "figures_of ls' = Some fs'" "mset fs' = mset fs" by (rule figures_of_perm [OF fs(1) same])
    then show ?thesis unfolding offer_totals_iff using fs sums_perm [of fs' fs] by metis
  qed
  ultimately show ?thesis by blast
qed

text \<open>Two and a half days at 19.99, ten per cent off, nineteen per cent tax; and a day at full price.\<close>

definition consulting :: line_input where
  "consulting = \<lparr>li_quantity = ''2.500'', li_unit_price = 1999, li_discount = ''10.00'', li_tax_rate = ''19.00''\<rparr>"

definition one_day :: line_input where
  "one_day = \<lparr>li_quantity = ''1.000'', li_unit_price = 5, li_discount = ''0.00'', li_tax_rate = ''10.00''\<rparr>"

lemma sample_digits:
  "parse_nat ''2500'' = Some 2500" "parse_nat ''1000'' = Some 1000" "parse_nat ''1900'' = Some 1900"
  "parse_nat ''000'' = Some 0"
  by code_simp+

lemma sample_decimals:
  "rat_from_decimal f ''2.500'' = Inr (5 / 2)" "rat_from_decimal f ''1.000'' = Inr 1"
  "rat_from_decimal f ''10.00'' = Inr 10" "rat_from_decimal f ''19.00'' = Inr 19" "rat_from_decimal f ''0.00'' = Inr 0"
  by (simp_all add: rat_from_decimal_def rat_set_string_def decimal_char_def digit_value_def sample_digits)

lemma sample_lines:
  "line_totals consulting = Inr \<lparr>lf_net = 4498, lf_tax = 855, lf_total = 5353\<rparr>"
  "line_totals one_day = Inr \<lparr>lf_net = 5, lf_tax = 1, lf_total = 6\<rparr>"
proof -
  have "round_half_up (17991 / 4) = 4498" "round_half_up (42731 / 50) = 855" "round_half_up (1 / 2) = 1"
    by (rule round_half_up_is; simp)+
  moreover have "round_half_up 5 = 5" using round_half_up_int [of 5] by simp
  ultimately show "line_totals consulting = Inr \<lparr>lf_net = 4498, lf_tax = 855, lf_total = 5353\<rparr>"
    "line_totals one_day = Inr \<lparr>lf_net = 5, lf_tax = 1, lf_total = 6\<rparr>"
    by (simp_all add: line_totals_def consulting_def one_day_def sample_decimals minor_from_big_def in_int64_def)
qed

lemma sample_offers:
  "offer_totals [consulting, one_day] = Inr \<lparr>og_net = 4503, og_tax = 856, og_gross = 5359\<rparr>"
  by (simp add: offer_totals_def sample_lines minor_from_big_def in_int64_def)

theorem a_line_is_priced_to_half_a_unit_witness:
  "0 \<le> exact_net consulting (5 / 2) 10 \<and> line_totals consulting = Inr \<lparr>lf_net = 4498, lf_tax = 855, lf_total = 5353\<rparr>
   \<and> half_away (exact_net consulting (5 / 2) 10) 4498"
proof -
  have "rat_from_decimal f (li_quantity consulting) = Inr (5 / 2)" "rat_from_decimal f (li_discount consulting) = Inr 10" for f
    by (simp_all add: consulting_def sample_decimals)
  moreover obtain q d where "rat_from_decimal ''quantity'' (li_quantity consulting) = Inr q"
    "rat_from_decimal ''discount_pct'' (li_discount consulting) = Inr d" "half_away (exact_net consulting q d) 4498"
    using a_line_is_priced_to_half_a_unit [of consulting] by (auto simp: sample_lines)
  ultimately have "half_away (exact_net consulting (5 / 2) 10) 4498" by (metis sum.inject(2))
  then show ?thesis by (simp add: sample_lines) (simp add: exact_net_def consulting_def)
qed

theorem totals_reconcile_to_the_lines_witness:
  "offer_totals [one_day, consulting] = Inr \<lparr>og_net = 4503, og_tax = 856, og_gross = 5359\<rparr>"
proof -
  have "mset [one_day, consulting] = mset [consulting, one_day]" by simp
  from totals_reconcile_to_the_lines [THEN conjunct2, rule_format, OF this sample_offers] show ?thesis .
qed

end
