(* ===== verification/Offer_Store.thy ===== *)
theory Offer_Store
  imports Offer_Totals Row_Patch Row_Scope
begin

text \<open>
  Offers and their lines: \<^verbatim>\<open>offer.go\<close>, \<^verbatim>\<open>offer_lines.go\<close>,
  \<^verbatim>\<open>offer_staged.go\<close>, \<^verbatim>\<open>offer_read.go\<close> and the rate an offer freezes, of
  \<^verbatim>\<open>backend/internal/modules/deals\<close>. A table is the list of its rows; a numeric column is an integer
  count of its last decimal place; the CHECK constraints the writes can meet are kept. The installation's
  settings and the stamp on correspondence are functions the composition injects.
\<close>

section \<open>Rows\<close>

datatype deal_status = DealOpen | DealWon | DealLost

record deal_row =
  dr_id :: uuid
  dr_status :: deal_status
  dr_amount :: "int64 option"
  dr_currency :: "string option"
  dr_closed_at :: "time option"
  dr_fx_rate :: "int option"
  dr_fx_date :: "time option"
  dr_org :: "uuid option"
  dr_version :: int

record product_row =
  pd_id :: uuid
  pd_name :: string
  pd_unit :: string
  pd_currency :: string
  pd_tax :: int
  pd_price :: int64
  pd_archived_at :: "time option"

record fx_row =
  fx_from :: string
  fx_to :: string
  fx_rate :: int
  fx_date :: time

record line_row =
  lr_id :: uuid
  lr_offer :: uuid
  lr_position :: int
  lr_product :: "uuid option"
  lr_description :: string
  lr_unit :: string
  lr_quantity :: int
  lr_price :: int64
  lr_discount :: int
  lr_tax :: int
  lr_evidence :: "(string \<times> string) option"
  lr_state :: proposal_state
  lr_grounded :: bool

record offer_header =
  or_id :: uuid
  or_deal :: uuid
  or_number :: string
  or_revision :: int
  or_status :: offer_status
  or_currency :: string
  or_buyer_org :: "uuid option"
  or_buyer_snapshot :: image
  or_issuer_snapshot :: image
  or_valid_until :: "string option"
  or_intro :: "string option"
  or_terms :: "string option"
  or_net :: int64
  or_tax :: int64
  or_gross :: int64
  or_fx_rate :: "int option"
  or_fx_date :: "time option"
  or_pdf :: "string option"
  or_accepted_at :: "time option"
  or_template :: "uuid option"
  or_source :: string
  or_captured_by :: string
  or_version :: int
  or_archived_at :: "time option"

datatype offer_body =
    OfferCreatedBody uuid uuid int string string string
  | OfferSentBody uuid uuid int int64 string "string option"
  | OfferAcceptedBody uuid uuid int int64
  | OfferRejectedBody uuid uuid int "string option"
  | OfferSupersededBody uuid uuid int int
  | DealUpdatedBody "(string \<times> json) list"

record offer_db =
  od_scope :: scope_db
  od_offers :: "offer_header list"
  od_lines :: "line_row list"
  od_deals :: "deal_row list"
  od_products :: "product_row list"
  od_templates :: "uuid list"
  od_orgs :: "(uuid \<times> string \<times> string option) list"
  od_rates :: "fx_row list"
  od_ledger :: "offer_body ledger"
  od_now :: time

type_synonym 'a offer_tx = "offer_db \<Rightarrow> offer_error + ('a \<times> offer_db)"

text \<open>
  What a call brings: the ids it mints, \<open>time.Now\<close>, the installation's base currency and name, and the
  stamp on a deal's correspondence.
\<close>

record offer_svc =
  sv_kit :: kit
  sv_now :: time
  sv_offer_id :: uuid
  sv_line_id :: "nat \<Rightarrow> uuid"
  sv_base :: "offer_db \<Rightarrow> offer_error + string"
  sv_name :: "offer_db \<Rightarrow> offer_error + string"
  sv_stamp :: "uuid \<Rightarrow> offer_db \<Rightarrow> offer_error + offer_db"

definition lift_o :: "'a result \<Rightarrow> offer_error + 'a" where
  "lift_o r = (case r of Inl e \<Rightarrow> Inl (OApp e) | Inr x \<Rightarrow> Inr x)"

lemma lift_o_iff [simp]: "lift_o r = Inr x \<longleftrightarrow> r = Inr x"
  by (simp add: lift_o_def split: sum.split)

section \<open>Numeric columns\<close>

text \<open>\<open>numeric(p, k)\<close>: the \<open>::text\<close> of a column, and what an assignment of text stores.\<close>

definition numeric_text :: "nat \<Rightarrow> int \<Rightarrow> string" where
  "numeric_text k n = (let m = nat \<bar>n\<bar> in
     (if n < 0 then ''-'' else '''') @ nat_string (m div 10 ^ k) @ ''.'' @ pad0 k (nat_string (m mod 10 ^ k)))"

definition to_numeric :: "nat \<Rightarrow> nat \<Rightarrow> string \<Rightarrow> offer_error + int" where
  "to_numeric p k s =
     (case rat_set_string s of
        None \<Rightarrow> Inl (OApp (ErrOther ''invalid input syntax for type numeric''))
      | Some r \<Rightarrow> let n = round_half_up (r * 10 ^ k) in
          if \<bar>n\<bar> < 10 ^ p then Inr n else Inl (OApp (ErrOther ''numeric field overflow'')))"

definition in_int32 :: "int \<Rightarrow> bool" where "in_int32 v \<longleftrightarrow> - (2 ^ 31) \<le> v \<and> v < 2 ^ 31"

definition to_int4 :: "int \<Rightarrow> offer_error + int" where
  "to_int4 v = (if in_int32 v then Inr v else Inl (OApp (ErrOther ''integer out of range'')))"

section \<open>Tables\<close>

definition offer_table :: "offer_header table" where
  "offer_table = \<lparr>tb_id = or_id, tb_live = (\<lambda>r. or_archived_at r = None), tb_version = or_version,
     tb_touch = (\<lambda>r. r\<lparr>or_version := or_version r + 1\<rparr>)\<rparr>"

definition lines_of :: "uuid \<Rightarrow> offer_db \<Rightarrow> line_row list" where
  "lines_of i w = filter (\<lambda>l. lr_offer l = i) (od_lines w)"

definition line_input_of :: "line_row \<Rightarrow> line_input" where
  "line_input_of l = \<lparr>li_quantity = numeric_text 3 (lr_quantity l), li_unit_price = lr_price l,
     li_discount = numeric_text 2 (lr_discount l), li_tax_rate = numeric_text 2 (lr_tax l)\<rparr>"

definition line_checks :: "(string \<times> (line_row \<Rightarrow> bool)) list" where
  "line_checks =
     [(''offer_line_item_discount_pct_check'', \<lambda>l. 0 \<le> lr_discount l \<and> lr_discount l \<le> 10000),
      (''offer_line_item_position_check'', \<lambda>l. 1 \<le> lr_position l),
      (''offer_line_item_quantity_check'', \<lambda>l. 0 < lr_quantity l),
      (''offer_line_item_tax_rate_check'', \<lambda>l. 0 \<le> lr_tax l),
      (''offer_line_item_ungrounded_price_zero'', \<lambda>l. lr_grounded l \<or> lr_price l = 0),
      (''offer_line_item_unit_price_minor_check'', \<lambda>l. 0 \<le> sint (lr_price l))]"

definition check_line :: "line_row \<Rightarrow> offer_error + unit" where
  "check_line l =
     (case find (\<lambda>(_, holds). \<not> holds l) line_checks of None \<Rightarrow> Inr () | Some (n, _) \<Rightarrow> Inl (CheckViolated n))"

definition position_taken :: "line_row \<Rightarrow> offer_db \<Rightarrow> bool" where
  "position_taken l w \<longleftrightarrow>
     list_ex (\<lambda>x. lr_offer x = lr_offer l \<and> lr_position x = lr_position l \<and> lr_id x \<noteq> lr_id l) (od_lines w)"

text \<open>\<open>INSERT INTO offer_line_item\<close>, with the mapping of a position collision.\<close>

definition insert_line_row :: "line_row \<Rightarrow> unit offer_tx" where
  "insert_line_row l w =
     bindR (check_line l) (\<lambda>_.
     if position_taken l w then Inl (OApp ErrConflict)
     else Inr ((), w\<lparr>od_lines := od_lines w @ [l]\<rparr>))"

definition check_currency :: "string \<Rightarrow> offer_error + unit" where
  "check_currency s = (if valid_currency s then Inr () else Inl (CheckViolated ''offer_currency_check''))"

section \<open>The ledger\<close>

definition offer_ledger_tx :: "(offer_body ledger \<Rightarrow> ('a \<times> offer_body ledger) result) \<Rightarrow> 'a offer_tx" where
  "offer_ledger_tx f w = bindR (lift_o (f (od_ledger w))) (\<lambda>(x, l). Inr (x, w\<lparr>od_ledger := l\<rparr>))"

definition audit_offer :: "offer_svc \<Rightarrow> ctx \<Rightarrow> string \<Rightarrow> uuid \<Rightarrow> image \<Rightarrow> image \<Rightarrow> uuid offer_tx" where
  "audit_offer s c act i before after = offer_ledger_tx (audit_entry (sv_kit s) c act ''offer'' i before after)"

definition emit_offer :: "offer_svc \<Rightarrow> ctx \<Rightarrow> uuid \<Rightarrow> uuid \<Rightarrow> string \<Rightarrow> string \<Rightarrow> offer_body \<Rightarrow> unit offer_tx" where
  "emit_offer s c audit_id i event_type entity_type body = offer_ledger_tx (\<lambda>l.
     bindR (emit_event (sv_kit s) c audit_id i
       \<lparr>py_event_type = event_type, py_entity_type = entity_type, py_body = body\<rparr> l) (\<lambda>l. Inr ((), l)))"

section \<open>Reads\<close>

definition read_offer :: "uuid \<Rightarrow> archived_filter \<Rightarrow> offer_db \<Rightarrow> offer_error + offer_header" where
  "read_offer i f w =
     (case find (selects offer_table f i) (od_offers w) of None \<Rightarrow> Inl (OApp ErrNotFound) | Some r \<Rightarrow> Inr r)"

type_synonym offer_view = "offer_header \<times> (line_row \<times> line_figures) list"

fun line_views :: "line_row list \<Rightarrow> offer_error + (line_row \<times> line_figures) list" where
  "line_views [] = Inr []"
| "line_views (l # ls) =
     bindR (line_totals (line_input_of l)) (\<lambda>f. bindR (line_views ls) (\<lambda>vs. Inr ((l, f) # vs)))"

text \<open>Every line of the offer, by position, with the figures the engine derives for it.\<close>

definition read_offer_lines :: "uuid \<Rightarrow> offer_db \<Rightarrow> offer_error + (line_row \<times> line_figures) list" where
  "read_offer_lines i w = line_views (sort_key lr_position (sort_key lr_id (lines_of i w)))"

definition read_offer_with_lines :: "uuid \<Rightarrow> archived_filter \<Rightarrow> offer_db \<Rightarrow> offer_error + offer_view" where
  "read_offer_with_lines i f w =
     bindR (read_offer i f w) (\<lambda>r. bindR (read_offer_lines i w) (\<lambda>ls. Inr (r, ls)))"

definition visible_offer :: "ctx \<Rightarrow> uuid \<Rightarrow> archived_filter \<Rightarrow> offer_db \<Rightarrow> offer_error + offer_header" where
  "visible_offer c i f w =
     bindR (read_offer i f w) (\<lambda>r.
     bindR (lift_o (ensure_visible c (od_scope w) ''deal'' (or_deal r))) (\<lambda>_. Inr r))"

definition visible_offer_locked :: "ctx \<Rightarrow> uuid \<Rightarrow> archived_filter \<Rightarrow> offer_db \<Rightarrow> offer_error + offer_header" where
  "visible_offer_locked c i f w =
     bindR (lift_o (lock_row offer_table LiveOnly i (od_offers w))) (\<lambda>_.
     bindR (visible_offer c i f w) (\<lambda>r.
     bindR (lift_o (ensure_writable c (od_scope w) ''deal'' (or_deal r))) (\<lambda>_. Inr r)))"

definition ensure_draft :: "offer_header \<Rightarrow> offer_error + unit" where
  "ensure_draft r = (if or_status r \<noteq> OfferStatusDraft then Inl (OfferNotDraft (or_status r)) else Inr ())"

definition answer_view :: "uuid \<Rightarrow> archived_filter \<Rightarrow> offer_view offer_tx" where
  "answer_view i f w = bindR (read_offer_with_lines i f w) (\<lambda>v. Inr (v, w))"

definition get_offer :: "ctx \<Rightarrow> uuid \<Rightarrow> archived_filter \<Rightarrow> offer_db \<Rightarrow> (offer_error + offer_view) \<times> offer_db" where
  "get_offer c i f w =
     (case require c ''offer'' ActionRead of
        Inl e \<Rightarrow> (Inl (OApp e), w)
      | Inr _ \<Rightarrow> run_tx (\<lambda>w. bindR (visible_offer c i f w) (\<lambda>_. answer_view i f w)) w)"

section \<open>Totals\<close>

definition stateful :: "line_row \<Rightarrow> stateful_line" where
  "stateful l = \<lparr>sl_line = line_input_of l, sl_state = lr_state l\<rparr>"

definition priced_lines :: "uuid \<Rightarrow> offer_db \<Rightarrow> line_input list" where
  "priced_lines i w = accepted_lines (map stateful (lines_of i w))"

definition store_totals :: "offer_figures \<Rightarrow> offer_header \<Rightarrow> offer_header" where
  "store_totals g r = tb_touch offer_table (r\<lparr>or_net := og_net g, or_tax := og_tax g, or_gross := og_gross g\<rparr>)"

definition recompute_offer_totals :: "uuid \<Rightarrow> unit offer_tx" where
  "recompute_offer_totals i w =
     bindR (offer_totals (priced_lines i w)) (\<lambda>g.
       Inr ((), w\<lparr>od_offers := update_where (\<lambda>r. or_id r = i) (store_totals g) (od_offers w)\<rparr>))"

section \<open>The frozen rate\<close>

definition fx_day :: duration where "fx_day = 24 * hour"

definition truncate_day :: "time \<Rightarrow> time" where "truncate_day t = t - t mod fx_day"

definition newest_rate :: "fx_row list \<Rightarrow> fx_row option" where
  "newest_rate rs = fold (\<lambda>r best. case best of None \<Rightarrow> Some r
     | Some b \<Rightarrow> if fx_date b < fx_date r then Some r else Some b) rs None"

definition freeze_fx :: "string \<Rightarrow> string \<Rightarrow> time \<Rightarrow> fx_row list \<Rightarrow> offer_error + (string \<times> time)" where
  "freeze_fx base currency as_of rates =
     (let as_of_date = truncate_day as_of in
      if currency = base then Inr (''1'', as_of_date)
      else case newest_rate (filter (\<lambda>r. fx_from r = currency \<and> fx_to r = base \<and> fx_date r \<le> as_of_date) rates) of
        None \<Rightarrow> Inl (MissingFxRate currency base)
      | Some r \<Rightarrow> Inr (numeric_text 10 (fx_rate r), as_of_date))"

end
