(* ===== verification/Offer_Edit.thy ===== *)
theory Offer_Edit
  imports Offer_Store
begin

text \<open>
  The writes a draft offer admits: creating it, editing its header and its lines, staging drafted lines,
  archiving it. Each is one transaction over the tables; whatever touches a line derives the stored totals
  again before it commits.
\<close>

section \<open>Lines\<close>

record line_req =
  lq_position :: "int option"
  lq_product :: "uuid option"
  lq_description :: "string option"
  lq_unit :: "string option"
  lq_quantity :: string
  lq_price :: "int64 option"
  lq_discount :: "string option"
  lq_tax :: "string option"

record line_defaults =
  ld_description :: "string option"
  ld_unit :: "string option"
  ld_price :: "int64 option"
  ld_tax :: "string option"

record resolved_line =
  rl_description :: string
  rl_unit :: string
  rl_price :: int64
  rl_discount :: string
  rl_tax :: string

definition or_else :: "'a option \<Rightarrow> 'a \<Rightarrow> 'a option" where
  "or_else v d = (case v of None \<Rightarrow> Some d | Some x \<Rightarrow> Some x)"

definition resolve_product_snapshot ::
  "uuid option \<Rightarrow> string \<Rightarrow> line_defaults \<Rightarrow> offer_db \<Rightarrow> offer_error + line_defaults" where
  "resolve_product_snapshot product offer_currency inp w =
     (case product of
        None \<Rightarrow> Inr inp
      | Some i \<Rightarrow>
          (case find (\<lambda>p. pd_id p = i \<and> pd_archived_at p = None) (od_products w) of
             None \<Rightarrow> Inl (OApp ErrNotFound)
           | Some p \<Rightarrow>
               if ld_price inp = None \<and> pd_currency p \<noteq> offer_currency
               then Inl (ProductCurrencyMismatch (pd_currency p) offer_currency)
               else Inr \<lparr>ld_description = or_else (ld_description inp) (pd_name p),
                         ld_unit = or_else (ld_unit inp) (pd_unit p),
                         ld_price = or_else (ld_price inp) (pd_price p),
                         ld_tax = or_else (ld_tax inp) (numeric_text 2 (pd_tax p))\<rparr>))"

definition normalize_line_defaults :: "string option \<Rightarrow> string option \<Rightarrow> string option \<Rightarrow> string \<times> string \<times> string" where
  "normalize_line_defaults u discount tax =
     ((case u of Some x \<Rightarrow> if x \<noteq> [] then x else ''unit'' | None \<Rightarrow> ''unit''),
      (case discount of Some d \<Rightarrow> d | None \<Rightarrow> ''0.00''), (case tax of Some t \<Rightarrow> t | None \<Rightarrow> ''0.00''))"

definition next_offer_line_position :: "uuid \<Rightarrow> offer_db \<Rightarrow> offer_error + int" where
  "next_offer_line_position i w = to_int4 (foldr max (map lr_position (lines_of i w)) 0 + 1)"

definition insert_offer_line_row :: "uuid \<Rightarrow> uuid \<Rightarrow> line_req \<Rightarrow> resolved_line \<Rightarrow> unit offer_tx" where
  "insert_offer_line_row line_id i inp l w =
     bindR (case lq_position inp of Some n \<Rightarrow> to_int4 n | None \<Rightarrow> next_offer_line_position i w) (\<lambda>position.
     bindR (to_numeric 14 3 (lq_quantity inp)) (\<lambda>quantity.
     bindR (to_numeric 5 2 (rl_discount l)) (\<lambda>discount.
     bindR (to_numeric 5 2 (rl_tax l)) (\<lambda>tax.
       insert_line_row \<lparr>lr_id = line_id, lr_offer = i, lr_position = position, lr_product = lq_product inp,
         lr_description = rl_description l, lr_unit = rl_unit l, lr_quantity = quantity, lr_price = rl_price l,
         lr_discount = discount, lr_tax = tax, lr_evidence = None, lr_state = ProposalAccepted,
         lr_grounded = True\<rparr> w))))"

definition insert_offer_line :: "uuid \<Rightarrow> uuid \<Rightarrow> string \<Rightarrow> line_req \<Rightarrow> unit offer_tx" where
  "insert_offer_line line_id i currency inp w =
     bindR (resolve_product_snapshot (lq_product inp) currency
       \<lparr>ld_description = lq_description inp, ld_unit = lq_unit inp, ld_price = lq_price inp, ld_tax = lq_tax inp\<rparr> w) (\<lambda>d.
     if ld_description d = None \<or> ld_description d = Some [] then Inl (RequiredField ''description'')
     else case ld_price d of
       None \<Rightarrow> Inl (RequiredField ''unit_price_minor'')
     | Some price \<Rightarrow>
         (case normalize_line_defaults (ld_unit d) (lq_discount inp) (ld_tax d) of (u, discount, tax) \<Rightarrow>
           bindR (line_totals \<lparr>li_quantity = lq_quantity inp, li_unit_price = price, li_discount = discount,
                     li_tax_rate = tax\<rparr>) (\<lambda>_.
           insert_offer_line_row line_id i inp \<lparr>rl_description = the (ld_description d), rl_unit = u,
             rl_price = price, rl_discount = discount, rl_tax = tax\<rparr> w)))"

fun insert_offer_lines :: "(nat \<Rightarrow> uuid) \<Rightarrow> nat \<Rightarrow> uuid \<Rightarrow> string \<Rightarrow> line_req list \<Rightarrow> unit offer_tx" where
  "insert_offer_lines ids n i currency [] w = Inr ((), w)"
| "insert_offer_lines ids n i currency (l # ls) w =
     (case insert_offer_line (ids n) i currency l w of
        Inl e \<Rightarrow> Inl (AtLine (n + 1) e)
      | Inr (_, w') \<Rightarrow> insert_offer_lines ids (n + 1) i currency ls w')"

section \<open>Creating\<close>

record create_offer_input =
  co_currency :: string
  co_buyer_org :: "uuid option"
  co_valid_until :: "string option"
  co_intro :: "string option"
  co_terms :: "string option"
  co_template :: "uuid option"
  co_lines :: "line_req list"
  co_source :: string

definition deal_by_id :: "uuid \<Rightarrow> offer_db \<Rightarrow> deal_row option" where
  "deal_by_id i w = find (\<lambda>d. dr_id d = i) (od_deals w)"

definition no_rows :: offer_error where "no_rows = OApp (ErrOther ''no rows in result set'')"

definition resolve_buyer_org :: "ctx \<Rightarrow> uuid \<Rightarrow> uuid option \<Rightarrow> offer_db \<Rightarrow> offer_error + uuid option" where
  "resolve_buyer_org c deal buyer w =
     (case buyer of
        Some org \<Rightarrow> bindR (lift_o (ensure_link_target c (od_scope w) ''organization'' org)) (\<lambda>_. Inr (Some org))
      | None \<Rightarrow> (case deal_by_id deal w of None \<Rightarrow> Inl no_rows | Some d \<Rightarrow> Inr (dr_org d)))"

text \<open>\<open>od_templates\<close> holds the templates that are not archived.\<close>

definition resolve_offer_template_ref :: "uuid option \<Rightarrow> offer_db \<Rightarrow> offer_error + unit" where
  "resolve_offer_template_ref template w =
     (case template of None \<Rightarrow> Inr ()
      | Some t \<Rightarrow> if t \<in> set (od_templates w) then Inr () else Inl (OApp ErrNotFound))"

text \<open>\<open>substring(offer_number FROM '^A-([0-9]+)$')::int\<close>, and the mint over every row.\<close>

definition number_part :: "string \<Rightarrow> int option" where
  "number_part s = (case cut_prefix ''A-'' s of None \<Rightarrow> None | Some d \<Rightarrow> map_option int (parse_nat d))"

definition next_offer_number :: "offer_db \<Rightarrow> offer_error + string" where
  "next_offer_number w =
     (let ns = List.map_filter (\<lambda>r. number_part (or_number r)) (od_offers w) in
      if \<not> list_all in_int32 ns then Inl (OApp (ErrOther ''integer out of range''))
      else bindR (to_int4 ((if ns = [] then 1000 else foldr max ns 0) + 1)) (\<lambda>n. Inr (''A-'' @ int_string n)))"

definition insert_offer :: "offer_header \<Rightarrow> unit offer_tx" where
  "insert_offer r w =
     bindR (check_currency (or_currency r)) (\<lambda>_.
     if list_ex (\<lambda>x. or_number x = or_number r \<and> or_revision x = or_revision r) (od_offers w)
     then Inl (OApp (ErrOther ''offer_number_rev_unique''))
     else Inr ((), w\<lparr>od_offers := od_offers w @ [r]\<rparr>))"

definition draft_row :: "uuid \<Rightarrow> uuid \<Rightarrow> string \<Rightarrow> uuid option \<Rightarrow> create_offer_input \<Rightarrow> string \<Rightarrow> offer_header" where
  "draft_row i deal number buyer inp by_whom =
     \<lparr>or_id = i, or_deal = deal, or_number = number, or_revision = 1, or_status = OfferStatusDraft,
      or_currency = co_currency inp, or_buyer_org = buyer, or_buyer_snapshot = None, or_issuer_snapshot = None,
      or_valid_until = co_valid_until inp, or_intro = co_intro inp, or_terms = co_terms inp, or_net = 0, or_tax = 0,
      or_gross = 0, or_fx_rate = None, or_fx_date = None, or_pdf = None, or_accepted_at = None,
      or_template = co_template inp, or_source = co_source inp, or_captured_by = by_whom, or_version = 1,
      or_archived_at = None\<rparr>"

definition create_offer_tx :: "offer_svc \<Rightarrow> ctx \<Rightarrow> uuid \<Rightarrow> create_offer_input \<Rightarrow> string \<Rightarrow> offer_view offer_tx" where
  "create_offer_tx s c deal inp by_whom w =
     bindR (lift_o (ensure_link_target c (od_scope w) ''deal'' deal)) (\<lambda>_.
     bindR (resolve_buyer_org c deal (co_buyer_org inp) w) (\<lambda>buyer.
     bindR (resolve_offer_template_ref (co_template inp) w) (\<lambda>_.
     bindR (next_offer_number w) (\<lambda>number. let i = sv_offer_id s in
     bindR (insert_offer (draft_row i deal number buyer inp by_whom) w) (\<lambda>(_, w).
     bindR (insert_offer_lines (sv_line_id s) 0 i (co_currency inp) (co_lines inp) w) (\<lambda>(_, w).
     bindR (recompute_offer_totals i w) (\<lambda>(_, w).
     bindR (audit_offer s c ''create'' i None (Some [(''offer_number'', JStr number),
         (''deal_id'', JStr (uuid_string deal)), (''currency'', JStr (co_currency inp))]) w) (\<lambda>(audit_id, w).
     bindR (emit_offer s c audit_id i ''offer.created'' ''offer''
         (OfferCreatedBody i deal 1 (co_currency inp) (co_source inp) by_whom) w) (\<lambda>(_, w).
       answer_view i LiveOnly w)))))))))"

definition create_offer ::
  "offer_svc \<Rightarrow> ctx \<Rightarrow> uuid \<Rightarrow> create_offer_input \<Rightarrow> offer_db \<Rightarrow> (offer_error + offer_view) \<times> offer_db" where
  "create_offer s c deal inp w =
     (case bindR (require c ''offer'' ActionCreate) (\<lambda>_. captured_by c) of
        Inl e \<Rightarrow> (Inl (OApp e), w)
      | Inr by_whom \<Rightarrow> run_tx (create_offer_tx s c deal inp by_whom) w)"

section \<open>Editing a draft\<close>

text \<open>The beginning every edit shares: the update grant, then the locked row, and its status.\<close>

definition require_update :: "ctx \<Rightarrow> 'a offer_tx \<Rightarrow> offer_db \<Rightarrow> (offer_error + 'a) \<times> offer_db" where
  "require_update c tx w =
     (case require c ''offer'' ActionUpdate of Inl e \<Rightarrow> (Inl (OApp e), w) | Inr _ \<Rightarrow> run_tx tx w)"

definition on_draft :: "ctx \<Rightarrow> uuid \<Rightarrow> (offer_header \<Rightarrow> 'a offer_tx) \<Rightarrow> 'a offer_tx" where
  "on_draft c i k w =
     bindR (visible_offer_locked c i LiveOnly w) (\<lambda>current. bindR (ensure_draft current) (\<lambda>_. k current w))"

text \<open>The end every line edit shares: totals, audit, and the offer as it stands.\<close>

definition after_lines :: "offer_svc \<Rightarrow> ctx \<Rightarrow> uuid \<Rightarrow> image \<Rightarrow> image \<Rightarrow> offer_view offer_tx" where
  "after_lines s c i before after w =
     bindR (recompute_offer_totals i w) (\<lambda>(_, w).
     bindR (audit_offer s c ''update'' i before after w) (\<lambda>(_, w). answer_view i LiveOnly w))"

definition add_offer_line_item ::
  "offer_svc \<Rightarrow> ctx \<Rightarrow> uuid \<Rightarrow> line_req \<Rightarrow> offer_db \<Rightarrow> (offer_error + offer_view) \<times> offer_db" where
  "add_offer_line_item s c i inp = require_update c (on_draft c i (\<lambda>current w.
     bindR (insert_offer_line (sv_line_id s 0) i (or_currency current) inp w) (\<lambda>(_, w).
       after_lines s c i None (Some [(''line_added'', JBool True)]) w)))"

record update_line_input =
  ul_position :: "int option"
  ul_description :: "string option"
  ul_unit :: "string option"
  ul_quantity :: "string option"
  ul_price :: "int64 option"
  ul_discount :: "string option"
  ul_tax :: "string option"

definition read_offer_line_for_update :: "uuid \<Rightarrow> uuid \<Rightarrow> offer_db \<Rightarrow> offer_error + line_row" where
  "read_offer_line_for_update i line_id w =
     (case find (\<lambda>l. lr_id l = line_id \<and> lr_offer l = i) (od_lines w) of
        None \<Rightarrow> Inl (OApp ErrNotFound) | Some l \<Rightarrow> Inr l)"

definition json_number :: "int \<Rightarrow> json" where "json_number n = JNum (int_string n)"
definition json_minor :: "int64 \<Rightarrow> json" where "json_minor a = json_number (sint a)"
definition json_opt :: "('v \<Rightarrow> json) \<Rightarrow> 'v option \<Rightarrow> json" where
  "json_opt enc v = (case v of None \<Rightarrow> JNull | Some x \<Rightarrow> enc x)"

text \<open>The line after the edit, as the engine is asked about it before anything is stored.\<close>

definition edited_input :: "update_line_input \<Rightarrow> line_row \<Rightarrow> line_input" where
  "edited_input inp l = (let cur = line_input_of l in
     \<lparr>li_quantity = (case ul_quantity inp of Some q \<Rightarrow> q | None \<Rightarrow> li_quantity cur),
      li_unit_price = (case ul_price inp of Some p \<Rightarrow> p | None \<Rightarrow> li_unit_price cur),
      li_discount = (case ul_discount inp of Some d \<Rightarrow> d | None \<Rightarrow> li_discount cur),
      li_tax_rate = (case ul_tax inp of Some t \<Rightarrow> t | None \<Rightarrow> li_tax_rate cur)\<rparr>)"

text \<open>
  \<open>buildOfferLinePatch\<close>. The numeric values are those the columns store; a text they refuse fails the
  statement.
\<close>

definition numeric_opt :: "nat \<Rightarrow> nat \<Rightarrow> string option \<Rightarrow> offer_error + int option" where
  "numeric_opt p k v = (case v of None \<Rightarrow> Inr None | Some x \<Rightarrow> bindR (to_numeric p k x) (\<lambda>n. Inr (Some n)))"

definition build_offer_line_patch :: "update_line_input \<Rightarrow> line_row \<Rightarrow> offer_error + line_row patch" where
  "build_offer_line_patch inp l =
     bindR (case ul_position inp of None \<Rightarrow> Inr None | Some n \<Rightarrow> bindR (to_int4 n) (\<lambda>v. Inr (Some v))) (\<lambda>position.
     bindR (numeric_opt 14 3 (ul_quantity inp)) (\<lambda>quantity.
     bindR (numeric_opt 5 2 (ul_discount inp)) (\<lambda>discount.
     bindR (numeric_opt 5 2 (ul_tax inp)) (\<lambda>tax.
     Inr (patch_opt ''tax_rate'' (JStr (numeric_text 2 (lr_tax l))) (\<lambda>n. JStr (the (ul_tax inp))) (\<lambda>n r. r\<lparr>lr_tax := n\<rparr>) tax
         (patch_opt ''discount_pct'' (JStr (numeric_text 2 (lr_discount l))) (\<lambda>n. JStr (the (ul_discount inp)))
           (\<lambda>n r. r\<lparr>lr_discount := n\<rparr>) discount
         (patch_opt ''unit_price_minor'' (json_minor (lr_price l)) json_minor (\<lambda>n r. r\<lparr>lr_price := n\<rparr>) (ul_price inp)
         (patch_opt ''quantity'' (JStr (numeric_text 3 (lr_quantity l))) (\<lambda>n. JStr (the (ul_quantity inp)))
           (\<lambda>n r. r\<lparr>lr_quantity := n\<rparr>) quantity
         (patch_opt ''unit'' (JStr (lr_unit l)) JStr (\<lambda>x r. r\<lparr>lr_unit := x\<rparr>) (ul_unit inp)
         (patch_opt ''description'' (JStr (lr_description l)) JStr (\<lambda>x r. r\<lparr>lr_description := x\<rparr>) (ul_description inp)
         (patch_opt ''position'' (json_number (lr_position l)) json_number (\<lambda>n r. r\<lparr>lr_position := n\<rparr>) position []))))))))))) "

definition update_line_row :: "uuid \<Rightarrow> line_row patch \<Rightarrow> line_row \<Rightarrow> unit offer_tx" where
  "update_line_row line_id p l w =
     (let l' = patched p l in
      bindR (check_line l') (\<lambda>_.
      if position_taken l' w then Inl (OApp ErrConflict)
      else Inr ((), w\<lparr>od_lines := update_where (\<lambda>x. lr_id x = line_id) (patched p) (od_lines w)\<rparr>)))"

definition no_line_fields :: "update_line_input \<Rightarrow> bool" where
  "no_line_fields inp \<longleftrightarrow> ul_position inp = None \<and> ul_description inp = None \<and> ul_unit inp = None
     \<and> ul_quantity inp = None \<and> ul_price inp = None \<and> ul_discount inp = None \<and> ul_tax inp = None"

definition update_offer_line_item ::
  "offer_svc \<Rightarrow> ctx \<Rightarrow> uuid \<Rightarrow> uuid \<Rightarrow> update_line_input \<Rightarrow> offer_db \<Rightarrow> (offer_error + offer_view) \<times> offer_db" where
  "update_offer_line_item s c i line_id inp = require_update c (on_draft c i (\<lambda>_ w.
     bindR (read_offer_line_for_update i line_id w) (\<lambda>l.
     bindR (line_totals (edited_input inp l)) (\<lambda>_.
     if no_line_fields inp then answer_view i LiveOnly w
     else bindR (build_offer_line_patch inp l) (\<lambda>p.
       bindR (update_line_row line_id p l w) (\<lambda>(_, w).
         after_lines s c i (patch_before p) (patch_after p) w))))))"

definition line_state_image :: "uuid \<Rightarrow> string \<Rightarrow> image" where
  "line_state_image line_id st = Some [(''line_id'', JStr (uuid_string line_id)), (''proposal_state'', JStr st)]"

definition accept_offer_line_item ::
  "offer_svc \<Rightarrow> ctx \<Rightarrow> uuid \<Rightarrow> uuid \<Rightarrow> offer_db \<Rightarrow> (offer_error + offer_view) \<times> offer_db" where
  "accept_offer_line_item s c i line_id = require_update c (on_draft c i (\<lambda>_ w.
     let hit = (\<lambda>l. lr_id l = line_id \<and> lr_offer l = i \<and> lr_state l = ProposalStaged) in
     if \<not> list_ex hit (od_lines w)
     then if \<not> list_ex (\<lambda>l. lr_id l = line_id \<and> lr_offer l = i) (od_lines w) then Inl (OApp ErrNotFound)
          else answer_view i LiveOnly w
     else after_lines s c i (line_state_image line_id ''staged'') (line_state_image line_id ''accepted'')
       (w\<lparr>od_lines := update_where hit (\<lambda>l. l\<lparr>lr_state := ProposalAccepted\<rparr>) (od_lines w)\<rparr>)))"

definition remove_offer_line_item ::
  "offer_svc \<Rightarrow> ctx \<Rightarrow> uuid \<Rightarrow> uuid \<Rightarrow> offer_db \<Rightarrow> (offer_error + offer_view) \<times> offer_db" where
  "remove_offer_line_item s c i line_id = require_update c (on_draft c i (\<lambda>_ w.
     let hit = (\<lambda>l. lr_id l = line_id \<and> lr_offer l = i) in
     if \<not> list_ex hit (od_lines w) then Inl (OApp ErrNotFound)
     else after_lines s c i (Some [(''line_id'', JStr (uuid_string line_id))]) (Some [(''line_removed'', JBool True)])
       (w\<lparr>od_lines := filter (\<lambda>l. \<not> hit l) (od_lines w)\<rparr>)))"

section \<open>Staged lines\<close>

record staged_input =
  si_description :: string
  si_quantity :: string
  si_price :: int64
  si_tax :: string
  si_snippet :: string
  si_source :: string
  si_grounded :: bool

definition insert_staged_offer_line ::
  "uuid \<Rightarrow> uuid \<Rightarrow> int \<Rightarrow> staged_input \<Rightarrow> (line_row \<times> line_figures) offer_tx" where
  "insert_staged_offer_line line_id i position inp w =
     (if si_description inp = [] then Inl (RequiredField ''description'')
      else if si_snippet inp = [] then Inl (RequiredField ''evidence.snippet'')
      else if si_source inp = [] then Inl (RequiredField ''evidence.source_id'')
      else if \<not> si_grounded inp \<and> si_price inp \<noteq> 0 then Inl (UngroundedPriceNotZero (si_price inp))
      else bindR (line_totals \<lparr>li_quantity = si_quantity inp, li_unit_price = si_price inp, li_discount = ''0.00'',
                    li_tax_rate = si_tax inp\<rparr>) (\<lambda>f.
           bindR (to_int4 position) (\<lambda>position.
           bindR (to_numeric 14 3 (si_quantity inp)) (\<lambda>quantity.
           bindR (to_numeric 5 2 (si_tax inp)) (\<lambda>tax.
             let l = \<lparr>lr_id = line_id, lr_offer = i, lr_position = position, lr_product = None,
               lr_description = si_description inp, lr_unit = ''unit'', lr_quantity = quantity, lr_price = si_price inp,
               lr_discount = 0, lr_tax = tax, lr_evidence = Some (si_snippet inp, si_source inp),
               lr_state = ProposalStaged, lr_grounded = si_grounded inp\<rparr> in
             bindR (insert_line_row l w) (\<lambda>(_, w). Inr ((l, f), w)))))))"

fun insert_staged_lines ::
  "(nat \<Rightarrow> uuid) \<Rightarrow> nat \<Rightarrow> uuid \<Rightarrow> int \<Rightarrow> staged_input list \<Rightarrow> (line_row \<times> line_figures) list offer_tx" where
  "insert_staged_lines ids n i start [] w = Inr ([], w)"
| "insert_staged_lines ids n i start (inp # inps) w =
     (case insert_staged_offer_line (ids n) i (start + int n) inp w of
        Inl e \<Rightarrow> Inl (AtLine (n + 1) e)
      | Inr (v, w') \<Rightarrow> bindR (insert_staged_lines ids (n + 1) i start inps w') (\<lambda>(vs, w''). Inr (v # vs, w'')))"

definition add_staged_offer_lines ::
  "offer_svc \<Rightarrow> ctx \<Rightarrow> uuid \<Rightarrow> staged_input list \<Rightarrow> offer_db
     \<Rightarrow> (offer_error + (line_row \<times> line_figures) list) \<times> offer_db" where
  "add_staged_offer_lines s c i inps w =
     (case require c ''offer'' ActionUpdate of
        Inl e \<Rightarrow> (Inl (OApp e), w)
      | Inr _ \<Rightarrow>
          if inps = [] then (Inl (OApp (ErrOther ''deals: no staged lines to add'')), w)
          else run_tx (on_draft c i (\<lambda>_ w.
            bindR (next_offer_line_position i w) (\<lambda>start.
            bindR (insert_staged_lines (sv_line_id s) 0 i start inps w) (\<lambda>(vs, w).
            bindR (recompute_offer_totals i w) (\<lambda>(_, w).
            bindR (audit_offer s c ''update'' i None (Some [(''staged_lines_added'', json_number (int (length inps)))]) w) (\<lambda>(_, w).
              Inr (vs, w))))))) w)"

section \<open>The header\<close>

record update_offer_input =
  uo_currency :: "string option"
  uo_buyer_org :: "uuid option"
  uo_valid_until :: "string option"
  uo_intro :: "string option"
  uo_terms :: "string option"
  uo_template :: "uuid option"
  uo_if_version :: "int option"

definition json_uuid :: "uuid \<Rightarrow> json" where "json_uuid i = JStr (uuid_string i)"

definition header_patch :: "update_offer_input \<Rightarrow> offer_header \<Rightarrow> offer_header patch" where
  "header_patch inp r =
     patch_opt ''template_id'' (json_opt json_uuid (or_template r)) json_uuid (\<lambda>x r. r\<lparr>or_template := Some x\<rparr>) (uo_template inp)
     (patch_opt ''terms_text'' (json_opt JStr (or_terms r)) JStr (\<lambda>x r. r\<lparr>or_terms := Some x\<rparr>) (uo_terms inp)
     (patch_opt ''intro_text'' (json_opt JStr (or_intro r)) JStr (\<lambda>x r. r\<lparr>or_intro := Some x\<rparr>) (uo_intro inp)
     (patch_opt ''valid_until'' (json_opt JStr (or_valid_until r)) JStr (\<lambda>x r. r\<lparr>or_valid_until := Some x\<rparr>) (uo_valid_until inp)
     (patch_opt ''buyer_org_id'' (json_opt json_uuid (or_buyer_org r)) json_uuid (\<lambda>x r. r\<lparr>or_buyer_org := Some x\<rparr>) (uo_buyer_org inp)
     (patch_opt ''currency'' (JStr (or_currency r)) JStr (\<lambda>x r. r\<lparr>or_currency := x\<rparr>) (uo_currency inp) [])))))"

text \<open>A guarded UPDATE of an offer; the currency CHECK is the one these patches can meet.\<close>

definition update_offer_row :: "uuid \<Rightarrow> int option \<Rightarrow> offer_header patch \<Rightarrow> offer_header \<Rightarrow> unit offer_tx" where
  "update_offer_row i if_version p current w =
     bindR (lift_o (apply_guarded offer_table LiveOnly i if_version p (od_offers w))) (\<lambda>rows.
     bindR (check_currency (or_currency (patched p current))) (\<lambda>_. Inr ((), w\<lparr>od_offers := rows\<rparr>)))"

definition check_buyer :: "ctx \<Rightarrow> uuid option \<Rightarrow> offer_db \<Rightarrow> offer_error + unit" where
  "check_buyer c buyer w = (case buyer of None \<Rightarrow> Inr ()
     | Some org \<Rightarrow> lift_o (ensure_link_target c (od_scope w) ''organization'' org))"

definition update_offer ::
  "offer_svc \<Rightarrow> ctx \<Rightarrow> uuid \<Rightarrow> update_offer_input \<Rightarrow> offer_db \<Rightarrow> (offer_error + offer_view) \<times> offer_db" where
  "update_offer s c i inp = require_update c (on_draft c i (\<lambda>current w.
     bindR (check_buyer c (uo_buyer_org inp) w) (\<lambda>_.
     bindR (resolve_offer_template_ref (uo_template inp) w) (\<lambda>_.
     let p = header_patch inp current in
     if patch_empty p then answer_view i LiveOnly w
     else bindR (update_offer_row i (uo_if_version inp) p current w) (\<lambda>(_, w).
       bindR (audit_offer s c ''update'' i (patch_before p) (patch_after p) w) (\<lambda>(_, w).
         answer_view i LiveOnly w))))))"

definition archive_offer :: "offer_svc \<Rightarrow> ctx \<Rightarrow> uuid \<Rightarrow> offer_db \<Rightarrow> (offer_error + offer_view) \<times> offer_db" where
  "archive_offer s c i w =
     (case require c ''offer'' ActionDelete of
        Inl e \<Rightarrow> (Inl (OApp e), w)
      | Inr _ \<Rightarrow> run_tx (\<lambda>w.
          bindR (visible_offer_locked c i LiveOnly w) (\<lambda>_.
          bindR (audit_offer s c ''archive'' i None None (w\<lparr>od_offers :=
              update_where (selects offer_table LiveOnly i)
                (\<lambda>r. tb_touch offer_table (r\<lparr>or_archived_at := Some (od_now w)\<rparr>)) (od_offers w)\<rparr>)) (\<lambda>(_, w).
            answer_view i IncludeArchived w))) w)"

end
