(* ===== verification/Offer_Lifecycle.thy ===== *)
theory Offer_Lifecycle
  imports Offer_Edit
begin

text \<open>
  What happens to an offer once it is written: \<^verbatim>\<open>offer_lifecycle.go\<close>, \<^verbatim>\<open>offer_render.go\<close> and
  \<^verbatim>\<open>freezeFx\<close> of \<^verbatim>\<open>backend/internal/modules/deals\<close>. Sending freezes the rate and the two legal
  blocks, accepting prices the deal, regenerating copies the offer into the next revision.
\<close>

section \<open>Sending\<close>

definition org_image :: "uuid \<Rightarrow> string \<times> string option \<Rightarrow> image" where
  "org_image i names = Some ([(''organization_id'', json_uuid i), (''display_name'', JStr (fst names))]
     @ (case snd names of None \<Rightarrow> [] | Some legal \<Rightarrow> [(''legal_name'', JStr legal)]))"

definition buyer_block :: "uuid option \<Rightarrow> offer_db \<Rightarrow> image" where
  "buyer_block buyer w = (case buyer of None \<Rightarrow> None
     | Some i \<Rightarrow> (case map_of (od_orgs w) i of None \<Rightarrow> None | Some names \<Rightarrow> org_image i names))"

definition send_snapshots :: "offer_svc \<Rightarrow> string \<Rightarrow> offer_header \<Rightarrow> offer_db \<Rightarrow> offer_error + (image \<times> image)" where
  "send_snapshots s base r w =
     bindR (sv_name s w) (\<lambda>name. Inr (buyer_block (or_buyer_org r) w,
       Some [(''workspace_name'', JStr name), (''base_currency'', JStr base)]))"

definition json_image :: "image \<Rightarrow> json" where
  "json_image m = (case m of None \<Rightarrow> JNull | Some kvs \<Rightarrow> JObj kvs)"

definition sent_patch :: "offer_header \<Rightarrow> string \<Rightarrow> int \<Rightarrow> time \<Rightarrow> image \<Rightarrow> image \<Rightarrow> offer_header patch" where
  "sent_patch r rate rate_value rate_date buyer issuer =
     patch_set ''issuer_snapshot'' JNull (json_image issuer) (\<lambda>r. r\<lparr>or_issuer_snapshot := issuer\<rparr>)
     (patch_set ''buyer_snapshot'' JNull (json_image buyer) (\<lambda>r. r\<lparr>or_buyer_snapshot := buyer\<rparr>)
     (patch_set ''fx_rate_date'' (json_opt json_number (or_fx_date r)) (json_number rate_date) (\<lambda>r. r\<lparr>or_fx_date := Some rate_date\<rparr>)
     (patch_set ''fx_rate_to_base'' (json_opt (\<lambda>n. JStr (numeric_text 10 n)) (or_fx_rate r)) (JStr rate)
        (\<lambda>r. r\<lparr>or_fx_rate := Some rate_value\<rparr>)
     (patch_set ''status'' (JStr ''draft'') (JStr ''sent'') (\<lambda>r. r\<lparr>or_status := OfferStatusSent\<rparr>) []))))"

definition offer_sent_payload :: "offer_header \<Rightarrow> string \<Rightarrow> offer_body" where
  "offer_sent_payload r rate = OfferSentBody (or_id r) (or_deal r) (or_revision r) (or_gross r) rate (or_valid_until r)"

definition send_offer ::
  "offer_svc \<Rightarrow> ctx \<Rightarrow> uuid \<Rightarrow> int option \<Rightarrow> offer_db \<Rightarrow> (offer_error + offer_view) \<times> offer_db" where
  "send_offer s c i if_version = require_update c (on_draft c i (\<lambda>current w.
     if lines_of i w = [] then Inl OfferEmpty
     else bindR (sv_base s w) (\<lambda>base.
       bindR (freeze_fx base (or_currency current) (sv_now s) (od_rates w)) (\<lambda>(rate, rate_date).
       bindR (send_snapshots s base current w) (\<lambda>(buyer, issuer).
       bindR (to_numeric 20 10 rate) (\<lambda>rate_value.
         let p = sent_patch current rate rate_value rate_date buyer issuer in
       bindR (update_offer_row i if_version p current w) (\<lambda>(_, w).
       bindR (audit_offer s c ''update'' i (patch_before p) (patch_after p) w) (\<lambda>(audit_id, w).
       bindR (emit_offer s c audit_id i ''offer.sent'' ''offer'' (offer_sent_payload current rate) w) (\<lambda>(_, w).
       bindR (sv_stamp s (or_deal current) w) (\<lambda>w.
         answer_view i LiveOnly w))))))))))"

section \<open>Accepting\<close>

text \<open>\<open>amount_minor_base\<close>, the column PostgreSQL generates on a deal; it fails where a bigint cannot hold it.\<close>

definition base_amount :: "int64 \<Rightarrow> int \<Rightarrow> int" where
  "base_amount amount rate = round_half_up (of_int (sint amount) * of_int rate / 10 ^ 10)"

definition price_deal :: "uuid \<Rightarrow> (deal_row \<Rightarrow> deal_row) \<Rightarrow> offer_db \<Rightarrow> offer_db" where
  "price_deal i f w = w\<lparr>od_deals := update_where (\<lambda>d. dr_id d = i) (\<lambda>d. (f d)\<lparr>dr_version := dr_version d + 1\<rparr>) (od_deals w)\<rparr>"

definition sync_deal_amount_from_offer :: "offer_svc \<Rightarrow> uuid \<Rightarrow> offer_header \<Rightarrow> (string \<times> json) list offer_tx" where
  "sync_deal_amount_from_offer s deal r w =
     (case deal_by_id deal w of
        None \<Rightarrow> Inl (OApp ErrNotFound)
      | Some d \<Rightarrow>
          let changed = [(''amount_minor'', json_minor (or_gross r)), (''currency'', JStr (or_currency r))] in
          if dr_status d = DealOpen
          then Inr (changed, price_deal deal (\<lambda>d. d\<lparr>dr_amount := Some (or_gross r), dr_currency := Some (or_currency r)\<rparr>) w)
          else bindR (sv_base s w) (\<lambda>base.
            case dr_closed_at d of
              None \<Rightarrow> Inl (OApp (ErrOther ''nil pointer dereference''))
            | Some closed_at \<Rightarrow>
                bindR (freeze_fx base (or_currency r) closed_at (od_rates w)) (\<lambda>(rate, rate_date).
                bindR (to_numeric 20 10 rate) (\<lambda>rate_value.
                  if \<not> in_int64 (base_amount (or_gross r) rate_value) then Inl (OApp (ErrOther ''bigint out of range''))
                  else Inr (changed @ [(''fx_rate_to_base'', JStr rate), (''fx_rate_date'', json_number rate_date)],
                    price_deal deal (\<lambda>d. d\<lparr>dr_amount := Some (or_gross r), dr_currency := Some (or_currency r),
                      dr_fx_rate := Some rate_value, dr_fx_date := Some rate_date\<rparr>) w)))))"

definition on_sent :: "ctx \<Rightarrow> uuid \<Rightarrow> (offer_header \<Rightarrow> 'a offer_tx) \<Rightarrow> 'a offer_tx" where
  "on_sent c i k w =
     bindR (visible_offer_locked c i LiveOnly w) (\<lambda>current.
     if or_status current \<noteq> OfferStatusSent then Inl (OfferNotSent (or_status current)) else k current w)"

definition accepted_patch :: "time \<Rightarrow> offer_header patch" where
  "accepted_patch now =
     patch_set ''accepted_at'' JNull (json_number now) (\<lambda>r. r\<lparr>or_accepted_at := Some now\<rparr>)
     (patch_set ''status'' (JStr ''sent'') (JStr ''accepted'') (\<lambda>r. r\<lparr>or_status := OfferStatusAccepted\<rparr>) [])"

definition accept_offer ::
  "offer_svc \<Rightarrow> ctx \<Rightarrow> uuid \<Rightarrow> int option \<Rightarrow> offer_db \<Rightarrow> (offer_error + offer_view) \<times> offer_db" where
  "accept_offer s c i if_version w =
     (case bindR (require c ''offer'' ActionUpdate) (\<lambda>_. require c ''deal'' ActionUpdate) of
        Inl e \<Rightarrow> (Inl (OApp e), w)
      | Inr _ \<Rightarrow> run_tx (on_sent c i (\<lambda>current w.
          let p = accepted_patch (sv_now s) in
          bindR (update_offer_row i if_version p current w) (\<lambda>(_, w).
          bindR (sync_deal_amount_from_offer s (or_deal current) current w) (\<lambda>(changed, w).
          bindR (audit_offer s c ''update'' i (patch_before p) (Some [(''status'', JStr ''accepted''),
              (''accepted_at'', json_number (sv_now s)), (''deal_amount_minor'', json_minor (or_gross current)),
              (''deal_currency'', JStr (or_currency current))]) w) (\<lambda>(audit_id, w).
          bindR (emit_offer s c audit_id i ''offer.accepted'' ''offer''
              (OfferAcceptedBody (or_id current) (or_deal current) (or_revision current) (or_gross current)) w) (\<lambda>(_, w).
          bindR (emit_offer s c audit_id (or_deal current) ''deal.updated'' ''deal'' (DealUpdatedBody changed) w) (\<lambda>(_, w).
            answer_view i LiveOnly w))))))) w)"

section \<open>Rejecting\<close>

definition rejected_patch :: "offer_header patch" where
  "rejected_patch = patch_set ''status'' (JStr ''sent'') (JStr ''rejected'') (\<lambda>r. r\<lparr>or_status := OfferStatusRejected\<rparr>) []"

definition reject_offer ::
  "offer_svc \<Rightarrow> ctx \<Rightarrow> uuid \<Rightarrow> string option \<Rightarrow> int option \<Rightarrow> offer_db \<Rightarrow> (offer_error + offer_view) \<times> offer_db" where
  "reject_offer s c i reason if_version = require_update c (on_sent c i (\<lambda>current w.
     let p = rejected_patch;
         after = map_option (\<lambda>kvs. kvs @ (case reason of None \<Rightarrow> [] | Some x \<Rightarrow> [(''reason'', JStr x)])) (patch_after p) in
     bindR (update_offer_row i if_version p current w) (\<lambda>(_, w).
     bindR (audit_offer s c ''update'' i (patch_before p) after w) (\<lambda>(audit_id, w).
     bindR (emit_offer s c audit_id i ''offer.rejected'' ''offer''
         (OfferRejectedBody (or_id current) (or_deal current) (or_revision current) reason) w) (\<lambda>(_, w).
       answer_view i LiveOnly w)))))"

section \<open>The next revision\<close>

definition next_offer_revision :: "string \<Rightarrow> offer_db \<Rightarrow> offer_error + int" where
  "next_offer_revision number w =
     (let rs = map or_revision (filter (\<lambda>r. or_number r = number) (od_offers w)) in
      if rs = [] then Inl no_rows else to_int4 (foldr max rs (hd rs) + 1))"

text \<open>The columns the copy names; the others take their defaults.\<close>

definition revision_copy :: "uuid \<Rightarrow> int \<Rightarrow> string \<Rightarrow> offer_header \<Rightarrow> offer_header" where
  "revision_copy new_id revision by_whom r =
     \<lparr>or_id = new_id, or_deal = or_deal r, or_number = or_number r, or_revision = revision,
      or_status = OfferStatusDraft, or_currency = or_currency r, or_buyer_org = or_buyer_org r,
      or_buyer_snapshot = None, or_issuer_snapshot = None, or_valid_until = or_valid_until r, or_intro = or_intro r,
      or_terms = or_terms r, or_net = or_net r, or_tax = or_tax r, or_gross = or_gross r, or_fx_rate = None,
      or_fx_date = None, or_pdf = None, or_accepted_at = None, or_template = None, or_source = or_source r,
      or_captured_by = by_whom, or_version = 1, or_archived_at = None\<rparr>"

text \<open>\<open>uuidv7()\<close> of the copied lines is the supply \<open>sv_line_id\<close>, one per row.\<close>

fun copy_lines :: "(nat \<Rightarrow> uuid) \<Rightarrow> nat \<Rightarrow> uuid \<Rightarrow> line_row list \<Rightarrow> line_row list" where
  "copy_lines ids n new_id [] = []"
| "copy_lines ids n new_id (l # ls) = l\<lparr>lr_id := ids n, lr_offer := new_id\<rparr> # copy_lines ids (n + 1) new_id ls"

definition copy_offer_into_revision :: "offer_svc \<Rightarrow> uuid \<Rightarrow> uuid \<Rightarrow> int \<Rightarrow> string \<Rightarrow> unit offer_tx" where
  "copy_offer_into_revision s from_id new_id revision by_whom w =
     (case find (\<lambda>r. or_id r = from_id) (od_offers w) of
        None \<Rightarrow> Inr ((), w)
      | Some r \<Rightarrow>
          bindR (insert_offer (revision_copy new_id revision by_whom r) w) (\<lambda>(_, w).
            Inr ((), w\<lparr>od_lines := od_lines w @ copy_lines (sv_line_id s) 0 new_id (lines_of from_id w)\<rparr>)))"

definition superseded_patch :: "offer_header patch" where
  "superseded_patch =
     patch_set ''status'' (JStr ''sent'') (JStr ''superseded'') (\<lambda>r. r\<lparr>or_status := OfferStatusSuperseded\<rparr>) []"

definition regenerate_offer :: "offer_svc \<Rightarrow> ctx \<Rightarrow> uuid \<Rightarrow> offer_db \<Rightarrow> (offer_error + offer_view) \<times> offer_db" where
  "regenerate_offer s c i w =
     (case bindR (require c ''offer'' ActionCreate) (\<lambda>_. bindR (require c ''offer'' ActionUpdate) (\<lambda>_. captured_by c)) of
        Inl e \<Rightarrow> (Inl (OApp e), w)
      | Inr by_whom \<Rightarrow> run_tx (on_sent c i (\<lambda>current w.
          bindR (next_offer_revision (or_number current) w) (\<lambda>revision. let new_id = sv_offer_id s in
          bindR (copy_offer_into_revision s i new_id revision by_whom w) (\<lambda>(_, w).
          bindR (lift_o (apply_locked offer_table LiveOnly i superseded_patch (od_offers w))) (\<lambda>rows.
          bindR (audit_offer s c ''create'' new_id None (Some [(''offer_number'', JStr (or_number current)),
              (''from_revision'', json_number (or_revision current)), (''revision'', json_number revision)])
              (w\<lparr>od_offers := rows\<rparr>)) (\<lambda>(audit_id, w).
          bindR (emit_offer s c audit_id i ''offer.superseded'' ''offer''
              (OfferSupersededBody (or_id current) (or_deal current) (or_revision current) revision) w) (\<lambda>(_, w).
          bindR (emit_offer s c audit_id new_id ''offer.created'' ''offer''
              (OfferCreatedBody new_id (or_deal current) revision (or_currency current) (or_source current) by_whom) w) (\<lambda>(_, w).
            answer_view new_id LiveOnly w)))))))) w)"

section \<open>Rendering\<close>

record render_ingredients =
  ri_offer :: offer_header
  ri_lines :: "(line_row \<times> line_figures) list"
  ri_buyer :: image
  ri_issuer :: string
  ri_template :: "uuid option"

definition resolve_render_buyer_block :: "offer_header \<Rightarrow> offer_db \<Rightarrow> image" where
  "resolve_render_buyer_block r w =
     (case or_buyer_snapshot r of Some kvs \<Rightarrow> Some kvs | None \<Rightarrow> buyer_block (or_buyer_org r) w)"

definition resolve_render_issuer_name :: "offer_svc \<Rightarrow> offer_header \<Rightarrow> offer_db \<Rightarrow> offer_error + string" where
  "resolve_render_issuer_name s r w =
     (case Option.bind (or_issuer_snapshot r) (\<lambda>kvs. obj_get kvs ''workspace_name'') of
        Some (JStr name) \<Rightarrow> if name \<noteq> [] then Inr name else sv_name s w
      | _ \<Rightarrow> sv_name s w)"

definition prepare_render :: "offer_svc \<Rightarrow> ctx \<Rightarrow> uuid \<Rightarrow> offer_db \<Rightarrow> (offer_error + render_ingredients) \<times> offer_db" where
  "prepare_render s c i w =
     (case bindR (require c ''offer'' ActionRead) (\<lambda>_. require c ''offer'' ActionUpdate) of
        Inl e \<Rightarrow> (Inl (OApp e), w)
      | Inr _ \<Rightarrow> run_tx (\<lambda>w.
          bindR (visible_offer c i LiveOnly w) (\<lambda>r.
          bindR (read_offer_lines i w) (\<lambda>ls.
          bindR (resolve_render_issuer_name s r w) (\<lambda>issuer.
            Inr (\<lparr>ri_offer = r, ri_lines = ls, ri_buyer = resolve_render_buyer_block r w, ri_issuer = issuer,
              ri_template = or_template r\<rparr>, w))))) w)"

definition pdf_patch :: "string \<Rightarrow> offer_header patch" where
  "pdf_patch ref = patch_set ''pdf_asset_ref'' JNull (JStr ref) (\<lambda>r. r\<lparr>or_pdf := Some ref\<rparr>) []"

definition replaced_ref :: "offer_header \<Rightarrow> string \<Rightarrow> string option" where
  "replaced_ref r ref = (case or_pdf r of None \<Rightarrow> None | Some x \<Rightarrow> if x \<noteq> ref then Some x else None)"

definition set_pdf_asset_ref ::
  "offer_svc \<Rightarrow> ctx \<Rightarrow> uuid \<Rightarrow> string \<Rightarrow> int \<Rightarrow> offer_db \<Rightarrow> (offer_error + (offer_view \<times> string option)) \<times> offer_db" where
  "set_pdf_asset_ref s c i ref version = require_update c (\<lambda>w.
     bindR (visible_offer c i LiveOnly w) (\<lambda>existing.
     bindR (lift_o (apply_with_version offer_table LiveOnly i version (pdf_patch ref) (od_offers w))) (\<lambda>rows.
     bindR (audit_offer s c ''update'' i None (Some [(''pdf_asset_ref'', JStr ref)]) (w\<lparr>od_offers := rows\<rparr>)) (\<lambda>(_, w).
     bindR (answer_view i LiveOnly w) (\<lambda>(v, w). Inr ((v, replaced_ref existing ref), w))))))"

end
