(* ===== verification/Offer_Effects.thy ===== *)
theory Offer_Effects
  imports Offer_Lifecycle
begin

text \<open>
  The offers over time: every committed operation as a step of one machine, the invariant its tables keep,
  and the life of one offer as its specification.
\<close>

section \<open>What each operation leaves in the tables\<close>

lemma audit_offer_effect: "audit_offer s c act i b a w = Inr (x, w') \<Longrightarrow> \<exists>l. w' = w\<lparr>od_ledger := l\<rparr>"
  by (auto simp: audit_offer_def offer_ledger_tx_def)

lemma emit_offer_effect: "emit_offer s c aud i ty et body w = Inr (x, w') \<Longrightarrow> \<exists>l. w' = w\<lparr>od_ledger := l\<rparr>"
  by (auto simp: emit_offer_def offer_ledger_tx_def)

lemma answer_view_effect:
  "answer_view i f w = Inr (v, w') \<Longrightarrow> w' = w \<and> read_offer i f w = Inr (fst v) \<and> read_offer_lines i w = Inr (snd v)"
  by (auto simp: answer_view_def read_offer_with_lines_def)

lemma offer_table_simps [simp]:
  "tb_id offer_table = or_id" "tb_live offer_table r \<longleftrightarrow> or_archived_at r = None" "tb_version offer_table = or_version"
  "tb_touch offer_table r = r\<lparr>or_version := or_version r + 1\<rparr>"
  by (simp_all add: offer_table_def)

lemma read_offer_Inr: "read_offer i f w = Inr r \<Longrightarrow> r \<in> set (od_offers w) \<and> or_id r = i \<and> (f = LiveOnly \<longrightarrow> or_archived_at r = None)"
  by (auto simp: read_offer_def selects_def live_clause_def split: option.splits dest!: find_SomeD)

lemma visible_offer_locked_Inr:
  "visible_offer_locked c i LiveOnly w = Inr r \<Longrightarrow> r \<in> set (od_offers w) \<and> or_id r = i \<and> or_archived_at r = None
     \<and> ensure_writable c (od_scope w) ''deal'' (or_deal r) = Inr ()"
  by (auto simp: visible_offer_locked_def visible_offer_def dest!: read_offer_Inr)

lemma on_draft_Inr:
  assumes "on_draft c i k w = Inr x"
  obtains r where "r \<in> set (od_offers w)" "or_id r = i" "or_status r = OfferStatusDraft" "or_archived_at r = None" "k r w = Inr x"
  using assms by (auto simp: on_draft_def ensure_draft_def dest!: visible_offer_locked_Inr split: if_splits)

lemma on_sent_Inr:
  assumes "on_sent c i k w = Inr x"
  obtains r where "r \<in> set (od_offers w)" "or_id r = i" "or_status r = OfferStatusSent" "or_archived_at r = None" "k r w = Inr x"
  using assms by (auto simp: on_sent_def dest!: visible_offer_locked_Inr split: if_splits)

lemma require_update_Inr: "require_update c tx w = (Inr v, w') \<Longrightarrow> tx w = Inr (v, w')"
  by (auto simp: require_update_def dest: run_tx_InrD split: sum.splits)

definition totals_of :: "offer_header \<Rightarrow> offer_figures" where
  "totals_of r = \<lparr>og_net = or_net r, og_tax = or_tax r, og_gross = or_gross r\<rparr>"

lemma totals_of_store [simp]: "totals_of (store_totals g r) = g"
  by (cases g) (simp add: totals_of_def store_totals_def)

lemma priced_lines_cong: "lines_of i w = lines_of i w' \<Longrightarrow> priced_lines i w = priced_lines i w'"
  by (simp add: priced_lines_def)

lemma after_lines_effect:
  assumes "after_lines s c i b a w = Inr (v, w')"
  shows "\<exists>g l. offer_totals (priced_lines i w) = Inr g
    \<and> w' = w\<lparr>od_offers := update_where (\<lambda>r. or_id r = i) (store_totals g) (od_offers w), od_ledger := l\<rparr>"
  using assms
  by (auto simp: after_lines_def recompute_offer_totals_def dest!: audit_offer_effect answer_view_effect)

section \<open>Lines\<close>

text \<open>The constraints of the line table.\<close>

definition lines_ok :: "line_row list \<Rightarrow> bool" where
  "lines_ok ls \<longleftrightarrow> distinct (map lr_id ls) \<and> distinct (map (\<lambda>l. (lr_offer l, lr_position l)) ls)
     \<and> list_all (\<lambda>l. check_line l = Inr ()) ls"

text \<open>Only the lines of one offer changed, and the table's constraints hold.\<close>

definition lines_edit :: "uuid \<Rightarrow> line_row list \<Rightarrow> line_row list \<Rightarrow> bool" where
  "lines_edit i ls ls' \<longleftrightarrow> lines_ok ls' \<and> filter (\<lambda>l. lr_offer l \<noteq> i) ls' = filter (\<lambda>l. lr_offer l \<noteq> i) ls"

lemma lines_edit_refl: "lines_ok ls \<Longrightarrow> lines_edit i ls ls"
  by (simp add: lines_edit_def)

lemma lines_edit_trans: "lines_edit i ls ls' \<Longrightarrow> lines_edit i ls' ls'' \<Longrightarrow> lines_edit i ls ls''"
  by (simp add: lines_edit_def)

lemma lines_edit_other: "lines_edit i ls ls' \<Longrightarrow> j \<noteq> i \<Longrightarrow> filter (\<lambda>l. lr_offer l = j) ls' = filter (\<lambda>l. lr_offer l = j) ls"
proof -
  assume e: "lines_edit i ls ls'" and j: "j \<noteq> i"
  have "filter (\<lambda>l. lr_offer l = j) xs = filter (\<lambda>l. lr_offer l = j) (filter (\<lambda>l. lr_offer l \<noteq> i) xs)" for xs
    using j by (induction xs) auto
  then show ?thesis using e unfolding lines_edit_def by metis
qed

lemma insert_line_effect:
  assumes "insert_line_row l w = Inr (x, w')" "lines_ok (od_lines w)" "lr_id l \<notin> lr_id ` set (od_lines w)" "lr_offer l = i"
  shows "w' = w\<lparr>od_lines := od_lines w @ [l]\<rparr> \<and> lines_edit i (od_lines w) (od_lines w')"
proof -
  have ok: "check_line l = Inr ()" "\<not> position_taken l w" and w': "w' = w\<lparr>od_lines := od_lines w @ [l]\<rparr>"
    using assms(1) by (auto simp: insert_line_row_def split: if_splits)
  have "(lr_offer l, lr_position l) \<noteq> (lr_offer x, lr_position x)" if x: "x \<in> set (od_lines w)" for x
  proof -
    have "lr_id x \<noteq> lr_id l" using assms(3) x by (metis imageI)
    moreover have "\<not> (lr_offer x = lr_offer l \<and> lr_position x = lr_position l \<and> lr_id x \<noteq> lr_id l)"
      using ok(2) x unfolding position_taken_def list_ex_iff by blast
    ultimately show ?thesis by auto
  qed
  then have "(lr_offer l, lr_position l) \<notin> (\<lambda>l. (lr_offer l, lr_position l)) ` set (od_lines w)" by blast
  then show ?thesis using ok(1) assms(2-4) w' by (auto simp: lines_edit_def lines_ok_def)
qed

lemma insert_offer_line_effect:
  assumes "insert_offer_line line_id i cur inp w = Inr (x, w')" "lines_ok (od_lines w)" "line_id \<notin> lr_id ` set (od_lines w)"
  shows "\<exists>l. lr_id l = line_id \<and> lr_offer l = i \<and> w' = w\<lparr>od_lines := od_lines w @ [l]\<rparr>
    \<and> lines_edit i (od_lines w) (od_lines w')"
proof -
  have "\<exists>l. lr_id l = line_id \<and> lr_offer l = i \<and> insert_line_row l w = Inr (x, w')"
    using assms(1) by (force simp: insert_offer_line_def insert_offer_line_row_def split: if_splits option.splits prod.splits)
  then show ?thesis using insert_line_effect assms(2,3) by metis
qed

lemma insert_offer_lines_effect:
  assumes "insert_offer_lines ids n i cur inps w = Inr (x, w')" "lines_ok (od_lines w)" "inj_on ids {n ..< n + length inps}"
    and "\<forall>m \<in> {n ..< n + length inps}. ids m \<notin> lr_id ` set (od_lines w)"
  shows "(\<exists>ls. w' = w\<lparr>od_lines := od_lines w @ ls\<rparr> \<and> (\<forall>l \<in> set ls. lr_offer l = i)) \<and> lines_edit i (od_lines w) (od_lines w')"
  using assms
proof (induction inps arbitrary: n w)
  case Nil
  then have "w' = w\<lparr>od_lines := od_lines w @ []\<rparr>" by simp
  then show ?case using Nil by (metis empty_iff lines_edit_refl list.set(1) append_Nil2 insert_offer_lines.simps(1) prod.inject sum.inject(2))
next
  case (Cons inp inps)
  obtain y w1 where first: "insert_offer_line (ids n) i cur inp w = Inr (y, w1)"
    and rest: "insert_offer_lines ids (n + 1) i cur inps w1 = Inr (x, w')"
    using Cons.prems(1) by (auto split: sum.splits)
  obtain l where l: "lr_id l = ids n" "lr_offer l = i" "w1 = w\<lparr>od_lines := od_lines w @ [l]\<rparr>"
    "lines_edit i (od_lines w) (od_lines w1)"
    using insert_offer_line_effect [OF first Cons.prems(2)] bspec [OF Cons.prems(4), of n] by auto
  have later: "inj_on ids {n + 1 ..< n + 1 + length inps}"
    by (rule inj_on_subset [OF Cons.prems(3)]) auto
  have "ids m \<notin> lr_id ` set (od_lines w1)" if m: "m \<in> {n + 1 ..< n + 1 + length inps}" for m
  proof -
    have "ids m \<noteq> ids n" using m inj_onD [OF Cons.prems(3), of m n] by auto
    then show ?thesis using Cons.prems(4) m l(1,3) by auto
  qed
  then obtain ls where "w' = w1\<lparr>od_lines := od_lines w1 @ ls\<rparr>" "\<forall>l \<in> set ls. lr_offer l = i" "lines_edit i (od_lines w1) (od_lines w')"
    using Cons.IH [OF rest _ later] l(4) by (auto simp: lines_edit_def)
  then have "w' = w\<lparr>od_lines := od_lines w @ (l # ls)\<rparr>" "\<forall>l \<in> set (l # ls). lr_offer l = i" "lines_edit i (od_lines w) (od_lines w')"
    using l lines_edit_trans by auto
  then show ?case by blast
qed

lemma insert_staged_line_effect:
  assumes "insert_staged_offer_line line_id i position inp w = Inr (v, w')" "lines_ok (od_lines w)" "line_id \<notin> lr_id ` set (od_lines w)"
  shows "\<exists>l. lr_id l = line_id \<and> lr_offer l = i \<and> lr_state l = ProposalStaged \<and> w' = w\<lparr>od_lines := od_lines w @ [l]\<rparr>
    \<and> lines_edit i (od_lines w) (od_lines w')"
proof -
  have "\<exists>l x. lr_id l = line_id \<and> lr_offer l = i \<and> lr_state l = ProposalStaged \<and> insert_line_row l w = Inr (x, w')"
    using assms(1) by (force simp: insert_staged_offer_line_def Let_def split: if_splits)
  then show ?thesis using insert_line_effect assms(2,3) by metis
qed

lemma insert_staged_lines_effect:
  assumes "insert_staged_lines ids n i start inps w = Inr (x, w')" "lines_ok (od_lines w)" "inj_on ids {n ..< n + length inps}"
    and "\<forall>m \<in> {n ..< n + length inps}. ids m \<notin> lr_id ` set (od_lines w)"
  shows "(\<exists>ls. w' = w\<lparr>od_lines := od_lines w @ ls\<rparr> \<and> (\<forall>l \<in> set ls. lr_offer l = i \<and> lr_state l = ProposalStaged))
    \<and> lines_edit i (od_lines w) (od_lines w')"
  using assms
proof (induction inps arbitrary: n w x)
  case Nil
  then have "w' = w" by simp
  moreover have "w = w\<lparr>od_lines := od_lines w @ []\<rparr>" by simp
  ultimately show ?case using lines_edit_refl [OF Nil.prems(2)] by (metis empty_iff list.set(1))
next
  case (Cons inp inps)
  obtain v w1 y where first: "insert_staged_offer_line (ids n) i (start + int n) inp w = Inr (v, w1)"
    and rest: "insert_staged_lines ids (n + 1) i start inps w1 = Inr (y, w')"
    using Cons.prems(1) by (auto split: sum.splits)
  obtain l where l: "lr_id l = ids n" "lr_offer l = i" "lr_state l = ProposalStaged" "w1 = w\<lparr>od_lines := od_lines w @ [l]\<rparr>"
    "lines_edit i (od_lines w) (od_lines w1)"
    using insert_staged_line_effect [OF first Cons.prems(2)] bspec [OF Cons.prems(4), of n] by auto
  have later: "inj_on ids {n + 1 ..< n + 1 + length inps}"
    by (rule inj_on_subset [OF Cons.prems(3)]) auto
  have "ids m \<notin> lr_id ` set (od_lines w1)" if m: "m \<in> {n + 1 ..< n + 1 + length inps}" for m
  proof -
    have "ids m \<noteq> ids n" using m inj_onD [OF Cons.prems(3), of m n] by auto
    then show ?thesis using Cons.prems(4) m l(1,4) by auto
  qed
  then obtain ls where "w' = w1\<lparr>od_lines := od_lines w1 @ ls\<rparr>" "\<forall>l \<in> set ls. lr_offer l = i \<and> lr_state l = ProposalStaged"
    "lines_edit i (od_lines w1) (od_lines w')"
    using Cons.IH [OF rest _ later] l(5) by (auto simp: lines_edit_def)
  then have "w' = w\<lparr>od_lines := od_lines w @ (l # ls)\<rparr>" "\<forall>l \<in> set (l # ls). lr_offer l = i \<and> lr_state l = ProposalStaged"
    "lines_edit i (od_lines w) (od_lines w')"
    using l lines_edit_trans by auto
  then show ?case by blast
qed

end
