(* ===== verification/Offer_Machine.thy ===== *)
theory Offer_Machine
  imports Offer_Effects Machines
begin

text \<open>
  The offers over time: every committed operation as a step of one machine, the invariant its tables keep,
  and the life of one offer as its specification.
\<close>

section \<open>The invariant\<close>

text \<open>What a row says of itself: its totals are the engine's over the accepted lines, and what sending freezes.\<close>

definition row_ok :: "offer_db \<Rightarrow> offer_header \<Rightarrow> bool" where
  "row_ok w r \<longleftrightarrow> valid_currency (or_currency r)
     \<and> offer_totals (priced_lines (or_id r) w) = Inr (totals_of r)
     \<and> (or_status r = OfferStatusDraft \<longleftrightarrow> or_fx_rate r = None)
     \<and> (or_status r \<noteq> OfferStatusDraft \<longrightarrow> or_fx_date r \<noteq> None \<and> or_issuer_snapshot r \<noteq> None \<and> lines_of (or_id r) w \<noteq> [])
     \<and> (or_status r = OfferStatusAccepted \<longleftrightarrow> or_accepted_at r \<noteq> None)"

text \<open>The keys of the two tables, the line rows' own constraints, and every row.\<close>

definition tables_ok :: "offer_db \<Rightarrow> bool" where
  "tables_ok w \<longleftrightarrow> distinct (map or_id (od_offers w))
     \<and> distinct (map (\<lambda>r. (or_number r, or_revision r)) (od_offers w))
     \<and> lines_ok (od_lines w) \<and> (\<forall>l \<in> set (od_lines w). lr_offer l \<in> or_id ` set (od_offers w))
     \<and> (\<forall>r \<in> set (od_offers w). row_ok w r)"

lemma tables_okI:
  assumes "distinct (map or_id (od_offers w))" "distinct (map (\<lambda>r. (or_number r, or_revision r)) (od_offers w))"
    and "lines_ok (od_lines w)" "\<And>l. l \<in> set (od_lines w) \<Longrightarrow> lr_offer l \<in> or_id ` set (od_offers w)"
    and "\<And>r. r \<in> set (od_offers w) \<Longrightarrow> row_ok w r"
  shows "tables_ok w"
  unfolding tables_ok_def using assms by (intro conjI ballI)

text \<open>A revision is superseded exactly when its number has a newer one.\<close>

definition rev_key :: "offer_header \<Rightarrow> string \<times> int \<times> bool" where
  "rev_key r = (or_number r, or_revision r, or_status r = OfferStatusSuperseded)"

definition revisions_ok :: "offer_header list \<Rightarrow> bool" where
  "revisions_ok rs \<longleftrightarrow> (\<forall>x \<in> set rs. or_status x = OfferStatusSuperseded \<longleftrightarrow>
     (\<exists>y \<in> set rs. or_number y = or_number x \<and> or_revision x < or_revision y))"

lemma revisions_keys:
  "revisions_ok rs \<longleftrightarrow> (\<forall>(n, v, sup) \<in> rev_key ` set rs. sup \<longleftrightarrow> (\<exists>(m, u, _) \<in> rev_key ` set rs. m = n \<and> v < u))"
  unfolding revisions_ok_def by (simp add: rev_key_def)

definition offers_ok :: "offer_db \<Rightarrow> bool" where
  "offers_ok w \<longleftrightarrow> tables_ok w \<and> revisions_ok (od_offers w)"

lemma row_ok_cong: "lines_of (or_id r) w' = lines_of (or_id r) w \<Longrightarrow> row_ok w' r \<longleftrightarrow> row_ok w r"
  by (simp add: row_ok_def priced_lines_def)

text \<open>One row changed, with its lines.\<close>

definition row_change :: "uuid \<Rightarrow> (offer_header \<Rightarrow> offer_header) \<Rightarrow> offer_db \<Rightarrow> offer_db \<Rightarrow> bool" where
  "row_change i f w w' \<longleftrightarrow> od_offers w' = update_where (\<lambda>r. or_id r = i) f (od_offers w)
     \<and> lines_edit i (od_lines w) (od_lines w')
     \<and> (\<forall>r. or_id (f r) = or_id r \<and> or_deal (f r) = or_deal r \<and> or_number (f r) = or_number r \<and> or_revision (f r) = or_revision r)"

lemma row_change_ids: "row_change i f w w' \<Longrightarrow> map or_id (od_offers w') = map or_id (od_offers w)"
  by (auto simp: row_change_def update_where_def)

lemma row_change_numbers:
  "row_change i f w w' \<Longrightarrow> map (\<lambda>r. (or_number r, or_revision r)) (od_offers w') = map (\<lambda>r. (or_number r, or_revision r)) (od_offers w)"
  by (auto simp: row_change_def update_where_def)

lemma lines_of_other: "lines_edit i (od_lines w) (od_lines w') \<Longrightarrow> j \<noteq> i \<Longrightarrow> lines_of j w' = lines_of j w"
  unfolding lines_of_def by (rule lines_edit_other)

lemma lines_edit_mem: "lines_edit i ls ls' \<Longrightarrow> l \<in> set ls' \<Longrightarrow> lr_offer l = i \<or> l \<in> set ls"
proof -
  assume "lines_edit i ls ls'" "l \<in> set ls'"
  then have "lr_offer l \<noteq> i \<Longrightarrow> l \<in> set (filter (\<lambda>l. lr_offer l \<noteq> i) ls)" unfolding lines_edit_def by (metis (mono_tags, lifting) filter_set mem_Collect_eq set_filter)
  then show ?thesis by auto
qed

lemma row_change_tables:
  assumes ch: "row_change i f w w'" and ok: "tables_ok w" and i: "i \<in> or_id ` set (od_offers w)"
    and row: "\<And>r. r \<in> set (od_offers w) \<Longrightarrow> or_id r = i \<Longrightarrow> row_ok w' (f r)"
  shows "tables_ok w'"
proof -
  have ids: "or_id ` set (od_offers w') = or_id ` set (od_offers w)"
    using arg_cong [OF row_change_ids [OF ch], of set] by simp
  have lines: "lines_edit i (od_lines w) (od_lines w')" using ch by (simp add: row_change_def)
  have owned: "lr_offer l \<in> or_id ` set (od_offers w')" if "l \<in> set (od_lines w')" for l
    unfolding ids using lines_edit_mem [OF lines that] ok i by (auto simp: tables_ok_def)
  have rows: "row_ok w' r" if r: "r \<in> set (od_offers w')" for r
  proof (cases "or_id r = i")
    case True
    then show ?thesis using r row ch by (auto simp: row_change_def update_where_def split: if_splits)
  next
    case False
    then have "r \<in> set (od_offers w)" using r ch by (auto simp: row_change_def update_where_def split: if_splits)
    then show ?thesis using ok row_ok_cong [OF lines_of_other [OF lines False]] by (simp add: tables_ok_def)
  qed
  have lok: "lines_ok (od_lines w')" using lines by (simp add: lines_edit_def)
  have dist: "distinct (map or_id (od_offers w'))" "distinct (map (\<lambda>r. (or_number r, or_revision r)) (od_offers w'))"
    unfolding row_change_ids [OF ch] row_change_numbers [OF ch] using ok by (simp_all add: tables_ok_def)
  show ?thesis by (rule tables_okI [OF dist lok owned rows])
qed

lemma revisions_cong: "map rev_key rs' = map rev_key rs \<Longrightarrow> revisions_ok rs' \<longleftrightarrow> revisions_ok rs"
proof -
  assume "map rev_key rs' = map rev_key rs"
  then have "rev_key ` set rs' = rev_key ` set rs" by (metis set_map)
  then show ?thesis by (simp only: revisions_keys)
qed

lemma row_change_ok:
  assumes ch: "row_change i f w w'" and ok: "offers_ok w" and r: "r \<in> set (od_offers w)" "or_id r = i"
    and row: "row_ok w' (f r)" and st: "or_status (f r) = OfferStatusSuperseded \<longleftrightarrow> or_status r = OfferStatusSuperseded"
  shows "offers_ok w'"
proof -
  have dist: "distinct (map or_id (od_offers w))" and tok: "tables_ok w" using ok by (simp_all add: offers_ok_def tables_ok_def)
  have only: "x = r" if "x \<in> set (od_offers w)" "or_id x = i" for x
    using that r dist unfolding distinct_map by (metis inj_onD)
  have "row_ok w' (f x)" if "x \<in> set (od_offers w)" "or_id x = i" for x using row only [OF that] by simp
  then have "tables_ok w'" using row_change_tables [OF ch tok] r by blast
  moreover have "rev_key (if or_id x = i then f x else x) = rev_key x" if x: "x \<in> set (od_offers w)" for x
    using ch st only [OF x] by (auto simp: row_change_def rev_key_def)
  then have "map rev_key (od_offers w') = map rev_key (od_offers w)"
    using ch by (simp add: row_change_def update_where_def)
  ultimately show ?thesis using ok revisions_cong unfolding offers_ok_def by blast
qed

text \<open>One row appended, with its lines.\<close>

lemma appended_tables:
  assumes ok: "tables_ok w" and offers: "od_offers w' = od_offers w @ [r]" and lines: "od_lines w' = od_lines w @ ls"
    and fresh: "or_id r \<notin> or_id ` set (od_offers w)" and key: "\<And>x. x \<in> set (od_offers w) \<Longrightarrow> (or_number x, or_revision x) \<noteq> (or_number r, or_revision r)"
    and new: "\<And>l. l \<in> set ls \<Longrightarrow> lr_offer l = or_id r" and lok: "lines_ok (od_lines w')" and row: "row_ok w' r"
  shows "tables_ok w'"
proof -
  have same: "lines_of (or_id x) w' = lines_of (or_id x) w" if x: "x \<in> set (od_offers w)" for x
  proof -
    have "or_id x \<noteq> or_id r" using fresh x by (metis imageI)
    then have "filter (\<lambda>l. lr_offer l = or_id x) ls = []" using new by (simp add: filter_empty_conv)
    then show ?thesis by (simp add: lines_of_def lines)
  qed
  have "row_ok w' x" if x: "x \<in> set (od_offers w)" for x
    using ok x row_ok_cong [OF same [OF x]] unfolding tables_ok_def by blast
  then have rows: "row_ok w' x" if "x \<in> set (od_offers w')" for x using that row by (auto simp: offers)
  have owned: "lr_offer l \<in> or_id ` set (od_offers w')" if l: "l \<in> set (od_lines w')" for l
  proof (cases "l \<in> set ls")
    case False
    then have "l \<in> set (od_lines w)" using l by (simp add: lines)
    then show ?thesis using ok by (auto simp: tables_ok_def offers)
  qed (simp add: new offers)
  have dist: "distinct (map or_id (od_offers w'))" using ok fresh by (simp add: tables_ok_def offers)
  have "(or_number r, or_revision r) \<notin> (\<lambda>x. (or_number x, or_revision x)) ` set (od_offers w)"
  proof
    assume "(or_number r, or_revision r) \<in> (\<lambda>x. (or_number x, or_revision x)) ` set (od_offers w)"
    then obtain x where "(or_number r, or_revision r) = (or_number x, or_revision x)" "x \<in> set (od_offers w)" by (rule imageE)
    then show False using key [of x] by simp
  qed
  then have numbers: "distinct (map (\<lambda>x. (or_number x, or_revision x)) (od_offers w'))" using ok by (simp add: tables_ok_def offers)
  show ?thesis by (rule tables_okI [OF dist numbers lok owned rows])
qed

lemma no_lines_yet: "tables_ok w \<Longrightarrow> i \<notin> or_id ` set (od_offers w) \<Longrightarrow> lines_of i w = []"
  by (auto simp: tables_ok_def lines_of_def filter_empty_conv)

section \<open>Edits and moves\<close>

text \<open>What a settled row keeps: everything but its status, its file, when it was accepted or archived, and its version.\<close>

definition settled :: "offer_header \<Rightarrow> offer_header" where
  "settled r = r\<lparr>or_status := OfferStatusSent, or_pdf := None, or_accepted_at := None, or_archived_at := None, or_version := 0\<rparr>"

definition changed :: "uuid \<Rightarrow> offer_status \<Rightarrow> offer_status \<Rightarrow> offer_db \<Rightarrow> offer_db \<Rightarrow> bool" where
  "changed i a b w w' \<longleftrightarrow> (\<exists>f r. row_change i f w w' \<and> r \<in> set (od_offers w) \<and> or_id r = i \<and> or_status r = a
     \<and> or_status (f r) = b \<and> row_ok w' (f r)
     \<and> (a \<noteq> OfferStatusDraft \<longrightarrow> settled (f r) = settled r \<and> od_lines w' = od_lines w))"

lemma changedI:
  assumes "row_change i f w w'" "r \<in> set (od_offers w)" "or_id r = i" "or_status r = a" "or_status (f r) = b" "row_ok w' (f r)"
    and "a = OfferStatusDraft \<or> settled (f r) = settled r \<and> od_lines w' = od_lines w"
  shows "changed i a b w w'"
  unfolding changed_def using assms by blast

lemma changed_ok:
  assumes "changed i a b w w'" "offers_ok w" "b = OfferStatusSuperseded \<longleftrightarrow> a = OfferStatusSuperseded"
  shows "offers_ok w'"
  using assms row_change_ok unfolding changed_def by metis

lemma totals_tables: "tables_ok w \<Longrightarrow> lines_ok (od_lines w)"
  by (simp add: tables_ok_def)

lemma tables_row: "tables_ok w \<Longrightarrow> r \<in> set (od_offers w) \<Longrightarrow> row_ok w r"
  by (simp add: tables_ok_def)

lemma tables_one: "tables_ok w \<Longrightarrow> r \<in> set (od_offers w) \<Longrightarrow> x \<in> set (od_offers w) \<Longrightarrow> or_id x = or_id r \<Longrightarrow> x = r"
  unfolding tables_ok_def distinct_map by (metis inj_onD)

lemma changed_tables:
  assumes "changed i a b w w'" "tables_ok w"
  shows "tables_ok w'"
proof -
  obtain f r where ch: "row_change i f w w'" and r: "r \<in> set (od_offers w)" "or_id r = i" "row_ok w' (f r)"
    using assms(1) unfolding changed_def by blast
  have "row_ok w' (f x)" if x: "x \<in> set (od_offers w)" "or_id x = i" for x
  proof -
    have "x = r" using tables_one [OF assms(2) r(1) x(1)] x(2) r(2) by simp
    then show ?thesis using r(3) by simp
  qed
  moreover have "i \<in> or_id ` set (od_offers w)" using r(1,2) by (metis imageI)
  ultimately show ?thesis using row_change_tables [OF ch assms(2)] by blast
qed

lemma unchanged_draft:
  assumes "tables_ok w" "r \<in> set (od_offers w)" "or_id r = i" "or_status r = OfferStatusDraft"
  shows "changed i OfferStatusDraft OfferStatusDraft w w"
proof -
  have "row_change i (\<lambda>r. r) w w" using lines_edit_refl [OF totals_tables [OF assms(1)]] by (simp add: row_change_def update_where_def)
  then show ?thesis unfolding changed_def using assms tables_row [OF assms(1,2)] by metis
qed

text \<open>Lines edited, totals derived again.\<close>

lemma recomputed_draft:
  assumes ok: "tables_ok w" and r: "r \<in> set (od_offers w)" "or_id r = i" "or_status r = OfferStatusDraft"
    and edit: "lines_edit i (od_lines w) ls" and g: "offer_totals (priced_lines i (w\<lparr>od_lines := ls\<rparr>)) = Inr g"
    and w': "od_offers w' = update_where (\<lambda>r. or_id r = i) (store_totals g) (od_offers w)" "od_lines w' = ls"
  shows "changed i OfferStatusDraft OfferStatusDraft w w'"
proof -
  have "row_change i (store_totals g) w w'"
    using edit by (simp add: row_change_def w' store_totals_def)
  moreover have "priced_lines i w' = priced_lines i (w\<lparr>od_lines := ls\<rparr>)" by (simp add: priced_lines_def lines_of_def w')
  then have "row_ok w' (store_totals g r)"
    using tables_row [OF ok r(1)] r g by (simp add: row_ok_def) (simp add: store_totals_def)
  ultimately show ?thesis unfolding changed_def using r by (intro exI [of _ "store_totals g"] exI [of _ r]) (simp add: store_totals_def)
qed

lemma edited_draft:
  assumes "tables_ok w" "r \<in> set (od_offers w)" "or_id r = i" "or_status r = OfferStatusDraft"
    and "lines_edit i (od_lines w) ls" "after_lines s c i b a (w\<lparr>od_lines := ls\<rparr>) = Inr (v, w')"
  shows "changed i OfferStatusDraft OfferStatusDraft w w'"
proof -
  obtain g l where "offer_totals (priced_lines i (w\<lparr>od_lines := ls\<rparr>)) = Inr g"
    "od_offers w' = update_where (\<lambda>r. or_id r = i) (store_totals g) (od_offers w)" "od_lines w' = ls"
    using after_lines_effect [OF assms(6)] by fastforce
  then show ?thesis by (rule recomputed_draft [OF assms(1-5)])
qed

lemma line_patch_keeps:
  assumes "build_offer_line_patch inp l = Inr p"
    and "\<And>(x :: line_row) n. k (x\<lparr>lr_tax := n\<rparr>) = k x \<and> k (x\<lparr>lr_discount := n\<rparr>) = k x \<and> k (x\<lparr>lr_quantity := n\<rparr>) = k x
      \<and> k (x\<lparr>lr_position := n\<rparr>) = k x"
    and "\<And>x a. k (x\<lparr>lr_price := a\<rparr>) = k x" "\<And>x a. k (x\<lparr>lr_unit := a\<rparr>) = k x" "\<And>x a. k (x\<lparr>lr_description := a\<rparr>) = k x"
  shows "patch_keeps k p"
  using assms(1) by (auto simp: build_offer_line_patch_def assms(2-5) intro!: patch_keeps_opt)

text \<open>A line patched within its offer, to a position no other line of the offer holds.\<close>

lemma patched_line_edit:
  assumes ok: "lines_ok ls" and l: "l \<in> set ls" "lr_id l = lid" "lr_offer l = i"
    and keep: "\<And>x. lr_id (g x) = lr_id x" "\<And>x. lr_offer (g x) = lr_offer x"
    and chk: "check_line (g l) = Inr ()"
    and free: "\<And>x. x \<in> set ls \<Longrightarrow> lr_offer x = i \<Longrightarrow> lr_id x \<noteq> lid \<Longrightarrow> lr_position x \<noteq> lr_position (g l)"
  shows "lines_edit i ls (update_where (\<lambda>x. lr_id x = lid) g ls)"
proof -
  have ids: "distinct (map lr_id ls)" and keys: "distinct (map (\<lambda>l. (lr_offer l, lr_position l)) ls)"
    and all: "list_all (\<lambda>l. check_line l = Inr ()) ls"
    using ok by (simp_all add: lines_ok_def)
  have one: "x = l" if "x \<in> set ls" "lr_id x = lid" for x
    using ids l(1,2) that unfolding distinct_map by (metis inj_onD)
  let ?h = "\<lambda>x. if lr_id x = lid then g x else x"
  have "inj_on (\<lambda>x. (lr_offer (?h x), lr_position (?h x))) (set ls)"
  proof (rule inj_onI)
    fix x y assume xy: "x \<in> set ls" "y \<in> set ls" and eq: "(lr_offer (?h x), lr_position (?h x)) = (lr_offer (?h y), lr_position (?h y))"
    consider "lr_id x = lid" "lr_id y = lid" | "lr_id x = lid" "lr_id y \<noteq> lid" | "lr_id x \<noteq> lid" "lr_id y = lid" | "lr_id x \<noteq> lid" "lr_id y \<noteq> lid"
      by blast
    then show "x = y"
    proof cases
      case 1 then show ?thesis using one xy by metis
    next
      case 2
      then have "x = l" using one xy by metis
      then show ?thesis using 2 eq free [OF xy(2)] keep l by simp
    next
      case 3
      then have "y = l" using one xy by metis
      then show ?thesis using 3 eq free [OF xy(1)] keep l by simp
    next
      case 4
      then have "(lr_offer x, lr_position x) = (lr_offer y, lr_position y)" using eq by simp
      then show ?thesis using keys xy unfolding distinct_map by (metis (mono_tags, lifting) inj_onD)
    qed
  qed
  moreover have "distinct ls" using ids by (simp add: distinct_map)
  ultimately have "distinct (map (\<lambda>x. (lr_offer (?h x), lr_position (?h x))) ls)" by (simp add: distinct_map)
  then have "distinct (map (\<lambda>l. (lr_offer l, lr_position l)) (update_where (\<lambda>x. lr_id x = lid) g ls))"
    by (simp add: update_where_def o_def)
  moreover have "list_all (\<lambda>l. check_line l = Inr ()) (update_where (\<lambda>x. lr_id x = lid) g ls)"
    proof -
    have "check_line (?h x) = Inr ()" if "x \<in> set ls" for x
      using that all one [OF that] chk by (cases "lr_id x = lid") (auto simp: list_all_iff)
    then have "\<forall>x \<in> set ls. check_line (?h x) = Inr ()" by blast
    then show ?thesis by (simp only: list_all_iff update_where_def set_map ball_simps)
  qed
  ultimately have "lines_ok (update_where (\<lambda>x. lr_id x = lid) g ls)"
    using ids by (simp add: lines_ok_def map_update_where keep)
  moreover have "?h x = x" if "x \<in> set ls" "lr_offer x \<noteq> i" for x
    using one [OF that(1)] that(2) l(3) by (cases "lr_id x = lid") auto
  then have "filter (\<lambda>l. lr_offer l \<noteq> i) (map ?h ls) = filter (\<lambda>l. lr_offer l \<noteq> i) ls"
    using keep by (induction ls) auto
  ultimately show ?thesis by (simp add: lines_edit_def update_where_def)
qed

text \<open>The ids a call mints are new: that of the offer, and those of its first \<open>n\<close> lines.\<close>

definition minted :: "nat \<Rightarrow> offer_svc \<Rightarrow> offer_db \<Rightarrow> bool" where
  "minted n s w \<longleftrightarrow> inj_on (sv_line_id s) {0 ..< n} \<and> (\<forall>k \<in> {0 ..< n}. sv_line_id s k \<notin> lr_id ` set (od_lines w))
     \<and> sv_offer_id s \<notin> or_id ` set (od_offers w)"

lemma add_line_changes:
  assumes "add_offer_line_item s c i inp w = (Inr v, w')" "tables_ok w" "minted 1 s w"
  shows "changed i OfferStatusDraft OfferStatusDraft w w'"
proof -
  obtain r x w1 where r: "r \<in> set (od_offers w)" "or_id r = i" "or_status r = OfferStatusDraft"
    and ins: "insert_offer_line (sv_line_id s 0) i (or_currency r) inp w = Inr (x, w1)"
    and rest: "after_lines s c i None (Some [(''line_added'', JBool True)]) w1 = Inr (v, w')"
    using require_update_Inr [OF assms(1) [unfolded add_offer_line_item_def]] by (auto elim!: on_draft_Inr)
  obtain l where "w1 = w\<lparr>od_lines := od_lines w @ [l]\<rparr>" "lines_edit i (od_lines w) (od_lines w1)"
    using insert_offer_line_effect [OF ins totals_tables [OF assms(2)]] assms(3) by (auto simp: minted_def)
  then show ?thesis using edited_draft [OF assms(2) r] rest by simp
qed

lemma staged_lines_change:
  assumes "add_staged_offer_lines s c i inps w = (Inr v, w')" "tables_ok w" "minted (length inps) s w"
  shows "changed i OfferStatusDraft OfferStatusDraft w w'"
proof -
  obtain r start vs w1 led g where r: "r \<in> set (od_offers w)" "or_id r = i" "or_status r = OfferStatusDraft"
    and ins: "insert_staged_lines (sv_line_id s) 0 i start inps w = Inr (vs, w1)"
    and g: "offer_totals (priced_lines i w1) = Inr g"
    and w': "w' = w1\<lparr>od_offers := update_where (\<lambda>r. or_id r = i) (store_totals g) (od_offers w1), od_ledger := led\<rparr>"
    using assms(1)
    by (auto simp: add_staged_offer_lines_def recompute_offer_totals_def split: sum.splits if_splits
        dest!: run_tx_InrD audit_offer_effect elim!: on_draft_Inr)
  obtain ls where "w1 = w\<lparr>od_lines := od_lines w @ ls\<rparr>" "lines_edit i (od_lines w) (od_lines w1)"
    using insert_staged_lines_effect [OF ins totals_tables [OF assms(2)]] assms(3) by (auto simp: minted_def)
  then show ?thesis using recomputed_draft [OF assms(2) r, of "od_lines w @ ls" g w'] g w' by simp
qed

lemma accept_line_changes:
  assumes "accept_offer_line_item s c i lid w = (Inr v, w')" "tables_ok w"
  shows "changed i OfferStatusDraft OfferStatusDraft w w'"
proof -
  let ?hit = "\<lambda>l. lr_id l = lid \<and> lr_offer l = i \<and> lr_state l = ProposalStaged"
  let ?ls = "update_where ?hit (\<lambda>l. l\<lparr>lr_state := ProposalAccepted\<rparr>) (od_lines w)"
  obtain r where r: "r \<in> set (od_offers w)" "or_id r = i" "or_status r = OfferStatusDraft"
    and rest: "answer_view i LiveOnly w = Inr (v, w') \<or> (\<exists>b a. after_lines s c i b a (w\<lparr>od_lines := ?ls\<rparr>) = Inr (v, w'))"
    using require_update_Inr [OF assms(1) [unfolded accept_offer_line_item_def]]
    by (fastforce simp: Let_def elim!: on_draft_Inr split: if_splits)
  have "check_line (l\<lparr>lr_state := ProposalAccepted\<rparr>) = check_line l" for l
    by (simp add: check_line_def line_checks_def)
  then have "lines_ok ?ls"
    using totals_tables [OF assms(2)] unfolding lines_ok_def
    by (auto simp: map_update_where list_all_iff set_update_where)
  moreover have "filter (\<lambda>l. lr_offer l \<noteq> i) ?ls = filter (\<lambda>l. lr_offer l \<noteq> i) (od_lines w)"
    by (rule filter_update_where_other) auto
  ultimately have edit: "lines_edit i (od_lines w) ?ls" unfolding lines_edit_def by blast
  from rest show ?thesis
  proof (elim disjE exE)
    assume "answer_view i LiveOnly w = Inr (v, w')"
    then have "w' = w" using answer_view_effect by blast
    then show ?thesis using unchanged_draft [OF assms(2) r] by simp
  qed (rule edited_draft [OF assms(2) r edit])
qed

lemma remove_line_changes:
  assumes "remove_offer_line_item s c i lid w = (Inr v, w')" "tables_ok w"
  shows "changed i OfferStatusDraft OfferStatusDraft w w'"
proof -
  let ?ls = "filter (\<lambda>l. \<not> (lr_id l = lid \<and> lr_offer l = i)) (od_lines w)"
  obtain r where r: "r \<in> set (od_offers w)" "or_id r = i" "or_status r = OfferStatusDraft"
    and rest: "after_lines s c i (Some [(''line_id'', JStr (uuid_string lid))]) (Some [(''line_removed'', JBool True)])
      (w\<lparr>od_lines := ?ls\<rparr>) = Inr (v, w')"
    using require_update_Inr [OF assms(1) [unfolded remove_offer_line_item_def]]
    by (auto simp: Let_def elim!: on_draft_Inr split: if_splits)
  have "filter (\<lambda>l. lr_offer l \<noteq> i) (filter (\<lambda>l. \<not> (lr_id l = lid \<and> lr_offer l = i)) xs) = filter (\<lambda>l. lr_offer l \<noteq> i) xs" for xs
    by (induction xs) auto
  moreover have "lines_ok ?ls"
    using totals_tables [OF assms(2)] unfolding lines_ok_def by (auto simp: list_all_iff distinct_map_filter)
  ultimately have "lines_edit i (od_lines w) ?ls" unfolding lines_edit_def by blast
  then show ?thesis by (rule edited_draft [OF assms(2) r _ rest])
qed

lemma update_line_changes:
  assumes "update_offer_line_item s c i lid inp w = (Inr v, w')" "tables_ok w"
  shows "changed i OfferStatusDraft OfferStatusDraft w w'"
proof -
  obtain r l where r: "r \<in> set (od_offers w)" "or_id r = i" "or_status r = OfferStatusDraft"
    and l: "read_offer_line_for_update i lid w = Inr l"
    and rest: "answer_view i LiveOnly w = Inr (v, w') \<or> (\<exists>p w1 u b a. build_offer_line_patch inp l = Inr p
       \<and> update_line_row lid p l w = Inr (u, w1) \<and> after_lines s c i b a w1 = Inr (v, w'))"
    using require_update_Inr [OF assms(1) [unfolded update_offer_line_item_def]]
    by (fastforce elim!: on_draft_Inr split: if_splits)
  from rest show ?thesis
  proof (elim disjE exE conjE)
    assume "answer_view i LiveOnly w = Inr (v, w')"
    then have "w' = w" using answer_view_effect by blast
    then show ?thesis using unchanged_draft [OF assms(2) r] by simp
  next
    fix p w1 u b a
    assume p: "build_offer_line_patch inp l = Inr p" and upd: "update_line_row lid p l w = Inr (u, w1)"
      and after: "after_lines s c i b a w1 = Inr (v, w')"
    have keep: "lr_id (patched p x) = lr_id x" "lr_offer (patched p x) = lr_offer x" for x
      by (rule patch_keepsD [OF line_patch_keeps [OF p]]; simp)+
    let ?ls = "update_where (\<lambda>x. lr_id x = lid) (patched p) (od_lines w)"
    have l': "l \<in> set (od_lines w)" "lr_id l = lid" "lr_offer l = i"
      using l by (auto simp: read_offer_line_for_update_def split: option.splits dest!: find_SomeD)
    have w1: "w1 = w\<lparr>od_lines := ?ls\<rparr>" and chk: "check_line (patched p l) = Inr ()" and free: "\<not> position_taken (patched p l) w"
      using upd by (auto simp: update_line_row_def Let_def split: if_splits)
    have "lines_edit i (od_lines w) ?ls"
      by (rule patched_line_edit [OF totals_tables [OF assms(2)] l' keep chk])
        (use free keep l' in \<open>auto simp: position_taken_def list_ex_iff\<close>)
    then show ?thesis by (rule edited_draft [OF assms(2) r]) (rule after [unfolded w1])
  qed
qed

text \<open>The header, the archive stamp and the file: the row alone.\<close>

lemma live_one:
  assumes "tables_ok w" "r \<in> set (od_offers w)" "or_id r = i" "or_archived_at r = None"
  shows "update_where (selects offer_table LiveOnly i) f (od_offers w) = update_where (\<lambda>r. or_id r = i) f (od_offers w)"
proof -
  have "selects offer_table LiveOnly i x \<longleftrightarrow> or_id x = i" if "x \<in> set (od_offers w)" for x
    using tables_one [OF assms(1,2) that] assms(3,4) by (auto simp: selects_def live_clause_def)
  then show ?thesis by (simp add: update_where_def)
qed

lemma update_row_effect:
  assumes "update_offer_row i ver p r w = Inr (u, w')" "tables_ok w" "r \<in> set (od_offers w)" "or_id r = i"
  shows "w' = w\<lparr>od_offers := update_where (\<lambda>r. or_id r = i) (\<lambda>r. tb_touch offer_table (patched p r)) (od_offers w)\<rparr>
    \<and> valid_currency (or_currency (patched p r)) \<and> (case ver of None \<Rightarrow> True | Some n \<Rightarrow> or_version r = n)"
proof -
  obtain rows where rows: "apply_guarded offer_table LiveOnly i ver p (od_offers w) = Inr rows" "w' = w\<lparr>od_offers := rows\<rparr>"
    and cur: "valid_currency (or_currency (patched p r))"
    using assms(1) by (auto simp: update_offer_row_def check_currency_def split: if_splits)
  have "distinct (map (tb_id offer_table) (od_offers w))" using assms(2) by (simp add: tables_ok_def offer_table_def)
  from apply_guarded_Inr [OF rows(1) this] obtain x where x: "x \<in> set (od_offers w)" "selects offer_table LiveOnly i x"
    "case ver of None \<Rightarrow> True | Some n \<Rightarrow> tb_version offer_table x = n"
    and rows': "rows = update_where (\<lambda>x. tb_id offer_table x = i) (\<lambda>r. tb_touch offer_table (patched p r)) (od_offers w)"
    by blast
  have "x = r" using x(2) assms(4) tables_one [OF assms(2,3) x(1)] by (simp add: selects_def)
  then show ?thesis using x(3) rows(2) rows' cur by (simp split: option.splits)
qed

definition row_identity :: "offer_header \<Rightarrow> uuid \<times> uuid \<times> string \<times> int" where
  "row_identity r = (or_id r, or_deal r, or_number r, or_revision r)"

lemma patched_change:
  assumes "patch_keeps row_identity p" "lines_ok (od_lines w)" "od_lines w' = od_lines w"
    and "od_offers w' = update_where (\<lambda>r. or_id r = i) (\<lambda>r. tb_touch offer_table (patched p r)) (od_offers w)"
  shows "row_change i (\<lambda>r. tb_touch offer_table (patched p r)) w w'"
  using patch_keepsD [OF assms(1)] assms(2-4) lines_edit_refl by (simp add: row_change_def row_identity_def)

lemma row_ok_same_lines: "od_lines w' = od_lines w \<Longrightarrow> row_ok w' r \<longleftrightarrow> row_ok w r"
  by (rule row_ok_cong) (simp add: lines_of_def)

lemma header_changes:
  assumes "update_offer s c i inp w = (Inr v, w')" "tables_ok w"
  shows "changed i OfferStatusDraft OfferStatusDraft w w'"
proof -
  obtain r where r: "r \<in> set (od_offers w)" "or_id r = i" "or_status r = OfferStatusDraft"
    and rest: "answer_view i LiveOnly w = Inr (v, w')
      \<or> (\<exists>u w1 led. update_offer_row i (uo_if_version inp) (header_patch inp r) r w = Inr (u, w1) \<and> w' = w1\<lparr>od_ledger := led\<rparr>)"
    using require_update_Inr [OF assms(1) [unfolded update_offer_def]]
    by (fastforce simp: Let_def elim!: on_draft_Inr split: if_splits dest!: audit_offer_effect answer_view_effect)
  from rest show ?thesis
  proof (elim disjE exE conjE)
    assume "answer_view i LiveOnly w = Inr (v, w')"
    then have "w' = w" using answer_view_effect by blast
    then show ?thesis using unchanged_draft [OF assms(2) r] by simp
  next
    fix u w1 led
    assume "update_offer_row i (uo_if_version inp) (header_patch inp r) r w = Inr (u, w1)" and w': "w' = w1\<lparr>od_ledger := led\<rparr>"
    from update_row_effect [OF this(1) assms(2) r(1,2)]
    have w1: "w1 = w\<lparr>od_offers := update_where (\<lambda>r. or_id r = i) (\<lambda>x. tb_touch offer_table (patched (header_patch inp r) x)) (od_offers w)\<rparr>"
      and cur: "valid_currency (or_currency (patched (header_patch inp r) r))" by blast+
    let ?p = "header_patch inp r"
    let ?k = "\<lambda>r. (row_identity r, or_status r, or_fx_rate r, or_fx_date r, or_accepted_at r, or_issuer_snapshot r, totals_of r)"
    have keep: "patch_keeps ?k ?p" "patch_keeps row_identity ?p"
      unfolding header_patch_def by (intro patch_keeps_opt patch_keeps_Nil; simp add: row_identity_def totals_of_def)+
    have same: "?k (patched ?p r) = ?k r" by (rule patch_keepsD [OF keep(1)])
    have "row_ok w r" by (rule tables_row [OF assms(2) r(1)])
    then have "row_ok w (tb_touch offer_table (patched ?p r))"
      using same cur r by (auto simp: row_ok_def row_identity_def totals_of_def)
    then have row: "row_ok w' (tb_touch offer_table (patched ?p r))"
      using row_ok_same_lines [of w' w] by (simp add: w' w1)
    have "row_change i (\<lambda>x. tb_touch offer_table (patched ?p x)) w w'"
      by (rule patched_change [OF keep(2) totals_tables [OF assms(2)]]) (simp_all add: w' w1)
    then show ?thesis by (rule changedI) (use r row same in simp_all)
  qed
qed

lemma archive_changes:
  assumes "archive_offer s c i w = (Inr v, w')" "tables_ok w"
  shows "\<exists>a. changed i a a w w'"
proof -
  let ?f = "\<lambda>r. tb_touch offer_table (r\<lparr>or_archived_at := Some (od_now w)\<rparr>)"
  obtain r led where r: "r \<in> set (od_offers w)" "or_id r = i" "or_archived_at r = None"
    and w': "w' = w\<lparr>od_offers := update_where (selects offer_table LiveOnly i) ?f (od_offers w), od_ledger := led\<rparr>"
    using assms(1)
    by (auto simp: archive_offer_def split: sum.splits dest!: run_tx_InrD audit_offer_effect answer_view_effect visible_offer_locked_Inr)
  have "row_change i ?f w w'"
    unfolding w' row_change_def using lines_edit_refl [OF totals_tables [OF assms(2)]] live_one [OF assms(2) r] by simp
  then have "changed i (or_status r) (or_status r) w w'"
    by (rule changedI) (use r tables_row [OF assms(2) r(1)] in \<open>auto simp: w' settled_def row_ok_def totals_of_def priced_lines_def lines_of_def\<close>)
  then show ?thesis ..
qed

lemma pdf_changes:
  assumes "set_pdf_asset_ref s c i ref ver w = (Inr v, w')" "tables_ok w"
  shows "\<exists>a. changed i a a w w'"
proof -
  obtain r rows led where r: "r \<in> set (od_offers w)" "or_id r = i"
    and rows: "apply_with_version offer_table LiveOnly i ver (pdf_patch ref) (od_offers w) = Inr rows"
    and w': "w' = w\<lparr>od_offers := rows, od_ledger := led\<rparr>"
    using require_update_Inr [OF assms(1) [unfolded set_pdf_asset_ref_def]]
    by (auto simp: visible_offer_def dest!: audit_offer_effect answer_view_effect read_offer_Inr)
  have "apply_guarded offer_table LiveOnly i (Some ver) (pdf_patch ref) (od_offers w) = Inr rows"
    using rows by (simp add: apply_guarded_def)
  from apply_guarded_Inr [OF this] have rows': "rows = update_where (\<lambda>r. or_id r = i) (\<lambda>r. tb_touch offer_table (patched (pdf_patch ref) r)) (od_offers w)"
    using assms(2) by (auto simp: tables_ok_def offer_table_def)
  have "row_change i (\<lambda>r. tb_touch offer_table (patched (pdf_patch ref) r)) w w'"
    by (rule patched_change [OF _ totals_tables [OF assms(2)]]) (simp_all add: w' rows' pdf_patch_def patch_keeps_def row_identity_def)
  then have "changed i (or_status r) (or_status r) w w'"
    by (rule changedI) (use r tables_row [OF assms(2) r(1)] in \<open>auto simp: w' settled_def row_ok_def totals_of_def priced_lines_def lines_of_def pdf_patch_def\<close>)
  then show ?thesis ..
qed

text \<open>What the code relies on of the stamp on a deal's correspondence: it leaves the tables of the offers alone.\<close>

definition stamps_only :: "offer_svc \<Rightarrow> bool" where
  "stamps_only s \<longleftrightarrow> (\<forall>d w w'. sv_stamp s d w = Inr w' \<longrightarrow>
     od_offers w' = od_offers w \<and> od_lines w' = od_lines w \<and> od_deals w' = od_deals w)"

lemma send_effect:
  assumes "send_offer s c i ver w = (Inr v, w')" "stamps_only s" "tables_ok w"
  obtains r base rate rate_date rate_value buyer issuer where "r \<in> set (od_offers w)" "or_id r = i" "or_status r = OfferStatusDraft"
    "or_archived_at r = None" "lines_of i w \<noteq> []" "sv_base s w = Inr base" "freeze_fx base (or_currency r) (sv_now s) (od_rates w) = Inr (rate, rate_date)"
    "to_numeric 20 10 rate = Inr rate_value" "send_snapshots s base r w = Inr (buyer, issuer)" "issuer \<noteq> None"
    "od_offers w' = update_where (\<lambda>r. or_id r = i) (\<lambda>x. tb_touch offer_table (patched (sent_patch r rate rate_value rate_date buyer issuer) x)) (od_offers w)"
    "od_lines w' = od_lines w" "od_deals w' = od_deals w" "case ver of None \<Rightarrow> True | Some n \<Rightarrow> or_version r = n"
proof -
  obtain r base rate rate_date rate_value buyer issuer u w1 led where r: "r \<in> set (od_offers w)" "or_id r = i" "or_status r = OfferStatusDraft"
    "or_archived_at r = None" "lines_of i w \<noteq> []" "sv_base s w = Inr base" "freeze_fx base (or_currency r) (sv_now s) (od_rates w) = Inr (rate, rate_date)"
    "to_numeric 20 10 rate = Inr rate_value" "send_snapshots s base r w = Inr (buyer, issuer)"
    and upd: "update_offer_row i ver (sent_patch r rate rate_value rate_date buyer issuer) r w = Inr (u, w1)"
    and w': "sv_stamp s (or_deal r) (w1\<lparr>od_ledger := led\<rparr>) = Inr w'"
    using require_update_Inr [OF assms(1) [unfolded send_offer_def]]
    by (fastforce simp: Let_def elim!: on_draft_Inr split: if_splits prod.splits dest!: audit_offer_effect emit_offer_effect answer_view_effect)
  have "issuer \<noteq> None" using r(9) by (auto simp: send_snapshots_def)
  then show thesis
    using that r update_row_effect [OF upd assms(3) r(1,2)] w' assms(2) unfolding stamps_only_def by fastforce
qed

lemma sent_patch_row:
  "patched (sent_patch r0 rate rate_value rate_date buyer issuer) r =
     r\<lparr>or_status := OfferStatusSent, or_fx_rate := Some rate_value, or_fx_date := Some rate_date,
       or_buyer_snapshot := buyer, or_issuer_snapshot := issuer\<rparr>"
  by (simp add: sent_patch_def)

lemma send_changes:
  assumes "send_offer s c i ver w = (Inr v, w')" "stamps_only s" "tables_ok w"
  shows "changed i OfferStatusDraft OfferStatusSent w w'"
proof -
  obtain r rate rate_date rate_value buyer issuer where r: "r \<in> set (od_offers w)" "or_id r = i" "or_status r = OfferStatusDraft"
    and sent: "lines_of i w \<noteq> []" "issuer \<noteq> None"
    and w': "od_offers w' = update_where (\<lambda>r. or_id r = i) (\<lambda>x. tb_touch offer_table (patched (sent_patch r rate rate_value rate_date buyer issuer) x)) (od_offers w)"
      "od_lines w' = od_lines w"
    by (rule send_effect [OF assms])
  have "row_change i (\<lambda>x. tb_touch offer_table (patched (sent_patch r rate rate_value rate_date buyer issuer) x)) w w'"
    using lines_edit_refl [OF totals_tables [OF assms(3)]] by (simp add: row_change_def w' sent_patch_def)
  then show ?thesis
    by (rule changedI) (use r sent tables_row [OF assms(3) r(1)] in
      \<open>auto simp: sent_patch_row row_ok_def totals_of_def priced_lines_def lines_of_def w'\<close>)
qed

lemma sync_leaves:
  assumes "sync_deal_amount_from_offer s d r w = Inr (x, w')"
  shows "od_offers w' = od_offers w \<and> od_lines w' = od_lines w"
  using assms by (auto simp: sync_deal_amount_from_offer_def price_deal_def Let_def split: option.splits if_splits prod.splits)

lemma accept_effect:
  assumes "accept_offer s c i ver w = (Inr v, w')" "tables_ok w"
  obtains r w1 w2 fields led where "r \<in> set (od_offers w)" "or_id r = i" "or_status r = OfferStatusSent" "or_archived_at r = None"
    "w1 = w\<lparr>od_offers := update_where (\<lambda>r. or_id r = i) (\<lambda>x. tb_touch offer_table (patched (accepted_patch (sv_now s)) x)) (od_offers w)\<rparr>"
    "sync_deal_amount_from_offer s (or_deal r) r w1 = Inr (fields, w2)" "w' = w2\<lparr>od_ledger := led\<rparr>"
proof -
  obtain r u w1 fields w2 led where r: "r \<in> set (od_offers w)" "or_id r = i" "or_status r = OfferStatusSent" "or_archived_at r = None"
    and upd: "update_offer_row i ver (accepted_patch (sv_now s)) r w = Inr (u, w1)"
    and sync: "sync_deal_amount_from_offer s (or_deal r) r w1 = Inr (fields, w2)" and w': "w' = w2\<lparr>od_ledger := led\<rparr>"
    using assms(1)
    by (fastforce simp: accept_offer_def Let_def elim!: on_sent_Inr split: sum.splits prod.splits
        dest!: run_tx_InrD audit_offer_effect emit_offer_effect answer_view_effect)
  show thesis by (rule that [OF r _ sync w']) (use update_row_effect [OF upd assms(2) r(1,2)] in simp)
qed

lemma status_moved:
  assumes "tables_ok w" "r \<in> set (od_offers w)" "or_id r = i" "or_status r = OfferStatusSent"
    and "od_offers w' = update_where (\<lambda>r. or_id r = i) (\<lambda>x. tb_touch offer_table (patched p x)) (od_offers w)" "od_lines w' = od_lines w"
    and "patch_keeps (\<lambda>r. (row_identity r, settled r)) p" "or_status (patched p r) = b" "b \<noteq> OfferStatusDraft"
    and "b = OfferStatusAccepted \<longleftrightarrow> or_accepted_at (patched p r) \<noteq> None"
  shows "changed i OfferStatusSent b w w'"
proof -
  have keep: "row_identity (patched p x) = row_identity x" "settled (patched p x) = settled x" for x
    using patch_keepsD [OF assms(7)] by simp_all
  have "row_change i (\<lambda>x. tb_touch offer_table (patched p x)) w w'"
    using lines_edit_refl [OF totals_tables [OF assms(1)]] keep(1) by (simp add: row_change_def assms(5,6) row_identity_def)
  then show ?thesis
  proof (rule changedI)
    have "settled (patched p r) = settled r" by (rule keep)
    then have same: "or_currency (patched p r) = or_currency r" "or_id (patched p r) = or_id r" "totals_of (patched p r) = totals_of r"
      "or_fx_rate (patched p r) = or_fx_rate r" "or_fx_date (patched p r) = or_fx_date r" "or_issuer_snapshot (patched p r) = or_issuer_snapshot r"
      by (auto simp: settled_def totals_of_def dest: arg_cong [of _ _ or_currency] arg_cong [of _ _ or_id] arg_cong [of _ _ or_net]
          arg_cong [of _ _ or_tax] arg_cong [of _ _ or_gross] arg_cong [of _ _ or_fx_rate] arg_cong [of _ _ or_fx_date]
          arg_cong [of _ _ or_issuer_snapshot])
    have "row_ok w (tb_touch offer_table (patched p r))"
      using tables_row [OF assms(1,2)] assms(4,8-10) same by (auto simp: row_ok_def totals_of_def)
    then show "row_ok w' (tb_touch offer_table (patched p r))" using row_ok_same_lines [OF assms(6)] by blast
    have "settled (r'\<lparr>or_version := n\<rparr>) = settled r'" for r' n by (simp add: settled_def)
    then show "OfferStatusSent = OfferStatusDraft \<or> settled (tb_touch offer_table (patched p r)) = settled r \<and> od_lines w' = od_lines w"
      using keep(2) assms(6) by simp
  qed (use assms in simp_all)
qed

lemma accept_changes:
  assumes "accept_offer s c i ver w = (Inr v, w')" "tables_ok w"
  shows "changed i OfferStatusSent OfferStatusAccepted w w'"
proof -
  obtain r w1 w2 fields led where r: "r \<in> set (od_offers w)" "or_id r = i" "or_status r = OfferStatusSent"
    and w: "w1 = w\<lparr>od_offers := update_where (\<lambda>r. or_id r = i) (\<lambda>x. tb_touch offer_table (patched (accepted_patch (sv_now s)) x)) (od_offers w)\<rparr>"
      "sync_deal_amount_from_offer s (or_deal r) r w1 = Inr (fields, w2)" "w' = w2\<lparr>od_ledger := led\<rparr>"
    by (rule accept_effect [OF assms])
  show ?thesis
    by (rule status_moved [OF assms(2) r, where p = "accepted_patch (sv_now s)"])
      (use w sync_leaves [OF w(2)] in \<open>auto simp: accepted_patch_def patch_keeps_def settled_def row_identity_def\<close>)
qed

lemma reject_changes:
  assumes "reject_offer s c i reason ver w = (Inr v, w')" "tables_ok w"
  shows "changed i OfferStatusSent OfferStatusRejected w w'"
proof -
  obtain r u w1 led where r: "r \<in> set (od_offers w)" "or_id r = i" "or_status r = OfferStatusSent"
    and upd: "update_offer_row i ver rejected_patch r w = Inr (u, w1)" and w': "w' = w1\<lparr>od_ledger := led\<rparr>"
    using require_update_Inr [OF assms(1) [unfolded reject_offer_def]]
    by (fastforce simp: Let_def elim!: on_sent_Inr dest!: audit_offer_effect emit_offer_effect answer_view_effect)
  have "or_accepted_at r = None" using tables_row [OF assms(2) r(1)] r(3) by (auto simp: row_ok_def)
  then show ?thesis
    by (intro status_moved [OF assms(2) r, where p = rejected_patch])
      (use update_row_effect [OF upd assms(2) r(1,2)] w' in \<open>auto simp: rejected_patch_def patch_keeps_def settled_def row_identity_def\<close>)
qed

section \<open>New rows\<close>

lemma foldr_max_ge: "x \<in> set xs \<Longrightarrow> x \<le> foldr max xs (b :: int)" and foldr_max_base: "b \<le> foldr max xs (b :: int)"
  by (induction xs) (auto simp: max_def)

lemma number_part_minted: "0 \<le> k \<Longrightarrow> number_part (''A-'' @ int_string k) = Some k"
  by (simp add: number_part_def int_string_def parse_nat_string)

text \<open>A minted number is on no row, whatever the texts of the others.\<close>

lemma next_number_fresh:
  assumes "next_offer_number w = Inr n" "r \<in> set (od_offers w)"
  shows "or_number r \<noteq> n"
proof
  assume same: "or_number r = n"
  let ?ns = "List.map_filter (\<lambda>r. number_part (or_number r)) (od_offers w)"
  let ?k = "(if ?ns = [] then 1000 else foldr max ?ns 0) + 1"
  have n: "n = ''A-'' @ int_string ?k"
    using assms(1) by (auto simp: next_offer_number_def to_int4_def Let_def split: if_splits)
  have "0 \<le> ?k" using foldr_max_base [of 0 ?ns] by simp
  then have "number_part (or_number r) = Some ?k" unfolding same n by (rule number_part_minted)
  then have k: "?k \<in> set ?ns" using assms(2) by (force simp: List.map_filter_def)
  then have "?k = foldr max ?ns 0 + 1" by auto
  then show False using foldr_max_ge [OF k, of 0] by linarith
qed

lemma revisions_new_number:
  assumes "revisions_ok rs" "\<And>x. x \<in> set rs \<Longrightarrow> or_number x \<noteq> or_number r" "or_status r \<noteq> OfferStatusSuperseded"
  shows "revisions_ok (rs @ [r])"
  using assms unfolding revisions_ok_def by force

lemma update_new_row: "i \<notin> or_id ` set rs \<Longrightarrow> or_id r = i \<Longrightarrow> update_where (\<lambda>r. or_id r = i) f (rs @ [r]) = rs @ [f r]"
  by (induction rs) auto

lemma create_effect:
  assumes "create_offer s c deal inp w = (Inr v, w')" "tables_ok w" "minted (length (co_lines inp)) s w"
  obtains r g ls number where "od_offers w' = od_offers w @ [store_totals g r]" "od_lines w' = od_lines w @ ls"
    "or_id r = sv_offer_id s" "or_number r = number" "or_status r = OfferStatusDraft" "or_fx_rate r = None" "or_accepted_at r = None"
    "valid_currency (or_currency r)" "\<And>l. l \<in> set ls \<Longrightarrow> lr_offer l = sv_offer_id s" "lines_ok (od_lines w')"
    "next_offer_number w = Inr number" "offer_totals (priced_lines (sv_offer_id s) w') = Inr g"
proof -
  let ?i = "sv_offer_id s"
  obtain by_whom number buyer u w1 x w2 g led where n: "next_offer_number w = Inr number"
    and ins: "insert_offer (draft_row ?i deal number buyer inp by_whom) w = Inr (u, w1)"
    and lines: "insert_offer_lines (sv_line_id s) 0 ?i (co_currency inp) (co_lines inp) w1 = Inr (x, w2)"
    and g: "offer_totals (priced_lines ?i w2) = Inr g"
    and w': "w' = w2\<lparr>od_offers := update_where (\<lambda>r. or_id r = ?i) (store_totals g) (od_offers w2), od_ledger := led\<rparr>"
    using assms(1)
    by (fastforce simp: create_offer_def create_offer_tx_def recompute_offer_totals_def Let_def split: sum.splits
        dest!: run_tx_InrD audit_offer_effect emit_offer_effect answer_view_effect)
  let ?r = "draft_row ?i deal number buyer inp by_whom"
  have w1: "w1 = w\<lparr>od_offers := od_offers w @ [?r]\<rparr>" and cur: "valid_currency (or_currency ?r)"
    using ins by (auto simp: insert_offer_def check_currency_def split: if_splits)
  have new: "?i \<notin> or_id ` set (od_offers w)" using assms(3) by (simp add: minted_def)
  obtain ls where ls: "w2 = w1\<lparr>od_lines := od_lines w1 @ ls\<rparr>" "\<forall>l \<in> set ls. lr_offer l = ?i" "lines_edit ?i (od_lines w1) (od_lines w2)"
    using insert_offer_lines_effect [OF lines] totals_tables [OF assms(2)] assms(3) by (auto simp: w1 minted_def)
  have "od_offers w' = od_offers w @ [store_totals g ?r]"
    using update_new_row [OF new, of ?r "store_totals g"] by (simp add: w' ls(1) w1 draft_row_def)
  moreover have "priced_lines ?i w' = priced_lines ?i w2" by (simp add: priced_lines_def lines_of_def w')
  ultimately show thesis
    using ls g n cur by (intro that [of g ?r ls number]) (auto simp: w' w1 lines_edit_def draft_row_def)
qed

lemma create_ok:
  assumes "create_offer s c deal inp w = (Inr v, w')" "offers_ok w" "minted (length (co_lines inp)) s w"
  shows "offers_ok w'"
proof -
  have ok: "tables_ok w" "revisions_ok (od_offers w)" using assms(2) by (simp_all add: offers_ok_def)
  have new: "sv_offer_id s \<notin> or_id ` set (od_offers w)" using assms(3) by (simp add: minted_def)
  obtain r g ls number where p: "od_offers w' = od_offers w @ [store_totals g r]" "od_lines w' = od_lines w @ ls"
    "or_id r = sv_offer_id s" "or_number r = number" "or_status r = OfferStatusDraft" "or_fx_rate r = None" "or_accepted_at r = None"
    "valid_currency (or_currency r)" "\<And>l. l \<in> set ls \<Longrightarrow> lr_offer l = sv_offer_id s" "lines_ok (od_lines w')"
    "next_offer_number w = Inr number" "offer_totals (priced_lines (sv_offer_id s) w') = Inr g"
    by (rule create_effect [OF assms(1) ok(1) assms(3)]) blast
  have fresh: "or_number x \<noteq> or_number r" if "x \<in> set (od_offers w)" for x
    using next_number_fresh [OF p(11) that] p(4) by simp
  have kept: "or_id (store_totals g r) = or_id r" "or_number (store_totals g r) = or_number r" "or_status (store_totals g r) = or_status r"
    "or_fx_rate (store_totals g r) = or_fx_rate r" "or_accepted_at (store_totals g r) = or_accepted_at r"
    "or_currency (store_totals g r) = or_currency r"
    by (simp_all add: store_totals_def)
  have "tables_ok w'"
  proof (rule appended_tables [OF ok(1) p(1,2)])
    show "row_ok w' (store_totals g r)" using p(3,5-8,12) by (simp add: row_ok_def kept)
  qed (use new fresh p(3,9,10) in \<open>simp_all add: kept\<close>)
  moreover have "revisions_ok (od_offers w')"
    unfolding p(1) by (rule revisions_new_number [OF ok(2)]) (use fresh p(5) in \<open>simp_all add: kept\<close>)
  ultimately show ?thesis by (simp add: offers_ok_def)
qed

lemma revisions_regenerated:
  assumes ok: "revisions_ok rs" and r: "r \<in> set rs" "or_status r \<noteq> OfferStatusSuperseded"
    and ids: "\<And>x. x \<in> set rs \<Longrightarrow> or_id x = or_id r \<Longrightarrow> x = r"
    and keys: "\<And>x. x \<in> set rs \<Longrightarrow> (or_number x, or_revision x) = (or_number r, or_revision r) \<Longrightarrow> x = r"
    and f: "\<And>x. or_number (f x) = or_number x" "\<And>x. or_revision (f x) = or_revision x" "\<And>x. or_status (f x) = OfferStatusSuperseded"
    and n: "or_number n = or_number r" "or_status n = OfferStatusDraft" "\<And>x. x \<in> set rs \<Longrightarrow> or_number x = or_number r \<Longrightarrow> or_revision x < or_revision n"
  shows "revisions_ok (update_where (\<lambda>x. or_id x = or_id r) f rs @ [n])"
proof -
  let ?g = "\<lambda>x. if or_id x = or_id r then f x else x"
  let ?rs = "update_where (\<lambda>x. or_id x = or_id r) f rs @ [n]"
  have key: "or_number (?g x) = or_number x" "or_revision (?g x) = or_revision x" for x by (simp_all add: f)
  have img: "set ?rs = ?g ` set rs \<union> {n}" by (simp only: update_where_def set_append set_map list.set)
  have newer: "(\<exists>y \<in> set ?rs. or_number y = m \<and> v < or_revision y)
      \<longleftrightarrow> (\<exists>y \<in> set rs. or_number y = m \<and> v < or_revision y) \<or> (or_number r = m \<and> v < or_revision n)" for m v
    unfolding img by (simp only: bex_simps bex_Un key n(1)) blast
  have other: "x = r \<or> or_status x = OfferStatusSuperseded" if x: "x \<in> set rs" "or_number x = or_number r" for x
  proof (rule disjCI)
    assume "or_status x \<noteq> OfferStatusSuperseded"
    then have "\<not> or_revision x < or_revision r" using ok x r(1) unfolding revisions_ok_def by metis
    moreover have "\<not> or_revision r < or_revision x" using ok x r unfolding revisions_ok_def by metis
    ultimately show "x = r" using keys [OF x(1)] x(2) by simp
  qed
  have old: "or_status (?g x) = OfferStatusSuperseded \<longleftrightarrow> (\<exists>y \<in> set ?rs. or_number y = or_number (?g x) \<and> or_revision (?g x) < or_revision y)"
    if x: "x \<in> set rs" for x
  proof (cases "or_number x = or_number r")
    case True
    then have "or_status (?g x) = OfferStatusSuperseded" using other [OF x] f(3) by auto
    then show ?thesis unfolding newer key using n(3) [OF x True] True by simp
  next
    case False
    then have "?g x = x" using ids [OF x] by auto
    then show ?thesis unfolding newer key using ok x False unfolding revisions_ok_def by auto
  qed
  have new: "\<not> (\<exists>y \<in> set ?rs. or_number y = or_number n \<and> or_revision n < or_revision y)"
    unfolding newer n(1) using n(3) by force
  show ?thesis unfolding revisions_ok_def [of ?rs]
  proof (rule ballI)
    fix x assume "x \<in> set ?rs"
    then consider y where "y \<in> set rs" "x = ?g y" | "x = n" unfolding img by blast
    then show "or_status x = OfferStatusSuperseded \<longleftrightarrow> (\<exists>y \<in> set ?rs. or_number y = or_number x \<and> or_revision x < or_revision y)"
    proof cases
      case 1
      show ?thesis unfolding 1(2) by (rule old [OF 1(1)])
    next
      case 2
      show ?thesis unfolding 2 using new n(2) by (simp only: offer_status.distinct simp_thms)
    qed
  qed
qed

lemma superseded_patch_row: "patched superseded_patch r = r\<lparr>or_status := OfferStatusSuperseded\<rparr>"
  by (simp add: superseded_patch_def)

lemma copy_lines_facts:
  "map lr_id (copy_lines ids n i ls) = map (\<lambda>k. ids (n + k)) [0 ..< length ls]"
  "map stateful (copy_lines ids n i ls) = map stateful ls"
  "map lr_position (copy_lines ids n i ls) = map lr_position ls"
  "l \<in> set (copy_lines ids n i ls) \<Longrightarrow> lr_offer l = i"
  "list_all (\<lambda>l. check_line l = Inr ()) (copy_lines ids n i ls) \<longleftrightarrow> list_all (\<lambda>l. check_line l = Inr ()) ls"
proof -
  show "map lr_id (copy_lines ids n i ls) = map (\<lambda>k. ids (n + k)) [0 ..< length ls]"
    by (induction ls arbitrary: n) (simp_all add: map_upt_Suc del: upt_Suc)
  show "map stateful (copy_lines ids n i ls) = map stateful ls"
    by (induction ls arbitrary: n) (simp_all add: stateful_def line_input_of_def)
  show "map lr_position (copy_lines ids n i ls) = map lr_position ls"
    by (induction ls arbitrary: n) simp_all
  show "l \<in> set (copy_lines ids n i ls) \<Longrightarrow> lr_offer l = i"
    by (induction ls arbitrary: n) auto
  have "check_line (x\<lparr>lr_id := a, lr_offer := b\<rparr>) = check_line x" for x a b
    by (simp add: check_line_def line_checks_def)
  then show "list_all (\<lambda>l. check_line l = Inr ()) (copy_lines ids n i ls) \<longleftrightarrow> list_all (\<lambda>l. check_line l = Inr ()) ls"
    by (induction ls arbitrary: n) simp_all
qed

lemma copied_lines_ok:
  assumes ok: "lines_ok ls" and inj: "inj_on ids {0 ..< length (filter (\<lambda>l. lr_offer l = i) ls)}"
    and fresh: "\<forall>n \<in> {0 ..< length (filter (\<lambda>l. lr_offer l = i) ls)}. ids n \<notin> lr_id ` set ls" and new: "j \<notin> lr_offer ` set ls"
  shows "lines_ok (ls @ copy_lines ids 0 j (filter (\<lambda>l. lr_offer l = i) ls))"
proof -
  let ?own = "filter (\<lambda>l. lr_offer l = i) ls"
  let ?new = "copy_lines ids 0 j ?own"
  have "distinct (map ids [0 ..< length ?own])" using inj by (simp add: distinct_map)
  moreover have "lr_id ` set ?new = ids ` {0 ..< length ?own}"
    using arg_cong [OF copy_lines_facts(1) [of ids 0 j ?own], of set] by simp
  moreover have "x \<notin> lr_id ` set ls" if x: "x \<in> ids ` {0 ..< length ?own}" for x using x fresh by auto
  ultimately have "lr_id ` set ls \<inter> lr_id ` set ?new = {}" "distinct (map ids [0 ..< length ?own])" by blast+
  moreover from this(2) have "distinct (map lr_id ?new)" using copy_lines_facts(1) [of ids 0 j ?own] by simp
  ultimately have ids: "distinct (map lr_id (ls @ ?new))"
    using ok by (simp only: lines_ok_def map_append distinct_append set_map simp_thms)
  have keys: "distinct (map (\<lambda>l. (lr_offer l, lr_position l)) ls)" using ok by (simp add: lines_ok_def)
  have "distinct (map lr_position ?own)"
  proof -
    have "distinct (map (\<lambda>l. (lr_offer l, lr_position l)) ?own)" by (rule distinct_map_filter [OF keys])
    then have inj: "inj_on (\<lambda>l. (lr_offer l, lr_position l)) (set ?own)" and dist: "distinct ?own" by (simp_all only: distinct_map)
    have "inj_on lr_position (set ?own)"
    proof (rule inj_onI)
      fix x y assume xy: "x \<in> set ?own" "y \<in> set ?own" "lr_position x = lr_position y"
      then have "(lr_offer x, lr_position x) = (lr_offer y, lr_position y)" by simp
      then show "x = y" by (rule inj_onD [OF inj _ xy(1,2)])
    qed
    then show ?thesis using dist by (simp only: distinct_map simp_thms)
  qed
  then have "distinct (map lr_position ?new)" by (simp only: copy_lines_facts(3))
  then have "distinct (map (\<lambda>l. (lr_offer l, lr_position l)) ?new)" unfolding distinct_map by (auto simp: inj_on_def)
  moreover have "(\<lambda>l. (lr_offer l, lr_position l)) ` set ls \<inter> (\<lambda>l. (lr_offer l, lr_position l)) ` set ?new = {}"
  proof -
    have "lr_offer y \<noteq> lr_offer x" if xy: "x \<in> set ls" "y \<in> set ?new" for x y
      using new imageI [OF xy(1), of lr_offer] copy_lines_facts(4) [OF xy(2)] by metis
    show ?thesis
    proof (rule equals0I, elim IntE imageE)
      fix p x y assume "p = (lr_offer x, lr_position x)" "x \<in> set ls" "p = (lr_offer y, lr_position y)" "y \<in> set ?new"
      then show False using \<open>\<And>x y. x \<in> set ls \<Longrightarrow> y \<in> set ?new \<Longrightarrow> lr_offer y \<noteq> lr_offer x\<close> [of x y] by simp
    qed
  qed
  ultimately have "distinct (map (\<lambda>l. (lr_offer l, lr_position l)) (ls @ ?new))" using keys by simp
  moreover have "list_all (\<lambda>l. check_line l = Inr ()) (ls @ ?new)"
    unfolding list_all_append copy_lines_facts(5) using ok by (auto simp: lines_ok_def list_all_iff)
  ultimately show ?thesis using ids unfolding lines_ok_def by blast
qed

lemma regenerate_effect:
  assumes "regenerate_offer s c i w = (Inr v, w')" "tables_ok w" "minted (length (lines_of i w)) s w"
  obtains r v1 who where "r \<in> set (od_offers w)" "or_id r = i" "or_status r = OfferStatusSent" "or_archived_at r = None"
    "next_offer_revision (or_number r) w = Inr v1"
    "od_offers w' = update_where (\<lambda>r. or_id r = i) (\<lambda>x. tb_touch offer_table (x\<lparr>or_status := OfferStatusSuperseded\<rparr>)) (od_offers w)
       @ [revision_copy (sv_offer_id s) v1 who r]"
    "od_lines w' = od_lines w @ copy_lines (sv_line_id s) 0 (sv_offer_id s) (lines_of i w)" "od_deals w' = od_deals w"
    "captured_by c = Inr who"
proof -
  let ?j = "sv_offer_id s"
  obtain r v1 who u w1 rows led where r: "r \<in> set (od_offers w)" "or_id r = i" "or_status r = OfferStatusSent" "or_archived_at r = None"
    and rev: "next_offer_revision (or_number r) w = Inr v1"
    and copy: "copy_offer_into_revision s i ?j v1 who w = Inr (u, w1)"
    and rows: "apply_locked offer_table LiveOnly i superseded_patch (od_offers w1) = Inr rows"
    and w': "w' = w1\<lparr>od_offers := rows, od_ledger := led\<rparr>" and who: "captured_by c = Inr who"
    using assms(1)
    by (fastforce simp: regenerate_offer_def Let_def elim!: on_sent_Inr split: sum.splits
        dest!: run_tx_InrD audit_offer_effect emit_offer_effect answer_view_effect)
  have "find (\<lambda>r. or_id r = i) (od_offers w) = Some r"
    using r(1,2) tables_one [OF assms(2) r(1)]
    by (metis (mono_tags, lifting) find_None_iff find_SomeD not_None_eq)
  then have w1: "w1 = w\<lparr>od_offers := od_offers w @ [revision_copy ?j v1 who r],
      od_lines := od_lines w @ copy_lines (sv_line_id s) 0 ?j (lines_of i w)\<rparr>"
    using copy by (auto simp: copy_offer_into_revision_def insert_offer_def lines_of_def split: if_splits)
  have "?j \<noteq> i" using assms(3) r(2) imageI [OF r(1), of or_id] unfolding minted_def by metis
  then have "rows = update_where (selects offer_table LiveOnly i) (\<lambda>x. tb_touch offer_table (patched superseded_patch x)) (od_offers w)
      @ [revision_copy ?j v1 who r]"
    using rows by (auto simp: apply_locked_Inr w1 update_where_def selects_def revision_copy_def)
  then show thesis
    using that [OF r rev, of who] live_one [OF assms(2) r(1,2,4)] w' w1 who by (simp add: superseded_patch_row)
qed

lemma next_revision_newer:
  assumes "next_offer_revision n w = Inr v" "x \<in> set (od_offers w)" "or_number x = n"
  shows "or_revision x < v"
proof -
  let ?rs = "map or_revision (filter (\<lambda>r. or_number r = n) (od_offers w))"
  have "or_revision x \<in> set ?rs" using assms(2,3) by auto
  moreover have "v = foldr max ?rs (hd ?rs) + 1"
    using assms(1) by (auto simp: next_offer_revision_def to_int4_def Let_def split: if_splits)
  ultimately show ?thesis using foldr_max_ge [of "or_revision x" ?rs "hd ?rs"] by linarith
qed

lemma superseded_ids:
  "or_id ` set (update_where P (\<lambda>x. tb_touch offer_table (x\<lparr>or_status := st\<rparr>)) rs) = or_id ` set rs"
proof -
  have "map or_id (update_where P (\<lambda>x. tb_touch offer_table (x\<lparr>or_status := st\<rparr>)) rs) = map or_id rs"
    by (rule map_update_where) simp
  then show ?thesis by (metis set_map)
qed

lemma superseded_change:
  assumes "tables_ok w" "r \<in> set (od_offers w)" "or_id r = i" "or_status r = OfferStatusSent"
  shows "changed i OfferStatusSent OfferStatusSuperseded w (w\<lparr>od_offers := update_where (\<lambda>r. or_id r = i)
    (\<lambda>x. tb_touch offer_table (x\<lparr>or_status := OfferStatusSuperseded\<rparr>)) (od_offers w)\<rparr>)"
proof -
  have "or_accepted_at r = None" using tables_row [OF assms(1,2)] assms(4) by (auto simp: row_ok_def)
  then show ?thesis
    by (intro status_moved [OF assms, where p = superseded_patch])
      (auto simp: superseded_patch_row superseded_patch_def patch_keeps_def settled_def row_identity_def)
qed

lemma regenerate_ok:
  assumes "regenerate_offer s c i w = (Inr v, w')" "offers_ok w" "minted (length (lines_of i w)) s w"
  shows "offers_ok w'"
proof -
  have ok: "tables_ok w" "revisions_ok (od_offers w)" using assms(2) by (simp_all add: offers_ok_def)
  let ?j = "sv_offer_id s"
  let ?f = "\<lambda>x. tb_touch offer_table (x\<lparr>or_status := OfferStatusSuperseded\<rparr>)"
  obtain r v1 who where r: "r \<in> set (od_offers w)" "or_id r = i" "or_status r = OfferStatusSent"
    and rev: "next_offer_revision (or_number r) w = Inr v1"
    and w': "od_offers w' = update_where (\<lambda>r. or_id r = i) ?f (od_offers w) @ [revision_copy ?j v1 who r]"
      "od_lines w' = od_lines w @ copy_lines (sv_line_id s) 0 ?j (lines_of i w)"
    by (rule regenerate_effect [OF assms(1) ok(1) assms(3)])
  have j: "?j \<notin> or_id ` set (od_offers w)" using assms(3) by (simp add: minted_def)
  let ?n = "revision_copy ?j v1 who r"
  let ?w1 = "w\<lparr>od_offers := update_where (\<lambda>r. or_id r = i) ?f (od_offers w)\<rparr>"
  have row: "row_ok w r" by (rule tables_row [OF ok(1) r(1)])
  have ch: "changed i OfferStatusSent OfferStatusSuperseded w ?w1" by (rule superseded_change [OF ok(1) r])
  then have "tables_ok ?w1" by (rule changed_tables [OF _ ok(1)])
  moreover have "row_ok w' ?n"
  proof -
    have "lines_of ?j w = []" by (rule no_lines_yet [OF ok(1) j])
    then have "lines_of ?j w' = copy_lines (sv_line_id s) 0 ?j (lines_of i w)"
      using copy_lines_facts(4) by (auto simp: lines_of_def w'(2) filter_id_conv)
    then have "priced_lines ?j w' = priced_lines i w" by (simp add: priced_lines_def copy_lines_facts(2))
    then show ?thesis using row r by (simp add: row_ok_def revision_copy_def totals_of_def)
  qed
  moreover have "lines_ok (od_lines w')"
    unfolding w'(2) lines_of_def
    by (rule copied_lines_ok) (use assms(3) ok(1) j in \<open>auto simp: minted_def tables_ok_def lines_of_def\<close>)
  moreover have "or_id ?n = ?j" "or_number ?n = or_number r" "or_revision ?n = v1" "or_status ?n = OfferStatusDraft"
    by (simp_all add: revision_copy_def)
  moreover have "or_id ` set (od_offers ?w1) = or_id ` set (od_offers w)"
    using superseded_ids [of "\<lambda>r. or_id r = i" OfferStatusSuperseded "od_offers w"] by simp
  moreover have "(or_number x, or_revision x) \<noteq> (or_number r, v1)" if x: "x \<in> set (od_offers ?w1)" for x
  proof -
    obtain y where "y \<in> set (od_offers w)" "or_number x = or_number y" "or_revision x = or_revision y"
      using x by (auto simp: set_update_where split: if_splits)
    then show ?thesis using next_revision_newer [OF rev, of y] by auto
  qed
  ultimately have "tables_ok w'"
    using appended_tables [of ?w1 w' ?n "copy_lines (sv_line_id s) 0 ?j (lines_of i w)"] w' j copy_lines_facts(4) by auto
  moreover have "revisions_ok (od_offers w')"
    unfolding w'(1) r(2) [symmetric]
  proof (rule revisions_regenerated [OF ok(2) r(1)])
    show "x = r" if "x \<in> set (od_offers w)" "(or_number x, or_revision x) = (or_number r, or_revision r)" for x
      using ok(1) r(1) that unfolding tables_ok_def distinct_map by (metis (mono_tags, lifting) inj_onD)
    show "x = r" if "x \<in> set (od_offers w)" "or_id x = or_id r" for x using tables_one [OF ok(1) r(1) that] .
  qed (use r next_revision_newer [OF rev] in \<open>simp_all add: revision_copy_def\<close>)
  ultimately show ?thesis by (simp add: offers_ok_def)
qed

section \<open>The life of an offer\<close>

datatype offer_life =
    NoOffer
  | DraftOf "uuid \<times> uuid \<times> string \<times> int"
  | Settled offer_status offer_header "line_row list"

definition row_life :: "offer_db \<Rightarrow> offer_header \<Rightarrow> offer_life" where
  "row_life w r = (if or_status r = OfferStatusDraft then DraftOf (row_identity r)
     else Settled (or_status r) (settled r) (lines_of (or_id r) w))"

definition life_of_offer :: "uuid \<Rightarrow> offer_db \<Rightarrow> offer_life" where
  "life_of_offer i w = (case find (\<lambda>r. or_id r = i) (od_offers w) of None \<Rightarrow> NoOffer | Some r \<Rightarrow> row_life w r)"

text \<open>All that is stored of one offer: its row and its lines. Its life is read off it.\<close>

definition offer_at :: "uuid \<Rightarrow> offer_db \<Rightarrow> offer_header option \<times> line_row list" where
  "offer_at i w = (find (\<lambda>r. or_id r = i) (od_offers w), lines_of i w)"

lemma life_of_same: "offer_at i w' = offer_at i w \<Longrightarrow> life_of_offer i w' = life_of_offer i w"
  by (auto simp: offer_at_def life_of_offer_def row_life_def split: option.split dest: find_SomeD)

datatype offer_event =
    Drafted uuid
  | DraftEdited uuid
  | SentOut uuid
  | AcceptedBy uuid
  | RejectedBy uuid
  | Regenerated uuid uuid
  | Kept uuid
  | OtherOfferWork

text \<open>What an event does to the life of offer \<open>i\<close>: a draft may change, what was sent may only be answered.\<close>

fun life_act :: "uuid \<Rightarrow> offer_event \<Rightarrow> offer_life \<Rightarrow> offer_life \<Rightarrow> bool" where
  "life_act i (Drafted j) a b = (if i = j then a = NoOffer \<and> (\<exists>k. b = DraftOf k) else b = a)"
| "life_act i (DraftEdited j) a b = (b = a \<and> (i = j \<longrightarrow> (\<exists>k. a = DraftOf k)))"
| "life_act i (SentOut j) a b =
     (if i = j then \<exists>r ls. a = DraftOf (row_identity r) \<and> b = Settled OfferStatusSent r ls \<and> ls \<noteq> [] else b = a)"
| "life_act i (AcceptedBy j) a b =
     (if i = j then \<exists>r ls. a = Settled OfferStatusSent r ls \<and> b = Settled OfferStatusAccepted r ls else b = a)"
| "life_act i (RejectedBy j) a b =
     (if i = j then \<exists>r ls. a = Settled OfferStatusSent r ls \<and> b = Settled OfferStatusRejected r ls else b = a)"
| "life_act i (Regenerated j n) a b =
     (if i = j then \<exists>r ls. a = Settled OfferStatusSent r ls \<and> b = Settled OfferStatusSuperseded r ls
      else if i = n then a = NoOffer \<and> (\<exists>k. b = DraftOf k) else b = a)"
| "life_act i (Kept j) a b = (b = a)"
| "life_act i OtherOfferWork a b = (b = a)"

lemma life_of_row: "tables_ok w \<Longrightarrow> r \<in> set (od_offers w) \<Longrightarrow> life_of_offer (or_id r) w = row_life w r"
proof -
  assume ok: "tables_ok w" and r: "r \<in> set (od_offers w)"
  then have "find (\<lambda>x. or_id x = or_id r) (od_offers w) = Some r"
    using tables_one [OF ok r] by (metis (mono_tags, lifting) find_None_iff find_SomeD not_None_eq)
  then show ?thesis by (simp add: life_of_offer_def)
qed

lemma life_none: "i \<notin> or_id ` set (od_offers w) \<Longrightarrow> life_of_offer i w = NoOffer"
  by (auto simp: life_of_offer_def find_None_iff image_iff split: option.split dest!: find_SomeD)

lemma row_change_at: "row_change i f w w' \<Longrightarrow> j \<noteq> i \<Longrightarrow> offer_at j w' = offer_at j w"
  using lines_of_other [of i w w' j] by (auto simp: offer_at_def row_change_def intro: find_update_where_other)

lemma changed_at: "changed i a b w w' \<Longrightarrow> j \<noteq> i \<Longrightarrow> offer_at j w' = offer_at j w"
  using row_change_at unfolding changed_def by blast

lemma changed_life:
  assumes "changed i a b w w'" "tables_ok w" "tables_ok w'"
  shows "j \<noteq> i \<Longrightarrow> life_of_offer j w' = life_of_offer j w"
    and "\<exists>r r'. life_of_offer i w = row_life w r \<and> life_of_offer i w' = row_life w' r' \<and> or_id r = i \<and> or_id r' = i
      \<and> or_status r = a \<and> or_status r' = b \<and> row_identity r' = row_identity r \<and> row_ok w' r'
      \<and> (a \<noteq> OfferStatusDraft \<longrightarrow> settled r' = settled r \<and> lines_of i w' = lines_of i w)"
proof -
  obtain f r where ch: "row_change i f w w'" and r: "r \<in> set (od_offers w)" "or_id r = i" "or_status r = a"
    "or_status (f r) = b" "row_ok w' (f r)" "a \<noteq> OfferStatusDraft \<longrightarrow> settled (f r) = settled r \<and> od_lines w' = od_lines w"
    using assms(1) unfolding changed_def by blast
  show "j \<noteq> i \<Longrightarrow> life_of_offer j w' = life_of_offer j w" by (rule life_of_same [OF row_change_at [OF ch]])
  have "f r \<in> set (od_offers w')" "row_identity (f r) = row_identity r" "or_id (f r) = i"
    using ch r(1,2) by (auto simp: row_change_def set_update_where row_identity_def)
  then show "\<exists>r r'. life_of_offer i w = row_life w r \<and> life_of_offer i w' = row_life w' r' \<and> or_id r = i \<and> or_id r' = i
      \<and> or_status r = a \<and> or_status r' = b \<and> row_identity r' = row_identity r \<and> row_ok w' r'
      \<and> (a \<noteq> OfferStatusDraft \<longrightarrow> settled r' = settled r \<and> lines_of i w' = lines_of i w)"
    using life_of_row [OF assms(2) r(1)] life_of_row [OF assms(3), of "f r"] r by (intro exI [of _ r] exI [of _ "f r"]) (auto simp: lines_of_def)
qed

section \<open>The machine\<close>

text \<open>
  Every committed operation on offers. Any other work on the database leaves the two tables alone; the
  deals, products, organisations and rates they read may change under it.
\<close>

inductive offer_step :: "offer_db \<Rightarrow> offer_event \<Rightarrow> offer_db \<Rightarrow> bool" where
  drafted: "create_offer s c deal inp w = (Inr v, w') \<Longrightarrow> minted (length (co_lines inp)) s w \<Longrightarrow> offer_step w (Drafted (sv_offer_id s)) w'"
| line_added: "add_offer_line_item s c i req w = (Inr v, w') \<Longrightarrow> minted 1 s w \<Longrightarrow> offer_step w (DraftEdited i) w'"
| line_updated: "update_offer_line_item s c i lid upd w = (Inr v, w') \<Longrightarrow> offer_step w (DraftEdited i) w'"
| line_accepted: "accept_offer_line_item s c i lid w = (Inr v, w') \<Longrightarrow> offer_step w (DraftEdited i) w'"
| line_removed: "remove_offer_line_item s c i lid w = (Inr v, w') \<Longrightarrow> offer_step w (DraftEdited i) w'"
| lines_staged: "add_staged_offer_lines s c i staged w = (Inr vs, w') \<Longrightarrow> minted (length staged) s w \<Longrightarrow> offer_step w (DraftEdited i) w'"
| header_edited: "update_offer s c i hdr w = (Inr v, w') \<Longrightarrow> offer_step w (DraftEdited i) w'"
| sent: "send_offer s c i ver w = (Inr v, w') \<Longrightarrow> stamps_only s \<Longrightarrow> offer_step w (SentOut i) w'"
| accepted: "accept_offer s c i ver w = (Inr v, w') \<Longrightarrow> offer_step w (AcceptedBy i) w'"
| rejected: "reject_offer s c i reason ver w = (Inr v, w') \<Longrightarrow> offer_step w (RejectedBy i) w'"
| regenerated: "regenerate_offer s c i w = (Inr v, w') \<Longrightarrow> minted (length (lines_of i w)) s w \<Longrightarrow> offer_step w (Regenerated i (sv_offer_id s)) w'"
| archived: "archive_offer s c i w = (Inr v, w') \<Longrightarrow> offer_step w (Kept i) w'"
| rendered: "set_pdf_asset_ref s c i ref n w = (Inr vr, w') \<Longrightarrow> offer_step w (Kept i) w'"
| other: "od_offers w' = od_offers w \<Longrightarrow> od_lines w' = od_lines w \<Longrightarrow> offer_step w OtherOfferWork w'"

lemma changed_same_ok: "changed i a a w w' \<Longrightarrow> offers_ok w \<Longrightarrow> offers_ok w'"
  by (rule changed_ok) simp_all

lemma other_ok:
  assumes "od_offers w' = od_offers w" "od_lines w' = od_lines w" "offers_ok w"
  shows "offers_ok w'"
proof -
  have "row_ok w' r \<longleftrightarrow> row_ok w r" for r by (rule row_ok_same_lines [OF assms(2)])
  then show ?thesis using assms by (simp add: offers_ok_def tables_ok_def)
qed

text \<open>What each kind of step changes, before the invariant and the view are read off it.\<close>

definition stepped :: "offer_db \<Rightarrow> offer_event \<Rightarrow> offer_db \<Rightarrow> bool" where
  "stepped w e w' \<longleftrightarrow> (case e of
     DraftEdited i \<Rightarrow> changed i OfferStatusDraft OfferStatusDraft w w'
   | SentOut i \<Rightarrow> changed i OfferStatusDraft OfferStatusSent w w'
   | AcceptedBy i \<Rightarrow> changed i OfferStatusSent OfferStatusAccepted w w'
   | RejectedBy i \<Rightarrow> changed i OfferStatusSent OfferStatusRejected w w'
   | Kept i \<Rightarrow> \<exists>a. changed i a a w w'
   | OtherOfferWork \<Rightarrow> od_offers w' = od_offers w \<and> od_lines w' = od_lines w
   | Drafted i \<Rightarrow> \<exists>s c deal inp v. create_offer s c deal inp w = (Inr v, w') \<and> minted (length (co_lines inp)) s w \<and> sv_offer_id s = i
   | Regenerated i j \<Rightarrow> \<exists>s c v. regenerate_offer s c i w = (Inr v, w') \<and> minted (length (lines_of i w)) s w \<and> sv_offer_id s = j)"

lemmas effect_lemmas = add_line_changes update_line_changes accept_line_changes remove_line_changes
  staged_lines_change header_changes send_changes accept_changes reject_changes archive_changes pdf_changes

lemma offer_step_stepped:
  assumes "offer_step w e w'" "tables_ok w"
  shows "stepped w e w'"
  using assms(1)
proof cases
  case (drafted s c deal inp v)
  then show ?thesis by (simp add: stepped_def del: split_paired_Ex) blast
next
  case (line_added s c i req v)
  show ?thesis unfolding line_added(1) stepped_def by (simp add: add_line_changes [OF line_added(2) assms(2) line_added(3)])
next
  case (regenerated s c i v)
  then show ?thesis by (simp add: stepped_def del: split_paired_Ex) blast
qed (use assms(2) in \<open>simp add: stepped_def; blast intro: effect_lemmas\<close>)+

lemma offer_step_ok: "offer_step w e w' \<Longrightarrow> offers_ok w \<Longrightarrow> offers_ok w'"
proof -
  assume st: "offer_step w e w'" and ok: "offers_ok w"
  have "stepped w e w'" using offer_step_stepped [OF st] ok by (simp add: offers_ok_def)
  then show ?thesis
    using ok by (cases e) (auto simp: stepped_def intro: create_ok regenerate_ok changed_ok changed_same_ok other_ok)
qed

lemma appended_at:
  assumes "od_offers w' = od_offers w @ [x]" "od_lines w' = od_lines w @ ls" "\<And>l. l \<in> set ls \<Longrightarrow> lr_offer l = or_id x" "j \<noteq> or_id x"
  shows "offer_at j w' = offer_at j w"
proof -
  have "filter (\<lambda>l. lr_offer l = j) ls = []" using assms(3,4) by (auto simp: filter_empty_conv)
  then show ?thesis using assms(4) by (simp add: offer_at_def lines_of_def assms(1,2) find_append split: option.split)
qed

lemma appended_life:
  assumes "od_offers w' = od_offers w @ [x]" "or_id x \<notin> or_id ` set (od_offers w)" "or_status x = OfferStatusDraft"
  shows "\<exists>k. life_of_offer (or_id x) w' = DraftOf k"
proof -
  have "find (\<lambda>r. or_id r = or_id x) (od_offers w) = None" using assms(2) by (simp add: find_None_iff) (metis imageI)
  then show ?thesis using assms(3) by (simp add: life_of_offer_def assms(1) find_append row_life_def del: split_paired_Ex)
qed

lemma create_at:
  assumes "create_offer s c deal inp w = (Inr v, w')" "offers_ok w" "minted (length (co_lines inp)) s w" "j \<noteq> sv_offer_id s"
  shows "offer_at j w' = offer_at j w"
proof -
  have ok: "tables_ok w" using assms(2) by (simp add: offers_ok_def)
  obtain r g ls where p: "od_offers w' = od_offers w @ [store_totals g r]" "od_lines w' = od_lines w @ ls"
    "or_id r = sv_offer_id s" "\<And>l. l \<in> set ls \<Longrightarrow> lr_offer l = sv_offer_id s"
    by (rule create_effect [OF assms(1) ok assms(3)]) blast
  show ?thesis by (rule appended_at [OF p(1,2)]) (use p(3,4) assms(4) in \<open>simp_all add: store_totals_def\<close>)
qed

text \<open>The old revision superseded, then the new one appended.\<close>

lemma regenerate_parts:
  assumes "regenerate_offer s c i w = (Inr v, w')" "offers_ok w" "minted (length (lines_of i w)) s w"
  obtains r w1 v1 who where "changed i OfferStatusSent OfferStatusSuperseded w w1" "or_id ` set (od_offers w1) = or_id ` set (od_offers w)"
    "r \<in> set (od_offers w)" "or_id r = i" "od_offers w' = od_offers w1 @ [revision_copy (sv_offer_id s) v1 who r]"
    "od_lines w' = od_lines w1 @ copy_lines (sv_line_id s) 0 (sv_offer_id s) (lines_of i w)"
proof -
  have ok: "tables_ok w" using assms(2) by (simp add: offers_ok_def)
  let ?w1 = "w\<lparr>od_offers := update_where (\<lambda>r. or_id r = i) (\<lambda>x. tb_touch offer_table (x\<lparr>or_status := OfferStatusSuperseded\<rparr>)) (od_offers w)\<rparr>"
  obtain r v1 who where r: "r \<in> set (od_offers w)" "or_id r = i" "or_status r = OfferStatusSent"
    and w': "od_offers w' = od_offers ?w1 @ [revision_copy (sv_offer_id s) v1 who r]"
      "od_lines w' = od_lines ?w1 @ copy_lines (sv_line_id s) 0 (sv_offer_id s) (lines_of i w)"
    by (rule regenerate_effect [OF assms(1) ok assms(3)]) simp
  have "or_id ` set (od_offers ?w1) = or_id ` set (od_offers w)"
    using superseded_ids [of "\<lambda>r. or_id r = i" OfferStatusSuperseded "od_offers w"] by simp
  then show thesis by (rule that [OF superseded_change [OF ok r] _ r(1,2) w'])
qed

lemma regenerate_at:
  assumes "regenerate_offer s c i w = (Inr v, w')" "offers_ok w" "minted (length (lines_of i w)) s w" "j \<noteq> sv_offer_id s" "j \<noteq> i"
  shows "offer_at j w' = offer_at j w"
proof -
  obtain r w1 v1 who where ch: "changed i OfferStatusSent OfferStatusSuperseded w w1"
    and w': "od_offers w' = od_offers w1 @ [revision_copy (sv_offer_id s) v1 who r]"
      "od_lines w' = od_lines w1 @ copy_lines (sv_line_id s) 0 (sv_offer_id s) (lines_of i w)"
    by (rule regenerate_parts [OF assms(1-3)])
  have "offer_at j w' = offer_at j w1"
    by (rule appended_at [OF w']) (use copy_lines_facts(4) assms(4) in \<open>auto simp: revision_copy_def\<close>)
  then show ?thesis using changed_at [OF ch assms(5)] by simp
qed

lemma create_life:
  assumes "create_offer s c deal inp w = (Inr v, w')" "offers_ok w" "minted (length (co_lines inp)) s w"
  shows "life_act i (Drafted (sv_offer_id s)) (life_of_offer i w) (life_of_offer i w')"
proof -
  have new: "sv_offer_id s \<notin> or_id ` set (od_offers w)" using assms(3) by (simp add: minted_def)
  have ok: "tables_ok w" using assms(2) by (simp add: offers_ok_def)
  obtain r g ls where p: "od_offers w' = od_offers w @ [store_totals g r]" "od_lines w' = od_lines w @ ls"
    "or_id r = sv_offer_id s" "or_status r = OfferStatusDraft" "\<And>l. l \<in> set ls \<Longrightarrow> lr_offer l = sv_offer_id s"
    by (rule create_effect [OF assms(1) ok assms(3)]) blast
  have same: "or_id (store_totals g r) = sv_offer_id s" "or_status (store_totals g r) = OfferStatusDraft"
    using p(3,4) by (simp_all add: store_totals_def)
  have "life_of_offer i w' = life_of_offer i w" if "i \<noteq> sv_offer_id s"
    by (rule life_of_same [OF create_at [OF assms that]])
  then show ?thesis using appended_life [OF p(1)] new life_none [OF new] unfolding same by auto
qed

lemma regenerate_life:
  assumes "regenerate_offer s c i w = (Inr v, w')" "offers_ok w" "minted (length (lines_of i w)) s w"
  shows "life_act k (Regenerated i (sv_offer_id s)) (life_of_offer k w) (life_of_offer k w')"
proof -
  have ok: "tables_ok w" using assms(2) by (simp add: offers_ok_def)
  have new: "sv_offer_id s \<notin> or_id ` set (od_offers w)" using assms(3) by (simp add: minted_def)
  obtain r w1 v1 who where ch: "changed i OfferStatusSent OfferStatusSuperseded w w1"
    and ids: "or_id ` set (od_offers w1) = or_id ` set (od_offers w)" and r: "r \<in> set (od_offers w)" "or_id r = i"
    and w': "od_offers w' = od_offers w1 @ [revision_copy (sv_offer_id s) v1 who r]"
      "od_lines w' = od_lines w1 @ copy_lines (sv_line_id s) 0 (sv_offer_id s) (lines_of i w)"
    by (rule regenerate_parts [OF assms])
  have n: "or_id (revision_copy (sv_offer_id s) v1 who r) = sv_offer_id s" "or_status (revision_copy (sv_offer_id s) v1 who r) = OfferStatusDraft"
    by (simp_all add: revision_copy_def)
  have i: "sv_offer_id s \<noteq> i" using new r(2) imageI [OF r(1), of or_id] by metis
  have "life_of_offer i w' = life_of_offer i w1"
    by (rule life_of_same, rule appended_at [OF w']) (use copy_lines_facts(4) i in \<open>auto simp: revision_copy_def\<close>)
  then have "\<exists>r ls. life_of_offer i w = Settled OfferStatusSent r ls \<and> life_of_offer i w' = Settled OfferStatusSuperseded r ls"
    using changed_life(2) [OF ch ok changed_tables [OF ch ok]] by (auto simp: row_life_def)
  moreover have "life_of_offer k w' = life_of_offer k w" if "k \<noteq> sv_offer_id s" "k \<noteq> i"
    by (rule life_of_same [OF regenerate_at [OF assms that]])
  moreover have "\<exists>k. life_of_offer (sv_offer_id s) w' = DraftOf k" using appended_life [OF w'(1)] new unfolding n ids by blast
  ultimately show ?thesis using i life_none [OF new] by auto
qed

lemma offer_step_life:
  assumes "offer_step w e w'" "offers_ok w"
  shows "life_act i e (life_of_offer i w) (life_of_offer i w')"
proof -
  have ok: "tables_ok w" using assms(2) by (simp add: offers_ok_def)
  have st: "stepped w e w'" by (rule offer_step_stepped [OF assms(1) ok])
  have moved: "if i = j then \<exists>r r'. life_of_offer j w = row_life w r \<and> life_of_offer j w' = row_life w' r' \<and> or_id r = j \<and> or_id r' = j
      \<and> or_status r = a \<and> or_status r' = b \<and> row_identity r' = row_identity r \<and> row_ok w' r'
      \<and> (a \<noteq> OfferStatusDraft \<longrightarrow> settled r' = settled r \<and> lines_of j w' = lines_of j w)
      else life_of_offer i w' = life_of_offer i w" if "changed j a b w w'" for j a b
    using changed_life [OF that ok changed_tables [OF that ok]] by (cases "i = j") auto
  show ?thesis
  proof (cases e)
    case (DraftEdited j)
    then show ?thesis using moved [of j OfferStatusDraft OfferStatusDraft] st
      by (cases "i = j") (auto simp: stepped_def row_life_def simp del: split_paired_Ex)
  next
    case (SentOut j)
    have ident: "row_identity (settled r) = row_identity r" for r by (simp add: row_identity_def settled_def)
    show ?thesis using moved [of j OfferStatusDraft OfferStatusSent] st SentOut
      by (cases "i = j") (auto simp: stepped_def row_life_def row_ok_def ident intro: exI [of _ "settled _"])
  next
    case (AcceptedBy j)
    then show ?thesis using moved [of j OfferStatusSent OfferStatusAccepted] st
      by (cases "i = j") (auto simp: stepped_def row_life_def)
  next
    case (RejectedBy j)
    then show ?thesis using moved [of j OfferStatusSent OfferStatusRejected] st
      by (cases "i = j") (auto simp: stepped_def row_life_def)
  next
    case (Kept j)
    then obtain a where "changed j a a w w'" using st by (auto simp: stepped_def)
    then show ?thesis using moved [of j a a] Kept by (cases "i = j") (auto simp: row_life_def split: if_splits)
  next
    case OtherOfferWork
    then have "od_offers w' = od_offers w" "od_lines w' = od_lines w" using st by (simp_all add: stepped_def)
    then have "row_life w' = row_life w" by (simp add: fun_eq_iff row_life_def lines_of_def)
    then show ?thesis using OtherOfferWork \<open>od_offers w' = od_offers w\<close> by (simp add: life_of_offer_def split: option.split)
  next
    case (Drafted j)
    then obtain s c deal inp v where "create_offer s c deal inp w = (Inr v, w')" "minted (length (co_lines inp)) s w" "j = sv_offer_id s"
      using st by (auto simp: stepped_def simp del: split_paired_Ex)
    then show ?thesis using create_life [OF _ assms(2)] Drafted by metis
  next
    case (Regenerated j n)
    then obtain s c v where "regenerate_offer s c j w = (Inr v, w')" "minted (length (lines_of j w)) s w" "n = sv_offer_id s"
      using st by (auto simp: stepped_def simp del: split_paired_Ex)
    then show ?thesis using regenerate_life [OF _ assms(2)] Regenerated by metis
  qed
qed

text \<open>The offers a step is about. Nothing stored of any other changes.\<close>

fun touched :: "offer_event \<Rightarrow> uuid set" where
  "touched (Regenerated i j) = {i, j}"
| "touched OtherOfferWork = {}"
| "touched (Drafted i) = {i}"
| "touched (DraftEdited i) = {i}"
| "touched (SentOut i) = {i}"
| "touched (AcceptedBy i) = {i}"
| "touched (RejectedBy i) = {i}"
| "touched (Kept i) = {i}"

lemma offer_step_frame:
  assumes "offer_step w e w'" "offers_ok w" "j \<notin> touched e"
  shows "offer_at j w' = offer_at j w"
proof -
  have "stepped w e w'" using offer_step_stepped [OF assms(1)] assms(2) by (simp add: offers_ok_def)
  then show ?thesis
    using assms(2,3)
    by (cases e) (auto simp: stepped_def intro: changed_at create_at regenerate_at, simp add: offer_at_def lines_of_def)
qed

interpretation offer_lives: viewed_machine offer_step offers_ok "life_of_offer i" "life_act i" for i
  by unfold_locales (rule offer_step_ok offer_step_life; assumption)+

end
