(* ===== verification/Offer_Promises.thy ===== *)
theory Offer_Promises
  imports Offer_Machine
begin

text \<open>
  What the offers promise, read off their machine: stored totals that are their lines, a sent offer that
  stays what it was, a deal priced by the offer accepted; and the places where they promise less.
\<close>

section \<open>A sent offer\<close>

text \<open>A day of work is on offer to a deal, by the installation itself, in its own currency.\<close>

definition seller :: principal where
  "seller = \<lparr>p_type = PrincipalSystem, p_id = ''system'', p_user_id = 0, p_team_ids = [], p_passport_id = 0,
     p_on_behalf_of = 0, p_scopes = {}, p_seat_type = SeatFull, p_permissions = no_permissions\<rparr>"

definition seller_ctx :: ctx where
  "seller_ctx = background\<lparr>ctx_actor := Some seller, ctx_correlation := Some 9\<rparr>"

definition sales :: offer_svc where
  "sales = \<lparr>sv_kit = \<lparr>kt_audit_id = (\<lambda>n. 100), kt_event_id = (\<lambda>n. 200), kt_now = 20, kt_extension = None\<rparr>,
     sv_now = 20, sv_offer_id = 61, sv_line_id = (\<lambda>n. word_of_nat (n + 90)), sv_base = (\<lambda>w. Inr ''EUR''),
     sv_name = (\<lambda>w. Inr ''ACME''), sv_stamp = (\<lambda>d w. Inr w)\<rparr>"

definition work_line :: "proposal_state \<Rightarrow> line_row" where
  "work_line st = \<lparr>lr_id = 80, lr_offer = 60, lr_position = 1, lr_product = None, lr_description = ''work'',
     lr_unit = ''day'', lr_quantity = 2500, lr_price = 1999, lr_discount = 1000, lr_tax = 1900, lr_evidence = None,
     lr_state = st, lr_grounded = True\<rparr>"

definition work_offer :: "offer_status \<Rightarrow> int64 \<times> int64 \<times> int64 \<Rightarrow> offer_header" where
  "work_offer st totals = (case totals of (net, tax, gross) \<Rightarrow>
     \<lparr>or_id = 60, or_deal = 50, or_number = ''A-1001'', or_revision = 1, or_status = st, or_currency = ''EUR'',
      or_buyer_org = None, or_buyer_snapshot = None,
      or_issuer_snapshot = (if st = OfferStatusDraft then None else Some [(''workspace_name'', JStr ''ACME'')]),
      or_valid_until = None, or_intro = None, or_terms = None, or_net = net, or_tax = tax, or_gross = gross,
      or_fx_rate = (if st = OfferStatusDraft then None else Some 10000000000),
      or_fx_date = (if st = OfferStatusDraft then None else Some 0), or_pdf = None, or_accepted_at = None,
      or_template = Some 70, or_source = ''manual'', or_captured_by = ''system'', or_version = 1, or_archived_at = None\<rparr>)"

definition open_deal :: deal_row where
  "open_deal = \<lparr>dr_id = 50, dr_status = DealOpen, dr_amount = None, dr_currency = None, dr_closed_at = None,
     dr_fx_rate = None, dr_fx_date = None, dr_org = None, dr_version = 1\<rparr>"

definition quote_db :: "offer_status \<Rightarrow> proposal_state \<Rightarrow> int64 \<times> int64 \<times> int64 \<Rightarrow> offer_db" where
  "quote_db st p totals = \<lparr>od_scope = \<lparr>db_rows = (\<lambda>t. []), db_grants = [], db_memberships = [], db_now = 0\<rparr>,
     od_offers = [work_offer st totals], od_lines = [work_line p],
     od_deals = [open_deal],
     od_products = [], od_templates = [70], od_orgs = [], od_rates = [], od_ledger = \<lparr>lg_audit = [], lg_outbox = []\<rparr>,
     od_now = 20\<rparr>"

abbreviation sent_quote :: offer_db where "sent_quote \<equiv> quote_db OfferStatusSent ProposalAccepted (4498, 855, 5353)"
abbreviation draft_quote :: offer_db where "draft_quote \<equiv> quote_db OfferStatusDraft ProposalAccepted (4498, 855, 5353)"
abbreviation drafted_by_ai :: offer_db where "drafted_by_ai \<equiv> quote_db OfferStatusDraft ProposalStaged (0, 0, 0)"

lemma seller_may:
  "require seller_ctx t a = Inr ()" "ensure_writable seller_ctx db ''deal'' i = Inr ()" "ensure_visible seller_ctx db ''deal'' i = Inr ()"
  by (simp_all add: require_def rbac_actor_def refuse_buyer_def seller_ctx_def seller_def ensure_writable_def ensure_visible_def
      scope_clause_for_def ensure_write_authority_def owner_scoped_tables_def unbounded_for_def unbounded_def guardR_def)

lemma sales_writes: "writes (sv_kit sales) seller_ctx"
  by (simp add: writes_def sales_def seller_ctx_def seller_def actor_types_def is_zero_def nil_uuid_def)

lemma offer_streams:
  "stream_for ''offer.sent'' = Inr ''gw:events:crm:deal''" "stream_for ''offer.accepted'' = Inr ''gw:events:crm:deal''"
  "stream_for ''offer.superseded'' = Inr ''gw:events:crm:deal''" "stream_for ''offer.created'' = Inr ''gw:events:crm:deal''"
  "stream_for ''deal.updated'' = Inr ''gw:events:crm:deal''"
  by code_simp+

lemma work_figures: "line_totals (line_input_of (work_line p)) = Inr \<lparr>lf_net = 4498, lf_tax = 855, lf_total = 5353\<rparr>"
proof -
  have "line_input_of (work_line p) = consulting"
    by (simp add: line_input_of_def work_line_def consulting_def) code_simp
  then show ?thesis using sample_lines(1) by simp
qed

lemma quote_ok:
  assumes "st = OfferStatusSent \<or> st = OfferStatusDraft"
    and "p = ProposalAccepted \<and> totals = (4498, 855, 5353) \<or> p = ProposalStaged \<and> totals = (0, 0, 0)"
  shows "offers_ok (quote_db st p totals)"
proof -
  have priced: "offer_totals (priced_lines 60 (quote_db st p totals)) = Inr (totals_of (work_offer st totals))"
    using assms(2) work_figures
    by (auto simp: priced_lines_def lines_of_def quote_db_def work_line_def stateful_def accepted_lines_def work_offer_def totals_of_def
        offer_totals_def minor_from_big_def in_int64_def)
  have "check_line (work_line p) = Inr ()" by (simp add: check_line_def line_checks_def work_line_def)
  then have "lines_ok (od_lines (quote_db st p totals))" by (simp add: lines_ok_def quote_db_def)
  moreover have "valid_currency ''EUR''" by code_simp
  ultimately have "tables_ok (quote_db st p totals)"
    using priced assms(1)
    by (auto simp: tables_ok_def row_ok_def quote_db_def work_offer_def work_line_def lines_of_def split: prod.splits)
  moreover have "revisions_ok (od_offers (quote_db st p totals))"
    using assms(1) by (auto simp: revisions_ok_def quote_db_def work_offer_def split: prod.splits)
  ultimately show ?thesis by (simp add: offers_ok_def)
qed

lemma audit_offer_ok:
  assumes "writes (sv_kit s) c"
  shows "\<exists>a l. audit_offer s c act i b af w = Inr (a, w\<lparr>od_ledger := l\<rparr>) \<and> \<not> is_zero a"
proof -
  obtain p where p: "ctx_actor c = Some p" using assms by (auto simp: writes_def)
  obtain aud l where a: "audit_entry (sv_kit s) c act ''offer'' i b af (od_ledger w) = Inr (aud, l)" using audit_entry_ok [OF p] by blast
  then have "\<not> is_zero aud" using audit_entry_id [OF a] assms by (simp add: writes_def)
  then show ?thesis using a by (auto simp: audit_offer_def offer_ledger_tx_def)
qed

lemma emit_offer_ok:
  assumes "writes (sv_kit s) c" "\<not> is_zero a" "\<not> is_zero i" "stream_for ty = Inr st" "et \<noteq> []" "et \<noteq> dynamic_entity"
  shows "\<exists>l. emit_offer s c a i ty et body w = Inr ((), w\<lparr>od_ledger := l\<rparr>)"
  using emit_staged_ok [OF assms(1,2,5,3,4), of body "od_ledger w"] assms(6)
  by (auto simp: emit_offer_def offer_ledger_tx_def emit_event_def)

text \<open>A live row is found, locked, written and read back.\<close>

definition live_row :: "ctx \<Rightarrow> uuid \<Rightarrow> offer_header \<Rightarrow> offer_db \<Rightarrow> bool" where
  "live_row c i r w \<longleftrightarrow> tables_ok w \<and> r \<in> set (od_offers w) \<and> or_id r = i \<and> or_archived_at r = None
     \<and> ensure_visible c (od_scope w) ''deal'' (or_deal r) = Inr () \<and> ensure_writable c (od_scope w) ''deal'' (or_deal r) = Inr ()"

lemma live_found: "live_row c i r w \<Longrightarrow> find (selects offer_table LiveOnly i) (od_offers w) = Some r"
proof -
  assume live: "live_row c i r w"
  then have sel: "selects offer_table LiveOnly i r" by (simp add: live_row_def selects_def live_clause_def)
  have "x = r" if "x \<in> set (od_offers w)" "selects offer_table LiveOnly i x" for x
    using tables_one [of w r x] that live by (simp add: live_row_def selects_def)
  then show ?thesis using sel live unfolding live_row_def by (metis (no_types, lifting) find_None_iff find_SomeD not_None_eq)
qed

lemma live_locked: "live_row c i r w \<Longrightarrow> visible_offer_locked c i LiveOnly w = Inr r"
  using live_found [of c i r w] find_SomeD [OF live_found [of c i r w]]
  by (auto simp: visible_offer_locked_def visible_offer_def read_offer_def live_row_def lock_row_def list_ex_iff guardR_def lift_o_def)

lemma live_written:
  assumes "live_row c i r w" "valid_currency (or_currency (patched p r))"
  shows "update_offer_row i None p r w
    = Inr ((), w\<lparr>od_offers := update_where (\<lambda>r. or_id r = i) (\<lambda>r. tb_touch offer_table (patched p r)) (od_offers w)\<rparr>)"
proof -
  have "list_ex (selects offer_table LiveOnly i) (od_offers w)"
    using find_SomeD [OF live_found [OF assms(1)]] by (auto simp: list_ex_iff)
  then show ?thesis
    using assms live_one [of w r i] unfolding live_row_def
    by (simp add: update_offer_row_def apply_guarded_def apply_locked_def lock_row_def guardR_def lift_o_def check_currency_def)
qed

lemma live_answered:
  assumes "live_row c i r w" "od_offers w' = update_where (\<lambda>r. or_id r = i) f (od_offers w)" "od_lines w' = od_lines w"
    and "\<And>x. or_id (f x) = or_id x" "\<And>x. or_archived_at (f x) = or_archived_at x" "read_offer_lines i w = Inr vs"
  shows "answer_view i LiveOnly w' = Inr ((f r, vs), w')"
proof -
  have sel: "selects offer_table LiveOnly i (f x) \<longleftrightarrow> selects offer_table LiveOnly i x" for x
    by (simp add: selects_def live_clause_def assms(4,5))
  have r: "or_id r = i" using assms(1) by (simp add: live_row_def)
  have "find (selects offer_table LiveOnly i) (update_where (\<lambda>r. or_id r = i) f xs) = map_option f (find (selects offer_table LiveOnly i) xs)" for xs
    by (induction xs) (auto simp: sel, auto simp: selects_def)
  moreover have "read_offer_lines i w' = read_offer_lines i w" by (simp add: read_offer_lines_def lines_of_def assms(3))
  ultimately show ?thesis
    using live_found [OF assms(1)] assms(6)
    by (simp add: answer_view_def read_offer_with_lines_def read_offer_def assms(2))
qed

lemma accept_ok:
  assumes live: "live_row c i r w" and st: "or_status r = OfferStatusSent"
    and may: "require c ''offer'' ActionUpdate = Inr ()" "require c ''deal'' ActionUpdate = Inr ()"
    and d: "deal_by_id (or_deal r) w = Some d" "dr_status d = DealOpen"
    and lines: "read_offer_lines i w = Inr vs" and wr: "writes (sv_kit s) c" "\<not> is_zero i" "\<not> is_zero (or_deal r)"
  shows "\<exists>v w'. accept_offer s c i None w = (Inr v, w')"
proof -
  let ?p = "accepted_patch (sv_now s)"
  let ?f = "\<lambda>r. tb_touch offer_table (patched ?p r)"
  let ?w1 = "w\<lparr>od_offers := update_where (\<lambda>r. or_id r = i) ?f (od_offers w)\<rparr>"
  have "row_ok w r" using live tables_row by (simp add: live_row_def)
  then have "valid_currency (or_currency (patched ?p r))" by (simp add: row_ok_def accepted_patch_def)
  then have upd: "update_offer_row i None ?p r w = Inr ((), ?w1)" by (rule live_written [OF live])
  have "deal_by_id (or_deal r) ?w1 = Some d" using d(1) by (simp add: deal_by_id_def)
  then obtain changed w2 where sync: "sync_deal_amount_from_offer s (or_deal r) r ?w1 = Inr (changed, w2)"
    and w2: "od_offers w2 = od_offers ?w1" "od_lines w2 = od_lines w"
    using d(2) by (simp add: sync_deal_amount_from_offer_def price_deal_def Let_def)
  obtain a l where audit: "audit_offer s c ''update'' i (patch_before ?p) (Some [(''status'', JStr ''accepted''),
      (''accepted_at'', json_number (sv_now s)), (''deal_amount_minor'', json_minor (or_gross r)),
      (''deal_currency'', JStr (or_currency r))]) w2 = Inr (a, w2\<lparr>od_ledger := l\<rparr>)" "\<not> is_zero a"
    using audit_offer_ok [OF wr(1)] by blast
  obtain l1 where e1: "emit_offer s c a i ''offer.accepted'' ''offer'' (OfferAcceptedBody (or_id r) (or_deal r) (or_revision r) (or_gross r))
      (w2\<lparr>od_ledger := l\<rparr>) = Inr ((), w2\<lparr>od_ledger := l1\<rparr>)"
    using emit_offer_ok [OF wr(1) audit(2) wr(2) offer_streams(2), of "''offer''" _ "w2\<lparr>od_ledger := l\<rparr>"] by (auto simp: dynamic_entity_def)
  obtain l2 where e2: "emit_offer s c a (or_deal r) ''deal.updated'' ''deal'' (DealUpdatedBody changed)
      (w2\<lparr>od_ledger := l1\<rparr>) = Inr ((), w2\<lparr>od_ledger := l2\<rparr>)"
    using emit_offer_ok [OF wr(1) audit(2) wr(3) offer_streams(5), of "''deal''" _ "w2\<lparr>od_ledger := l1\<rparr>"] by (auto simp: dynamic_entity_def)
  have "answer_view i LiveOnly (w2\<lparr>od_ledger := l2\<rparr>) = Inr ((?f r, vs), w2\<lparr>od_ledger := l2\<rparr>)"
    by (rule live_answered [OF live]) (simp_all add: w2 accepted_patch_def lines)
  then show ?thesis
    using upd sync audit(1) e1 e2 live_locked [OF live] st may
    by (simp add: accept_offer_def on_sent_def Let_def run_tx_def)
qed

lemma quote_live: "st = OfferStatusSent \<or> st = OfferStatusDraft \<Longrightarrow>
    p = ProposalAccepted \<and> totals = (4498, 855, 5353) \<or> p = ProposalStaged \<and> totals = (0, 0, 0) \<Longrightarrow>
    live_row seller_ctx 60 (work_offer st totals) (quote_db st p totals)"
  using quote_ok [of st p totals] seller_may
  by (auto simp: live_row_def offers_ok_def quote_db_def work_offer_def split: prod.split)

lemma quote_lines: "read_offer_lines 60 (quote_db st p totals) = Inr [(work_line p, \<lparr>lf_net = 4498, lf_tax = 855, lf_total = 5353\<rparr>)]"
proof -
  have "lines_of 60 (quote_db st p totals) = [work_line p]" by (simp add: lines_of_def quote_db_def work_line_def)
  then show ?thesis by (simp add: read_offer_lines_def work_figures)
qed

lemma quote_accepted: "\<exists>v w'. accept_offer sales seller_ctx 60 None sent_quote = (Inr v, w')"
proof (rule accept_ok [OF quote_live _ seller_may(1) seller_may(1) _ _ quote_lines sales_writes])
  show "deal_by_id (or_deal (work_offer OfferStatusSent (4498, 855, 5353))) sent_quote = Some open_deal"
    by (simp add: deal_by_id_def quote_db_def open_deal_def work_offer_def)
  show "dr_status open_deal = DealOpen" by (simp add: open_deal_def)
qed (simp_all add: work_offer_def is_zero_def nil_uuid_def)

section \<open>What holds of every offer\<close>

text \<open>
  C15. Every committed operation on offers is one the life of an offer allows, for every offer at once: a new
  offer starts as a draft, a draft may be edited or sent, and what was sent may only be accepted, rejected or
  superseded. What is stored of an offer the operation is not about, its row and its lines, is left exactly as
  it was, draft or not. The tables' invariant holds after it.
\<close>

theorem offers_refine_their_life:
  assumes "offer_step w e w'" "offers_ok w"
  shows "offers_ok w' \<and> (\<forall>i. life_act i e (life_of_offer i w) (life_of_offer i w'))
    \<and> (\<forall>j. j \<notin> touched e \<longrightarrow> find (\<lambda>r. or_id r = j) (od_offers w') = find (\<lambda>r. or_id r = j) (od_offers w)
         \<and> lines_of j w' = lines_of j w)"
  using offer_step_ok [OF assms] offer_lives.view_move [OF assms] offer_step_frame [OF assms]
  by (simp add: offer_at_def)

theorem offers_refine_their_life_witness:
  "\<exists>w'. offer_step sent_quote (AcceptedBy 60) w' \<and> offers_ok w' \<and> lines_of 61 w' = lines_of 61 sent_quote
     \<and> life_act 60 (AcceptedBy 60) (life_of_offer 60 sent_quote) (life_of_offer 60 w')"
proof -
  obtain v w' where "accept_offer sales seller_ctx 60 None sent_quote = (Inr v, w')" using quote_accepted by blast
  then have st: "offer_step sent_quote (AcceptedBy 60) w'" by (rule offer_step.accepted)
  have "(61 :: uuid) \<notin> touched (AcceptedBy 60)" by simp
  then show ?thesis using offers_refine_their_life [OF st quote_ok] st by blast
qed

lemma settled_stays:
  assumes "life_act i e a b" "a = Settled st r ls"
  shows "\<exists>st'. b = Settled st' r ls \<and> (st' = st \<or> st = OfferStatusSent \<and> st' \<in> {OfferStatusAccepted, OfferStatusRejected, OfferStatusSuperseded})"
  using assms by (cases e) (auto split: if_splits)

text \<open>
  C10. A sent offer is a fixed record. Whatever is done to the offers afterwards, its currency, buyer, texts,
  totals, frozen rate, snapshots and lines stay what they were, and its status only ever becomes accepted,
  rejected or superseded, from sent and once.
\<close>

theorem a_sent_offer_is_a_fixed_record:
  assumes "run_of offer_step w es w'" "offers_ok w" "life_of_offer i w = Settled st r ls"
  shows "\<exists>st'. life_of_offer i w' = Settled st' r ls
    \<and> (st' = st \<or> st = OfferStatusSent \<and> st' \<in> {OfferStatusAccepted, OfferStatusRejected, OfferStatusSuperseded})"
proof -
  define R where "R = (\<lambda>a b. \<forall>st r ls. life_of_offer i a = Settled st r ls \<longrightarrow> (\<exists>st'. life_of_offer i b = Settled st' r ls
      \<and> (st' = st \<or> st = OfferStatusSent \<and> st' \<in> {OfferStatusAccepted, OfferStatusRejected, OfferStatusSuperseded})))"
  have "R w w'"
  proof (rule offer_lives.run_keeps [OF assms(1,2)])
    show "R a a" for a unfolding R_def by blast
    show "R a c" if "R a b" "R b c" for a b c using that unfolding R_def by (metis insertE offer_status.distinct singletonD)
    show "R a b" if "offer_step a e b" "offers_ok a" for a e b
      using settled_stays [OF offer_lives.view_move [OF that, of i]] unfolding R_def by blast
  qed
  then show ?thesis using assms(3) unfolding R_def by blast
qed

lemma sent_life: "life_of_offer 60 sent_quote
    = Settled OfferStatusSent (settled (work_offer OfferStatusSent (4498, 855, 5353))) [work_line ProposalAccepted]"
  by (simp add: life_of_offer_def row_life_def quote_db_def lines_of_def work_line_def work_offer_def)

theorem a_sent_offer_is_a_fixed_record_witness:
  "\<exists>w' st'. run_of offer_step sent_quote [AcceptedBy 60] w'
     \<and> life_of_offer 60 w' = Settled st' (settled (work_offer OfferStatusSent (4498, 855, 5353))) [work_line ProposalAccepted]"
proof -
  obtain v w' where "accept_offer sales seller_ctx 60 None sent_quote = (Inr v, w')" using quote_accepted by blast
  then have run: "run_of offer_step sent_quote [AcceptedBy 60] w'" by (intro run_of_single offer_step.accepted)
  show ?thesis using a_sent_offer_is_a_fixed_record [OF run quote_ok sent_life] run by blast
qed

lemma row_sums:
  assumes "row_ok w r"
  shows "\<exists>fs. figures_of (priced_lines (or_id r) w) = Some fs \<and> sint (or_net r) = net_of fs \<and> sint (or_tax r) = tax_of fs
    \<and> sint (or_gross r) = net_of fs + tax_of fs"
proof -
  have "offer_totals (priced_lines (or_id r) w) = Inr (totals_of r)" using assms by (simp add: row_ok_def)
  then obtain fs where fs: "figures_of (priced_lines (or_id r) w) = Some fs" "in_int64 (net_of fs)" "in_int64 (tax_of fs)" "in_int64 (gross_of fs)"
    "or_net r = word_of_int (net_of fs)" "or_tax r = word_of_int (tax_of fs)" "or_gross r = word_of_int (gross_of fs)"
    unfolding offer_totals_iff totals_of_def by auto
  then show ?thesis using figures_of_gross [OF fs(1)] sint_of_int64 by metis
qed

text \<open>
  C11. In every state the operations reach, an offer's stored net, tax and gross are what the engine makes of
  its accepted lines: their sums as numbers, gross being net plus tax. An offer that is no longer a draft
  carries the rate and day it was frozen at and the issuer's block; it is accepted exactly when it says when.
  Of the revisions of one number at most one is not superseded.
\<close>

theorem offers_reconcile_in_every_state:
  assumes "run_of offer_step w es w'" "offers_ok w"
  shows "(\<forall>r \<in> set (od_offers w').
      (\<exists>fs. figures_of (priced_lines (or_id r) w') = Some fs \<and> sint (or_net r) = net_of fs \<and> sint (or_tax r) = tax_of fs
        \<and> sint (or_gross r) = net_of fs + tax_of fs)
      \<and> (or_status r \<noteq> OfferStatusDraft \<longrightarrow> or_fx_rate r \<noteq> None \<and> or_fx_date r \<noteq> None \<and> or_issuer_snapshot r \<noteq> None
          \<and> lines_of (or_id r) w' \<noteq> [])
      \<and> (or_status r = OfferStatusAccepted \<longleftrightarrow> or_accepted_at r \<noteq> None))
    \<and> (\<forall>r \<in> set (od_offers w'). \<forall>x \<in> set (od_offers w'). or_number x = or_number r
        \<longrightarrow> or_status x \<noteq> OfferStatusSuperseded \<longrightarrow> or_status r \<noteq> OfferStatusSuperseded \<longrightarrow> x = r)"
proof -
  have ok: "offers_ok w'" by (rule offer_lives.run_inv [OF assms])
  have row: "row_ok w' r" if "r \<in> set (od_offers w')" for r using ok that tables_row by (simp add: offers_ok_def)
  note sums = row_sums [OF row]
  have "x = r" if "r \<in> set (od_offers w')" "x \<in> set (od_offers w')" "or_number x = or_number r"
    "or_status x \<noteq> OfferStatusSuperseded" "or_status r \<noteq> OfferStatusSuperseded" for r x
  proof -
    have rev: "revisions_ok (od_offers w')" using ok by (simp add: offers_ok_def)
    then have "or_revision x = or_revision r" using that unfolding revisions_ok_def by (metis linorder_neqE_linordered_idom)
    then show ?thesis
      using ok that(1-3) unfolding offers_ok_def tables_ok_def distinct_map by (metis (mono_tags, lifting) inj_onD)
  qed
  moreover have "(or_status r \<noteq> OfferStatusDraft \<longrightarrow> or_fx_rate r \<noteq> None \<and> or_fx_date r \<noteq> None \<and> or_issuer_snapshot r \<noteq> None
      \<and> lines_of (or_id r) w' \<noteq> []) \<and> (or_status r = OfferStatusAccepted \<longleftrightarrow> or_accepted_at r \<noteq> None)" if "r \<in> set (od_offers w')" for r
    using row [OF that] unfolding row_ok_def by blast
  ultimately show ?thesis using sums by blast
qed

theorem offers_reconcile_in_every_state_witness:
  "\<exists>w' r fs. run_of offer_step sent_quote [AcceptedBy 60] w' \<and> r \<in> set (od_offers w')
     \<and> figures_of (priced_lines (or_id r) w') = Some fs \<and> sint (or_gross r) = net_of fs + tax_of fs"
proof -
  obtain v w' where acc: "accept_offer sales seller_ctx 60 None sent_quote = (Inr v, w')" using quote_accepted by blast
  then have run: "run_of offer_step sent_quote [AcceptedBy 60] w'" by (intro run_of_single offer_step.accepted)
  have "tables_ok sent_quote" using quote_ok by (simp add: offers_ok_def)
  from accept_changes [OF acc this] have "map or_id (od_offers w') = map or_id (od_offers sent_quote)"
    using row_change_ids unfolding changed_def by blast
  then have "hd (od_offers w') \<in> set (od_offers w')" by (intro hd_in_set) (auto simp: quote_db_def)
  then obtain r where "r \<in> set (od_offers w')" by blast
  then show ?thesis using offers_reconcile_in_every_state [OF run quote_ok, THEN conjunct1, rule_format, of r] run by blast
qed

section \<open>A deal is priced by the offer accepted\<close>

definition offer_events :: "offer_db \<Rightarrow> offer_body list" where
  "offer_events w = map (\<lambda>e. ev_payload (se_envelope e)) (lg_outbox (od_ledger w))"

lemma audit_events: "audit_offer s c act i b a w = Inr (x, w') \<Longrightarrow> offer_events w' = offer_events w"
  by (auto simp: audit_offer_def offer_ledger_tx_def offer_events_def dest!: audit_entry_effect)

lemma emit_events: "emit_offer s c aud i ty et body w = Inr (x, w') \<Longrightarrow> offer_events w' = offer_events w @ [body]"
  by (auto simp: emit_offer_def offer_ledger_tx_def offer_events_def emit_event_def split: if_splits dest!: emit_staged_effect)

lemma deal_priced:
  assumes "deal_by_id i w = Some d" "\<And>x. dr_id (f x) = dr_id x"
  shows "deal_by_id i (price_deal i f w) = Some ((f d)\<lparr>dr_version := dr_version d + 1\<rparr>)"
    and "j \<noteq> i \<Longrightarrow> deal_by_id j (price_deal i f w) = deal_by_id j w"
proof -
  let ?g = "\<lambda>d. (f d)\<lparr>dr_version := dr_version d + 1\<rparr>"
  have id: "dr_id (?g x) = dr_id x" for x by (simp add: assms(2))
  have "find (\<lambda>d. dr_id d = i) (update_where (\<lambda>d. dr_id d = i) ?g (od_deals w)) = map_option ?g (find (\<lambda>d. dr_id d = i) (od_deals w))"
    by (rule find_update_where) (simp_all only: id)
  then show "deal_by_id i (price_deal i f w) = Some (?g d)"
    using assms(1) by (simp add: deal_by_id_def price_deal_def)
  have "find (\<lambda>d. dr_id d = j) (update_where (\<lambda>d. dr_id d = i) ?g (od_deals w)) = find (\<lambda>d. dr_id d = j) (od_deals w)" if "j \<noteq> i"
    by (rule find_update_where_other) (use that in \<open>simp_all only: id, auto\<close>)
  then show "j \<noteq> i \<Longrightarrow> deal_by_id j (price_deal i f w) = deal_by_id j w"
    by (simp add: deal_by_id_def price_deal_def)
qed

definition priced_by :: "offer_header \<Rightarrow> deal_row \<Rightarrow> deal_row \<Rightarrow> bool" where
  "priced_by r d d' \<longleftrightarrow> dr_amount d' = Some (or_gross r) \<and> dr_currency d' = Some (or_currency r)
     \<and> dr_status d' = dr_status d \<and> dr_closed_at d' = dr_closed_at d \<and> dr_org d' = dr_org d
     \<and> dr_version d' = dr_version d + 1"

text \<open>The columns the deal's event names: amount and currency, and for a closed deal the rate of its closing day.\<close>

definition repriced :: "offer_header \<Rightarrow> (string \<times> time) option \<Rightarrow> (string \<times> json) list" where
  "repriced r fx = [(''amount_minor'', json_minor (or_gross r)), (''currency'', JStr (or_currency r))]
     @ (case fx of None \<Rightarrow> [] | Some (rate, day) \<Rightarrow> [(''fx_rate_to_base'', JStr rate), (''fx_rate_date'', json_number day)])"

text \<open>What pricing leaves on the deal, by whether it is still open.\<close>

definition deal_fx :: "offer_svc \<Rightarrow> offer_db \<Rightarrow> offer_header \<Rightarrow> deal_row \<Rightarrow> deal_row \<Rightarrow> (string \<times> time) option \<Rightarrow> bool" where
  "deal_fx s w r d d' fx \<longleftrightarrow> (case fx of
       None \<Rightarrow> dr_status d = DealOpen \<and> dr_fx_rate d' = dr_fx_rate d \<and> dr_fx_date d' = dr_fx_date d
     | Some (rate, day) \<Rightarrow> dr_status d \<noteq> DealOpen \<and> (\<exists>base closed_on n. sv_base s w = Inr base \<and> dr_closed_at d = Some closed_on
         \<and> day = truncate_day closed_on \<and> freeze_fx base (or_currency r) closed_on (od_rates w) = Inr (rate, day) \<and> to_numeric 20 10 rate = Inr n
         \<and> in_int64 (base_amount (or_gross r) n) \<and> dr_fx_rate d' = Some n \<and> dr_fx_date d' = Some day))"

lemma sync_effect:
  assumes "sync_deal_amount_from_offer s i r w = Inr (columns, w')"
  shows "\<exists>d d' fx. deal_by_id i w = Some d \<and> deal_by_id i w' = Some d' \<and> priced_by r d d' \<and> deal_fx s w r d d' fx
    \<and> columns = repriced r fx \<and> (\<forall>j. j \<noteq> i \<longrightarrow> deal_by_id j w' = deal_by_id j w)
    \<and> od_ledger w' = od_ledger w \<and> od_offers w' = od_offers w"
proof -
  obtain d where d: "deal_by_id i w = Some d"
    using assms by (auto simp: sync_deal_amount_from_offer_def split: option.splits)
  show ?thesis
  proof (cases "dr_status d = DealOpen")
    case True
    let ?f = "\<lambda>d. d\<lparr>dr_amount := Some (or_gross r), dr_currency := Some (or_currency r)\<rparr>"
    have w': "w' = price_deal i ?f w" and cols: "columns = repriced r None"
      using assms d True by (auto simp: sync_deal_amount_from_offer_def Let_def repriced_def)
    have "deal_fx s w r d ((?f d)\<lparr>dr_version := dr_version d + 1\<rparr>) None" using True by (simp add: deal_fx_def)
    moreover have "priced_by r d ((?f d)\<lparr>dr_version := dr_version d + 1\<rparr>)" by (simp add: priced_by_def)
    moreover have "od_ledger w' = od_ledger w" "od_offers w' = od_offers w" by (simp_all add: w' price_deal_def)
    ultimately show ?thesis using d deal_priced [OF d, of ?f] cols unfolding w' by auto
  next
    case False
    obtain base closed_on rate date n where p: "sv_base s w = Inr base" "dr_closed_at d = Some closed_on" "freeze_fx base (or_currency r) closed_on (od_rates w) = Inr (rate, date)"
      "to_numeric 20 10 rate = Inr n" "in_int64 (base_amount (or_gross r) n)"
      and w': "w' = price_deal i (\<lambda>d. d\<lparr>dr_amount := Some (or_gross r), dr_currency := Some (or_currency r),
          dr_fx_rate := Some n, dr_fx_date := Some date\<rparr>) w" and cols: "columns = repriced r (Some (rate, date))"
      using assms d False by (auto simp: sync_deal_amount_from_offer_def Let_def repriced_def split: option.splits if_splits)
    let ?f = "\<lambda>d. d\<lparr>dr_amount := Some (or_gross r), dr_currency := Some (or_currency r), dr_fx_rate := Some n, dr_fx_date := Some date\<rparr>"
    have "date = truncate_day closed_on" using p(3) by (auto simp: freeze_fx_def Let_def split: if_splits option.splits)
    then have "deal_fx s w r d ((?f d)\<lparr>dr_version := dr_version d + 1\<rparr>) (Some (rate, date))"
      using False p by (simp add: deal_fx_def)
    moreover have "priced_by r d ((?f d)\<lparr>dr_version := dr_version d + 1\<rparr>)" by (simp add: priced_by_def)
    moreover have "od_ledger w' = od_ledger w" "od_offers w' = od_offers w" by (simp_all add: w' price_deal_def)
    ultimately show ?thesis using d deal_priced [OF d, of ?f] cols unfolding w' by auto
  qed
qed

text \<open>
  C14. Accepting an offer prices its deal, once and completely. It takes the update grant on offers and on
  deals, a live sent offer at the version named and write authority over its deal. The offer is then accepted,
  at the store's clock and under its next version, and no other offer changes. The deal carries the offer's
  gross and currency; a deal already closed also gets the rate of its closing day, or the acceptance fails. No
  other deal and no line changes, and exactly two events are staged, the acceptance and the deal's update,
  which names exactly the columns written.
\<close>

theorem acceptance_prices_the_deal:
  assumes "accept_offer s c i ver w = (Inr v, w')" "offers_ok w"
  shows "\<exists>r d d' fx. r \<in> set (od_offers w) \<and> or_id r = i \<and> or_status r = OfferStatusSent \<and> or_archived_at r = None
    \<and> (case ver of None \<Rightarrow> True | Some n \<Rightarrow> or_version r = n)
    \<and> require c ''offer'' ActionUpdate = Inr () \<and> require c ''deal'' ActionUpdate = Inr ()
    \<and> ensure_writable c (od_scope w) ''deal'' (or_deal r) = Inr ()
    \<and> od_offers w' = update_where (\<lambda>x. or_id x = i) (\<lambda>x. x\<lparr>or_status := OfferStatusAccepted,
         or_accepted_at := Some (sv_now s), or_version := or_version x + 1\<rparr>) (od_offers w)
    \<and> deal_by_id (or_deal r) w = Some d \<and> deal_by_id (or_deal r) w' = Some d' \<and> priced_by r d d'
    \<and> deal_fx s (w\<lparr>od_offers := od_offers w'\<rparr>) r d d' fx
    \<and> (\<forall>j. j \<noteq> or_deal r \<longrightarrow> deal_by_id j w' = deal_by_id j w) \<and> od_lines w' = od_lines w
    \<and> offer_events w' = offer_events w
        @ [OfferAcceptedBody i (or_deal r) (or_revision r) (or_gross r), DealUpdatedBody (repriced r fx)]"
proof -
  have ok: "tables_ok w" using assms(2) by (simp add: offers_ok_def)
  let ?p = "accepted_patch (sv_now s)"
  have grants: "require c ''offer'' ActionUpdate = Inr ()" "require c ''deal'' ActionUpdate = Inr ()"
    and tx: "on_sent c i (\<lambda>current w.
          bindR (update_offer_row i ver ?p current w) (\<lambda>(_, w).
          bindR (sync_deal_amount_from_offer s (or_deal current) current w) (\<lambda>(changed, w).
          bindR (audit_offer s c ''update'' i (patch_before ?p) (Some [(''status'', JStr ''accepted''),
              (''accepted_at'', json_number (sv_now s)), (''deal_amount_minor'', json_minor (or_gross current)),
              (''deal_currency'', JStr (or_currency current))]) w) (\<lambda>(audit_id, w).
          bindR (emit_offer s c audit_id i ''offer.accepted'' ''offer''
              (OfferAcceptedBody (or_id current) (or_deal current) (or_revision current) (or_gross current)) w) (\<lambda>(_, w).
          bindR (emit_offer s c audit_id (or_deal current) ''deal.updated'' ''deal'' (DealUpdatedBody changed) w) (\<lambda>(_, w).
            answer_view i LiveOnly w)))))) w = Inr (v, w')"
    using assms(1) by (auto simp: accept_offer_def Let_def split: sum.splits dest!: run_tx_InrD)
  obtain r where locked: "visible_offer_locked c i LiveOnly w = Inr r" and sent: "or_status r = OfferStatusSent"
    and rest: "\<exists>u w1 columns w2 b a aud w3 x w4 y w5. update_offer_row i ver ?p r w = Inr (u, w1)
      \<and> sync_deal_amount_from_offer s (or_deal r) r w1 = Inr (columns, w2) \<and> audit_offer s c ''update'' i b a w2 = Inr (aud, w3)
      \<and> emit_offer s c aud i ''offer.accepted'' ''offer'' (OfferAcceptedBody (or_id r) (or_deal r) (or_revision r) (or_gross r)) w3 = Inr (x, w4)
      \<and> emit_offer s c aud (or_deal r) ''deal.updated'' ''deal'' (DealUpdatedBody columns) w4 = Inr (y, w5)
      \<and> answer_view i LiveOnly w5 = Inr (v, w')"
    using tx unfolding on_sent_def by (auto split: if_splits) blast
  then obtain u w1 columns w2 b a aud w3 x w4 y w5 where
      upd: "update_offer_row i ver ?p r w = Inr (u, w1)" and sync: "sync_deal_amount_from_offer s (or_deal r) r w1 = Inr (columns, w2)"
      and log: "audit_offer s c ''update'' i b a w2 = Inr (aud, w3)"
      "emit_offer s c aud i ''offer.accepted'' ''offer'' (OfferAcceptedBody (or_id r) (or_deal r) (or_revision r) (or_gross r)) w3 = Inr (x, w4)"
      "emit_offer s c aud (or_deal r) ''deal.updated'' ''deal'' (DealUpdatedBody columns) w4 = Inr (y, w5)"
      and ans: "answer_view i LiveOnly w5 = Inr (v, w')" by blast
  have r: "r \<in> set (od_offers w)" "or_id r = i" "or_archived_at r = None" "ensure_writable c (od_scope w) ''deal'' (or_deal r) = Inr ()"
    using visible_offer_locked_Inr [OF locked] by simp_all
  have w1: "w1 = w\<lparr>od_offers := update_where (\<lambda>r. or_id r = i) (\<lambda>r. tb_touch offer_table (patched ?p r)) (od_offers w)\<rparr>"
    and ver: "case ver of None \<Rightarrow> True | Some n \<Rightarrow> or_version r = n"
    using update_row_effect [OF upd ok r(1,2)] by blast+
  have w': "w' = w5" using answer_view_effect [OF ans] by simp
  have later: "\<exists>l. w' = w2\<lparr>od_ledger := l\<rparr>"
    using audit_offer_effect [OF log(1)] emit_offer_effect [OF log(2)] emit_offer_effect [OF log(3)] w' by auto
  have same: "deal_by_id j w1 = deal_by_id j w" "deal_by_id j w' = deal_by_id j w2"
    "offer_events w1 = offer_events w" "od_offers w' = od_offers w2" for j
    using later by (auto simp: deal_by_id_def w1 offer_events_def)
  obtain d d' fx where deal: "deal_by_id (or_deal r) w = Some d" "deal_by_id (or_deal r) w' = Some d'" "priced_by r d d'"
    "deal_fx s w1 r d d' fx" "\<forall>j. j \<noteq> or_deal r \<longrightarrow> deal_by_id j w' = deal_by_id j w"
    and columns: "columns = repriced r fx" and w2: "od_ledger w2 = od_ledger w1" "od_offers w2 = od_offers w1"
    using sync_effect [OF sync] unfolding same by blast
  have lines: "od_lines w' = od_lines w" using sync_leaves [OF sync] later by (auto simp: w1)
  have rows: "od_offers w' = update_where (\<lambda>x. or_id x = i) (\<lambda>x. x\<lparr>or_status := OfferStatusAccepted,
       or_accepted_at := Some (sv_now s), or_version := or_version x + 1\<rparr>) (od_offers w)"
    by (simp add: same(4) w2 w1 accepted_patch_def)
  have fx: "deal_fx s (w\<lparr>od_offers := od_offers w'\<rparr>) r d d' fx" using deal(4) by (simp add: same(4) w2 w1)
  have "offer_events w2 = offer_events w" using w2 same(3) by (simp add: offer_events_def)
  then have events: "offer_events w' = offer_events w
      @ [OfferAcceptedBody i (or_deal r) (or_revision r) (or_gross r), DealUpdatedBody (repriced r fx)]"
    using audit_events [OF log(1)] emit_events [OF log(2)] emit_events [OF log(3)] w' r(2) columns by simp
  show ?thesis
    by (rule exI [of _ r], rule exI [of _ d], rule exI [of _ d'], rule exI [of _ fx])
      (intro conjI r sent ver grants rows deal(1-3,5) fx lines events)
qed

theorem acceptance_prices_the_deal_witness:
  "\<exists>v w' d. accept_offer sales seller_ctx 60 None sent_quote = (Inr v, w') \<and> deal_by_id 50 w' = Some d
     \<and> dr_amount d = Some 5353 \<and> dr_currency d = Some ''EUR'' \<and> map or_status (od_offers w') = [OfferStatusAccepted]
     \<and> offer_events w' = [OfferAcceptedBody 60 50 1 5353,
         DealUpdatedBody [(''amount_minor'', json_minor 5353), (''currency'', JStr ''EUR'')]]"
proof -
  obtain v w' where acc: "accept_offer sales seller_ctx 60 None sent_quote = (Inr v, w')" using quote_accepted by blast
  have rows: "r \<in> set (od_offers sent_quote) \<Longrightarrow> r = work_offer OfferStatusSent (4498, 855, 5353)" for r by (simp add: quote_db_def)
  obtain r d d' fx where got: "r = work_offer OfferStatusSent (4498, 855, 5353)" "deal_by_id (or_deal r) sent_quote = Some d"
    "deal_by_id (or_deal r) w' = Some d'" "priced_by r d d'" "deal_fx sales (sent_quote\<lparr>od_offers := od_offers w'\<rparr>) r d d' fx"
    "od_offers w' = update_where (\<lambda>x. or_id x = 60) (\<lambda>x. x\<lparr>or_status := OfferStatusAccepted,
         or_accepted_at := Some (sv_now sales), or_version := or_version x + 1\<rparr>) (od_offers sent_quote)"
    "offer_events w' = offer_events sent_quote @ [OfferAcceptedBody 60 (or_deal r) (or_revision r) (or_gross r), DealUpdatedBody (repriced r fx)]"
    using acceptance_prices_the_deal [OF acc quote_ok] rows by blast
  have "d = open_deal" using got(2) by (simp add: deal_by_id_def got(1) quote_db_def work_offer_def open_deal_def)
  then have "fx = None" using got(5) by (simp add: deal_fx_def open_deal_def split: option.splits prod.splits)
  then have "deal_by_id 50 w' = Some d'" "dr_amount d' = Some 5353" "dr_currency d' = Some ''EUR''"
    "map or_status (od_offers w') = [OfferStatusAccepted]"
    "offer_events w' = [OfferAcceptedBody 60 50 1 5353, DealUpdatedBody [(''amount_minor'', json_minor 5353), (''currency'', JStr ''EUR'')]]"
    using got by (simp_all add: quote_db_def work_offer_def priced_by_def offer_events_def repriced_def)
  then show ?thesis using acc by (intro exI [of _ v] exI [of _ w'] exI [of _ d'] conjI)
qed

section \<open>What the promises leave out\<close>

lemma accepted_lines_stateful:
  "accepted_lines (map stateful []) = []"
  "accepted_lines (map stateful (l # ls)) = (if lr_state l = ProposalAccepted then line_input_of l # accepted_lines (map stateful ls)
     else accepted_lines (map stateful ls))"
  by (simp_all add: accepted_lines_def stateful_def)

lemma line_views_Inr:
  "line_views ls = Inr vs \<Longrightarrow> map fst vs = ls \<and> (\<exists>fs. figures_of (accepted_lines (map stateful ls)) = Some fs
     \<and> gross_of fs = (\<Sum>v\<leftarrow>vs. if lr_state (fst v) = ProposalAccepted then sint (lf_total (snd v)) else 0))"
proof (induction ls arbitrary: vs)
  case Nil
  then have "vs = []" by simp
  then show ?case by (simp add: accepted_lines_def gross_of_def)
next
  case (Cons l ls)
  then obtain f ws where f: "line_totals (line_input_of l) = Inr f" and ws: "line_views ls = Inr ws" "vs = (l, f) # ws" by auto
  from Cons.IH [OF ws(1)] obtain fs where "map fst ws = ls" "figures_of (accepted_lines (map stateful ls)) = Some fs"
    "gross_of fs = (\<Sum>v\<leftarrow>ws. if lr_state (fst v) = ProposalAccepted then sint (lf_total (snd v)) else 0)" by blast
  then show ?case
    using f unfolding accepted_lines_stateful(2) ws(2)
    by (cases "lr_state l = ProposalAccepted") (auto simp: gross_of_def)
qed

lemma accepted_lines_perm: "mset ls' = mset ls \<Longrightarrow> mset (accepted_lines (map stateful ls')) = mset (accepted_lines (map stateful ls))"
  unfolding accepted_lines_def by (simp flip: filter_mset_eq_conv add: mset_filter)

lemma listed_lines:
  assumes "read_offer_lines i w = Inr vs" "row_ok w r" "or_id r = i"
  shows "mset (map fst vs) = mset (lines_of i w)
    \<and> sint (or_gross r) = (\<Sum>v\<leftarrow>vs. if lr_state (fst v) = ProposalAccepted then sint (lf_total (snd v)) else 0)"
proof -
  let ?ls = "sort_key lr_position (sort_key lr_id (lines_of i w))"
  have perm: "mset ?ls = mset (lines_of i w)" by simp
  obtain fs where fs: "map fst vs = ?ls" "figures_of (accepted_lines (map stateful ?ls)) = Some fs"
    "gross_of fs = (\<Sum>v\<leftarrow>vs. if lr_state (fst v) = ProposalAccepted then sint (lf_total (snd v)) else 0)"
    using line_views_Inr assms(1) unfolding read_offer_lines_def by blast
  obtain gs where gs: "figures_of (priced_lines i w) = Some gs" "sint (or_gross r) = net_of gs + tax_of gs"
    using row_sums [OF assms(2)] assms(3) by blast
  have "mset (priced_lines i w) = mset (accepted_lines (map stateful ?ls))"
    unfolding priced_lines_def by (rule accepted_lines_perm [OF perm [symmetric]])
  from figures_of_perm [OF fs(2) this] obtain hs where hs: "figures_of (priced_lines i w) = Some hs" "mset hs = mset fs" .
  have "hs = gs" using hs(1) gs(1) by simp
  then have "gross_of gs = gross_of fs" using sums_perm(3) [OF hs(2)] by simp
  then have "sint (or_gross r) = gross_of fs" using gs(2) figures_of_gross [OF gs(1)] by (simp only:)
  moreover have "mset (map fst vs) = mset (lines_of i w)" unfolding fs(1) by (rule perm)
  ultimately show ?thesis by (simp only: fs(3) simp_thms)
qed

text \<open>
  C30. What is rendered is not only what is priced. The document of an offer lists every line of it, the
  proposals nobody has accepted with their prices among them, while its total is the sum over the accepted
  lines alone; the two differ by exactly the unaccepted lines' totals.
\<close>

theorem a_rendered_offer_lists_unaccepted_lines:
  assumes "prepare_render s c i w = (Inr g, w')" "offers_ok w"
  shows "w' = w \<and> mset (map fst (ri_lines g)) = mset (lines_of i w)
    \<and> sint (or_gross (ri_offer g)) = (\<Sum>v\<leftarrow>ri_lines g. if lr_state (fst v) = ProposalAccepted then sint (lf_total (snd v)) else 0)"
proof -
  have g: "read_offer i LiveOnly w = Inr (ri_offer g)" "read_offer_lines i w = Inr (ri_lines g)" "w' = w"
    using assms(1) by (auto simp: prepare_render_def visible_offer_def split: sum.splits dest!: run_tx_InrD)
  have "row_ok w (ri_offer g)" "or_id (ri_offer g) = i"
    using read_offer_Inr [OF g(1)] assms(2) tables_row by (auto simp: offers_ok_def)
  from listed_lines [OF g(2) this] show ?thesis using g(3) by simp
qed

theorem a_rendered_offer_lists_unaccepted_lines_witness:
  "\<exists>g. prepare_render sales seller_ctx 60 drafted_by_ai = (Inr g, drafted_by_ai) \<and> sint (or_gross (ri_offer g)) = 0
     \<and> map (\<lambda>v. sint (lf_total (snd v))) (ri_lines g) = [5353]"
proof -
  have live: "live_row seller_ctx 60 (work_offer OfferStatusDraft (0, 0, 0)) drafted_by_ai" by (rule quote_live) simp_all
  obtain g where g: "prepare_render sales seller_ctx 60 drafted_by_ai = (Inr g, drafted_by_ai)"
    "ri_lines g = [(work_line ProposalStaged, \<lparr>lf_net = 4498, lf_tax = 855, lf_total = 5353\<rparr>)]"
    using live_found [OF live] seller_may
    by (simp add: prepare_render_def visible_offer_def read_offer_def quote_lines lift_o_def run_tx_def
        resolve_render_issuer_name_def work_offer_def sales_def)
  then have "sint (or_gross (ri_offer g)) = 0"
    using a_rendered_offer_lists_unaccepted_lines [OF g(1) quote_ok] by (simp add: work_line_def)
  then show ?thesis using g by simp
qed

lemma all_staged: "\<forall>l \<in> set ls. lr_state l = ProposalStaged \<Longrightarrow> accepted_lines (map stateful ls) = []"
  by (induction ls) (simp_all add: accepted_lines_def stateful_def)

text \<open>A draft that is ready to go out. Of its lines it asks only that there are some and that they can be priced.\<close>

definition sendable :: "offer_svc \<Rightarrow> ctx \<Rightarrow> uuid \<Rightarrow> offer_header \<Rightarrow> offer_db \<Rightarrow> bool" where
  "sendable s c i r w \<longleftrightarrow> live_row c i r w \<and> or_status r = OfferStatusDraft \<and> require c ''offer'' ActionUpdate = Inr ()
     \<and> lines_of i w \<noteq> [] \<and> (\<exists>vs. read_offer_lines i w = Inr vs)
     \<and> (\<exists>base rate day n. sv_base s w = Inr base \<and> freeze_fx base (or_currency r) (sv_now s) (od_rates w) = Inr (rate, day)
          \<and> to_numeric 20 10 rate = Inr n)
     \<and> (\<exists>name. sv_name s w = Inr name) \<and> writes (sv_kit s) c \<and> \<not> is_zero i
     \<and> (\<forall>w. \<exists>w'. sv_stamp s (or_deal r) w = Inr w')"

lemma sendable_sent:
  assumes "sendable s c i r w" "stamps_only s"
  shows "\<exists>v w'. send_offer s c i None w = (Inr v, w')"
proof -
  obtain base rate day n name vs where live: "live_row c i r w" and st: "or_status r = OfferStatusDraft" and may: "require c ''offer'' ActionUpdate = Inr ()"
    and lines: "lines_of i w \<noteq> []" "read_offer_lines i w = Inr vs" and fx: "sv_base s w = Inr base"
      "freeze_fx base (or_currency r) (sv_now s) (od_rates w) = Inr (rate, day)" "to_numeric 20 10 rate = Inr n"
    and name: "sv_name s w = Inr name" and wr: "writes (sv_kit s) c" "\<not> is_zero i" and stamp: "\<And>w. \<exists>w'. sv_stamp s (or_deal r) w = Inr w'"
    using assms(1) unfolding sendable_def by blast
  obtain buyer issuer where snap: "send_snapshots s base r w = Inr (buyer, issuer)" by (simp add: send_snapshots_def name)
  let ?p = "sent_patch r rate n day buyer issuer"
  let ?f = "\<lambda>x. tb_touch offer_table (patched ?p x)"
  let ?w1 = "w\<lparr>od_offers := update_where (\<lambda>r. or_id r = i) ?f (od_offers w)\<rparr>"
  have "row_ok w r" using live tables_row by (simp add: live_row_def)
  then have upd: "update_offer_row i None ?p r w = Inr ((), ?w1)"
    by (intro live_written [OF live]) (simp add: sent_patch_row row_ok_def)
  obtain a l where audit: "audit_offer s c ''update'' i (patch_before ?p) (patch_after ?p) ?w1 = Inr (a, ?w1\<lparr>od_ledger := l\<rparr>)" "\<not> is_zero a"
    using audit_offer_ok [OF wr(1)] by blast
  obtain l1 where emit: "emit_offer s c a i ''offer.sent'' ''offer'' (offer_sent_payload r rate) (?w1\<lparr>od_ledger := l\<rparr>)
      = Inr ((), ?w1\<lparr>od_ledger := l1\<rparr>)"
    using emit_offer_ok [OF wr(1) audit(2) wr(2) offer_streams(1), of "''offer''" _ "?w1\<lparr>od_ledger := l\<rparr>"] by (auto simp: dynamic_entity_def)
  obtain w2 where w2: "sv_stamp s (or_deal r) (?w1\<lparr>od_ledger := l1\<rparr>) = Inr w2" using stamp by blast
  then have "od_offers w2 = od_offers ?w1" "od_lines w2 = od_lines ?w1" using assms(2) unfolding stamps_only_def by fastforce+
  then have ans: "answer_view i LiveOnly w2 = Inr ((?f r, vs), w2)"
    by (intro live_answered [OF live _ _ _ _ lines(2)]) (simp_all add: sent_patch_row)
  show ?thesis
    using upd fx snap audit(1) emit w2 ans live_locked [OF live] st lines(1) may
    by (simp add: send_offer_def require_update_def on_draft_def ensure_draft_def Let_def run_tx_def)
qed

lemma unaccepted_totals:
  assumes "tables_ok w" "r \<in> set (od_offers w)" "\<forall>l \<in> set (lines_of (or_id r) w). lr_state l = ProposalStaged"
  shows "totals_of r = \<lparr>og_net = 0, og_tax = 0, og_gross = 0\<rparr>"
proof -
  have "offer_totals (priced_lines (or_id r) w) = Inr (totals_of r)" using tables_row [OF assms(1,2)] by (simp add: row_ok_def)
  then show ?thesis using all_staged [OF assms(3)] by (simp add: priced_lines_def offer_totals_def minor_from_big_def in_int64_def)
qed

text \<open>
  C31. An offer nobody has accepted a line of is sent all the same. A draft that is otherwise ready goes out
  when every line of it is an unaccepted proposal, because sending only counts the lines: the send succeeds,
  and what it leaves is a sent offer with those same lines and with net, tax and gross of zero.
\<close>

theorem an_unaccepted_draft_is_sent_for_nothing:
  assumes "sendable s c i r w" "stamps_only s" "offers_ok w" "\<forall>l \<in> set (lines_of i w). lr_state l = ProposalStaged"
  shows "\<exists>v w'. send_offer s c i None w = (Inr v, w') \<and> lines_of i w' = lines_of i w \<and> lines_of i w' \<noteq> []
    \<and> (\<exists>r' \<in> set (od_offers w'). or_id r' = i \<and> or_status r' = OfferStatusSent \<and> or_net r' = 0 \<and> or_tax r' = 0 \<and> or_gross r' = 0)"
proof -
  have ok: "tables_ok w" using assms(3) by (simp add: offers_ok_def)
  obtain v w' where sent: "send_offer s c i None w = (Inr v, w')" using sendable_sent [OF assms(1,2)] by blast
  obtain r rate date n buyer issuer where r: "r \<in> set (od_offers w)" "or_id r = i" and lines: "lines_of i w \<noteq> []"
    and w': "od_offers w' = update_where (\<lambda>r. or_id r = i) (\<lambda>x. tb_touch offer_table (patched (sent_patch r rate n date buyer issuer) x)) (od_offers w)"
      "od_lines w' = od_lines w"
    by (rule send_effect [OF sent assms(2) ok])
  let ?r = "tb_touch offer_table (patched (sent_patch r rate n date buyer issuer) r)"
  have "totals_of r = \<lparr>og_net = 0, og_tax = 0, og_gross = 0\<rparr>" using unaccepted_totals [OF ok r(1)] assms(4) r(2) by simp
  moreover have "?r \<in> set (od_offers w')" unfolding w'(1) set_update_where using r by force
  ultimately have "\<exists>r' \<in> set (od_offers w'). or_id r' = i \<and> or_status r' = OfferStatusSent \<and> or_net r' = 0 \<and> or_tax r' = 0 \<and> or_gross r' = 0"
    using r(2) by (intro bexI [of _ ?r]) (simp_all add: sent_patch_row totals_of_def)
  moreover have "lines_of i w' = lines_of i w" by (simp add: lines_of_def w'(2))
  ultimately show ?thesis using sent lines by (intro exI [of _ v] exI [of _ w']) simp
qed

lemma proposal_sendable: "sendable sales seller_ctx 60 (work_offer OfferStatusDraft (0, 0, 0)) drafted_by_ai"
proof -
  have "live_row seller_ctx 60 (work_offer OfferStatusDraft (0, 0, 0)) drafted_by_ai" by (rule quote_live) simp_all
  moreover have "freeze_fx ''EUR'' (or_currency (work_offer OfferStatusDraft (0, 0, 0))) (sv_now sales) (od_rates drafted_by_ai) = Inr (''1'', 0)"
    by (simp add: freeze_fx_def work_offer_def sales_def truncate_day_def fx_day_def hour_def minute_def second_def)
  moreover have "to_numeric 20 10 ''1'' = Inr 10000000000"
  proof -
    have "rat_set_string ''1'' = Some 1" by (simp add: rat_set_string_def parse_nat_def digit_value_def)
    then show ?thesis using round_half_up_int [of 10000000000] by (simp add: to_numeric_def)
  qed
  moreover have "lines_of 60 drafted_by_ai \<noteq> []" by (simp add: lines_of_def quote_db_def work_line_def)
  moreover have "or_status (work_offer OfferStatusDraft (0, 0, 0)) = OfferStatusDraft" by (simp add: work_offer_def)
  moreover have "sv_base sales w = Inr ''EUR''" "sv_name sales w = Inr ''ACME''" "sv_stamp sales d w = Inr w" for d w
    by (simp_all add: sales_def)
  moreover have "\<not> is_zero (60 :: uuid)" by (simp add: is_zero_def nil_uuid_def)
  ultimately show ?thesis
    unfolding sendable_def using seller_may(1) quote_lines sales_writes by blast
qed

theorem an_unaccepted_draft_is_sent_for_nothing_witness:
  "\<exists>v w'. send_offer sales seller_ctx 60 None drafted_by_ai = (Inr v, w') \<and> lines_of 60 w' = [work_line ProposalStaged]
     \<and> (\<exists>r \<in> set (od_offers w'). or_status r = OfferStatusSent \<and> or_gross r = 0)"
proof -
  have "stamps_only sales" by (simp add: stamps_only_def sales_def)
  moreover have lines: "lines_of 60 drafted_by_ai = [work_line ProposalStaged]" by (simp add: lines_of_def quote_db_def work_line_def)
  moreover have "\<forall>l \<in> set (lines_of 60 drafted_by_ai). lr_state l = ProposalStaged" unfolding lines by (simp add: work_line_def)
  ultimately show ?thesis
    using an_unaccepted_draft_is_sent_for_nothing [OF proposal_sendable _ quote_ok] by (fastforce simp del: split_paired_Ex)
qed

text \<open>The next revision of a number is one past the greatest it has.\<close>

lemma next_revision_is:
  assumes "next_offer_revision n w = Inr v"
  shows "v = Max (or_revision ` {x \<in> set (od_offers w). or_number x = n}) + 1"
proof -
  let ?rs = "map or_revision (filter (\<lambda>r. or_number r = n) (od_offers w))"
  have ne: "?rs \<noteq> []" and v: "v = foldr max ?rs (hd ?rs) + 1"
    using assms by (auto simp: next_offer_revision_def to_int4_def Let_def split: if_splits)
  have "foldr max xs b = Max (insert b (set xs))" for xs :: "int list" and b
    by (induction xs) (simp_all add: max.left_commute insert_commute)
  then have "foldr max ?rs (hd ?rs) = Max (insert (hd ?rs) (set ?rs))" .
  moreover have "insert (hd ?rs) (set ?rs) = set ?rs" using ne by (intro insert_absorb) (rule hd_in_set)
  ultimately show ?thesis unfolding v by simp
qed

lemma copied_whole:
  "map (\<lambda>l. l\<lparr>lr_id := 0, lr_offer := 0\<rparr>) (copy_lines ids n j ls) = map (\<lambda>l. l\<lparr>lr_id := 0, lr_offer := 0\<rparr>) ls"
  by (induction ls arbitrary: n) simp_all

lemma copied_lines:
  assumes "tables_ok w" "sv_offer_id s \<notin> or_id ` set (od_offers w)"
    and "od_lines w' = od_lines w @ copy_lines (sv_line_id s) 0 (sv_offer_id s) ls"
  shows "lines_of (sv_offer_id s) w' = copy_lines (sv_line_id s) 0 (sv_offer_id s) ls"
proof -
  have "lines_of (sv_offer_id s) w = []" by (rule no_lines_yet [OF assms(1,2)])
  then show ?thesis using copy_lines_facts(4) by (auto simp: lines_of_def assms(3) filter_id_conv)
qed

text \<open>
  C32. The next revision is the offer as it was sent, all but its template. Regenerating a sent offer marks it
  superseded and adds one row under the same number, one revision past the greatest the number has: a draft
  with the deal, currency, buyer, texts, source and totals of the offer and no snapshots, rate, file or
  acceptance. Its lines are the offer's, each with all it held but its id, and no other row or line changes. The
  template is not among the copied columns, so the new revision has none.
\<close>

theorem a_new_revision_loses_its_template:
  assumes "regenerate_offer s c i w = (Inr v, w')" "offers_ok w" "minted (length (lines_of i w)) s w"
  shows "\<exists>r n who. r \<in> set (od_offers w) \<and> or_id r = i \<and> or_status r = OfferStatusSent \<and> captured_by c = Inr who
    \<and> od_offers w' = update_where (\<lambda>x. or_id x = i) (\<lambda>x. x\<lparr>or_status := OfferStatusSuperseded, or_version := or_version x + 1\<rparr>) (od_offers w)
         @ [n]
    \<and> n = r\<lparr>or_id := sv_offer_id s, or_revision := Max (or_revision ` {x \<in> set (od_offers w). or_number x = or_number r}) + 1,
         or_status := OfferStatusDraft, or_buyer_snapshot := None, or_issuer_snapshot := None, or_fx_rate := None, or_fx_date := None,
         or_pdf := None, or_accepted_at := None, or_template := None, or_captured_by := who, or_version := 1, or_archived_at := None\<rparr>
    \<and> od_lines w' = od_lines w @ lines_of (or_id n) w'
    \<and> map (\<lambda>l. l\<lparr>lr_id := 0, lr_offer := 0\<rparr>) (lines_of (or_id n) w') = map (\<lambda>l. l\<lparr>lr_id := 0, lr_offer := 0\<rparr>) (lines_of i w)"
proof -
  have ok: "tables_ok w" using assms(2) by (simp add: offers_ok_def)
  obtain r v1 who where r: "r \<in> set (od_offers w)" "or_id r = i" "or_status r = OfferStatusSent"
    and rev: "next_offer_revision (or_number r) w = Inr v1" and who: "captured_by c = Inr who"
    and w': "od_offers w' = update_where (\<lambda>r. or_id r = i) (\<lambda>x. tb_touch offer_table (x\<lparr>or_status := OfferStatusSuperseded\<rparr>)) (od_offers w)
       @ [revision_copy (sv_offer_id s) v1 who r]"
      "od_lines w' = od_lines w @ copy_lines (sv_line_id s) 0 (sv_offer_id s) (lines_of i w)"
    by (rule regenerate_effect [OF assms(1) ok assms(3)])
  have fresh: "sv_offer_id s \<notin> or_id ` set (od_offers w)" using assms(3) by (simp add: minted_def)
  have mine: "lines_of (sv_offer_id s) w' = copy_lines (sv_line_id s) 0 (sv_offer_id s) (lines_of i w)"
    by (rule copied_lines [OF ok fresh w'(2)])
  have n: "revision_copy (sv_offer_id s) v1 who r = r\<lparr>or_id := sv_offer_id s, or_revision := v1,
         or_status := OfferStatusDraft, or_buyer_snapshot := None, or_issuer_snapshot := None, or_fx_rate := None, or_fx_date := None,
         or_pdf := None, or_accepted_at := None, or_template := None, or_captured_by := who, or_version := 1, or_archived_at := None\<rparr>"
    by (cases r) (simp add: revision_copy_def)
  have id: "or_id (revision_copy (sv_offer_id s) v1 who r) = sv_offer_id s" by (simp add: revision_copy_def)
  show ?thesis
    by (rule exI [of _ r], rule exI [of _ "revision_copy (sv_offer_id s) v1 who r"], rule exI [of _ who], unfold id mine copied_whole)
      (use r who w' n next_revision_is [OF rev] in simp)
qed

lemma quote_regenerated: "\<exists>v w'. regenerate_offer sales seller_ctx 60 sent_quote = (Inr v, w')"
proof -
  let ?r = "work_offer OfferStatusSent (4498, 855, 5353)"
  let ?n = "revision_copy 61 2 ''system'' ?r"
  let ?old = "tb_touch offer_table (?r\<lparr>or_status := OfferStatusSuperseded\<rparr>)"
  let ?line = "(work_line ProposalAccepted)\<lparr>lr_id := 90, lr_offer := 61\<rparr>"
  let ?w1 = "sent_quote\<lparr>od_offers := [?r, ?n], od_lines := [work_line ProposalAccepted, ?line]\<rparr>"
  let ?w2 = "?w1\<lparr>od_offers := [?old, ?n]\<rparr>"
  have live: "live_row seller_ctx 60 ?r sent_quote" by (rule quote_live) simp_all
  have who: "captured_by seller_ctx = Inr ''system''" by (simp add: seller_ctx_def seller_def)
  have rev: "next_offer_revision (or_number ?r) sent_quote = Inr 2"
    by (simp add: next_offer_revision_def quote_db_def work_offer_def to_int4_def in_int32_def)
  have eur: "valid_currency ''EUR''" by code_simp
  have copy: "copy_offer_into_revision sales 60 61 2 ''system'' sent_quote = Inr ((), ?w1)"
    using eur by (simp add: copy_offer_into_revision_def insert_offer_def check_currency_def quote_db_def work_offer_def revision_copy_def
        lines_of_def work_line_def sales_def)
  have rows: "apply_locked offer_table LiveOnly 60 superseded_patch (od_offers ?w1) = Inr (od_offers ?w2)"
    by (simp add: apply_locked_def selects_def live_clause_def work_offer_def revision_copy_def superseded_patch_row)
  have new: "sv_offer_id sales = 61" by (simp add: sales_def)
  obtain a l where audit: "audit_offer sales seller_ctx ''create'' 61 None (Some [(''offer_number'', JStr (or_number ?r)),
      (''from_revision'', json_number (or_revision ?r)), (''revision'', json_number 2)]) ?w2 = Inr (a, ?w2\<lparr>od_ledger := l\<rparr>)" "\<not> is_zero a"
    using audit_offer_ok [OF sales_writes] by blast
  have ids: "\<not> is_zero (60 :: uuid)" "\<not> is_zero (61 :: uuid)" by (simp_all add: is_zero_def nil_uuid_def)
  obtain l1 where e1: "emit_offer sales seller_ctx a 60 ''offer.superseded'' ''offer''
      (OfferSupersededBody (or_id ?r) (or_deal ?r) (or_revision ?r) 2) (?w2\<lparr>od_ledger := l\<rparr>) = Inr ((), ?w2\<lparr>od_ledger := l1\<rparr>)"
    using emit_offer_ok [OF sales_writes audit(2) ids(1) offer_streams(3), of "''offer''" _ "?w2\<lparr>od_ledger := l\<rparr>"] by (auto simp: dynamic_entity_def)
  obtain l2 where e2: "emit_offer sales seller_ctx a 61 ''offer.created'' ''offer''
      (OfferCreatedBody 61 (or_deal ?r) 2 (or_currency ?r) (or_source ?r) ''system'') (?w2\<lparr>od_ledger := l1\<rparr>) = Inr ((), ?w2\<lparr>od_ledger := l2\<rparr>)"
    using emit_offer_ok [OF sales_writes audit(2) ids(2) offer_streams(4), of "''offer''" _ "?w2\<lparr>od_ledger := l1\<rparr>"] by (auto simp: dynamic_entity_def)
  have "line_input_of ?line = line_input_of (work_line ProposalAccepted)" by (simp add: line_input_of_def)
  then have fig: "line_totals (line_input_of ?line) = Inr \<lparr>lf_net = 4498, lf_tax = 855, lf_total = 5353\<rparr>" using work_figures by simp
  have mine: "lines_of 61 (?w2\<lparr>od_ledger := l2\<rparr>) = [?line]" by (simp add: lines_of_def work_line_def)
  have "read_offer 61 LiveOnly (?w2\<lparr>od_ledger := l2\<rparr>) = Inr ?n"
    by (simp add: read_offer_def selects_def live_clause_def work_offer_def revision_copy_def)
  then have "answer_view 61 LiveOnly (?w2\<lparr>od_ledger := l2\<rparr>)
      = Inr ((?n, [(?line, \<lparr>lf_net = 4498, lf_tax = 855, lf_total = 5353\<rparr>)]), ?w2\<lparr>od_ledger := l2\<rparr>)"
    unfolding answer_view_def read_offer_with_lines_def read_offer_lines_def mine by (simp add: fig)
  moreover have "or_status ?r = OfferStatusSent" by (simp add: work_offer_def)
  ultimately show ?thesis
    using rev copy rows audit(1) e1 e2 live_locked [OF live] seller_may(1)
    by (simp add: who regenerate_offer_def on_sent_def Let_def run_tx_def new lift_o_def)
qed

theorem a_new_revision_loses_its_template_witness:
  "\<exists>v w'. regenerate_offer sales seller_ctx 60 sent_quote = (Inr v, w')
     \<and> map or_id (od_offers w') = [60, 61] \<and> map or_status (od_offers w') = [OfferStatusSuperseded, OfferStatusDraft]
     \<and> map or_revision (od_offers w') = [1, 2] \<and> map or_template (od_offers w') = [Some 70, None]
     \<and> map lr_price (lines_of 61 w') = [1999]"
proof -
  obtain v w' where reg: "regenerate_offer sales seller_ctx 60 sent_quote = (Inr v, w')" using quote_regenerated by blast
  have old: "lines_of 60 sent_quote = [work_line ProposalAccepted]" by (simp add: lines_of_def quote_db_def work_line_def)
  then have "minted (length (lines_of 60 sent_quote)) sales sent_quote"
    by (simp add: minted_def sales_def quote_db_def work_line_def work_offer_def)
  from a_new_revision_loses_its_template [OF reg quote_ok this] obtain r n who where
    r: "r \<in> set (od_offers sent_quote)" and rows: "od_offers w' = update_where (\<lambda>x. or_id x = 60)
        (\<lambda>x. x\<lparr>or_status := OfferStatusSuperseded, or_version := or_version x + 1\<rparr>) (od_offers sent_quote) @ [n]"
    and n: "or_id n = sv_offer_id sales" "or_status n = OfferStatusDraft" "or_template n = None"
      "or_revision n = Max (or_revision ` {x \<in> set (od_offers sent_quote). or_number x = or_number r}) + 1"
    and lines: "map (\<lambda>l. l\<lparr>lr_id := 0, lr_offer := 0\<rparr>) (lines_of (or_id n) w') = map (\<lambda>l. l\<lparr>lr_id := 0, lr_offer := 0\<rparr>) (lines_of 60 sent_quote)"
    by (auto simp del: split_paired_Ex)
  have id: "or_id n = 61" using n(1) by (simp add: sales_def)
  have "{x \<in> set (od_offers sent_quote). or_number x = or_number r} = {work_offer OfferStatusSent (4498, 855, 5353)}"
    using r by (auto simp: quote_db_def)
  then have "or_revision n = 2" using n(4) by (simp add: work_offer_def)
  moreover have "map lr_price (lines_of 61 w') = [1999]"
    using arg_cong [OF lines, of "map lr_price"] by (simp add: id old comp_def work_line_def)
  ultimately show ?thesis
    using reg rows n(2,3) id by (intro exI [of _ v] exI [of _ w'] conjI) (simp_all add: quote_db_def work_offer_def)
qed

text \<open>An edit of a draft that names a currency and gets past the checks on what else it names.\<close>

definition relabels :: "offer_svc \<Rightarrow> ctx \<Rightarrow> uuid \<Rightarrow> update_offer_input \<Rightarrow> string \<Rightarrow> offer_header \<Rightarrow> offer_db \<Rightarrow> bool" where
  "relabels s c i inp currency r w \<longleftrightarrow> uo_currency inp = Some currency \<and> valid_currency currency \<and> uo_if_version inp = None
     \<and> check_buyer c (uo_buyer_org inp) w = Inr () \<and> resolve_offer_template_ref (uo_template inp) w = Inr ()
     \<and> live_row c i r w \<and> or_status r = OfferStatusDraft \<and> require c ''offer'' ActionUpdate = Inr ()
     \<and> (\<exists>vs. read_offer_lines i w = Inr vs) \<and> writes (sv_kit s) c"

lemma header_patch_row:
  assumes "uo_currency inp = Some currency"
  shows "\<not> patch_empty (header_patch inp r)" "or_currency (patched (header_patch inp r) x) = currency"
    "or_id (patched (header_patch inp r) x) = or_id x" "or_archived_at (patched (header_patch inp r) x) = or_archived_at x"
    "or_status (patched (header_patch inp r) x) = or_status x" "totals_of (patched (header_patch inp r) x) = totals_of x"
  by (simp_all add: header_patch_def patch_opt_def patch_empty_def assms totals_of_def split: option.split)

lemma relabels_updated:
  assumes "relabels s c i inp currency r w"
  shows "\<exists>v led. update_offer s c i inp w = (Inr v, w\<lparr>od_offers := update_where (\<lambda>r. or_id r = i)
    (\<lambda>x. tb_touch offer_table (patched (header_patch inp r) x)) (od_offers w), od_ledger := led\<rparr>)"
proof -
  obtain vs where inp: "uo_currency inp = Some currency" "valid_currency currency" "uo_if_version inp = None"
    "check_buyer c (uo_buyer_org inp) w = Inr ()" "resolve_offer_template_ref (uo_template inp) w = Inr ()"
    and live: "live_row c i r w" and st: "or_status r = OfferStatusDraft" "require c ''offer'' ActionUpdate = Inr ()"
    and lines: "read_offer_lines i w = Inr vs" and wr: "writes (sv_kit s) c"
    using assms unfolding relabels_def by blast
  note row = header_patch_row [OF inp(1)]
  let ?p = "header_patch inp r"
  let ?f = "\<lambda>x. tb_touch offer_table (patched ?p x)"
  let ?w1 = "w\<lparr>od_offers := update_where (\<lambda>r. or_id r = i) ?f (od_offers w)\<rparr>"
  have upd: "update_offer_row i None ?p r w = Inr ((), ?w1)" by (rule live_written [OF live]) (simp add: row inp)
  obtain a l where audit: "audit_offer s c ''update'' i (patch_before ?p) (patch_after ?p) ?w1 = Inr (a, ?w1\<lparr>od_ledger := l\<rparr>)"
    using audit_offer_ok [OF wr] by blast
  have ans: "answer_view i LiveOnly (?w1\<lparr>od_ledger := l\<rparr>) = Inr ((?f r, vs), ?w1\<lparr>od_ledger := l\<rparr>)"
    by (rule live_answered [OF live _ _ _ _ lines]) (simp_all add: row)
  have "update_offer s c i inp w = (Inr (?f r, vs), ?w1\<lparr>od_ledger := l\<rparr>)"
    using upd audit ans live_locked [OF live] st inp(3-5) row(1)
    by (simp add: update_offer_def require_update_def on_draft_def ensure_draft_def Let_def run_tx_def)
  then show ?thesis by (intro exI [of _ "(?f r, vs)"] exI [of _ l]) simp
qed

text \<open>
  C33. Changing a draft's currency relabels its prices. An edit that names a currency and is otherwise
  admissible is taken whatever lines the draft has, as long as they can be priced, and of the money it changes the currency alone: the draft has the new currency, its totals are the same numbers,
  every line keeps its price, and no other offer changes.
\<close>

theorem a_currency_change_keeps_the_prices:
  assumes "relabels s c i inp currency r w"
  shows "\<exists>v w'. update_offer s c i inp w = (Inr v, w') \<and> od_lines w' = od_lines w
    \<and> (\<exists>r' \<in> set (od_offers w'). or_id r' = i \<and> or_status r' = OfferStatusDraft \<and> or_currency r' = currency \<and> totals_of r' = totals_of r)
    \<and> filter (\<lambda>x. or_id x \<noteq> i) (od_offers w') = filter (\<lambda>x. or_id x \<noteq> i) (od_offers w)"
proof -
  have inp: "uo_currency inp = Some currency" and r: "r \<in> set (od_offers w)" "or_id r = i" "or_status r = OfferStatusDraft"
    using assms by (simp_all add: relabels_def live_row_def)
  note row = header_patch_row [OF inp]
  let ?f = "\<lambda>x. tb_touch offer_table (patched (header_patch inp r) x)"
  obtain v led where upd: "update_offer s c i inp w
      = (Inr v, w\<lparr>od_offers := update_where (\<lambda>r. or_id r = i) ?f (od_offers w), od_ledger := led\<rparr>)"
    using relabels_updated [OF assms] by blast
  have "totals_of (x\<lparr>or_version := n\<rparr>) = totals_of x" for x n by (simp add: totals_of_def)
  then have new: "or_id (?f r) = i" "or_status (?f r) = OfferStatusDraft" "or_currency (?f r) = currency" "totals_of (?f r) = totals_of r"
    by (simp_all add: row r)
  moreover have "?f r \<in> set (update_where (\<lambda>r. or_id r = i) ?f (od_offers w))" unfolding set_update_where using r by force
  moreover have "filter (\<lambda>x. or_id x \<noteq> i) (update_where (\<lambda>r. or_id r = i) ?f xs) = filter (\<lambda>x. or_id x \<noteq> i) xs" for xs
    by (induction xs) (simp_all add: row)
  ultimately show ?thesis using upd
    by (intro exI [of _ v] exI [of _ "w\<lparr>od_offers := update_where (\<lambda>r. or_id r = i) ?f (od_offers w), od_ledger := led\<rparr>"] conjI
        bexI [of _ "?f r"]) simp_all
qed

definition in_dollars :: update_offer_input where
  "in_dollars = \<lparr>uo_currency = Some ''USD'', uo_buyer_org = None, uo_valid_until = None, uo_intro = None, uo_terms = None,
     uo_template = None, uo_if_version = None\<rparr>"

lemma quote_relabels: "relabels sales seller_ctx 60 in_dollars ''USD'' (work_offer OfferStatusDraft (4498, 855, 5353)) draft_quote"
proof -
  have "live_row seller_ctx 60 (work_offer OfferStatusDraft (4498, 855, 5353)) draft_quote" by (rule quote_live) simp_all
  moreover have "valid_currency ''USD''" by code_simp
  ultimately show ?thesis
    using seller_may(1) quote_lines sales_writes
    by (simp add: relabels_def in_dollars_def check_buyer_def resolve_offer_template_ref_def work_offer_def)
qed

theorem a_currency_change_keeps_the_prices_witness:
  "\<exists>v w'. update_offer sales seller_ctx 60 in_dollars draft_quote = (Inr v, w') \<and> od_lines w' = [work_line ProposalAccepted]
     \<and> (\<exists>r \<in> set (od_offers w'). or_currency r = ''USD'' \<and> or_gross r = 5353)"
proof -
  have old: "od_lines draft_quote = [work_line ProposalAccepted]" by (simp add: quote_db_def)
  have "totals_of r = totals_of (work_offer OfferStatusDraft (4498, 855, 5353)) \<Longrightarrow> or_gross r = 5353" for r
    by (simp add: totals_of_def work_offer_def)
  then show ?thesis using a_currency_change_keeps_the_prices [OF quote_relabels] unfolding old by blast
qed

text \<open>
  C29. Who may replace an offer's document. Storing a rendered PDF asks for the update grant on offers, for
  sight of the deal and for the version the caller rendered, and for nothing else: write authority over the
  deal, which every other change of an offer needs, is not asked for.
\<close>

theorem a_document_is_replaced_on_sight:
  assumes "offers_ok w" "r \<in> set (od_offers w)" "or_id r = i" "or_archived_at r = None" "writes (sv_kit s) c"
    and "read_offer_lines i w = Inr vs"
  shows "(\<exists>v w'. set_pdf_asset_ref s c i ref n w = (Inr v, w'))
    \<longleftrightarrow> require c ''offer'' ActionUpdate = Inr () \<and> ensure_visible c (od_scope w) ''deal'' (or_deal r) = Inr () \<and> or_version r = n"
    (is "?done \<longleftrightarrow> ?may")
proof -
  have ok: "tables_ok w" using assms(1) by (simp add: offers_ok_def)
  have sel: "selects offer_table LiveOnly i x \<longleftrightarrow> x = r" if "x \<in> set (od_offers w)" for x
    using tables_one [OF ok assms(2) that] assms(3,4) by (auto simp: selects_def live_clause_def)
  have found: "find (selects offer_table LiveOnly i) (od_offers w) = Some r"
    using sel assms(2) by (metis (no_types, lifting) find_None_iff find_SomeD not_None_eq)
  have read: "read_offer i LiveOnly w = Inr r" by (simp add: read_offer_def found)
  have put: "apply_with_version offer_table LiveOnly i n (pdf_patch ref) (od_offers w) = Inr rows \<longleftrightarrow>
      or_version r = n \<and> rows = update_where (\<lambda>x. or_id x = i) (\<lambda>x. tb_touch offer_table (patched (pdf_patch ref) x)) (od_offers w)" for rows
  proof -
    have "update_where (\<lambda>x. selects offer_table LiveOnly i x \<and> or_version x = n) f (od_offers w) = update_where (\<lambda>x. or_id x = i) f (od_offers w)"
      if "or_version r = n" for f :: "offer_header \<Rightarrow> offer_header"
    proof -
      have "(selects offer_table LiveOnly i x \<and> or_version x = n) \<longleftrightarrow> or_id x = i" if x: "x \<in> set (od_offers w)" for x
        using sel [OF x] \<open>or_version r = n\<close> assms(3) tables_one [OF ok assms(2) x] by auto
      then show ?thesis unfolding update_where_def by (intro map_cong) simp_all
    qed
    then show ?thesis using sel assms(2) by (auto simp: apply_with_version_Inr)
  qed
  show ?thesis
  proof
    assume ?done
    then show ?may
      using require_update_Inr [of c _ w] read put
      by (auto simp: set_pdf_asset_ref_def require_update_def visible_offer_def split: sum.splits dest!: run_tx_InrD)
  next
    assume may: ?may
    let ?f = "\<lambda>x. tb_touch offer_table (patched (pdf_patch ref) x)"
    let ?w1 = "w\<lparr>od_offers := update_where (\<lambda>x. or_id x = i) ?f (od_offers w)\<rparr>"
    obtain a l where audit: "audit_offer s c ''update'' i None (Some [(''pdf_asset_ref'', JStr ref)]) ?w1 = Inr (a, ?w1\<lparr>od_ledger := l\<rparr>)"
      using audit_offer_ok [OF assms(5)] by blast
    have "find (selects offer_table LiveOnly i) (update_where (\<lambda>r. or_id r = i) ?f (od_offers w)) = Some (?f r)"
    proof -
      have "selects offer_table LiveOnly i (?f x) \<longleftrightarrow> selects offer_table LiveOnly i x" for x
        by (simp add: selects_def live_clause_def pdf_patch_def)
      then have "find (selects offer_table LiveOnly i) (update_where (\<lambda>r. or_id r = i) ?f (od_offers w))
          = map_option ?f (find (selects offer_table LiveOnly i) (od_offers w))"
        by (rule find_update_where) (simp add: selects_def)
      then show ?thesis using found by simp
    qed
    moreover have "read_offer_lines i (?w1\<lparr>od_ledger := l\<rparr>) = Inr vs" using assms(6) by (simp add: read_offer_lines_def lines_of_def)
    ultimately have "answer_view i LiveOnly (?w1\<lparr>od_ledger := l\<rparr>) = Inr ((?f r, vs), ?w1\<lparr>od_ledger := l\<rparr>)"
      by (simp add: answer_view_def read_offer_with_lines_def read_offer_def)
    moreover have "apply_with_version offer_table LiveOnly i n (pdf_patch ref) (od_offers w) = Inr (od_offers ?w1)" using put may by simp
    ultimately show ?done
      using may audit read by (simp add: set_pdf_asset_ref_def require_update_def visible_offer_def run_tx_def lift_o_def)
  qed
qed

definition colleague :: ctx where
  "colleague = background\<lparr>ctx_correlation := Some 9, ctx_actor := Some \<lparr>p_type = PrincipalHuman, p_id = ''human:2'', p_user_id = 2,
     p_team_ids = [], p_passport_id = 0, p_on_behalf_of = 0, p_scopes = {}, p_seat_type = SeatFull,
     p_permissions = \<lparr>pm_role_keys = [''rep''], pm_objects = [''offer'' \<mapsto> \<lparr>g_create = False, g_read = True, g_update = True, g_delete = False\<rparr>],
       pm_row_scope = RowScopeOwn, pm_field_masks = []\<rparr>\<rparr>\<rparr>"

theorem a_document_is_replaced_on_sight_witness:
  "ensure_writable colleague (od_scope sent_quote) ''deal'' 50 = Inl ErrPermissionDenied
   \<and> (\<exists>v w'. set_pdf_asset_ref sales colleague 60 ''other.pdf'' 1 sent_quote = (Inr v, w'))"
proof -
  have "require colleague ''offer'' ActionUpdate = Inr ()" "ensure_visible colleague (od_scope sent_quote) ''deal'' 50 = Inr ()"
    "ensure_writable colleague (od_scope sent_quote) ''deal'' 50 = Inl ErrPermissionDenied"
    by code_simp+
  moreover have "writes (sv_kit sales) colleague"
    by (simp add: writes_def sales_def colleague_def actor_types_def is_zero_def nil_uuid_def)
  moreover have "work_offer OfferStatusSent (4498, 855, 5353) \<in> set (od_offers sent_quote)" by (simp add: quote_db_def)
  ultimately show ?thesis
    using a_document_is_replaced_on_sight [OF quote_ok _ _ _ _ quote_lines, of OfferStatusSent ProposalAccepted "(4498, 855, 5353)"
        "work_offer OfferStatusSent (4498, 855, 5353)" sales colleague "''other.pdf''" 1]
    by (simp add: work_offer_def)
qed

end
