(* ===== verification/Spec2Isabelle.thy ===== *)
theory Spec2Isabelle
  imports Ids Principal Text Agent_Quota Gate Rbac Row_Scope Inherited_Scope Edit_Scope Approval_Rows
    Approval_Authority Approval_Staging Approval_Redeem Approval_Decide Approval_Sweep Approval_Inbox Approval_Erasure
    Approval_Machine Event_Catalog Event_Bus Store_Kit Consent_Store Consent_Verdict Consent_Machine
    Consent_Preference Subject_Requests Money Row_Patch Offer_Totals Offer_Store Offer_Edit Offer_Lifecycle Offer_Effects
    Offer_Machine Offer_Promises
begin

text \<open>
  Margince is a CRM whose agents propose and whose people decide. This development models the part of
  its Go backend (\<^verbatim>\<open>backend/internal\<close>) that makes that true: identities and authority, the
  approvals engine, the delivery of the events it writes, the consent a mail to a customer rests on, and the
  offers a deal is priced by.
  Every definition is a translation of
  source code; what lies outside the repository's Go code (SHA-256, the JSON printers, Redis, one SQL
  query's choice of rows, the functions the composition layer registers) is an argument, with what the
  code relies on as a named hypothesis.

  The parts and how they call each other.

  \<^item> \<open>Prelude\<close>: the error sentinels of \<^verbatim>\<open>shared/apperrors\<close>, fallible results as sums
    (\<open>bindR\<close>, \<open>guardR\<close>, \<open>liftR\<close>), row updates and the lemmas
    all parts share. \<open>Machines\<close>: runs of a labelled step relation, machines with an invariant and machines with an
    abstract view (locales \<open>invariant_machine\<close>, \<open>viewed_machine\<close>). \<open>Text\<close>: what the code uses of
    \<^verbatim>\<open>strconv\<close> and \<^verbatim>\<open>encoding/json\<close>.
  \<^item> \<open>Ids\<close> (\<^verbatim>\<open>shared/kernel/ids\<close>): UUIDs, their text form and parser, the UUIDv7 mint with its
    millisecond and counter state. \<open>Principal\<close> (\<^verbatim>\<open>shared/kernel/principal\<close>): actors, scopes, seats,
    permissions and the request context.
  \<^item> \<open>Agent_Quota\<close> (\<^verbatim>\<open>platform/agentquota\<close>): the volume meter over a store of counters
    (\<open>INCRBY\<close>, \<open>EXPIRE\<close>, \<open>MGET\<close>; expiry itself is not modelled) and the step-up release. \<open>Gate\<close> (\<^verbatim>\<open>platform/auth/admit.go\<close>, \<^verbatim>\<open>quota.go\<close>): the admission of an agent's
    call, which reads the meter through the locale \<open>quota_meter\<close>.
  \<^item> \<open>Rbac\<close>, \<open>Row_Scope\<close>, \<open>Inherited_Scope\<close> (\<^verbatim>\<open>platform/auth\<close>): object grants, the row
    predicates the SQL renders (as predicates over explicit tables), write authority, field masks, and
    what activities, signals and relationships inherit from their links.
  \<^item> \<open>Edit_Scope\<close> (\<^verbatim>\<open>kernel/diffhash\<close>, \<^verbatim>\<open>approvals/editscope.go\<close>): canonical JSON, the diff
    hash and the comparisons an edited proposal has to pass.
  \<^item> \<open>Approval_Rows\<close>, \<open>Approval_Authority\<close>, \<open>Approval_Staging\<close>, \<open>Approval_Redeem\<close>,
    \<open>Approval_Decide\<close>, \<open>Approval_Sweep\<close>, \<open>Approval_Inbox\<close> (\<^verbatim>\<open>modules/approvals\<close>): the row and
    the policy tables; who may see and decide; staging with its identities, joins and supersession;
    redemption; decisions, edits, bundles and effects; the expiry sweep; the paged inbox.
    A transaction is a function from the world (the tables, the audit log, the outbox, the meter's
    store) to an error or a result with the next world, and \<open>run_tx\<close> keeps the old world on an error.
  \<^item> \<open>Approval_Erasure\<close> (\<^verbatim>\<open>modules/privacy/erasure_approvals.go\<close>): the scrubs of an erasure and of a
    retention pass over staged proposals, the only statements outside \<^verbatim>\<open>modules/approvals\<close> that update them.
  \<^item> \<open>Approval_Machine\<close>: all of those operations as one state machine (\<open>engine_step\<close>), with the life of a
    row as its specification (\<open>life_step\<close>) and the invariant \<open>consistent\<close>. A run ends at a data reset
    (\<^verbatim>\<open>compose/datasweep.go\<close>), which deletes approvals and outbox rows alike, and no user is deleted in it.
  \<^item> \<open>Event_Catalog\<close> (\<^verbatim>\<open>shared/kernel/events\<close>): the event types, routing, versions and the envelope
    \<open>emit\<close> validates. \<open>Event_Bus\<close> (\<^verbatim>\<open>platform/events\<close>): the outbox relay, the consumer and the
    dedupe wrapper, and the machine they implement.
  \<^item> \<open>Store_Kit\<close> (\<^verbatim>\<open>platform/database/storekit\<close>): the audit row and the event every write of a
    module commits with itself. \<open>Paging\<close>: a walk by keyset cursors and what it covers (locale
    \<open>keyset_pages\<close>, interpreted by the inbox and by the request queue).
  \<^item> \<open>Consent_Store\<close> (\<^verbatim>\<open>modules/consent/store.go\<close>, \<^verbatim>\<open>purpose.go\<close>): the consent state of a person
    and purpose, its proof events, double opt-in tokens, and what merge and promotion carry over.
    \<open>Consent_Verdict\<close> (\<^verbatim>\<open>verdict.go\<close>, \<^verbatim>\<open>gate.go\<close>): whether a message may be sent.
    \<open>Consent_Machine\<close>: the writers of consent as one state machine over an invariant.
    \<open>Consent_Preference\<close> (\<^verbatim>\<open>preference.go\<close>, \<^verbatim>\<open>handlers_public.go\<close>): the preference links and the
    public centre. \<open>Subject_Requests\<close> (\<^verbatim>\<open>dsr.go\<close>): the data-subject request queue as a state machine.
  \<^item> \<open>Money\<close> (\<^verbatim>\<open>shared/kernel/values\<close>): currencies, amounts in minor units, plain decimals.
    \<open>Row_Patch\<close> (\<^verbatim>\<open>storekit/patch.go\<close>): partial updates under a version or a row lock.
    \<open>Offer_Totals\<close> (\<^verbatim>\<open>modules/deals/offer_totals.go\<close>): what a line and an offer come to, over exact
    rationals. \<open>Offer_Store\<close>, \<open>Offer_Edit\<close>, \<open>Offer_Lifecycle\<close> (\<^verbatim>\<open>offer.go\<close>,
    \<^verbatim>\<open>offer_lines.go\<close>, \<^verbatim>\<open>offer_staged.go\<close>, \<^verbatim>\<open>offer_read.go\<close>,
    \<^verbatim>\<open>offer_lifecycle.go\<close>, \<^verbatim>\<open>offer_render.go\<close>): the offer and line tables with their constraints,
    the edits a draft admits, and sending, accepting, rejecting, regenerating and rendering.
    \<open>Offer_Effects\<close>: what each of them leaves in the tables. \<open>Offer_Machine\<close>: all of them as one state
    machine with its invariant and the life of one offer as its specification. \<open>Offer_Promises\<close>: its properties.
  \<^item> This theory: a property that spans the decision, the effect and the meter.

  What the lemmas show. For each operation: its result on every branch, errors included
  (\<open>decision_exact\<close>, \<open>redemption_accepts_exactly\<close>, \<open>admit_agent_exactly_when\<close>). For the engine: each
  operation, whatever its hooks do, is a run of the machine (\<open>entry_points_are_runs_facts\<close>), every step is one
  the specification allows (\<open>engine_refines_life\<close>), the invariant holds in every reachable world
  (\<open>consistency_is_invariant\<close>), so a row is answered once and spent once (\<open>one_answer_and_one_use\<close>), and a
  proposal an erasure emptied can no longer be granted (\<open>erasure_leaves_nothing_to_approve\<close>). For delivery: nothing committed is lost, an entry is acknowledged only after its handler ran to success
  (\<open>acknowledged_means_handled\<close>, over the code's \<open>dedupe\<close> and \<open>deliver_all\<close>), and the code is a run of the bus
  machine, which is a specification of its own and translates no code. For consent: the verdict on every branch of its rules, the state of a row
  rests on the newest of its proof events (\<open>consent_rests_on_its_proof\<close>), a withdrawal stands until the
  person is asked again (\<open>a_withdrawal_stands_until_regranted\<close>) with the one race that breaks it, and a
  request closes once. For offers: the engine is within half a unit of the exact figures and never wraps
  (\<open>a_line_is_priced_to_half_a_unit\<close>), the stored totals are the accepted lines' in every reachable state
  (\<open>offers_reconcile_in_every_state\<close>), what was sent stays what it was (\<open>a_sent_offer_is_a_fixed_record\<close>),
  and the places where a comment promises more than the code keeps. The properties are the numbered theorems; each one with a hypothesis is applied
  at a concrete instance by the theorem named after it with the suffix \<open>_witness\<close>.

  Bounds. The code's loops are recursions over lists, the retry loops over the observations of one
  pass each, and the inbox scan is given as many pages as there are rows left, so no definition needs fuel
  that could run out. Instants are milliseconds or microseconds as integers where the code compares them.
  Machine integers keep their width where the code relies on it: UUID fields and the v7 counter are words,
  int64 arithmetic of the meter is written with its range (\<open>in_int64\<close>). Amounts are 64-bit words; the
  rationals of \<^verbatim>\<open>math/big\<close> are exact, and a numeric column is an integer count of its last decimal place
  with the column's precision checked. The line ids of one call are required to be new and distinct for the
  number of lines it inserts (\<open>minted\<close>), since no supply of 128-bit ids is without repetition for ever.

  Concurrency. PostgreSQL transactions are atomic steps, under the advisory locks and row locks the code
  takes; consumers of the bus interleave between single Redis commands, and relays are serialised by the
  rows they lock. A writer of consent and an update of a request read before they write with no lock
  between, so the steps of those two machines take what was read from an earlier state. Every change of an offer
  locks its row first or names its version in the statement, so its operations are single steps.

  Not modelled: HTTP transport and the generated contracts, the composition layer beyond the functions
  the engine calls, the front ends, and the CRM's other modules (of \<^verbatim>\<open>modules/deals\<close> only the offers:
  pipelines, stages, products and fx rates are rows they read); an offer's HTTP handlers, its paged list, the template's
  locale and layout and the drawing of the PDF; a key's expiry in Redis, so what is said of a repeated event or
  of the meter holds within the life of its keys; the installation's settings, the stamp on a deal's correspondence
  and the ids an offer's call mints are parameters (\<open>offer_svc\<close>); of merging and promoting people only what is done to
  consent; the rate limits and the reasons' prose of the public pages; the erasure a request for deletion
  runs, which is a parameter under the contract \<open>eraser_contract\<close>, its scrub of the approvals apart; the signed redemption token and the summary sanitizer of
  \<^verbatim>\<open>modules/approvals\<close>; the subscriber's blocking read and reclaim loops; metrics, logging and
  tracing.
\<close>

section \<open>A granted step-up reaches the meter\<close>

text \<open>The composition root installs the meter's \<open>Release\<close> as the service's quota releaser.\<close>

definition releases_on :: "'s meter \<Rightarrow> 's service \<Rightarrow> bool" where
  "releases_on m s \<longleftrightarrow> svc_quota s = Some (\<lambda>ws pp ct b q. release m q ws pp ct b)"

lemma decide_quota_release:
  assumes "decide s c i True reason w = (Inr b, w')" "releases_on m s" "get_row i w = Inr a"
    and "ap_kind a = kind_quota_release" "svc_prechecks s kind_quota_release = None"
  shows "\<exists>pp ws prop n r. ap_passport_id a = Some pp \<and> ctx_workspace c = Some ws
    \<and> decode_release_proposal (ap_proposed_change a) = Inr prop \<and> proposal_window prop = Inr n
    \<and> release m (w_quota w) ws pp (rp_counter prop) n = (Inr r, w_quota w')"
proof -
  have pre: "run_precheck s c i True None w = (Inr (), w)"
    using assms(3-5) by (auto simp: run_precheck_def get_approval_def get_decidable_iff bindR_Inr_iff
        split: sum.splits option.splits)
  obtain p w2 where p: "decide_tx s c p i True reason None w = Inr (b, w2)"
    and eff: "run_decision_effect s c i b True w2 = (Inr (), w')"
    using assms(1) pre
    by (auto simp: decide_def decide_any_def run_tx_def split: sum.splits option.splits prod.splits)
  have d: "decide_in_tx s c p i True reason None w = Inr (b, w2)"
    using p by (auto simp: decide_tx_def run_decline_def split: option.splits)
  obtain ed where row: "b = settle True (p_user_id p) (w_now w) reason (apply_edit ed a)" "decide_edit s a None = Inr ed"
    and env: "same_env w w2"
    by (rule decide_in_tx_effect [OF d]) (use assms(3) in auto)
  then have "ed = None" by (simp add: decide_edit_def)
  then have same: "ap_kind b = kind_quota_release" "ap_passport_id b = ap_passport_id a"
    "ap_proposed_change b = ap_proposed_change a" using row(1) assms(4) by simp_all
  have "w_quota w2 = w_quota w" using env by (simp add: same_env_def)
  then show ?thesis
    using eff assms(2) same
    by (auto simp: run_decision_effect_def apply_quota_release_def releases_on_def
        split: option.splits sum.splits prod.splits)
qed

lemma step_up_widens_the_stagers_allowance_facts:
  assumes "decide s c i True reason w = (Inr b, w')" "releases_on m s" "get_row i w = Inr a"
    and "ap_kind a = kind_quota_release" "svc_prechecks s kind_quota_release = None"
    and "redis_laws rdb view" "store_ok view (w_quota w)" "m_rdb m = Some rdb" "\<not> m_unbounded m"
    and "ctx_workspace c = Some ws" "ap_passport_id a = Some pp" "governed c2"
    and "caller_key c2 = (ws, uuid_string pp, True)" "ws \<noteq> nil_uuid" "pp \<noteq> nil_uuid"
    and "decode_release_proposal (ap_proposed_change a) = Inr prop" "proposal_window prop = Inr n"
    and "released = counted view (w_quota w) (release_key ws (uuid_string pp) (rp_counter prop) (bucket m))"
    and "in_int64 (limit_of (m_limits m) (rp_counter prop) * (released + 1))" "in_int64 (released + 2)"
    and "in_int64 (limit_of (m_limits m) (rp_counter prop) * (released + 2))"
  shows "n = bucket m \<Longrightarrow>
      r_limit (meter_read m (w_quota w') c2 (rp_counter prop))
        = r_limit (meter_read m (w_quota w) c2 (rp_counter prop))
          + r_allowance (meter_read m (w_quota w) c2 (rp_counter prop))
      \<and> r_observed (meter_read m (w_quota w') c2 (rp_counter prop))
        = r_observed (meter_read m (w_quota w) c2 (rp_counter prop))"
    and "n < bucket m \<Longrightarrow> w_quota w' = w_quota w" and "n \<le> bucket m"
proof -
  let ?ct = "rp_counter prop"
  obtain r where run: "release m (w_quota w) ws pp ?ct n = (Inr r, w_quota w')"
    using decide_quota_release [OF assms(1-5)] assms(10,11,16,17) by auto
  have ct: "releasable ?ct" using assms(16) by (auto simp: decode_release_proposal_def split: option.splits if_splits)
  note widen = release_widens_one_allowance_facts [OF assms(6-9,12,13) ct assms(14,15,18-21)]
  show "r_limit (meter_read m (w_quota w') c2 ?ct)
        = r_limit (meter_read m (w_quota w) c2 ?ct) + r_allowance (meter_read m (w_quota w) c2 ?ct)
      \<and> r_observed (meter_read m (w_quota w') c2 ?ct) = r_observed (meter_read m (w_quota w) c2 ?ct)"
    if "n = bucket m" using widen(1) run that by auto
  show "w_quota w' = w_quota w" if "n < bucket m" using widen(2) [OF that] run by simp
  show "n \<le> bucket m" using run ct assms(14,15) by (auto simp: release_def split: if_splits)
qed

text \<open>
  C23. An approved step-up reaches the meter it was asked for. When a human's approval of a volume step-up
  is answered, the passport that staged it (and no passport the payload could name) reads one more
  allowance on the released counter in the window the human was shown, its observed volume standing; a
  question about a window that has rolled over releases nothing; and no approval is answered for a
  window that has not begun.
\<close>

theorem step_up_widens_the_stagers_allowance:
  assumes "decide s c i True reason w = (Inr b, w')" "releases_on m s" "get_row i w = Inr a"
    and "ap_kind a = kind_quota_release" "svc_prechecks s kind_quota_release = None"
    and "redis_laws rdb view" "store_ok view (w_quota w)" "m_rdb m = Some rdb" "\<not> m_unbounded m"
    and "ctx_workspace c = Some ws" "ap_passport_id a = Some pp" "governed c2"
    and "caller_key c2 = (ws, uuid_string pp, True)" "ws \<noteq> nil_uuid" "pp \<noteq> nil_uuid"
    and "decode_release_proposal (ap_proposed_change a) = Inr prop" "proposal_window prop = Inr n"
    and "released = counted view (w_quota w) (release_key ws (uuid_string pp) (rp_counter prop) (bucket m))"
    and "in_int64 (limit_of (m_limits m) (rp_counter prop) * (released + 1))" "in_int64 (released + 2)"
    and "in_int64 (limit_of (m_limits m) (rp_counter prop) * (released + 2))"
  shows "(n = bucket m \<longrightarrow>
      (r_limit (meter_read m (w_quota w') c2 (rp_counter prop))
        = r_limit (meter_read m (w_quota w) c2 (rp_counter prop))
          + r_allowance (meter_read m (w_quota w) c2 (rp_counter prop))
      \<and> r_observed (meter_read m (w_quota w') c2 (rp_counter prop))
        = r_observed (meter_read m (w_quota w) c2 (rp_counter prop))))
    \<and> (n < bucket m \<longrightarrow> w_quota w' = w_quota w) \<and> n \<le> bucket m"
  by (assumption | rule step_up_widens_the_stagers_allowance_facts [OF assms] conjI impI)+

text \<open>A workspace whose meter is the reference store, and one agent's staged step-up for today.\<close>

definition step_up_service :: "(string \<Rightarrow> int option) service" where
  "step_up_service =
     \<lparr>svc_now = 10, svc_effects = (\<lambda>_. None), svc_prechecks = (\<lambda>_. None), svc_declines = (\<lambda>_. None),
      svc_expiries = (\<lambda>_. None), svc_quota = Some (\<lambda>ws pp ct b q. release day_meter q ws pp ct b),
      svc_num = Some, svc_sha = (\<lambda>_. ''h''), svc_pg = string_render, svc_go = string_render, svc_sanitize = id, svc_event_id = (\<lambda>_. 1),
      svc_audit_id = (\<lambda>_. 1)\<rparr>"

definition step_up_question :: approval where
  "step_up_question = pending_move\<lparr>ap_kind := kind_quota_release, ap_target_type := None, ap_target_id := None,
     ap_target_version := None,
     ap_proposed_change := JObj [(''counter'', JStr ''writes''), (''bucket'', JStr ''20000'')]\<rparr>"

definition step_up_world :: "(string \<Rightarrow> int option) world" where
  "step_up_world =
     \<lparr>w_db = sample_act_db, w_offers = [], w_views = [], w_config = (\<lambda>_. []), w_versions = (\<lambda>_ _. None),
      w_approvals = [step_up_question], w_audit = [], w_outbox = [], w_quota = Map.empty\<rparr>"

definition step_up_proposal :: release_proposal where
  "step_up_proposal = \<lparr>rp_counter = Writes, rp_observed = 0, rp_limit = 0, rp_allowance = 0,
     rp_bucket = ''20000'', rp_passport = [], rp_tool = []\<rparr>"

lemma step_up_answered:
  "\<exists>b w'. decide step_up_service rep_decides 1 True None step_up_world = (Inr b, w')"
proof -
  let ?p = "rep RowScopeOwn"
  have row: "get_row 1 step_up_world = Inr step_up_question" by code_simp
  have grants: "decidable rep_decides step_up_world ?p step_up_question = Inr True"
    "agent_may_decide ?p step_up_question True = Inr ()" by code_simp+
  have "effective_status step_up_question (svc_now step_up_service) = Pending"
    "decide_edit step_up_service step_up_question None = Inr None" by code_simp+
  moreover have em: "can_emit step_up_service rep_decides ?p 1"
    by (rule rep_can_emit) (simp add: ids_minted_def step_up_service_def is_zero_def nil_uuid_def)
  ultimately obtain w2 where d: "decide_in_tx step_up_service rep_decides ?p 1 True None None step_up_world
      = Inr (settle True (p_user_id ?p) (w_now step_up_world) None step_up_question, w2)"
    using decide_in_tx_commits [OF row grants, of step_up_service None None None] em by auto
  let ?b = "settle True (p_user_id ?p) (w_now step_up_world) None step_up_question"
  have env: "w_quota w2 = Map.empty"
    by (rule decide_in_tx_effect [OF d]) (simp add: same_env_def step_up_world_def)
  have dec: "decode_release_proposal (ap_proposed_change ?b) = Inr step_up_proposal"
    "proposal_window step_up_proposal = Inr 20000"
    by (simp_all only: settle_simps) code_simp+
  have win: "ap_passport_id ?b = Some 2" "ap_kind ?b = kind_quota_release"
    by (simp_all add: step_up_question_def pending_move_def sample_approval_def)
  obtain q where "release day_meter Map.empty 1 2 Writes 20000 = (Inr True, q)"
    using release_widens_one_allowance_witness by blast
  then have "\<exists>w'. run_decision_effect step_up_service rep_decides 1 ?b True w2 = (Inr (), w')"
    using env dec win
    by (simp add: run_decision_effect_def apply_quota_release_def step_up_service_def step_up_proposal_def
        rep_decides_def rep_ctx_def)
  moreover have "acting_for_a_human rep_decides = Inr ()" by code_simp
  ultimately show ?thesis
    using d row
    by (auto simp: decide_def decide_any_def run_precheck_def decide_tx_def run_decline_def run_tx_def
        step_up_service_def split: sum.splits)
qed

theorem step_up_widens_the_stagers_allowance_witness:
  "\<exists>b w'. decide step_up_service rep_decides 1 True None step_up_world = (Inr b, w')
     \<and> r_limit (meter_read day_meter (w_quota w') (agent_ctx 1 2) Writes) = 400"
proof -
  obtain b w' where d: "decide step_up_service rep_decides 1 True None step_up_world = (Inr b, w')"
    using step_up_answered by blast
  have key: "caller_key (agent_ctx 1 2) = (1, uuid_string 2, True)"
    by (rule agent_ctx_caller) (simp add: nil_uuid_def)
  have row: "get_row 1 step_up_world = Inr step_up_question" by code_simp
  have dec: "decode_release_proposal (ap_proposed_change step_up_question) = Inr step_up_proposal"
    "proposal_window step_up_proposal = Inr 20000" by code_simp+
  have on: "releases_on day_meter step_up_service" "svc_prechecks step_up_service kind_quota_release = None"
    by (simp_all add: releases_on_def step_up_service_def)
  have q: "store_ok (\<lambda>s. s) (w_quota step_up_world)" "w_quota step_up_world = Map.empty"
    by (simp_all add: step_up_world_def store_ok_empty)
  have "r_limit (meter_read day_meter (w_quota w') (agent_ctx 1 2) Writes)
      = r_limit (meter_read day_meter Map.empty (agent_ctx 1 2) Writes)
        + r_allowance (meter_read day_meter Map.empty (agent_ctx 1 2) Writes)"
    using step_up_widens_the_stagers_allowance [THEN conjunct1, OF d on(1) row _ on(2) map_redis_laws q(1)
        day_meter_simps(1,2) _ _ agent_ctx_governed key _ _ dec refl]
    by (simp add: step_up_question_def pending_move_def sample_approval_def nil_uuid_def rep_decides_def
        rep_ctx_def step_up_proposal_def day_meter_simps counted_def q(2) in_int64_def)
  moreover have "meter_read day_meter Map.empty (agent_ctx 1 2) Writes
      = \<lparr>r_counter = Writes, r_observed = 0, r_limit = 200, r_allowance = 200, r_exceeded = False, r_bucket = 20000\<rparr>"
    using meter_read_counted [OF map_redis_laws store_ok_empty day_meter_simps(1,2) agent_ctx_governed key, of Writes]
    by (simp add: counted_def effective_limit_def day_meter_simps)
  ultimately show ?thesis using d by auto
qed

end
